(* ===== verification/Prelude.thy ===== *)
theory Prelude
  imports "HOL-Library.Word" "HOL-Library.Monad_Syntax"
begin

text \<open>
  The vocabulary shared by the theories of the security library: the integer types of
  \<^verbatim>\<open>lw/types.h\<close>, memory blocks with checked access, the flag macros, and the
  \<^verbatim>\<open>scalar_field\<close> interface through which every structure field is read and written.

  A C pointer to a structure is the list of bytes from the pointer to the end of its
  allocation.  An access outside the block is undefined behaviour of the C program and is the
  value \<^term>\<open>None\<close>; an operation that is defined has the form \<^term>\<open>Some r\<close>.  Multi-byte
  fields are little-endian, as on the hosts where \<^verbatim>\<open>LW_HTOL32\<close> is the identity.
\<close>

unbundle bit_operations_syntax

section \<open>Integer types\<close>

type_synonym byte = "8 word"
type_synonym UCHAR = "8 word"
type_synonym USHORT = "16 word"
type_synonym ULONG = "32 word"
type_synonym ACCESS_MASK = "32 word"

type_synonym mem = "8 word list"


section \<open>Flag macros\<close>

definition SetFlag :: "'a::len word \<Rightarrow> 'a word \<Rightarrow> 'a word" where
  "SetFlag Variable Flags = Variable OR Flags"

definition ClearFlag :: "'a::len word \<Rightarrow> 'a word \<Rightarrow> 'a word" where
  "ClearFlag Variable Flags = Variable AND NOT Flags"

definition IsSetFlag :: "'a::len word \<Rightarrow> 'a word \<Rightarrow> bool" where
  "IsSetFlag Variable Flags = (Variable AND Flags \<noteq> 0)"

definition LW_IS_VALID_FLAGS :: "'a::len word \<Rightarrow> 'a word \<Rightarrow> bool" where
  "LW_IS_VALID_FLAGS Variable AllFlags = (Variable AND NOT AllFlags = 0)"

section \<open>Memory blocks\<close>

definition rdn :: "mem \<Rightarrow> nat \<Rightarrow> nat \<Rightarrow> byte list option" where
  "rdn m off n = (if off + n \<le> length m then Some (take n (drop off m)) else None)"

definition wrn :: "mem \<Rightarrow> nat \<Rightarrow> byte list \<Rightarrow> mem option" where
  "wrn m off bs =
    (if off + length bs \<le> length m
     then Some (take off m @ bs @ drop (off + length bs) m) else None)"

definition enc8 :: "UCHAR \<Rightarrow> byte list" where
  "enc8 w = [w]"

definition dec8 :: "byte list \<Rightarrow> UCHAR" where
  "dec8 bs = bs ! 0"

definition enc16 :: "USHORT \<Rightarrow> byte list" where
  "enc16 w = [ucast w, ucast (drop_bit 8 w)]"

definition dec16 :: "byte list \<Rightarrow> USHORT" where
  "dec16 bs = word_of_nat (unat (bs ! 0) + 256 * unat (bs ! 1))"

definition enc32 :: "ULONG \<Rightarrow> byte list" where
  "enc32 w = [ucast w, ucast (drop_bit 8 w), ucast (drop_bit 16 w), ucast (drop_bit 24 w)]"

definition dec32 :: "byte list \<Rightarrow> ULONG" where
  "dec32 bs = word_of_nat (unat (bs ! 0) + 256 * unat (bs ! 1)
                 + 65536 * unat (bs ! 2) + 16777216 * unat (bs ! 3))"

definition rd8 :: "mem \<Rightarrow> nat \<Rightarrow> UCHAR option" where
  "rd8 m off = map_option dec8 (rdn m off 1)"

definition rd16 :: "mem \<Rightarrow> nat \<Rightarrow> USHORT option" where
  "rd16 m off = map_option dec16 (rdn m off 2)"

definition rd32 :: "mem \<Rightarrow> nat \<Rightarrow> ULONG option" where
  "rd32 m off = map_option dec32 (rdn m off 4)"

definition wr8 :: "mem \<Rightarrow> nat \<Rightarrow> UCHAR \<Rightarrow> mem option" where
  "wr8 m off w = wrn m off (enc8 w)"

definition wr16 :: "mem \<Rightarrow> nat \<Rightarrow> USHORT \<Rightarrow> mem option" where
  "wr16 m off w = wrn m off (enc16 w)"

definition wr32 :: "mem \<Rightarrow> nat \<Rightarrow> ULONG \<Rightarrow> mem option" where
  "wr32 m off w = wrn m off (enc32 w)"

text \<open>The C library's block operations.  \<^verbatim>\<open>memcpy\<close> between overlapping parts of one block
  is undefined; \<^verbatim>\<open>memmove\<close> reads the whole source first.\<close>

definition memset :: "mem \<Rightarrow> nat \<Rightarrow> byte \<Rightarrow> nat \<Rightarrow> mem option" where
  "memset m off v n = wrn m off (replicate n v)"

definition memcpy :: "mem \<Rightarrow> nat \<Rightarrow> mem \<Rightarrow> nat \<Rightarrow> nat \<Rightarrow> mem option" where
  "memcpy dst doff src soff n = do { bs \<leftarrow> rdn src soff n; wrn dst doff bs }"

definition memmove :: "mem \<Rightarrow> nat \<Rightarrow> nat \<Rightarrow> nat \<Rightarrow> mem option" where
  "memmove m doff soff n = do { bs \<leftarrow> rdn m soff n; wrn m doff bs }"

definition memcpy_within :: "mem \<Rightarrow> nat \<Rightarrow> nat \<Rightarrow> nat \<Rightarrow> mem option" where
  "memcpy_within m doff soff n =
    (if n = 0 \<or> doff + n \<le> soff \<or> soff + n \<le> doff then memmove m doff soff n else None)"

definition RtlEqualMemory :: "mem \<Rightarrow> mem \<Rightarrow> nat \<Rightarrow> bool option" where
  "RtlEqualMemory a b n = do { x \<leftarrow> rdn a 0 n; y \<leftarrow> rdn b 0 n; Some (x = y) }"

definition ptr_add :: "mem \<Rightarrow> nat \<Rightarrow> mem option" where
  "ptr_add m off = (if off \<le> length m then Some (drop off m) else None)"

section \<open>The interface of a scalar field\<close>

locale scalar_field =
  fixes enc :: "'w \<Rightarrow> byte list"
    and dec :: "byte list \<Rightarrow> 'w"
    and width :: nat
    and get :: "mem \<Rightarrow> nat \<Rightarrow> 'w option"
    and put :: "mem \<Rightarrow> nat \<Rightarrow> 'w \<Rightarrow> mem option"
  assumes enc_length: "length (enc w) = width"
    and dec_enc: "dec (enc w) = w"
    and enc_dec: "length bs = width \<Longrightarrow> enc (dec bs) = bs"
    and get_eq: "get m off = map_option dec (rdn m off width)"
    and put_eq: "put m off w = wrn m off (enc w)"
begin

lemma get_defined: "(\<exists>w. get m off = Some w) \<longleftrightarrow> off + width \<le> length m"
  by (auto simp: get_eq rdn_def)

lemma get_None: "get m off = None \<longleftrightarrow> length m < off + width"
  by (auto simp: get_eq rdn_def)

lemma put_defined: "(\<exists>m'. put m off w = Some m') \<longleftrightarrow> off + width \<le> length m"
  by (auto simp: put_eq wrn_def enc_length)

lemma put_length: "put m off w = Some m' \<Longrightarrow> length m' = length m"
  by (auto simp: put_eq wrn_def enc_length split: if_splits)

lemma get_put_same: "put m off w = Some m' \<Longrightarrow> get m' off = Some w"
  by (auto simp: put_eq get_eq wrn_def rdn_def enc_length dec_enc split: if_splits)

lemma put_get_same: "get m off = Some w \<Longrightarrow> put m off w = Some m"
proof -
  assume "get m off = Some w"
  then have le: "off + width \<le> length m" and w: "w = dec (take width (drop off m))"
    by (auto simp: get_eq rdn_def split: if_splits)
  have "enc w = take width (drop off m)"
    using le w by (simp add: enc_dec)
  moreover have "take off m @ take width (drop off m) @ drop (off + width) m = m"
    by (metis add.commute append_take_drop_id drop_drop)
  ultimately show ?thesis
    using le by (simp add: put_eq wrn_def enc_length)
qed

lemma get_Some: "get m off = Some w \<Longrightarrow> off + width \<le> length m \<and> take width (drop off m) = enc w"
  by (auto simp: get_eq rdn_def enc_dec split: if_splits)

lemma get_append_left: "off + width \<le> length xs \<Longrightarrow> get (xs @ ys) off = get xs off"
  by (auto simp: get_eq rdn_def)

lemma get_append_right: "length xs \<le> off \<Longrightarrow> get (xs @ ys) off = get ys (off - length xs)"
  by (auto simp: get_eq rdn_def)

lemma get_drop: "k \<le> length m \<Longrightarrow> get (drop k m) off = get m (k + off)"
  by (auto simp: get_eq rdn_def add.commute add.left_commute)

lemma get_take: "off + width \<le> n \<Longrightarrow> n \<le> length m \<Longrightarrow> get (take n m) off = get m off"
  by (auto simp: get_eq rdn_def min_def drop_take)

lemma get_enc: "get (xs @ enc w @ ys) (length xs) = Some w"
  by (auto simp: get_eq rdn_def enc_length dec_enc)

lemma put_enc:
  "length v = width \<Longrightarrow> put (xs @ v @ ys) (length xs) w = Some (xs @ enc w @ ys)"
  by (auto simp: put_eq wrn_def enc_length)

text \<open>Arrays of fields.\<close>

lemma array_length: "length (concat (map enc ws)) = width * length ws"
  by (induction ws) (simp_all add: enc_length)

lemma array_split:
  "i < length ws \<Longrightarrow> concat (map enc (ws[i := w])) = concat (map enc (take i ws)) @ enc w @ concat (map enc (drop (Suc i) ws))"
  by (simp add: upd_conv_take_nth_drop)

lemma get_array:
  assumes "i < length ws"
  shows "get (xs @ concat (map enc ws) @ ys) (length xs + width * i) = Some (ws ! i)"
proof -
  have "length (xs @ concat (map enc (take i ws))) = length xs + width * i"
    using assms by (simp add: array_length)
  then show ?thesis
    using get_enc[of "xs @ concat (map enc (take i ws))" "ws ! i" "concat (map enc (drop (Suc i) ws)) @ ys"]
      array_split[OF assms, of "ws ! i"] by simp
qed

lemma put_array:
  assumes "i < length ws"
  shows "put (xs @ concat (map enc ws) @ ys) (length xs + width * i) w = Some (xs @ concat (map enc (ws[i := w])) @ ys)"
proof -
  have "length (xs @ concat (map enc (take i ws))) = length xs + width * i"
    using assms by (simp add: array_length)
  then show ?thesis
    using put_enc[of "enc (ws ! i)" "xs @ concat (map enc (take i ws))" "concat (map enc (drop (Suc i) ws)) @ ys" w]
      array_split[OF assms, of "ws ! i"] array_split[OF assms, of w] by (simp add: enc_length)
qed

end

section \<open>Block lemmas\<close>

lemma rdn_Some_iff:
  "rdn m off n = Some bs \<longleftrightarrow> off + n \<le> length m \<and> bs = take n (drop off m)"
  by (auto simp: rdn_def)

lemma rdn_length: "rdn m off n = Some bs \<Longrightarrow> length bs = n"
  by (auto simp: rdn_def split: if_splits)

lemma wrn_length: "wrn m off bs = Some m' \<Longrightarrow> length m' = length m"
  by (auto simp: wrn_def split: if_splits)

lemma wrn_defined: "(\<exists>m'. wrn m off bs = Some m') \<longleftrightarrow> off + length bs \<le> length m"
  by (auto simp: wrn_def)

lemma rdn_wrn_same: "wrn m off bs = Some m' \<Longrightarrow> rdn m' off (length bs) = Some bs"
  by (auto simp: wrn_def rdn_def split: if_splits)

lemma rdn_wrn_other:
  assumes "wrn m off bs = Some m'" and "o2 + n \<le> off \<or> off + length bs \<le> o2"
  shows "rdn m' o2 n = rdn m o2 n"
proof -
  have m': "m' = take off m @ bs @ drop (off + length bs) m" and le: "off + length bs \<le> length m"
    using assms(1) by (auto simp: wrn_def split: if_splits)
  have len: "length m' = length m"
    using m' le by simp
  have "take n (drop o2 m') = take n (drop o2 m)"
    using assms(2)
  proof
    assume "o2 + n \<le> off"
    then have "n \<le> length (drop o2 (take off m))" and "n \<le> off - o2" and "o2 \<le> length (take off m)"
      using le by auto
    then show ?thesis
      unfolding m' by (simp only: drop_append take_append) (simp add: drop_take min_def)
  next
    assume "off + length bs \<le> o2"
    moreover have "drop o2 m' = drop (o2 - off - length bs) (drop (off + length bs) m)"
      using calculation le unfolding m' by simp
    ultimately show ?thesis
      by simp
  qed
  then show ?thesis
    by (simp add: rdn_def len)
qed

lemma wrn_append: "length v = length bs \<Longrightarrow> wrn (xs @ v @ ys) (length xs) bs = Some (xs @ bs @ ys)"
  by (simp add: wrn_def)

lemma unat_byte_lt: "unat (b :: byte) < 256"
  using unsigned_less[of b] by simp

lemma unat_ucast_byte: "unat (ucast (w :: 'a::len word) :: byte) = unat w mod 256"
  by (simp add: unsigned_ucast_eq take_bit_eq_mod)

lemma unat_drop: "unat (drop_bit n (w :: 'a::len word)) = unat w div 2 ^ n"
  by (simp only: unsigned_drop_bit_eq take_bit_tightened_less_eq_nat) (simp add: drop_bit_eq_div take_bit_nat_eq_self)

lemma dec16_enc16: "dec16 (enc16 w) = w"
proof -
  have "unat w < 65536"
    using unsigned_less[of w] by simp
  then have "unat w mod 256 + 256 * (unat w div 256 mod 256) = unat w"
    by (simp add: less_mult_imp_div_less)
  then have "(word_of_nat (unat w mod 256 + 256 * (unat w div 256 mod 256)) :: USHORT) = w"
    by (simp only:) simp
  then show ?thesis
    by (simp only: dec16_def enc16_def unat_ucast_byte unat_drop nth_Cons_0 nth_Cons_Suc One_nat_def) simp
qed

lemma unat_of_nat_small:
  "n < 2 ^ LENGTH('a) \<Longrightarrow> unat (word_of_nat n :: 'a::len word) = n"
  by (simp add: unsigned_of_nat take_bit_nat_eq_self)

lemma unat_dec16:
  "unat (dec16 bs) = unat (bs ! 0) + 256 * unat (bs ! 1)"
  unfolding dec16_def using unat_byte_lt[of "bs ! 0"] unat_byte_lt[of "bs ! 1"]
  by (intro unat_of_nat_small) simp

lemma unat_dec32:
  "unat (dec32 bs) = unat (bs ! 0) + 256 * unat (bs ! 1) + 65536 * unat (bs ! 2)
     + 16777216 * unat (bs ! 3)"
  unfolding dec32_def using unat_byte_lt[of "bs ! 0"] unat_byte_lt[of "bs ! 1"]
    unat_byte_lt[of "bs ! 2"] unat_byte_lt[of "bs ! 3"]
  by (intro unat_of_nat_small) simp

lemma byte_eqI: "unat w mod 256 = unat b \<Longrightarrow> (ucast (w :: 'a::len word) :: byte) = b"
  by (simp add: word_unat_eq_iff unat_ucast_byte)

lemma enc16_dec16: "length bs = 2 \<Longrightarrow> enc16 (dec16 bs) = bs"
proof -
  assume len: "length bs = 2"
  have "ucast (dec16 bs) = bs ! 0"
    using unat_byte_lt[of "bs ! 0"] by (intro byte_eqI) (simp add: unat_dec16)
  moreover have "ucast (drop_bit 8 (dec16 bs)) = bs ! 1"
    using unat_byte_lt[of "bs ! 0"] unat_byte_lt[of "bs ! 1"]
    by (intro byte_eqI) (simp add: unat_drop unat_dec16)
  moreover have "bs = [bs ! 0, bs ! 1]"
    using len by (cases bs; cases "tl bs") auto
  ultimately show ?thesis
    by (metis enc16_def)
qed

lemma base256_nat:
  "(n::nat) < 4294967296 \<Longrightarrow> n mod 256 + 256 * (n div 256 mod 256)
      + 65536 * (n div 65536 mod 256) + 16777216 * (n div 16777216 mod 256) = n"
proof -
  assume "n < 4294967296"
  then have "n < 256 * 16777216"
    by simp
  then have "n div 16777216 mod 256 = n div 256 div 256 div 256"
    by (simp add: less_mult_imp_div_less div_mult2_eq[symmetric])
  moreover have "n div 65536 = n div 256 div 256"
    by (simp add: div_mult2_eq[symmetric])
  moreover have "a + 256 * b + 65536 * c + 16777216 * z = n"
    if "n = a + 256 * x" "x = b + 256 * y" "y = c + 256 * z" for a b c x y z
    using that by simp
  ultimately show ?thesis
    by (simp only: mod_mult_div_eq)
qed

lemma dec32_enc32: "dec32 (enc32 w) = w"
proof -
  have pow: "(2::nat) ^ 8 = 256" "(2::nat) ^ 16 = 65536" "(2::nat) ^ 24 = 16777216"
    by simp_all
  have nth: "enc32 w ! 0 = ucast w" "enc32 w ! 1 = ucast (drop_bit 8 w)"
    "enc32 w ! 2 = ucast (drop_bit 16 w)" "enc32 w ! 3 = ucast (drop_bit 24 w)"
    by (simp_all add: enc32_def)
  have "unat w < 4294967296"
    using unsigned_less[of w] by simp
  then have "unat (dec32 (enc32 w)) = unat w"
    using base256_nat by (simp only: unat_dec32 nth unat_ucast_byte unat_drop pow)
  then show ?thesis
    by (simp add: word_unat_eq_iff)
qed

lemma base256_digits:
  assumes "(a::nat) < 256" "b < 256" "c < 256" "d < 256"
  shows "(a + 256 * b + 65536 * c + 16777216 * d) mod 256 = a"
    and "(a + 256 * b + 65536 * c + 16777216 * d) div 256 mod 256 = b"
    and "(a + 256 * b + 65536 * c + 16777216 * d) div 65536 mod 256 = c"
    and "(a + 256 * b + 65536 * c + 16777216 * d) div 16777216 mod 256 = d"
proof -
  have n: "a + 256 * b + 65536 * c + 16777216 * d = a + 256 * (b + 256 * (c + 256 * d))"
    by simp
  have d1: "(a + 256 * x) div 256 = x" if "a < 256" for a x :: nat
    using that by simp
  have m1: "(a + 256 * x) mod 256 = a" if "a < 256" for a x :: nat
    using that by simp
  have e: "m div 65536 = m div 256 div 256" "m div 16777216 = m div 256 div 256 div 256" for m :: nat
    by (simp_all add: div_mult2_eq[symmetric])
  show "(a + 256 * b + 65536 * c + 16777216 * d) mod 256 = a"
    "(a + 256 * b + 65536 * c + 16777216 * d) div 256 mod 256 = b"
    "(a + 256 * b + 65536 * c + 16777216 * d) div 65536 mod 256 = c"
    "(a + 256 * b + 65536 * c + 16777216 * d) div 16777216 mod 256 = d"
    using assms by (simp_all only: n e d1 m1) simp
qed

lemma enc32_dec32: "length bs = 4 \<Longrightarrow> enc32 (dec32 bs) = bs"
proof -
  assume len: "length bs = 4"
  have pow: "(2::nat) ^ 8 = 256" "(2::nat) ^ 16 = 65536" "(2::nat) ^ 24 = 16777216"
    by simp_all
  note digits = base256_digits[OF unat_byte_lt unat_byte_lt unat_byte_lt unat_byte_lt]
  have "ucast (dec32 bs) = bs ! 0" "ucast (drop_bit 8 (dec32 bs)) = bs ! 1"
    "ucast (drop_bit 16 (dec32 bs)) = bs ! 2" "ucast (drop_bit 24 (dec32 bs)) = bs ! 3"
    by (rule byte_eqI, simp only: unat_drop unat_dec32 pow digits)+
  moreover have "bs = [bs ! 0, bs ! 1, bs ! 2, bs ! 3]"
    using len by (cases bs; cases "tl bs"; cases "tl (tl bs)"; cases "tl (tl (tl bs))") auto
  ultimately show ?thesis
    by (metis enc32_def)
qed

interpretation f8: scalar_field enc8 dec8 1 rd8 wr8
  by unfold_locales (auto simp: enc8_def dec8_def rd8_def wr8_def length_Suc_conv)

interpretation f16: scalar_field enc16 dec16 2 rd16 wr16
  by unfold_locales (auto simp: rd16_def wr16_def dec16_enc16 enc16_dec16, simp add: enc16_def)

interpretation f32: scalar_field enc32 dec32 4 rd32 wr32
  by unfold_locales (auto simp: rd32_def wr32_def dec32_enc32 enc32_dec32, simp add: enc32_def)

lemma rdn_Cons [simp]:
  "rdn (a # m) (Suc off) n = rdn m off n"
  "rdn (a # m) (numeral k) n = rdn m (pred_numeral k) n"
  "rdn (a # m) (numeral k + j) n = rdn m (pred_numeral k + j) n"
  by (simp_all add: rdn_def numeral_eq_Suc)

lemma rd8_Cons [simp]:
  "rd8 (a # m) 0 = Some a"
  "rd8 (a # m) (Suc off) = rd8 m off"
  "rd8 (a # m) (numeral k) = rd8 m (pred_numeral k)"
  "rd8 (a # m) (numeral k + j) = rd8 m (pred_numeral k + j)"
  by (simp_all add: rd8_def rdn_def dec8_def numeral_eq_Suc)

lemma rd16_Cons [simp]:
  "rd16 (a # m) (Suc off) = rd16 m off"
  "rd16 (a # m) (numeral k) = rd16 m (pred_numeral k)"
  "rd16 (a # m) (numeral k + j) = rd16 m (pred_numeral k + j)"
  by (simp_all add: rd16_def)

lemma rd32_Cons [simp]:
  "rd32 (a # m) (Suc off) = rd32 m off"
  "rd32 (a # m) (numeral k) = rd32 m (pred_numeral k)"
  "rd32 (a # m) (numeral k + j) = rd32 m (pred_numeral k + j)"
  by (simp_all add: rd32_def)

lemma wrn_Cons [simp]:
  "wrn (a # m) (Suc off) bs = map_option ((#) a) (wrn m off bs)"
  "wrn (a # m) (numeral k) bs = map_option ((#) a) (wrn m (pred_numeral k) bs)"
  "wrn (a # m) (numeral k + j) bs = map_option ((#) a) (wrn m (pred_numeral k + j) bs)"
  by (simp_all add: wrn_def numeral_eq_Suc)

lemma wr8_Cons [simp]:
  "wr8 (a # m) 0 w = Some (w # m)"
  "wr8 (a # m) (Suc off) w = map_option ((#) a) (wr8 m off w)"
  "wr8 (a # m) (numeral k) w = map_option ((#) a) (wr8 m (pred_numeral k) w)"
  "wr8 (a # m) (numeral k + j) w = map_option ((#) a) (wr8 m (pred_numeral k + j) w)"
  by (simp_all add: wr8_def wrn_def enc8_def numeral_eq_Suc)

lemma wr16_Cons [simp]:
  "wr16 (a # m) (Suc off) w = map_option ((#) a) (wr16 m off w)"
  "wr16 (a # m) (numeral k) w = map_option ((#) a) (wr16 m (pred_numeral k) w)"
  "wr16 (a # m) (numeral k + j) w = map_option ((#) a) (wr16 m (pred_numeral k + j) w)"
  by (simp_all add: wr16_def)

lemma wr32_Cons [simp]:
  "wr32 (a # m) (Suc off) w = map_option ((#) a) (wr32 m off w)"
  "wr32 (a # m) (numeral k) w = map_option ((#) a) (wr32 m (pred_numeral k) w)"
  "wr32 (a # m) (numeral k + j) w = map_option ((#) a) (wr32 m (pred_numeral k + j) w)"
  by (simp_all add: wr32_def)

lemma rdn_append [simp]:
  "rdn (xs @ ys) 0 (length xs) = Some xs"
  "rdn xs 0 (length xs) = Some xs"
  "rdn xs off 0 = (if off \<le> length xs then Some [] else None)"
  by (simp_all add: rdn_def)

lemma wrn_append_0 [simp]:
  "length v = length bs \<Longrightarrow> wrn (v @ ys) 0 bs = Some (bs @ ys)"
  by (simp add: wrn_def)

lemma enc_lengths [simp]: "length (enc8 b) = 1" "length (enc16 h) = 2" "length (enc32 w) = 4"
  by (simp_all add: enc8_def enc16_def enc32_def)

lemma length_concat_enc32 [simp]: "length (concat (map enc32 ws)) = 4 * length ws"
  by (induction ws) simp_all

lemma rd32_enc_append [simp]: "rd32 (enc32 w @ ys) 0 = Some w"
  using f32.get_enc[of "[]"] by simp

lemma rd16_enc_append [simp]: "rd16 (enc16 w @ ys) 0 = Some w"
  using f16.get_enc[of "[]"] by simp

lemma rd32_concat_enc32:
  "i < length ws \<Longrightarrow> rd32 (concat (map enc32 ws) @ ys) (4 * i) = Some (ws ! i)"
  using f32.get_array[of i ws "[]"] by simp

lemma wr32_append_right:
  "length xs \<le> off \<Longrightarrow> wr32 (xs @ ys) off w = map_option ((@) xs) (wr32 ys (off - length xs) w)"
  by (auto simp: wr32_def wrn_def)

lemma wr32_concat_enc32:
  "i < length ws \<Longrightarrow>
    wr32 (concat (map enc32 ws) @ ys) (4 * i) w = Some (concat (map enc32 (ws[i := w])) @ ys)"
  using f32.put_array[of i ws "[]"] by simp

lemma inj_enc32: "enc32 v = enc32 w \<longleftrightarrow> v = w"
  by (metis dec32_enc32)

lemma inj_enc16: "enc16 v = enc16 w \<longleftrightarrow> v = w"
  by (metis dec16_enc16)

lemma concat_enc32_inj:
  "length vs = length ws \<Longrightarrow> concat (map enc32 vs) = concat (map enc32 ws) \<longleftrightarrow> vs = ws"
  by (induction vs ws rule: list_induct2) (simp_all add: inj_enc32)

lemma blocks_of_four:
  "length bs = 4 * n \<Longrightarrow> \<exists>ws. length ws = n \<and> bs = concat (map enc32 ws)"
proof (induction n arbitrary: bs)
  case (Suc n)
  then have "length (drop 4 bs) = 4 * n"
    by simp
  then obtain ws where "length ws = n" and "drop 4 bs = concat (map enc32 ws)"
    using Suc.IH by blast
  moreover have "enc32 (dec32 (take 4 bs)) = take 4 bs"
    using Suc.prems by (intro enc32_dec32) simp
  ultimately have "bs = concat (map enc32 (dec32 (take 4 bs) # ws))"
    by (metis append_take_drop_id concat.simps(2) list.simps(9))
  then show ?case
    using \<open>length ws = n\<close> by (metis length_Cons)
qed simp

lemma take_concat_enc32: "take (4 * n) (concat (map enc32 ws)) = concat (map enc32 (take n ws))"
proof (induction ws arbitrary: n)
  case (Cons w ws)
  then show ?case
    by (cases n) simp_all
qed simp

lemma rdn_take: "off + n \<le> length m \<Longrightarrow> rdn m off n = Some (take n (drop off m))"
  by (simp add: rdn_def)

lemma take_drop_Cons_numeral_add [simp]:
  "drop (numeral k + j) (x # xs) = drop (pred_numeral k + j) xs"
  "take (numeral k + j) (x # xs) = x # take (pred_numeral k + j) xs"
  by (simp_all add: numeral_eq_Suc)

lemma length_concat_replicate [simp]: "length (concat (replicate n xs)) = n * length xs"
  by (induction n) simp_all

lemma wrn_extend:
  "off + length bs + length cs \<le> length m \<Longrightarrow>
    wrn (take off m @ bs @ drop (off + length bs) m) (off + length bs) cs =
    Some (take off m @ (bs @ cs) @ drop (off + length (bs @ cs)) m)"
  by (simp add: wrn_def ac_simps)

lemma ptr_add_append [simp]: "ptr_add (xs @ ys) (length xs) = Some ys"
  by (simp add: ptr_add_def)

lemma ptr_add_0 [simp]: "ptr_add m 0 = Some m"
  by (simp add: ptr_add_def)

lemma ucast_byte_eq_iff: "(ucast (a :: 8 word) :: 32 word) = ucast (b :: 8 word) \<longleftrightarrow> a = b"
proof -
  have "unat (ucast x :: 32 word) = unat x" for x :: "8 word"
    using unat_byte_lt[of x] by (simp add: unsigned_ucast_eq take_bit_nat_eq_self)
  then show ?thesis
    by (metis word_unat_eq_iff)
qed

lemma memcpy_within_overlap: "s < d + n \<Longrightarrow> d < s \<Longrightarrow> memcpy_within m d s n = None"
  by (simp add: memcpy_within_def)

text \<open>A property of every defined result, by the shape of the computation.\<close>

definition post :: "('a \<Rightarrow> bool) \<Rightarrow> 'a option \<Rightarrow> bool" where
  "post P r \<longleftrightarrow> (\<forall>x. r = Some x \<longrightarrow> P x)"

lemma post_Some: "P x \<Longrightarrow> post P (Some x)"
  by (simp add: post_def)

lemma post_None: "post P None"
  by (simp add: post_def)

lemma post_bind: "(\<And>x. m = Some x \<Longrightarrow> post P (f x)) \<Longrightarrow> post P (Option.bind m f)"
  by (cases m) (simp_all add: post_def)

lemma post_if: "(c \<Longrightarrow> post P p) \<Longrightarrow> (\<not> c \<Longrightarrow> post P q) \<Longrightarrow> post P (if c then p else q)"
  by simp

lemma post_let: "(\<And>v. post P (f v)) \<Longrightarrow> post P (Let v f)"
  by (simp add: Let_def)

lemma postD: "post P r \<Longrightarrow> r = Some x \<Longrightarrow> P x"
  by (simp add: post_def)

lemmas post_intros = post_Some post_None post_bind post_if post_let

text \<open>The equations that evaluate reads and writes on a block given byte by byte.\<close>

lemmas byte_eval = rdn_def wrn_def rd8_def rd16_def rd32_def wr8_def wr16_def wr32_def enc8_def enc16_def enc32_def
  dec8_def dec16_def dec32_def

end
