(* ===== verification/Rtl_Base.thy ===== *)
theory Rtl_Base
  imports Prelude
begin

text \<open>
  The runtime layer below the security library: the status codes of \<^verbatim>\<open>lw/ntstatus.h\<close>,
  the overflow-checked arithmetic of \<^verbatim>\<open>lw/safeint.h\<close>, the allocator wrapper of
  \<^verbatim>\<open>rtlmemory.c\<close> and the buffer-range test of \<^verbatim>\<open>security-includes.h\<close>.

  The allocator of the C library is the parameter \<^verbatim>\<open>avail\<close>: \<^term>\<open>avail n\<close> says whether a
  block of \<^verbatim>\<open>n\<close> bytes can be had.  A NULL pointer is \<^term>\<open>None\<close>.
\<close>

datatype NTSTATUS =
    STATUS_SUCCESS
  | STATUS_NOT_ALL_ASSIGNED
  | STATUS_NO_MORE_ENTRIES
  | STATUS_NOT_IMPLEMENTED
  | STATUS_INVALID_PARAMETER
  | STATUS_ACCESS_DENIED
  | STATUS_BUFFER_TOO_SMALL
  | STATUS_UNKNOWN_REVISION
  | STATUS_PRIVILEGE_NOT_HELD
  | STATUS_INVALID_SUB_AUTHORITY
  | STATUS_INVALID_ACL
  | STATUS_INVALID_SID
  | STATUS_INVALID_SECURITY_DESCR
  | STATUS_NO_TOKEN
  | STATUS_INTEGER_OVERFLOW
  | STATUS_INSUFFICIENT_RESOURCES
  | STATUS_INVALID_PARAMETER_1
  | STATUS_INVALID_PARAMETER_2
  | STATUS_NOT_FOUND
  | STATUS_ASSERTION_FAILURE

fun ntstatus_code :: "NTSTATUS \<Rightarrow> ULONG" where
  "ntstatus_code STATUS_SUCCESS = 0x00000000"
| "ntstatus_code STATUS_NOT_ALL_ASSIGNED = 0x00000106"
| "ntstatus_code STATUS_NO_MORE_ENTRIES = 0x8000001A"
| "ntstatus_code STATUS_NOT_IMPLEMENTED = 0xC0000002"
| "ntstatus_code STATUS_INVALID_PARAMETER = 0xC000000D"
| "ntstatus_code STATUS_ACCESS_DENIED = 0xC0000022"
| "ntstatus_code STATUS_BUFFER_TOO_SMALL = 0xC0000023"
| "ntstatus_code STATUS_UNKNOWN_REVISION = 0xC0000058"
| "ntstatus_code STATUS_PRIVILEGE_NOT_HELD = 0xC0000061"
| "ntstatus_code STATUS_INVALID_SUB_AUTHORITY = 0xC0000076"
| "ntstatus_code STATUS_INVALID_ACL = 0xC0000077"
| "ntstatus_code STATUS_INVALID_SID = 0xC0000078"
| "ntstatus_code STATUS_INVALID_SECURITY_DESCR = 0xC0000079"
| "ntstatus_code STATUS_NO_TOKEN = 0xC000007C"
| "ntstatus_code STATUS_INTEGER_OVERFLOW = 0xC0000095"
| "ntstatus_code STATUS_INSUFFICIENT_RESOURCES = 0xC000009A"
| "ntstatus_code STATUS_INVALID_PARAMETER_1 = 0xC00000EF"
| "ntstatus_code STATUS_INVALID_PARAMETER_2 = 0xC00000F0"
| "ntstatus_code STATUS_NOT_FOUND = 0xC0000225"
| "ntstatus_code STATUS_ASSERTION_FAILURE = 0xC0000420"

text \<open>A status is a success when its code, read as a signed 32-bit integer, is not negative.\<close>

definition NT_SUCCESS :: "NTSTATUS \<Rightarrow> bool" where
  "NT_SUCCESS status = (0 \<le> sint (ntstatus_code status))"

definition LwRtlSafeMultiplyULONG :: "ULONG \<Rightarrow> ULONG \<Rightarrow> NTSTATUS \<times> ULONG" where
  "LwRtlSafeMultiplyULONG OperandA OperandB =
    (let result = unat OperandA * unat OperandB in
     ((if result > unat (- 1 :: ULONG) then STATUS_INTEGER_OVERFLOW else STATUS_SUCCESS),
      word_of_nat result))"

definition LwRtlSafeAddULONG :: "ULONG \<Rightarrow> ULONG \<Rightarrow> NTSTATUS \<times> ULONG" where
  "LwRtlSafeAddULONG OperandA OperandB =
    (let result = OperandA + OperandB in
     ((if result < OperandA then STATUS_INTEGER_OVERFLOW else STATUS_SUCCESS), result))"

definition LwRtlSafeAddUSHORT :: "USHORT \<Rightarrow> USHORT \<Rightarrow> NTSTATUS \<times> USHORT" where
  "LwRtlSafeAddUSHORT OperandA OperandB =
    (let result = OperandA + OperandB in
     ((if result < OperandA then STATUS_INTEGER_OVERFLOW else STATUS_SUCCESS), result))"

definition LwRtlMemoryAllocate :: "(nat \<Rightarrow> bool) \<Rightarrow> nat \<Rightarrow> mem option" where
  "LwRtlMemoryAllocate avail Size =
    (if Size = 0 then None else if avail Size then Some (replicate Size 0) else None)"

definition RTL_ALLOCATE :: "(nat \<Rightarrow> bool) \<Rightarrow> nat \<Rightarrow> NTSTATUS \<times> mem option" where
  "RTL_ALLOCATE avail Size =
    (let p = LwRtlMemoryAllocate avail Size in
     ((if p \<noteq> None then STATUS_SUCCESS else STATUS_INSUFFICIENT_RESOURCES), p))"

definition RtlpIsBufferAvailable :: "ULONG \<Rightarrow> ULONG \<Rightarrow> ULONG \<Rightarrow> bool" where
  "RtlpIsBufferAvailable MaximumSize Offset Size =
    (if Offset + Size < Offset then False
     else if Offset + Size > MaximumSize then False
     else True)"

section \<open>Lemmas\<close>

lemma NT_SUCCESS_iff: "NT_SUCCESS s \<longleftrightarrow> s = STATUS_SUCCESS \<or> s = STATUS_NOT_ALL_ASSIGNED"
  by (cases s) (simp_all add: NT_SUCCESS_def)

lemma NT_SUCCESS_simps [simp]:
  "NT_SUCCESS STATUS_SUCCESS" "NT_SUCCESS STATUS_NOT_ALL_ASSIGNED"
  "\<not> NT_SUCCESS STATUS_NO_MORE_ENTRIES" "\<not> NT_SUCCESS STATUS_NOT_IMPLEMENTED"
  "\<not> NT_SUCCESS STATUS_INVALID_PARAMETER" "\<not> NT_SUCCESS STATUS_ACCESS_DENIED"
  "\<not> NT_SUCCESS STATUS_BUFFER_TOO_SMALL" "\<not> NT_SUCCESS STATUS_UNKNOWN_REVISION"
  "\<not> NT_SUCCESS STATUS_PRIVILEGE_NOT_HELD" "\<not> NT_SUCCESS STATUS_INVALID_SUB_AUTHORITY"
  "\<not> NT_SUCCESS STATUS_INVALID_ACL" "\<not> NT_SUCCESS STATUS_INVALID_SID"
  "\<not> NT_SUCCESS STATUS_INVALID_SECURITY_DESCR" "\<not> NT_SUCCESS STATUS_NO_TOKEN"
  "\<not> NT_SUCCESS STATUS_INTEGER_OVERFLOW" "\<not> NT_SUCCESS STATUS_INSUFFICIENT_RESOURCES"
  "\<not> NT_SUCCESS STATUS_INVALID_PARAMETER_1" "\<not> NT_SUCCESS STATUS_INVALID_PARAMETER_2"
  "\<not> NT_SUCCESS STATUS_NOT_FOUND" "\<not> NT_SUCCESS STATUS_ASSERTION_FAILURE"
  by (simp_all add: NT_SUCCESS_iff)

lemma word_add_overflow_iff:
  "(a :: 'a::len word) + b < a \<longleftrightarrow> 2 ^ LENGTH('a) \<le> unat a + unat b"
  using no_olen_add_nat[of a b] by (auto simp: not_le)

lemma unat_add_no_overflow:
  "\<not> (a :: 'a::len word) + b < a \<Longrightarrow> unat (a + b) = unat a + unat b"
  using no_olen_add_nat[of a b] by (simp add: unat_add_lem not_less)

lemma SafeAddUSHORT_ok:
  "fst (LwRtlSafeAddUSHORT a b) = STATUS_SUCCESS \<longleftrightarrow> unat a + unat b < 65536"
  by (simp add: LwRtlSafeAddUSHORT_def Let_def word_add_overflow_iff)

lemma SafeAddUSHORT_eq:
  "LwRtlSafeAddUSHORT a b = (STATUS_SUCCESS, r) \<longleftrightarrow> unat a + unat b < 65536 \<and> r = a + b"
  by (auto simp: LwRtlSafeAddUSHORT_def Let_def word_add_overflow_iff)

lemma RtlpIsBufferAvailable_iff:
  "RtlpIsBufferAvailable mx off sz \<longleftrightarrow> unat off + unat sz \<le> unat mx"
proof (cases "off + sz < off")
  case True
  then have "2 ^ 32 \<le> unat off + unat sz"
    by (simp add: word_add_overflow_iff)
  moreover have "unat mx < 2 ^ 32"
    using unsigned_less[of mx] by simp
  ultimately show ?thesis
    using True by (simp add: RtlpIsBufferAvailable_def)
next
  case False
  then show ?thesis
    using unat_add_no_overflow[OF False]
    by (auto simp: RtlpIsBufferAvailable_def word_less_nat_alt)
qed

lemma RTL_ALLOCATE_cases:
  "RTL_ALLOCATE avail n =
    (if n \<noteq> 0 \<and> avail n then (STATUS_SUCCESS, Some (replicate n 0))
     else (STATUS_INSUFFICIENT_RESOURCES, None))"
  by (simp add: RTL_ALLOCATE_def LwRtlMemoryAllocate_def)

section \<open>Properties\<close>

text \<open>The checked arithmetic is exact: it succeeds with a result precisely when the result is the mathematical sum
  or product, which is when that value fits the type.\<close>

lemma safe_arithmetic_exact:
  "(LwRtlSafeAddULONG a b = (STATUS_SUCCESS, r) \<longleftrightarrow> unat r = unat a + unat b)
    \<and> (LwRtlSafeMultiplyULONG a b = (STATUS_SUCCESS, r) \<longleftrightarrow> unat r = unat a * unat b)
    \<and> (LwRtlSafeAddUSHORT c d = (STATUS_SUCCESS, s) \<longleftrightarrow> unat s = unat c + unat d)"
proof -
  have r: "unat r < 2 ^ 32" and s: "unat s < 2 ^ 16"
    using unsigned_less[of r, where 'a = nat] unsigned_less[of s, where 'a = nat] by simp_all
  have "LwRtlSafeAddULONG a b = (STATUS_SUCCESS, r) \<longleftrightarrow> unat r = unat a + unat b"
    using r unat_add_no_overflow[of a b]
    by (auto simp: LwRtlSafeAddULONG_def Let_def word_add_overflow_iff word_unat_eq_iff split: if_splits)
  moreover have "LwRtlSafeAddUSHORT c d = (STATUS_SUCCESS, s) \<longleftrightarrow> unat s = unat c + unat d"
    using s unat_add_no_overflow[of c d]
    by (auto simp: LwRtlSafeAddUSHORT_def Let_def word_add_overflow_iff word_unat_eq_iff split: if_splits)
  moreover have "LwRtlSafeMultiplyULONG a b = (STATUS_SUCCESS, r) \<longleftrightarrow> unat r = unat a * unat b"
  proof -
    have top: "unat (- 1 :: ULONG) = 2 ^ 32 - 1"
      by (simp add: unsigned_minus_1_eq_mask mask_eq_exp_minus_1)
    have "unat (word_of_nat (unat a * unat b) :: ULONG) = unat a * unat b" if "unat a * unat b < 2 ^ 32"
      using that by (intro unat_of_nat_small) simp
    then show ?thesis
      using r by (auto simp: LwRtlSafeMultiplyULONG_def Let_def top word_unat_eq_iff simp del: of_nat_mult split: if_splits)
  qed
  ultimately show ?thesis
    by blast
qed

end
