(* ===== verification/Security_Sid.thy ===== *)
theory Security_Sid
  imports Rtl_Base
begin

text \<open>
  Security identifiers: \<^verbatim>\<open>security-sid.c\<close> up to the string conversions, with the layout of
  \<^verbatim>\<open>struct _SID\<close>.  A PSID is the block of bytes at the pointer.  The record \<^verbatim>\<open>SID\<close> is the
  abstract identifier; \<^verbatim>\<open>sid_at m s\<close> says that the block \<^verbatim>\<open>m\<close> starts with the image of
  \<^verbatim>\<open>s\<close>, and the lemmas state each operation over that abstraction.
\<close>

section \<open>Layout\<close>

abbreviation (input) SID_REVISION :: UCHAR where "SID_REVISION \<equiv> 1"
abbreviation (input) SID_MAX_SUB_AUTHORITIES :: nat where "SID_MAX_SUB_AUTHORITIES \<equiv> 15"
abbreviation (input) SID_MIN_SIZE :: nat where "SID_MIN_SIZE \<equiv> 8"
abbreviation (input) SID_MAX_SIZE :: nat where "SID_MAX_SIZE \<equiv> 68"

definition sid_Revision :: "mem \<Rightarrow> UCHAR option" where
  "sid_Revision Sid = rd8 Sid 0"

definition sid_SubAuthorityCount :: "mem \<Rightarrow> UCHAR option" where
  "sid_SubAuthorityCount Sid = rd8 Sid 1"

definition sid_SubAuthority :: "mem \<Rightarrow> nat \<Rightarrow> ULONG option" where
  "sid_SubAuthority Sid i = rd32 Sid (8 + 4 * i)"

definition set_SubAuthority :: "mem \<Rightarrow> nat \<Rightarrow> ULONG \<Rightarrow> mem option" where
  "set_SubAuthority Sid i v = wr32 Sid (8 + 4 * i) v"

section \<open>Operations\<close>

definition RtlInitializeSid ::
    "mem option \<Rightarrow> byte list option \<Rightarrow> UCHAR \<Rightarrow> (NTSTATUS \<times> mem option) option" where
  "RtlInitializeSid Sid IdentifierAuthority SubAuthorityCount =
    (case (Sid, IdentifierAuthority) of
       (Some m, Some ia) \<Rightarrow>
         if unat SubAuthorityCount > SID_MAX_SUB_AUTHORITIES
         then Some (STATUS_INVALID_PARAMETER, Some m)
         else do {
           m \<leftarrow> wr8 m 0 SID_REVISION;
           m \<leftarrow> wr8 m 1 SubAuthorityCount;
           m \<leftarrow> memcpy m 2 ia 0 6;
           m \<leftarrow> memset m 8 0 (4 * unat SubAuthorityCount);
           Some (STATUS_SUCCESS, Some m)
         }
     | _ \<Rightarrow> Some (STATUS_INVALID_PARAMETER, Sid))"

definition RtlLengthRequiredSid :: "ULONG \<Rightarrow> ULONG" where
  "RtlLengthRequiredSid SubAuthorityCount = 8 + 4 * SubAuthorityCount"

definition RtlLengthSid :: "mem \<Rightarrow> ULONG option" where
  "RtlLengthSid Sid = do {
     c \<leftarrow> sid_SubAuthorityCount Sid;
     Some (RtlLengthRequiredSid (ucast c))
   }"

definition RtlValidSid :: "mem option \<Rightarrow> bool option" where
  "RtlValidSid Sid =
    (case Sid of
       None \<Rightarrow> Some False
     | Some m \<Rightarrow> do {
         r \<leftarrow> sid_Revision m;
         if r \<noteq> SID_REVISION then Some False
         else do {
           c \<leftarrow> sid_SubAuthorityCount m;
           Some (unat c \<le> SID_MAX_SUB_AUTHORITIES)
         }
       })"

definition RtlEqualSid :: "mem \<Rightarrow> mem \<Rightarrow> bool option" where
  "RtlEqualSid Sid1 Sid2 = do {
     c1 \<leftarrow> sid_SubAuthorityCount Sid1;
     c2 \<leftarrow> sid_SubAuthorityCount Sid2;
     if c1 = c2
     then do { l \<leftarrow> RtlLengthSid Sid1; RtlEqualMemory Sid1 Sid2 (unat l) }
     else Some False
   }"

definition RtlEqualPrefixSid :: "mem \<Rightarrow> mem \<Rightarrow> bool option" where
  "RtlEqualPrefixSid Sid1 Sid2 = do {
     c1 \<leftarrow> sid_SubAuthorityCount Sid1;
     c2 \<leftarrow> sid_SubAuthorityCount Sid2;
     if c1 = c2
     then (let count = (if c1 > 0 then c1 - 1 else c1) in
           RtlEqualMemory Sid1 Sid2 (unat (RtlLengthRequiredSid (ucast count))))
     else Some False
   }"

definition RtlIsPrefixSid :: "mem \<Rightarrow> mem \<Rightarrow> bool option" where
  "RtlIsPrefixSid Prefix Sid = do {
     l \<leftarrow> RtlLengthSid Prefix;
     let ulAuthSidLength = l - 2;
     cp \<leftarrow> sid_SubAuthorityCount Prefix;
     cs \<leftarrow> sid_SubAuthorityCount Sid;
     if \<not> cp \<le> cs then Some False
     else do {
       rp \<leftarrow> sid_Revision Prefix;
       rs \<leftarrow> sid_Revision Sid;
       if rp \<noteq> rs then Some False
       else do {
         ap \<leftarrow> ptr_add Prefix 2;
         as \<leftarrow> ptr_add Sid 2;
         RtlEqualMemory ap as (unat ulAuthSidLength)
       }
     }
   }"

definition RtlCopySid :: "ULONG \<Rightarrow> mem \<Rightarrow> mem \<Rightarrow> (NTSTATUS \<times> mem) option" where
  "RtlCopySid DestinationSidLength DestinationSid SourceSid = do {
     l \<leftarrow> RtlLengthSid SourceSid;
     if DestinationSidLength < l then Some (STATUS_BUFFER_TOO_SMALL, DestinationSid)
     else do {
       d \<leftarrow> memcpy DestinationSid 0 SourceSid 0 (unat l);
       Some (STATUS_SUCCESS, d)
     }
   }"

definition RtlAppendRidSid :: "ULONG \<Rightarrow> mem \<Rightarrow> ULONG \<Rightarrow> (NTSTATUS \<times> mem) option" where
  "RtlAppendRidSid SidLength Sid Rid = do {
     c \<leftarrow> sid_SubAuthorityCount Sid;
     if unat c \<ge> SID_MAX_SUB_AUTHORITIES then Some (STATUS_INVALID_PARAMETER, Sid)
     else if SidLength < RtlLengthRequiredSid (ucast c + 1)
     then Some (STATUS_BUFFER_TOO_SMALL, Sid)
     else do {
       m \<leftarrow> set_SubAuthority Sid (unat c) Rid;
       m \<leftarrow> wr8 m 1 (c + 1);
       Some (STATUS_SUCCESS, m)
     }
   }"

text \<open>\<^verbatim>\<open>RtlGetRidSid\<close> with its output pointer given: the result is the value stored through
  it, if any.\<close>

definition RtlGetRidSid :: "bool \<Rightarrow> mem option \<Rightarrow> (NTSTATUS \<times> ULONG option) option" where
  "RtlGetRidSid Rid Sid =
    (case Sid of
       None \<Rightarrow> Some (STATUS_INVALID_PARAMETER, None)
     | Some m \<Rightarrow>
         if \<not> Rid then Some (STATUS_INVALID_PARAMETER, None)
         else do {
           c \<leftarrow> sid_SubAuthorityCount m;
           if c = 0 then Some (STATUS_INVALID_SUB_AUTHORITY, None)
           else do {
             v \<leftarrow> sid_SubAuthority m (unat c - 1);
             Some (STATUS_SUCCESS, Some v)
           }
         })"

definition RtlDuplicateSid :: "(nat \<Rightarrow> bool) \<Rightarrow> mem \<Rightarrow> (NTSTATUS \<times> mem option) option" where
  "RtlDuplicateSid avail OriginalSid = do {
     l \<leftarrow> RtlLengthSid OriginalSid;
     case RTL_ALLOCATE avail (unat l) of
       (status, None) \<Rightarrow> Some (status, None)
     | (status, Some resultSid) \<Rightarrow> do {
         r \<leftarrow> memcpy resultSid 0 OriginalSid 0 (unat l);
         Some (status, Some r)
       }
   }"

definition RtlpIsValidLittleEndianSidBuffer :: "mem \<Rightarrow> ULONG \<Rightarrow> (bool \<times> ULONG) option" where
  "RtlpIsValidLittleEndianSidBuffer Buffer BufferSize =
    (if BufferSize < 8 then Some (False, 0)
     else do {
       c \<leftarrow> sid_SubAuthorityCount Buffer;
       let size = RtlLengthRequiredSid (ucast c);
       if \<not> RtlpIsBufferAvailable BufferSize 0 size then Some (False, 0)
       else do {
         v \<leftarrow> RtlValidSid (Some Buffer);
         Some (v, if v then size else 0)
       }
     })"

text \<open>The element-wise copy loops of the encoder and the decoder: \<^verbatim>\<open>n\<close> iterations are left,
  starting at index \<^verbatim>\<open>i\<close>.\<close>

fun copy_sub_authorities :: "mem \<Rightarrow> mem \<Rightarrow> nat \<Rightarrow> nat \<Rightarrow> mem option" where
  "copy_sub_authorities src dst i 0 = Some dst"
| "copy_sub_authorities src dst i (Suc n) = do {
     v \<leftarrow> sid_SubAuthority src i;
     dst \<leftarrow> set_SubAuthority dst i v;
     copy_sub_authorities src dst (Suc i) n
   }"

definition RtlpEncodeLittleEndianSid ::
    "mem \<Rightarrow> mem \<Rightarrow> ULONG \<Rightarrow> (NTSTATUS \<times> mem \<times> ULONG) option" where
  "RtlpEncodeLittleEndianSid Sid Buffer BufferSize = do {
     size \<leftarrow> RtlLengthSid Sid;
     if BufferSize < size then Some (STATUS_BUFFER_TOO_SMALL, Buffer, 0)
     else do {
       r \<leftarrow> sid_Revision Sid;
       b \<leftarrow> wr8 Buffer 0 r;
       c \<leftarrow> sid_SubAuthorityCount Sid;
       b \<leftarrow> wr8 b 1 c;
       b \<leftarrow> memcpy b 2 Sid 2 6;
       b \<leftarrow> copy_sub_authorities Sid b 0 (unat c);
       Some (STATUS_SUCCESS, b, size)
     }
   }"

definition RtlpDecodeLittleEndianSid :: "mem \<Rightarrow> mem \<Rightarrow> mem option" where
  "RtlpDecodeLittleEndianSid LittleEndianSid Sid = do {
     r \<leftarrow> sid_Revision LittleEndianSid;
     m \<leftarrow> wr8 Sid 0 r;
     c \<leftarrow> sid_SubAuthorityCount LittleEndianSid;
     m \<leftarrow> wr8 m 1 c;
     m \<leftarrow> memcpy m 2 LittleEndianSid 2 6;
     copy_sub_authorities LittleEndianSid m 0 (unat c)
   }"

definition RtlConvertLittleEndianToSid ::
    "mem \<Rightarrow> ULONG \<Rightarrow> mem \<Rightarrow> ULONG \<Rightarrow> (NTSTATUS \<times> mem \<times> ULONG) option" where
  "RtlConvertLittleEndianToSid Buffer Length Sid SidSize =
    (if SidSize < Length then Some (STATUS_BUFFER_TOO_SMALL, Sid, Length)
     else do {
       r \<leftarrow> sid_Revision Buffer;
       m \<leftarrow> wr8 Sid 0 r;
       c \<leftarrow> sid_SubAuthorityCount Buffer;
       m \<leftarrow> wr8 m 1 c;
       m \<leftarrow> memcpy m 2 Buffer 2 6;
       m \<leftarrow> copy_sub_authorities Buffer m 0 (unat c);
       Some (STATUS_SUCCESS, m, RtlLengthRequiredSid (ucast c))
     })"

definition RtlConvertSidToLittleEndian ::
    "mem \<Rightarrow> mem \<Rightarrow> ULONG \<Rightarrow> (NTSTATUS \<times> mem \<times> ULONG) option" where
  "RtlConvertSidToLittleEndian Sid Buffer Length = do {
     c \<leftarrow> sid_SubAuthorityCount Sid;
     let sidSize = RtlLengthRequiredSid (ucast c);
     if sidSize > Length then Some (STATUS_BUFFER_TOO_SMALL, Buffer, 0)
     else do {
       r \<leftarrow> sid_Revision Sid;
       b \<leftarrow> wr8 Buffer 0 r;
       b \<leftarrow> wr8 b 1 c;
       b \<leftarrow> memcpy b 2 Sid 2 6;
       b \<leftarrow> copy_sub_authorities Sid b 0 (unat c);
       Some (STATUS_SUCCESS, b, sidSize)
     }
   }"

section \<open>Well-known identifiers\<close>

abbreviation (input) SECURITY_WORLD_SID_AUTHORITY :: "byte list" where
  "SECURITY_WORLD_SID_AUTHORITY \<equiv> [0, 0, 0, 0, 0, 1]"
abbreviation (input) SECURITY_CREATOR_SID_AUTHORITY :: "byte list" where
  "SECURITY_CREATOR_SID_AUTHORITY \<equiv> [0, 0, 0, 0, 0, 3]"
abbreviation (input) SECURITY_NT_AUTHORITY :: "byte list" where
  "SECURITY_NT_AUTHORITY \<equiv> [0, 0, 0, 0, 0, 5]"

type_synonym WELL_KNOWN_SID_TYPE = ULONG

abbreviation (input) WinWorldSid :: WELL_KNOWN_SID_TYPE where "WinWorldSid \<equiv> 1"
abbreviation (input) WinCreatorOwnerSid :: WELL_KNOWN_SID_TYPE where "WinCreatorOwnerSid \<equiv> 3"
abbreviation (input) WinCreatorGroupSid :: WELL_KNOWN_SID_TYPE where "WinCreatorGroupSid \<equiv> 4"
abbreviation (input) WinNetworkSid :: WELL_KNOWN_SID_TYPE where "WinNetworkSid \<equiv> 9"
abbreviation (input) WinInteractiveSid :: WELL_KNOWN_SID_TYPE where "WinInteractiveSid \<equiv> 11"
abbreviation (input) WinAnonymousSid :: WELL_KNOWN_SID_TYPE where "WinAnonymousSid \<equiv> 13"
abbreviation (input) WinAuthenticatedUserSid :: WELL_KNOWN_SID_TYPE where "WinAuthenticatedUserSid \<equiv> 17"
abbreviation (input) WinLocalSystemSid :: WELL_KNOWN_SID_TYPE where "WinLocalSystemSid \<equiv> 22"
abbreviation (input) WinLocalServiceSid :: WELL_KNOWN_SID_TYPE where "WinLocalServiceSid \<equiv> 23"
abbreviation (input) WinBuiltinDomainSid :: WELL_KNOWN_SID_TYPE where "WinBuiltinDomainSid \<equiv> 25"
abbreviation (input) WinBuiltinAdministratorsSid :: WELL_KNOWN_SID_TYPE where
  "WinBuiltinAdministratorsSid \<equiv> 26"
abbreviation (input) WinBuiltinUsersSid :: WELL_KNOWN_SID_TYPE where "WinBuiltinUsersSid \<equiv> 27"
abbreviation (input) WinBuiltinGuestsSid :: WELL_KNOWN_SID_TYPE where "WinBuiltinGuestsSid \<equiv> 28"
abbreviation (input) WinBuiltinPowerUsersSid :: WELL_KNOWN_SID_TYPE where "WinBuiltinPowerUsersSid \<equiv> 29"
abbreviation (input) WinBuiltinPrintOperatorsSid :: WELL_KNOWN_SID_TYPE where
  "WinBuiltinPrintOperatorsSid \<equiv> 32"
abbreviation (input) WinBuiltinBackupOperatorsSid :: WELL_KNOWN_SID_TYPE where
  "WinBuiltinBackupOperatorsSid \<equiv> 33"
abbreviation (input) WinAccountAdministratorSid :: WELL_KNOWN_SID_TYPE where
  "WinAccountAdministratorSid \<equiv> 38"
abbreviation (input) WinAccountGuestSid :: WELL_KNOWN_SID_TYPE where "WinAccountGuestSid \<equiv> 39"
abbreviation (input) WinAccountDomainAdminsSid :: WELL_KNOWN_SID_TYPE where
  "WinAccountDomainAdminsSid \<equiv> 41"
abbreviation (input) WinAccountDomainUsersSid :: WELL_KNOWN_SID_TYPE where
  "WinAccountDomainUsersSid \<equiv> 42"
abbreviation (input) WinAccountDomainGuestsSid :: WELL_KNOWN_SID_TYPE where
  "WinAccountDomainGuestsSid \<equiv> 43"

text \<open>One case of the first switch: initialise the buffer with \<^verbatim>\<open>n\<close> sub-authorities and store
  the first of them.  The third component is the value of the variable \<^verbatim>\<open>i\<close> afterwards.\<close>

definition wks_init ::
    "byte list \<Rightarrow> UCHAR \<Rightarrow> ULONG \<Rightarrow> nat \<Rightarrow> (NTSTATUS \<times> mem \<times> nat) option" where
  "wks_init identifierAuthority n rid i = do {
     (status, b) \<leftarrow> RtlInitializeSid (Some (replicate SID_MAX_SIZE 0)) (Some identifierAuthority) n;
     b \<leftarrow> b;
     if status \<noteq> STATUS_SUCCESS then Some (status, b, 0)
     else do {
       b \<leftarrow> set_SubAuthority b 0 rid;
       Some (STATUS_SUCCESS, b, i)
     }
   }"

definition wks_domain :: "mem option \<Rightarrow> (NTSTATUS \<times> mem \<times> nat) option" where
  "wks_domain DomainOrComputerSid =
    (case DomainOrComputerSid of
       None \<Rightarrow> Some (STATUS_INVALID_PARAMETER, replicate SID_MAX_SIZE 0, 0)
     | Some d \<Rightarrow> do {
         c \<leftarrow> sid_SubAuthorityCount d;
         (status, b) \<leftarrow> RtlInitializeSid (Some (replicate SID_MAX_SIZE 0))
                           (Some SECURITY_NT_AUTHORITY) (c + 1);
         b \<leftarrow> b;
         if status \<noteq> STATUS_SUCCESS then Some (status, b, 0)
         else do {
           b \<leftarrow> copy_sub_authorities d b 0 (unat c);
           Some (STATUS_SUCCESS, b, unat c)
         }
       })"

definition wks_prefix ::
    "WELL_KNOWN_SID_TYPE \<Rightarrow> mem option \<Rightarrow> (NTSTATUS \<times> mem \<times> nat) option" where
  "wks_prefix t DomainOrComputerSid =
    (if t = WinWorldSid then wks_init SECURITY_WORLD_SID_AUTHORITY 1 0 0
     else if t = WinNetworkSid then wks_init SECURITY_WORLD_SID_AUTHORITY 1 2 0
     else if t = WinInteractiveSid then wks_init SECURITY_WORLD_SID_AUTHORITY 1 4 0
     else if t = WinCreatorOwnerSid then wks_init SECURITY_CREATOR_SID_AUTHORITY 1 0 0
     else if t = WinCreatorGroupSid then wks_init SECURITY_CREATOR_SID_AUTHORITY 1 1 0
     else if t = WinAnonymousSid then wks_init SECURITY_CREATOR_SID_AUTHORITY 1 7 0
     else if t = WinAuthenticatedUserSid then wks_init SECURITY_NT_AUTHORITY 1 11 0
     else if t = WinLocalSystemSid then wks_init SECURITY_NT_AUTHORITY 1 18 0
     else if t = WinLocalServiceSid then wks_init SECURITY_NT_AUTHORITY 1 19 0
     else if t = WinBuiltinDomainSid then wks_init SECURITY_NT_AUTHORITY 1 32 1
     else if t \<in> {WinBuiltinAdministratorsSid, WinBuiltinUsersSid, WinBuiltinGuestsSid,
                  WinBuiltinPowerUsersSid, WinBuiltinPrintOperatorsSid,
                  WinBuiltinBackupOperatorsSid}
       then wks_init SECURITY_NT_AUTHORITY 2 32 1
     else if t \<in> {WinAccountAdministratorSid, WinAccountGuestSid, WinAccountDomainAdminsSid,
                  WinAccountDomainUsersSid, WinAccountDomainGuestsSid}
       then wks_domain DomainOrComputerSid
     else Some (STATUS_NOT_IMPLEMENTED, replicate SID_MAX_SIZE 0, 0))"

definition wks_rid :: "WELL_KNOWN_SID_TYPE \<Rightarrow> ULONG option" where
  "wks_rid t =
    (if t = WinBuiltinAdministratorsSid then Some 544
     else if t = WinBuiltinUsersSid then Some 545
     else if t = WinBuiltinGuestsSid then Some 546
     else if t = WinBuiltinPowerUsersSid then Some 547
     else if t = WinBuiltinPrintOperatorsSid then Some 550
     else if t = WinBuiltinBackupOperatorsSid then Some 551
     else if t = WinAccountAdministratorSid then Some 500
     else if t = WinAccountGuestSid then Some 501
     else if t = WinAccountDomainAdminsSid then Some 512
     else if t = WinAccountDomainUsersSid then Some 513
     else if t = WinAccountDomainGuestsSid then Some 514
     else None)"

text \<open>The cleanup label: on failure the caller's buffer is zeroed over its stated size.\<close>

definition wks_cleanup ::
    "NTSTATUS \<Rightarrow> mem option \<Rightarrow> ULONG \<Rightarrow> ULONG \<Rightarrow> (NTSTATUS \<times> mem option \<times> ULONG) option" where
  "wks_cleanup status Sid sz sizeRequired =
    (case Sid of
       None \<Rightarrow> Some (status, None, sizeRequired)
     | Some m \<Rightarrow> do {
         m \<leftarrow> memset m 0 0 (unat sz);
         Some (status, Some m, sizeRequired)
       })"

definition RtlCreateWellKnownSid ::
    "WELL_KNOWN_SID_TYPE \<Rightarrow> mem option \<Rightarrow> mem option \<Rightarrow> ULONG \<Rightarrow>
     (NTSTATUS \<times> mem option \<times> ULONG) option" where
  "RtlCreateWellKnownSid WellKnownSidType DomainOrComputerSid Sid SidSize = do {
     (status, b, i) \<leftarrow> wks_prefix WellKnownSidType DomainOrComputerSid;
     if status \<noteq> STATUS_SUCCESS then wks_cleanup status Sid SidSize 0
     else do {
       b \<leftarrow> (case wks_rid WellKnownSidType of
               None \<Rightarrow> Some b | Some rid \<Rightarrow> set_SubAuthority b i rid);
       sizeRequired \<leftarrow> RtlLengthSid b;
       if SidSize < sizeRequired then wks_cleanup STATUS_BUFFER_TOO_SMALL Sid SidSize sizeRequired
       else do {
         m \<leftarrow> Sid;
         m \<leftarrow> memcpy m 0 b 0 (unat sizeRequired);
         Some (STATUS_SUCCESS, Some m, sizeRequired)
       }
     }
   }"

definition RtlAllocateWellKnownSid ::
    "(nat \<Rightarrow> bool) \<Rightarrow> WELL_KNOWN_SID_TYPE \<Rightarrow> mem option \<Rightarrow> (NTSTATUS \<times> mem option) option" where
  "RtlAllocateWellKnownSid avail WellKnownSidType DomainOrComputerSid = do {
     (status, b, _) \<leftarrow> RtlCreateWellKnownSid WellKnownSidType DomainOrComputerSid
                          (Some (replicate SID_MAX_SIZE 0)) 68;
     if status \<noteq> STATUS_SUCCESS then Some (status, None)
     else do {
       b \<leftarrow> b;
       RtlDuplicateSid avail b
     }
   }"

section \<open>The abstract identifier\<close>

record SID =
  Revision :: UCHAR
  IdentifierAuthority :: "byte list"
  SubAuthority :: "ULONG list"

definition sid_wf :: "SID \<Rightarrow> bool" where
  "sid_wf s \<longleftrightarrow> length (IdentifierAuthority s) = 6 \<and> length (SubAuthority s) < 256"

definition sid_valid :: "SID \<Rightarrow> bool" where
  "sid_valid s \<longleftrightarrow> Revision s = SID_REVISION \<and> length (IdentifierAuthority s) = 6
     \<and> length (SubAuthority s) \<le> SID_MAX_SUB_AUTHORITIES"

definition sid_bytes :: "SID \<Rightarrow> mem" where
  "sid_bytes s = Revision s # word_of_nat (length (SubAuthority s)) # IdentifierAuthority s
     @ concat (map enc32 (SubAuthority s))"

fun sub_authorities :: "mem \<Rightarrow> nat \<Rightarrow> nat \<Rightarrow> ULONG list option" where
  "sub_authorities m i 0 = Some []"
| "sub_authorities m i (Suc n) = do {
     v \<leftarrow> sid_SubAuthority m i;
     vs \<leftarrow> sub_authorities m (Suc i) n;
     Some (v # vs)
   }"

definition sid_of :: "mem \<Rightarrow> SID option" where
  "sid_of m = do {
     r \<leftarrow> sid_Revision m;
     c \<leftarrow> sid_SubAuthorityCount m;
     ia \<leftarrow> rdn m 2 6;
     subs \<leftarrow> sub_authorities m 0 (unat c);
     Some \<lparr> Revision = r, IdentifierAuthority = ia, SubAuthority = subs \<rparr>
   }"

lemma sid_valid_wf [simp]: "sid_valid s \<Longrightarrow> sid_wf s"
  by (simp add: sid_valid_def sid_wf_def)

lemma length_sid_bytes [simp]:
  "sid_wf s \<Longrightarrow> length (sid_bytes s) = 8 + 4 * length (SubAuthority s)"
  by (simp add: sid_wf_def sid_bytes_def)

lemma unat_count [simp]: "n < 256 \<Longrightarrow> unat (word_of_nat n :: UCHAR) = n"
  by (rule unat_of_nat_small) simp

lemma sid_SubAuthority_bytes:
  assumes "sid_wf s" and "i < length (SubAuthority s)"
  shows "sid_SubAuthority (sid_bytes s @ rest) i = Some (SubAuthority s ! i)"
proof -
  have "rd32 (IdentifierAuthority s @ concat (map enc32 (SubAuthority s)) @ rest) (6 + 4 * i)
      = Some (SubAuthority s ! i)"
    using assms by (simp add: sid_wf_def f32.get_append_right rd32_concat_enc32)
  then show ?thesis
    by (simp add: sid_SubAuthority_def sid_bytes_def)
qed

lemma sid_fields_bytes [simp]:
  "sid_Revision (sid_bytes s @ rest) = Some (Revision s)"
  "sid_SubAuthorityCount (sid_bytes s @ rest) = Some (word_of_nat (length (SubAuthority s)))"
  by (simp_all add: sid_Revision_def sid_SubAuthorityCount_def sid_bytes_def)

lemma sub_authorities_bytes:
  assumes "sid_wf s" and "i + n = length (SubAuthority s)"
  shows "sub_authorities (sid_bytes s @ rest) i n = Some (drop i (SubAuthority s))"
  using assms(2)
proof (induction n arbitrary: i)
  case (Suc n)
  then show ?case
    using assms(1) Suc.IH[of "Suc i"]
    by (simp add: sid_SubAuthority_bytes Cons_nth_drop_Suc)
qed simp

lemma sid_of_bytes: "sid_wf s \<Longrightarrow> sid_of (sid_bytes s @ rest) = Some s"
proof -
  assume wf: "sid_wf s"
  have "rdn (sid_bytes s @ rest) 2 6 = Some (IdentifierAuthority s)"
    using wf by (simp add: sid_bytes_def sid_wf_def rdn_def)
  then show ?thesis
    using wf sub_authorities_bytes[OF wf, of 0 "length (SubAuthority s)" rest]
    by (simp add: sid_of_def sid_wf_def)
qed

lemma sub_authorities_Some:
  "sub_authorities m i n = Some vs \<Longrightarrow>
    length vs = n \<and> (n \<noteq> 0 \<longrightarrow> 8 + 4 * (i + n) \<le> length m)
    \<and> take (4 * n) (drop (8 + 4 * i) m) = concat (map enc32 vs)"
proof (induction n arbitrary: i vs)
  case (Suc n)
  then obtain v ws where v: "sid_SubAuthority m i = Some v" and
    ws: "sub_authorities m (Suc i) n = Some ws" and vs: "vs = v # ws"
    by (auto simp: bind_eq_Some_conv)
  from v have le: "12 + 4 * i \<le> length m" and e: "take 4 (drop (8 + 4 * i) m) = enc32 v"
    by (auto simp: sid_SubAuthority_def rd32_def rdn_def enc32_dec32 split: if_splits)
  have "take (4 * Suc n) (drop (8 + 4 * i) m)
      = take 4 (drop (8 + 4 * i) m) @ take (4 * n) (drop (8 + 4 * Suc i) m)"
    by (simp add: take_add add.commute)
  then show ?case
    using Suc.IH[OF ws] e le vs by (cases n) auto
qed simp

lemma sid_of_Some:
  assumes "sid_of m = Some s"
  shows "sid_wf s \<and> (\<exists>rest. m = sid_bytes s @ rest)"
proof -
  from assms obtain r c ia subs where r: "rd8 m 0 = Some r" and c: "rd8 m 1 = Some c" and
    ia: "rdn m 2 6 = Some ia" and subs: "sub_authorities m 0 (unat c) = Some subs" and
    s: "s = \<lparr> Revision = r, IdentifierAuthority = ia, SubAuthority = subs \<rparr>"
    by (auto simp: sid_of_def sid_Revision_def sid_SubAuthorityCount_def bind_eq_Some_conv)
  note sub = sub_authorities_Some[OF subs]
  from ia have len: "8 \<le> length m" and ia': "ia = take 6 (drop 2 m)"
    by (auto simp: rdn_def split: if_splits)
  have c': "c = word_of_nat (length subs)"
    using sub by simp
  have wf: "sid_wf s"
    using sub len ia' unat_byte_lt[of c] by (simp add: s sid_wf_def)
  obtain m' where m: "m = r # c # m'"
    using r c len by (cases m; cases "tl m") auto
  have "m' = ia @ concat (map enc32 subs) @ drop (6 + 4 * unat c) m'"
    using sub ia' m append_take_drop_id[of 6 m']
      append_take_drop_id[of "4 * unat c" "drop 6 m'"] by (simp add: add.commute)
  then show ?thesis
    using wf m c' by (auto simp: sid_bytes_def s)
qed

text \<open>Decoding a block and writing out an identifier are inverse.\<close>

lemma sid_of_iff: "sid_of m = Some s \<longleftrightarrow> sid_wf s \<and> (\<exists>rest. m = sid_bytes s @ rest)"
  using sid_of_Some sid_of_bytes by blast

section \<open>Functional correctness\<close>

lemma unat_RtlLengthRequiredSid:
  "unat (RtlLengthRequiredSid (ucast (c :: UCHAR))) = 8 + 4 * unat c"
proof -
  have "RtlLengthRequiredSid (ucast c) = word_of_nat (8 + 4 * unat c)"
    by (simp add: RtlLengthRequiredSid_def)
  then show ?thesis
    using unat_byte_lt[of c] by (simp only:) (intro unat_of_nat_small, simp)
qed

lemma unat_RtlLengthRequiredSid_Suc:
  "unat c < 255 \<Longrightarrow> unat (RtlLengthRequiredSid (ucast (c :: UCHAR) + 1)) = 12 + 4 * unat c"
proof -
  assume "unat c < 255"
  have "RtlLengthRequiredSid (ucast c + 1) = word_of_nat (12 + 4 * unat c)"
    by (simp add: RtlLengthRequiredSid_def)
  then show ?thesis
    using unat_byte_lt[of c] by (simp only:) (intro unat_of_nat_small, simp)
qed

definition sid_length :: "SID \<Rightarrow> nat" where
  "sid_length s = 8 + 4 * length (SubAuthority s)"

lemma length_sid_image: "sid_wf s \<Longrightarrow> length (sid_bytes s) = sid_length s"
  by (simp add: sid_length_def)

lemma RtlLengthSid_bytes:
  assumes "sid_wf s"
  shows "\<exists>l. RtlLengthSid (sid_bytes s @ rest) = Some l \<and> unat l = sid_length s"
  using assms by (simp add: RtlLengthSid_def unat_RtlLengthRequiredSid sid_wf_def sid_length_def)

lemma rdn_sid_bytes: "sid_wf s \<Longrightarrow> rdn (sid_bytes s @ rest) 0 (sid_length s) = Some (sid_bytes s)"
  using rdn_append(1)[of "sid_bytes s" rest] by (simp add: sid_length_def)

lemma sid_bytes_inj: "sid_wf s \<Longrightarrow> sid_wf t \<Longrightarrow> sid_bytes s = sid_bytes t \<longleftrightarrow> s = t"
  by (metis append.right_neutral option.inject sid_of_bytes)

lemma count_eq_iff:
  "m < 256 \<Longrightarrow> n < 256 \<Longrightarrow> (word_of_nat m :: UCHAR) = word_of_nat n \<longleftrightarrow> m = n"
  by (metis unat_count)

lemma RtlEqualSid_correct:
  assumes "sid_of m1 = Some s1" and "sid_of m2 = Some s2"
  shows "RtlEqualSid m1 m2 = Some (s1 = s2)"
proof -
  obtain r1 r2 where wf: "sid_wf s1" "sid_wf s2" and m: "m1 = sid_bytes s1 @ r1" "m2 = sid_bytes s2 @ r2"
    using assms by (auto simp: sid_of_iff)
  obtain l where l: "RtlLengthSid m1 = Some l" "unat l = sid_length s1"
    using RtlLengthSid_bytes[OF wf(1)] m by blast
  have len: "length (SubAuthority s1) < 256" "length (SubAuthority s2) < 256"
    using wf by (simp_all add: sid_wf_def)
  show ?thesis
  proof (cases "length (SubAuthority s1) = length (SubAuthority s2)")
    case True
    then have "rdn m1 0 (unat l) = Some (sid_bytes s1)" "rdn m2 0 (unat l) = Some (sid_bytes s2)"
      using m l rdn_sid_bytes[OF wf(1)] rdn_sid_bytes[OF wf(2)] by (simp_all add: sid_length_def)
    then show ?thesis
      using True m l wf by (simp add: RtlEqualSid_def RtlEqualMemory_def sid_bytes_inj)
  next
    case False
    then show ?thesis
      using m len by (auto simp: RtlEqualSid_def count_eq_iff)
  qed
qed

lemma RtlValidSid_correct: "sid_of m = Some s \<Longrightarrow> RtlValidSid (Some m) = Some (sid_valid s)"
  by (auto simp: sid_of_iff RtlValidSid_def sid_valid_def sid_wf_def)

lemma sid_of_readable:
  assumes "8 \<le> length m" and "8 + 4 * unat (m ! 1) \<le> length m"
  shows "\<exists>s. sid_of m = Some s \<and> Revision s = m ! 0 \<and> length (SubAuthority s) = unat (m ! 1)"
proof -
  let ?c = "m ! 1"
  obtain subs where subs: "length subs = unat ?c" "take (4 * unat ?c) (drop 8 m) = concat (map enc32 subs)"
    using blocks_of_four[of "take (4 * unat ?c) (drop 8 m)" "unat ?c"] assms by auto
  define s where "s = \<lparr> Revision = m ! 0, IdentifierAuthority = take 6 (drop 2 m), SubAuthority = subs \<rparr>"
  have wf: "sid_wf s"
    using assms subs unat_byte_lt[of ?c] by (simp add: s_def sid_wf_def)
  obtain a c m' where m: "m = a # c # m'"
    using assms(1) by (cases m; cases "tl m") auto
  have "m' = take 6 m' @ take (4 * unat c) (drop 6 m') @ drop (4 * unat c) (drop 6 m')"
    by (simp only: append_take_drop_id)
  moreover have "c = word_of_nat (length subs)"
    using subs m by simp
  ultimately have "m = sid_bytes s @ drop (4 * unat c) (drop 6 m')"
    using m subs(2) by (simp add: s_def sid_bytes_def)
  then show ?thesis
    using wf sid_of_bytes subs by (metis s_def select_convs(1,3))
qed

lemma sid_of_length: "sid_of m = Some s \<Longrightarrow> sid_length s \<le> length m"
  by (auto simp: sid_of_iff sid_length_def)

lemma sid_of_nth:
  "sid_of m = Some s \<Longrightarrow> m ! 0 = Revision s \<and> unat (m ! 1) = length (SubAuthority s)"
  by (auto simp: sid_of_iff sid_bytes_def sid_wf_def)

lemma RtlValidSid_readable:
  assumes "RtlValidSid (Some m) = Some True" and "68 \<le> length m"
  shows "\<exists>s. sid_of m = Some s \<and> sid_valid s"
proof -
  from assms have "unat (m ! 1) \<le> 15"
    by (auto simp: RtlValidSid_def sid_SubAuthorityCount_def rd8_def rdn_def dec8_def
        bind_eq_Some_conv split: if_splits)
  then obtain s where "sid_of m = Some s"
    using sid_of_readable[of m] assms(2) by auto
  then show ?thesis
    using assms(1) RtlValidSid_correct by auto
qed

definition sid_prefix :: "nat \<Rightarrow> SID \<Rightarrow> mem" where
  "sid_prefix n s = IdentifierAuthority s @ concat (map enc32 (take n (SubAuthority s)))"

lemma sid_prefix_eq_iff:
  assumes "sid_wf s" "sid_wf t" "n \<le> length (SubAuthority s)" "n \<le> length (SubAuthority t)"
  shows "sid_prefix n s = sid_prefix n t \<longleftrightarrow>
    IdentifierAuthority s = IdentifierAuthority t \<and> take n (SubAuthority s) = take n (SubAuthority t)"
  using assms concat_enc32_inj[of "take n (SubAuthority s)" "take n (SubAuthority t)"]
  by (simp add: sid_prefix_def sid_wf_def)

lemma rdn_sid_prefix:
  assumes "sid_wf s" "n \<le> length (SubAuthority s)"
  shows "rdn (drop 2 (sid_bytes s @ rest)) 0 (6 + 4 * n) = Some (sid_prefix n s)"
    and "rdn (sid_bytes s @ rest) 0 (8 + 4 * n) =
      Some (Revision s # word_of_nat (length (SubAuthority s)) # sid_prefix n s)"
  using assms
  by (simp_all add: sid_bytes_def sid_prefix_def sid_wf_def rdn_def take_concat_enc32 take_Cons')

lemma RtlIsPrefixSid_correct:
  assumes "sid_of p = Some ps" and "sid_of m = Some s"
  shows "RtlIsPrefixSid p m = Some (Revision ps = Revision s
      \<and> IdentifierAuthority ps = IdentifierAuthority s
      \<and> length (SubAuthority ps) \<le> length (SubAuthority s)
      \<and> take (length (SubAuthority ps)) (SubAuthority s) = SubAuthority ps)"
proof -
  obtain r1 r2 where wf: "sid_wf ps" "sid_wf s" and m: "p = sid_bytes ps @ r1" "m = sid_bytes s @ r2"
    using assms by (auto simp: sid_of_iff)
  let ?n = "length (SubAuthority ps)"
  obtain l where l: "RtlLengthSid p = Some l" "unat l = 8 + 4 * ?n"
    using RtlLengthSid_bytes[OF wf(1)] m by (auto simp: sid_length_def)
  have "unat (l - 2) = 6 + 4 * ?n"
    using l by (subst unat_sub) (simp_all add: word_le_nat_alt)
  moreover have "ptr_add p 2 = Some (drop 2 p)" "ptr_add m 2 = Some (drop 2 m)"
    using m by (simp_all add: ptr_add_def sid_bytes_def)
  moreover have "(word_of_nat ?n :: UCHAR) \<le> word_of_nat (length (SubAuthority s))
      \<longleftrightarrow> ?n \<le> length (SubAuthority s)"
    using wf by (simp add: word_le_nat_alt sid_wf_def)
  ultimately show ?thesis
    using l wf m rdn_sid_prefix(1)[OF wf(1), of ?n r1] rdn_sid_prefix(1)[OF wf(2), of ?n r2]
      sid_prefix_eq_iff[OF wf, of ?n]
    by (auto simp: RtlIsPrefixSid_def Let_def RtlEqualMemory_def)
qed

lemma RtlEqualPrefixSid_correct:
  assumes "sid_of m1 = Some s1" and "sid_of m2 = Some s2"
  shows "RtlEqualPrefixSid m1 m2 = Some (Revision s1 = Revision s2
      \<and> IdentifierAuthority s1 = IdentifierAuthority s2
      \<and> length (SubAuthority s1) = length (SubAuthority s2)
      \<and> butlast (SubAuthority s1) = butlast (SubAuthority s2))"
proof -
  obtain r1 r2 where wf: "sid_wf s1" "sid_wf s2" and m: "m1 = sid_bytes s1 @ r1" "m2 = sid_bytes s2 @ r2"
    using assms by (auto simp: sid_of_iff)
  let ?n1 = "length (SubAuthority s1)" and ?n2 = "length (SubAuthority s2)"
  have len: "?n1 < 256" "?n2 < 256"
    using wf by (simp_all add: sid_wf_def)
  define c where "c = (word_of_nat ?n1 :: UCHAR)"
  have c: "unat c = ?n1"
    using len by (simp add: c_def)
  then have "unat (if c > 0 then c - 1 else c) = ?n1 - 1"
    using unat_minus_one[of c] by (auto simp: word_gt_0)
  then have l: "unat (RtlLengthRequiredSid (ucast (if c > 0 then c - 1 else c))) = 8 + 4 * (?n1 - 1)"
    by (simp only: unat_RtlLengthRequiredSid)
  show ?thesis
  proof (cases "?n1 = ?n2")
    case True
    then have "sid_SubAuthorityCount m1 = Some c" "sid_SubAuthorityCount m2 = Some c"
      using m by (simp_all add: c_def)
    then have "RtlEqualPrefixSid m1 m2 = RtlEqualMemory m1 m2 (8 + 4 * (?n1 - 1))"
      using l by (simp add: RtlEqualPrefixSid_def Let_def)
    then show ?thesis
      using True m rdn_sid_prefix(2)[OF wf(1), of "?n1 - 1" r1]
        rdn_sid_prefix(2)[OF wf(2), of "?n1 - 1" r2] sid_prefix_eq_iff[OF wf, of "?n1 - 1"]
      by (auto simp: RtlEqualMemory_def butlast_conv_take)
  next
    case False
    then show ?thesis
      using m len by (simp add: RtlEqualPrefixSid_def count_eq_iff)
  qed
qed

lemma RtlCopySid_correct:
  assumes "sid_of src = Some s" and "unat len \<le> length dst"
  shows "RtlCopySid len dst src =
    (if unat len < sid_length s then Some (STATUS_BUFFER_TOO_SMALL, dst)
     else Some (STATUS_SUCCESS, sid_bytes s @ drop (sid_length s) dst))"
proof -
  obtain r where wf: "sid_wf s" and m: "src = sid_bytes s @ r"
    using assms by (auto simp: sid_of_iff)
  obtain l where l: "RtlLengthSid src = Some l" "unat l = sid_length s"
    using RtlLengthSid_bytes[OF wf] m by blast
  show ?thesis
    using assms(2) l wf m rdn_sid_bytes[OF wf, of r]
    by (simp add: RtlCopySid_def memcpy_def word_less_nat_alt wrn_def sid_length_def)
qed

lemma RtlDuplicateSid_correct:
  assumes "sid_of m = Some s"
  shows "RtlDuplicateSid avail m =
    (if avail (sid_length s) then Some (STATUS_SUCCESS, Some (sid_bytes s))
     else Some (STATUS_INSUFFICIENT_RESOURCES, None))"
proof -
  obtain r where wf: "sid_wf s" and m: "m = sid_bytes s @ r"
    using assms by (auto simp: sid_of_iff)
  obtain l where l: "RtlLengthSid m = Some l" "unat l = sid_length s"
    using RtlLengthSid_bytes[OF wf] m by blast
  show ?thesis
    using l wf m rdn_sid_bytes[OF wf, of r]
    by (simp add: RtlDuplicateSid_def memcpy_def RTL_ALLOCATE_cases wrn_def sid_length_def)
qed

lemma wr32_take_drop:
  "off + 4 \<le> length m \<Longrightarrow> wr32 m off w = Some (take off m @ enc32 w @ drop (off + 4) m)"
  by (simp add: wr32_def wrn_def)

lemma RtlAppendRidSid_correct:
  assumes "sid_of m = Some s" and "unat len \<le> length m"
  shows "RtlAppendRidSid len m rid =
    (if 15 \<le> length (SubAuthority s) then Some (STATUS_INVALID_PARAMETER, m)
     else if unat len < sid_length s + 4 then Some (STATUS_BUFFER_TOO_SMALL, m)
     else Some (STATUS_SUCCESS,
       sid_bytes (s\<lparr>SubAuthority := SubAuthority s @ [rid]\<rparr>) @ drop (sid_length s + 4) m))"
proof -
  obtain r where wf: "sid_wf s" and m: "m = sid_bytes s @ r"
    using assms by (auto simp: sid_of_iff)
  define n where "n = length (SubAuthority s)"
  have n: "n < 256" and bl: "length (sid_bytes s) = 8 + 4 * n"
    using wf by (simp_all add: n_def sid_wf_def)
  consider "15 \<le> n" | "n < 15" "unat len < 12 + 4 * n" | "n < 15" "12 + 4 * n \<le> unat len"
    by linarith
  then show ?thesis
  proof cases
    case 3
    then have "set_SubAuthority m n rid = Some (sid_bytes s @ enc32 rid @ drop 4 r)"
      using assms(2) m bl by (simp add: set_SubAuthority_def wr32_take_drop)
    moreover have "wr8 (sid_bytes s @ enc32 rid @ drop 4 r) 1 (word_of_nat n + 1) =
        Some (sid_bytes (s\<lparr>SubAuthority := SubAuthority s @ [rid]\<rparr>) @ drop 4 r)"
      by (simp add: sid_bytes_def n_def add.commute)
    ultimately show ?thesis
      using 3 n m bl unat_RtlLengthRequiredSid_Suc[of "word_of_nat n"]
      by (simp add: RtlAppendRidSid_def sid_length_def word_less_nat_alt flip: n_def)
  qed (use n m unat_RtlLengthRequiredSid_Suc[of "word_of_nat n"] in
      \<open>simp_all add: RtlAppendRidSid_def sid_length_def word_less_nat_alt flip: n_def\<close>)
qed

lemma RtlGetRidSid_correct:
  assumes "sid_of m = Some s"
  shows "RtlGetRidSid True (Some m) =
    (if SubAuthority s = [] then Some (STATUS_INVALID_SUB_AUTHORITY, None)
     else Some (STATUS_SUCCESS, Some (last (SubAuthority s))))"
proof -
  obtain r where wf: "sid_wf s" and m: "m = sid_bytes s @ r"
    using assms by (auto simp: sid_of_iff)
  have n: "length (SubAuthority s) < 256"
    using wf by (simp add: sid_wf_def)
  then show ?thesis
    using m wf sid_SubAuthority_bytes[OF wf, of "length (SubAuthority s) - 1" r]
      count_eq_iff[OF n, of 0]
    by (auto simp: RtlGetRidSid_def last_conv_nth)
qed

lemma RtlInitializeSid_correct:
  assumes "length ia = 6" and "8 + 4 * unat c \<le> length m"
  shows "RtlInitializeSid (Some m) (Some ia) c =
    (if 15 < unat c then Some (STATUS_INVALID_PARAMETER, Some m)
     else Some (STATUS_SUCCESS, Some (sid_bytes \<lparr> Revision = 1, IdentifierAuthority = ia,
             SubAuthority = replicate (unat c) 0 \<rparr> @ drop (8 + 4 * unat c) m)))"
proof -
  obtain a b m' where m: "m = a # b # m'" and m': "6 + 4 * unat c \<le> length m'"
    using assms(2) by (cases m; cases "tl m") auto
  have z: "concat (replicate n (enc32 0)) = replicate (4 * n) 0" for n
    by (induction n) (simp_all add: enc32_def eval_nat_numeral)
  have "wrn (take 6 m' @ drop 6 m') 0 ia = Some (ia @ drop 6 m')"
    using assms(1) m' by (intro wrn_append_0) simp
  moreover have "wrn (ia @ drop 6 m') 6 (replicate (4 * unat c) 0) =
      Some (ia @ replicate (4 * unat c) 0 @ drop (6 + 4 * unat c) m')"
    using assms(1) m' by (simp add: wrn_def add.commute)
  ultimately show ?thesis
    using assms(1) m by (simp add: RtlInitializeSid_def memcpy_def memset_def rdn_def sid_bytes_def z)
qed

lemma copy_sub_authorities_correct:
  assumes "sid_wf s" and "i + k = length (SubAuthority s)" and "sid_length s \<le> length dst"
  shows "copy_sub_authorities (sid_bytes s @ r) dst i k =
    Some (take (8 + 4 * i) dst @ concat (map enc32 (drop i (SubAuthority s))) @ drop (sid_length s) dst)"
  using assms(2,3)
proof (induction k arbitrary: i dst)
  case 0
  then show ?case
    by (simp add: sid_length_def)
next
  case (Suc k)
  let ?d = "take (8 + 4 * i) dst @ enc32 (SubAuthority s ! i) @ drop (8 + 4 * i + 4) dst"
  have i: "i < length (SubAuthority s)" and le: "8 + 4 * i + 4 \<le> length dst"
    using Suc.prems by (simp_all add: sid_length_def)
  have "copy_sub_authorities (sid_bytes s @ r) dst i (Suc k) = copy_sub_authorities (sid_bytes s @ r) ?d (Suc i) k"
    using assms(1) i le by (simp add: sid_SubAuthority_bytes set_SubAuthority_def wr32_take_drop)
  also have "\<dots> = Some (take (8 + 4 * Suc i) ?d @ concat (map enc32 (drop (Suc i) (SubAuthority s)))
      @ drop (sid_length s) ?d)"
    using Suc.prems le by (intro Suc.IH) simp_all
  also have "take (8 + 4 * Suc i) ?d = take (8 + 4 * i) dst @ enc32 (SubAuthority s ! i)"
    using le by simp
  also have "drop (sid_length s) ?d = drop (sid_length s) dst"
    using i le by (simp add: sid_length_def)
  finally show ?case
    using i by (simp flip: Cons_nth_drop_Suc)
qed

lemma sid_copy_loop:
  assumes "sid_wf s" and "sid_length s \<le> length d"
  shows "(do { d1 \<leftarrow> wr8 d 0 (Revision s);
            d2 \<leftarrow> wr8 d1 1 (word_of_nat (length (SubAuthority s)));
            d3 \<leftarrow> memcpy d2 2 (sid_bytes s @ r) 2 6;
            copy_sub_authorities (sid_bytes s @ r) d3 0 (length (SubAuthority s)) }) =
     Some (sid_bytes s @ drop (sid_length s) d)"
proof -
  obtain a b d' where d: "d = a # b # d'" and d': "6 + 4 * length (SubAuthority s) \<le> length d'"
    using assms(2) by (cases d; cases "tl d") (auto simp: sid_length_def)
  let ?c = "word_of_nat (length (SubAuthority s)) :: UCHAR"
  have ia: "length (IdentifierAuthority s) = 6"
    using assms(1) by (simp add: sid_wf_def)
  have "memcpy (Revision s # ?c # take 6 d' @ drop 6 d') 2 (sid_bytes s @ r) 2 6
      = Some (Revision s # ?c # IdentifierAuthority s @ drop 6 d')"
    using ia d' wrn_append_0[of "take 6 d'" "IdentifierAuthority s" "drop 6 d'"]
    by (simp add: memcpy_def sid_bytes_def rdn_def)
  then show ?thesis
    using copy_sub_authorities_correct[OF assms(1), of 0 "length (SubAuthority s)"
        "Revision s # ?c # IdentifierAuthority s @ drop 6 d'" r] d d' ia
    by (simp add: sid_length_def sid_bytes_def add.commute)
qed

lemma sid_length_lt: "sid_wf s \<Longrightarrow> sid_length s < 1032"
  by (simp add: sid_wf_def sid_length_def)

lemma unat_sid_length [simp]: "sid_wf s \<Longrightarrow> unat (word_of_nat (sid_length s) :: ULONG) = sid_length s"
  using sid_length_lt[of s] by (intro unat_of_nat_small) simp

lemma RtlLengthSid_correct: "sid_of m = Some s \<Longrightarrow> RtlLengthSid m = Some (word_of_nat (sid_length s))"
proof -
  assume "sid_of m = Some s"
  then obtain l where "RtlLengthSid m = Some l" and "sid_length s = unat l"
    using RtlLengthSid_bytes[of s] by (metis sid_of_iff)
  then show ?thesis
    by simp
qed

lemma RtlpEncodeLittleEndianSid_correct:
  assumes "sid_of m = Some s" and "unat sz \<le> length b"
  shows "RtlpEncodeLittleEndianSid m b sz =
    (if unat sz < sid_length s then Some (STATUS_BUFFER_TOO_SMALL, b, 0)
     else Some (STATUS_SUCCESS, sid_bytes s @ drop (sid_length s) b, word_of_nat (sid_length s)))"
proof -
  obtain r where wf: "sid_wf s" and m: "m = sid_bytes s @ r"
    using assms by (auto simp: sid_of_iff)
  show ?thesis
    using assms m wf sid_copy_loop[OF wf, of b r]
    by (simp add: RtlpEncodeLittleEndianSid_def RtlLengthSid_correct word_less_nat_alt sid_wf_def
        bind_eq_Some_conv)
qed

lemma RtlpDecodeLittleEndianSid_correct:
  assumes "sid_of m = Some s" and "sid_length s \<le> length d"
  shows "RtlpDecodeLittleEndianSid m d = Some (sid_bytes s @ drop (sid_length s) d)"
proof -
  obtain r where wf: "sid_wf s" and m: "m = sid_bytes s @ r"
    using assms by (auto simp: sid_of_iff)
  show ?thesis
    using m wf sid_copy_loop[OF wf assms(2), of r]
    by (simp add: RtlpDecodeLittleEndianSid_def sid_wf_def)
qed

lemma sid_of_take: "sid_of m = Some s \<Longrightarrow> sid_length s \<le> n \<Longrightarrow> sid_of (take n m) = Some s"
  by (auto simp: sid_of_iff sid_length_def)

lemma RtlpIsValidLittleEndianSidBuffer_correct:
  assumes "unat sz \<le> length m"
  shows "RtlpIsValidLittleEndianSidBuffer m sz =
    (case sid_of (take (unat sz) m) of
       None \<Rightarrow> Some (False, 0)
     | Some s \<Rightarrow> if sid_valid s then Some (True, word_of_nat (sid_length s)) else Some (False, 0))"
proof (cases "8 \<le> unat sz \<and> 8 + 4 * unat (m ! 1) \<le> unat sz")
  case True
  then obtain s where s: "sid_of m = Some s" and n: "length (SubAuthority s) = unat (m ! 1)"
    using sid_of_readable[of m] assms by auto
  then have t: "sid_of (take (unat sz) m) = Some s"
    using True by (intro sid_of_take) (simp_all add: sid_length_def)
  have c: "sid_SubAuthorityCount m = Some (m ! 1)"
    using True assms by (simp add: sid_SubAuthorityCount_def rd8_def rdn_def dec8_def)
  moreover have "RtlLengthRequiredSid (ucast (m ! 1)) = word_of_nat (sid_length s)"
    using RtlLengthSid_correct[OF s] c by (simp add: RtlLengthSid_def)
  moreover have "sid_wf s"
    using s by (simp add: sid_of_iff)
  moreover have "sid_length s \<le> unat sz"
    using True n by (simp add: sid_length_def)
  ultimately show ?thesis
    using t True RtlValidSid_correct[OF s]
    by (simp add: RtlpIsValidLittleEndianSidBuffer_def Let_def RtlpIsBufferAvailable_iff
        word_less_nat_alt)
next
  case False
  have "sid_of (take (unat sz) m) = None"
  proof (rule ccontr)
    assume "sid_of (take (unat sz) m) \<noteq> None"
    then obtain s where s: "sid_of (take (unat sz) m) = Some s"
      by blast
    then have "sid_length s \<le> unat sz" and "8 + 4 * unat (take (unat sz) m ! 1) = sid_length s"
      using sid_of_length[OF s] sid_of_nth[OF s] assms by (simp_all add: sid_length_def)
    then show False
      using False by (simp add: sid_length_def)
  qed
  moreover have "sid_SubAuthorityCount m = Some (m ! 1)" if "8 \<le> unat sz"
    using that assms by (simp add: sid_SubAuthorityCount_def rd8_def rdn_def dec8_def)
  ultimately show ?thesis
    using False by (auto simp: RtlpIsValidLittleEndianSidBuffer_def Let_def RtlpIsBufferAvailable_iff
        word_less_nat_alt unat_RtlLengthRequiredSid)
qed

lemma RtlConvertSidToLittleEndian_eq:
  "RtlConvertSidToLittleEndian Sid Buffer len = RtlpEncodeLittleEndianSid Sid Buffer len"
  if "sid_of Sid = Some s"
  using that by (auto simp: RtlConvertSidToLittleEndian_def RtlpEncodeLittleEndianSid_def
      RtlLengthSid_def sid_of_iff)

lemma RtlConvertLittleEndianToSid_correct:
  assumes "sid_of b = Some s" and "sid_length s \<le> length d" and "len \<le> sz"
  shows "RtlConvertLittleEndianToSid b len d sz =
    Some (STATUS_SUCCESS, sid_bytes s @ drop (sid_length s) d, word_of_nat (sid_length s))"
proof -
  obtain r where wf: "sid_wf s" and b: "b = sid_bytes s @ r"
    using assms by (auto simp: sid_of_iff)
  have "RtlLengthRequiredSid (ucast (word_of_nat (length (SubAuthority s)) :: UCHAR)) = word_of_nat (sid_length s)"
    using RtlLengthSid_correct[OF assms(1)] b by (simp add: RtlLengthSid_def)
  then show ?thesis
    using b wf assms(3) sid_copy_loop[OF wf assms(2), of r]
    by (auto simp: RtlConvertLittleEndianToSid_def sid_wf_def bind_eq_Some_conv)
qed

section \<open>The table of well-known identifiers\<close>

abbreviation (input) mk_sid :: "byte list \<Rightarrow> ULONG list \<Rightarrow> SID" where
  "mk_sid ia subs \<equiv> \<lparr> Revision = 1, IdentifierAuthority = ia, SubAuthority = subs \<rparr>"

text \<open>The identifiers as the comments of \<^verbatim>\<open>security-types.h\<close> and the strings of \<^verbatim>\<open>security-sddl-internal.h\<close> give them: all
  but those of everyone and of the creator are under the NT authority.\<close>

definition documented_fixed :: "(WELL_KNOWN_SID_TYPE \<times> SID) list" where
  "documented_fixed =    [(WinWorldSid, mk_sid [0,0,0,0,0,1] [0]),
     (WinNetworkSid, mk_sid [0,0,0,0,0,5] [2]),
     (WinInteractiveSid, mk_sid [0,0,0,0,0,5] [4]),
     (WinCreatorOwnerSid, mk_sid [0,0,0,0,0,3] [0]),
     (WinCreatorGroupSid, mk_sid [0,0,0,0,0,3] [1]),
     (WinAnonymousSid, mk_sid [0,0,0,0,0,5] [7]),
     (WinAuthenticatedUserSid, mk_sid [0,0,0,0,0,5] [11]),
     (WinLocalSystemSid, mk_sid [0,0,0,0,0,5] [18]),
     (WinLocalServiceSid, mk_sid [0,0,0,0,0,5] [19]),
     (WinBuiltinDomainSid, mk_sid [0,0,0,0,0,5] [32]),
     (WinBuiltinAdministratorsSid, mk_sid [0,0,0,0,0,5] [32, 544]),
     (WinBuiltinUsersSid, mk_sid [0,0,0,0,0,5] [32, 545]),
     (WinBuiltinGuestsSid, mk_sid [0,0,0,0,0,5] [32, 546]),
     (WinBuiltinPowerUsersSid, mk_sid [0,0,0,0,0,5] [32, 547]),
     (WinBuiltinPrintOperatorsSid, mk_sid [0,0,0,0,0,5] [32, 550]),
     (WinBuiltinBackupOperatorsSid, mk_sid [0,0,0,0,0,5] [32, 551])]"

text \<open>The three types for which the function uses another authority than the documented one.\<close>

definition other_authority :: "(WELL_KNOWN_SID_TYPE \<times> byte list) list" where
  "other_authority =
    [(WinNetworkSid, SECURITY_WORLD_SID_AUTHORITY), (WinInteractiveSid, SECURITY_WORLD_SID_AUTHORITY),
     (WinAnonymousSid, SECURITY_CREATOR_SID_AUTHORITY)]"

definition well_known_fixed :: "(WELL_KNOWN_SID_TYPE \<times> SID) list" where
  "well_known_fixed =
    map (\<lambda>(t, s). (t, case map_of other_authority t of None \<Rightarrow> s | Some ia \<Rightarrow> s\<lparr>IdentifierAuthority := ia\<rparr>)) documented_fixed"

definition well_known_domain :: "(WELL_KNOWN_SID_TYPE \<times> ULONG) list" where
  "well_known_domain =
    [(WinAccountAdministratorSid, 500), (WinAccountGuestSid, 501),
     (WinAccountDomainAdminsSid, 512), (WinAccountDomainUsersSid, 513),
     (WinAccountDomainGuestsSid, 514)]"

text \<open>The identifier of a type, or the status of the failure: by a table of the types that need no domain, and otherwise
  in the domain.\<close>

definition table_sid :: "(WELL_KNOWN_SID_TYPE \<times> SID) list \<Rightarrow> WELL_KNOWN_SID_TYPE \<Rightarrow> SID option \<Rightarrow> NTSTATUS + SID" where
  "table_sid fixed t ds =
    (case map_of fixed t of
       Some s \<Rightarrow> Inr s
     | None \<Rightarrow>
         (case map_of well_known_domain t of
            None \<Rightarrow> Inl STATUS_NOT_IMPLEMENTED
          | Some rid \<Rightarrow>
              (case ds of
                 None \<Rightarrow> Inl STATUS_INVALID_PARAMETER
               | Some d \<Rightarrow>
                   if 15 \<le> length (SubAuthority d) then Inl STATUS_INVALID_PARAMETER
                   else Inr (mk_sid [0,0,0,0,0,5] (SubAuthority d @ [rid])))))"

definition documented_sid :: "WELL_KNOWN_SID_TYPE \<Rightarrow> SID option \<Rightarrow> NTSTATUS + SID" where
  "documented_sid t ds = table_sid documented_fixed t ds"

definition well_known_sid :: "WELL_KNOWN_SID_TYPE \<Rightarrow> SID option \<Rightarrow> NTSTATUS + SID" where
  "well_known_sid t ds = table_sid well_known_fixed t ds"

lemma well_known_fixed_list:
  "well_known_fixed =    [(WinWorldSid, mk_sid [0,0,0,0,0,1] [0]),
     (WinNetworkSid, mk_sid [0,0,0,0,0,1] [2]),
     (WinInteractiveSid, mk_sid [0,0,0,0,0,1] [4]),
     (WinCreatorOwnerSid, mk_sid [0,0,0,0,0,3] [0]),
     (WinCreatorGroupSid, mk_sid [0,0,0,0,0,3] [1]),
     (WinAnonymousSid, mk_sid [0,0,0,0,0,3] [7]),
     (WinAuthenticatedUserSid, mk_sid [0,0,0,0,0,5] [11]),
     (WinLocalSystemSid, mk_sid [0,0,0,0,0,5] [18]),
     (WinLocalServiceSid, mk_sid [0,0,0,0,0,5] [19]),
     (WinBuiltinDomainSid, mk_sid [0,0,0,0,0,5] [32]),
     (WinBuiltinAdministratorsSid, mk_sid [0,0,0,0,0,5] [32, 544]),
     (WinBuiltinUsersSid, mk_sid [0,0,0,0,0,5] [32, 545]),
     (WinBuiltinGuestsSid, mk_sid [0,0,0,0,0,5] [32, 546]),
     (WinBuiltinPowerUsersSid, mk_sid [0,0,0,0,0,5] [32, 547]),
     (WinBuiltinPrintOperatorsSid, mk_sid [0,0,0,0,0,5] [32, 550]),
     (WinBuiltinBackupOperatorsSid, mk_sid [0,0,0,0,0,5] [32, 551])]"
  by (simp add: well_known_fixed_def documented_fixed_def other_authority_def)

lemma documented_sid_differs:
  "well_known_sid t ds = documented_sid t ds \<longleftrightarrow> t \<notin> {WinNetworkSid, WinInteractiveSid, WinAnonymousSid}"
proof -
  have "map_of well_known_fixed t = map_of documented_fixed t" if "t \<notin> {WinNetworkSid, WinInteractiveSid, WinAnonymousSid}"
    using that by (simp add: well_known_fixed_list documented_fixed_def)
  moreover have "well_known_sid t ds \<noteq> documented_sid t ds" if "t \<in> {WinNetworkSid, WinInteractiveSid, WinAnonymousSid}"
    using that by (auto simp: well_known_sid_def documented_sid_def table_sid_def well_known_fixed_list documented_fixed_def)
  ultimately show ?thesis
    by (auto simp: well_known_sid_def documented_sid_def table_sid_def)
qed

text \<open>The buffer after both switches.\<close>

definition wks_buffer :: "WELL_KNOWN_SID_TYPE \<Rightarrow> mem option \<Rightarrow> (NTSTATUS \<times> mem) option" where
  "wks_buffer t ds = do {
     (status, b, i) \<leftarrow> wks_prefix t ds;
     if status \<noteq> STATUS_SUCCESS then Some (status, b)
     else do {
       b \<leftarrow> (case wks_rid t of None \<Rightarrow> Some b | Some rid \<Rightarrow> set_SubAuthority b i rid);
       Some (STATUS_SUCCESS, b)
     }
   }"

lemma wks_init_1:
  "length ia = 6 \<Longrightarrow>
    wks_init ia 1 rid i = Some (STATUS_SUCCESS, sid_bytes (mk_sid ia [rid]) @ replicate 56 0, i)"
  by (simp add: wks_init_def RtlInitializeSid_correct set_SubAuthority_def sid_bytes_def
      wr32_take_drop)

lemma wks_init_2:
  assumes "length ia = 6"
  shows "wks_init ia 2 rid i =
    Some (STATUS_SUCCESS, sid_bytes (mk_sid ia [rid, 0]) @ replicate 52 0, i)"
proof -
  have "replicate 2 (0 :: ULONG) = [0, 0]"
    by (simp add: numeral_2_eq_2)
  then show ?thesis
    using assms by (simp add: wks_init_def RtlInitializeSid_correct set_SubAuthority_def
        sid_bytes_def wr32_take_drop)
qed

lemma set_SubAuthority_last:
  assumes "length ia = 6" and "length subs < 256"
  shows "set_SubAuthority (sid_bytes (mk_sid ia (subs @ [v])) @ r) (length subs) rid =
    Some (sid_bytes (mk_sid ia (subs @ [rid])) @ r)"
  using assms by (simp add: set_SubAuthority_def sid_bytes_def wr32_append_right wr32_take_drop)

lemma wks_domain_correct:
  assumes "sid_of d = Some s" and "length (SubAuthority s) \<le> 15"
  shows "wks_domain (Some d) =
    (if length (SubAuthority s) = 15 then Some (STATUS_INVALID_PARAMETER, replicate 68 0, 0)
     else Some (STATUS_SUCCESS,
         sid_bytes (mk_sid [0,0,0,0,0,5] (SubAuthority s @ [0]))
           @ replicate (56 - 4 * length (SubAuthority s)) 0,
         length (SubAuthority s)))"
proof -
  let ?n = "length (SubAuthority s)"
  obtain r where wf: "sid_wf s" and d: "d = sid_bytes s @ r"
    using assms by (auto simp: sid_of_iff)
  have c: "sid_SubAuthorityCount d = Some (word_of_nat ?n)" "unat (word_of_nat ?n + 1 :: UCHAR) = ?n + 1"
    using d assms(2) unat_count[of "?n + 1"] by (simp_all add: add.commute)
  show ?thesis
  proof (cases "?n = 15")
    case True
    then show ?thesis
      using c by (simp add: wks_domain_def RtlInitializeSid_def)
  next
    case False
    define b where "b = sid_bytes (mk_sid [0,0,0,0,0,5] (replicate (?n + 1) 0))
        @ replicate (56 - 4 * ?n) 0"
    have "RtlInitializeSid (Some (replicate 68 0)) (Some [0,0,0,0,0,5]) (word_of_nat ?n + 1)
        = Some (STATUS_SUCCESS, Some b)"
      using False assms(2) c by (subst RtlInitializeSid_correct) (simp_all add: b_def)
    moreover have "take 8 b = [1, word_of_nat ?n + 1, 0, 0, 0, 0, 0, 5]"
      and "drop (sid_length s) b = enc32 0 @ replicate (56 - 4 * ?n) 0" and "sid_length s \<le> length b"
      by (simp_all add: b_def sid_bytes_def sid_length_def add.commute replicate_add
          flip: replicate_append_same)
    ultimately show ?thesis
      using False c d copy_sub_authorities_correct[OF wf, of 0 ?n b r] assms(2)
      by (simp add: wks_domain_def sid_bytes_def add.commute)
  qed
qed

lemma wks_buffer_correct:
  assumes "\<And>d. ds = Some d \<Longrightarrow> sid_of d \<noteq> None \<and> sid_valid (the (sid_of d))"
  shows "case well_known_sid t (Option.bind ds sid_of) of
      Inl e \<Rightarrow> e \<noteq> STATUS_SUCCESS \<and> (\<exists>b. wks_buffer t ds = Some (e, b))
    | Inr s \<Rightarrow> sid_valid s \<and> (\<exists>r. wks_buffer t ds = Some (STATUS_SUCCESS, sid_bytes s @ r))"
proof (cases "map_of well_known_fixed t")
  case (Some s)
  then have "(t, s) \<in> set well_known_fixed"
    by (rule map_of_SomeD)
  then have "sid_valid s \<and> (\<exists>r. wks_buffer t ds = Some (STATUS_SUCCESS, sid_bytes s @ r))"
    using set_SubAuthority_last[of SECURITY_NT_AUTHORITY "[32]" 0]
    by (simp add: well_known_fixed_list, elim disjE conjE,
        simp_all add: wks_buffer_def wks_prefix_def wks_rid_def wks_init_1 wks_init_2 sid_valid_def)
  then show ?thesis
    using Some by (simp add: well_known_sid_def table_sid_def)
next
  case None
  then have nf: "t \<notin> fst ` set well_known_fixed"
    by (simp add: map_of_eq_None_iff)
  show ?thesis
  proof (cases "map_of well_known_domain t")
    case None
    then have "t \<notin> fst ` set well_known_domain"
      by (simp add: map_of_eq_None_iff)
    then have "wks_buffer t ds = Some (STATUS_NOT_IMPLEMENTED, replicate 68 0)"
      using nf by (simp add: well_known_fixed_list well_known_domain_def wks_buffer_def wks_prefix_def)
    then show ?thesis
      using None \<open>map_of well_known_fixed t = None\<close> by (simp add: well_known_sid_def table_sid_def)
  next
    case (Some rid)
    then have "(t, rid) \<in> set well_known_domain"
      by (rule map_of_SomeD)
    then have p: "wks_prefix t ds = wks_domain ds \<and> wks_rid t = Some rid"
      by (simp add: well_known_domain_def, elim disjE conjE, simp_all add: wks_prefix_def wks_rid_def)
    show ?thesis
    proof (cases ds)
      case None
      then show ?thesis
        using p Some \<open>map_of well_known_fixed t = None\<close>
        by (simp add: well_known_sid_def table_sid_def wks_buffer_def wks_domain_def)
    next
      case (Some d)
      then obtain s where s: "sid_of d = Some s" "sid_valid s"
        using assms by auto
      then have n: "length (SubAuthority s) \<le> 15"
        by (simp add: sid_valid_def)
      show ?thesis
        using p \<open>map_of well_known_domain t = Some rid\<close> \<open>map_of well_known_fixed t = None\<close> Some s n
          wks_domain_correct[OF s(1) n]
          set_SubAuthority_last[of SECURITY_NT_AUTHORITY "SubAuthority s" 0]
        by (auto simp: well_known_sid_def table_sid_def wks_buffer_def sid_valid_def)
    qed
  qed
qed

text \<open>The byte-level function implements the table: on success the caller's block starts with
  the identifier's image and keeps its tail, and on failure it is zeroed over its stated size.\<close>

lemma RtlCreateWellKnownSid_refines:
  assumes "\<And>d. ds = Some d \<Longrightarrow> sid_of d \<noteq> None \<and> sid_valid (the (sid_of d))"
    and "unat sz \<le> length m"
  shows "RtlCreateWellKnownSid t ds (Some m) sz =
    (case well_known_sid t (Option.bind ds sid_of) of
       Inl e \<Rightarrow> Some (e, Some (replicate (unat sz) 0 @ drop (unat sz) m), 0)
     | Inr s \<Rightarrow>
         if unat sz < sid_length s
         then Some (STATUS_BUFFER_TOO_SMALL, Some (replicate (unat sz) 0 @ drop (unat sz) m),
                    word_of_nat (sid_length s))
         else Some (STATUS_SUCCESS, Some (sid_bytes s @ drop (sid_length s) m),
                    word_of_nat (sid_length s)))"
proof -
  have z: "memset m 0 0 (unat sz) = Some (replicate (unat sz) 0 @ drop (unat sz) m)"
    using assms(2) by (simp add: memset_def wrn_def)
  have eq: "RtlCreateWellKnownSid t ds (Some m) sz = do {
      (status, b) \<leftarrow> wks_buffer t ds;
      if status \<noteq> STATUS_SUCCESS then wks_cleanup status (Some m) sz 0
      else do {
        l \<leftarrow> RtlLengthSid b;
        if sz < l then wks_cleanup STATUS_BUFFER_TOO_SMALL (Some m) sz l
        else do { m \<leftarrow> memcpy m 0 b 0 (unat l); Some (STATUS_SUCCESS, Some m, l) }
      } }"
    by (cases "wks_prefix t ds"; cases "wks_rid t")
      (auto simp: RtlCreateWellKnownSid_def wks_buffer_def Option.bind_assoc cong: if_cong)
  show ?thesis
  proof (cases "well_known_sid t (Option.bind ds sid_of)")
    case (Inl e)
    then show ?thesis
      using wks_buffer_correct[of ds t] assms(1) z by (auto simp: eq wks_cleanup_def)
  next
    case (Inr s)
    then obtain r where v: "sid_valid s" and b: "wks_buffer t ds = Some (STATUS_SUCCESS, sid_bytes s @ r)"
      using wks_buffer_correct[of ds t] assms(1) by auto
    have "sid_wf s" and "sid_of (sid_bytes s @ r) = Some s"
      using v by (simp_all add: sid_of_bytes)
    then show ?thesis
      using Inr b z assms(2) rdn_sid_bytes[of s r]
      by (simp add: eq wks_cleanup_def RtlLengthSid_correct word_less_nat_alt memcpy_def wrn_def
          length_sid_image del: length_sid_bytes)
  qed
qed

section \<open>Properties\<close>

lemma sub_authorities_numeral:
  "sub_authorities m i (numeral k) = do {
     v \<leftarrow> sid_SubAuthority m i;
     vs \<leftarrow> sub_authorities m (Suc i) (pred_numeral k);
     Some (v # vs)
   }"
  by (simp add: numeral_eq_Suc)

lemmas sid_eval = sid_of_def sub_authorities_numeral sid_Revision_def sid_SubAuthorityCount_def sid_SubAuthority_def sid_bytes_def
  sid_valid_def sid_length_def byte_eval

lemmas well_known_eval = well_known_sid_def table_sid_def well_known_fixed_list well_known_domain_def

text \<open>On two blocks that hold identifiers the comparison functions decide what their names say: equality of
  the identifiers, equality up to the last sub-authority, and being a prefix.\<close>

lemma sid_comparisons:
  assumes "sid_of m1 = Some s1" and "sid_of m2 = Some s2"
  shows "RtlEqualSid m1 m2 = Some (s1 = s2)
    \<and> RtlEqualPrefixSid m1 m2 = Some (Revision s1 = Revision s2 \<and> IdentifierAuthority s1 = IdentifierAuthority s2
        \<and> length (SubAuthority s1) = length (SubAuthority s2)
        \<and> butlast (SubAuthority s1) = butlast (SubAuthority s2))
    \<and> RtlIsPrefixSid m1 m2 = Some (Revision s1 = Revision s2 \<and> IdentifierAuthority s1 = IdentifierAuthority s2
        \<and> length (SubAuthority s1) \<le> length (SubAuthority s2)
        \<and> take (length (SubAuthority s1)) (SubAuthority s2) = SubAuthority s1)"
  using RtlEqualSid_correct[OF assms] RtlEqualPrefixSid_correct[OF assms] RtlIsPrefixSid_correct[OF assms] by blast

text \<open>Appending a relative identifier to a valid identifier with room for it gives a valid identifier that has
  the old one as a prefix and returns the appended value as its relative identifier.\<close>

lemma append_rid_get_rid:
  assumes "sid_of m = Some s" and "sid_valid s" and "length (SubAuthority s) < 15"
    and "unat len \<le> length m" and "sid_length s + 4 \<le> unat len"
  shows "\<exists>m'. RtlAppendRidSid len m rid = Some (STATUS_SUCCESS, m') \<and> RtlValidSid (Some m') = Some True
    \<and> RtlGetRidSid True (Some m') = Some (STATUS_SUCCESS, Some rid) \<and> RtlIsPrefixSid m m' = Some True"
proof -
  let ?t = "s\<lparr>SubAuthority := SubAuthority s @ [rid]\<rparr>"
  let ?m = "sid_bytes ?t @ drop (sid_length s + 4) m"
  have v: "sid_valid ?t"
    using assms(2,3) by (simp add: sid_valid_def)
  then have t: "sid_of ?m = Some ?t"
    by (intro sid_of_bytes) simp
  have "RtlAppendRidSid len m rid = Some (STATUS_SUCCESS, ?m)"
    using RtlAppendRidSid_correct[OF assms(1,4)] assms(3,5) by simp
  then show ?thesis
    using RtlValidSid_correct[OF t] v RtlGetRidSid_correct[OF t] RtlIsPrefixSid_correct[OF assms(1) t] by simp
qed

text \<open>An identifier written to the wire form fits exactly when the buffer has its length; the bytes written
  are accepted by the validator of untrusted buffers, and decoding them gives the identifier back.\<close>

lemma sid_wire_round_trip:
  assumes "sid_of m = Some s" and "sid_valid s" and "unat sz \<le> length b" and "sid_length s \<le> length d"
    and "sid_length s \<le> unat dsz" and "unat sz \<le> unat dsz"
  shows "if unat sz < sid_length s then RtlConvertSidToLittleEndian m b sz = Some (STATUS_BUFFER_TOO_SMALL, b, 0)
    else \<exists>b' d'. RtlConvertSidToLittleEndian m b sz = Some (STATUS_SUCCESS, b', word_of_nat (sid_length s))
      \<and> RtlpIsValidLittleEndianSidBuffer b' sz = Some (True, word_of_nat (sid_length s))
      \<and> RtlConvertLittleEndianToSid b' sz d dsz = Some (STATUS_SUCCESS, d', word_of_nat (sid_length s))
      \<and> sid_of d' = Some s"
proof (cases "unat sz < sid_length s")
  case True
  then show ?thesis
    using RtlpEncodeLittleEndianSid_correct[OF assms(1,3)] RtlConvertSidToLittleEndian_eq[OF assms(1)] by simp
next
  case False
  let ?b = "sid_bytes s @ drop (sid_length s) b" and ?d = "sid_bytes s @ drop (sid_length s) d"
  have wf: "sid_wf s"
    using assms(2) by simp
  then have len: "length ?b = length b" "sid_of (take (unat sz) ?b) = Some s"
    using False assms(3) sid_of_bytes[OF wf] by (simp_all add: sid_length_def sid_of_take)
  have "RtlConvertSidToLittleEndian m b sz = Some (STATUS_SUCCESS, ?b, word_of_nat (sid_length s))"
    using False RtlpEncodeLittleEndianSid_correct[OF assms(1,3)] RtlConvertSidToLittleEndian_eq[OF assms(1)] by simp
  moreover have "RtlpIsValidLittleEndianSidBuffer ?b sz = Some (True, word_of_nat (sid_length s))"
    using RtlpIsValidLittleEndianSidBuffer_correct[of sz ?b] len assms(2,3) by simp
  moreover have "RtlConvertLittleEndianToSid ?b sz d dsz = Some (STATUS_SUCCESS, ?d, word_of_nat (sid_length s))"
    using RtlConvertLittleEndianToSid_correct[OF sid_of_bytes[OF wf] assms(4)] assms(6) by (simp add: word_le_nat_alt)
  ultimately show ?thesis
    unfolding if_not_P[OF False] using sid_of_bytes[OF wf] by blast
qed



end
