(* ===== verification/Rtl_String.thy ===== *)
theory Rtl_String
  imports Rtl_Base
begin

text \<open>
  Counted strings: the parts of \<^verbatim>\<open>rtlstring_ansi.c\<close> and \<^verbatim>\<open>rtlstring_unicode.c\<close> that the
  security library uses.  An ANSI_STRING is the list of its \<^verbatim>\<open>Length\<close> bytes and a
  UNICODE_STRING the list of its 16-bit code units; the two source files repeat the same text
  for the two character types, so the definitions are over a word of any width.  A terminated
  C string is a block whose text ends at its first zero character.
\<close>

type_synonym ANSI_STRING = "8 word list"
type_synonym UNICODE_STRING = "16 word list"

definition str :: "string \<Rightarrow> 'a::len word list" where
  "str s = map of_char s"

section \<open>Operations\<close>

definition LwRtlIsDecimalDigit :: "'a::len word \<Rightarrow> bool" where
  "LwRtlIsDecimalDigit c = (48 \<le> unat c \<and> unat c \<le> 57)"

definition LwRtlDecimalDigitValue :: "'a::len word \<Rightarrow> nat" where
  "LwRtlDecimalDigitValue c = unat c - 48"

text \<open>The digit loop: the 64-bit accumulator and the index at its exit, or the overflow.\<close>

fun parse_digits :: "'a::len word list \<Rightarrow> nat \<Rightarrow> nat \<Rightarrow> NTSTATUS \<times> nat \<times> nat" where
  "parse_digits [] val index = (STATUS_SUCCESS, val, index)"
| "parse_digits (c # cs) val index =
    (if LwRtlIsDecimalDigit c
     then (let val = val * 10 + LwRtlDecimalDigitValue c in
           if val > 4294967295 then (STATUS_INTEGER_OVERFLOW, val, index)
           else parse_digits cs val (Suc index))
     else (STATUS_SUCCESS, val, index))"

definition LwRtlStringParseULONG ::
    "'a::len word list option \<Rightarrow> NTSTATUS \<times> ULONG \<times> 'a word list" where
  "LwRtlStringParseULONG pString =
    (case pString of
       None \<Rightarrow> (STATUS_INVALID_PARAMETER, 0, [])
     | Some s \<Rightarrow>
         (case parse_digits s 0 0 of
            (status, val, index) \<Rightarrow>
              if status \<noteq> STATUS_SUCCESS then (status, word_of_nat val, s)
              else if index = 0 then (STATUS_NOT_FOUND, word_of_nat val, s)
              else (STATUS_SUCCESS, word_of_nat val, drop index s)))"

definition LwRtlAnsiStringParseULONG ::
    "ANSI_STRING option \<Rightarrow> NTSTATUS \<times> ULONG \<times> ANSI_STRING" where
  "LwRtlAnsiStringParseULONG = LwRtlStringParseULONG"

definition LwRtlUnicodeStringParseULONG ::
    "UNICODE_STRING option \<Rightarrow> NTSTATUS \<times> ULONG \<times> UNICODE_STRING" where
  "LwRtlUnicodeStringParseULONG = LwRtlStringParseULONG"

text \<open>The argument is a C string, as the functions require.  A terminating zero stands behind the end of the list when the list
  itself holds none, so a block without a terminator is not a value of the argument.\<close>

definition LwRtlAnsiStringInitEx :: "8 word list option \<Rightarrow> NTSTATUS \<times> ANSI_STRING" where
  "LwRtlAnsiStringInitEx SourceString =
    (case SourceString of
       None \<Rightarrow> (STATUS_SUCCESS, [])
     | Some s \<Rightarrow>
         (let text = takeWhile (\<lambda>c. c \<noteq> 0) s in
          if length text > 65535 then (STATUS_INVALID_PARAMETER, [])
          else (STATUS_SUCCESS, text)))"

definition LwRtlUnicodeStringInitEx :: "16 word list option \<Rightarrow> NTSTATUS \<times> UNICODE_STRING" where
  "LwRtlUnicodeStringInitEx SourceString =
    (case SourceString of
       None \<Rightarrow> (STATUS_SUCCESS, [])
     | Some s \<Rightarrow>
         (let text = takeWhile (\<lambda>c. c \<noteq> 0) s in
          if length text > 32767 then (STATUS_INVALID_PARAMETER, [])
          else (STATUS_SUCCESS, text)))"

text \<open>The conversions of the C library's \<^verbatim>\<open>snprintf\<close> that the sources use: \<^verbatim>\<open>%u\<close> and
  \<^verbatim>\<open>%.2X\<close> of a byte.  A call writes at most \<^verbatim>\<open>n - 1\<close> characters and a terminating zero at
  \<^verbatim>\<open>off\<close>, and returns the length of the whole text.\<close>

fun fmt_u :: "nat \<Rightarrow> 'a::len word list" where
  "fmt_u n = (if n < 10 then [word_of_nat (48 + n)] else fmt_u (n div 10) @ [word_of_nat (48 + n mod 10)])"

definition hex_digit :: "nat \<Rightarrow> byte" where
  "hex_digit n = word_of_nat (if n < 10 then 48 + n else 55 + n)"

definition fmt_02X :: "byte \<Rightarrow> byte list" where
  "fmt_02X b = [hex_digit (unat b div 16), hex_digit (unat b mod 16)]"

definition snprintf :: "mem \<Rightarrow> nat \<Rightarrow> nat \<Rightarrow> byte list \<Rightarrow> (mem \<times> nat) option" where
  "snprintf m off n text =
    (if n = 0 then Some (m, length text)
     else do { m \<leftarrow> wrn m off (take (n - 1) text @ [0]); Some (m, length text) })"

definition c_string :: "mem \<Rightarrow> byte list" where
  "c_string m = takeWhile (\<lambda>c. c \<noteq> 0) m"

declare fmt_u.simps [simp del]

section \<open>Lemmas\<close>

lemma digit_char:
  assumes "d < 10" and "6 \<le> LENGTH('a::len)"
  shows "LwRtlIsDecimalDigit (word_of_nat (48 + d) :: 'a word)"
    and "LwRtlDecimalDigitValue (word_of_nat (48 + d) :: 'a word) = d"
proof -
  have "(2::nat) ^ 6 \<le> 2 ^ LENGTH('a)"
    using assms(2) by (intro power_increasing) simp_all
  then have "unat (word_of_nat (48 + d) :: 'a word) = 48 + d"
    using assms(1) by (intro unat_of_nat_small) simp
  then show "LwRtlIsDecimalDigit (word_of_nat (48 + d) :: 'a word)"
    and "LwRtlDecimalDigitValue (word_of_nat (48 + d) :: 'a word) = d"
    using assms(1) by (simp_all only: LwRtlIsDecimalDigit_def LwRtlDecimalDigitValue_def) simp_all
qed

lemma fmt_u_length: "n < 10 ^ k \<Longrightarrow> 0 < k \<Longrightarrow> length (fmt_u n :: 'a::len word list) \<le> k"
proof (induction n arbitrary: k rule: fmt_u.induct)
  case (1 n)
  show ?case
  proof (cases "n < 10")
    case False
    then have "1 < k"
      using 1(2,3) by (cases k; cases "k - 1") auto
    moreover have "n div 10 < 10 ^ (k - 1)"
      using 1(2,3) by (cases k) (simp_all add: less_mult_imp_div_less mult.commute)
    ultimately have "length (fmt_u (n div 10) :: 'a word list) \<le> k - 1"
      using 1(1)[OF False, of "k - 1"] by simp
    then show ?thesis
      using False \<open>1 < k\<close> by (subst fmt_u.simps) simp
  qed (use 1(3) in \<open>simp add: fmt_u.simps\<close>)
qed

lemma fmt_u_nonempty: "fmt_u n \<noteq> []"
  by (subst fmt_u.simps) simp

lemma fmt_u_digits:
  "6 \<le> LENGTH('a::len) \<Longrightarrow> c \<in> set (fmt_u n :: 'a word list) \<Longrightarrow> LwRtlIsDecimalDigit c"
proof (induction n rule: fmt_u.induct)
  case (1 n)
  then show ?case
    using digit_char(1)[of n, where 'a = 'a] digit_char(1)[of "n mod 10", where 'a = 'a]
    by (cases "n < 10") (auto simp: fmt_u.simps[of n])
qed

lemma parse_digits_fmt_u:
  assumes "6 \<le> LENGTH('a::len)"
    and "v * 10 ^ length (fmt_u n :: 'a word list) + n \<le> 4294967295"
  shows "parse_digits (fmt_u n @ rest :: 'a word list) v i =
    parse_digits rest (v * 10 ^ length (fmt_u n :: 'a word list) + n)
      (i + length (fmt_u n :: 'a word list))"
  using assms(2)
proof (induction n arbitrary: rest rule: fmt_u.induct)
  case (1 n)
  show ?case
  proof (cases "n < 10")
    case True
    then show ?thesis
      using 1(2) digit_char[OF True assms(1)] by (simp add: fmt_u.simps[of n])
  next
    case False
    let ?l = "length (fmt_u (n div 10) :: 'a word list)"
    have n: "fmt_u n = (fmt_u (n div 10) @ [word_of_nat (48 + n mod 10)] :: 'a word list)"
      using False by (subst fmt_u.simps) simp
    have e: "(v * 10 ^ ?l + n div 10) * 10 + n mod 10 = v * 10 ^ (?l + 1) + n"
      by (simp add: algebra_simps)
    have le: "v * 10 ^ (?l + 1) + n \<le> 4294967295"
      using 1(2) by (simp add: n)
    then have "(v * 10 ^ ?l + n div 10) * 10 + n mod 10 \<le> 4294967295"
      by (simp only: e)
    moreover have "x \<le> N" if "x * 10 + y \<le> N" for x y N :: nat
      using that by simp
    ultimately have "v * 10 ^ ?l + n div 10 \<le> 4294967295"
      by blast
    then have "parse_digits (fmt_u n @ rest) v i
        = parse_digits ((word_of_nat (48 + n mod 10) :: 'a word) # rest) (v * 10 ^ ?l + n div 10) (i + ?l)"
      using 1(1)[OF False, of "word_of_nat (48 + n mod 10) # rest"] by (simp only: n append_assoc append_Cons append_Nil)
    also have "\<dots> = parse_digits rest (v * 10 ^ (?l + 1) + n) (i + ?l + 1)"
      using digit_char[of "n mod 10", OF _ assms(1)] le by (simp only: parse_digits.simps e Let_def) simp
    finally show ?thesis
      by (simp add: n)
  qed
qed

text \<open>Printing an unsigned integer with \<^verbatim>\<open>%u\<close> and parsing it gives it back, with the rest of
  the string left over.\<close>

lemma parse_fmt_u:
  assumes "6 \<le> LENGTH('a::len)" and "case rest of [] \<Rightarrow> True | c # _ \<Rightarrow> \<not> LwRtlIsDecimalDigit c"
  shows "LwRtlStringParseULONG (Some (fmt_u (unat w) @ rest :: 'a word list)) = (STATUS_SUCCESS, w, rest)"
proof -
  have w: "unat w \<le> 4294967295"
    using unsigned_less[of w, where 'a = nat] by simp
  have "parse_digits rest v i = (STATUS_SUCCESS, v, i)" for v i
    using assms(2) by (cases rest) simp_all
  then have "parse_digits (fmt_u (unat w) @ rest) 0 0 =
      (STATUS_SUCCESS, unat w, length (fmt_u (unat w) :: 'a word list))"
    using parse_digits_fmt_u[OF assms(1), of 0 "unat w" rest 0] w by simp
  then show ?thesis
    by (simp add: LwRtlStringParseULONG_def fmt_u_nonempty)
qed

lemma parse_digits_index:
  "parse_digits s v i = (st, v', i') \<Longrightarrow> i \<le> i' \<and> i' \<le> i + length s"
  by (induction s arbitrary: v i) (auto simp: Let_def split: if_splits, fastforce+)

lemma parse_digits_status:
  "parse_digits s v i = (st, v', i') \<Longrightarrow> st = STATUS_SUCCESS \<or> st = STATUS_INTEGER_OVERFLOW"
  by (induction s arbitrary: v i) (auto simp: Let_def split: if_splits)

text \<open>A successful parse consumes at least one character.\<close>

lemma ParseULONG_shrinks:
  "LwRtlStringParseULONG (Some s) = (st, v, s') \<Longrightarrow> NT_SUCCESS st \<Longrightarrow> length s' < length s"
proof -
  assume a: "LwRtlStringParseULONG (Some s) = (st, v, s')" and "NT_SUCCESS st"
  obtain st' v' i where p: "parse_digits s 0 0 = (st', v', i)"
    by (cases "parse_digits s 0 0") auto
  have "st' = STATUS_SUCCESS \<or> st' = STATUS_INTEGER_OVERFLOW"
    using parse_digits_status[OF p] .
  then have "st' = STATUS_SUCCESS" "i \<noteq> 0" "s' = drop i s"
    using a p \<open>NT_SUCCESS st\<close> by (auto simp: LwRtlStringParseULONG_def split: if_splits)
  then show ?thesis
    using parse_digits_index[OF p] by simp
qed

section \<open>Properties\<close>

text \<open>The value of a decimal numeral.\<close>

definition decimal_value :: "'a::len word list \<Rightarrow> nat" where
  "decimal_value ds = foldl (\<lambda>v d. v * 10 + LwRtlDecimalDigitValue d) 0 ds"

lemma foldl_decimal_ge: "v \<le> foldl (\<lambda>v d. v * 10 + LwRtlDecimalDigitValue d) v ds"
proof (induction ds arbitrary: v)
  case (Cons d ds)
  show ?case
    using Cons[of "v * 10 + LwRtlDecimalDigitValue d"] by simp
qed simp

lemma parse_digits_value:
  assumes "v \<le> 4294967295"
  shows "if foldl (\<lambda>v d. v * 10 + LwRtlDecimalDigitValue d) v (takeWhile LwRtlIsDecimalDigit s) \<le> 4294967295
    then parse_digits s v i = (STATUS_SUCCESS,
      foldl (\<lambda>v d. v * 10 + LwRtlDecimalDigitValue d) v (takeWhile LwRtlIsDecimalDigit s),
      i + length (takeWhile LwRtlIsDecimalDigit s))
    else fst (parse_digits s v i) = STATUS_INTEGER_OVERFLOW"
  using assms
proof (induction s arbitrary: v i)
  case (Cons c s)
  let ?v = "v * 10 + LwRtlDecimalDigitValue c"
  show ?case
  proof (cases "LwRtlIsDecimalDigit c \<and> ?v \<le> 4294967295")
    case True
    then show ?thesis
      using Cons.IH[of ?v "Suc i"] by (auto simp: Let_def)
  next
    case False
    then show ?thesis
      using Cons.prems foldl_decimal_ge[of ?v "takeWhile LwRtlIsDecimalDigit s"] by (auto simp: Let_def)
  qed
qed simp

text \<open>Reading a number from a string: without a leading digit nothing is found; otherwise the digits are read up to
  the first other character, and the value is exact or the overflow of 32 bits is reported, with the string kept.\<close>

lemma parse_ulong_exact:
  "case LwRtlStringParseULONG (Some s) of (status, v, rest) \<Rightarrow>
    (let ds = takeWhile LwRtlIsDecimalDigit s in
     if ds = [] then status = STATUS_NOT_FOUND \<and> rest = s
     else if decimal_value ds \<le> 4294967295
     then status = STATUS_SUCCESS \<and> unat v = decimal_value ds \<and> rest = dropWhile LwRtlIsDecimalDigit s
     else status = STATUS_INTEGER_OVERFLOW \<and> rest = s)"
proof -
  obtain st v i where p: "parse_digits s 0 0 = (st, v, i)"
    by (cases "parse_digits s 0 0") auto
  have "decimal_value [] = 0"
    by (simp add: decimal_value_def)
  then show ?thesis
    using parse_digits_value[of 0 s 0] p
    by (auto simp: LwRtlStringParseULONG_def Let_def decimal_value_def dropWhile_eq_drop unat_of_nat_small split: if_splits)
qed

end
