(* ===== verification/Security_Sid_String.thy ===== *)
theory Security_Sid_String
  imports Security_Sid Rtl_String
begin

text \<open>
  The string form of security identifiers: the printing and parsing functions of
  \<^verbatim>\<open>security-sid.c\<close>.  The ANSI and the Unicode parser are the same text over two character
  types and share one definition over words of any width.
\<close>

section \<open>Printing\<close>

definition RTLP_STRING_SID_MAX_CHARS :: "nat \<Rightarrow> nat" where
  "RTLP_STRING_SID_MAX_CHARS SubAuthorityCount = 2 + 3 + 1 + 14 + (1 + 10) * SubAuthorityCount + 1"

definition authority_value :: "mem \<Rightarrow> ULONG option" where
  "authority_value Sid = do {
     v5 \<leftarrow> rd8 Sid 7;
     v4 \<leftarrow> rd8 Sid 6;
     v3 \<leftarrow> rd8 Sid 5;
     v2 \<leftarrow> rd8 Sid 4;
     Some (ucast v5 OR push_bit 8 (ucast v4) OR push_bit 16 (ucast v3) OR push_bit 24 (ucast v2))
   }"

definition sid_string_head :: "mem \<Rightarrow> byte list option" where
  "sid_string_head Sid = do {
     r \<leftarrow> sid_Revision Sid;
     v0 \<leftarrow> rd8 Sid 2;
     v1 \<leftarrow> rd8 Sid 3;
     if v0 \<noteq> 0 \<or> v1 \<noteq> 0
     then do {
       v2 \<leftarrow> rd8 Sid 4; v3 \<leftarrow> rd8 Sid 5; v4 \<leftarrow> rd8 Sid 6; v5 \<leftarrow> rd8 Sid 7;
       Some (str ''S-'' @ fmt_u (unat r) @ str ''-0x'' @ concat (map fmt_02X [v0, v1, v2, v3, v4, v5]))
     }
     else do {
       v \<leftarrow> authority_value Sid;
       Some (str ''S-'' @ fmt_u (unat r) @ str ''-'' @ fmt_u (unat v))
     }
   }"

text \<open>One \<^verbatim>\<open>snprintf (result + count, size - count, ...)\<close>: forming the address past the end of
  the block is undefined.\<close>

definition print_at :: "nat \<Rightarrow> mem \<Rightarrow> nat \<Rightarrow> byte list \<Rightarrow> (mem \<times> nat) option" where
  "print_at sz result count text =
    (if count \<le> sz
     then do { (result, n) \<leftarrow> snprintf result count (sz - count) text; Some (result, count + n) }
     else None)"

fun print_sub_authorities :: "mem \<Rightarrow> nat \<Rightarrow> mem \<Rightarrow> nat \<Rightarrow> nat \<Rightarrow> nat \<Rightarrow> (mem \<times> nat) option" where
  "print_sub_authorities Sid sz result count i 0 = Some (result, count)"
| "print_sub_authorities Sid sz result count i (Suc n) = do {
     v \<leftarrow> sid_SubAuthority Sid i;
     (result, count) \<leftarrow> print_at sz result count (str ''-'' @ fmt_u (unat v));
     print_sub_authorities Sid sz result count (Suc i) n
   }"

text \<open>The first argument says whether the output pointer is not NULL.\<close>

definition RtlAllocateCStringFromSid ::
    "(nat \<Rightarrow> bool) \<Rightarrow> bool \<Rightarrow> mem option \<Rightarrow> (NTSTATUS \<times> mem option) option" where
  "RtlAllocateCStringFromSid avail StringSid Sid =
    (if \<not> StringSid then Some (STATUS_INVALID_PARAMETER, None)
     else do {
       v \<leftarrow> RtlValidSid Sid;
       if \<not> v then Some (STATUS_INVALID_PARAMETER, None)
       else do {
         m \<leftarrow> Sid;
         c \<leftarrow> sid_SubAuthorityCount m;
         let sz = RTLP_STRING_SID_MAX_CHARS (unat c);
         case RTL_ALLOCATE avail sz of
           (status, None) \<Rightarrow> Some (status, None)
         | (_, Some result) \<Rightarrow> do {
             head \<leftarrow> sid_string_head m;
             (result, count) \<leftarrow> print_at sz result 0 head;
             (result, count) \<leftarrow> print_sub_authorities m sz result count 0 (unat c);
             Some (STATUS_SUCCESS, Some result)
           }
       }
     })"

definition RtlAllocateAnsiStringFromSid ::
    "(nat \<Rightarrow> bool) \<Rightarrow> bool \<Rightarrow> mem option \<Rightarrow> (NTSTATUS \<times> ANSI_STRING) option" where
  "RtlAllocateAnsiStringFromSid avail StringSid Sid =
    (if \<not> StringSid then Some (STATUS_INVALID_PARAMETER, [])
     else do {
       (status, resultBuffer) \<leftarrow> RtlAllocateCStringFromSid avail True Sid;
       if status \<noteq> STATUS_SUCCESS then Some (status, [])
       else Some (LwRtlAnsiStringInitEx resultBuffer)
     })"

section \<open>Parsing\<close>

text \<open>What the loop body does with one parsed value: an early exit, or the new state.\<close>

definition store_value ::
    "ULONG \<Rightarrow> mem \<Rightarrow> bool \<Rightarrow> bool \<Rightarrow> (NTSTATUS + mem \<times> bool \<times> bool) option" where
  "store_value val sid haveRevision haveAuthority =
    (if \<not> haveRevision then
       (if val > 255 then Some (Inl STATUS_INVALID_SID)
        else do { sid \<leftarrow> wr8 sid 0 (ucast val); Some (Inr (sid, True, haveAuthority)) })
     else if \<not> haveAuthority then do {
       sid \<leftarrow> wr8 sid 7 (ucast (val AND 0x000000FF));
       sid \<leftarrow> wr8 sid 6 (ucast (drop_bit 8 (val AND 0x0000FF00)));
       sid \<leftarrow> wr8 sid 5 (ucast (drop_bit 16 (val AND 0x00FF0000)));
       sid \<leftarrow> wr8 sid 4 (ucast (drop_bit 24 (val AND 0xFF000000)));
       Some (Inr (sid, haveRevision, True))
     }
     else do {
       c \<leftarrow> sid_SubAuthorityCount sid;
       if unat c \<ge> SID_MAX_SUB_AUTHORITIES then Some (Inl STATUS_INVALID_SID)
       else do {
         sid \<leftarrow> set_SubAuthority sid (unat c) val;
         sid \<leftarrow> wr8 sid 1 (c + 1);
         Some (Inr (sid, haveRevision, haveAuthority))
       }
     })"

text \<open>The separator between two values.\<close>

definition skip_dash :: "'a::len word list \<Rightarrow> 'a word list option" where
  "skip_dash remaining =
    (case remaining of
       [] \<Rightarrow> Some []
     | c # rest \<Rightarrow> if c \<noteq> 45 then None else Some rest)"

function string_sid_loop ::
    "'a::len word list \<Rightarrow> mem \<Rightarrow> bool \<Rightarrow> bool \<Rightarrow> (NTSTATUS + 'a word list \<times> mem \<times> bool) option" where
  "string_sid_loop remaining sid haveRevision haveAuthority =
    (case LwRtlStringParseULONG (Some remaining) of
       (status, val, remaining') \<Rightarrow>
         if \<not> NT_SUCCESS status then Some (Inr (remaining', sid, haveAuthority))
         else
           (case skip_dash remaining' of
              None \<Rightarrow> Some (Inl STATUS_INVALID_SID)
            | Some rest \<Rightarrow>
                (case store_value val sid haveRevision haveAuthority of
                   None \<Rightarrow> None
                 | Some (Inl e) \<Rightarrow> Some (Inl e)
                 | Some (Inr (sid', hr, ha)) \<Rightarrow> string_sid_loop rest sid' hr ha)))"
  by pat_completeness auto
termination
  by (relation "measure (\<lambda>(remaining, _). length remaining)")
    (auto dest!: ParseULONG_shrinks[OF sym] simp: skip_dash_def split: list.splits if_splits)

text \<open>The three outputs are the allocated identifier, the caller's buffer and its size.\<close>

definition RtlpConvertStringSidToSidEx ::
    "(nat \<Rightarrow> bool) \<Rightarrow> 'a::len word list option \<Rightarrow> bool \<Rightarrow> mem option \<Rightarrow> ULONG option \<Rightarrow>
     (NTSTATUS \<times> mem option \<times> mem option \<times> ULONG option) option" where
  "RtlpConvertStringSidToSidEx avail StringSid AllocateSid SidBuffer SidBufferSize =
    (let fail = (\<lambda>status sizeRequired.
           Some (status, None, SidBuffer, map_option (\<lambda>_. sizeRequired) SidBufferSize)) in
     case StringSid of
       None \<Rightarrow> fail STATUS_INVALID_PARAMETER 0
     | Some s \<Rightarrow>
         if AllocateSid \<and> (SidBuffer \<noteq> None \<or> SidBufferSize \<noteq> None)
            \<or> \<not> (AllocateSid \<or> SidBufferSize \<noteq> None)
         then fail STATUS_INVALID_PARAMETER 0
         else if \<not> (length s > 2 \<and> (s ! 0 = 83 \<or> s ! 0 = 115) \<and> s ! 1 = 45)
         then fail STATUS_INVALID_SID 0
         else do {
           r \<leftarrow> string_sid_loop (drop 2 s) (replicate SID_MAX_SIZE 0) False False;
           case r of
             Inl e \<Rightarrow> fail e 0
           | Inr (remaining, sid, haveAuthority) \<Rightarrow>
               if \<not> haveAuthority \<or> remaining \<noteq> [] then fail STATUS_INVALID_SID 0
               else do {
                 v \<leftarrow> RtlValidSid (Some sid);
                 if \<not> v then fail STATUS_INVALID_SID 0
                 else do {
                   sizeRequired \<leftarrow> RtlLengthSid sid;
                   if AllocateSid then
                     (case RTL_ALLOCATE avail (unat sizeRequired) of
                        (status, None) \<Rightarrow> fail status sizeRequired
                      | (_, Some newSid) \<Rightarrow> do {
                          newSid \<leftarrow> memcpy newSid 0 sid 0 (unat sizeRequired);
                          Some (STATUS_SUCCESS, Some newSid, SidBuffer,
                                map_option (\<lambda>_. sizeRequired) SidBufferSize)
                        })
                   else
                     (case SidBufferSize of
                        None \<Rightarrow> fail STATUS_ASSERTION_FAILURE sizeRequired
                      | Some sz \<Rightarrow>
                          if sz < sizeRequired then fail STATUS_BUFFER_TOO_SMALL sizeRequired
                          else
                            (case SidBuffer of
                               None \<Rightarrow> Some (STATUS_SUCCESS, None, None, Some sizeRequired)
                             | Some b \<Rightarrow> do {
                                 b \<leftarrow> memcpy b 0 sid 0 (unat sizeRequired);
                                 Some (STATUS_SUCCESS, None, Some b, Some sizeRequired)
                               }))
                 }
               }
         })"

text \<open>The two functions of the source, which are this one text over their character types.\<close>

definition RtlpConvertUnicodeStringSidToSidEx ::
    "(nat \<Rightarrow> bool) \<Rightarrow> UNICODE_STRING option \<Rightarrow> bool \<Rightarrow> mem option \<Rightarrow> ULONG option \<Rightarrow>
     (NTSTATUS \<times> mem option \<times> mem option \<times> ULONG option) option" where
  "RtlpConvertUnicodeStringSidToSidEx = RtlpConvertStringSidToSidEx"

definition RtlpConvertAnsiStringSidToSidEx ::
    "(nat \<Rightarrow> bool) \<Rightarrow> ANSI_STRING option \<Rightarrow> bool \<Rightarrow> mem option \<Rightarrow> ULONG option \<Rightarrow>
     (NTSTATUS \<times> mem option \<times> mem option \<times> ULONG option) option" where
  "RtlpConvertAnsiStringSidToSidEx = RtlpConvertStringSidToSidEx"

definition RtlAllocateSidFromUnicodeString ::
    "(nat \<Rightarrow> bool) \<Rightarrow> UNICODE_STRING option \<Rightarrow> (NTSTATUS \<times> mem option) option" where
  "RtlAllocateSidFromUnicodeString avail StringSid = do {
     (status, sid, _) \<leftarrow> RtlpConvertUnicodeStringSidToSidEx avail StringSid True None None;
     Some (status, sid)
   }"

definition RtlAllocateSidFromAnsiString ::
    "(nat \<Rightarrow> bool) \<Rightarrow> ANSI_STRING option \<Rightarrow> (NTSTATUS \<times> mem option) option" where
  "RtlAllocateSidFromAnsiString avail StringSid = do {
     (status, sid, _) \<leftarrow> RtlpConvertAnsiStringSidToSidEx avail StringSid True None None;
     Some (status, sid)
   }"

definition RtlAllocateSidFromCString ::
    "(nat \<Rightarrow> bool) \<Rightarrow> 8 word list option \<Rightarrow> (NTSTATUS \<times> mem option) option" where
  "RtlAllocateSidFromCString avail StringSid =
    (case LwRtlAnsiStringInitEx StringSid of
       (status, stringSid) \<Rightarrow>
         if status \<noteq> STATUS_SUCCESS then Some (status, None)
         else do {
           (status, sid, _) \<leftarrow> RtlpConvertAnsiStringSidToSidEx avail (Some stringSid) True None None;
           Some (status, sid)
         })"

definition RtlAllocateSidFromWC16String ::
    "(nat \<Rightarrow> bool) \<Rightarrow> 16 word list option \<Rightarrow> (NTSTATUS \<times> mem option) option" where
  "RtlAllocateSidFromWC16String avail StringSid =
    (case LwRtlUnicodeStringInitEx StringSid of
       (status, stringSid) \<Rightarrow>
         if status \<noteq> STATUS_SUCCESS then Some (status, None)
         else RtlAllocateSidFromUnicodeString avail (Some stringSid))"

declare string_sid_loop.simps [simp del]

section \<open>The string of an identifier\<close>

definition sid_text :: "SID \<Rightarrow> 'a::len word list" where
  "sid_text s = str ''S-'' @ fmt_u (unat (Revision s)) @ str ''-''
     @ fmt_u (unat (dec32 (rev (drop 2 (IdentifierAuthority s)))))
     @ concat (map (\<lambda>w. str ''-'' @ fmt_u (unat w)) (SubAuthority s))"

definition sid_hex_text :: "SID \<Rightarrow> byte list" where
  "sid_hex_text s = str ''S-'' @ fmt_u (unat (Revision s)) @ str ''-0x''
     @ concat (map fmt_02X (IdentifierAuthority s))
     @ concat (map (\<lambda>w. str ''-'' @ fmt_u (unat w)) (SubAuthority s))"

definition sid_string :: "SID \<Rightarrow> byte list" where
  "sid_string s =
    (if IdentifierAuthority s ! 0 \<noteq> 0 \<or> IdentifierAuthority s ! 1 \<noteq> 0
     then sid_hex_text s else sid_text s)"

section \<open>Correctness of printing\<close>

lemma str_simps [simp]:
  "str ''-'' = [45 :: 'a::len word]" "str ''S-'' = [83, 45 :: 'a::len word]"
  "str ''-0x'' = [45, 48, 120 :: 'a::len word]"
  by (simp_all add: str_def)

lemma bytes_or_eq_dec32:
  "(ucast v0 OR push_bit 8 (ucast v1) OR push_bit 16 (ucast v2) OR push_bit 24 (ucast v3) :: ULONG)
     = dec32 [v0, v1, v2, v3]"
  for v0 v1 v2 v3 :: byte
proof -
  let ?w = "ucast v0 OR push_bit 8 (ucast v1) OR push_bit 16 (ucast v2) OR push_bit 24 (ucast v3) :: ULONG"
  have "ucast ?w = v0" "ucast (drop_bit 8 ?w) = v1" "ucast (drop_bit 16 ?w) = v2"
    "ucast (drop_bit 24 ?w) = v3"
    by (rule bit_word_eqI; auto simp: bit_simps dest: bit_imp_le_length)+
  then have "enc32 ?w = [v0, v1, v2, v3]"
    by (simp add: enc32_def)
  then show ?thesis
    by (metis dec32_enc32)
qed

lemma print_at_zeros:
  assumes "length pre = count" and "count + length text < sz"
  shows "print_at sz (pre @ replicate (sz - count) 0) count text =
    Some ((pre @ text) @ replicate (sz - (count + length text)) 0, count + length text)"
proof -
  have "take (sz - count - 1) text = text"
    using assms by simp
  moreover have "replicate (sz - (count + length text)) (0::byte) = 0 # replicate (sz - (count + length text) - 1) 0"
    using assms(2) by (metis Suc_diff_1 replicate_Suc zero_less_diff)
  ultimately show ?thesis
    using assms by (simp add: print_at_def snprintf_def wrn_def)
qed

lemma fmt_u_ULONG_length: "length (fmt_u (unat (w :: ULONG)) :: 'a::len word list) \<le> 10"
  using unsigned_less[of w, where 'a = nat] by (intro fmt_u_length) simp_all

lemma fmt_u_UCHAR_length: "length (fmt_u (unat (b :: UCHAR)) :: 'a::len word list) \<le> 3"
  using unsigned_less[of b, where 'a = nat] by (intro fmt_u_length) simp_all

lemma length_sub_texts:
  "length (concat (map (\<lambda>w. 45 # fmt_u (unat (w :: ULONG))) ws) :: 'a::len word list) \<le> 11 * length ws"
proof (induction ws)
  case (Cons w ws)
  then show ?case
    using fmt_u_ULONG_length[of w, where 'a = 'a] by simp
qed simp

abbreviation (input) sub_text :: "ULONG list \<Rightarrow> 'a::len word list" where
  "sub_text ws \<equiv> concat (map (\<lambda>w. 45 # fmt_u (unat w)) ws)"

lemma print_sub_authorities_correct:
  assumes "sid_wf s" and "i + n = length (SubAuthority s)" and "length pre = count"
    and "count + 11 * n < sz"
  shows "print_sub_authorities (sid_bytes s @ r) sz (pre @ replicate (sz - count) 0) count i n =
    Some ((pre @ sub_text (drop i (SubAuthority s)))
            @ replicate (sz - (count + length (sub_text (drop i (SubAuthority s)) :: byte list))) 0,
          count + length (sub_text (drop i (SubAuthority s)) :: byte list))"
  using assms(2-4)
proof (induction n arbitrary: i pre count)
  case (Suc n)
  let ?t = "45 # fmt_u (unat (SubAuthority s ! i)) :: byte list"
  have "length ?t \<le> 11"
    using fmt_u_ULONG_length[of "SubAuthority s ! i", where 'a = 8] by simp
  then have b: "count + length ?t < sz" "count + length ?t + 11 * n < sz"
    using Suc.prems by (simp_all del: length_Cons)
  have i: "i < length (SubAuthority s)" "Suc i + n = length (SubAuthority s)"
    using Suc.prems by simp_all
  have "print_sub_authorities (sid_bytes s @ r) sz (pre @ replicate (sz - count) 0) count i (Suc n)
      = print_sub_authorities (sid_bytes s @ r) sz ((pre @ ?t) @ replicate (sz - (count + length ?t)) 0)
          (count + length ?t) (Suc i) n"
    using print_at_zeros[OF Suc.prems(2) b(1)] i assms(1) by (simp add: sid_SubAuthority_bytes)
  moreover have "drop i (SubAuthority s) = SubAuthority s ! i # drop (Suc i) (SubAuthority s)"
    using i(1) by (rule Cons_nth_drop_Suc[symmetric])
  ultimately show ?case
    using Suc.IH[of "Suc i" "pre @ ?t" "count + length ?t"] i(2) Suc.prems(2) b(2)
    by (simp add: add.assoc)
qed auto

lemma authority_value_bytes:
  "sid_wf s \<Longrightarrow> authority_value (sid_bytes s @ r) =
    Some (dec32 (rev (drop 2 (IdentifierAuthority s))))"
proof -
  assume "sid_wf s"
  then obtain v0 v1 v2 v3 v4 v5 where ia: "IdentifierAuthority s = [v0, v1, v2, v3, v4, v5]"
    by (auto simp: sid_wf_def length_Suc_conv eval_nat_numeral)
  show ?thesis
    by (simp add: authority_value_def sid_bytes_def ia bytes_or_eq_dec32)
qed

definition sid_head :: "SID \<Rightarrow> byte list" where
  "sid_head s = str ''S-'' @ fmt_u (unat (Revision s)) @
    (if IdentifierAuthority s ! 0 \<noteq> 0 \<or> IdentifierAuthority s ! 1 \<noteq> 0
     then str ''-0x'' @ concat (map fmt_02X (IdentifierAuthority s))
     else str ''-'' @ fmt_u (unat (dec32 (rev (drop 2 (IdentifierAuthority s))))))"

lemma sid_string_eq:
  "sid_string s = sid_head s @ concat (map (\<lambda>w. 45 # fmt_u (unat w)) (SubAuthority s))"
  by (simp add: sid_string_def sid_hex_text_def sid_text_def sid_head_def)

lemma sid_string_head_bytes:
  assumes "sid_wf s"
  shows "sid_string_head (sid_bytes s @ r) = Some (sid_head s)"
proof -
  obtain v0 v1 v2 v3 v4 v5 where ia: "IdentifierAuthority s = [v0, v1, v2, v3, v4, v5]"
    using assms by (auto simp: sid_wf_def length_Suc_conv eval_nat_numeral)
  have "rd8 (sid_bytes s @ r) 2 = Some v0" "rd8 (sid_bytes s @ r) 3 = Some v1"
    "rd8 (sid_bytes s @ r) 4 = Some v2" "rd8 (sid_bytes s @ r) 5 = Some v3"
    "rd8 (sid_bytes s @ r) 6 = Some v4" "rd8 (sid_bytes s @ r) 7 = Some v5"
    by (simp_all add: sid_bytes_def ia)
  then show ?thesis
    using authority_value_bytes[OF assms, of r] by (simp add: sid_string_head_def sid_head_def ia)
qed

lemma length_sid_head: "length (IdentifierAuthority s) = 6 \<Longrightarrow> length (sid_head s) \<le> 20"
proof -
  assume "length (IdentifierAuthority s) = 6"
  moreover have "length (concat (map fmt_02X bs)) = 2 * length bs" for bs
    by (induction bs) (simp_all add: fmt_02X_def)
  ultimately show ?thesis
    using fmt_u_UCHAR_length[of "Revision s", where 'a = 8]
      fmt_u_ULONG_length[of "dec32 (rev (drop 2 (IdentifierAuthority s)))", where 'a = 8]
    by (auto simp: sid_head_def)
qed

lemma fmt_u_nonzero: "0 \<notin> set (fmt_u n :: byte list)"
  using fmt_u_digits[of "0 :: byte" n] by (auto simp: LwRtlIsDecimalDigit_def)

lemma hex_digit_nonzero: "n < 16 \<Longrightarrow> hex_digit n \<noteq> 0"
proof
  assume "n < 16" and "hex_digit n = 0"
  then have "unat (hex_digit n) = (if n < 10 then 48 + n else 55 + n)"
    unfolding hex_digit_def by (intro unat_of_nat_small) simp
  then show False
    using \<open>hex_digit n = 0\<close> by (simp split: if_splits)
qed

lemma sid_string_nonzero: "0 \<notin> set (sid_string s)"
proof -
  have "hex_digit (unat b div 16) \<noteq> 0" "hex_digit (unat b mod 16) \<noteq> 0" for b :: byte
    using unat_byte_lt[of b] by (auto intro!: hex_digit_nonzero)
  then show ?thesis
    using fmt_u_nonzero by (auto simp: sid_string_eq sid_head_def fmt_02X_def)
qed

text \<open>The buffer of \<^verbatim>\<open>RTLP_STRING_SID_MAX_CHARS\<close> characters always holds the whole string and its
  terminator.\<close>

lemma RtlAllocateCStringFromSid_correct:
  assumes "sid_of m = Some s" and "sid_valid s"
    and "avail (RTLP_STRING_SID_MAX_CHARS (length (SubAuthority s)))"
  shows "\<exists>b. RtlAllocateCStringFromSid avail True (Some m) = Some (STATUS_SUCCESS, Some b)
    \<and> length b = RTLP_STRING_SID_MAX_CHARS (length (SubAuthority s)) \<and> c_string b = sid_string s"
proof -
  let ?n = "length (SubAuthority s)" and ?sz = "RTLP_STRING_SID_MAX_CHARS (length (SubAuthority s))"
  obtain r where wf: "sid_wf s" and m: "m = sid_bytes s @ r"
    using assms by (auto simp: sid_of_iff)
  have h: "length (sid_head s) \<le> 20"
    using wf by (intro length_sid_head) (simp add: sid_wf_def)
  have sz: "?sz = 21 + 11 * ?n"
    by (simp add: RTLP_STRING_SID_MAX_CHARS_def)
  have p: "print_at ?sz (replicate ?sz 0) 0 (sid_head s) =
      Some (sid_head s @ replicate (?sz - length (sid_head s)) 0, length (sid_head s))"
    using print_at_zeros[of "[]" 0 "sid_head s" ?sz] h sz by simp
  define k where "k = ?sz - length (sid_string s)"
  have k: "0 < k" "length (sid_string s) + k = ?sz"
    using h sz length_sub_texts[of "SubAuthority s", where 'a = 8] by (simp_all add: k_def sid_string_eq)
  have q: "print_sub_authorities m ?sz (sid_head s @ replicate (?sz - length (sid_head s)) 0)
      (length (sid_head s)) 0 ?n = Some (sid_string s @ replicate k 0, length (sid_string s))"
    using print_sub_authorities_correct[OF wf, of 0 ?n "sid_head s" "length (sid_head s)" ?sz r] h sz m
    by (simp add: sid_string_eq k_def)
  have "sid_string s @ replicate k 0 = sid_string s @ 0 # replicate (k - 1) 0"
    using k by (metis Suc_diff_1 replicate_Suc)
  then have "c_string (sid_string s @ replicate k 0) = sid_string s"
    using sid_string_nonzero[of s] by (simp only: c_string_def) (subst takeWhile_append2, auto)
  moreover have "RtlAllocateCStringFromSid avail True (Some m) =
      Some (STATUS_SUCCESS, Some (sid_string s @ replicate k 0))"
    using assms wf m p q sz sid_string_head_bytes[OF wf, of r] RtlValidSid_correct[OF assms(1)]
    by (simp add: RtlAllocateCStringFromSid_def RTL_ALLOCATE_cases sid_wf_def)
  moreover have "length (sid_string s @ replicate k 0) = ?sz"
    using k by simp
  ultimately show ?thesis
    by blast
qed

section \<open>Correctness of parsing\<close>

lemma dash_not_digit: "6 \<le> LENGTH('a::len) \<Longrightarrow> \<not> LwRtlIsDecimalDigit (45 :: 'a word)"
proof -
  assume "6 \<le> LENGTH('a)"
  then have "(2::nat) ^ 6 \<le> 2 ^ LENGTH('a)"
    by (intro power_increasing) simp_all
  then have "unat (word_of_nat 45 :: 'a word) = 45"
    by (intro unat_of_nat_small) simp
  then show ?thesis
    by (simp add: LwRtlIsDecimalDigit_def)
qed

lemma parse_fmt_u_sub_text:
  assumes "6 \<le> LENGTH('a::len)"
  shows "LwRtlStringParseULONG (Some (fmt_u (unat w) @ sub_text ws :: 'a word list)) =
    (STATUS_SUCCESS, w, sub_text ws)"
  using assms dash_not_digit[OF assms] by (intro parse_fmt_u) (cases ws; simp)+

text \<open>What is left of a list of values after the separator before the first one.\<close>

definition tail_text :: "ULONG list \<Rightarrow> 'a::len word list" where
  "tail_text ws = (case ws of [] \<Rightarrow> [] | w # ws' \<Rightarrow> fmt_u (unat w) @ sub_text ws')"

lemma skip_dash_sub_text: "skip_dash (sub_text ws) = Some (tail_text ws)"
  by (cases ws) (simp_all add: skip_dash_def tail_text_def)

lemma parse_end: "string_sid_loop [] sid hr ha = Some (Inr ([], sid, ha))"
  by (subst string_sid_loop.simps) (simp add: LwRtlStringParseULONG_def)

text \<open>One round of the loop on a printed value.\<close>

lemma string_sid_loop_step:
  assumes "6 \<le> LENGTH('a::len)"
  shows "string_sid_loop (fmt_u (unat w) @ sub_text ws :: 'a word list) sid hr ha =
    (case store_value w sid hr ha of
       None \<Rightarrow> None
     | Some (Inl e) \<Rightarrow> Some (Inl e)
     | Some (Inr (sid', hr', ha')) \<Rightarrow> string_sid_loop (tail_text ws) sid' hr' ha')"
  by (subst string_sid_loop.simps) (simp add: parse_fmt_u_sub_text[OF assms] skip_dash_sub_text)

lemma append_sub_authority:
  assumes "length ia = 6" and "length us < 15"
  shows "store_value w (sid_bytes \<lparr>Revision = rv, IdentifierAuthority = ia, SubAuthority = us\<rparr>
      @ replicate (60 - 4 * length us) 0) True True =
    Some (Inr (sid_bytes \<lparr>Revision = rv, IdentifierAuthority = ia, SubAuthority = us @ [w]\<rparr>
      @ replicate (60 - 4 * length (us @ [w])) 0, True, True))"
proof -
  let ?s = "\<lparr>Revision = rv, IdentifierAuthority = ia, SubAuthority = us\<rparr>"
  have wf: "sid_wf ?s"
    using assms by (simp add: sid_wf_def)
  have "replicate (60 - 4 * length us) (0::byte) = replicate 4 0 @ replicate (56 - 4 * length us) 0"
    using assms(2) by (simp flip: replicate_add)
  then have "set_SubAuthority (sid_bytes ?s @ replicate (60 - 4 * length us) 0) (length us) w
      = Some (sid_bytes ?s @ enc32 w @ replicate (56 - 4 * length us) 0)"
    using wf assms(2) by (simp add: set_SubAuthority_def wr32_take_drop)
  then show ?thesis
    using assms(2) by (simp add: store_value_def add.commute) (simp add: sid_bytes_def add.commute)
qed

lemma string_sid_loop_subs:
  assumes "6 \<le> LENGTH('a::len)" and "length ia = 6" and "length us + length ws \<le> 15"
  shows "string_sid_loop (tail_text ws :: 'a word list)
      (sid_bytes \<lparr>Revision = rv, IdentifierAuthority = ia, SubAuthority = us\<rparr>
        @ replicate (60 - 4 * length us) 0) True True =
    Some (Inr ([], sid_bytes \<lparr>Revision = rv, IdentifierAuthority = ia, SubAuthority = us @ ws\<rparr>
        @ replicate (60 - 4 * length (us @ ws)) 0, True))"
  using assms(3)
proof (induction ws arbitrary: us)
  case Nil
  then show ?case
    by (simp add: tail_text_def parse_end)
next
  case (Cons w ws)
  then have "length us < 15"
    by simp
  then show ?case
    using Cons.IH[of "us @ [w]"] Cons.prems
    by (simp add: tail_text_def string_sid_loop_step[OF assms(1)] append_sub_authority[OF assms(2)])
qed

lemma authority_bytes:
  "(ucast (val AND 0x000000FF) :: byte) = enc32 val ! 0"
  "(ucast (drop_bit 8 (val AND 0x0000FF00)) :: byte) = enc32 val ! 1"
  "(ucast (drop_bit 16 (val AND 0x00FF0000)) :: byte) = enc32 val ! 2"
  "(ucast (drop_bit 24 (val AND 0xFF000000)) :: byte) = enc32 val ! 3"
  for val :: ULONG
proof -
  have m: "(0x000000FF :: ULONG) = mask 8" "(0x0000FF00 :: ULONG) = push_bit 8 (mask 8)"
    "(0x00FF0000 :: ULONG) = push_bit 16 (mask 8)" "(0xFF000000 :: ULONG) = push_bit 24 (mask 8)"
    by (simp_all add: mask_eq_exp_minus_1)
  show "(ucast (val AND 0x000000FF) :: byte) = enc32 val ! 0"
    "(ucast (drop_bit 8 (val AND 0x0000FF00)) :: byte) = enc32 val ! 1"
    "(ucast (drop_bit 16 (val AND 0x00FF0000)) :: byte) = enc32 val ! 2"
    "(ucast (drop_bit 24 (val AND 0xFF000000)) :: byte) = enc32 val ! 3"
    unfolding m enc32_def by (rule bit_word_eqI; auto simp: bit_simps)+
qed

lemma string_sid_loop_text:
  assumes "6 \<le> LENGTH('a::len)" and "sid_valid s"
    and "IdentifierAuthority s ! 0 = 0" and "IdentifierAuthority s ! 1 = 0"
  shows "string_sid_loop (drop 2 (sid_text s) :: 'a word list) (replicate 68 0) False False =
    Some (Inr ([], sid_bytes s @ replicate (60 - 4 * length (SubAuthority s)) 0, True))"
proof -
  obtain v2 v3 v4 v5 where ia: "IdentifierAuthority s = [0, 0, v2, v3, v4, v5]"
    using assms(2-4) by (auto simp: sid_valid_def length_Suc_conv eval_nat_numeral)
  define A where "A = dec32 [v5, v4, v3, v2]"
  have A: "enc32 A = [v5, v4, v3, v2]"
    by (simp add: A_def enc32_dec32)
  have s: "s = mk_sid [0, 0, v2, v3, v4, v5] (SubAuthority s)"
    using assms(2) ia by (simp add: sid_valid_def)
  have z: "replicate 68 (0::byte) = 0 # 0 # 0 # 0 # 0 # 0 # 0 # 0 # replicate 60 0"
    by (simp add: eval_nat_numeral)
  have rv: "Revision s = 1"
    using assms(2) by (simp add: sid_valid_def)
  have tx: "drop 2 (sid_text s) = (fmt_u (unat (1 :: ULONG)) @ sub_text (A # SubAuthority s) :: 'a word list)"
    by (simp add: sid_text_def ia A_def rv)
  have one: "store_value 1 (replicate 68 0) False False =
      Some (Inr (1 # 0 # 0 # 0 # 0 # 0 # 0 # 0 # replicate 60 0, True, False))"
    unfolding z by (simp add: store_value_def)
  have two: "store_value A (1 # 0 # 0 # 0 # 0 # 0 # 0 # 0 # replicate 60 0) True False =
      Some (Inr (sid_bytes (mk_sid [0, 0, v2, v3, v4, v5] []) @ replicate 60 0, True, True))"
    by (simp only: store_value_def authority_bytes A) (simp add: sid_bytes_def)
  have "string_sid_loop (drop 2 (sid_text s) :: 'a word list) (replicate 68 0) False False
      = string_sid_loop (tail_text (SubAuthority s) :: 'a word list)
          (sid_bytes (mk_sid [0, 0, v2, v3, v4, v5] []) @ replicate 60 0) True True"
    using one two by (simp only: tx string_sid_loop_step[OF assms(1)])
      (simp add: tail_text_def[of "A # _"] string_sid_loop_step[OF assms(1)])
  also have "\<dots> = Some (Inr ([], sid_bytes (mk_sid [0, 0, v2, v3, v4, v5] (SubAuthority s))
      @ replicate (60 - 4 * length (SubAuthority s)) 0, True))"
    using string_sid_loop_subs[OF assms(1), of "[0, 0, v2, v3, v4, v5]" "[]" "SubAuthority s" 1] assms(2)
    by (simp add: sid_valid_def)
  finally show ?thesis
    using s by simp
qed

text \<open>The parser, over either character type, returns the identifier of a printed string.\<close>

lemma parse_sid_text:
  assumes "6 \<le> LENGTH('a::len)" and "sid_valid s"
    and "IdentifierAuthority s ! 0 = 0" and "IdentifierAuthority s ! 1 = 0"
  shows "RtlpConvertStringSidToSidEx avail (Some (sid_text s :: 'a word list)) True None None =
    (if avail (sid_length s) then Some (STATUS_SUCCESS, Some (sid_bytes s), None, None)
     else Some (STATUS_INSUFFICIENT_RESOURCES, None, None, None))"
proof -
  let ?b = "sid_bytes s @ replicate (60 - 4 * length (SubAuthority s)) 0"
  have so: "sid_of ?b = Some s" and wf: "sid_wf s"
    using assms(2) by (simp_all add: sid_of_bytes)
  have "length (sid_text s :: 'a word list) > 2" "sid_text s ! 0 = (83 :: 'a word)" "sid_text s ! 1 = (45 :: 'a word)"
    using fmt_u_nonempty[of "unat (Revision s)", where 'a = 'a]
    by (simp_all add: sid_text_def)
  then show ?thesis
    using string_sid_loop_text[OF assms] RtlValidSid_correct[OF so] RtlLengthSid_correct[OF so] assms(2) wf
      rdn_sid_bytes[OF wf, of "replicate (60 - 4 * length (SubAuthority s)) 0"]
    by (simp add: RtlpConvertStringSidToSidEx_def RTL_ALLOCATE_cases memcpy_def wrn_def length_sid_image
        del: length_sid_bytes)
      (simp add: sid_length_def)
qed

lemma InitEx_c_string:
  "length b \<le> 65535 \<Longrightarrow> LwRtlAnsiStringInitEx (Some b) = (STATUS_SUCCESS, c_string b)"
  using length_takeWhile_le[of "\<lambda>c. c \<noteq> 0" b] by (simp add: LwRtlAnsiStringInitEx_def c_string_def Let_def)

lemma string_sid_loop_hex:
  assumes "sid_valid s" and "IdentifierAuthority s ! 0 \<noteq> 0 \<or> IdentifierAuthority s ! 1 \<noteq> 0"
  shows "string_sid_loop (drop 2 (sid_string s)) (replicate 68 0) False False = Some (Inl STATUS_INVALID_SID)"
proof -
  define t where "t = concat (map fmt_02X (IdentifierAuthority s)) @ sub_text (SubAuthority s)"
  have rv: "Revision s = 1"
    using assms(1) by (simp add: sid_valid_def)
  have tx: "drop 2 (sid_string s) = fmt_u (unat (1 :: ULONG)) @ 45 # 48 # 120 # t"
    using assms(2) by (simp add: sid_string_def sid_hex_text_def rv t_def)
  have p1: "LwRtlStringParseULONG (Some (fmt_u (unat (1 :: ULONG)) @ 45 # 48 # 120 # t))
      = (STATUS_SUCCESS, 1, 45 # 48 # 120 # t)"
    by (rule parse_fmt_u) (simp_all add: dash_not_digit)
  have p2: "LwRtlStringParseULONG (Some (48 # 120 # t)) = (STATUS_SUCCESS, 0, 120 # t)"
    by (simp add: LwRtlStringParseULONG_def LwRtlIsDecimalDigit_def LwRtlDecimalDigitValue_def)
  have s1: "store_value 1 (replicate 68 0) False False = Some (Inr (1 # replicate 67 0, True, False))"
    using replicate_Suc[of 67 "0::byte"] by (simp add: store_value_def)
  have "string_sid_loop (48 # 120 # t) sid True False = Some (Inl STATUS_INVALID_SID)" for sid
    by (subst string_sid_loop.simps) (simp add: p2 skip_dash_def)
  then show ?thesis
    unfolding tx by (subst string_sid_loop.simps) (simp only: p1, simp add: s1 skip_dash_def)
qed

text \<open>Parsing the string that was printed for an identifier.\<close>

lemma RtlAllocateSidFromCString_printed:
  assumes "sid_valid s" and "length b \<le> 65535" and "c_string b = sid_string s"
  shows "RtlAllocateSidFromCString avail (Some b) =
    (if IdentifierAuthority s ! 0 \<noteq> 0 \<or> IdentifierAuthority s ! 1 \<noteq> 0
     then Some (STATUS_INVALID_SID, None)
     else if avail (sid_length s) then Some (STATUS_SUCCESS, Some (sid_bytes s))
     else Some (STATUS_INSUFFICIENT_RESOURCES, None))"
proof (cases "IdentifierAuthority s ! 0 \<noteq> 0 \<or> IdentifierAuthority s ! 1 \<noteq> 0")
  case True
  have "length (sid_string s) > 2" "sid_string s ! 0 = 83" "sid_string s ! 1 = 45"
    using fmt_u_nonempty[of "unat (Revision s)", where 'a = 8] by (simp_all add: sid_string_eq sid_head_def)
  then show ?thesis
    using True string_sid_loop_hex[OF assms(1) True] InitEx_c_string[OF assms(2)] assms(3)
    by (simp add: RtlAllocateSidFromCString_def RtlpConvertAnsiStringSidToSidEx_def RtlpConvertStringSidToSidEx_def)
next
  case False
  then have "sid_string s = sid_text s"
    by (simp add: sid_string_def)
  then show ?thesis
    using False parse_sid_text[of s avail, where 'a = 8] InitEx_c_string[OF assms(2)] assms
    by (simp add: RtlAllocateSidFromCString_def RtlpConvertAnsiStringSidToSidEx_def)
qed

section \<open>Safety of parsing\<close>

text \<open>The identifier under construction: the local buffer of maximal size, with a count in range.\<close>

definition sid_buffer :: "mem \<Rightarrow> bool" where
  "sid_buffer sid \<longleftrightarrow> length sid = SID_MAX_SIZE \<and> unat (sid ! 1) \<le> SID_MAX_SUB_AUTHORITIES"

lemma wrn_keeps:
  assumes "off + length bs \<le> length m"
  shows "\<exists>m'. wrn m off bs = Some m' \<and> length m' = length m \<and> (\<forall>i < off. m' ! i = m ! i)"
  using assms by (auto simp: wrn_def nth_append)

lemma store_value_safe:
  assumes "sid_buffer sid"
  shows "\<exists>r. store_value v sid hr ha = Some r
    \<and> (case r of Inl e \<Rightarrow> e = STATUS_INVALID_SID | Inr (sid', _, _) \<Rightarrow> sid_buffer sid')"
proof -
  have l: "length sid = 68" "unat (sid ! 1) \<le> 15"
    using assms by (simp_all add: sid_buffer_def)
  have w8: "wr8 m i b = Some (m[i := b])" if "i < length m" for m :: mem and i b
    using that by (simp add: wr8_def wrn_def enc8_def upd_conv_take_nth_drop)
  have c: "sid_SubAuthorityCount sid = Some (sid ! 1)"
    using l by (simp add: sid_SubAuthorityCount_def rd8_def rdn_def dec8_def)
  consider (rev) "\<not> hr" | (auth) "hr" "\<not> ha" | (full) "hr" "ha" "unat (sid ! 1) \<ge> 15" | (sub) "hr" "ha" "unat (sid ! 1) < 15"
    by linarith
  then show ?thesis
  proof cases
    case sub
    have "8 + 4 * unat (sid ! 1) + length (enc32 v) \<le> length sid"
      using sub l by simp
    from wrn_keeps[OF this] obtain m where m: "set_SubAuthority sid (unat (sid ! 1)) v = Some m" "length m = 68"
      by (auto simp: set_SubAuthority_def wr32_def l)
    have "unat (sid ! 1 + 1) = unat (sid ! 1) + 1"
      using sub unat_add_lem[of "sid ! 1" 1] by simp
    then show ?thesis
      using sub c m by (simp add: store_value_def w8 sid_buffer_def)
  qed (use l c in \<open>auto simp: store_value_def w8 sid_buffer_def\<close>)
qed

lemma string_sid_loop_safe:
  "sid_buffer sid \<Longrightarrow> \<exists>r. string_sid_loop s sid hr ha = Some r
    \<and> (case r of Inl e \<Rightarrow> e = STATUS_INVALID_SID | Inr (_, sid', _) \<Rightarrow> sid_buffer sid')"
proof (induction s sid hr ha rule: string_sid_loop.induct)
  case (1 s sid hr ha)
  obtain st v s' where p: "LwRtlStringParseULONG (Some s) = (st, v, s')"
    by (cases "LwRtlStringParseULONG (Some s)") auto
  obtain r where r: "store_value v sid hr ha = Some r"
    "case r of Inl e \<Rightarrow> e = STATUS_INVALID_SID | Inr (sid', _, _) \<Rightarrow> sid_buffer sid'"
    using store_value_safe[OF 1(2)] by blast
  show ?case
  proof (cases "\<not> NT_SUCCESS st \<or> skip_dash s' = None")
    case True
    then show ?thesis
      using 1(2) p by (subst string_sid_loop.simps) auto
  next
    case False
    then obtain y where y: "skip_dash s' = Some y"
      by blast
    have "\<exists>r. string_sid_loop y a b c = Some r
        \<and> (case r of Inl e \<Rightarrow> e = STATUS_INVALID_SID | Inr (_, sid', _) \<Rightarrow> sid_buffer sid')" if "r = Inr (a, b, c)" for a b c
      by (rule 1(1)[OF p[symmetric] refl _ y r(1) that refl refl]) (use False r(2) that in auto)
    then show ?thesis
      using False p r y by (subst string_sid_loop.simps) (cases r; auto)
  qed
qed

text \<open>An outcome of parsing: a failure without an identifier, or the image of a valid one.\<close>

definition sid_result :: "(NTSTATUS \<times> mem option) option \<Rightarrow> bool" where
  "sid_result r \<longleftrightarrow> (\<exists>e. r = Some (e, None) \<and> \<not> NT_SUCCESS e)
     \<or> (\<exists>s. r = Some (STATUS_SUCCESS, Some (sid_bytes s)) \<and> sid_valid s)"

lemma RtlpConvertStringSidToSidEx_safe:
  "sid_result (do { (status, sid, _) \<leftarrow> RtlpConvertStringSidToSidEx avail ss True None None; Some (status, sid) })"
proof (cases "\<exists>s. ss = Some s \<and> length s > 2 \<and> (s ! 0 = 83 \<or> s ! 0 = 115) \<and> s ! 1 = 45")
  case False
  then show ?thesis
    by (cases ss) (auto simp: RtlpConvertStringSidToSidEx_def Let_def sid_result_def)
next
  case True
  then obtain s where s: "ss = Some s" "length s > 2 \<and> (s ! 0 = 83 \<or> s ! 0 = 115) \<and> s ! 1 = 45"
    by blast
  have "sid_buffer (replicate SID_MAX_SIZE 0)"
    by (simp add: sid_buffer_def)
  from string_sid_loop_safe[OF this] obtain r where
    r: "string_sid_loop (drop 2 s) (replicate SID_MAX_SIZE 0) False False = Some r"
    "case r of Inl e \<Rightarrow> e = STATUS_INVALID_SID | Inr (_, sid', _) \<Rightarrow> sid_buffer sid'"
    by blast
  show ?thesis
  proof (cases r)
    case (Inl e)
    then show ?thesis
      using r s by (simp add: RtlpConvertStringSidToSidEx_def Let_def sid_result_def)
  next
    case (Inr t)
    then obtain rem sid ha where t: "r = Inr (rem, sid, ha)" "sid_buffer sid"
      using r(2) by (cases t) auto
    then obtain d where d: "sid_of sid = Some d" "length (SubAuthority d) = unat (sid ! 1)"
      using sid_of_readable[of sid] by (auto simp: sid_buffer_def)
    note eval = RtlValidSid_correct[OF d(1)] RtlLengthSid_correct[OF d(1)] RTL_ALLOCATE_cases
    have wf: "sid_wf d" and m: "\<exists>x. sid = sid_bytes d @ x"
      using sid_of_Some[OF d(1)] by auto
    have len: "sid_length d \<le> 68" "unat (word_of_nat (sid_length d) :: ULONG) = sid_length d"
      using t(2) d(2) unat_sid_length[OF wf] by (simp_all add: sid_buffer_def sid_length_def)
    have "memcpy (replicate (sid_length d) 0) 0 sid 0 (sid_length d) = Some (sid_bytes d)"
      using m wf by (auto simp: memcpy_def rdn_def wrn_def sid_length_def)
    then show ?thesis
      using r s t(1) len by (auto simp: RtlpConvertStringSidToSidEx_def Let_def sid_result_def eval)
  qed
qed

section \<open>Properties\<close>

text \<open>C8. Printing a valid identifier and parsing the string gives the same identifier, provided its authority is
  below 2^32; the hexadecimal form that is printed for larger authorities is refused by the parser.\<close>

theorem sid_string_round_trip:
  assumes "sid_of m = Some s" and "sid_valid s"
    and "avail (RTLP_STRING_SID_MAX_CHARS (length (SubAuthority s)))" and "avail (sid_length s)"
  shows "\<exists>b. RtlAllocateCStringFromSid avail True (Some m) = Some (STATUS_SUCCESS, Some b) \<and> c_string b = sid_string s
    \<and> RtlAllocateSidFromCString avail (Some b) =
      (if IdentifierAuthority s ! 0 \<noteq> 0 \<or> IdentifierAuthority s ! 1 \<noteq> 0 then Some (STATUS_INVALID_SID, None)
       else Some (STATUS_SUCCESS, Some (sid_bytes s)))"
proof -
  obtain b where b: "RtlAllocateCStringFromSid avail True (Some m) = Some (STATUS_SUCCESS, Some b)"
    "length b = RTLP_STRING_SID_MAX_CHARS (length (SubAuthority s))" "c_string b = sid_string s"
    using RtlAllocateCStringFromSid_correct[where avail = avail, OF assms(1-3)] by blast
  have "length b \<le> 65535"
    using b(2) assms(2) by (simp add: RTLP_STRING_SID_MAX_CHARS_def sid_valid_def)
  from RtlAllocateSidFromCString_printed[OF assms(2) this b(3), of avail] show ?thesis
    using b(1,3) assms(4) by simp
qed

theorem sid_string_round_trip_witness:
  "\<exists>b. RtlAllocateCStringFromSid (\<lambda>_. True) True (Some [1,1,0,0,0,0,0,5,18,0,0,0]) = Some (STATUS_SUCCESS, Some b)
    \<and> c_string b = [83, 45, 49, 45, 53, 45, 49, 56]
    \<and> RtlAllocateSidFromCString (\<lambda>_. True) (Some b) = Some (STATUS_SUCCESS, Some [1,1,0,0,0,0,0,5,18,0,0,0])"
proof -
  have s: "sid_of [1,1,0,0,0,0,0,5,18,0,0,0] = Some (mk_sid [0,0,0,0,0,5] [18])"
    "sid_bytes (mk_sid [0,0,0,0,0,5] [18]) = [1,1,0,0,0,0,0,5,18,0,0,0]"
    by (simp_all add: sid_eval)
  have "sid_string (mk_sid [0,0,0,0,0,5] [18]) = [83, 45, 49, 45, 53, 45, 49, 56]"
    by (simp add: sid_string_def sid_text_def str_def dec32_def fmt_u.simps)
  then show ?thesis
    using sid_string_round_trip[OF s(1), of "\<lambda>_. True"] s(2) by (simp add: sid_valid_def)
qed

text \<open>C10. Parsing is safe on every string, in both character sets: it always returns, never leaves its buffer, and
  either fails with no identifier or returns the image of a valid one.\<close>

theorem sid_parse_safe:
  "sid_result (RtlAllocateSidFromCString avail cs) \<and> sid_result (RtlAllocateSidFromWC16String avail ws)"
proof -
  have refuse: "sid_result (Some (STATUS_INVALID_PARAMETER, None))"
    by (simp add: sid_result_def)
  note ansi = RtlpConvertStringSidToSidEx_safe[where 'a = 8, of avail]
    and wide = RtlpConvertStringSidToSidEx_safe[where 'a = 16, of avail]
  show ?thesis
    using refuse ansi wide
    by (simp add: RtlAllocateSidFromCString_def RtlAllocateSidFromWC16String_def RtlAllocateSidFromUnicodeString_def
        RtlpConvertAnsiStringSidToSidEx_def RtlpConvertUnicodeStringSidToSidEx_def
        LwRtlAnsiStringInitEx_def LwRtlUnicodeStringInitEx_def Let_def split: option.splits)
qed

end
