(* ===== verification/Security_Ace.thy ===== *)
theory Security_Ace
  imports Security_Sid
begin

text \<open>
  Access control entries: the first part of \<^verbatim>\<open>security-acl.c\<close> and the access-right and
  ACE constants of \<^verbatim>\<open>lw/security-types.h\<close>.  A PACE_HEADER is the block of bytes at the
  pointer; the functions that write an entry take the enclosing block and the offset.
\<close>

section \<open>Access rights and ACE constants\<close>

abbreviation (input) GENERIC_ALL :: ACCESS_MASK where "GENERIC_ALL \<equiv> 0x10000000"
abbreviation (input) GENERIC_EXECUTE :: ACCESS_MASK where "GENERIC_EXECUTE \<equiv> 0x20000000"
abbreviation (input) GENERIC_WRITE :: ACCESS_MASK where "GENERIC_WRITE \<equiv> 0x40000000"
abbreviation (input) GENERIC_READ :: ACCESS_MASK where "GENERIC_READ \<equiv> 0x80000000"
abbreviation (input) ACCESS_SYSTEM_SECURITY :: ACCESS_MASK where
  "ACCESS_SYSTEM_SECURITY \<equiv> 0x01000000"
abbreviation (input) MAXIMUM_ALLOWED :: ACCESS_MASK where "MAXIMUM_ALLOWED \<equiv> 0x02000000"
abbreviation (input) DELETE :: ACCESS_MASK where "DELETE \<equiv> 0x00010000"
abbreviation (input) READ_CONTROL :: ACCESS_MASK where "READ_CONTROL \<equiv> 0x00020000"
abbreviation (input) WRITE_DAC :: ACCESS_MASK where "WRITE_DAC \<equiv> 0x00040000"
abbreviation (input) WRITE_OWNER :: ACCESS_MASK where "WRITE_OWNER \<equiv> 0x00080000"
abbreviation (input) SYNCHRONIZE :: ACCESS_MASK where "SYNCHRONIZE \<equiv> 0x00100000"
abbreviation (input) STANDARD_RIGHTS_ALL :: ACCESS_MASK where "STANDARD_RIGHTS_ALL \<equiv> 0x001F0000"
abbreviation (input) SPECIFIC_RIGHTS_ALL :: ACCESS_MASK where "SPECIFIC_RIGHTS_ALL \<equiv> 0x0000FFFF"

definition VALID_DACL_ACCESS_MASK :: ACCESS_MASK where
  "VALID_DACL_ACCESS_MASK = GENERIC_ALL OR GENERIC_EXECUTE OR GENERIC_WRITE OR GENERIC_READ
     OR STANDARD_RIGHTS_ALL OR SPECIFIC_RIGHTS_ALL"

definition VALID_DESIRED_ACCESS_MASK :: ACCESS_MASK where
  "VALID_DESIRED_ACCESS_MASK = GENERIC_ALL OR GENERIC_EXECUTE OR GENERIC_WRITE OR GENERIC_READ
     OR ACCESS_SYSTEM_SECURITY OR MAXIMUM_ALLOWED OR STANDARD_RIGHTS_ALL OR SPECIFIC_RIGHTS_ALL"

definition VALID_SACL_ACCESS_MASK :: ACCESS_MASK where
  "VALID_SACL_ACCESS_MASK = VALID_DACL_ACCESS_MASK OR ACCESS_SYSTEM_SECURITY"

definition VALID_GRANTED_ACCESS_MASK :: ACCESS_MASK where
  "VALID_GRANTED_ACCESS_MASK = VALID_SACL_ACCESS_MASK"

abbreviation (input) ACCESS_ALLOWED_ACE_TYPE :: UCHAR where "ACCESS_ALLOWED_ACE_TYPE \<equiv> 0"
abbreviation (input) ACCESS_DENIED_ACE_TYPE :: UCHAR where "ACCESS_DENIED_ACE_TYPE \<equiv> 1"
abbreviation (input) SYSTEM_AUDIT_ACE_TYPE :: UCHAR where "SYSTEM_AUDIT_ACE_TYPE \<equiv> 2"
abbreviation (input) ACCESS_ALLOWED_OBJECT_ACE_TYPE :: UCHAR where
  "ACCESS_ALLOWED_OBJECT_ACE_TYPE \<equiv> 5"
abbreviation (input) ACCESS_DENIED_OBJECT_ACE_TYPE :: UCHAR where
  "ACCESS_DENIED_OBJECT_ACE_TYPE \<equiv> 6"
abbreviation (input) SYSTEM_AUDIT_OBJECT_ACE_TYPE :: UCHAR where
  "SYSTEM_AUDIT_OBJECT_ACE_TYPE \<equiv> 7"

abbreviation (input) OBJECT_INHERIT_ACE :: "'a::len word" where "OBJECT_INHERIT_ACE \<equiv> 0x01"
abbreviation (input) CONTAINER_INHERIT_ACE :: "'a::len word" where "CONTAINER_INHERIT_ACE \<equiv> 0x02"
abbreviation (input) NO_PROPAGATE_INHERIT_ACE :: "'a::len word" where
  "NO_PROPAGATE_INHERIT_ACE \<equiv> 0x04"
abbreviation (input) INHERIT_ONLY_ACE :: "'a::len word" where "INHERIT_ONLY_ACE \<equiv> 0x08"
abbreviation (input) INHERITED_ACE :: "'a::len word" where "INHERITED_ACE \<equiv> 0x10"
abbreviation (input) VALID_ACE_FLAGS_MASK :: "'a::len word" where "VALID_ACE_FLAGS_MASK \<equiv> 0xDF"

abbreviation (input) ACE_OBJECT_TYPE_PRESENT :: ULONG where "ACE_OBJECT_TYPE_PRESENT \<equiv> 1"
abbreviation (input) ACE_INHERITED_OBJECT_TYPE_PRESENT :: ULONG where
  "ACE_INHERITED_OBJECT_TYPE_PRESENT \<equiv> 2"

section \<open>Layout\<close>

definition ace_AceType :: "mem \<Rightarrow> UCHAR option" where
  "ace_AceType Ace = rd8 Ace 0"

definition ace_AceFlags :: "mem \<Rightarrow> UCHAR option" where
  "ace_AceFlags Ace = rd8 Ace 1"

definition ace_AceSize :: "mem \<Rightarrow> USHORT option" where
  "ace_AceSize Ace = rd16 Ace 2"

definition ace_Mask :: "mem \<Rightarrow> ACCESS_MASK option" where
  "ace_Mask Ace = rd32 Ace 4"

definition ace_ObjectFlags :: "mem \<Rightarrow> ULONG option" where
  "ace_ObjectFlags Ace = rd32 Ace 8"

definition RtlpGetSidAccessAllowedAce :: "mem \<Rightarrow> mem option" where
  "RtlpGetSidAccessAllowedAce Ace = ptr_add Ace 8"

definition RtlpGetSidAccessAllowedObjectAce :: "mem \<Rightarrow> mem option" where
  "RtlpGetSidAccessAllowedObjectAce Ace = do {
     f \<leftarrow> ace_ObjectFlags Ace;
     ptr_add Ace
       (if f = 0 then 12
        else if f = ACE_OBJECT_TYPE_PRESENT \<or> f = ACE_INHERITED_OBJECT_TYPE_PRESENT then 28
        else 44)
   }"

section \<open>Operations\<close>

definition RtlpValidAceHeader :: "mem option \<Rightarrow> bool option" where
  "RtlpValidAceHeader Ace =
    (case Ace of
       None \<Rightarrow> Some False
     | Some a \<Rightarrow> do {
         sz \<leftarrow> ace_AceSize a;
         if unat sz < 4 then Some False
         else do {
           f \<leftarrow> ace_AceFlags a;
           Some (LW_IS_VALID_FLAGS f VALID_ACE_FLAGS_MASK)
         }
       })"

definition RtlLengthAccessAllowedAce :: "mem \<Rightarrow> USHORT option" where
  "RtlLengthAccessAllowedAce Sid = do { l \<leftarrow> RtlLengthSid Sid; Some (ucast (8 + l)) }"

definition RtlLengthAccessAllowedObjectAce :: "mem \<Rightarrow> ULONG \<Rightarrow> USHORT option" where
  "RtlLengthAccessAllowedObjectAce Sid AceFlags = do {
     let sz = (12 :: USHORT) +
       (if AceFlags = 0 then 0
        else if AceFlags = ACE_OBJECT_TYPE_PRESENT \<or> AceFlags = ACE_INHERITED_OBJECT_TYPE_PRESENT
        then 16 else 32);
     l \<leftarrow> RtlLengthSid Sid;
     Some (sz + ucast l)
   }"

definition RtlLengthAccessDeniedAce :: "mem \<Rightarrow> USHORT option" where
  "RtlLengthAccessDeniedAce Sid = do { l \<leftarrow> RtlLengthSid Sid; Some (ucast (8 + l)) }"

definition RtlLengthSystemAuditAce :: "mem \<Rightarrow> USHORT option" where
  "RtlLengthSystemAuditAce Sid = do { l \<leftarrow> RtlLengthSid Sid; Some (ucast (8 + l)) }"

definition RtlLengthAccessAuditAce :: "mem \<Rightarrow> USHORT option" where
  "RtlLengthAccessAuditAce Sid = do { l \<leftarrow> RtlLengthSid Sid; Some (ucast (8 + l)) }"

definition RtlpValidAccessAllowedAce :: "USHORT \<Rightarrow> mem \<Rightarrow> NTSTATUS option" where
  "RtlpValidAccessAllowedAce AceSize Sid = do {
     sizeRequired \<leftarrow> RtlLengthAccessAllowedAce Sid;
     if sizeRequired \<noteq> AceSize then Some STATUS_INVALID_ACL
     else do {
       v \<leftarrow> RtlValidSid (Some Sid);
       Some (if v then STATUS_SUCCESS else STATUS_INVALID_SID)
     }
   }"

definition RtlpValidAccessAllowedObjectAce :: "USHORT \<Rightarrow> ULONG \<Rightarrow> mem \<Rightarrow> NTSTATUS option" where
  "RtlpValidAccessAllowedObjectAce AceSize AceFlags Sid = do {
     sizeRequired \<leftarrow> RtlLengthAccessAllowedObjectAce Sid AceFlags;
     if sizeRequired \<noteq> AceSize then Some STATUS_INVALID_ACL
     else do {
       v \<leftarrow> RtlValidSid (Some Sid);
       Some (if v then STATUS_SUCCESS else STATUS_INVALID_SID)
     }
   }"

definition RtlpVerifyAceEx :: "mem option \<Rightarrow> bool \<Rightarrow> NTSTATUS option" where
  "RtlpVerifyAceEx Ace VerifyAceType = do {
     h \<leftarrow> RtlpValidAceHeader Ace;
     if \<not> h then Some STATUS_INVALID_ACL
     else if \<not> VerifyAceType then Some STATUS_SUCCESS
     else do {
       a \<leftarrow> Ace;
       t \<leftarrow> ace_AceType a;
       let validMask =
         (if t = ACCESS_ALLOWED_ACE_TYPE \<or> t = ACCESS_DENIED_ACE_TYPE
             \<or> t = ACCESS_ALLOWED_OBJECT_ACE_TYPE \<or> t = ACCESS_DENIED_OBJECT_ACE_TYPE
          then VALID_DACL_ACCESS_MASK
          else if t = SYSTEM_AUDIT_ACE_TYPE \<or> t = SYSTEM_AUDIT_OBJECT_ACE_TYPE
          then VALID_SACL_ACCESS_MASK
          else 0);
       if t = ACCESS_ALLOWED_ACE_TYPE \<or> t = ACCESS_DENIED_ACE_TYPE \<or> t = SYSTEM_AUDIT_ACE_TYPE
       then do {
         mask \<leftarrow> ace_Mask a;
         if \<not> LW_IS_VALID_FLAGS mask validMask then Some STATUS_INVALID_ACL
         else do {
           sz \<leftarrow> ace_AceSize a;
           sid \<leftarrow> RtlpGetSidAccessAllowedAce a;
           RtlpValidAccessAllowedAce sz sid
         }
       }
       else if t = ACCESS_ALLOWED_OBJECT_ACE_TYPE \<or> t = ACCESS_DENIED_OBJECT_ACE_TYPE
          \<or> t = SYSTEM_AUDIT_OBJECT_ACE_TYPE
       then do {
         mask \<leftarrow> ace_Mask a;
         if \<not> LW_IS_VALID_FLAGS mask validMask then Some STATUS_INVALID_ACL
         else do {
           sz \<leftarrow> ace_AceSize a;
           f \<leftarrow> ace_ObjectFlags a;
           sid \<leftarrow> RtlpGetSidAccessAllowedObjectAce a;
           RtlpValidAccessAllowedObjectAce sz f sid
         }
       }
       else Some STATUS_INVALID_ACL
     }
   }"

definition RtlpValidAce :: "mem option \<Rightarrow> bool option" where
  "RtlpValidAce Ace = do { s \<leftarrow> RtlpVerifyAceEx Ace False; Some (NT_SUCCESS s) }"

text \<open>The stores that the three initialisers share.\<close>

definition store_ace ::
    "mem \<Rightarrow> nat \<Rightarrow> UCHAR \<Rightarrow> USHORT \<Rightarrow> USHORT \<Rightarrow> ACCESS_MASK \<Rightarrow> mem \<Rightarrow> mem option" where
  "store_ace m off AceType AceFlags sz AccessMask Sid = do {
     m \<leftarrow> wr8 m off AceType;
     m \<leftarrow> wr8 m (off + 1) (ucast AceFlags);
     m \<leftarrow> wr16 m (off + 2) sz;
     m \<leftarrow> wr32 m (off + 4) AccessMask;
     l \<leftarrow> RtlLengthSid Sid;
     memcpy m (off + 8) Sid 0 (unat l)
   }"

definition RtlInitializeAccessAllowedAce ::
    "mem \<Rightarrow> nat \<Rightarrow> ULONG \<Rightarrow> USHORT \<Rightarrow> ACCESS_MASK \<Rightarrow> mem \<Rightarrow> (NTSTATUS \<times> mem) option" where
  "RtlInitializeAccessAllowedAce m Ace AceLength AceFlags AccessMask Sid = do {
     sz \<leftarrow> RtlLengthAccessAllowedAce Sid;
     v \<leftarrow> RtlValidSid (Some Sid);
     if \<not> LW_IS_VALID_FLAGS AceFlags VALID_ACE_FLAGS_MASK \<or> \<not> v
     then Some (STATUS_INVALID_PARAMETER, m)
     else if AceLength < ucast sz then Some (STATUS_BUFFER_TOO_SMALL, m)
     else do {
       m \<leftarrow> store_ace m Ace ACCESS_ALLOWED_ACE_TYPE AceFlags sz AccessMask Sid;
       Some (STATUS_SUCCESS, m)
     }
   }"

definition RtlInitializeAccessDeniedAce ::
    "mem \<Rightarrow> nat \<Rightarrow> ULONG \<Rightarrow> USHORT \<Rightarrow> ACCESS_MASK \<Rightarrow> mem \<Rightarrow> (NTSTATUS \<times> mem) option" where
  "RtlInitializeAccessDeniedAce m Ace AceLength AceFlags AccessMask Sid = do {
     sz \<leftarrow> RtlLengthAccessDeniedAce Sid;
     v \<leftarrow> RtlValidSid (Some Sid);
     if \<not> LW_IS_VALID_FLAGS AceFlags VALID_ACE_FLAGS_MASK
        \<or> \<not> LW_IS_VALID_FLAGS AccessMask VALID_DACL_ACCESS_MASK \<or> \<not> v
     then Some (STATUS_INVALID_PARAMETER, m)
     else if AceLength < ucast sz then Some (STATUS_BUFFER_TOO_SMALL, m)
     else do {
       m \<leftarrow> store_ace m Ace ACCESS_DENIED_ACE_TYPE AceFlags sz AccessMask Sid;
       Some (STATUS_SUCCESS, m)
     }
   }"

definition RtlInitializeSystemAuditAce ::
    "mem \<Rightarrow> nat \<Rightarrow> ULONG \<Rightarrow> USHORT \<Rightarrow> ACCESS_MASK \<Rightarrow> mem \<Rightarrow> (NTSTATUS \<times> mem) option" where
  "RtlInitializeSystemAuditAce m Ace AceLength AceFlags AccessMask Sid = do {
     sz \<leftarrow> RtlLengthSystemAuditAce Sid;
     v \<leftarrow> RtlValidSid (Some Sid);
     if \<not> LW_IS_VALID_FLAGS AceFlags VALID_ACE_FLAGS_MASK
        \<or> \<not> LW_IS_VALID_FLAGS AccessMask VALID_DACL_ACCESS_MASK \<or> \<not> v
     then Some (STATUS_INVALID_PARAMETER, m)
     else if AceLength < ucast sz then Some (STATUS_BUFFER_TOO_SMALL, m)
     else do {
       m \<leftarrow> store_ace m Ace SYSTEM_AUDIT_ACE_TYPE AceFlags sz AccessMask Sid;
       Some (STATUS_SUCCESS, m)
     }
   }"

section \<open>The abstract entry\<close>

text \<open>An entry as an element of a list: its bytes, with the size field equal to their number
  and no undefined flag set.\<close>

definition ace_wf :: "mem \<Rightarrow> bool" where
  "ace_wf a \<longleftrightarrow> 4 \<le> length a \<and> length a < 65536 \<and> ace_AceSize a = Some (word_of_nat (length a))
     \<and> LW_IS_VALID_FLAGS (a ! 1) VALID_ACE_FLAGS_MASK"

text \<open>The entries that carry an access mask and one identifier.\<close>

record ACE =
  a_type :: UCHAR
  a_flags :: UCHAR
  a_mask :: ACCESS_MASK
  a_sid :: SID

definition sid_ace_length :: "SID \<Rightarrow> nat" where
  "sid_ace_length s = 8 + sid_length s"

definition ace_length :: "ACE \<Rightarrow> nat" where
  "ace_length a = sid_ace_length (a_sid a)"

definition ace_bytes :: "ACE \<Rightarrow> mem" where
  "ace_bytes a = a_type a # a_flags a # enc16 (word_of_nat (ace_length a)) @ enc32 (a_mask a)
     @ sid_bytes (a_sid a)"

definition ace_of :: "mem \<Rightarrow> ACE option" where
  "ace_of m = do {
     t \<leftarrow> ace_AceType m;
     f \<leftarrow> ace_AceFlags m;
     mask \<leftarrow> ace_Mask m;
     p \<leftarrow> ptr_add m 8;
     s \<leftarrow> sid_of p;
     Some \<lparr> a_type = t, a_flags = f, a_mask = mask, a_sid = s \<rparr>
   }"

definition std_ace_type :: "UCHAR \<Rightarrow> bool" where
  "std_ace_type t \<longleftrightarrow>
     t = ACCESS_ALLOWED_ACE_TYPE \<or> t = ACCESS_DENIED_ACE_TYPE \<or> t = SYSTEM_AUDIT_ACE_TYPE"

definition ace_mask_ok :: "UCHAR \<Rightarrow> ACCESS_MASK \<Rightarrow> bool" where
  "ace_mask_ok t am \<longleftrightarrow> LW_IS_VALID_FLAGS am
     (if t = SYSTEM_AUDIT_ACE_TYPE then VALID_SACL_ACCESS_MASK else VALID_DACL_ACCESS_MASK)"

definition ace_valid :: "ACE \<Rightarrow> bool" where
  "ace_valid a \<longleftrightarrow> std_ace_type (a_type a) \<and> LW_IS_VALID_FLAGS (a_flags a) VALID_ACE_FLAGS_MASK
     \<and> ace_mask_ok (a_type a) (a_mask a) \<and> sid_valid (a_sid a)"

section \<open>Lemmas\<close>

lemma length_ace_bytes: "sid_wf (a_sid a) \<Longrightarrow> length (ace_bytes a) = ace_length a"
  by (simp add: ace_bytes_def ace_length_def sid_ace_length_def sid_length_def)

lemma ace_fields_bytes [simp]:
  "ace_AceType (ace_bytes a @ r) = Some (a_type a)"
  "ace_AceFlags (ace_bytes a @ r) = Some (a_flags a)"
  "ace_AceSize (ace_bytes a @ r) = Some (word_of_nat (ace_length a))"
  "ace_Mask (ace_bytes a @ r) = Some (a_mask a)"
  "ptr_add (ace_bytes a @ r) 8 = Some (sid_bytes (a_sid a) @ r)"
  by (simp_all add: ace_AceType_def ace_AceFlags_def ace_AceSize_def ace_Mask_def ace_bytes_def
      ptr_add_def f32.get_append_right)

lemma ace_of_bytes: "sid_wf (a_sid a) \<Longrightarrow> ace_of (ace_bytes a @ r) = Some a"
  by (simp add: ace_of_def sid_of_bytes)

lemma sid_ace_length_lt: "sid_wf s \<Longrightarrow> sid_ace_length s < 1040 \<and> 16 \<le> sid_ace_length s"
  using sid_length_lt[of s] by (simp add: sid_ace_length_def sid_length_def)

lemma unat_sid_ace_length [simp]:
  "sid_wf s \<Longrightarrow> unat (word_of_nat (sid_ace_length s) :: USHORT) = sid_ace_length s"
  "sid_wf s \<Longrightarrow> unat (word_of_nat (sid_ace_length s) :: ULONG) = sid_ace_length s"
  using sid_ace_length_lt[of s] by (auto intro!: unat_of_nat_small)

lemma ace_length_lt: "sid_wf (a_sid a) \<Longrightarrow> ace_length a < 1040"
  using sid_ace_length_lt[of "a_sid a"] by (simp add: ace_length_def)

lemma unat_ace_length [simp]:
  "sid_wf (a_sid a) \<Longrightarrow> unat (word_of_nat (ace_length a) :: USHORT) = ace_length a"
  using ace_length_lt[of a] by (intro unat_of_nat_small) simp

lemma ace_wf_bytes:
  "sid_wf (a_sid a) \<Longrightarrow> LW_IS_VALID_FLAGS (a_flags a) VALID_ACE_FLAGS_MASK \<Longrightarrow> ace_wf (ace_bytes a)"
  using ace_fields_bytes(3)[of a "[]"] ace_length_lt[of a]
  by (simp add: ace_wf_def length_ace_bytes)
    (simp add: ace_bytes_def ace_length_def sid_ace_length_def sid_length_def)

lemma RtlLengthAce_correct:
  assumes "sid_of m = Some s"
  shows "RtlLengthAccessAllowedAce m = Some (word_of_nat (sid_ace_length s))"
    and "RtlLengthAccessDeniedAce m = Some (word_of_nat (sid_ace_length s))"
    and "RtlLengthSystemAuditAce m = Some (word_of_nat (sid_ace_length s))"
    and "RtlLengthAccessAuditAce m = Some (word_of_nat (sid_ace_length s))"
proof -
  have wf: "sid_wf s"
    using assms by (simp add: sid_of_iff)
  have e: "8 + word_of_nat (sid_length s) = (word_of_nat (sid_ace_length s) :: ULONG)"
    by (simp add: sid_ace_length_def)
  have "(ucast (word_of_nat (sid_ace_length s) :: ULONG) :: USHORT) = word_of_nat (sid_ace_length s)"
    using wf by (metis of_nat_unat unat_sid_ace_length(2))
  then show "RtlLengthAccessAllowedAce m = Some (word_of_nat (sid_ace_length s))"
    "RtlLengthAccessDeniedAce m = Some (word_of_nat (sid_ace_length s))"
    "RtlLengthSystemAuditAce m = Some (word_of_nat (sid_ace_length s))"
    "RtlLengthAccessAuditAce m = Some (word_of_nat (sid_ace_length s))"
    using RtlLengthSid_correct[OF assms]
    by (simp_all add: RtlLengthAccessAllowedAce_def RtlLengthAccessDeniedAce_def
        RtlLengthSystemAuditAce_def RtlLengthAccessAuditAce_def e)
qed

lemma store_ace_correct:
  assumes "sid_of sm = Some s" and "off + 8 + sid_length s \<le> length m"
  shows "store_ace m off t f sz am sm =
    Some (take off m @ (t # ucast f # enc16 sz @ enc32 am @ sid_bytes s) @ drop (off + 8 + sid_length s) m)"
proof -
  obtain r where wf: "sid_wf s" and sm: "sm = sid_bytes s @ r"
    using assms(1) by (auto simp: sid_of_iff)
  have l: "length (sid_bytes s) = sid_length s"
    using wf by (rule length_sid_image)
  note ext = wrn_extend[where off = off and m = m]
  have w1: "wr8 m off t = Some (take off m @ [t] @ drop (off + 1) m)"
    using assms(2) by (simp add: wr8_def enc8_def wrn_def)
  have w2: "wr8 (take off m @ [t] @ drop (off + 1) m) (off + 1) (ucast f)
      = Some (take off m @ [t, ucast f] @ drop (off + 2) m)"
    using assms(2) ext[of "[t]" "enc8 (ucast f)"] by (simp add: wr8_def enc8_def)
  have w3: "wr16 (take off m @ [t, ucast f] @ drop (off + 2) m) (off + 2) sz
      = Some (take off m @ (t # ucast f # enc16 sz) @ drop (off + 4) m)"
    using assms(2) ext[of "[t, ucast f]" "enc16 sz"] by (simp add: wr16_def)
  have w4: "wr32 (take off m @ (t # ucast f # enc16 sz) @ drop (off + 4) m) (off + 4) am
      = Some (take off m @ (t # ucast f # enc16 sz @ enc32 am) @ drop (off + 8) m)"
    using assms(2) ext[of "t # ucast f # enc16 sz" "enc32 am"] by (simp add: wr32_def)
  have w5: "memcpy (take off m @ (t # ucast f # enc16 sz @ enc32 am) @ drop (off + 8) m) (off + 8) sm 0
        (sid_length s)
      = Some (take off m @ (t # ucast f # enc16 sz @ enc32 am @ sid_bytes s) @ drop (off + 8 + sid_length s) m)"
    using assms(2) ext[of "t # ucast f # enc16 sz @ enc32 am" "sid_bytes s"] rdn_sid_bytes[OF wf, of r]
    by (simp add: memcpy_def sm l add.assoc del: length_sid_bytes)
  show ?thesis
    using w1 w2 w3 w4 w5 RtlLengthSid_correct[OF assms(1)] wf by (simp add: store_ace_def)
qed

lemma ucast_flags:
  "LW_IS_VALID_FLAGS (f :: USHORT) 0xDF \<Longrightarrow> LW_IS_VALID_FLAGS (ucast f :: UCHAR) 0xDF"
proof -
  assume "LW_IS_VALID_FLAGS f 0xDF"
  then have "(ucast (f AND NOT 0xDF) :: UCHAR) = 0"
    by (simp add: LW_IS_VALID_FLAGS_def)
  moreover have "(65312 :: UCHAR) = - 224"
    by simp
  ultimately show ?thesis
    by (simp add: LW_IS_VALID_FLAGS_def unsigned_and_eq)
qed

abbreviation (input) mk_ace :: "UCHAR \<Rightarrow> USHORT \<Rightarrow> ACCESS_MASK \<Rightarrow> SID \<Rightarrow> ACE" where
  "mk_ace t f am s \<equiv> \<lparr> a_type = t, a_flags = ucast f, a_mask = am, a_sid = s \<rparr>"

lemma initialize_ace_store:
  assumes "sid_of sm = Some s" and "off + sid_ace_length s \<le> length m"
  shows "store_ace m off t f (word_of_nat (sid_ace_length s)) am sm =
    Some (take off m @ ace_bytes (mk_ace t f am s) @ drop (off + ace_length (mk_ace t f am s)) m)"
  using store_ace_correct[OF assms(1), of off m t f "word_of_nat (sid_ace_length s)" am] assms(2)
  by (simp add: ace_bytes_def ace_length_def sid_ace_length_def add.assoc)

lemma RtlInitializeAce_correct:
  assumes "sid_of sm = Some s" and "unat len \<le> length m - off" and "off \<le> length m"
  shows "RtlInitializeAccessAllowedAce m off len f am sm =
     (if \<not> LW_IS_VALID_FLAGS f 0xDF \<or> \<not> sid_valid s then Some (STATUS_INVALID_PARAMETER, m)
      else if unat len < sid_ace_length s then Some (STATUS_BUFFER_TOO_SMALL, m)
      else Some (STATUS_SUCCESS,
        take off m @ ace_bytes (mk_ace 0 f am s) @ drop (off + ace_length (mk_ace 0 f am s)) m))"
    and "RtlInitializeAccessDeniedAce m off len f am sm =
     (if \<not> LW_IS_VALID_FLAGS f 0xDF \<or> \<not> LW_IS_VALID_FLAGS am VALID_DACL_ACCESS_MASK \<or> \<not> sid_valid s
      then Some (STATUS_INVALID_PARAMETER, m)
      else if unat len < sid_ace_length s then Some (STATUS_BUFFER_TOO_SMALL, m)
      else Some (STATUS_SUCCESS,
        take off m @ ace_bytes (mk_ace 1 f am s) @ drop (off + ace_length (mk_ace 1 f am s)) m))"
    and "RtlInitializeSystemAuditAce m off len f am sm =
     (if \<not> LW_IS_VALID_FLAGS f 0xDF \<or> \<not> LW_IS_VALID_FLAGS am VALID_DACL_ACCESS_MASK \<or> \<not> sid_valid s
      then Some (STATUS_INVALID_PARAMETER, m)
      else if unat len < sid_ace_length s then Some (STATUS_BUFFER_TOO_SMALL, m)
      else Some (STATUS_SUCCESS,
        take off m @ ace_bytes (mk_ace 2 f am s) @ drop (off + ace_length (mk_ace 2 f am s)) m))"
proof -
  have wf: "sid_wf s"
    using assms(1) by (simp add: sid_of_iff)
  have "unat (ucast (word_of_nat (sid_ace_length s) :: USHORT) :: ULONG) = sid_ace_length s"
    using wf sid_ace_length_lt[OF wf] by (simp add: unsigned_ucast_eq take_bit_nat_eq_self)
  then have lt: "len < ucast (word_of_nat (sid_ace_length s) :: USHORT) \<longleftrightarrow> unat len < sid_ace_length s"
    by (simp only: word_less_nat_alt)
  note st = initialize_ace_store[OF assms(1), of off m]
  note simps = RtlLengthAce_correct[OF assms(1)] RtlValidSid_correct[OF assms(1)] lt
  show "RtlInitializeAccessAllowedAce m off len f am sm =
     (if \<not> LW_IS_VALID_FLAGS f 0xDF \<or> \<not> sid_valid s then Some (STATUS_INVALID_PARAMETER, m)
      else if unat len < sid_ace_length s then Some (STATUS_BUFFER_TOO_SMALL, m)
      else Some (STATUS_SUCCESS,
        take off m @ ace_bytes (mk_ace 0 f am s) @ drop (off + ace_length (mk_ace 0 f am s)) m))"
    using assms(2,3) st[of 0 f am] by (simp add: RtlInitializeAccessAllowedAce_def simps)
  show "RtlInitializeAccessDeniedAce m off len f am sm =
     (if \<not> LW_IS_VALID_FLAGS f 0xDF \<or> \<not> LW_IS_VALID_FLAGS am VALID_DACL_ACCESS_MASK \<or> \<not> sid_valid s
      then Some (STATUS_INVALID_PARAMETER, m)
      else if unat len < sid_ace_length s then Some (STATUS_BUFFER_TOO_SMALL, m)
      else Some (STATUS_SUCCESS,
        take off m @ ace_bytes (mk_ace 1 f am s) @ drop (off + ace_length (mk_ace 1 f am s)) m))"
    using assms(2,3) st[of 1 f am] by (simp add: RtlInitializeAccessDeniedAce_def simps)
  show "RtlInitializeSystemAuditAce m off len f am sm =
     (if \<not> LW_IS_VALID_FLAGS f 0xDF \<or> \<not> LW_IS_VALID_FLAGS am VALID_DACL_ACCESS_MASK \<or> \<not> sid_valid s
      then Some (STATUS_INVALID_PARAMETER, m)
      else if unat len < sid_ace_length s then Some (STATUS_BUFFER_TOO_SMALL, m)
      else Some (STATUS_SUCCESS,
        take off m @ ace_bytes (mk_ace 2 f am s) @ drop (off + ace_length (mk_ace 2 f am s)) m))"
    using assms(2,3) st[of 2 f am] by (simp add: RtlInitializeSystemAuditAce_def simps)
qed

lemma RtlpValidAceHeader_wf:
  assumes "ace_wf a"
  shows "RtlpValidAceHeader (Some (a @ r)) = Some True" and "ace_AceSize (a @ r) = Some (word_of_nat (length a))"
    and "unat (word_of_nat (length a) :: USHORT) = length a"
proof -
  have len: "4 \<le> length a" "length a < 65536"
    using assms by (simp_all add: ace_wf_def)
  show u: "unat (word_of_nat (length a) :: USHORT) = length a"
    using len by (intro unat_of_nat_small) simp
  show s: "ace_AceSize (a @ r) = Some (word_of_nat (length a))"
    using assms len by (simp add: ace_wf_def ace_AceSize_def f16.get_append_left)
  show "RtlpValidAceHeader (Some (a @ r)) = Some True"
    using assms len s u
    by (simp add: RtlpValidAceHeader_def ace_wf_def ace_AceFlags_def rd8_def rdn_def dec8_def nth_append)
qed

lemma RtlpValidAce_eq: "RtlpValidAce a = RtlpValidAceHeader a"
  by (cases "RtlpValidAceHeader a") (auto simp: RtlpValidAce_def RtlpVerifyAceEx_def)

lemma RtlpVerifyAceEx_bytes:
  assumes "sid_wf (a_sid a)" and "std_ace_type (a_type a)"
  shows "RtlpVerifyAceEx (Some (ace_bytes a @ r)) True =
    Some (if \<not> LW_IS_VALID_FLAGS (a_flags a) 0xDF \<or> \<not> ace_mask_ok (a_type a) (a_mask a)
          then STATUS_INVALID_ACL
          else if sid_valid (a_sid a) then STATUS_SUCCESS else STATUS_INVALID_SID)"
proof -
  have l: "\<not> unat (word_of_nat (ace_length a) :: USHORT) < 4"
    using assms(1) sid_ace_length_lt[of "a_sid a"] by (simp add: ace_length_def)
  have s: "sid_of (sid_bytes (a_sid a) @ r) = Some (a_sid a)"
    using assms(1) by (rule sid_of_bytes)
  note len = RtlLengthAce_correct(1)[OF s]
  show ?thesis
    using assms(2) l RtlValidSid_correct[OF s] len
    by (auto simp: RtlpVerifyAceEx_def RtlpValidAceHeader_def std_ace_type_def ace_mask_ok_def Let_def
        RtlpGetSidAccessAllowedAce_def RtlpValidAccessAllowedAce_def ace_length_def)
qed

end
