(* ===== verification/Security_Acl.thy ===== *)
theory Security_Acl
  imports Security_Ace
begin

text \<open>
  Access control lists: the offset-based functions of \<^verbatim>\<open>security-acl.c\<close> (the second
  API of \<^verbatim>\<open>security-api2.h\<close>).  A PACL is the block of bytes at the pointer, an ACE location
  an offset into it.  The abstraction of a block is the record \<^verbatim>\<open>ACL\<close> with its list of
  entries; the insert, remove and iterate functions are shown to be the list operations.
\<close>

abbreviation (input) ACL_REVISION :: "'a::len word" where "ACL_REVISION \<equiv> 2"
abbreviation (input) ACL_REVISION_DS :: "'a::len word" where "ACL_REVISION_DS \<equiv> 4"
abbreviation (input) ACL_HEADER_SIZE :: nat where "ACL_HEADER_SIZE \<equiv> 8"
abbreviation (input) ACL_END_ACE_OFFSET :: USHORT where "ACL_END_ACE_OFFSET \<equiv> 0xFFFF"

section \<open>Layout\<close>

definition acl_AclRevision :: "mem \<Rightarrow> UCHAR option" where
  "acl_AclRevision Acl = rd8 Acl 0"

definition acl_Sbz1 :: "mem \<Rightarrow> UCHAR option" where
  "acl_Sbz1 Acl = rd8 Acl 1"

definition acl_AclSize :: "mem \<Rightarrow> USHORT option" where
  "acl_AclSize Acl = rd16 Acl 2"

definition acl_AceCount :: "mem \<Rightarrow> USHORT option" where
  "acl_AceCount Acl = rd16 Acl 4"

definition acl_Sbz2 :: "mem \<Rightarrow> USHORT option" where
  "acl_Sbz2 Acl = rd16 Acl 6"

section \<open>Operations\<close>

definition RtlpValidAclRevision :: "ULONG \<Rightarrow> bool" where
  "RtlpValidAclRevision AclRevision = (AclRevision = ACL_REVISION \<or> AclRevision = ACL_REVISION_DS)"

definition RtlpValidAclHeader :: "mem option \<Rightarrow> bool option" where
  "RtlpValidAclHeader Acl =
    (case Acl of
       None \<Rightarrow> Some False
     | Some m \<Rightarrow> do {
         sz \<leftarrow> acl_AclSize m;
         rev \<leftarrow> acl_AclRevision m;
         s1 \<leftarrow> acl_Sbz1 m;
         s2 \<leftarrow> acl_Sbz2 m;
         n \<leftarrow> acl_AceCount m;
         Some (unat sz \<ge> 8 \<and> RtlpValidAclRevision (ucast rev) \<and> s1 = 0 \<and> s2 = 0
               \<and> unat n \<le> (65535 - 8) div 4)
       })"

definition RtlInitializeAcl :: "mem \<Rightarrow> ULONG \<Rightarrow> ULONG \<Rightarrow> (NTSTATUS \<times> mem \<times> USHORT) option" where
  "RtlInitializeAcl Acl AclLength AclRevision =
    (if AclRevision \<noteq> ACL_REVISION \<and> AclRevision \<noteq> ACL_REVISION_DS
     then Some (STATUS_INVALID_PARAMETER, Acl, 8)
     else if unat AclLength > 65535 then Some (STATUS_INVALID_PARAMETER, Acl, 8)
     else if unat AclLength < 8 then Some (STATUS_BUFFER_TOO_SMALL, Acl, 8)
     else do {
       m \<leftarrow> wr8 Acl 0 (ucast AclRevision);
       m \<leftarrow> wr16 m 2 (ucast AclLength);
       m \<leftarrow> wr16 m 4 0;
       m \<leftarrow> wr8 m 1 0;
       m \<leftarrow> wr16 m 6 0;
       m \<leftarrow> memset m 8 0 (unat AclLength - 8);
       Some (STATUS_SUCCESS, m, 8)
     })"

text \<open>An entry location is an offset into the block; the NULL pointer is \<^term>\<open>None\<close>.\<close>

definition RtlpGetAceLocationFromOffset ::
    "mem \<Rightarrow> USHORT \<Rightarrow> USHORT \<Rightarrow> (NTSTATUS \<times> nat option) option" where
  "RtlpGetAceLocationFromOffset Acl AclSizeUsed AceOffset = do {
     h \<leftarrow> RtlpValidAclHeader (Some Acl);
     if \<not> h \<or> unat AclSizeUsed < 8 then Some (STATUS_INVALID_ACL, None)
     else do {
       sz \<leftarrow> acl_AclSize Acl;
       if AclSizeUsed > sz then Some (STATUS_INVALID_ACL, None)
       else
         (let endOffset = AclSizeUsed - 8 in
          if AceOffset = ACL_END_ACE_OFFSET then Some (STATUS_SUCCESS, Some (8 + unat endOffset))
          else if AceOffset \<ge> endOffset then Some (STATUS_INVALID_PARAMETER, None)
          else Some (STATUS_SUCCESS, Some (8 + unat AceOffset)))
     }
   }"

definition RtlpCheckEnoughAclBuffer :: "USHORT \<Rightarrow> USHORT \<Rightarrow> USHORT \<Rightarrow> NTSTATUS" where
  "RtlpCheckEnoughAclBuffer AclSize AclSizeUsed AceSize =
    (let sizeNeeded = unat AclSizeUsed + unat AceSize in
     if sizeNeeded > 65535 then STATUS_INTEGER_OVERFLOW
     else if unat AclSize < sizeNeeded then STATUS_BUFFER_TOO_SMALL
     else STATUS_SUCCESS)"

text \<open>The byte count \<^verbatim>\<open>LW_PTR_OFFSET (AceLocation, aclEnd)\<close> is negative when the location is past
  the end of the used part; converted to \<^verbatim>\<open>size_t\<close> it exceeds every block.\<close>

definition RtlpMakeRoomForAceAtLocation ::
    "mem \<Rightarrow> USHORT \<Rightarrow> nat \<Rightarrow> USHORT \<Rightarrow> (NTSTATUS \<times> mem) option" where
  "RtlpMakeRoomForAceAtLocation Acl AclSizeUsed AceLocation AceSize = do {
     sz \<leftarrow> acl_AclSize Acl;
     let status = RtlpCheckEnoughAclBuffer sz AclSizeUsed AceSize;
     if status \<noteq> STATUS_SUCCESS then Some (status, Acl)
     else if unat AclSizeUsed < AceLocation then None
     else do {
       m \<leftarrow> memmove Acl (AceLocation + unat AceSize) AceLocation (unat AclSizeUsed - AceLocation);
       Some (STATUS_SUCCESS, m)
     }
   }"

definition bump_AceCount :: "mem \<Rightarrow> USHORT \<Rightarrow> mem option" where
  "bump_AceCount Acl n = do { c \<leftarrow> acl_AceCount Acl; wr16 Acl 4 (c + n) }"

definition RtlInsertAce ::
    "mem \<Rightarrow> USHORT \<Rightarrow> USHORT \<Rightarrow> mem option \<Rightarrow> (NTSTATUS \<times> mem \<times> USHORT) option" where
  "RtlInsertAce Acl AclSizeUsed AceOffset Ace = do {
     v \<leftarrow> RtlpValidAce Ace;
     if \<not> v then Some (STATUS_INVALID_PARAMETER, Acl, AclSizeUsed)
     else do {
       ace \<leftarrow> Ace;
       (status, loc) \<leftarrow> RtlpGetAceLocationFromOffset Acl AclSizeUsed AceOffset;
       if status \<noteq> STATUS_SUCCESS then Some (status, Acl, AclSizeUsed)
       else do {
         loc \<leftarrow> loc;
         sz \<leftarrow> ace_AceSize ace;
         (status, m) \<leftarrow> RtlpMakeRoomForAceAtLocation Acl AclSizeUsed loc sz;
         if status \<noteq> STATUS_SUCCESS then Some (status, m, AclSizeUsed)
         else do {
           m \<leftarrow> memcpy m loc ace 0 (unat sz);
           m \<leftarrow> bump_AceCount m 1;
           Some (STATUS_SUCCESS, m, AclSizeUsed + sz)
         }
       }
     }
   }"

text \<open>The common text of \<^verbatim>\<open>RtlInsertAccessAllowedAce\<close> and \<^verbatim>\<open>RtlInsertAccessDeniedAce\<close>: they
  differ in the length function and the initialiser they call.  The third result is the
  location stored through the optional \<^verbatim>\<open>Ace\<close> parameter.\<close>

definition insert_access_ace ::
    "(mem \<Rightarrow> USHORT option) \<Rightarrow>
     (mem \<Rightarrow> nat \<Rightarrow> ULONG \<Rightarrow> USHORT \<Rightarrow> ACCESS_MASK \<Rightarrow> mem \<Rightarrow> (NTSTATUS \<times> mem) option) \<Rightarrow>
     mem \<Rightarrow> USHORT \<Rightarrow> USHORT \<Rightarrow> USHORT \<Rightarrow> ACCESS_MASK \<Rightarrow> mem option \<Rightarrow>
     (NTSTATUS \<times> mem \<times> USHORT \<times> nat option) option" where
  "insert_access_ace len init Acl AclSizeUsed AceOffset AceFlags AccessMask Sid = do {
     v \<leftarrow> RtlValidSid Sid;
     if \<not> v then Some (STATUS_INVALID_PARAMETER, Acl, AclSizeUsed, None)
     else do {
       sid \<leftarrow> Sid;
       (status, loc) \<leftarrow> RtlpGetAceLocationFromOffset Acl AclSizeUsed AceOffset;
       if status \<noteq> STATUS_SUCCESS then Some (status, Acl, AclSizeUsed, None)
       else do {
         loc \<leftarrow> loc;
         aceSize \<leftarrow> len sid;
         (status, m) \<leftarrow> RtlpMakeRoomForAceAtLocation Acl AclSizeUsed loc aceSize;
         if status \<noteq> STATUS_SUCCESS then Some (status, m, AclSizeUsed, None)
         else do {
           (status, m) \<leftarrow> init m loc (ucast aceSize) AceFlags AccessMask sid;
           if status \<noteq> STATUS_SUCCESS then Some (status, m, AclSizeUsed, None)
           else do {
             sz \<leftarrow> rd16 m (loc + 2);
             if aceSize \<noteq> sz then None
             else do {
               m \<leftarrow> bump_AceCount m 1;
               Some (STATUS_SUCCESS, m, AclSizeUsed + aceSize, Some loc)
             }
           }
         }
       }
     }
   }"

definition RtlInsertAccessAllowedAce ::
    "mem \<Rightarrow> USHORT \<Rightarrow> USHORT \<Rightarrow> USHORT \<Rightarrow> ACCESS_MASK \<Rightarrow> mem option \<Rightarrow>
     (NTSTATUS \<times> mem \<times> USHORT \<times> nat option) option" where
  "RtlInsertAccessAllowedAce =
     insert_access_ace RtlLengthAccessAllowedAce RtlInitializeAccessAllowedAce"

text \<open>This one stores through \<^verbatim>\<open>Ace\<close> without a test, so a NULL \<^verbatim>\<open>Ace\<close> (the first argument
  \<^term>\<open>False\<close>) is undefined behaviour.\<close>

definition RtlInsertAccessDeniedAce ::
    "bool \<Rightarrow> mem \<Rightarrow> USHORT \<Rightarrow> USHORT \<Rightarrow> USHORT \<Rightarrow> ACCESS_MASK \<Rightarrow> mem option \<Rightarrow>
     (NTSTATUS \<times> mem \<times> USHORT \<times> nat option) option" where
  "RtlInsertAccessDeniedAce Ace Acl AclSizeUsed AceOffset AceFlags AccessMask Sid = do {
     r \<leftarrow> insert_access_ace RtlLengthAccessDeniedAce RtlInitializeAccessDeniedAce
            Acl AclSizeUsed AceOffset AceFlags AccessMask Sid;
     if Ace then Some r else None
   }"

definition RtlpRemoveAceFromLocation ::
    "mem \<Rightarrow> USHORT \<Rightarrow> nat \<Rightarrow> (NTSTATUS \<times> mem \<times> USHORT) option" where
  "RtlpRemoveAceFromLocation Acl AclSizeUsed AceLocation = do {
     sz \<leftarrow> rd16 Acl (AceLocation + 2);
     if unat sz < 4 then Some (STATUS_INVALID_ACL, Acl, AclSizeUsed)
     else
       (let aceEnd = AceLocation + unat sz; aclEnd = unat AclSizeUsed in
        if aceEnd > aclEnd then Some (STATUS_INVALID_ACL, Acl, AclSizeUsed)
        else do {
          m \<leftarrow> memcpy_within Acl AceLocation aceEnd (aclEnd - aceEnd);
          m \<leftarrow> memset m (aclEnd - unat sz) 0 (unat sz);
          c \<leftarrow> acl_AceCount m;
          m \<leftarrow> wr16 m 4 (c - 1);
          Some (STATUS_SUCCESS, m, AclSizeUsed - sz)
        })
   }"

definition RtlRemoveAce :: "mem \<Rightarrow> USHORT \<Rightarrow> USHORT \<Rightarrow> (NTSTATUS \<times> mem \<times> USHORT) option" where
  "RtlRemoveAce Acl AclSizeUsed AceOffset =
    (if AceOffset = ACL_END_ACE_OFFSET then Some (STATUS_INVALID_PARAMETER, Acl, AclSizeUsed)
     else do {
       (status, loc) \<leftarrow> RtlpGetAceLocationFromOffset Acl AclSizeUsed AceOffset;
       if status \<noteq> STATUS_SUCCESS then Some (status, Acl, AclSizeUsed)
       else do { loc \<leftarrow> loc; RtlpRemoveAceFromLocation Acl AclSizeUsed loc }
     })"

definition RtlIterateAce ::
    "mem \<Rightarrow> USHORT \<Rightarrow> USHORT \<Rightarrow> (NTSTATUS \<times> USHORT \<times> nat option) option" where
  "RtlIterateAce Acl AclSizeUsed AceOffset =
    (if AceOffset = ACL_END_ACE_OFFSET then Some (STATUS_NO_MORE_ENTRIES, AceOffset, None)
     else do {
       n \<leftarrow> (if AceOffset = 0 then acl_AceCount Acl else Some 1);
       if AceOffset = 0 \<and> n = 0 then Some (STATUS_NO_MORE_ENTRIES, AceOffset, None)
       else do {
         (status, loc) \<leftarrow> RtlpGetAceLocationFromOffset Acl AclSizeUsed AceOffset;
         if status \<noteq> STATUS_SUCCESS then Some (status, AceOffset, None)
         else do {
           loc \<leftarrow> loc;
           sz \<leftarrow> rd16 Acl (loc + 2);
           if unat sz < 4 then Some (STATUS_INVALID_ACL, AceOffset, None)
           else if loc + unat sz > unat AclSizeUsed then Some (STATUS_INVALID_ACL, AceOffset, None)
           else if loc + unat sz = unat AclSizeUsed
           then Some (STATUS_SUCCESS, ACL_END_ACE_OFFSET, Some loc)
           else Some (STATUS_SUCCESS, AceOffset + sz, Some loc)
         }
       }
     })"

definition RtlGetAclRevision :: "mem \<Rightarrow> UCHAR option" where
  "RtlGetAclRevision Acl = acl_AclRevision Acl"

definition RtlGetAclSize :: "mem \<Rightarrow> USHORT option" where
  "RtlGetAclSize Acl = acl_AclSize Acl"

definition RtlGetAclAceCount :: "mem \<Rightarrow> USHORT option" where
  "RtlGetAclAceCount Acl = acl_AceCount Acl"

text \<open>The loops over the entries: the argument after the offset is the number of iterations
  left, so that the index starts at \<^verbatim>\<open>AceCount\<close> minus it.\<close>

fun acl_size_loop :: "mem \<Rightarrow> USHORT \<Rightarrow> nat \<Rightarrow> USHORT option" where
  "acl_size_loop Acl sizeUsed 0 = Some sizeUsed"
| "acl_size_loop Acl sizeUsed (Suc n) = do {
     ace \<leftarrow> ptr_add Acl (unat sizeUsed);
     sz \<leftarrow> ace_AceSize ace;
     acl_size_loop Acl (sizeUsed + sz) n
   }"

definition RtlGetAclSizeUsed :: "mem \<Rightarrow> USHORT option" where
  "RtlGetAclSizeUsed Acl = do { n \<leftarrow> acl_AceCount Acl; acl_size_loop Acl 8 (unat n) }"

fun valid_acl_loop :: "mem \<Rightarrow> USHORT \<Rightarrow> USHORT \<Rightarrow> nat \<Rightarrow> (bool \<times> USHORT) option" where
  "valid_acl_loop Acl AclSize sizeUsed 0 = Some (True, sizeUsed)"
| "valid_acl_loop Acl AclSize sizeUsed (Suc n) = do {
     ace \<leftarrow> ptr_add Acl (unat sizeUsed);
     v \<leftarrow> RtlpValidAce (Some ace);
     if \<not> v then Some (False, 0)
     else do {
       sz \<leftarrow> ace_AceSize ace;
       let sizeUsed = sizeUsed + sz;
       if sizeUsed < sz then Some (False, 0)
       else if sizeUsed > AclSize then Some (False, 0)
       else valid_acl_loop Acl AclSize sizeUsed n
     }
   }"

definition RtlValidAcl :: "mem option \<Rightarrow> (bool \<times> USHORT) option" where
  "RtlValidAcl Acl = do {
     h \<leftarrow> RtlpValidAclHeader Acl;
     if \<not> h then Some (False, 0)
     else do {
       m \<leftarrow> Acl;
       sz \<leftarrow> acl_AclSize m;
       n \<leftarrow> acl_AceCount m;
       valid_acl_loop m sz 8 (unat n)
     }
   }"

fun valid_offset_loop :: "mem \<Rightarrow> USHORT \<Rightarrow> USHORT \<Rightarrow> USHORT \<Rightarrow> nat \<Rightarrow> bool option" where
  "valid_offset_loop Acl AclSize AceOffset sizeUsed 0 = Some False"
| "valid_offset_loop Acl AclSize AceOffset sizeUsed (Suc n) =
    (if int (unat AceOffset) = int (unat sizeUsed) - 8 then Some True
     else do {
       ace \<leftarrow> ptr_add Acl (unat sizeUsed);
       sz \<leftarrow> ace_AceSize ace;
       let sizeUsed = sizeUsed + sz;
       if sizeUsed < sz then Some False
       else if sizeUsed > AclSize then Some False
       else valid_offset_loop Acl AclSize AceOffset sizeUsed n
     })"

definition RtlValidAceOffset :: "mem option \<Rightarrow> USHORT \<Rightarrow> bool option" where
  "RtlValidAceOffset Acl AceOffset = do {
     h \<leftarrow> RtlpValidAclHeader Acl;
     if \<not> h then Some False
     else do {
       m \<leftarrow> Acl;
       sz \<leftarrow> acl_AclSize m;
       n \<leftarrow> acl_AceCount m;
       valid_offset_loop m sz AceOffset 8 (unat n)
     }
   }"

section \<open>The abstract list\<close>

record ACL =
  acl_rev :: UCHAR
  acl_size :: USHORT
  acl_aces :: "mem list"

definition acl_hdr :: "UCHAR \<Rightarrow> USHORT \<Rightarrow> nat \<Rightarrow> mem" where
  "acl_hdr rv sz n = rv # 0 # enc16 sz @ enc16 (word_of_nat n) @ enc16 0"

definition acl_bytes :: "ACL \<Rightarrow> mem" where
  "acl_bytes a = acl_hdr (acl_rev a) (acl_size a) (length (acl_aces a)) @ concat (acl_aces a)"

definition acl_used :: "ACL \<Rightarrow> nat" where
  "acl_used a = 8 + length (concat (acl_aces a))"

definition acl_valid :: "ACL \<Rightarrow> bool" where
  "acl_valid a \<longleftrightarrow> (acl_rev a = 2 \<or> acl_rev a = 4) \<and> (\<forall>ace \<in> set (acl_aces a). ace_wf ace)
     \<and> acl_used a \<le> unat (acl_size a)"

text \<open>The block \<^verbatim>\<open>m\<close> holds the list \<^verbatim>\<open>a\<close>: it starts with its image and is as long as the size
  field says.\<close>

definition acl_at :: "mem \<Rightarrow> ACL \<Rightarrow> bool" where
  "acl_at m a \<longleftrightarrow> acl_valid a \<and> unat (acl_size a) \<le> length m \<and> take (acl_used a) m = acl_bytes a"

definition ace_off :: "ACL \<Rightarrow> nat \<Rightarrow> nat" where
  "ace_off a i = length (concat (take i (acl_aces a)))"

definition ace_pos :: "ACL \<Rightarrow> nat \<Rightarrow> nat" where
  "ace_pos a i = 8 + ace_off a i"

text \<open>The offset by which the functions name the place before entry \<^verbatim>\<open>i\<close>.\<close>

definition ace_cursor :: "ACL \<Rightarrow> nat \<Rightarrow> USHORT" where
  "ace_cursor a i = (if i < length (acl_aces a) then word_of_nat (ace_off a i) else ACL_END_ACE_OFFSET)"

section \<open>Basic lemmas\<close>

lemma length_acl_hdr [simp]: "length (acl_hdr rv sz n) = 8"
  by (simp add: acl_hdr_def)

lemma acl_hdr_fields [simp]:
  "acl_AclRevision (acl_hdr rv sz n @ r) = Some rv"
  "acl_Sbz1 (acl_hdr rv sz n @ r) = Some 0"
  "acl_AclSize (acl_hdr rv sz n @ r) = Some sz"
  "acl_AceCount (acl_hdr rv sz n @ r) = Some (word_of_nat n)"
  "acl_Sbz2 (acl_hdr rv sz n @ r) = Some 0"
  by (simp_all add: acl_hdr_def acl_AclRevision_def acl_Sbz1_def acl_AclSize_def acl_AceCount_def
      acl_Sbz2_def f16.get_append_right)

lemma bump_AceCount_hdr:
  "bump_AceCount (acl_hdr rv sz n @ r) k = Some (acl_hdr rv sz (n + unat k) @ r)"
proof -
  have "wr16 (acl_hdr rv sz n @ r) 4 w = Some (rv # 0 # enc16 sz @ enc16 w @ enc16 0 @ r)" for w
    using f16.put_enc[of "enc16 (word_of_nat n)" "rv # 0 # enc16 sz" "enc16 0 @ r" w]
    by (simp add: acl_hdr_def)
  then show ?thesis
    by (simp add: bump_AceCount_def) (simp add: acl_hdr_def)
qed

lemma acl_at_split: "acl_at m a \<Longrightarrow> m = acl_bytes a @ drop (acl_used a) m"
  by (metis acl_at_def append_take_drop_id)

lemma acl_at_append:
  "acl_valid a \<Longrightarrow> unat (acl_size a) \<le> length (acl_bytes a @ r) \<Longrightarrow> acl_at (acl_bytes a @ r) a"
  by (simp add: acl_at_def acl_used_def acl_bytes_def)

lemma length_concat_aces:
  "\<forall>ace \<in> set as. ace_wf ace \<Longrightarrow> 4 * length as \<le> length (concat as)"
  by (induction as) (auto simp: ace_wf_def)

lemma acl_valid_bounds:
  assumes "acl_valid a"
  shows "acl_used a < 65536" and "length (acl_aces a) \<le> 16381"
proof -
  have "unat (acl_size a) < 65536"
    using unsigned_less[of "acl_size a", where 'a = nat] by simp
  then show u: "acl_used a < 65536"
    using assms by (simp add: acl_valid_def)
  have "4 * length (acl_aces a) \<le> length (concat (acl_aces a))"
    using assms by (intro length_concat_aces) (simp add: acl_valid_def)
  then show "length (acl_aces a) \<le> 16381"
    using u by (simp add: acl_used_def)
qed

lemma unat_short: "n < 65536 \<Longrightarrow> unat (word_of_nat n :: USHORT) = n"
  by (rule unat_of_nat_small) simp

lemma ace_off_0 [simp]: "ace_off a 0 = 0"
  by (simp add: ace_off_def)

lemma ace_pos_0 [simp]: "ace_pos a 0 = 8"
  by (simp add: ace_pos_def)

lemma ace_pos_length: "ace_pos a (length (acl_aces a)) = acl_used a"
  by (simp add: ace_pos_def ace_off_def acl_used_def)

lemma ace_off_Suc:
  "i < length (acl_aces a) \<Longrightarrow> ace_off a (Suc i) = ace_off a i + length (acl_aces a ! i)"
  by (simp add: ace_off_def take_Suc_conv_app_nth)

lemma ace_pos_Suc:
  "i < length (acl_aces a) \<Longrightarrow> ace_pos a (Suc i) = ace_pos a i + length (acl_aces a ! i)"
  by (simp add: ace_pos_def ace_off_Suc)

lemma ace_pos_le: "ace_pos a i \<le> acl_used a"
  by (metis ace_pos_def ace_off_def acl_used_def add_le_cancel_left append_take_drop_id concat_append le_add1
      length_append)

lemma ace_pos_less:
  "acl_valid a \<Longrightarrow> i < length (acl_aces a) \<Longrightarrow> ace_pos a i + length (acl_aces a ! i) \<le> acl_used a"
  using ace_pos_le[of a "Suc i"] by (simp add: ace_pos_Suc)

text \<open>The block from entry \<^verbatim>\<open>i\<close> on.\<close>

lemma acl_at_drop:
  assumes "acl_at m a"
  shows "drop (ace_pos a i) m = concat (drop i (acl_aces a)) @ drop (acl_used a) m"
proof -
  have "acl_aces a = take i (acl_aces a) @ drop i (acl_aces a)"
    by simp
  then have "acl_bytes a = (acl_hdr (acl_rev a) (acl_size a) (length (acl_aces a)) @ concat (take i (acl_aces a)))
      @ concat (drop i (acl_aces a))"
    by (metis acl_bytes_def append.assoc concat_append)
  then have "m = (acl_hdr (acl_rev a) (acl_size a) (length (acl_aces a)) @ concat (take i (acl_aces a)))
      @ concat (drop i (acl_aces a)) @ drop (acl_used a) m"
    using acl_at_split[OF assms] by (metis append.assoc)
  moreover have "length (acl_hdr (acl_rev a) (acl_size a) (length (acl_aces a)) @ concat (take i (acl_aces a)))
      = ace_pos a i"
    by (simp add: ace_pos_def ace_off_def)
  ultimately show ?thesis
    by (metis append_eq_conv_conj)
qed

lemma acl_at_entry:
  assumes "acl_at m a" and "i < length (acl_aces a)"
  shows "ptr_add m (ace_pos a i) =
      Some (acl_aces a ! i @ concat (drop (Suc i) (acl_aces a)) @ drop (acl_used a) m)"
    and "ace_wf (acl_aces a ! i)"
proof -
  have "length m \<ge> acl_used a"
    using assms(1) by (simp add: acl_at_def acl_valid_def)
  then show "ptr_add m (ace_pos a i) =
      Some (acl_aces a ! i @ concat (drop (Suc i) (acl_aces a)) @ drop (acl_used a) m)"
    using acl_at_drop[OF assms(1), of i] assms(2) ace_pos_le[of a i]
    by (simp add: ptr_add_def Cons_nth_drop_Suc[symmetric])
  show "ace_wf (acl_aces a ! i)"
    using assms by (simp add: acl_at_def acl_valid_def)
qed

lemma acl_at_fields:
  assumes "acl_at m a"
  shows "acl_AclRevision m = Some (acl_rev a)" and "acl_AclSize m = Some (acl_size a)"
    and "acl_AceCount m = Some (word_of_nat (length (acl_aces a)))"
    and "RtlpValidAclHeader (Some m) = Some True"
proof -
  have m: "m = acl_hdr (acl_rev a) (acl_size a) (length (acl_aces a)) @ concat (acl_aces a) @ drop (acl_used a) m"
    using acl_at_split[OF assms] by (simp add: acl_bytes_def)
  then show "acl_AclRevision m = Some (acl_rev a)" "acl_AclSize m = Some (acl_size a)"
    "acl_AceCount m = Some (word_of_nat (length (acl_aces a)))"
    by (metis acl_hdr_fields)+
  have v: "acl_valid a"
    using assms by (simp add: acl_at_def)
  then have "length (acl_aces a) < 65536" "unat (acl_size a) \<ge> 8"
    using acl_valid_bounds[OF v] by (simp_all add: acl_valid_def acl_used_def)
  moreover have "ucast (acl_rev a) = (2 :: ULONG) \<or> ucast (acl_rev a) = (4 :: ULONG)"
    using v by (auto simp: acl_valid_def)
  ultimately show "RtlpValidAclHeader (Some m) = Some True"
    using acl_valid_bounds[OF v]
    by (subst m) (simp add: RtlpValidAclHeader_def RtlpValidAclRevision_def unat_short)
qed

section \<open>Walking the list\<close>

lemma ace_pos_unat:
  assumes "acl_valid a"
  shows "unat (word_of_nat (ace_pos a i) :: USHORT) = ace_pos a i"
    and "unat (word_of_nat (ace_off a i) :: USHORT) = ace_off a i"
  using acl_valid_bounds(1)[OF assms] ace_pos_le[of a i]
  by (auto intro!: unat_short simp: ace_pos_def intro: le_less_trans simp del: of_nat_add)

lemma ace_pos_step:
  "i < length (acl_aces a) \<Longrightarrow>
    (word_of_nat (ace_pos a i) :: USHORT) + word_of_nat (length (acl_aces a ! i)) = word_of_nat (ace_pos a (Suc i))"
  by (simp add: ace_pos_Suc)

lemma acl_size_loop_correct:
  assumes "acl_at m a" and "i + n = length (acl_aces a)"
  shows "acl_size_loop m (word_of_nat (ace_pos a i)) n = Some (word_of_nat (acl_used a))"
  using assms(2)
proof (induction n arbitrary: i)
  case 0
  then show ?case
    using ace_pos_length[of a] by simp
next
  case (Suc n)
  have v: "acl_valid a"
    using assms(1) by (simp add: acl_at_def)
  from Suc.prems have i: "i < length (acl_aces a)"
    by simp
  show ?case
    using acl_at_entry[OF assms(1) i] Suc.IH[of "Suc i"] Suc.prems ace_pos_unat(1)[OF v, of i]
      RtlpValidAceHeader_wf(2)[OF acl_at_entry(2)[OF assms(1) i]] ace_pos_step[OF i]
    by (simp only: acl_size_loop.simps) simp
qed

lemma RtlGetAclSizeUsed_correct:
  "acl_at m a \<Longrightarrow> RtlGetAclSizeUsed m = Some (word_of_nat (acl_used a))"
  using acl_size_loop_correct[of m a 0 "length (acl_aces a)"] acl_valid_bounds(2)[of a]
  by (simp add: RtlGetAclSizeUsed_def acl_at_fields acl_at_def unat_short)

lemma valid_acl_loop_correct:
  assumes "acl_at m a" and "i + n = length (acl_aces a)"
  shows "valid_acl_loop m (acl_size a) (word_of_nat (ace_pos a i)) n = Some (True, word_of_nat (acl_used a))"
  using assms(2)
proof (induction n arbitrary: i)
  case 0
  then show ?case
    using ace_pos_length[of a] by simp
next
  case (Suc n)
  have v: "acl_valid a"
    using assms(1) by (simp add: acl_at_def)
  from Suc.prems have i: "i < length (acl_aces a)"
    by simp
  note wf = acl_at_entry(2)[OF assms(1) i]
  have "\<not> (word_of_nat (ace_pos a (Suc i)) :: USHORT) < word_of_nat (length (acl_aces a ! i))"
    using ace_pos_unat(1)[OF v, of "Suc i"] RtlpValidAceHeader_wf(3)[OF wf] ace_pos_Suc[OF i]
    by (simp only: word_less_nat_alt)
  moreover have "\<not> (word_of_nat (ace_pos a (Suc i)) :: USHORT) > acl_size a"
    using ace_pos_unat(1)[OF v, of "Suc i"] ace_pos_le[of a "Suc i"] v
    by (simp only: word_less_nat_alt) (simp add: acl_valid_def)
  ultimately show ?case
    using acl_at_entry(1)[OF assms(1) i] Suc.IH[of "Suc i"] Suc.prems ace_pos_unat(1)[OF v, of i]
      RtlpValidAceHeader_wf(1,2)[OF wf] ace_pos_step[OF i]
    by (simp only: valid_acl_loop.simps) (simp add: RtlpValidAce_eq Let_def)
qed

lemma RtlValidAcl_complete:
  "acl_at m a \<Longrightarrow> RtlValidAcl (Some m) = Some (True, word_of_nat (acl_used a))"
  using valid_acl_loop_correct[of m a 0 "length (acl_aces a)"] acl_valid_bounds(2)[of a]
  by (simp add: RtlValidAcl_def acl_at_fields acl_at_def unat_short)

lemma RtlpValidAceHeader_Some:
  assumes "RtlpValidAceHeader (Some p) = Some True" and "ace_AceSize p = Some sz" and "unat sz \<le> length p"
  shows "ace_wf (take (unat sz) p)" and "4 \<le> unat sz"
proof -
  have h: "4 \<le> unat sz" "LW_IS_VALID_FLAGS (p ! 1) 0xDF"
    using assms by (auto simp: RtlpValidAceHeader_def ace_AceFlags_def rd8_def rdn_def dec8_def
        bind_eq_Some_conv split: if_splits)
  have u: "unat sz < 65536"
    using unsigned_less[of sz, where 'a = nat] by simp
  show "ace_wf (take (unat sz) p)"
    using h u assms(2,3) by (simp add: ace_wf_def ace_AceSize_def f16.get_take)
  show "4 \<le> unat sz"
    by (rule h)
qed

lemma valid_acl_loop_sound:
  assumes "valid_acl_loop m sz su n = Some (True, u)" and "unat sz \<le> length m" and "unat su \<le> unat sz"
  shows "\<exists>as. length as = n \<and> (\<forall>ace \<in> set as. ace_wf ace) \<and> unat u = unat su + length (concat as)
    \<and> unat u \<le> unat sz \<and> take (length (concat as)) (drop (unat su) m) = concat as"
  using assms
proof (induction n arbitrary: su)
  case (Suc n)
  then obtain p s where p: "ptr_add m (unat su) = Some p" and v: "RtlpValidAceHeader (Some p) = Some True"
    and s: "ace_AceSize p = Some s" and o1: "\<not> su + s < s" and o2: "\<not> su + s > sz"
    and rest: "valid_acl_loop m sz (su + s) n = Some (True, u)"
    by (auto simp: bind_eq_Some_conv Let_def RtlpValidAce_eq split: if_splits)
  have add: "unat (su + s) = unat su + unat s"
    using o1 unat_add_no_overflow[of s su] by (simp add: add.commute)
  have le: "unat su + unat s \<le> unat sz"
    using o2 add by (simp add: word_less_nat_alt)
  have p': "p = drop (unat su) m"
    using p by (simp add: ptr_add_def split: if_splits)
  obtain as where as: "length as = n" "\<forall>ace \<in> set as. ace_wf ace" "unat u = unat (su + s) + length (concat as)"
    "unat u \<le> unat sz" "take (length (concat as)) (drop (unat (su + s)) m) = concat as"
    using Suc.IH[OF rest Suc.prems(2)] le add by auto
  let ?a = "take (unat s) p"
  have wf: "ace_wf ?a"
    using RtlpValidAceHeader_Some(1)[OF v s] le Suc.prems(2) p' by simp
  have l: "length ?a = unat s"
    using le Suc.prems(2) p' by simp
  have "take (length (concat (?a # as))) (drop (unat su) m) = concat (?a # as)"
    using as(5) l p' by (simp add: take_add add) (simp add: add.commute)
  then show ?case
    using as wf l add by (intro exI[of _ "?a # as"]) auto
qed auto

text \<open>A readable header followed by well-formed entries is a list.\<close>

lemma acl_at_readable:
  assumes "acl_AclRevision m = Some rv" "acl_Sbz1 m = Some 0" "acl_Sbz2 m = Some 0" "acl_AceCount m = Some n"
    and "acl_AclSize m = Some sz" "RtlpValidAclRevision (ucast rv)" "unat sz \<le> length m"
    and "length as = unat n" "\<forall>ace \<in> set as. ace_wf ace" "8 + length (concat as) \<le> unat sz"
    and "take (length (concat as)) (drop 8 m) = concat as"
  shows "acl_at m \<lparr> acl_rev = rv, acl_size = sz, acl_aces = as \<rparr>" (is "acl_at m ?a")
proof -
  have "take 8 m = take 1 m @ take 1 (drop 1 m) @ take 2 (drop 2 m) @ take 2 (drop 4 m) @ take 2 (drop 6 m)"
    using take_add[of 1 7 m] take_add[of 1 6 "drop 1 m"] take_add[of 2 4 "drop 2 m"] take_add[of 2 2 "drop 4 m"]
    by (simp add: eval_nat_numeral)
  moreover have "n = word_of_nat (length as)"
    using assms(8) by simp
  ultimately have "take 8 m = acl_hdr rv sz (length as)"
    using assms(1-5) f8.get_Some[of m 0] f8.get_Some[of m 1] f16.get_Some[of m]
    by (simp add: acl_hdr_def acl_AclRevision_def acl_Sbz1_def acl_Sbz2_def acl_AceCount_def
        acl_AclSize_def enc8_def)
  then have "take (acl_used ?a) m = acl_bytes ?a"
    using assms(7,10,11) by (simp add: acl_used_def acl_bytes_def take_add)
  moreover have "rv = 2 \<or> rv = 4"
    using assms(6) ucast_byte_eq_iff[of rv 2] ucast_byte_eq_iff[of rv 4]
    by (simp add: RtlpValidAclRevision_def)
  ultimately show ?thesis
    using assms(7,9,10) by (simp add: acl_at_def acl_valid_def acl_used_def)
qed

text \<open>A list that the validator accepts is the image of a well-formed list of entries.\<close>

lemma RtlValidAcl_sound:
  assumes "RtlValidAcl (Some m) = Some (True, u)" and "acl_AclSize m = Some sz" and "unat sz \<le> length m"
  shows "\<exists>a. acl_at m a \<and> acl_size a = sz \<and> unat u = acl_used a"
proof -
  from assms(1,2) obtain rv n where h: "acl_AclRevision m = Some rv" "acl_Sbz1 m = Some 0"
    "acl_Sbz2 m = Some 0" "acl_AceCount m = Some n" "8 \<le> unat sz" "RtlpValidAclRevision (ucast rv)"
    and loop: "valid_acl_loop m sz 8 (unat n) = Some (True, u)"
    by (auto simp: RtlValidAcl_def RtlpValidAclHeader_def bind_eq_Some_conv split: if_splits)
  obtain as where as: "length as = unat n" "\<forall>ace \<in> set as. ace_wf ace" "unat u = 8 + length (concat as)"
    "unat u \<le> unat sz" "take (length (concat as)) (drop 8 m) = concat as"
    using valid_acl_loop_sound[OF loop assms(3)] h(5) by auto
  then have "acl_at m \<lparr> acl_rev = rv, acl_size = sz, acl_aces = as \<rparr>"
    using h assms by (intro acl_at_readable) auto
  then show ?thesis
    using as(3) by (intro exI[of _ "\<lparr> acl_rev = rv, acl_size = sz, acl_aces = as \<rparr>"])
      (simp add: acl_used_def)
qed

section \<open>Locations and iteration\<close>

lemma ace_off_lt_end:
  assumes "acl_valid a" and "i < length (acl_aces a)"
  shows "(word_of_nat (ace_off a i) :: USHORT) \<noteq> 0xFFFF"
    and "unat (word_of_nat (acl_used a) - 8 :: USHORT) = acl_used a - 8"
    and "(word_of_nat (ace_off a i) :: USHORT) < word_of_nat (acl_used a) - 8"
proof -
  have u: "acl_used a < 65536" "8 \<le> acl_used a"
    using acl_valid_bounds(1)[OF assms(1)] by (simp_all add: acl_used_def)
  have wf: "4 \<le> length (acl_aces a ! i)"
    using assms by (simp add: acl_valid_def ace_wf_def)
  have lt: "ace_off a i + 4 \<le> acl_used a - 8"
    using ace_pos_less[OF assms] wf by (simp add: ace_pos_def)
  show e: "unat (word_of_nat (acl_used a) - 8 :: USHORT) = acl_used a - 8"
    using u by (subst unat_sub) (simp_all add: word_le_nat_alt unat_short)
  have o: "unat (word_of_nat (ace_off a i) :: USHORT) = ace_off a i"
    using ace_pos_unat(2)[OF assms(1)] .
  show "(word_of_nat (ace_off a i) :: USHORT) < word_of_nat (acl_used a) - 8"
    using lt by (simp only: word_less_nat_alt e o)
  show "(word_of_nat (ace_off a i) :: USHORT) \<noteq> 0xFFFF"
  proof
    assume "(word_of_nat (ace_off a i) :: USHORT) = 0xFFFF"
    then have "ace_off a i = 65535"
      using o by simp
    then show False
      using lt u by simp
  qed
qed

lemma RtlpGetAceLocationFromOffset_cursor:
  assumes "acl_at m a" and "i \<le> length (acl_aces a)"
  shows "RtlpGetAceLocationFromOffset m (word_of_nat (acl_used a)) (ace_cursor a i) =
    Some (STATUS_SUCCESS, Some (ace_pos a i))"
proof -
  have v: "acl_valid a"
    using assms(1) by (simp add: acl_at_def)
  have u: "unat (word_of_nat (acl_used a) :: USHORT) = acl_used a" "8 \<le> acl_used a"
    using unat_short[OF acl_valid_bounds(1)[OF v]] by (simp, simp add: acl_used_def)
  have "\<not> word_of_nat (acl_used a) > acl_size a"
    using v u by (simp add: word_less_nat_alt acl_valid_def)
  moreover have "unat (word_of_nat (acl_used a) - 8 :: USHORT) = acl_used a - 8"
    using u by (subst unat_sub) (simp_all add: word_le_nat_alt)
  ultimately show ?thesis
    using acl_at_fields[OF assms(1)] u ace_off_lt_end[OF v, of i] assms(2) ace_pos_length[of a]
      ace_pos_unat(2)[OF v, of i]
    by (cases "i = length (acl_aces a)")
      (simp_all add: RtlpGetAceLocationFromOffset_def ace_cursor_def Let_def ace_pos_def)
qed

lemma acl_at_ace_size:
  assumes "acl_at m a" and "i < length (acl_aces a)"
  shows "rd16 m (ace_pos a i + 2) = Some (word_of_nat (length (acl_aces a ! i)))"
proof -
  have "ace_pos a i \<le> length m"
    using ace_pos_le[of a i] assms(1) by (simp add: acl_at_def acl_valid_def)
  then have "rd16 m (ace_pos a i + 2) = ace_AceSize (drop (ace_pos a i) m)"
    by (simp add: ace_AceSize_def f16.get_drop)
  then show ?thesis
    using acl_at_entry[OF assms] RtlpValidAceHeader_wf(2)[OF acl_at_entry(2)[OF assms]]
    by (simp add: ptr_add_def split: if_splits)
qed

text \<open>Iteration from the cursor of entry \<^verbatim>\<open>i\<close> gives its location and the next cursor.\<close>

lemma RtlIterateAce_step:
  assumes "acl_at m a" and "i < length (acl_aces a)"
  shows "RtlIterateAce m (word_of_nat (acl_used a)) (ace_cursor a i) =
    Some (STATUS_SUCCESS, ace_cursor a (Suc i), Some (ace_pos a i))"
proof -
  have v: "acl_valid a"
    using assms(1) by (simp add: acl_at_def)
  note wf = acl_at_entry(2)[OF assms]
  have len: "unat (word_of_nat (length (acl_aces a ! i)) :: USHORT) = length (acl_aces a ! i)"
    "4 \<le> length (acl_aces a ! i)"
    using RtlpValidAceHeader_wf(3)[OF wf] wf by (simp_all add: ace_wf_def)
  have u: "unat (word_of_nat (acl_used a) :: USHORT) = acl_used a"
    using acl_valid_bounds(1)[OF v] by (rule unat_short)
  have n: "(word_of_nat (length (acl_aces a)) :: USHORT) \<noteq> 0"
    using assms(2) acl_valid_bounds(2)[OF v] unat_short[of "length (acl_aces a)"] by auto
  have cur: "ace_cursor a i \<noteq> 0xFFFF"
    using ace_off_lt_end(1)[OF v assms(2)] assms(2) by (simp add: ace_cursor_def)
  have fin: "ace_pos a i + length (acl_aces a ! i) = acl_used a \<longleftrightarrow> Suc i = length (acl_aces a)"
  proof
    assume "Suc i = length (acl_aces a)"
    then show "ace_pos a i + length (acl_aces a ! i) = acl_used a"
      using ace_pos_Suc[OF assms(2)] ace_pos_length[of a] by simp
  next
    assume e: "ace_pos a i + length (acl_aces a ! i) = acl_used a"
    show "Suc i = length (acl_aces a)"
    proof (rule ccontr)
      assume "Suc i \<noteq> length (acl_aces a)"
      then have "Suc i < length (acl_aces a)"
        using assms(2) by simp
      then show False
        using ace_pos_less[OF v, of "Suc i"] acl_at_entry(2)[OF assms(1), of "Suc i"] e
          ace_pos_Suc[OF assms(2)] by (simp add: ace_wf_def)
    qed
  qed
  have next_off: "ace_cursor a i + word_of_nat (length (acl_aces a ! i)) = ace_cursor a (Suc i)"
    if "Suc i \<noteq> length (acl_aces a)"
    using assms(2) that by (simp add: ace_cursor_def ace_off_Suc)
  have last: "ace_cursor a (length (acl_aces a)) = 0xFFFF"
    by (simp add: ace_cursor_def)
  show ?thesis
    using RtlpGetAceLocationFromOffset_cursor[OF assms(1), of i] assms acl_at_ace_size[OF assms]
      ace_pos_less[OF v assms(2)] fin next_off cur n len u acl_at_fields(3)[OF assms(1)]
      last
    by (cases "ace_cursor a i = 0"; cases "Suc i = length (acl_aces a)") (simp_all add: RtlIterateAce_def)
qed

lemma RtlIterateAce_stop:
  assumes "acl_at m a"
  shows "RtlIterateAce m (word_of_nat (acl_used a)) (ace_cursor a (length (acl_aces a))) =
    Some (STATUS_NO_MORE_ENTRIES, ACL_END_ACE_OFFSET, None)"
  by (simp add: RtlIterateAce_def ace_cursor_def)

lemma RtlIterateAce_empty:
  assumes "acl_at m a" and "acl_aces a = []"
  shows "RtlIterateAce m used 0 = Some (STATUS_NO_MORE_ENTRIES, 0, None)"
  using acl_at_fields(3)[OF assms(1)] assms(2) by (simp add: RtlIterateAce_def)

section \<open>Insertion\<close>

definition acl_insert :: "ACL \<Rightarrow> nat \<Rightarrow> mem list \<Rightarrow> ACL" where
  "acl_insert a i as = a\<lparr>acl_aces := take i (acl_aces a) @ as @ drop i (acl_aces a)\<rparr>"

definition acl_delete :: "ACL \<Rightarrow> nat \<Rightarrow> ACL" where
  "acl_delete a i = a\<lparr>acl_aces := take i (acl_aces a) @ drop (Suc i) (acl_aces a)\<rparr>"

definition acl_pre :: "ACL \<Rightarrow> nat \<Rightarrow> mem" where
  "acl_pre a i = acl_hdr (acl_rev a) (acl_size a) (length (acl_aces a)) @ concat (take i (acl_aces a))"

lemma length_acl_pre [simp]: "length (acl_pre a i) = ace_pos a i"
  by (simp add: acl_pre_def ace_pos_def ace_off_def)

lemma acl_at_pre:
  "acl_at m a \<Longrightarrow> m = acl_pre a i @ concat (drop i (acl_aces a)) @ drop (acl_used a) m"
  using acl_at_split[of m a] concat_append[of "take i (acl_aces a)" "drop i (acl_aces a)"]
  by (simp add: acl_bytes_def acl_pre_def)

lemma length_concat_take_drop:
  "length (concat (take i as)) + length (concat (drop i as)) = length (concat as)"
  by (metis append_take_drop_id concat_append length_append)

lemma acl_used_insert:
  "acl_used (acl_insert a i as) = acl_used a + length (concat as)"
  using length_concat_take_drop[of i "acl_aces a"] by (simp add: acl_used_def acl_insert_def)

lemma memmove_room:
  assumes "length pre = loc" and "k \<le> length rest"
  shows "memmove (pre @ t @ rest) (loc + k) loc (length t) =
    Some (pre @ take k (t @ rest) @ t @ drop k rest)"
proof -
  have "rdn (pre @ t @ rest) loc (length t) = Some t"
    using assms(1) by (simp add: rdn_def)
  moreover have "take (loc + k) (pre @ t @ rest) = pre @ take k (t @ rest)"
    "drop (loc + k + length t) (pre @ t @ rest) = drop k rest"
    using assms by simp_all
  ultimately show ?thesis
    using assms by (simp only: memmove_def Option.bind.simps wrn_def) simp
qed

lemma RtlpMakeRoomForAceAtLocation_correct:
  assumes "acl_at m a" and "unat k + acl_used a \<le> 65535"
  shows "RtlpMakeRoomForAceAtLocation m (word_of_nat (acl_used a)) (ace_pos a i) k =
    (if unat (acl_size a) < acl_used a + unat k then Some (STATUS_BUFFER_TOO_SMALL, m)
     else Some (STATUS_SUCCESS, acl_pre a i
       @ take (unat k) (concat (drop i (acl_aces a)) @ drop (acl_used a) m)
       @ concat (drop i (acl_aces a)) @ drop (acl_used a + unat k) m))"
proof -
  have v: "acl_valid a"
    using assms(1) by (simp add: acl_at_def)
  have u: "unat (word_of_nat (acl_used a) :: USHORT) = acl_used a"
    using acl_valid_bounds(1)[OF v] by (rule unat_short)
  have len: "acl_used a - ace_pos a i = length (concat (drop i (acl_aces a)))"
    using length_concat_take_drop[of i "acl_aces a"] by (simp add: acl_used_def ace_pos_def ace_off_def)
  define rest where "rest = drop (acl_used a) m"
  have m: "m = acl_pre a i @ concat (drop i (acl_aces a)) @ rest"
    using acl_at_pre[OF assms(1), of i] by (simp add: rest_def)
  have "memmove m (ace_pos a i + unat k) (ace_pos a i) (acl_used a - ace_pos a i) =
      Some (acl_pre a i @ take (unat k) (concat (drop i (acl_aces a)) @ drop (acl_used a) m)
        @ concat (drop i (acl_aces a)) @ drop (acl_used a + unat k) m)"
    if "acl_used a + unat k \<le> unat (acl_size a)"
  proof -
    have d: "drop (acl_used a + unat k) m = drop (unat k) rest" and k: "unat k \<le> length rest"
      using that assms(1) by (auto simp: rest_def acl_at_def add.commute)
    have "memmove m (ace_pos a i + unat k) (ace_pos a i) (acl_used a - ace_pos a i) =
        Some (acl_pre a i @ take (unat k) (concat (drop i (acl_aces a)) @ rest)
          @ concat (drop i (acl_aces a)) @ drop (unat k) rest)"
      unfolding len by (subst m) (rule memmove_room[OF length_acl_pre k])
    then show ?thesis
      unfolding d rest_def .
  qed
  then show ?thesis
    using assms(2) u ace_pos_le[of a i] acl_at_fields(2)[OF assms(1)]
    by (simp add: RtlpMakeRoomForAceAtLocation_def RtlpCheckEnoughAclBuffer_def Let_def not_less)
qed

lemma acl_at_insert:
  assumes "acl_at m a" and "\<forall>ace \<in> set as. ace_wf ace"
    and "acl_used a + length (concat as) \<le> unat (acl_size a)"
  shows "acl_at (acl_hdr (acl_rev a) (acl_size a) (length (acl_aces a) + length as)
      @ concat (take i (acl_aces a)) @ concat as @ concat (drop i (acl_aces a))
      @ drop (acl_used a + length (concat as)) m) (acl_insert a i as)"
    (is "acl_at ?m ?a")
proof -
  have v: "acl_valid ?a"
    using assms acl_used_insert[of a i as]
    by (auto simp: acl_at_def acl_valid_def acl_insert_def dest: in_set_takeD in_set_dropD)
  have "length (acl_aces ?a) = length (acl_aces a) + length as"
    by (simp add: acl_insert_def)
  then have m: "?m = acl_bytes ?a @ drop (acl_used a + length (concat as)) m"
    by (simp only: acl_bytes_def) (simp add: acl_insert_def)
  have "length (acl_bytes ?a) = acl_used ?a"
    by (simp add: acl_bytes_def acl_used_def)
  then have "unat (acl_size ?a) \<le> length (acl_bytes ?a @ drop (acl_used a + length (concat as)) m)"
    using assms(1,3) acl_used_insert[of a i as] by (simp add: acl_at_def acl_insert_def)
  then show ?thesis
    unfolding m by (rule acl_at_append[OF v])
qed

text \<open>Room for the bytes of a list of entries, filled and counted: the list with the entries
  inserted.\<close>

lemma fill_room:
  assumes "length x = length (concat as)"
  shows "do { m \<leftarrow> wrn (acl_pre a i @ x @ t) (ace_pos a i) (concat as);
              bump_AceCount m (word_of_nat (length as)) } =
    Some (acl_hdr (acl_rev a) (acl_size a)
        (length (acl_aces a) + unat (word_of_nat (length as) :: USHORT))
      @ concat (take i (acl_aces a)) @ concat as @ t)"
  using wrn_append[OF assms, of "acl_pre a i" t]
  by (simp add: acl_pre_def bump_AceCount_hdr ace_pos_def ace_off_def)

lemma RtlInsertAce_correct:
  assumes "acl_at m a" and "i \<le> length (acl_aces a)" and "ace_wf ace"
    and "acl_used a + length ace \<le> 65535"
  shows "if unat (acl_size a) < acl_used a + length ace
    then RtlInsertAce m (word_of_nat (acl_used a)) (ace_cursor a i) (Some (ace @ r)) =
      Some (STATUS_BUFFER_TOO_SMALL, m, word_of_nat (acl_used a))
    else \<exists>m'. RtlInsertAce m (word_of_nat (acl_used a)) (ace_cursor a i) (Some (ace @ r)) =
      Some (STATUS_SUCCESS, m', word_of_nat (acl_used (acl_insert a i [ace])))
      \<and> acl_at m' (acl_insert a i [ace])"
proof -
  note h = RtlpValidAceHeader_wf[OF assms(3)]
  let ?k = "word_of_nat (length ace) :: USHORT"
  note room = RtlpMakeRoomForAceAtLocation_correct[OF assms(1), of ?k i]
  have cp: "memcpy (acl_pre a i @ x @ t) (ace_pos a i) (ace @ r) 0 (length ace)
      = wrn (acl_pre a i @ x @ t) (ace_pos a i) (concat [ace])" for x t
    by (simp add: memcpy_def)
  show ?thesis
  proof (cases "unat (acl_size a) < acl_used a + length ace")
    case True
    then show ?thesis
      using h room assms(4) RtlpGetAceLocationFromOffset_cursor[OF assms(1,2)]
      by (simp add: RtlInsertAce_def RtlpValidAce_eq)
  next
    case False
    let ?m = "acl_hdr (acl_rev a) (acl_size a) (length (acl_aces a) + length [ace])
      @ concat (take i (acl_aces a)) @ concat [ace] @ concat (drop i (acl_aces a))
      @ drop (acl_used a + length (concat [ace])) m"
    have x: "length (take (length ace) (concat (drop i (acl_aces a)) @ drop (acl_used a) m)) = length (concat [ace])"
      using False assms(1) by (auto simp: acl_at_def)
    have "RtlInsertAce m (word_of_nat (acl_used a)) (ace_cursor a i) (Some (ace @ r)) =
        Some (STATUS_SUCCESS, ?m, word_of_nat (acl_used (acl_insert a i [ace])))"
      using False h room assms(4) RtlpGetAceLocationFromOffset_cursor[OF assms(1,2)]
        fill_room[OF x, of a i "concat (drop i (acl_aces a)) @ drop (acl_used a + length ace) m"]
      by (simp add: RtlInsertAce_def RtlpValidAce_eq cp acl_used_insert bind_eq_Some_conv del: take_append)
    moreover have "acl_at ?m (acl_insert a i [ace])"
      using False assms(3) by (intro acl_at_insert[OF assms(1)]) simp_all
    ultimately show ?thesis
      using False by (simp only: if_False) blast
  qed
qed

section \<open>Insertion of a new entry\<close>

text \<open>The contract of the functions that initialise an entry in place, which the insert and add
  functions are written against: the length they need and what they store.\<close>

locale ace_initializer =
  fixes len :: "mem \<Rightarrow> USHORT option"
    and init :: "mem \<Rightarrow> nat \<Rightarrow> ULONG \<Rightarrow> USHORT \<Rightarrow> ACCESS_MASK \<Rightarrow> mem \<Rightarrow> (NTSTATUS \<times> mem) option"
    and ty :: UCHAR
    and mask_ok :: "ACCESS_MASK \<Rightarrow> bool"
  assumes len_law: "sid_of sm = Some s \<Longrightarrow> len sm = Some (word_of_nat (sid_ace_length s))"
    and init_law: "sid_of sm = Some s \<Longrightarrow> unat l \<le> length m - off \<Longrightarrow> off \<le> length m \<Longrightarrow>
      init m off l f am sm =
       (if \<not> LW_IS_VALID_FLAGS f 0xDF \<or> \<not> mask_ok am \<or> \<not> sid_valid s
        then Some (STATUS_INVALID_PARAMETER, m)
        else if unat l < sid_ace_length s then Some (STATUS_BUFFER_TOO_SMALL, m)
        else Some (STATUS_SUCCESS, take off m @ ace_bytes (mk_ace ty f am s)
               @ drop (off + ace_length (mk_ace ty f am s)) m))"
begin

lemma new_ace_wf: "sid_valid s \<Longrightarrow> LW_IS_VALID_FLAGS f 0xDF \<Longrightarrow> ace_wf (ace_bytes (mk_ace ty f am s))"
  by (intro ace_wf_bytes) (simp_all add: ucast_flags)

lemma init_room:
  assumes "sid_of sm = Some s" and "sid_valid s"
    and "length x = sid_ace_length s"
  shows "init (acl_pre a i @ x @ t) (ace_pos a i) (ucast (word_of_nat (sid_ace_length s) :: USHORT)) f am sm =
    (if LW_IS_VALID_FLAGS f 0xDF \<and> mask_ok am
     then Some (STATUS_SUCCESS, acl_pre a i @ ace_bytes (mk_ace ty f am s) @ t)
     else Some (STATUS_INVALID_PARAMETER, acl_pre a i @ x @ t))"
proof -
  have wf: "sid_wf s"
    using assms(2) by simp
  have l: "unat (ucast (word_of_nat (sid_ace_length s) :: USHORT) :: ULONG) = sid_ace_length s"
    using wf sid_ace_length_lt[OF wf] by (simp add: unsigned_ucast_eq take_bit_nat_eq_self)
  show ?thesis
    using init_law[OF assms(1), of "ucast (word_of_nat (sid_ace_length s) :: USHORT)"
        "acl_pre a i @ x @ t" "ace_pos a i" f am] l assms(2,3)
    by (simp add: ace_length_def)
qed

lemma rd16_new_ace:
  "sid_wf s \<Longrightarrow> rd16 (acl_pre a i @ ace_bytes (mk_ace ty f am s) @ t) (ace_pos a i + 2) =
    Some (word_of_nat (sid_ace_length s))"
  using ace_fields_bytes(3)[of "mk_ace ty f am s" t]
  by (simp add: f16.get_append_right ace_AceSize_def ace_length_def)

text \<open>The whole insertion, on every branch.  On the last one the bytes have already been moved
  when the initialiser refuses the flags or the mask.\<close>

lemma insert_eq:
  fixes f :: USHORT and am :: ACCESS_MASK
  assumes "acl_at m a" and "i \<le> length (acl_aces a)" and "sid_of sm = Some s" and "sid_valid s"
    and "acl_used a + sid_ace_length s \<le> 65535"
  defines "n \<equiv> ace_bytes (mk_ace ty f am s)"
    and "t \<equiv> concat (drop i (acl_aces a)) @ drop (acl_used a + sid_ace_length s) m"
    and "x \<equiv> take (sid_ace_length s) (concat (drop i (acl_aces a)) @ drop (acl_used a) m)"
  shows "insert_access_ace len init m (word_of_nat (acl_used a)) (ace_cursor a i) f am (Some sm) =
    (if unat (acl_size a) < acl_used a + sid_ace_length s
     then Some (STATUS_BUFFER_TOO_SMALL, m, word_of_nat (acl_used a), None)
     else if LW_IS_VALID_FLAGS f 0xDF \<and> mask_ok am
     then Some (STATUS_SUCCESS, acl_hdr (acl_rev a) (acl_size a) (length (acl_aces a) + 1)
              @ concat (take i (acl_aces a)) @ n @ t,
            word_of_nat (acl_used (acl_insert a i [n])), Some (ace_pos a i))
     else Some (STATUS_INVALID_PARAMETER, acl_pre a i @ x @ t, word_of_nat (acl_used a), None))"
proof -
  let ?k = "word_of_nat (sid_ace_length s) :: USHORT"
  have wf: "sid_wf s" and uk: "unat ?k = sid_ace_length s"
    using assms(4) by simp_all
  have nl: "length n = sid_ace_length s"
    using wf length_ace_bytes[of "mk_ace ty f am s"] by (simp add: ace_length_def n_def)
  have room: "RtlpMakeRoomForAceAtLocation m (word_of_nat (acl_used a)) (ace_pos a i) ?k =
      (if unat (acl_size a) < acl_used a + sid_ace_length s then Some (STATUS_BUFFER_TOO_SMALL, m)
       else Some (STATUS_SUCCESS, acl_pre a i @ x @ t))"
    using RtlpMakeRoomForAceAtLocation_correct[OF assms(1), of ?k i] assms(5) uk
    by (simp add: x_def t_def)
  note simps = RtlValidSid_correct[OF assms(3)] assms(4) len_law[OF assms(3)] room
    RtlpGetAceLocationFromOffset_cursor[OF assms(1,2)] insert_access_ace_def
  show ?thesis
  proof (cases "unat (acl_size a) < acl_used a + sid_ace_length s")
    case True
    then show ?thesis
      by (simp add: simps)
  next
    case False
    then have "sid_ace_length s \<le> length (concat (drop i (acl_aces a)) @ drop (acl_used a) m)"
      using assms(1) by (auto simp: acl_at_def)
    then have x: "length x = sid_ace_length s"
      by (simp add: x_def)
    note ir = init_room[OF assms(3,4) x, of a i t f am, folded n_def]
    have b: "bump_AceCount (acl_pre a i @ n @ t) 1 =
        Some (acl_hdr (acl_rev a) (acl_size a) (length (acl_aces a) + 1) @ concat (take i (acl_aces a)) @ n @ t)"
      using bump_AceCount_hdr[of "acl_rev a" "acl_size a" "length (acl_aces a)"
          "concat (take i (acl_aces a)) @ n @ t" 1] by (simp add: acl_pre_def)
    show ?thesis
    proof (cases "LW_IS_VALID_FLAGS f 0xDF \<and> mask_ok am")
      case True
      then show ?thesis
        using False ir b rd16_new_ace[OF wf, of a i f am t, folded n_def] nl
        by (simp add: simps acl_used_insert)
    next
      case bad: False
      have "init (acl_pre a i @ x @ t) (ace_pos a i) (ucast ?k) f am sm =
          Some (STATUS_INVALID_PARAMETER, acl_pre a i @ x @ t)"
        using ir by (simp only: bad if_False)
      then show ?thesis
        using False by (simp only: bad if_False) (simp add: simps)
    qed
  qed
qed

lemma insert_correct:
  assumes "acl_at m a" and "i \<le> length (acl_aces a)" and "sid_of sm = Some s" and "sid_valid s"
    and "acl_used a + sid_ace_length s \<le> unat (acl_size a)"
    and "LW_IS_VALID_FLAGS f 0xDF" and "mask_ok am"
  shows "\<exists>m'. insert_access_ace len init m (word_of_nat (acl_used a)) (ace_cursor a i) f am (Some sm) =
        Some (STATUS_SUCCESS, m',
          word_of_nat (acl_used (acl_insert a i [ace_bytes (mk_ace ty f am s)])), Some (ace_pos a i))
      \<and> acl_at m' (acl_insert a i [ace_bytes (mk_ace ty f am s)])"
proof -
  let ?n = "ace_bytes (mk_ace ty f am s)"
  have nl: "length ?n = sid_ace_length s"
    using assms(4) length_ace_bytes[of "mk_ace ty f am s"] by (simp add: ace_length_def)
  have "unat (acl_size a) < 65536"
    using unsigned_less[of "acl_size a", where 'a = nat] by simp
  then show ?thesis
    using insert_eq[OF assms(1-4), of f am] assms(5-7) new_ace_wf[OF assms(4), of f am]
      acl_at_insert[OF assms(1), of "[?n]" i] nl by simp
qed

end

interpretation allowed: ace_initializer RtlLengthAccessAllowedAce RtlInitializeAccessAllowedAce 0
    "\<lambda>_. True"
  by unfold_locales (simp_all add: RtlLengthAce_correct RtlInitializeAce_correct(1))

interpretation denied: ace_initializer RtlLengthAccessDeniedAce RtlInitializeAccessDeniedAce 1
    "\<lambda>am. LW_IS_VALID_FLAGS am VALID_DACL_ACCESS_MASK"
  by unfold_locales (simp_all add: RtlLengthAce_correct RtlInitializeAce_correct(2))

interpretation audit: ace_initializer RtlLengthAccessDeniedAce RtlInitializeSystemAuditAce 2
    "\<lambda>am. LW_IS_VALID_FLAGS am VALID_DACL_ACCESS_MASK"
  by unfold_locales (simp_all add: RtlLengthAce_correct RtlInitializeAce_correct(3))

section \<open>Removal\<close>

lemma acl_at_pre_Suc:
  assumes "acl_at m a" and "i < length (acl_aces a)"
  shows "m = acl_pre a i @ acl_aces a ! i @ concat (drop (Suc i) (acl_aces a)) @ drop (acl_used a) m"
  using acl_at_pre[OF assms(1), of i] assms(2) by (simp add: Cons_nth_drop_Suc[symmetric])

lemma acl_used_Suc:
  "i < length (acl_aces a) \<Longrightarrow>
    acl_used a = ace_pos a i + length (acl_aces a ! i) + length (concat (drop (Suc i) (acl_aces a)))"
  using length_concat_take_drop[of "Suc i" "acl_aces a"]
  by (simp add: acl_used_def ace_pos_def ace_off_def take_Suc_conv_app_nth)

lemma acl_used_delete:
  "i < length (acl_aces a) \<Longrightarrow> acl_used (acl_delete a i) = acl_used a - length (acl_aces a ! i)"
  using acl_used_Suc[of i a] by (simp add: acl_used_def acl_delete_def ace_pos_def ace_off_def)

lemma wr16_count:
  "wr16 (acl_hdr rv sz n @ r) 4 w = Some (acl_hdr rv sz (unat w) @ r)"
  using f16.put_enc[of "enc16 (word_of_nat n)" "rv # 0 # enc16 sz" "enc16 0 @ r" w]
  by (simp add: acl_hdr_def)

lemma remove_shift:
  assumes "length pre = loc" and "length tail \<le> length x"
  shows "do { m \<leftarrow> memcpy_within (pre @ x @ tail @ rest) loc (loc + length x) (length tail);
              memset m (loc + length tail) 0 (length x) } =
    Some (pre @ tail @ replicate (length x) 0 @ rest)"
proof -
  have "rdn (pre @ x @ tail @ rest) (loc + length x) (length tail) = Some tail"
    using assms(1) by (simp add: rdn_def)
  moreover have "wrn (pre @ x @ tail @ rest) loc tail = Some (pre @ tail @ drop (length tail) (x @ tail) @ rest)"
    using assms by (simp add: wrn_def)
  moreover have "wrn ((pre @ tail) @ drop (length tail) (x @ tail) @ rest) (length (pre @ tail)) (replicate (length x) 0)
      = Some ((pre @ tail) @ replicate (length x) 0 @ rest)"
    by (rule wrn_append) simp
  ultimately show ?thesis
    using assms by (simp add: memcpy_within_def memmove_def memset_def del: drop_append)
qed

lemma RtlRemoveAce_correct:
  assumes "acl_at m a" and "i < length (acl_aces a)"
    and "length (concat (drop (Suc i) (acl_aces a))) \<le> length (acl_aces a ! i)"
  shows "\<exists>m'. RtlRemoveAce m (word_of_nat (acl_used a)) (ace_cursor a i) =
      Some (STATUS_SUCCESS, m', word_of_nat (acl_used (acl_delete a i))) \<and> acl_at m' (acl_delete a i)"
proof -
  let ?x = "acl_aces a ! i" and ?t = "concat (drop (Suc i) (acl_aces a))" and ?r = "drop (acl_used a) m"
  let ?n = "length (acl_aces a)"
  have v: "acl_valid a"
    using assms(1) by (simp add: acl_at_def)
  note wf = acl_at_entry(2)[OF assms(1,2)]
  have u: "unat (word_of_nat (acl_used a) :: USHORT) = acl_used a"
    using acl_valid_bounds(1)[OF v] by (rule unat_short)
  have lx: "unat (word_of_nat (length ?x) :: USHORT) = length ?x" "4 \<le> length ?x"
    using RtlpValidAceHeader_wf(3)[OF wf] wf by (simp_all add: ace_wf_def)
  have used: "acl_used a = ace_pos a i + length ?x + length ?t"
    using acl_used_Suc[OF assms(2)] .
  have cur: "ace_cursor a i \<noteq> 0xFFFF"
    using ace_off_lt_end(1)[OF v assms(2)] assms(2) by (simp add: ace_cursor_def)
  define m2 where "m2 = acl_hdr (acl_rev a) (acl_size a) (?n - 1) @ concat (take i (acl_aces a))
      @ ?t @ replicate (length ?x) 0 @ ?r"
  have sh: "do { m' \<leftarrow> memcpy_within m (ace_pos a i) (ace_pos a i + length ?x) (length ?t);
      memset m' (ace_pos a i + length ?t) 0 (length ?x) }
      = Some (acl_pre a i @ ?t @ replicate (length ?x) 0 @ ?r)"
    by (subst acl_at_pre_Suc[OF assms(1,2)]) (rule remove_shift[OF length_acl_pre assms(3)])
  have "unat (word_of_nat ?n - 1 :: USHORT) = ?n - 1"
    using assms(2) acl_valid_bounds(2)[OF v] by (subst unat_sub) (simp_all add: word_le_nat_alt unat_short)
  then have w: "wr16 (acl_pre a i @ y) 4 (word_of_nat ?n - 1)
      = Some (acl_hdr (acl_rev a) (acl_size a) (?n - 1) @ concat (take i (acl_aces a)) @ y)"
    and c: "acl_AceCount (acl_pre a i @ y) = Some (word_of_nat ?n)" for y
    by (simp_all add: acl_pre_def wr16_count)
  have "acl_used a - ace_pos a i - length ?x = length ?t" "acl_used a - length ?x = ace_pos a i + length ?t"
    using used by simp_all
  then have "RtlRemoveAce m (word_of_nat (acl_used a)) (ace_cursor a i) =
      Some (STATUS_SUCCESS, m2, word_of_nat (acl_used a) - word_of_nat (length ?x))"
    using sh w c cur RtlpGetAceLocationFromOffset_cursor[OF assms(1), of i] assms(2) u lx used
      acl_at_ace_size[OF assms(1,2)]
    by (auto simp: RtlRemoveAce_def RtlpRemoveAceFromLocation_def Let_def m2_def bind_eq_Some_conv)
  moreover have "(word_of_nat (acl_used a) - word_of_nat (length ?x) :: USHORT) = word_of_nat (acl_used (acl_delete a i))"
    using used by (simp add: acl_used_delete[OF assms(2)])
  moreover have "acl_at m2 (acl_delete a i)"
  proof -
    have "?n - 1 = length (acl_aces (acl_delete a i))"
      using assms(2) by (simp add: acl_delete_def)
    then have m2: "m2 = acl_bytes (acl_delete a i) @ replicate (length ?x) 0 @ ?r"
      unfolding m2_def acl_bytes_def by (simp add: acl_delete_def)
    have "acl_valid (acl_delete a i)"
      using v acl_used_delete[OF assms(2)]
      by (auto simp: acl_valid_def acl_delete_def dest: in_set_takeD in_set_dropD)
    moreover have "length (acl_bytes (acl_delete a i)) = acl_used (acl_delete a i)"
      by (simp add: acl_bytes_def acl_used_def)
    ultimately show ?thesis
      unfolding m2 using assms(1) used acl_used_delete[OF assms(2)]
      by (intro acl_at_append) (auto simp: acl_at_def acl_delete_def)
  qed
  ultimately show ?thesis
    by simp
qed

text \<open>The source uses \<^verbatim>\<open>memcpy\<close> to close the gap, which is undefined when the rest of the list is
  longer than the removed entry.\<close>

lemma RtlRemoveAce_overlap:
  assumes "acl_at m a" and "i < length (acl_aces a)"
    and "length (acl_aces a ! i) < length (concat (drop (Suc i) (acl_aces a)))"
  shows "RtlRemoveAce m (word_of_nat (acl_used a)) (ace_cursor a i) = None"
proof -
  have v: "acl_valid a"
    using assms(1) by (simp add: acl_at_def)
  note wf = acl_at_entry(2)[OF assms(1,2)]
  have u: "unat (word_of_nat (acl_used a) :: USHORT) = acl_used a"
    using acl_valid_bounds(1)[OF v] by (rule unat_short)
  have lx: "unat (word_of_nat (length (acl_aces a ! i)) :: USHORT) = length (acl_aces a ! i)"
    "4 \<le> length (acl_aces a ! i)"
    using RtlpValidAceHeader_wf(3)[OF wf] wf by (simp_all add: ace_wf_def)
  have cur: "ace_cursor a i \<noteq> 0xFFFF"
    using ace_off_lt_end(1)[OF v assms(2)] assms(2) by (simp add: ace_cursor_def)
  have "ace_pos a i + length (acl_aces a ! i) \<le> acl_used a"
    "length (acl_aces a ! i) < acl_used a - (ace_pos a i + length (acl_aces a ! i))"
    using acl_used_Suc[OF assms(2)] assms(3) by simp_all
  then have "memcpy_within m (ace_pos a i) (ace_pos a i + length (acl_aces a ! i))
      (acl_used a - (ace_pos a i + length (acl_aces a ! i))) = None"
    using lx(2) by (intro memcpy_within_overlap) auto
  then show ?thesis
    using \<open>ace_pos a i + length (acl_aces a ! i) \<le> acl_used a\<close> cur RtlpGetAceLocationFromOffset_cursor[OF assms(1), of i] assms(2) u lx
      acl_at_ace_size[OF assms(1,2)]
    by (simp add: RtlRemoveAce_def RtlpRemoveAceFromLocation_def Let_def)
qed

section \<open>Initialisation and offset validation\<close>

lemma RtlInitializeAcl_correct:
  assumes "unat len \<le> length m"
  shows "if len' \<noteq> 2 \<and> len' \<noteq> 4 \<or> 65535 < unat len
      then RtlInitializeAcl m len len' = Some (STATUS_INVALID_PARAMETER, m, 8)
    else if unat len < 8 then RtlInitializeAcl m len len' = Some (STATUS_BUFFER_TOO_SMALL, m, 8)
    else \<exists>m'. RtlInitializeAcl m len len' = Some (STATUS_SUCCESS, m', 8)
      \<and> acl_at m' \<lparr> acl_rev = ucast len', acl_size = ucast len, acl_aces = [] \<rparr>"
proof (cases "(len' = 2 \<or> len' = 4) \<and> 8 \<le> unat len \<and> unat len \<le> 65535")
  case True
  let ?a = "\<lparr> acl_rev = ucast len', acl_size = ucast len, acl_aces = [] \<rparr>"
  obtain b0 b1 b2 b3 b4 b5 b6 b7 m' where m: "m = [b0, b1, b2, b3, b4, b5, b6, b7] @ m'"
    using True assms by (cases m; cases "tl m"; cases "tl (tl m)"; cases "tl (tl (tl m))";
        cases "tl (tl (tl (tl m)))"; cases "tl (tl (tl (tl (tl m))))";
        cases "tl (tl (tl (tl (tl (tl m)))))"; cases "tl (tl (tl (tl (tl (tl (tl m))))))") auto
  have w: "wr16 (x # y # zs) 0 w = Some (enc16 w @ zs)" for x y w and zs :: mem
    using f16.put_enc[of "[x, y]" "[]" zs w] by simp
  have "wrn m' 0 (replicate (unat len - 8) 0) = Some (replicate (unat len - 8) 0 @ drop (unat len - 8) m')"
    using assms m by (simp add: wrn_def)
  then have "RtlInitializeAcl m len len' =
      Some (STATUS_SUCCESS, acl_bytes ?a @ replicate (unat len - 8) 0 @ drop (unat len - 8) m', 8)"
    using True by (simp add: RtlInitializeAcl_def m w memset_def acl_bytes_def acl_hdr_def enc16_def)
  moreover have "unat (ucast len :: USHORT) = unat len"
    using True by (simp add: unsigned_ucast_eq take_bit_nat_eq_self)
  moreover have "(ucast len' :: UCHAR) = 2 \<or> (ucast len' :: UCHAR) = 4"
    using True by auto
  ultimately have "acl_at (acl_bytes ?a @ replicate (unat len - 8) 0 @ drop (unat len - 8) m') ?a"
    using True assms m by (intro acl_at_append) (simp_all add: acl_valid_def acl_used_def acl_bytes_def)
  then show ?thesis
    using True \<open>RtlInitializeAcl m len len' = _\<close> by auto
next
  case False
  then show ?thesis
    by (auto simp: RtlInitializeAcl_def)
qed

lemma valid_offset_loop_correct:
  assumes "acl_at m a" and "i + n = length (acl_aces a)"
  shows "valid_offset_loop m (acl_size a) off (word_of_nat (ace_pos a i)) n =
    Some (\<exists>j. i \<le> j \<and> j < length (acl_aces a) \<and> unat off = ace_off a j)"
  using assms(2)
proof (induction n arbitrary: i)
  case (Suc n)
  have v: "acl_valid a"
    using assms(1) by (simp add: acl_at_def)
  from Suc.prems have i: "i < length (acl_aces a)"
    by simp
  note wf = acl_at_entry(2)[OF assms(1) i]
  have o1: "\<not> (word_of_nat (ace_pos a (Suc i)) :: USHORT) < word_of_nat (length (acl_aces a ! i))"
    using ace_pos_unat(1)[OF v, of "Suc i"] RtlpValidAceHeader_wf(3)[OF wf] ace_pos_Suc[OF i]
    by (simp only: word_less_nat_alt)
  have o2: "\<not> (word_of_nat (ace_pos a (Suc i)) :: USHORT) > acl_size a"
    using ace_pos_unat(1)[OF v, of "Suc i"] ace_pos_le[of a "Suc i"] v
    by (simp only: word_less_nat_alt) (simp add: acl_valid_def)
  have hit: "int (unat off) = int (ace_pos a i) - 8 \<longleftrightarrow> unat off = ace_off a i"
    unfolding ace_pos_def by linarith
  have "(\<exists>j. i \<le> j \<and> j < length (acl_aces a) \<and> unat off = ace_off a j) \<longleftrightarrow>
      unat off = ace_off a i \<or> (\<exists>j. Suc i \<le> j \<and> j < length (acl_aces a) \<and> unat off = ace_off a j)"
    using i by (metis Suc_leD Suc_le_eq le_neq_implies_less order_refl)
  then show ?case
    using hit acl_at_entry(1)[OF assms(1) i] Suc.IH[of "Suc i"] Suc.prems ace_pos_unat(1)[OF v, of i]
      RtlpValidAceHeader_wf(2)[OF wf] ace_pos_step[OF i] o1 o2
    by (simp only: valid_offset_loop.simps) (simp add: Let_def)
qed simp

lemma RtlValidAceOffset_correct:
  assumes "acl_at m a"
  shows "RtlValidAceOffset (Some m) off = Some (\<exists>j < length (acl_aces a). unat off = ace_off a j)"
proof -
  have "length (acl_aces a) < 65536"
    using acl_valid_bounds(2)[of a] assms by (simp add: acl_at_def)
  then show ?thesis
    using valid_offset_loop_correct[OF assms, of 0 "length (acl_aces a)" off] acl_at_fields[OF assms]
    by (simp add: RtlValidAceOffset_def unat_short)
qed

section \<open>Properties\<close>

text \<open>A list with one entry, full access for everyone, in a block with room for one more entry.\<close>

definition sample_ace :: mem where
  "sample_ace = [0,0,20,0, 255,1,31,0, 1,1,0,0,0,0,0,1,0,0,0,0]"

definition sample_acl :: ACL where
  "sample_acl = \<lparr> acl_rev = 2, acl_size = 48, acl_aces = [sample_ace] \<rparr>"

definition sample_block :: mem where
  "sample_block = [2,0,48,0,1,0,0,0] @ sample_ace @ replicate 20 0"

lemma sample_ace_wf: "ace_wf sample_ace"
  by (simp add: sample_ace_def ace_wf_def ace_AceSize_def LW_IS_VALID_FLAGS_def byte_eval)

lemma sample_acl_used: "acl_used sample_acl = 28"
  by (simp add: acl_used_def sample_acl_def sample_ace_def)

lemma sample_acl_at: "acl_at sample_block sample_acl"
proof -
  have "acl_valid sample_acl"
    using sample_acl_used sample_ace_wf by (simp add: acl_valid_def) (simp add: sample_acl_def)
  moreover have "sample_block = acl_bytes sample_acl @ replicate 20 0"
    by (simp add: sample_block_def sample_acl_def acl_bytes_def acl_hdr_def enc16_def)
  moreover have "unat (acl_size sample_acl) \<le> length sample_block"
    by (simp add: sample_block_def sample_ace_def sample_acl_def)
  ultimately show ?thesis
    using acl_at_append[of sample_acl "replicate 20 0"] by simp
qed

text \<open>C9. The validator of access control lists is exact: on a block as long as its size field says it accepts
  exactly when the block holds a well-formed list, and then the size it reports is the size that list uses.\<close>

theorem valid_acl_exact:
  assumes "acl_AclSize m = Some sz" and "unat sz \<le> length m"
  shows "RtlValidAcl (Some m) = Some (True, u) \<longleftrightarrow>
    (\<exists>a. acl_at m a \<and> acl_size a = sz \<and> u = word_of_nat (acl_used a))"
proof
  assume a: "RtlValidAcl (Some m) = Some (True, u)"
  from RtlValidAcl_sound[OF this assms] obtain a where "acl_at m a" "acl_size a = sz" "unat u = acl_used a"
    by blast
  moreover from this(3) have "u = word_of_nat (acl_used a)"
    by (metis of_nat_unat ucast_id)
  ultimately show "\<exists>a. acl_at m a \<and> acl_size a = sz \<and> u = word_of_nat (acl_used a)"
    by blast
qed (use RtlValidAcl_complete in auto)

theorem valid_acl_exact_witness: "RtlValidAcl (Some sample_block) = Some (True, 28)"
proof -
  have "acl_AclSize sample_block = Some 48" "unat (48 :: USHORT) \<le> length sample_block"
    by (simp_all add: sample_block_def sample_ace_def acl_AclSize_def byte_eval)
  moreover have "acl_size sample_acl = 48"
    by (simp add: sample_acl_def)
  ultimately show ?thesis
    using valid_acl_exact[of sample_block 48 28] sample_acl_at sample_acl_used by auto
qed

text \<open>C20. Insertion at an offset refines insertion in the abstract list of entries: it puts the entry before the
  entry at the offset and keeps the list well formed, or refuses and leaves the block unchanged when there is no
  room.\<close>

theorem insert_ace_refines:
  assumes "acl_at m a" and "i \<le> length (acl_aces a)" and "ace_wf ace" and "acl_used a + length ace \<le> 65535"
  shows "if unat (acl_size a) < acl_used a + length ace
    then RtlInsertAce m (word_of_nat (acl_used a)) (ace_cursor a i) (Some (ace @ r)) =
      Some (STATUS_BUFFER_TOO_SMALL, m, word_of_nat (acl_used a))
    else \<exists>m'. RtlInsertAce m (word_of_nat (acl_used a)) (ace_cursor a i) (Some (ace @ r)) =
      Some (STATUS_SUCCESS, m', word_of_nat (acl_used (acl_insert a i [ace]))) \<and> acl_at m' (acl_insert a i [ace])"
  using assms by (rule RtlInsertAce_correct)

theorem insert_ace_refines_witness:
  "\<exists>m'. RtlInsertAce sample_block 28 0 (Some sample_ace) =
      Some (STATUS_SUCCESS, m', word_of_nat (acl_used (acl_insert sample_acl 0 [sample_ace])))
    \<and> acl_at m' (acl_insert sample_acl 0 [sample_ace])"
proof -
  have "ace_cursor sample_acl 0 = 0" "acl_size sample_acl = 48" "length sample_ace = 20"
    by (simp_all add: ace_cursor_def ace_off_def sample_acl_def sample_ace_def)
  then show ?thesis
    using insert_ace_refines[OF sample_acl_at le0 sample_ace_wf, of "[]"] sample_acl_used by simp
qed

text \<open>C24. Removal refines removal from the abstract list when the entries after the removed one fit into its place;
  when they do not, the copy in the source has overlapping operands, which the C standard leaves undefined.\<close>

theorem remove_ace_refines:
  assumes "acl_at m a" and "i < length (acl_aces a)"
  shows "if length (concat (drop (Suc i) (acl_aces a))) \<le> length (acl_aces a ! i)
    then \<exists>m'. RtlRemoveAce m (word_of_nat (acl_used a)) (ace_cursor a i) =
      Some (STATUS_SUCCESS, m', word_of_nat (acl_used (acl_delete a i))) \<and> acl_at m' (acl_delete a i)
    else RtlRemoveAce m (word_of_nat (acl_used a)) (ace_cursor a i) = None"
  using RtlRemoveAce_correct[OF assms] RtlRemoveAce_overlap[OF assms] by auto

theorem remove_ace_refines_witness:
  "\<exists>m'. RtlRemoveAce sample_block 28 0 =
      Some (STATUS_SUCCESS, m', word_of_nat (acl_used (acl_delete sample_acl 0))) \<and> acl_at m' (acl_delete sample_acl 0)"
proof -
  have "ace_cursor sample_acl 0 = 0" "acl_aces sample_acl = [sample_ace]"
    by (simp_all add: ace_cursor_def ace_off_def sample_acl_def)
  then show ?thesis
    using remove_ace_refines[OF sample_acl_at, of 0] sample_acl_used by simp
qed

text \<open>C25. The iterator visits every entry once, in order, and then ends: from the offset of an entry it returns the
  place of that entry and the offset of the next, and after the last one it reports that there are no more.\<close>

theorem iterate_ace_visits:
  assumes "acl_at m a" and "i < length (acl_aces a)"
  shows "RtlIterateAce m (word_of_nat (acl_used a)) (ace_cursor a i) =
      Some (STATUS_SUCCESS, ace_cursor a (Suc i), Some (ace_pos a i))
    \<and> take (length (acl_aces a ! i)) (drop (ace_pos a i) m) = acl_aces a ! i
    \<and> RtlIterateAce m (word_of_nat (acl_used a)) (ace_cursor a (length (acl_aces a))) =
      Some (STATUS_NO_MORE_ENTRIES, ACL_END_ACE_OFFSET, None)"
  using RtlIterateAce_step[OF assms] RtlIterateAce_stop[OF assms(1)] acl_at_drop[OF assms(1), of i] assms(2)
  by (simp flip: Cons_nth_drop_Suc)

theorem iterate_ace_visits_witness:
  "RtlIterateAce sample_block 28 0 = Some (STATUS_SUCCESS, ACL_END_ACE_OFFSET, Some 8)
    \<and> RtlIterateAce sample_block 28 ACL_END_ACE_OFFSET = Some (STATUS_NO_MORE_ENTRIES, ACL_END_ACE_OFFSET, None)"
proof -
  have "ace_cursor sample_acl 0 = 0" "ace_cursor sample_acl (Suc 0) = ACL_END_ACE_OFFSET" "ace_pos sample_acl 0 = 8"
    "length (acl_aces sample_acl) = 1"
    by (simp_all add: ace_cursor_def ace_off_def ace_pos_def sample_acl_def)
  then show ?thesis
    using iterate_ace_visits[OF sample_acl_at, of 0] sample_acl_used by simp
qed

end
