(* ===== verification/Security_Acl_Codec.thy ===== *)
theory Security_Acl_Codec
  imports Security_Acl
begin

text \<open>
  The little-endian form of an access control list (\<^verbatim>\<open>RtlpIsValidLittleEndianAclBuffer\<close>,
  \<^verbatim>\<open>RtlpEncodeLittleEndianAcl\<close> and \<^verbatim>\<open>RtlpDecodeLittleEndianAcl\<close> of \<^verbatim>\<open>security-acl.c\<close>) on a
  little-endian host, where the \<^verbatim>\<open>LW_HTOL\<close> and \<^verbatim>\<open>LW_LTOH\<close> macros of \<^verbatim>\<open>swab.h\<close> are the identity.
\<close>

section \<open>Operations\<close>

definition LW_SWAB16 :: "USHORT \<Rightarrow> USHORT" where
  "LW_SWAB16 v = drop_bit 8 (v AND 0xFF00) OR push_bit 8 (v AND 0x00FF)"

definition LW_SWAB32 :: "ULONG \<Rightarrow> ULONG" where
  "LW_SWAB32 v = drop_bit 24 (v AND 0xFF000000) OR drop_bit 8 (v AND 0x00FF0000)
     OR push_bit 8 (v AND 0x0000FF00) OR push_bit 24 (v AND 0x000000FF)"

text \<open>The two local structures of the validator, filled from the buffer field by field, are
  handed to \<^verbatim>\<open>RtlpVerifyAceEx\<close>.\<close>

definition verify_std_copy :: "mem \<Rightarrow> byte list \<Rightarrow> NTSTATUS option" where
  "verify_std_copy ace aceHeader = do {
     mask \<leftarrow> ace_Mask ace;
     SidStart \<leftarrow> rdn ace 8 4;
     RtlpVerifyAceEx (Some (aceHeader @ enc32 mask @ SidStart)) True
   }"

definition verify_object_copy :: "mem \<Rightarrow> byte list \<Rightarrow> NTSTATUS option" where
  "verify_object_copy ace aceHeader = do {
     mask \<leftarrow> ace_Mask ace;
     flags \<leftarrow> ace_ObjectFlags ace;
     SidStart \<leftarrow> rdn ace 44 4;
     ObjectType \<leftarrow> rdn ace 12 16;
     InheritedObjectType \<leftarrow> rdn ace 28 16;
     RtlpVerifyAceEx (Some (aceHeader @ enc32 mask @ enc32 flags @ ObjectType @ InheritedObjectType @ SidStart)) True
   }"

fun le_acl_loop :: "mem \<Rightarrow> USHORT \<Rightarrow> ULONG \<Rightarrow> nat \<Rightarrow> NTSTATUS option" where
  "le_acl_loop Buffer AclSize offset 0 = Some STATUS_SUCCESS"
| "le_acl_loop Buffer AclSize offset (Suc n) = do {
     ace \<leftarrow> ptr_add Buffer (unat offset);
     aceHeader \<leftarrow> rdn ace 0 4;
     h \<leftarrow> RtlpValidAceHeader (Some aceHeader);
     sz \<leftarrow> ace_AceSize aceHeader;
     t \<leftarrow> ace_AceType aceHeader;
     if \<not> h then Some STATUS_INVALID_ACL
     else if \<not> RtlpIsBufferAvailable (ucast AclSize) offset (ucast sz) then Some STATUS_INVALID_ACL
     else do {
       status \<leftarrow>
         (if t = ACCESS_ALLOWED_ACE_TYPE \<or> t = ACCESS_DENIED_ACE_TYPE \<or> t = SYSTEM_AUDIT_ACE_TYPE
          then verify_std_copy ace aceHeader
          else if t = ACCESS_ALLOWED_OBJECT_ACE_TYPE \<or> t = ACCESS_DENIED_OBJECT_ACE_TYPE
            \<or> t = SYSTEM_AUDIT_OBJECT_ACE_TYPE
          then verify_object_copy ace aceHeader
          else Some STATUS_INVALID_ACL);
       if status \<noteq> STATUS_SUCCESS then Some status
       else le_acl_loop Buffer AclSize (offset + ucast sz) n
     }
   }"

definition RtlpIsValidLittleEndianAclBuffer :: "mem \<Rightarrow> ULONG \<Rightarrow> (bool \<times> ULONG) option" where
  "RtlpIsValidLittleEndianAclBuffer Buffer BufferSize =
    (if unat BufferSize < 8 then Some (False, 0)
     else do {
       aclHeader \<leftarrow> rdn Buffer 0 8;
       h \<leftarrow> RtlpValidAclHeader (Some aclHeader);
       AclSize \<leftarrow> acl_AclSize aclHeader;
       AceCount \<leftarrow> acl_AceCount aclHeader;
       if \<not> h then Some (False, 0)
       else if \<not> RtlpIsBufferAvailable BufferSize 0 (ucast AclSize) then Some (False, 0)
       else do {
         status \<leftarrow> le_acl_loop Buffer AclSize 8 (unat AceCount);
         Some (NT_SUCCESS status, if NT_SUCCESS status then ucast AclSize else 0)
       }
     })"

text \<open>A function applied to the rest of a block, from an offset on.\<close>

definition at_offset :: "mem \<Rightarrow> nat \<Rightarrow> (mem \<Rightarrow> ('a \<times> mem) option) \<Rightarrow> ('a \<times> mem) option" where
  "at_offset m off f = do { p \<leftarrow> ptr_add m off; (x, p') \<leftarrow> f p; Some (x, take off m @ p') }"

text \<open>The header of an entry, converted field by field.\<close>

definition copy_ace_header :: "mem \<Rightarrow> mem \<Rightarrow> (UCHAR \<times> mem) option" where
  "copy_ace_header src dst = do {
     t \<leftarrow> ace_AceType src;
     dst \<leftarrow> wr8 dst 0 t;
     f \<leftarrow> ace_AceFlags src;
     dst \<leftarrow> wr8 dst 1 f;
     sz \<leftarrow> ace_AceSize src;
     dst \<leftarrow> wr16 dst 2 sz;
     Some (t, dst)
   }"

text \<open>One round of the encoder's loop on the two entries: its status and the written entry.\<close>

definition encode_ace :: "mem \<Rightarrow> mem \<Rightarrow> (NTSTATUS \<times> mem) option" where
  "encode_ace ace dst = do {
     (t, dst) \<leftarrow> copy_ace_header ace dst;
     if t = ACCESS_ALLOWED_ACE_TYPE \<or> t = ACCESS_DENIED_ACE_TYPE \<or> t = SYSTEM_AUDIT_ACE_TYPE
     then do {
       mask \<leftarrow> ace_Mask ace;
       dst \<leftarrow> wr32 dst 4 mask;
       sid \<leftarrow> ptr_add ace 8;
       sz \<leftarrow> ace_AceSize ace;
       (status, dst) \<leftarrow> at_offset dst 8 (\<lambda>p. do {
         (status, p, _) \<leftarrow> RtlpEncodeLittleEndianSid sid p (ucast sz - 4);
         Some (status, p)
       });
       Some (if \<not> NT_SUCCESS status then STATUS_ASSERTION_FAILURE else status, dst)
     }
     else Some (STATUS_INVALID_ACL, dst)
   }"

fun encode_ace_loop :: "mem \<Rightarrow> mem \<Rightarrow> ULONG \<Rightarrow> nat \<Rightarrow> (NTSTATUS \<times> mem \<times> ULONG) option" where
  "encode_ace_loop Acl Buffer offset 0 = Some (STATUS_SUCCESS, Buffer, offset)"
| "encode_ace_loop Acl Buffer offset (Suc n) = do {
     ace \<leftarrow> ptr_add Acl (unat offset);
     (status, Buffer) \<leftarrow> at_offset Buffer (unat offset) (encode_ace ace);
     if status \<noteq> STATUS_SUCCESS then Some (status, Buffer, offset)
     else do {
       sz \<leftarrow> ace_AceSize ace;
       encode_ace_loop Acl Buffer (offset + ucast sz) n
     }
   }"

definition RtlpEncodeLittleEndianAcl :: "mem \<Rightarrow> mem \<Rightarrow> ULONG \<Rightarrow> (NTSTATUS \<times> mem \<times> ULONG) option" where
  "RtlpEncodeLittleEndianAcl Acl Buffer BufferSize = do {
     (v, size) \<leftarrow> RtlValidAcl (Some Acl);
     if \<not> v then Some (STATUS_INVALID_ACL, Buffer, 0)
     else if BufferSize < ucast size then Some (STATUS_BUFFER_TOO_SMALL, Buffer, 0)
     else do {
       rv \<leftarrow> acl_AclRevision Acl;
       b \<leftarrow> wr8 Buffer 0 rv;
       s1 \<leftarrow> acl_Sbz1 Acl;
       b \<leftarrow> wr8 b 1 s1;
       b \<leftarrow> wr16 b 2 size;
       n \<leftarrow> acl_AceCount Acl;
       b \<leftarrow> wr16 b 4 n;
       s2 \<leftarrow> acl_Sbz2 Acl;
       b \<leftarrow> wr16 b 6 s2;
       (status, b, offset) \<leftarrow> encode_ace_loop Acl b 8 (unat n);
       if status \<noteq> STATUS_SUCCESS then Some (status, b, 0)
       else if offset \<noteq> ucast size then Some (STATUS_ASSERTION_FAILURE, b, 0)
       else Some (STATUS_SUCCESS, b, ucast size)
     }
   }"

text \<open>The GUID conversion of the decoder: the first three fields swapped, the last copied.\<close>

definition decode_guid :: "mem \<Rightarrow> mem \<Rightarrow> nat \<Rightarrow> mem option" where
  "decode_guid src dst off = do {
     d1 \<leftarrow> rd32 src off;
     dst \<leftarrow> wr32 dst off (LW_SWAB32 d1);
     d2 \<leftarrow> rd16 src (off + 4);
     dst \<leftarrow> wr16 dst (off + 4) (LW_SWAB16 d2);
     d3 \<leftarrow> rd16 src (off + 6);
     dst \<leftarrow> wr16 dst (off + 6) (LW_SWAB16 d3);
     memcpy dst (off + 8) src (off + 8) 8
   }"

definition decode_sid_at :: "mem \<Rightarrow> mem \<Rightarrow> nat \<Rightarrow> mem option" where
  "decode_sid_at src dst off = do {
     p \<leftarrow> ptr_add src off;
     (_, dst) \<leftarrow> at_offset dst off (\<lambda>q. do { q \<leftarrow> RtlpDecodeLittleEndianSid p q; Some ((), q) });
     Some dst
   }"

text \<open>One round of the decoder's loop, on the two entries: the rest of an object entry, and the whole
  round with its status and the written entry.\<close>

definition decode_object_ace :: "mem \<Rightarrow> mem \<Rightarrow> mem option" where
  "decode_object_ace src dst = do {
     flags \<leftarrow> ace_ObjectFlags src;
     dst \<leftarrow> wr32 dst 8 flags;
     if flags = 0 then decode_sid_at src dst 12
     else if flags = ACE_OBJECT_TYPE_PRESENT \<or> flags = ACE_INHERITED_OBJECT_TYPE_PRESENT
     then do { dst \<leftarrow> decode_guid src dst 12; decode_sid_at src dst 28 }
     else do {
       dst \<leftarrow> decode_guid src dst 12;
       dst \<leftarrow> decode_guid src dst 28;
       decode_sid_at src dst 44
     }
   }"

definition decode_ace :: "mem \<Rightarrow> mem \<Rightarrow> (NTSTATUS \<times> mem) option" where
  "decode_ace src dst = do {
     (t, dst) \<leftarrow> copy_ace_header src dst;
     if t = ACCESS_ALLOWED_ACE_TYPE \<or> t = ACCESS_DENIED_ACE_TYPE \<or> t = SYSTEM_AUDIT_ACE_TYPE
     then do {
       mask \<leftarrow> ace_Mask src;
       dst \<leftarrow> wr32 dst 4 mask;
       dst \<leftarrow> decode_sid_at src dst 8;
       Some (STATUS_SUCCESS, dst)
     }
     else if t = ACCESS_ALLOWED_OBJECT_ACE_TYPE \<or> t = ACCESS_DENIED_OBJECT_ACE_TYPE
       \<or> t = SYSTEM_AUDIT_OBJECT_ACE_TYPE
     then do {
       mask \<leftarrow> ace_Mask src;
       dst \<leftarrow> wr32 dst 4 mask;
       dst \<leftarrow> decode_object_ace src dst;
       Some (STATUS_SUCCESS, dst)
     }
     else Some (STATUS_INVALID_ACL, dst)
   }"

fun decode_ace_loop :: "mem \<Rightarrow> mem \<Rightarrow> ULONG \<Rightarrow> nat \<Rightarrow> (NTSTATUS \<times> mem) option" where
  "decode_ace_loop LittleEndianAcl Acl offset 0 = Some (STATUS_SUCCESS, Acl)"
| "decode_ace_loop LittleEndianAcl Acl offset (Suc n) = do {
     src \<leftarrow> ptr_add LittleEndianAcl (unat offset);
     (status, Acl) \<leftarrow> at_offset Acl (unat offset) (decode_ace src);
     if status \<noteq> STATUS_SUCCESS then Some (status, Acl)
     else do {
       sz \<leftarrow> rd16 Acl (unat offset + 2);
       decode_ace_loop LittleEndianAcl Acl (offset + ucast sz) n
     }
   }"

definition RtlpDecodeLittleEndianAcl :: "mem \<Rightarrow> mem \<Rightarrow> (NTSTATUS \<times> mem) option" where
  "RtlpDecodeLittleEndianAcl LittleEndianAcl Acl = do {
     rv \<leftarrow> acl_AclRevision LittleEndianAcl;
     m \<leftarrow> wr8 Acl 0 rv;
     s1 \<leftarrow> acl_Sbz1 LittleEndianAcl;
     m \<leftarrow> wr8 m 1 s1;
     sz \<leftarrow> acl_AclSize LittleEndianAcl;
     m \<leftarrow> wr16 m 2 sz;
     n \<leftarrow> acl_AceCount LittleEndianAcl;
     m \<leftarrow> wr16 m 4 n;
     s2 \<leftarrow> acl_Sbz2 LittleEndianAcl;
     m \<leftarrow> wr16 m 6 s2;
     decode_ace_loop LittleEndianAcl m 8 (unat n)
   }"

section \<open>Byte order\<close>

lemma swab_masks:
  "(0xFF000000 :: ULONG) = push_bit 24 (mask 8)" "(0x00FF0000 :: ULONG) = push_bit 16 (mask 8)"
  "(0x0000FF00 :: ULONG) = push_bit 8 (mask 8)" "(0x000000FF :: ULONG) = mask 8"
  "(0xFF00 :: USHORT) = push_bit 8 (mask 8)" "(0x00FF :: USHORT) = mask 8"
  by (simp_all add: mask_eq_exp_minus_1 push_bit_eq_mult)

lemma enc16_swab: "enc16 (LW_SWAB16 w) = rev (enc16 w)"
  unfolding enc16_def LW_SWAB16_def swab_masks
  by (auto intro!: bit_word_eqI simp: bit_simps dest: bit_imp_le_length)

lemma enc32_swab: "enc32 (LW_SWAB32 w) = rev (enc32 w)"
  unfolding enc32_def LW_SWAB32_def swab_masks
  by (auto intro!: bit_word_eqI simp: bit_simps dest: bit_imp_le_length)

section \<open>Entries\<close>

definition object_ace_type :: "UCHAR \<Rightarrow> bool" where
  "object_ace_type t \<longleftrightarrow> t = ACCESS_ALLOWED_OBJECT_ACE_TYPE \<or> t = ACCESS_DENIED_OBJECT_ACE_TYPE
     \<or> t = SYSTEM_AUDIT_OBJECT_ACE_TYPE"

text \<open>Where the identifier of an entry starts.\<close>

definition ace_sid_offset :: "mem \<Rightarrow> nat" where
  "ace_sid_offset ace =
    (if std_ace_type (ace ! 0) then 8
     else if dec32 (take 4 (drop 8 ace)) = 0 then 12
     else if dec32 (take 4 (drop 8 ace)) = 1 \<or> dec32 (take 4 (drop 8 ace)) = 2 then 28
     else 44)"

text \<open>The entries the validator accepts: a known type, and an identifier that ends the entry.\<close>

definition le_entry :: "mem \<Rightarrow> bool" where
  "le_entry ace \<longleftrightarrow> ace_wf ace \<and> (std_ace_type (ace ! 0) \<or> object_ace_type (ace ! 0))
     \<and> ace_sid_offset ace \<le> length ace
     \<and> (case sid_of (drop (ace_sid_offset ace) ace) of
          None \<Rightarrow> False
        | Some s \<Rightarrow> sid_valid s \<and> length ace = ace_sid_offset ace + sid_length s)"

definition swap_guid :: "byte list \<Rightarrow> byte list" where
  "swap_guid g = rev (take 4 g) @ rev (take 2 (drop 4 g)) @ rev (take 2 (drop 6 g)) @ drop 8 g"

text \<open>An entry with the fields of its GUIDs in the other byte order.\<close>

definition swap_guids :: "mem \<Rightarrow> mem" where
  "swap_guids ace =
    (let k = ace_sid_offset ace in
     if std_ace_type (ace ! 0) \<or> k = 12 then ace
     else if k = 28 then take 12 ace @ swap_guid (take 16 (drop 12 ace)) @ drop 28 ace
     else take 12 ace @ swap_guid (take 16 (drop 12 ace)) @ swap_guid (take 16 (drop 28 ace)) @ drop 44 ace)"

lemma wrn_prefix:
  "length X = off \<Longrightarrow> off + length bs \<le> length d \<Longrightarrow>
    wrn (X @ drop off d) off bs = Some ((X @ bs) @ drop (off + length bs) d)"
  by (simp add: wrn_def ac_simps)

lemma wr_prefix:
  "length X = off \<Longrightarrow> off + 1 \<le> length d \<Longrightarrow> wr8 (X @ drop off d) off b = Some ((X @ [b]) @ drop (off + 1) d)"
  "length X = off \<Longrightarrow> off + 2 \<le> length d \<Longrightarrow> wr16 (X @ drop off d) off h = Some ((X @ enc16 h) @ drop (off + 2) d)"
  "length X = off \<Longrightarrow> off + 4 \<le> length d \<Longrightarrow> wr32 (X @ drop off d) off w = Some ((X @ enc32 w) @ drop (off + 4) d)"
  using wrn_prefix[of X off "[b]" d] wrn_prefix[of X off "enc16 h" d] wrn_prefix[of X off "enc32 w" d]
  by (simp_all add: wr8_def wr16_def wr32_def enc8_def)

lemma enc_rd:
  "off + 2 \<le> length m \<Longrightarrow> \<exists>h. rd16 m off = Some h \<and> enc16 h = take 2 (drop off m)"
  "off + 4 \<le> length m \<Longrightarrow> \<exists>w. rd32 m off = Some w \<and> enc32 w = take 4 (drop off m)"
  using f16.get_Some[of m off] f16.get_defined[of m off] f32.get_Some[of m off] f32.get_defined[of m off]
  by metis+

lemma length_swap_guid: "length g = 16 \<Longrightarrow> length (swap_guid g) = 16"
  by (simp add: swap_guid_def)

lemma decode_guid_prefix:
  assumes "length X = off" and "off + 16 \<le> length d" and "off + 16 \<le> length src"
  shows "decode_guid src (X @ drop off d) off =
    Some ((X @ swap_guid (take 16 (drop off src))) @ drop (off + 16) d)"
proof -
  obtain w h1 h2 where w: "rd32 src off = Some w" "enc32 w = take 4 (drop off src)"
    and h1: "rd16 src (off + 4) = Some h1" "enc16 h1 = take 2 (drop (off + 4) src)"
    and h2: "rd16 src (off + 6) = Some h2" "enc16 h2 = take 2 (drop (off + 6) src)"
    using enc_rd[of "off + 4" src] enc_rd[of "off + 6" src] enc_rd[of off src] assms(3) by auto
  let ?X1 = "X @ enc32 (LW_SWAB32 w)" and ?X2 = "X @ enc32 (LW_SWAB32 w) @ enc16 (LW_SWAB16 h1)"
  let ?X3 = "X @ enc32 (LW_SWAB32 w) @ enc16 (LW_SWAB16 h1) @ enc16 (LW_SWAB16 h2)"
  have "wr32 (X @ drop off d) off (LW_SWAB32 w) = Some (?X1 @ drop (off + 4) d)"
    using wr_prefix(3)[OF assms(1), of d] assms by simp
  moreover have "wr16 (?X1 @ drop (off + 4) d) (off + 4) (LW_SWAB16 h1) = Some (?X2 @ drop (off + 6) d)"
    using wr_prefix(2)[of ?X1 "off + 4" d] assms by (simp add: add.commute)
  moreover have "wr16 (?X2 @ drop (off + 6) d) (off + 6) (LW_SWAB16 h2) = Some (?X3 @ drop (off + 8) d)"
    using wr_prefix(2)[of ?X2 "off + 6" d] assms by (simp add: add.commute)
  moreover have "memcpy (?X3 @ drop (off + 8) d) (off + 8) src (off + 8) 8
      = Some ((?X3 @ take 8 (drop (off + 8) src)) @ drop (off + 16) d)"
    using wrn_prefix[of ?X3 "off + 8" "take 8 (drop (off + 8) src)" d] assms
    by (simp add: memcpy_def rdn_take add.commute)
  moreover have "swap_guid (take 16 (drop off src)) = enc32 (LW_SWAB32 w) @ enc16 (LW_SWAB16 h1)
      @ enc16 (LW_SWAB16 h2) @ take 8 (drop (off + 8) src)"
    using w(2) h1(2) h2(2) by (simp add: swap_guid_def enc32_swab enc16_swab drop_take add.commute)
  ultimately show ?thesis
    by (simp only: decode_guid_def w(1) h1(1) h2(1) Option.bind.simps append.assoc)
qed

lemma decode_sid_prefix:
  assumes "length X = off" and "sid_of (drop off src) = Some s" and "off \<le> length src"
    and "off + sid_length s \<le> length d"
  shows "decode_sid_at src (X @ drop off d) off = Some ((X @ sid_bytes s) @ drop (off + sid_length s) d)"
  using assms RtlpDecodeLittleEndianSid_correct[OF assms(2), of "drop off d"]
  by (simp add: decode_sid_at_def at_offset_def ptr_add_def add.commute)

lemma ace_sid_offset_ge: "8 \<le> ace_sid_offset ace"
  by (simp add: ace_sid_offset_def)

lemma le_entry_sid:
  assumes "le_entry ace"
  obtains s where "sid_of (drop (ace_sid_offset ace) (ace @ r)) = Some s"
    "drop (ace_sid_offset ace) ace = sid_bytes s" "length ace = ace_sid_offset ace + sid_length s"
proof -
  from assms obtain s where s: "sid_of (drop (ace_sid_offset ace) ace) = Some s" "sid_valid s"
    "length ace = ace_sid_offset ace + sid_length s"
    by (auto simp: le_entry_def split: option.splits)
  then obtain q where q: "drop (ace_sid_offset ace) ace = sid_bytes s @ q" and wf: "sid_wf s"
    by (auto simp: sid_of_iff)
  have "length ace - ace_sid_offset ace = length (sid_bytes s) + length q"
    by (metis q length_append length_drop)
  then have "length q = 0"
    using s(3) by (simp only: length_sid_image[OF wf])
  then have "drop (ace_sid_offset ace) ace = sid_bytes s"
    using q by simp
  then show thesis
    using s(3) that sid_of_bytes[OF wf, of r] by simp
qed

lemma ace_header_rd:
  assumes "ace_wf ace"
  shows "ace_AceType (ace @ r) = Some (ace ! 0)" "ace_AceFlags (ace @ r) = Some (ace ! 1)"
    "ace_AceSize (ace @ r) = Some (word_of_nat (length ace))"
    "take 4 ace = ace ! 0 # ace ! 1 # enc16 (word_of_nat (length ace))"
proof -
  show "ace_AceType (ace @ r) = Some (ace ! 0)" "ace_AceFlags (ace @ r) = Some (ace ! 1)"
    using assms by (simp_all add: ace_wf_def ace_AceType_def ace_AceFlags_def rd8_def rdn_def dec8_def nth_append)
  show "ace_AceSize (ace @ r) = Some (word_of_nat (length ace))"
    using RtlpValidAceHeader_wf(2)[OF assms] .
  obtain a b c d ace' where "ace = a # b # c # d # ace'"
    using assms by (cases ace; cases "tl ace"; cases "tl (tl ace)"; cases "tl (tl (tl ace))")
      (auto simp: ace_wf_def)
  then show "take 4 ace = ace ! 0 # ace ! 1 # enc16 (word_of_nat (length ace))"
    using assms f16.get_Some[of ace 2 "word_of_nat (length ace)"] by (simp add: ace_wf_def ace_AceSize_def)
qed

lemma copy_ace_header_correct:
  assumes "ace_wf ace" and "length ace \<le> length d"
  shows "copy_ace_header (ace @ r) d = Some (ace ! 0, take 4 ace @ drop 4 d)"
proof -
  note hd = ace_header_rd[OF assms(1)]
  have len: "4 \<le> length d"
    using assms by (simp add: ace_wf_def)
  then obtain a b c e d' where "d = a # b # c # e # d'"
    by (cases d; cases "tl d"; cases "tl (tl d)"; cases "tl (tl (tl d))") auto
  then show ?thesis
    using hd wr_prefix(2)[of "[]" 0 "c # e # d'"] by (simp add: copy_ace_header_def)
qed

text \<open>One round of the decoder writes the entry, with its GUIDs converted.\<close>

lemma decode_object_ace_correct:
  assumes "le_entry ace" and "\<not> std_ace_type (ace ! 0)" and "length ace \<le> length d"
  shows "decode_object_ace (ace @ r) (take 8 ace @ drop 8 d) = Some (swap_guids ace @ drop (length ace) d)"
proof -
  let ?k = "ace_sid_offset ace" and ?Y = "take 12 ace @ swap_guid (take 16 (drop 12 ace))"
  let ?Z = "?Y @ swap_guid (take 16 (drop 28 ace))"
  obtain s where s: "sid_of (drop ?k (ace @ r)) = Some s" "drop ?k ace = sid_bytes s"
    "length ace = ?k + sid_length s"
    using assms(1) by (rule le_entry_sid)
  have "12 \<le> ?k"
    using assms(2) by (simp add: ace_sid_offset_def)
  then have len: "20 \<le> length ace"
    using s(3) by (simp add: sid_length_def)
  obtain fl where fl: "ace_ObjectFlags (ace @ r) = Some fl" "enc32 fl = take 4 (drop 8 ace)"
    using enc_rd(2)[of 8 "ace @ r"] len by (auto simp: ace_ObjectFlags_def)
  have h: "wr32 (take 8 ace @ drop 8 d) 8 fl = Some (take 12 ace @ drop 12 d)"
    using wr_prefix(3)[of "take 8 ace" 8 d fl] len assms(3) fl(2) take_add[of 8 4 ace] by simp
  have k: "?k = (if fl = 0 then 12 else if fl = 1 \<or> fl = 2 then 28 else 44)"
    using assms(2) fl(2)[symmetric] by (simp add: ace_sid_offset_def dec32_enc32)
  have sid: "decode_sid_at (ace @ r) (X @ drop ?k d) ?k = Some ((X @ sid_bytes s) @ drop (length ace) d)"
    if "length X = ?k" for X
    using decode_sid_prefix[OF that s(1)] s(3) assms(3) by simp
  consider "fl = 0" "?k = 12" | "fl = 1 \<or> fl = 2" "?k = 28" | "fl \<noteq> 0" "fl \<noteq> 1" "fl \<noteq> 2" "?k = 44"
    using k by (auto split: if_splits)
  then show ?thesis
  proof cases
    case 1
    then have "take 12 ace @ sid_bytes s = ace"
      using s(2) append_take_drop_id[of 12 ace] by simp
    then show ?thesis
      using 1 h fl(1) sid[of "take 12 ace"] len
      by (simp add: decode_object_ace_def swap_guids_def Let_def)
  next
    case 2
    then have "length ?Y = 28"
      and "decode_guid (ace @ r) (take 12 ace @ drop 12 d) 12 = Some (?Y @ drop 28 d)"
      using decode_guid_prefix[of "take 12 ace" 12 d "ace @ r"] s(3) assms(3) by (simp_all add: length_swap_guid)
    then show ?thesis
      using 2 h fl(1) sid[of ?Y] s(2) assms(2)
      by (auto simp: decode_object_ace_def swap_guids_def Let_def)
  next
    case 3
    then have y: "length ?Y = 28" and z: "length ?Z = 44"
      and "decode_guid (ace @ r) (take 12 ace @ drop 12 d) 12 = Some (?Y @ drop 28 d)"
      using decode_guid_prefix[of "take 12 ace" 12 d "ace @ r"] s(3) assms(3) by (simp_all add: length_swap_guid)
    moreover have "decode_guid (ace @ r) (?Y @ drop 28 d) 28 = Some (?Z @ drop 44 d)"
      using decode_guid_prefix[OF y, of d "ace @ r"] 3 s(3) assms(3) by simp
    ultimately show ?thesis
      using 3 h fl(1) sid[of ?Z] s(2) assms(2)
      by (simp add: decode_object_ace_def swap_guids_def Let_def)
  qed
qed

lemma decode_ace_correct:
  assumes "le_entry ace" and "length ace \<le> length d"
  shows "decode_ace (ace @ r) d = Some (STATUS_SUCCESS, swap_guids ace @ drop (length ace) d)"
proof -
  obtain s where s: "sid_of (drop (ace_sid_offset ace) (ace @ r)) = Some s"
    "drop (ace_sid_offset ace) ace = sid_bytes s" "length ace = ace_sid_offset ace + sid_length s"
    using assms(1) by (rule le_entry_sid)
  have wf: "ace_wf ace" and ty: "std_ace_type (ace ! 0) \<or> object_ace_type (ace ! 0)"
    using assms(1) by (simp_all add: le_entry_def)
  have len: "16 \<le> length ace"
    using s(3) ace_sid_offset_ge[of ace] by (simp add: sid_length_def)
  obtain am where am: "ace_Mask (ace @ r) = Some am" "enc32 am = take 4 (drop 4 ace)"
    using enc_rd(2)[of 4 "ace @ r"] len by (auto simp: ace_Mask_def)
  have h: "wr32 (take 4 ace @ drop 4 d) 4 am = Some (take 8 ace @ drop 8 d)"
    using wr_prefix(3)[of "take 4 ace" 4 d am] len assms(2) am(2) take_add[of 4 4 ace] by simp
  note hd = copy_ace_header_correct[OF wf assms(2)]
  show ?thesis
  proof (cases "std_ace_type (ace ! 0)")
    case True
    then have k: "ace_sid_offset ace = 8" "swap_guids ace = ace"
      by (simp_all add: ace_sid_offset_def swap_guids_def)
    then have "take 8 ace @ sid_bytes s = ace"
      using s(2) append_take_drop_id[of 8 ace] by simp
    then show ?thesis
      using True k hd am(1) h decode_sid_prefix[of "take 8 ace" 8 "ace @ r" s d] s len assms(2)
      by (simp add: decode_ace_def std_ace_type_def)
  next
    case False
    then show ?thesis
      using ty hd am(1) h decode_object_ace_correct[OF assms(1) False assms(2), of r]
      by (auto simp: decode_ace_def std_ace_type_def object_ace_type_def)
  qed
qed

section \<open>The decoder\<close>

lemma swap_guids_eq:
  assumes "le_entry ace"
  shows "length (swap_guids ace) = length ace" and "take 12 (swap_guids ace) = take 12 ace"
proof -
  obtain s where s: "length ace = ace_sid_offset ace + sid_length s"
    using assms by (rule le_entry_sid)
  have "swap_guids ace = ace
      \<or> ace_sid_offset ace = 28 \<and> swap_guids ace = take 12 ace @ swap_guid (take 16 (drop 12 ace)) @ drop 28 ace
      \<or> ace_sid_offset ace = 44 \<and> swap_guids ace = take 12 ace @ swap_guid (take 16 (drop 12 ace))
          @ swap_guid (take 16 (drop 28 ace)) @ drop 44 ace"
    by (auto simp: swap_guids_def ace_sid_offset_def Let_def)
  then show "length (swap_guids ace) = length ace" "take 12 (swap_guids ace) = take 12 ace"
    using s by (auto simp: length_swap_guid)
qed

lemma ace_wf_take:
  assumes "ace_wf ace" and "length x = length ace" and "take 12 x = take 12 ace"
  shows "ace_wf x"
proof -
  have t: "take 4 x = take 4 ace"
    using arg_cong[OF assms(3), of "take 4"] by simp
  have len: "4 \<le> length ace" "4 \<le> length x"
    using assms(1,2) by (simp_all add: ace_wf_def)
  have "rd16 x 2 = rd16 (take 4 x) 2" "rd16 ace 2 = rd16 (take 4 ace) 2"
    using len by (simp_all add: f16.get_take)
  moreover have "x ! 1 = take 4 x ! 1" "ace ! 1 = take 4 ace ! 1"
    by simp_all
  ultimately show ?thesis
    using assms(1,2) t by (simp add: ace_wf_def ace_AceSize_def del: nth_take)
qed

lemma ace_wf_swap: "le_entry ace \<Longrightarrow> ace_wf (swap_guids ace)"
  using ace_wf_take[of ace "swap_guids ace"] swap_guids_eq[of ace] by (simp add: le_entry_def)

lemma ace_pos_ULONG:
  assumes "acl_valid a"
  shows "unat (word_of_nat (ace_pos a i) :: ULONG) = ace_pos a i"
  using acl_valid_bounds(1)[OF assms] ace_pos_le[of a i] by (intro unat_of_nat_small) simp

lemma ucast_short:
  assumes "n < 65536"
  shows "(ucast (word_of_nat n :: USHORT) :: ULONG) = word_of_nat n"
proof -
  have "unat (ucast (word_of_nat n :: USHORT) :: ULONG) = n"
    using assms by (simp add: unsigned_ucast_eq take_bit_nat_eq_self unat_short)
  moreover have "unat (word_of_nat n :: ULONG) = n"
    using assms by (intro unat_of_nat_small) simp
  ultimately show ?thesis
    by (simp only: word_unat_eq_iff)
qed

lemma ace_pos_step_ULONG:
  assumes "acl_valid a" and "i < length (acl_aces a)"
  shows "(word_of_nat (ace_pos a i) :: ULONG) + ucast (word_of_nat (length (acl_aces a ! i)) :: USHORT)
    = word_of_nat (ace_pos a (Suc i))"
proof -
  have "length (acl_aces a ! i) < 65536"
    using assms by (simp add: acl_valid_def ace_wf_def)
  then show ?thesis
    by (simp add: ace_pos_Suc[OF assms(2)] ucast_short)
qed

lemma decode_ace_loop_correct:
  assumes "acl_at m a" and "\<forall>ace \<in> set (acl_aces a). le_entry ace" and "acl_used a \<le> length d"
    and "i + n = length (acl_aces a)" and "length P = ace_pos a i"
  shows "decode_ace_loop m (P @ drop (ace_pos a i) d) (word_of_nat (ace_pos a i)) n =
    Some (STATUS_SUCCESS, P @ concat (map swap_guids (drop i (acl_aces a))) @ drop (acl_used a) d)"
  using assms(4,5)
proof (induction n arbitrary: i P)
  case 0
  then show ?case
    using ace_pos_length[of a] by simp
next
  case (Suc n)
  let ?x = "acl_aces a ! i"
  have v: "acl_valid a"
    using assms(1) by (simp add: acl_at_def)
  from Suc.prems have i: "i < length (acl_aces a)"
    by simp
  have le: "le_entry ?x"
    using assms(2) i by simp
  note sw = swap_guids_eq[OF le]
  have pos: "ace_pos a (Suc i) = ace_pos a i + length ?x" "ace_pos a (Suc i) \<le> length d"
    using ace_pos_Suc[OF i] ace_pos_le[of a "Suc i"] assms(3) by simp_all
  let ?P = "P @ swap_guids ?x"
  have "at_offset (P @ drop (ace_pos a i) d) (ace_pos a i)
      (decode_ace (?x @ concat (drop (Suc i) (acl_aces a)) @ drop (acl_used a) m))
      = Some (STATUS_SUCCESS, ?P @ drop (ace_pos a (Suc i)) d)"
    using decode_ace_correct[OF le, of "drop (ace_pos a i) d"] Suc.prems(2) pos
    by (simp add: at_offset_def ptr_add_def add.commute)
  moreover have "rd16 (?P @ drop (ace_pos a (Suc i)) d) (ace_pos a i + 2) = Some (word_of_nat (length ?x))"
    using RtlpValidAceHeader_wf(2)[OF ace_wf_swap[OF le]] Suc.prems(2) sw(1)
    by (simp add: f16.get_append_right ace_AceSize_def)
  moreover have "decode_ace_loop m (?P @ drop (ace_pos a (Suc i)) d) (word_of_nat (ace_pos a (Suc i))) n
      = Some (STATUS_SUCCESS, ?P @ concat (map swap_guids (drop (Suc i) (acl_aces a))) @ drop (acl_used a) d)"
    using Suc.prems sw(1) pos(1) by (intro Suc.IH) simp_all
  moreover have "map swap_guids (drop i (acl_aces a)) = swap_guids ?x # map swap_guids (drop (Suc i) (acl_aces a))"
    using i by (simp add: Cons_nth_drop_Suc[symmetric])
  ultimately show ?case
    using acl_at_entry(1)[OF assms(1) i] ace_pos_ULONG[OF v, of i] ace_pos_step_ULONG[OF v i]
    by (simp only: decode_ace_loop.simps) simp
qed

text \<open>The header fields written one after the other.\<close>

lemma write_header:
  assumes "8 \<le> length d"
  shows "do { m \<leftarrow> wr8 d 0 rv; m \<leftarrow> wr8 m 1 0; m \<leftarrow> wr16 m 2 sz; m \<leftarrow> wr16 m 4 (word_of_nat n); wr16 m 6 0 } =
    Some (acl_hdr rv sz n @ drop 8 d)"
proof -
  obtain b0 b1 b2 b3 b4 b5 b6 b7 d' where d: "d = [b0, b1, b2, b3, b4, b5, b6, b7] @ d'"
    using assms by (cases d; cases "tl d"; cases "tl (tl d)"; cases "tl (tl (tl d))";
        cases "tl (tl (tl (tl d)))"; cases "tl (tl (tl (tl (tl d))))";
        cases "tl (tl (tl (tl (tl (tl d)))))"; cases "tl (tl (tl (tl (tl (tl (tl d))))))") auto
  have w: "wr16 (x # y # zs) 0 w = Some (enc16 w @ zs)" for x y w and zs :: mem
    using f16.put_enc[of "[x, y]" "[]" zs w] by simp
  show ?thesis
    by (simp add: d w acl_hdr_def enc16_def)
qed

text \<open>Decoding a list of acceptable entries copies it, with the GUIDs converted.\<close>

lemma RtlpDecodeLittleEndianAcl_correct:
  assumes "acl_at m a" and "\<forall>ace \<in> set (acl_aces a). le_entry ace" and "acl_used a \<le> length d"
  shows "RtlpDecodeLittleEndianAcl m d =
    Some (STATUS_SUCCESS, acl_bytes (a\<lparr>acl_aces := map swap_guids (acl_aces a)\<rparr>) @ drop (acl_used a) d)"
proof -
  let ?n = "length (acl_aces a)" and ?h = "acl_hdr (acl_rev a) (acl_size a) (length (acl_aces a))"
  have v: "acl_valid a" and u: "8 \<le> length d"
    using assms by (simp_all add: acl_at_def acl_used_def)
  have m: "m = ?h @ concat (acl_aces a) @ drop (acl_used a) m"
    using acl_at_split[OF assms(1)] by (simp add: acl_bytes_def)
  have z: "acl_Sbz1 m = Some 0" "acl_Sbz2 m = Some 0"
    by (subst m, simp)+
  have "decode_ace_loop m (?h @ drop 8 d) 8 ?n =
      Some (STATUS_SUCCESS, ?h @ concat (map swap_guids (acl_aces a)) @ drop (acl_used a) d)"
    using decode_ace_loop_correct[OF assms, of 0 ?n ?h] by simp
  moreover have "unat (word_of_nat ?n :: USHORT) = ?n"
    using acl_valid_bounds(2)[OF v] by (simp add: unat_short)
  ultimately show ?thesis
    using write_header[OF u, of "acl_rev a" "acl_size a" ?n] acl_at_fields[OF assms(1)] z
    by (auto simp: RtlpDecodeLittleEndianAcl_def bind_eq_Some_conv acl_bytes_def)
qed

section \<open>The validator\<close>

lemma take_split: "take (i + j) m = take i m @ take j (drop i m)"
  by (simp add: take_add)

text \<open>The local structures are the first bytes of the entry.\<close>

lemma verify_copy_take:
  "12 \<le> length p \<Longrightarrow> verify_std_copy p (take 4 p) = RtlpVerifyAceEx (Some (take 12 p)) True"
  "48 \<le> length p \<Longrightarrow> verify_object_copy p (take 4 p) = RtlpVerifyAceEx (Some (take 48 p)) True"
  "length p < 12 \<Longrightarrow> verify_std_copy p h = None"
  "length p < 48 \<Longrightarrow> verify_object_copy p h = None"
proof -
  {
    assume l: "12 \<le> length p"
    obtain w where "rd32 p 4 = Some w" "enc32 w = take 4 (drop 4 p)"
      using enc_rd(2)[of 4 p] l by auto
    then show "verify_std_copy p (take 4 p) = RtlpVerifyAceEx (Some (take 12 p)) True"
      using l take_split[of 4 8 p] take_split[of 4 4 "drop 4 p"]
      by (simp add: verify_std_copy_def ace_Mask_def rdn_take)
  next
    assume l: "48 \<le> length p"
    obtain w v where w: "rd32 p 4 = Some w" "enc32 w = take 4 (drop 4 p)"
      and v: "rd32 p 8 = Some v" "enc32 v = take 4 (drop 8 p)"
      using enc_rd(2)[of 4 p] enc_rd(2)[of 8 p] l by auto
    have "take 48 p = take 4 p @ take 4 (drop 4 p) @ take 4 (drop 8 p) @ take 16 (drop 12 p)
        @ take 16 (drop 28 p) @ take 4 (drop 44 p)"
      using take_split[of 4 44 p] take_split[of 4 40 "drop 4 p"] take_split[of 4 36 "drop 8 p"]
        take_split[of 16 20 "drop 12 p"] take_split[of 16 4 "drop 28 p"] by simp
    then show "verify_object_copy p (take 4 p) = RtlpVerifyAceEx (Some (take 48 p)) True"
      using l w v by (simp add: verify_object_copy_def ace_Mask_def ace_ObjectFlags_def rdn_take)
  }
  show "length p < 12 \<Longrightarrow> verify_std_copy p h = None" "length p < 48 \<Longrightarrow> verify_object_copy p h = None"
    by (auto simp: verify_std_copy_def verify_object_copy_def rdn_def bind_eq_None_conv)
qed

lemma valid_sid_bytes:
  assumes "RtlValidSid (Some q) = Some True"
  shows "2 \<le> length q \<and> q ! 0 = 1 \<and> unat (q ! 1) \<le> 15"
  using assms
  by (auto simp: RtlValidSid_def sid_Revision_def sid_SubAuthorityCount_def rd8_def rdn_def dec8_def
      bind_eq_Some_conv split: if_splits)

lemma length_sid_two:
  assumes "2 \<le> length q" and "unat (q ! 1) \<le> 15"
  shows "RtlLengthSid q = Some (word_of_nat (8 + 4 * unat (q ! 1)))"
proof -
  have "sid_SubAuthorityCount q = Some (q ! 1)"
    using assms(1) by (simp add: sid_SubAuthorityCount_def rd8_def rdn_def dec8_def)
  moreover have "RtlLengthRequiredSid (ucast (q ! 1)) = word_of_nat (8 + 4 * unat (q ! 1))"
    by (simp add: RtlLengthRequiredSid_def)
  ultimately show ?thesis
    by (simp add: RtlLengthSid_def)
qed

lemma unat_ucast_long:
  assumes "n < 65536"
  shows "unat (ucast (word_of_nat n :: ULONG) :: USHORT) = n"
  using assms unat_of_nat_small[of n, where 'a = 32]
  by (simp add: unsigned_ucast_eq take_bit_nat_eq_self)

lemma size_required:
  assumes "n < 1100" and "k \<le> 44"
  shows "unat ((word_of_nat k :: USHORT) + ucast (word_of_nat n :: ULONG)) = k + n"
    and "unat (ucast ((word_of_nat k :: ULONG) + word_of_nat n) :: USHORT) = k + n"
proof -
  have "unat (word_of_nat k :: USHORT) = k"
    using assms(2) by (intro unat_short) simp
  then show "unat ((word_of_nat k :: USHORT) + ucast (word_of_nat n :: ULONG)) = k + n"
    using assms unat_ucast_long[of n] by (subst unat_add_lem[THEN iffD1]) simp_all
  show "unat (ucast ((word_of_nat k :: ULONG) + word_of_nat n) :: USHORT) = k + n"
    using assms unat_ucast_long[of "k + n"] by simp
qed

lemma verify_size_success:
  assumes "RtlpValidAccessAllowedAce sz q = Some STATUS_SUCCESS"
  shows "2 \<le> length q \<and> q ! 0 = 1 \<and> unat (q ! 1) \<le> 15 \<and> unat sz = 8 + 8 + 4 * unat (q ! 1)"
proof -
  from assms have v: "RtlValidSid (Some q) = Some True" and l: "RtlLengthAccessAllowedAce q = Some sz"
    by (auto simp: RtlpValidAccessAllowedAce_def bind_eq_Some_conv split: if_splits)
  note b = valid_sid_bytes[OF v]
  then have "sz = ucast (8 + word_of_nat (8 + 4 * unat (q ! 1)) :: ULONG)"
    using l length_sid_two[of q] by (simp add: RtlLengthAccessAllowedAce_def)
  then show ?thesis
    using b size_required(2)[of "8 + 4 * unat (q ! 1)" 8] by (simp add: ac_simps)
qed

lemma verify_object_size_success:
  assumes "RtlpValidAccessAllowedObjectAce sz fl q = Some STATUS_SUCCESS"
  defines "k \<equiv> if fl = 0 then 12 else if fl = 1 \<or> fl = 2 then 28 else 44"
  shows "2 \<le> length q \<and> q ! 0 = 1 \<and> unat (q ! 1) \<le> 15 \<and> unat sz = k + 8 + 4 * unat (q ! 1)"
proof -
  from assms have v: "RtlValidSid (Some q) = Some True" and l: "RtlLengthAccessAllowedObjectAce q fl = Some sz"
    by (auto simp: RtlpValidAccessAllowedObjectAce_def bind_eq_Some_conv split: if_splits)
  note b = valid_sid_bytes[OF v]
  then have "sz = word_of_nat k + ucast (word_of_nat (8 + 4 * unat (q ! 1)) :: ULONG)"
    using l length_sid_two[of q] by (auto simp: RtlLengthAccessAllowedObjectAce_def k_def)
  moreover have "k \<le> 44"
    by (simp add: k_def)
  ultimately show ?thesis
    using b size_required(1)[of "8 + 4 * unat (q ! 1)" k] by (simp add: ac_simps)
qed

text \<open>What a successful verification says of the bytes it looks at.\<close>

lemma RtlpVerifyAceEx_success:
  assumes "RtlpVerifyAceEx (Some p) True = Some STATUS_SUCCESS" and "ace_AceSize p = Some sz"
  defines "k \<equiv> ace_sid_offset p"
  shows "RtlpValidAceHeader (Some p) = Some True \<and> (std_ace_type (p ! 0) \<or> object_ace_type (p ! 0))
    \<and> k + 2 \<le> length p \<and> p ! k = 1 \<and> unat (p ! (k + 1)) \<le> 15 \<and> unat sz = k + 8 + 4 * unat (p ! (k + 1))"
proof -
  have h: "RtlpValidAceHeader (Some p) = Some True"
    using assms(1) by (cases "RtlpValidAceHeader (Some p)") (auto simp: RtlpVerifyAceEx_def split: if_splits)
  have t: "ace_AceType p = Some (p ! 0)"
    using assms(2) by (auto simp: ace_AceType_def ace_AceSize_def rd8_def rd16_def rdn_def dec8_def
        bind_eq_Some_conv split: if_splits)
  have nth: "drop j p ! 0 = p ! j" "drop j p ! 1 = p ! (j + 1)" if "2 \<le> length (drop j p)" for j
    using that by simp_all
  consider (std) "std_ace_type (p ! 0)" | (object) "\<not> std_ace_type (p ! 0)" "object_ace_type (p ! 0)"
    using assms(1) h t by (auto simp: RtlpVerifyAceEx_def std_ace_type_def object_ace_type_def Let_def
        split: if_splits)
  then show ?thesis
  proof cases
    case std
    then have "k = 8"
      by (simp add: k_def ace_sid_offset_def)
    moreover have "RtlpValidAccessAllowedAce sz (drop 8 p) = Some STATUS_SUCCESS"
      using std assms(1,2) h t
      by (auto simp: RtlpVerifyAceEx_def std_ace_type_def Let_def RtlpGetSidAccessAllowedAce_def ptr_add_def
          bind_eq_Some_conv split: if_splits)
    ultimately show ?thesis
      using verify_size_success[of sz "drop 8 p"] nth[of 8] h std by auto
  next
    case object
    then obtain fl where fl: "ace_ObjectFlags p = Some fl"
      and r: "RtlpValidAccessAllowedObjectAce sz fl
        (drop (if fl = 0 then 12 else if fl = 1 \<or> fl = 2 then 28 else 44) p) = Some STATUS_SUCCESS"
      using assms(1,2) h t
      by (auto simp: RtlpVerifyAceEx_def std_ace_type_def object_ace_type_def Let_def
          RtlpGetSidAccessAllowedObjectAce_def ptr_add_def bind_eq_Some_conv split: if_splits)
    then have "k = (if fl = 0 then 12 else if fl = 1 \<or> fl = 2 then 28 else 44)"
      using object f32.get_Some[of p 8 fl] dec32_enc32[of fl] by (simp add: k_def ace_sid_offset_def ace_ObjectFlags_def)
    then show ?thesis
      using verify_object_size_success[OF r] r nth[of k] h object by auto
  qed
qed

lemma le_entryI:
  assumes "RtlpVerifyAceEx (Some (take j p)) True = Some STATUS_SUCCESS" and "ace_AceSize p = Some sz"
    and "unat sz \<le> length p" and "std_ace_type (p ! 0) \<and> j = 12 \<or> j = 48" and "j \<le> length p"
  shows "le_entry (take (unat sz) p)"
proof -
  let ?q = "take j p" and ?a = "take (unat sz) p" and ?k = "ace_sid_offset p"
  have sz: "ace_AceSize ?q = Some sz" and j: "12 \<le> j"
    using assms(2,4,5) by (auto simp: ace_AceSize_def f16.get_take)
  have k: "ace_sid_offset ?q = ?k"
    using j assms(5) by (simp add: ace_sid_offset_def drop_take min_def)
  note s = RtlpVerifyAceEx_success[OF assms(1) sz, unfolded k]
  have "ace_AceSize p = Some sz" and "RtlpValidAceHeader (Some p) = Some True"
    using s assms(2) j assms(5)
    by (auto simp: RtlpValidAceHeader_def ace_AceSize_def ace_AceFlags_def f16.get_take f8.get_take)
  then have wf: "ace_wf ?a" and sz4: "4 \<le> unat sz"
    using RtlpValidAceHeader_Some[of p sz] assms(3) by auto
  have c: "p ! ?k = 1" "unat (p ! (?k + 1)) \<le> 15" "unat sz = ?k + 8 + 4 * unat (p ! (?k + 1))"
    using s j by auto
  have k12: "12 \<le> unat sz"
    using c(3) ace_sid_offset_ge[of p] by simp
  have ka: "ace_sid_offset ?a = ?k"
    using k12 assms(3) by (simp add: ace_sid_offset_def drop_take min_def)
  have ty: "?a ! 0 = p ! 0"
    using sz4 by simp
  have d: "length (drop ?k ?a) = 8 + 4 * unat (p ! (?k + 1))" "drop ?k ?a ! 0 = p ! ?k" "drop ?k ?a ! 1 = p ! (?k + 1)"
    using c(3) assms(3) by simp_all
  obtain t where t: "sid_of (drop ?k ?a) = Some t" "Revision t = 1" "length (SubAuthority t) = unat (p ! (?k + 1))"
    using sid_of_readable[of "drop ?k ?a"] d c by auto
  then have "sid_valid t"
    using c(2) by (auto simp: sid_of_iff sid_wf_def sid_valid_def)
  moreover have "std_ace_type (?a ! 0) \<or> object_ace_type (?a ! 0)"
    using s j ty by (auto simp del: nth_take simp: nth_take[of 0 j])
  moreover have "length ?a = ?k + sid_length t" "?k \<le> length ?a"
    using c(3) assms(3) t(3) by (simp_all add: sid_length_def)
  ultimately show ?thesis
    using wf t(1) unfolding le_entry_def ka by simp
qed

lemma le_acl_loop_sound:
  assumes "le_acl_loop m sz off n = Some STATUS_SUCCESS" and "unat sz \<le> length m" and "unat off \<le> unat sz"
  shows "\<exists>as. length as = n \<and> (\<forall>ace \<in> set as. le_entry ace) \<and> unat off + length (concat as) \<le> unat sz
    \<and> take (length (concat as)) (drop (unat off) m) = concat as"
  using assms
proof (induction n arbitrary: off)
  case (Suc n)
  then obtain p h s t where p: "ptr_add m (unat off) = Some p" and h: "rdn p 0 4 = Some h"
    and s: "ace_AceSize h = Some s" and t: "ace_AceType h = Some t"
    and av: "RtlpIsBufferAvailable (ucast sz) off (ucast s)"
    and ver: "std_ace_type t \<and> verify_std_copy p h = Some STATUS_SUCCESS
        \<or> verify_object_copy p h = Some STATUS_SUCCESS"
    and rest: "le_acl_loop m sz (off + ucast s) n = Some STATUS_SUCCESS"
    by (auto simp: bind_eq_Some_conv std_ace_type_def split: if_splits)
  have h': "h = take 4 p" "4 \<le> length p" and p': "p = drop (unat off) m"
    using p h by (auto simp: ptr_add_def rdn_def split: if_splits)
  then have ps: "ace_AceSize p = Some s" and t0: "t = p ! 0"
    using s t by (auto simp: ace_AceSize_def f16.get_take ace_AceType_def rd8_def rdn_def dec8_def)
  have us: "unat (ucast s :: ULONG) = unat s" "unat (ucast sz :: ULONG) = unat sz"
    using unsigned_less[of s, where 'a = nat] unsigned_less[of sz, where 'a = nat]
    by (simp_all add: unsigned_ucast_eq take_bit_nat_eq_self)
  have le: "unat off + unat s \<le> unat sz"
    using av us by (simp add: RtlpIsBufferAvailable_iff)
  have add: "unat (off + ucast s) = unat off + unat s"
    using le us unsigned_less[of sz, where 'a = nat] by (subst unat_add_lem[THEN iffD1]) simp_all
  have sl: "unat s \<le> length p"
    using le Suc.prems(2) p' by simp
  let ?a = "take (unat s) p"
  have "std_ace_type (p ! 0) \<and> 12 \<le> length p \<and> RtlpVerifyAceEx (Some (take 12 p)) True = Some STATUS_SUCCESS
      \<or> 48 \<le> length p \<and> RtlpVerifyAceEx (Some (take 48 p)) True = Some STATUS_SUCCESS"
    using ver verify_copy_take[of p] t0 h' by (metis not_le option.distinct(1))
  then have wf: "le_entry ?a"
    using le_entryI[OF _ ps sl] by blast
  obtain as where as: "length as = n" "\<forall>ace \<in> set as. le_entry ace"
    "unat (off + ucast s) + length (concat as) \<le> unat sz"
    "take (length (concat as)) (drop (unat (off + ucast s)) m) = concat as"
    using Suc.IH[OF rest Suc.prems(2)] le add by auto
  have l: "length ?a = unat s"
    using sl by simp
  have "take (length (concat (?a # as))) (drop (unat off) m) = concat (?a # as)"
    using as(4) l p' by (simp add: take_add add) (simp add: add.commute)
  then show ?case
    using as wf l add by (intro exI[of _ "?a # as"]) auto
qed auto

lemma verify_statuses: "post (\<lambda>st. st \<noteq> STATUS_NOT_ALL_ASSIGNED) (RtlpVerifyAceEx a b)"
  unfolding RtlpVerifyAceEx_def RtlpValidAccessAllowedAce_def RtlpValidAccessAllowedObjectAce_def
  by (intro post_intros) simp_all

lemma le_acl_loop_statuses: "post (\<lambda>st. st \<noteq> STATUS_NOT_ALL_ASSIGNED) (le_acl_loop m sz off n)"
proof (induction n arbitrary: off)
  case 0
  show ?case
    by (simp add: post_def)
next
  case (Suc n)
  have "post (\<lambda>st. st \<noteq> STATUS_NOT_ALL_ASSIGNED) (verify_std_copy a h)"
    "post (\<lambda>st. st \<noteq> STATUS_NOT_ALL_ASSIGNED) (verify_object_copy a h)" for a h
    unfolding verify_std_copy_def verify_object_copy_def by (intro post_intros verify_statuses)+
  then have v: "post (\<lambda>st. st \<noteq> STATUS_NOT_ALL_ASSIGNED)
      (if c then verify_std_copy a h else if d then verify_object_copy a h else Some STATUS_INVALID_ACL)"
    for a h c d
    by (simp add: post_Some)
  show ?case
    unfolding le_acl_loop.simps
    by (intro post_bind post_if post_Some Suc.IH) (simp, simp, erule postD[OF v])
qed

text \<open>A buffer that the validator accepts holds a list of acceptable entries.\<close>

lemma RtlpIsValidLittleEndianAclBuffer_sound:
  assumes "RtlpIsValidLittleEndianAclBuffer m sz = Some (True, u)" and "unat sz \<le> length m"
  shows "\<exists>a. acl_at m a \<and> unat u = unat (acl_size a) \<and> unat u \<le> unat sz
    \<and> (\<forall>ace \<in> set (acl_aces a). le_entry ace)"
proof -
  from assms(1) obtain hb asz n st where hb: "rdn m 0 8 = Some hb" and h: "RtlpValidAclHeader (Some hb) = Some True"
    and z: "acl_AclSize hb = Some asz" and n: "acl_AceCount hb = Some n"
    and av: "RtlpIsBufferAvailable sz 0 (ucast asz)" and u: "u = ucast asz"
    and st: "NT_SUCCESS st" and loop: "le_acl_loop m asz 8 (unat n) = Some st"
    by (auto simp: RtlpIsValidLittleEndianAclBuffer_def bind_eq_Some_conv split: if_splits)
  have l8: "8 \<le> length m" and hb': "hb = take 8 m"
    using hb by (auto simp: rdn_def split: if_splits)
  have f: "acl_AclRevision hb = acl_AclRevision m" "acl_Sbz1 hb = acl_Sbz1 m" "acl_Sbz2 hb = acl_Sbz2 m"
    "acl_AceCount hb = acl_AceCount m" "acl_AclSize hb = acl_AclSize m"
    using l8 by (simp_all add: hb' acl_AclRevision_def acl_Sbz1_def acl_Sbz2_def acl_AceCount_def acl_AclSize_def
        f8.get_take f16.get_take)
  obtain rv where rv: "acl_AclRevision m = Some rv" "acl_Sbz1 m = Some 0" "acl_Sbz2 m = Some 0"
    "RtlpValidAclRevision (ucast rv)" "8 \<le> unat asz"
    using h z n by (auto simp: RtlpValidAclHeader_def bind_eq_Some_conv f)
  have us: "unat (ucast asz :: ULONG) = unat asz"
    using unsigned_less[of asz, where 'a = nat] by (simp add: unsigned_ucast_eq take_bit_nat_eq_self)
  then have le: "unat asz \<le> unat sz"
    using av by (simp add: RtlpIsBufferAvailable_iff)
  have "st = STATUS_SUCCESS"
    using st postD[OF le_acl_loop_statuses loop] by (simp add: NT_SUCCESS_iff)
  then obtain as where as: "length as = unat n" "\<forall>ace \<in> set as. le_entry ace"
    "8 + length (concat as) \<le> unat asz" "take (length (concat as)) (drop 8 m) = concat as"
    using le_acl_loop_sound[of m asz 8 "unat n"] loop rv(5) le assms(2) by auto
  then have "acl_at m \<lparr> acl_rev = rv, acl_size = asz, acl_aces = as \<rparr>"
    using rv z n f le assms(2) by (intro acl_at_readable) (auto simp: le_entry_def)
  then show ?thesis
    using as(2) u us le by (intro exI[of _ "\<lparr> acl_rev = rv, acl_size = asz, acl_aces = as \<rparr>"]) simp
qed

text \<open>The validator accepts the lists of valid entries with one identifier.\<close>

lemma verify_std_bytes:
  assumes "ace_valid e"
  shows "verify_std_copy (ace_bytes e @ r) (take 4 (ace_bytes e @ r)) = Some STATUS_SUCCESS"
proof -
  have wf: "sid_wf (a_sid e)" and v: "sid_valid (a_sid e)"
    using assms by (simp_all add: ace_valid_def)
  obtain i0 i1 ia where ia: "IdentifierAuthority (a_sid e) = i0 # i1 # ia"
    using wf by (cases "IdentifierAuthority (a_sid e)"; cases "tl (IdentifierAuthority (a_sid e))")
      (auto simp: sid_wf_def)
  let ?q = "[Revision (a_sid e), word_of_nat (length (SubAuthority (a_sid e))), i0, i1]"
  have t: "take 12 (ace_bytes e @ r) = a_type e # a_flags e # enc16 (word_of_nat (ace_length e)) @ enc32 (a_mask e) @ ?q"
    using ia by (simp add: ace_bytes_def sid_bytes_def)
  have n: "length (SubAuthority (a_sid e)) \<le> 15" "unat (word_of_nat (length (SubAuthority (a_sid e))) :: UCHAR)
      = length (SubAuthority (a_sid e))"
    using v by (simp_all add: sid_valid_def)
  then have "RtlLengthSid ?q = Some (word_of_nat (sid_length (a_sid e)))"
    using length_sid_two[of ?q] by (simp add: sid_length_def)
  then have l: "RtlLengthAccessAllowedAce ?q = Some (word_of_nat (ace_length e))"
    using RtlLengthAce_correct(1)[OF sid_of_bytes[OF wf, of "[]"]] RtlLengthSid_correct[OF sid_of_bytes[OF wf, of "[]"]]
    by (simp add: RtlLengthAccessAllowedAce_def ace_length_def)
  have vs: "RtlValidSid (Some ?q) = Some True"
    using v n by (simp add: RtlValidSid_def sid_Revision_def sid_SubAuthorityCount_def sid_valid_def)
  have "12 \<le> length (ace_bytes e @ r)"
    using wf ace_length_lt[OF wf] length_ace_bytes[OF wf] by (simp add: ace_length_def sid_ace_length_def sid_length_def)
  then have "verify_std_copy (ace_bytes e @ r) (take 4 (ace_bytes e @ r)) = RtlpVerifyAceEx (Some (take 12 (ace_bytes e @ r))) True"
    by (rule verify_copy_take)
  moreover have "RtlpVerifyAceEx (Some (take 12 (ace_bytes e @ r))) True = Some STATUS_SUCCESS"
    using assms l vs wf sid_ace_length_lt[OF wf] unfolding t
    by (auto simp: RtlpVerifyAceEx_def RtlpValidAceHeader_def ace_valid_def std_ace_type_def ace_mask_ok_def
        Let_def RtlpGetSidAccessAllowedAce_def RtlpValidAccessAllowedAce_def ace_AceSize_def ace_AceFlags_def
        ace_AceType_def ace_Mask_def ptr_add_def f32.get_append_right ace_length_def)
  ultimately show ?thesis
    by simp
qed

lemma le_acl_loop_complete:
  assumes "acl_at m a" and "acl_aces a = map ace_bytes es" and "\<forall>e \<in> set es. ace_valid e"
    and "i + n = length es"
  shows "le_acl_loop m (acl_size a) (word_of_nat (ace_pos a i)) n = Some STATUS_SUCCESS"
  using assms(4)
proof (induction n arbitrary: i)
  case (Suc n)
  let ?x = "acl_aces a ! i" and ?r = "concat (drop (Suc i) (acl_aces a)) @ drop (acl_used a) m"
  have v: "acl_valid a"
    using assms(1) by (simp add: acl_at_def)
  have i: "i < length (acl_aces a)" and x: "?x = ace_bytes (es ! i)" and e: "ace_valid (es ! i)"
    using Suc.prems assms(2,3) by auto
  note en = acl_at_entry[OF assms(1) i]
  note h = RtlpValidAceHeader_wf[OF en(2)]
  have len: "4 \<le> length ?x"
    using en(2) by (simp add: ace_wf_def)
  have h4: "RtlpValidAceHeader (Some (take 4 (?x @ ?r))) = Some True"
    "ace_AceSize (take 4 (?x @ ?r)) = Some (word_of_nat (length ?x))"
    using h len by (simp_all add: RtlpValidAceHeader_def ace_AceSize_def ace_AceFlags_def f16.get_take f8.get_take
        del: take_append)
  have t4: "ace_AceType (take 4 (?x @ ?r)) = Some (a_type (es ! i))"
    using len ace_fields_bytes(1)[of "es ! i" ?r] x by (simp add: ace_AceType_def f8.get_take del: take_append)
  have ver: "verify_std_copy (?x @ ?r) (take 4 (?x @ ?r)) = Some STATUS_SUCCESS"
    using verify_std_bytes[OF e, of ?r] x by simp
  have us: "unat (ucast (word_of_nat (length ?x) :: USHORT) :: ULONG) = length ?x"
    "unat (ucast (acl_size a) :: ULONG) = unat (acl_size a)"
    using h(3) unsigned_less[of "acl_size a", where 'a = nat] en(2)
    by (simp_all add: unsigned_ucast_eq take_bit_nat_eq_self ace_wf_def)
  have av: "RtlpIsBufferAvailable (ucast (acl_size a)) (word_of_nat (ace_pos a i)) (ucast (word_of_nat (length ?x) :: USHORT))"
    using ace_pos_less[OF v i] ace_pos_ULONG[OF v, of i] us v
    by (simp only: RtlpIsBufferAvailable_iff) (simp add: acl_valid_def)
  have ty: "a_type (es ! i) = 0 \<or> a_type (es ! i) = 1 \<or> a_type (es ! i) = 2"
    using e by (simp add: ace_valid_def std_ace_type_def)
  have rd: "rdn (?x @ ?r) 0 4 = Some (take 4 (?x @ ?r))"
    using len by (simp add: rdn_def del: take_append)
  show ?case
    using en(1) rd h4 t4 av ver ty Suc.IH[of "Suc i"] Suc.prems ace_pos_ULONG[OF v, of i]
      ace_pos_step_ULONG[OF v i]
    by (simp only: le_acl_loop.simps) (simp del: take_append)
qed simp

lemma RtlpIsValidLittleEndianAclBuffer_complete:
  assumes "acl_at m a" and "acl_aces a = map ace_bytes es" and "\<forall>e \<in> set es. ace_valid e"
    and "unat (acl_size a) \<le> unat sz"
  shows "RtlpIsValidLittleEndianAclBuffer m sz = Some (True, ucast (acl_size a))"
proof -
  let ?n = "length (acl_aces a)"
  have v: "acl_valid a"
    using assms(1) by (simp add: acl_at_def)
  have s8: "8 \<le> unat (acl_size a)" and l8: "8 \<le> length m"
    using assms(1) by (simp_all add: acl_at_def acl_valid_def acl_used_def)
  have f: "acl_AclRevision (take 8 m) = acl_AclRevision m" "acl_Sbz1 (take 8 m) = acl_Sbz1 m"
    "acl_Sbz2 (take 8 m) = acl_Sbz2 m" "acl_AceCount (take 8 m) = acl_AceCount m"
    "acl_AclSize (take 8 m) = acl_AclSize m"
    using l8 by (simp_all add: acl_AclRevision_def acl_Sbz1_def acl_Sbz2_def acl_AceCount_def acl_AclSize_def
        f8.get_take f16.get_take)
  have "RtlpValidAclHeader (Some (take 8 m)) = RtlpValidAclHeader (Some m)"
    by (simp add: RtlpValidAclHeader_def f)
  moreover have "RtlpIsBufferAvailable sz 0 (ucast (acl_size a))"
    using assms(4) unsigned_less[of "acl_size a", where 'a = nat]
    by (simp add: RtlpIsBufferAvailable_iff unsigned_ucast_eq take_bit_nat_eq_self)
  moreover have "le_acl_loop m (acl_size a) 8 ?n = Some STATUS_SUCCESS"
    using le_acl_loop_complete[OF assms(1-3), of 0 "length es"] assms(2) by simp
  moreover have "unat (word_of_nat ?n :: USHORT) = ?n"
    using acl_valid_bounds(2)[OF v] by (simp add: unat_short)
  ultimately show ?thesis
    using s8 assms(4) l8 acl_at_fields[OF assms(1)] f
    by (simp add: RtlpIsValidLittleEndianAclBuffer_def rdn_def)
qed

section \<open>The encoder\<close>

lemma encode_sid_fits:
  assumes "sid_of m = Some s" and "sid_length s \<le> unat sz" and "sid_length s \<le> length b"
  shows "RtlpEncodeLittleEndianSid m b sz =
    Some (STATUS_SUCCESS, sid_bytes s @ drop (sid_length s) b, word_of_nat (sid_length s))"
proof -
  obtain r where wf: "sid_wf s" and m: "m = sid_bytes s @ r"
    using assms by (auto simp: sid_of_iff)
  show ?thesis
    using assms m wf sid_copy_loop[OF wf assms(3), of r]
    by (simp add: RtlpEncodeLittleEndianSid_def RtlLengthSid_correct word_less_nat_alt sid_wf_def
        bind_eq_Some_conv)
qed

lemma at_offset_prefix:
  "length P = off \<Longrightarrow> f q = Some (x, q') \<Longrightarrow> at_offset (P @ q) off f = Some (x, P @ q')"
  by (auto simp: at_offset_def)

text \<open>One round copies an entry with one identifier, and refuses every other entry.\<close>

lemma encode_ace_correct:
  assumes "le_entry ace" and "std_ace_type (ace ! 0)" and "length ace \<le> length d"
  shows "encode_ace (ace @ r) d = Some (STATUS_SUCCESS, ace @ drop (length ace) d)"
proof -
  have wf: "ace_wf ace" and k: "ace_sid_offset ace = 8"
    using assms by (simp_all add: le_entry_def ace_sid_offset_def)
  obtain s where s: "sid_of (drop 8 (ace @ r)) = Some s" "drop 8 ace = sid_bytes s" "length ace = 8 + sid_length s"
    using assms(1) k by (metis le_entry_sid)
  have len: "16 \<le> length ace" "length ace < 65536"
    using s(3) wf by (simp_all add: sid_length_def ace_wf_def)
  obtain am where am: "ace_Mask (ace @ r) = Some am" "enc32 am = take 4 (drop 4 ace)"
    using enc_rd(2)[of 4 "ace @ r"] len by (auto simp: ace_Mask_def)
  have h: "wr32 (take 4 ace @ drop 4 d) 4 am = Some (take 8 ace @ drop 8 d)"
    using wr_prefix(3)[of "take 4 ace" 4 d am] len assms(3) am(2) take_add[of 4 4 ace] by simp
  have "unat (ucast (word_of_nat (length ace) :: USHORT) - 4 :: ULONG) = length ace - 4"
    using len ucast_short[of "length ace"] unat_of_nat_small[of "length ace", where 'a = 32]
    by (subst unat_sub) (simp_all add: word_le_nat_alt)
  then have "RtlpEncodeLittleEndianSid (drop 8 (ace @ r)) (drop 8 d) (ucast (word_of_nat (length ace) :: USHORT) - 4)
      = Some (STATUS_SUCCESS, sid_bytes s @ drop (length ace) d, word_of_nat (sid_length s))"
    using encode_sid_fits[OF s(1), of _ "drop 8 d"] s(3) assms(3) by (simp add: ac_simps)
  then have "at_offset (take 8 ace @ drop 8 d) 8 (\<lambda>p. do {
        (status, p, _) \<leftarrow> RtlpEncodeLittleEndianSid (drop 8 (ace @ r)) p (ucast (word_of_nat (length ace) :: USHORT) - 4);
        Some (status, p) }) = Some (STATUS_SUCCESS, take 8 ace @ sid_bytes s @ drop (length ace) d)"
    using len by (intro at_offset_prefix) simp_all
  moreover have "take 8 ace @ sid_bytes s = ace"
    using s(2) append_take_drop_id[of 8 ace] by simp
  moreover have "ptr_add (ace @ r) 8 = Some (drop 8 (ace @ r))"
    using len by (simp add: ptr_add_def)
  ultimately show ?thesis
    using copy_ace_header_correct[OF wf assms(3), of r] am(1) h assms(2) ace_header_rd(3)[OF wf, of r]
    by (simp add: encode_ace_def std_ace_type_def del: drop_append)
qed

lemma encode_ace_refuses:
  assumes "ace_wf ace" and "\<not> std_ace_type (ace ! 0)" and "length ace \<le> length d"
  shows "encode_ace (ace @ r) d = Some (STATUS_INVALID_ACL, take 4 ace @ drop 4 d)"
  using copy_ace_header_correct[OF assms(1,3), of r] assms(2)
  by (simp add: encode_ace_def std_ace_type_def)

lemma encode_ace_step:
  assumes "acl_at m a" and "i < length (acl_aces a)" and "length P = ace_pos a i"
    and "encode_ace (acl_aces a ! i @ concat (drop (Suc i) (acl_aces a)) @ drop (acl_used a) m) q = Some (st, q')"
  shows "encode_ace_loop m (P @ q) (word_of_nat (ace_pos a i)) (Suc n) =
    (if st \<noteq> STATUS_SUCCESS then Some (st, P @ q', word_of_nat (ace_pos a i))
     else encode_ace_loop m (P @ q') (word_of_nat (ace_pos a (Suc i))) n)"
proof -
  have v: "acl_valid a"
    using assms(1) by (simp add: acl_at_def)
  have "at_offset (P @ q) (ace_pos a i)
      (encode_ace (acl_aces a ! i @ concat (drop (Suc i) (acl_aces a)) @ drop (acl_used a) m)) = Some (st, P @ q')"
    using assms(3,4) by (intro at_offset_prefix)
  then show ?thesis
    using acl_at_entry[OF assms(1,2)] ace_pos_ULONG[OF v, of i]
      ace_pos_step_ULONG[OF v assms(2)] RtlpValidAceHeader_wf(2)[OF acl_at_entry(2)[OF assms(1,2)]]
    by (simp only: encode_ace_loop.simps) simp
qed

lemma encode_ace_loop_correct:
  assumes "acl_at m a" and "\<forall>ace \<in> set (acl_aces a). le_entry ace" and "acl_used a \<le> length d"
    and "i + n = length (acl_aces a)" and "length P = ace_pos a i"
  shows "if \<forall>ace \<in> set (drop i (acl_aces a)). std_ace_type (ace ! 0)
    then encode_ace_loop m (P @ drop (ace_pos a i) d) (word_of_nat (ace_pos a i)) n =
      Some (STATUS_SUCCESS, P @ concat (drop i (acl_aces a)) @ drop (acl_used a) d, word_of_nat (acl_used a))
    else \<exists>b off. encode_ace_loop m (P @ drop (ace_pos a i) d) (word_of_nat (ace_pos a i)) n =
      Some (STATUS_INVALID_ACL, b, off)"
  using assms(4,5)
proof (induction n arbitrary: i P)
  case 0
  then show ?case
    using ace_pos_length[of a] by simp
next
  case (Suc n)
  let ?x = "acl_aces a ! i"
  have v: "acl_valid a"
    using assms(1) by (simp add: acl_at_def)
  from Suc.prems have i: "i < length (acl_aces a)"
    by simp
  have le: "le_entry ?x" "length ?x \<le> length (drop (ace_pos a i) d)"
    using assms(2,3) i ace_pos_less[OF v i] by simp_all
  have dr: "drop i (acl_aces a) = ?x # drop (Suc i) (acl_aces a)"
    using i by (simp add: Cons_nth_drop_Suc)
  note step = encode_ace_step[OF assms(1) i Suc.prems(2), of "drop (ace_pos a i) d"]
  show ?case
  proof (cases "std_ace_type (?x ! 0)")
    case True
    have "encode_ace_loop m (P @ drop (ace_pos a i) d) (word_of_nat (ace_pos a i)) (Suc n) =
        encode_ace_loop m ((P @ ?x) @ drop (ace_pos a (Suc i)) d) (word_of_nat (ace_pos a (Suc i))) n"
      using step[OF encode_ace_correct[OF le(1) True le(2)]] ace_pos_Suc[OF i] by (simp add: add.commute)
    moreover have "Suc i + n = length (acl_aces a)" "length (P @ ?x) = ace_pos a (Suc i)"
      using Suc.prems ace_pos_Suc[OF i] by simp_all
    note Suc.IH[OF this]
    ultimately show ?thesis
      using True by (simp only: dr) (simp cong: if_cong del: encode_ace_loop.simps)
  next
    case False
    then show ?thesis
      using step[OF encode_ace_refuses[OF _ False le(2)]] le(1) by (auto simp: dr le_entry_def)
  qed
qed

text \<open>Encoding succeeds exactly when every entry has one identifier, and writes the list with the
  size field set to the size used.\<close>

lemma RtlpEncodeLittleEndianAcl_correct:
  assumes "acl_at m a" and "\<forall>ace \<in> set (acl_aces a). le_entry ace" and "acl_used a \<le> length d"
    and "acl_used a \<le> unat sz"
  shows "if \<forall>ace \<in> set (acl_aces a). std_ace_type (ace ! 0)
    then RtlpEncodeLittleEndianAcl m d sz =
      Some (STATUS_SUCCESS, acl_bytes (a\<lparr>acl_size := word_of_nat (acl_used a)\<rparr>) @ drop (acl_used a) d,
        word_of_nat (acl_used a))
    else \<exists>b. RtlpEncodeLittleEndianAcl m d sz = Some (STATUS_INVALID_ACL, b, 0)"
proof -
  let ?n = "length (acl_aces a)" and ?u = "word_of_nat (acl_used a) :: USHORT"
  let ?h = "acl_hdr (acl_rev a) ?u ?n"
  have v: "acl_valid a" and u: "8 \<le> length d"
    using assms by (simp_all add: acl_at_def acl_used_def)
  have m: "m = acl_hdr (acl_rev a) (acl_size a) ?n @ concat (acl_aces a) @ drop (acl_used a) m"
    using acl_at_split[OF assms(1)] by (simp add: acl_bytes_def)
  have z: "acl_Sbz1 m = Some 0" "acl_Sbz2 m = Some 0"
    by (subst m, simp)+
  have n: "unat (word_of_nat ?n :: USHORT) = ?n" and us: "ucast ?u = (word_of_nat (acl_used a) :: ULONG)"
    using acl_valid_bounds[OF v] by (simp_all add: unat_short ucast_short)
  have fit: "\<not> sz < word_of_nat (acl_used a)"
    using assms(4) acl_valid_bounds(1)[OF v] by (simp add: word_less_nat_alt unat_of_nat_small)
  note loop = encode_ace_loop_correct[OF assms(1-3), of 0 ?n ?h]
  show ?thesis
    using write_header[OF u, of "acl_rev a" ?u ?n] acl_at_fields[OF assms(1)] z n us fit loop
      RtlValidAcl_complete[OF assms(1)]
    by (auto simp: RtlpEncodeLittleEndianAcl_def bind_eq_Some_conv acl_bytes_def split: if_splits)
qed

text \<open>The encoder stores a list with the size it uses.\<close>

definition trim_acl :: "ACL \<Rightarrow> ACL" where
  "trim_acl a = a\<lparr>acl_size := word_of_nat (acl_used a)\<rparr>"

lemma acl_used_trim [simp]: "acl_used (trim_acl a) = acl_used a"
  by (simp add: trim_acl_def acl_used_def)

lemma acl_at_trim:
  assumes "acl_at m a"
  shows "acl_at (acl_bytes (trim_acl a) @ x) (trim_acl a)"
proof -
  have v: "acl_valid a"
    using assms by (simp add: acl_at_def)
  have u: "unat (word_of_nat (acl_used a) :: USHORT) = acl_used a"
    using acl_valid_bounds(1)[OF v] by (rule unat_short)
  then have "acl_valid (trim_acl a)"
    using v acl_used_trim[of a] by (simp add: acl_valid_def) (simp add: trim_acl_def)
  then show ?thesis
    using u by (intro acl_at_append) (simp_all add: trim_acl_def acl_bytes_def acl_used_def)
qed

lemma le_entry_image:
  assumes v: "std_ace_type (a_type e)" "LW_IS_VALID_FLAGS (a_flags e) VALID_ACE_FLAGS_MASK" "sid_valid (a_sid e)"
  shows "le_entry (ace_bytes e)" and "std_ace_type (ace_bytes e ! 0)"
proof -
  have t: "ace_bytes e ! 0 = a_type e" and d: "drop 8 (ace_bytes e) = sid_bytes (a_sid e)"
    by (simp_all add: ace_bytes_def)
  have o: "ace_sid_offset (ace_bytes e) = 8"
    using v(1) t by (simp add: ace_sid_offset_def)
  have l: "length (ace_bytes e) = 8 + sid_length (a_sid e)"
    using v(3) by (simp add: length_ace_bytes ace_length_def sid_ace_length_def)
  show "le_entry (ace_bytes e)" "std_ace_type (ace_bytes e ! 0)"
    using v t d o l sid_of_bytes[of "a_sid e" "[]"] ace_wf_bytes[of e] by (simp_all add: le_entry_def)
qed

lemma le_entry_bytes: "ace_valid e \<Longrightarrow> le_entry (ace_bytes e)" "ace_valid e \<Longrightarrow> std_ace_type (ace_bytes e ! 0)"
  using le_entry_image[of e] by (simp_all add: ace_valid_def)

section \<open>Properties\<close>

definition sample_entry :: ACE where
  "sample_entry = mk_ace 0 0 0x1F01FF (mk_sid [0,0,0,0,0,1] [0])"

lemma sample_entry_valid: "ace_valid sample_entry" "acl_aces sample_acl = map ace_bytes [sample_entry]"
  by (simp_all add: sample_entry_def ace_valid_def std_ace_type_def LW_IS_VALID_FLAGS_def ace_mask_ok_def sid_valid_def
      VALID_DACL_ACCESS_MASK_def VALID_DESIRED_ACCESS_MASK_def VALID_SACL_ACCESS_MASK_def sample_acl_def sample_ace_def
      ace_bytes_def sid_bytes_def ace_length_def sid_ace_length_def sid_length_def enc16_def enc32_def)

text \<open>C12. What the validator of untrusted buffers accepts is a well-formed list inside the buffer, and decoding it
  into a block of its size succeeds: validated bytes cannot make the decoder fail or leave its buffers.\<close>

theorem validated_acl_decodes:
  assumes "RtlpIsValidLittleEndianAclBuffer m sz = Some (True, u)" and "unat sz \<le> length m" and "unat u \<le> length d"
  shows "\<exists>a. acl_at m a \<and> unat (acl_size a) = unat u \<and> unat u \<le> unat sz
    \<and> RtlpDecodeLittleEndianAcl m d =
      Some (STATUS_SUCCESS, acl_bytes (a\<lparr>acl_aces := map swap_guids (acl_aces a)\<rparr>) @ drop (acl_used a) d)"
proof -
  obtain a where a: "acl_at m a" "unat u = unat (acl_size a)" "unat u \<le> unat sz"
    "\<forall>ace \<in> set (acl_aces a). le_entry ace"
    using RtlpIsValidLittleEndianAclBuffer_sound[OF assms(1,2)] by blast
  then have "acl_used a \<le> length d"
    using assms(3) by (simp add: acl_at_def acl_valid_def)
  then show ?thesis
    using RtlpDecodeLittleEndianAcl_correct[OF a(1,4)] a(1-3) by auto
qed

theorem validated_acl_decodes_witness:
  "\<exists>a. acl_at sample_block a \<and> unat (acl_size a) = 48 \<and> RtlpDecodeLittleEndianAcl sample_block (replicate 48 7) =
    Some (STATUS_SUCCESS, acl_bytes (a\<lparr>acl_aces := map swap_guids (acl_aces a)\<rparr>) @ drop (acl_used a) (replicate 48 7))"
proof -
  have l: "unat (48 :: ULONG) \<le> length sample_block" "acl_size sample_acl = 48"
    by (simp_all add: sample_acl_def sample_block_def sample_ace_def)
  then have "RtlpIsValidLittleEndianAclBuffer sample_block 48 = Some (True, 48)"
    using RtlpIsValidLittleEndianAclBuffer_complete[OF sample_acl_at, of "[sample_entry]" 48] sample_entry_valid by simp
  from validated_acl_decodes[OF this l(1), of "replicate 48 7"] show ?thesis
    by auto
qed



end
