(* ===== verification/Security_Sd.thy ===== *)
theory Security_Sd
  imports Security_Acl_Codec
begin

text \<open>
  Absolute security descriptors: the header checks, the accessors and the modifiers of
  \<^verbatim>\<open>security-sd.c\<close>.  The four pointers of the structure are optional blocks of bytes.  The
  getters and setters of the two identifiers and of the two lists share their code; what
  they promise of each other is stated once, for the field they are given.
\<close>

abbreviation (input) SECURITY_DESCRIPTOR_REVISION :: "'a::len word" where "SECURITY_DESCRIPTOR_REVISION \<equiv> 1"
abbreviation (input) SECURITY_DESCRIPTOR_ABSOLUTE_MIN_SIZE :: ULONG where "SECURITY_DESCRIPTOR_ABSOLUTE_MIN_SIZE \<equiv> 40"
abbreviation (input) SECURITY_DESCRIPTOR_RELATIVE_MIN_SIZE :: ULONG where "SECURITY_DESCRIPTOR_RELATIVE_MIN_SIZE \<equiv> 20"

abbreviation (input) SE_OWNER_DEFAULTED :: USHORT where "SE_OWNER_DEFAULTED \<equiv> 0x0001"
abbreviation (input) SE_GROUP_DEFAULTED :: USHORT where "SE_GROUP_DEFAULTED \<equiv> 0x0002"
abbreviation (input) SE_DACL_PRESENT :: USHORT where "SE_DACL_PRESENT \<equiv> 0x0004"
abbreviation (input) SE_DACL_DEFAULTED :: USHORT where "SE_DACL_DEFAULTED \<equiv> 0x0008"
abbreviation (input) SE_SACL_PRESENT :: USHORT where "SE_SACL_PRESENT \<equiv> 0x0010"
abbreviation (input) SE_SACL_DEFAULTED :: USHORT where "SE_SACL_DEFAULTED \<equiv> 0x0020"
abbreviation (input) SE_DACL_AUTO_INHERIT_REQ :: USHORT where "SE_DACL_AUTO_INHERIT_REQ \<equiv> 0x0100"
abbreviation (input) SE_SACL_AUTO_INHERIT_REQ :: USHORT where "SE_SACL_AUTO_INHERIT_REQ \<equiv> 0x0200"
abbreviation (input) SE_DACL_AUTO_INHERITED :: USHORT where "SE_DACL_AUTO_INHERITED \<equiv> 0x0400"
abbreviation (input) SE_SACL_AUTO_INHERITED :: USHORT where "SE_SACL_AUTO_INHERITED \<equiv> 0x0800"
abbreviation (input) SE_DACL_PROTECTED :: USHORT where "SE_DACL_PROTECTED \<equiv> 0x1000"
abbreviation (input) SE_SACL_PROTECTED :: USHORT where "SE_SACL_PROTECTED \<equiv> 0x2000"
abbreviation (input) SE_RM_CONTROL_VALID :: USHORT where "SE_RM_CONTROL_VALID \<equiv> 0x4000"
abbreviation (input) SE_SELF_RELATIVE :: USHORT where "SE_SELF_RELATIVE \<equiv> 0x8000"

definition SE_SET_SECURITY_DESCRIPTOR_CONTROL_MASK :: USHORT where
  "SE_SET_SECURITY_DESCRIPTOR_CONTROL_MASK = 0x0040 OR 0x0080 OR 0x0100 OR 0x0200 OR 0x0400 OR 0x0800
     OR 0x1000 OR 0x2000"

abbreviation (input) OWNER_SECURITY_INFORMATION :: ULONG where "OWNER_SECURITY_INFORMATION \<equiv> 1"
abbreviation (input) GROUP_SECURITY_INFORMATION :: ULONG where "GROUP_SECURITY_INFORMATION \<equiv> 2"
abbreviation (input) DACL_SECURITY_INFORMATION :: ULONG where "DACL_SECURITY_INFORMATION \<equiv> 4"
abbreviation (input) SACL_SECURITY_INFORMATION :: ULONG where "SACL_SECURITY_INFORMATION \<equiv> 8"
abbreviation (input) VALID_SECURITY_INFORMATION_MASK :: ULONG where "VALID_SECURITY_INFORMATION_MASK \<equiv> 15"

record SECURITY_DESCRIPTOR_ABSOLUTE =
  sd_Revision :: UCHAR
  sd_Sbz1 :: UCHAR
  sd_Control :: USHORT
  sd_Owner :: "mem option"
  sd_Group :: "mem option"
  sd_Sacl :: "mem option"
  sd_Dacl :: "mem option"

section \<open>Operations\<close>

definition RtlCreateSecurityDescriptorAbsolute ::
    "SECURITY_DESCRIPTOR_ABSOLUTE \<Rightarrow> ULONG \<Rightarrow> NTSTATUS \<times> SECURITY_DESCRIPTOR_ABSOLUTE" where
  "RtlCreateSecurityDescriptorAbsolute SecurityDescriptor SdRevision =
    (if SdRevision \<noteq> SECURITY_DESCRIPTOR_REVISION then (STATUS_UNKNOWN_REVISION, SecurityDescriptor)
     else (STATUS_SUCCESS,
       \<lparr> sd_Revision = ucast SdRevision, sd_Sbz1 = 0, sd_Control = 0, sd_Owner = None, sd_Group = None,
         sd_Sacl = None, sd_Dacl = None \<rparr>))"

definition RtlpVerifySecurityDescriptorHeader :: "SECURITY_DESCRIPTOR_ABSOLUTE \<Rightarrow> NTSTATUS" where
  "RtlpVerifySecurityDescriptorHeader SecurityDescriptor =
    (let control = sd_Control SecurityDescriptor in
     if sd_Revision SecurityDescriptor \<noteq> SECURITY_DESCRIPTOR_REVISION then STATUS_UNKNOWN_REVISION
     else if sd_Sbz1 SecurityDescriptor \<noteq> 0 \<and> \<not> IsSetFlag control SE_RM_CONTROL_VALID
     then STATUS_INVALID_SECURITY_DESCR
     else if IsSetFlag control SE_SELF_RELATIVE then STATUS_INVALID_SECURITY_DESCR
     else if sd_Owner SecurityDescriptor = None \<and> IsSetFlag control SE_OWNER_DEFAULTED
     then STATUS_INVALID_SECURITY_DESCR
     else if sd_Group SecurityDescriptor = None \<and> IsSetFlag control SE_GROUP_DEFAULTED
     then STATUS_INVALID_SECURITY_DESCR
     else if \<not> IsSetFlag control SE_DACL_PRESENT
        \<and> (sd_Dacl SecurityDescriptor \<noteq> None \<or> IsSetFlag control SE_DACL_DEFAULTED)
     then STATUS_INVALID_SECURITY_DESCR
     else if \<not> IsSetFlag control SE_SACL_PRESENT
        \<and> (sd_Sacl SecurityDescriptor \<noteq> None \<or> IsSetFlag control SE_SACL_DEFAULTED)
     then STATUS_INVALID_SECURITY_DESCR
     else STATUS_SUCCESS)"

text \<open>The test \<^verbatim>\<open>p && !valid(p)\<close> of an optional block, negated.\<close>

definition null_or :: "(mem \<Rightarrow> bool option) \<Rightarrow> mem option \<Rightarrow> bool option" where
  "null_or valid p = (case p of None \<Rightarrow> Some True | Some m \<Rightarrow> valid m)"

definition RtlValidSecurityDescriptor :: "SECURITY_DESCRIPTOR_ABSOLUTE \<Rightarrow> bool option" where
  "RtlValidSecurityDescriptor SecurityDescriptor =
    (let validSid = (\<lambda>m. RtlValidSid (Some m));
         validAcl = (\<lambda>m. do { (v, _) \<leftarrow> RtlValidAcl (Some m); Some v }) in
     if \<not> NT_SUCCESS (RtlpVerifySecurityDescriptorHeader SecurityDescriptor) then Some False
     else do {
       ok \<leftarrow> null_or validSid (sd_Owner SecurityDescriptor);
       if \<not> ok then Some False
       else do {
         ok \<leftarrow> null_or validSid (sd_Group SecurityDescriptor);
         if \<not> ok then Some False
         else do {
           ok \<leftarrow> null_or validAcl (sd_Dacl SecurityDescriptor);
           if \<not> ok then Some False
           else null_or validAcl (sd_Sacl SecurityDescriptor)
         }
       }
     })"

text \<open>The length of an optional part, 0 when the pointer is NULL.\<close>

definition null_or_length :: "(mem \<Rightarrow> ULONG option) \<Rightarrow> mem option \<Rightarrow> ULONG option" where
  "null_or_length len p = (case p of None \<Rightarrow> Some 0 | Some m \<Rightarrow> len m)"

definition RtlLengthSecurityDescriptor :: "SECURITY_DESCRIPTOR_ABSOLUTE \<Rightarrow> ULONG option" where
  "RtlLengthSecurityDescriptor SecurityDescriptor =
    (let aclSize = (\<lambda>m. do { s \<leftarrow> acl_AclSize m; Some (ucast s) }) in
     do {
       o1 \<leftarrow> null_or_length RtlLengthSid (sd_Owner SecurityDescriptor);
       g \<leftarrow> null_or_length RtlLengthSid (sd_Group SecurityDescriptor);
       d \<leftarrow> null_or_length aclSize (sd_Dacl SecurityDescriptor);
       s \<leftarrow> null_or_length aclSize (sd_Sacl SecurityDescriptor);
       Some (SECURITY_DESCRIPTOR_ABSOLUTE_MIN_SIZE + o1 + g + d + s)
     })"

definition RtlGetSecurityDescriptorControl ::
    "SECURITY_DESCRIPTOR_ABSOLUTE \<Rightarrow> NTSTATUS \<times> USHORT \<times> UCHAR" where
  "RtlGetSecurityDescriptorControl SecurityDescriptor =
    (let status = RtlpVerifySecurityDescriptorHeader SecurityDescriptor in
     if status \<noteq> STATUS_SUCCESS then (status, 0, 0)
     else (status, sd_Control SecurityDescriptor, sd_Revision SecurityDescriptor))"

definition RtlSetSecurityDescriptorControl ::
    "SECURITY_DESCRIPTOR_ABSOLUTE \<Rightarrow> USHORT \<Rightarrow> USHORT \<Rightarrow> NTSTATUS \<times> SECURITY_DESCRIPTOR_ABSOLUTE" where
  "RtlSetSecurityDescriptorControl SecurityDescriptor BitsToChange BitsToSet =
    (let status = RtlpVerifySecurityDescriptorHeader SecurityDescriptor in
     if status \<noteq> STATUS_SUCCESS then (status, SecurityDescriptor)
     else if \<not> LW_IS_VALID_FLAGS BitsToChange SE_SET_SECURITY_DESCRIPTOR_CONTROL_MASK
        \<or> (BitsToChange OR BitsToSet) AND NOT BitsToChange \<noteq> 0
     then (STATUS_INVALID_PARAMETER, SecurityDescriptor)
     else
       (let control = SetFlag (sd_Control SecurityDescriptor) BitsToSet;
            bitsToClear = BitsToChange AND NOT BitsToSet in
        (STATUS_SUCCESS, SecurityDescriptor\<lparr>sd_Control := ClearFlag control bitsToClear\<rparr>)))"

text \<open>The location argument of the shared getters and setters is a field: its reader, or its
  writer.\<close>

definition RtlpGetSidSecurityDescriptor ::
    "SECURITY_DESCRIPTOR_ABSOLUTE \<Rightarrow> (SECURITY_DESCRIPTOR_ABSOLUTE \<Rightarrow> mem option) \<Rightarrow> USHORT \<Rightarrow>
     NTSTATUS \<times> mem option \<times> bool" where
  "RtlpGetSidSecurityDescriptor SecurityDescriptor SidLocation DefaultedBit =
    (let status = RtlpVerifySecurityDescriptorHeader SecurityDescriptor in
     if status \<noteq> STATUS_SUCCESS then (status, None, False)
     else (status, SidLocation SecurityDescriptor, IsSetFlag (sd_Control SecurityDescriptor) DefaultedBit))"

definition RtlGetOwnerSecurityDescriptor ::
    "SECURITY_DESCRIPTOR_ABSOLUTE \<Rightarrow> NTSTATUS \<times> mem option \<times> bool" where
  "RtlGetOwnerSecurityDescriptor SecurityDescriptor =
     RtlpGetSidSecurityDescriptor SecurityDescriptor sd_Owner SE_OWNER_DEFAULTED"

definition RtlGetGroupSecurityDescriptor ::
    "SECURITY_DESCRIPTOR_ABSOLUTE \<Rightarrow> NTSTATUS \<times> mem option \<times> bool" where
  "RtlGetGroupSecurityDescriptor SecurityDescriptor =
     RtlpGetSidSecurityDescriptor SecurityDescriptor sd_Group SE_GROUP_DEFAULTED"

definition RtlpGetAclSecurityDescriptor ::
    "SECURITY_DESCRIPTOR_ABSOLUTE \<Rightarrow> USHORT \<Rightarrow> (SECURITY_DESCRIPTOR_ABSOLUTE \<Rightarrow> mem option) \<Rightarrow> USHORT \<Rightarrow>
     NTSTATUS \<times> bool \<times> mem option \<times> bool" where
  "RtlpGetAclSecurityDescriptor SecurityDescriptor PresentBit AclLocation DefaultedBit =
    (let status = RtlpVerifySecurityDescriptorHeader SecurityDescriptor in
     if status \<noteq> STATUS_SUCCESS then (status, False, None, False)
     else (status, IsSetFlag (sd_Control SecurityDescriptor) PresentBit, AclLocation SecurityDescriptor,
           IsSetFlag (sd_Control SecurityDescriptor) DefaultedBit))"

definition RtlGetSaclSecurityDescriptor ::
    "SECURITY_DESCRIPTOR_ABSOLUTE \<Rightarrow> NTSTATUS \<times> bool \<times> mem option \<times> bool" where
  "RtlGetSaclSecurityDescriptor SecurityDescriptor =
     RtlpGetAclSecurityDescriptor SecurityDescriptor SE_SACL_PRESENT sd_Sacl SE_SACL_DEFAULTED"

definition RtlGetDaclSecurityDescriptor ::
    "SECURITY_DESCRIPTOR_ABSOLUTE \<Rightarrow> NTSTATUS \<times> bool \<times> mem option \<times> bool" where
  "RtlGetDaclSecurityDescriptor SecurityDescriptor =
     RtlpGetAclSecurityDescriptor SecurityDescriptor SE_DACL_PRESENT sd_Dacl SE_DACL_DEFAULTED"

definition RtlpSetSidSecurityDescriptor ::
    "SECURITY_DESCRIPTOR_ABSOLUTE \<Rightarrow> (mem option \<Rightarrow> SECURITY_DESCRIPTOR_ABSOLUTE \<Rightarrow> SECURITY_DESCRIPTOR_ABSOLUTE) \<Rightarrow>
     USHORT \<Rightarrow> mem option \<Rightarrow> bool \<Rightarrow> NTSTATUS \<times> SECURITY_DESCRIPTOR_ABSOLUTE" where
  "RtlpSetSidSecurityDescriptor SecurityDescriptor SidLocation DefaultedBit Sid IsSidDefaulted =
    (if Sid = None \<and> IsSidDefaulted then (STATUS_INVALID_PARAMETER, SecurityDescriptor)
     else
       (let status = RtlpVerifySecurityDescriptorHeader SecurityDescriptor in
        if status \<noteq> STATUS_SUCCESS then (status, SecurityDescriptor)
        else
          (let sd = SidLocation Sid SecurityDescriptor in
           (status, sd\<lparr>sd_Control := (if IsSidDefaulted then SetFlag (sd_Control sd) DefaultedBit
                                      else ClearFlag (sd_Control sd) DefaultedBit)\<rparr>))))"

definition RtlSetOwnerSecurityDescriptor ::
    "SECURITY_DESCRIPTOR_ABSOLUTE \<Rightarrow> mem option \<Rightarrow> bool \<Rightarrow> NTSTATUS \<times> SECURITY_DESCRIPTOR_ABSOLUTE" where
  "RtlSetOwnerSecurityDescriptor SecurityDescriptor Owner IsOwnerDefaulted =
     RtlpSetSidSecurityDescriptor SecurityDescriptor (\<lambda>p. sd_Owner_update (\<lambda>_. p)) SE_OWNER_DEFAULTED
       Owner IsOwnerDefaulted"

definition RtlSetGroupSecurityDescriptor ::
    "SECURITY_DESCRIPTOR_ABSOLUTE \<Rightarrow> mem option \<Rightarrow> bool \<Rightarrow> NTSTATUS \<times> SECURITY_DESCRIPTOR_ABSOLUTE" where
  "RtlSetGroupSecurityDescriptor SecurityDescriptor Group IsGroupDefaulted =
     RtlpSetSidSecurityDescriptor SecurityDescriptor (\<lambda>p. sd_Group_update (\<lambda>_. p)) SE_GROUP_DEFAULTED
       Group IsGroupDefaulted"

definition RtlpSetAclSecurityDescriptor ::
    "SECURITY_DESCRIPTOR_ABSOLUTE \<Rightarrow> USHORT \<Rightarrow>
     (mem option \<Rightarrow> SECURITY_DESCRIPTOR_ABSOLUTE \<Rightarrow> SECURITY_DESCRIPTOR_ABSOLUTE) \<Rightarrow>
     USHORT \<Rightarrow> bool \<Rightarrow> mem option \<Rightarrow> bool \<Rightarrow> NTSTATUS \<times> SECURITY_DESCRIPTOR_ABSOLUTE" where
  "RtlpSetAclSecurityDescriptor SecurityDescriptor PresentBit AclLocation DefaultedBit IsAclPresent Acl IsAclDefaulted =
    (let status = RtlpVerifySecurityDescriptorHeader SecurityDescriptor in
     if status \<noteq> STATUS_SUCCESS then (status, SecurityDescriptor)
     else
       (let control = (if IsAclPresent then SetFlag (sd_Control SecurityDescriptor) PresentBit
                       else ClearFlag (sd_Control SecurityDescriptor) PresentBit);
            acl = (if IsAclPresent then Acl else None);
            isAclDefaulted = (if IsAclPresent then IsAclDefaulted else False);
            sd = AclLocation acl (SecurityDescriptor\<lparr>sd_Control := control\<rparr>) in
        (status, sd\<lparr>sd_Control := (if isAclDefaulted then SetFlag (sd_Control sd) DefaultedBit
                                   else ClearFlag (sd_Control sd) DefaultedBit)\<rparr>)))"

definition RtlSetSaclSecurityDescriptor ::
    "SECURITY_DESCRIPTOR_ABSOLUTE \<Rightarrow> bool \<Rightarrow> mem option \<Rightarrow> bool \<Rightarrow> NTSTATUS \<times> SECURITY_DESCRIPTOR_ABSOLUTE" where
  "RtlSetSaclSecurityDescriptor SecurityDescriptor IsSaclPresent Sacl IsSaclDefaulted =
     RtlpSetAclSecurityDescriptor SecurityDescriptor SE_SACL_PRESENT (\<lambda>p. sd_Sacl_update (\<lambda>_. p))
       SE_SACL_DEFAULTED IsSaclPresent Sacl IsSaclDefaulted"

definition RtlSetDaclSecurityDescriptor ::
    "SECURITY_DESCRIPTOR_ABSOLUTE \<Rightarrow> bool \<Rightarrow> mem option \<Rightarrow> bool \<Rightarrow> NTSTATUS \<times> SECURITY_DESCRIPTOR_ABSOLUTE" where
  "RtlSetDaclSecurityDescriptor SecurityDescriptor IsDaclPresent Dacl IsDaclDefaulted =
     RtlpSetAclSecurityDescriptor SecurityDescriptor SE_DACL_PRESENT (\<lambda>p. sd_Dacl_update (\<lambda>_. p))
       SE_DACL_DEFAULTED IsDaclPresent Dacl IsDaclDefaulted"

text \<open>The size of the parts in use.  An invalid header leaves through the cleanup label with the
  status still successful and the size of the bare structure.\<close>

definition size_used_part ::
    "(mem \<Rightarrow> (bool \<times> ULONG) option) \<Rightarrow> mem option \<Rightarrow> ULONG \<Rightarrow> ULONG option option" where
  "size_used_part check p sz =
    (case p of
       None \<Rightarrow> Some (Some sz)
     | Some m \<Rightarrow> do { (v, l) \<leftarrow> check m; Some (if v then Some (sz + l) else None) })"

definition sid_size_check :: "mem \<Rightarrow> (bool \<times> ULONG) option" where
  "sid_size_check m = do {
     v \<leftarrow> RtlValidSid (Some m);
     if \<not> v then Some (False, 0) else do { l \<leftarrow> RtlLengthSid m; Some (True, l) }
   }"

definition acl_size_check :: "mem \<Rightarrow> (bool \<times> ULONG) option" where
  "acl_size_check m = do { (v, u) \<leftarrow> RtlValidAcl (Some m); Some (v, ucast u) }"

definition RtlpGetSizeUsedSecurityDescriptor ::
    "SECURITY_DESCRIPTOR_ABSOLUTE \<Rightarrow> (NTSTATUS \<times> ULONG) option" where
  "RtlpGetSizeUsedSecurityDescriptor SecurityDescriptor =
    (let size = SECURITY_DESCRIPTOR_ABSOLUTE_MIN_SIZE;
         invalid = Some (STATUS_INVALID_SECURITY_DESCR, 0) in
     if \<not> NT_SUCCESS (RtlpVerifySecurityDescriptorHeader SecurityDescriptor) then Some (STATUS_SUCCESS, size)
     else do {
       r \<leftarrow> size_used_part sid_size_check (sd_Owner SecurityDescriptor) size;
       case r of None \<Rightarrow> invalid | Some size \<Rightarrow> do {
         r \<leftarrow> size_used_part sid_size_check (sd_Group SecurityDescriptor) size;
         case r of None \<Rightarrow> invalid | Some size \<Rightarrow> do {
           r \<leftarrow> size_used_part acl_size_check (sd_Dacl SecurityDescriptor) size;
           case r of None \<Rightarrow> invalid | Some size \<Rightarrow> do {
             r \<leftarrow> size_used_part acl_size_check (sd_Sacl SecurityDescriptor) size;
             case r of None \<Rightarrow> invalid | Some size \<Rightarrow> Some (STATUS_SUCCESS, size)
           }
         }
       }
     })"

section \<open>Flags\<close>

lemma IsSetFlag_SetFlag: "IsSetFlag (SetFlag c b) g \<longleftrightarrow> IsSetFlag c g \<or> b AND g \<noteq> 0"
  by (auto simp: IsSetFlag_def SetFlag_def bit.conj_disj_distrib2 or_eq_0_iff)

lemma IsSetFlag_ClearFlag_other: "b AND g = 0 \<Longrightarrow> IsSetFlag (ClearFlag c b) g \<longleftrightarrow> IsSetFlag c g"
proof -
  assume "b AND g = 0"
  then have "c AND NOT b AND g = c AND g"
    by (intro bit_word_eqI) (auto simp: bit_simps dest: arg_cong[where f = "\<lambda>w. bit w _"])
  then show ?thesis
    by (simp add: IsSetFlag_def ClearFlag_def and.assoc)
qed

lemma IsSetFlag_ClearFlag_same: "\<not> IsSetFlag (ClearFlag c b) b"
  by (simp add: IsSetFlag_def ClearFlag_def and.assoc)

lemmas flag_simps = IsSetFlag_SetFlag IsSetFlag_ClearFlag_other IsSetFlag_ClearFlag_same

section \<open>The header invariant\<close>

definition sd_header_ok :: "SECURITY_DESCRIPTOR_ABSOLUTE \<Rightarrow> bool" where
  "sd_header_ok sd \<longleftrightarrow> sd_Revision sd = 1 \<and> (sd_Sbz1 sd = 0 \<or> IsSetFlag (sd_Control sd) SE_RM_CONTROL_VALID)
     \<and> \<not> IsSetFlag (sd_Control sd) SE_SELF_RELATIVE
     \<and> (IsSetFlag (sd_Control sd) SE_OWNER_DEFAULTED \<longrightarrow> sd_Owner sd \<noteq> None)
     \<and> (IsSetFlag (sd_Control sd) SE_GROUP_DEFAULTED \<longrightarrow> sd_Group sd \<noteq> None)
     \<and> (sd_Dacl sd \<noteq> None \<or> IsSetFlag (sd_Control sd) SE_DACL_DEFAULTED \<longrightarrow>
          IsSetFlag (sd_Control sd) SE_DACL_PRESENT)
     \<and> (sd_Sacl sd \<noteq> None \<or> IsSetFlag (sd_Control sd) SE_SACL_DEFAULTED \<longrightarrow>
          IsSetFlag (sd_Control sd) SE_SACL_PRESENT)"

lemma verify_header_iff: "RtlpVerifySecurityDescriptorHeader sd = STATUS_SUCCESS \<longleftrightarrow> sd_header_ok sd"
  by (auto simp: RtlpVerifySecurityDescriptorHeader_def sd_header_ok_def Let_def)

lemma verify_header_NT_SUCCESS: "NT_SUCCESS (RtlpVerifySecurityDescriptorHeader sd) \<longleftrightarrow> sd_header_ok sd"
  by (auto simp: RtlpVerifySecurityDescriptorHeader_def sd_header_ok_def Let_def)

lemma RtlCreateSecurityDescriptorAbsolute_ok:
  "RtlCreateSecurityDescriptorAbsolute sd 1 = (STATUS_SUCCESS, sd') \<Longrightarrow> sd_header_ok sd'"
  by (auto simp: RtlCreateSecurityDescriptorAbsolute_def sd_header_ok_def IsSetFlag_def)

text \<open>Exactly the requested control bits change.\<close>

lemma RtlSetSecurityDescriptorControl_ok:
  assumes "RtlSetSecurityDescriptorControl sd chg new = (STATUS_SUCCESS, sd')"
  shows "sd_header_ok sd'"
    and "bit (sd_Control sd') n \<longleftrightarrow> (if bit chg n then bit new n else bit (sd_Control sd) n)"
    and "sd' = sd\<lparr>sd_Control := sd_Control sd'\<rparr>"
proof -
  from assms have ok: "sd_header_ok sd" and v: "LW_IS_VALID_FLAGS chg SE_SET_SECURITY_DESCRIPTOR_CONTROL_MASK"
    and sub: "(chg OR new) AND NOT chg = 0"
    and sd': "sd' = sd\<lparr>sd_Control := ClearFlag (SetFlag (sd_Control sd) new) (chg AND NOT new)\<rparr>"
    by (auto simp: RtlSetSecurityDescriptorControl_def verify_header_iff Let_def split: if_splits)
  have sub': "bit new k \<Longrightarrow> bit chg k" for k
    using arg_cong[OF sub, of "\<lambda>w. bit w k"] bit_imp_le_length[of new k] by (auto simp: bit_simps)
  show b: "bit (sd_Control sd') n \<longleftrightarrow> (if bit chg n then bit new n else bit (sd_Control sd) n)" for n
    using sub'[of n] bit_imp_le_length[of "sd_Control sd" n] bit_imp_le_length[of new n]
    by (auto simp: sd' ClearFlag_def SetFlag_def bit_simps)
  show "sd' = sd\<lparr>sd_Control := sd_Control sd'\<rparr>"
    by (simp add: sd')
  have "sd_Control sd' AND g = sd_Control sd AND g" if "SE_SET_SECURITY_DESCRIPTOR_CONTROL_MASK AND g = 0" for g
  proof (rule bit_word_eqI)
    fix k
    assume k: "k < LENGTH(16)"
    have "bit chg k \<Longrightarrow> bit SE_SET_SECURITY_DESCRIPTOR_CONTROL_MASK k"
      using arg_cong[OF v[unfolded LW_IS_VALID_FLAGS_def], of "\<lambda>w. bit w k"] k by (auto simp: bit_simps)
    then show "bit (sd_Control sd' AND g) k \<longleftrightarrow> bit (sd_Control sd AND g) k"
      using b[of k] arg_cong[OF that, of "\<lambda>w. bit w k"] by (auto simp: bit_simps)
  qed
  then have "IsSetFlag (sd_Control sd') g = IsSetFlag (sd_Control sd) g"
    if "SE_SET_SECURITY_DESCRIPTOR_CONTROL_MASK AND g = 0" for g
    using that by (simp add: IsSetFlag_def)
  then show "sd_header_ok sd'"
    using ok by (simp add: sd_header_ok_def SE_SET_SECURITY_DESCRIPTOR_CONTROL_MASK_def) (simp add: sd')
qed

section \<open>The fields\<close>

text \<open>What the shared getter and setter rely on of the identifier field and the control bit they
  are given.\<close>

locale sd_sid_field =
  fixes get :: "SECURITY_DESCRIPTOR_ABSOLUTE \<Rightarrow> mem option"
    and put :: "mem option \<Rightarrow> SECURITY_DESCRIPTOR_ABSOLUTE \<Rightarrow> SECURITY_DESCRIPTOR_ABSOLUTE"
    and def_bit :: USHORT
  assumes get_put: "get (put p sd) = p"
    and get_control: "get (sd\<lparr>sd_Control := c\<rparr>) = get sd"
    and control_put: "sd_Control (put p sd) = sd_Control sd"
    and bit_nz: "def_bit \<noteq> 0"
    and set_ok: "sd_header_ok sd \<Longrightarrow> p \<noteq> None \<Longrightarrow>
      sd_header_ok ((put p sd)\<lparr>sd_Control := SetFlag (sd_Control sd) def_bit\<rparr>)"
    and clear_ok: "sd_header_ok sd \<Longrightarrow>
      sd_header_ok ((put p sd)\<lparr>sd_Control := ClearFlag (sd_Control sd) def_bit\<rparr>)"
begin

lemma set_cases:
  "RtlpSetSidSecurityDescriptor sd put def_bit p d =
    (if p = None \<and> d then (STATUS_INVALID_PARAMETER, sd)
     else if \<not> sd_header_ok sd then (RtlpVerifySecurityDescriptorHeader sd, sd)
     else (STATUS_SUCCESS, (put p sd)\<lparr>sd_Control := (if d then SetFlag (sd_Control sd) def_bit
                                                    else ClearFlag (sd_Control sd) def_bit)\<rparr>))"
  using verify_header_iff[of sd] by (auto simp: RtlpSetSidSecurityDescriptor_def Let_def control_put)

lemma set_header:
  "RtlpSetSidSecurityDescriptor sd put def_bit p d = (STATUS_SUCCESS, sd') \<Longrightarrow> sd_header_ok sd'"
  using verify_header_iff[of sd] by (auto simp: set_cases set_ok clear_ok split: if_splits)

lemma get_set:
  assumes "RtlpSetSidSecurityDescriptor sd put def_bit p d = (STATUS_SUCCESS, sd')"
  shows "RtlpGetSidSecurityDescriptor sd' get def_bit = (STATUS_SUCCESS, p, d)"
proof -
  have "get sd' = p" "IsSetFlag (sd_Control sd') def_bit = d"
    using assms verify_header_iff[of sd] bit_nz
    by (auto simp: set_cases get_put get_control flag_simps split: if_splits)
  then show ?thesis
    using set_header[OF assms] verify_header_iff[of sd'] by (simp add: RtlpGetSidSecurityDescriptor_def)
qed

end

interpretation owner: sd_sid_field sd_Owner "\<lambda>p. sd_Owner_update (\<lambda>_. p)" SE_OWNER_DEFAULTED
  by unfold_locales (auto simp: sd_header_ok_def flag_simps)

interpretation grp: sd_sid_field sd_Group "\<lambda>p. sd_Group_update (\<lambda>_. p)" SE_GROUP_DEFAULTED
  by unfold_locales (auto simp: sd_header_ok_def flag_simps)

text \<open>The same for a list, with its present bit.\<close>

locale sd_acl_field =
  fixes get :: "SECURITY_DESCRIPTOR_ABSOLUTE \<Rightarrow> mem option"
    and put :: "mem option \<Rightarrow> SECURITY_DESCRIPTOR_ABSOLUTE \<Rightarrow> SECURITY_DESCRIPTOR_ABSOLUTE"
    and pres_bit def_bit :: USHORT
  assumes get_put: "get (put p sd) = p"
    and get_control: "get (sd\<lparr>sd_Control := c\<rparr>) = get sd"
    and put_control: "(put p (sd\<lparr>sd_Control := c\<rparr>)) = (put p sd)\<lparr>sd_Control := c\<rparr>"
    and bits: "pres_bit \<noteq> 0" "def_bit \<noteq> 0" "def_bit AND pres_bit = 0"
    and present_ok: "sd_header_ok sd \<Longrightarrow>
      sd_header_ok ((put p sd)\<lparr>sd_Control := SetFlag (SetFlag (sd_Control sd) pres_bit) def_bit\<rparr>)"
      "sd_header_ok sd \<Longrightarrow>
      sd_header_ok ((put p sd)\<lparr>sd_Control := ClearFlag (SetFlag (sd_Control sd) pres_bit) def_bit\<rparr>)"
    and absent_ok: "sd_header_ok sd \<Longrightarrow>
      sd_header_ok ((put None sd)\<lparr>sd_Control := ClearFlag (ClearFlag (sd_Control sd) pres_bit) def_bit\<rparr>)"
begin

lemma set_cases:
  "RtlpSetAclSecurityDescriptor sd pres_bit put def_bit pres p d =
    (if \<not> sd_header_ok sd then (RtlpVerifySecurityDescriptorHeader sd, sd)
     else (STATUS_SUCCESS,
       if pres then (put p sd)\<lparr>sd_Control := (if d then SetFlag (SetFlag (sd_Control sd) pres_bit) def_bit
                                             else ClearFlag (SetFlag (sd_Control sd) pres_bit) def_bit)\<rparr>
       else (put None sd)\<lparr>sd_Control := ClearFlag (ClearFlag (sd_Control sd) pres_bit) def_bit\<rparr>))"
  using verify_header_iff[of sd] by (auto simp: RtlpSetAclSecurityDescriptor_def Let_def put_control)

lemma set_header:
  "RtlpSetAclSecurityDescriptor sd pres_bit put def_bit pres p d = (STATUS_SUCCESS, sd') \<Longrightarrow> sd_header_ok sd'"
  using verify_header_iff[of sd] by (auto simp: set_cases present_ok absent_ok split: if_splits)

lemma get_set:
  assumes "RtlpSetAclSecurityDescriptor sd pres_bit put def_bit pres p d = (STATUS_SUCCESS, sd')"
  shows "RtlpGetAclSecurityDescriptor sd' pres_bit get def_bit =
    (STATUS_SUCCESS, pres, if pres then p else None, pres \<and> d)"
proof -
  have "get sd' = (if pres then p else None)" "IsSetFlag (sd_Control sd') pres_bit = pres"
    "IsSetFlag (sd_Control sd') def_bit = (pres \<and> d)"
    using assms verify_header_iff[of sd] bits
    by (auto simp: set_cases get_put get_control flag_simps split: if_splits)
  then show ?thesis
    using set_header[OF assms] verify_header_iff[of sd'] by (simp add: RtlpGetAclSecurityDescriptor_def)
qed

end

interpretation dacl: sd_acl_field sd_Dacl "\<lambda>p. sd_Dacl_update (\<lambda>_. p)" SE_DACL_PRESENT SE_DACL_DEFAULTED
  by unfold_locales (auto simp: sd_header_ok_def flag_simps)

interpretation sacl: sd_acl_field sd_Sacl "\<lambda>p. sd_Sacl_update (\<lambda>_. p)" SE_SACL_PRESENT SE_SACL_DEFAULTED
  by unfold_locales (auto simp: sd_header_ok_def flag_simps)

section \<open>Validity and size\<close>

text \<open>A descriptor whose parts are valid: the identifiers and lists it holds.\<close>

definition sid_part :: "mem option \<Rightarrow> SID option \<Rightarrow> bool" where
  "sid_part p s \<longleftrightarrow> (case s of None \<Rightarrow> p = None | Some t \<Rightarrow> sid_valid t \<and> (\<exists>m. p = Some m \<and> sid_of m = Some t))"

definition acl_part :: "mem option \<Rightarrow> ACL option \<Rightarrow> bool" where
  "acl_part p a \<longleftrightarrow> (case a of None \<Rightarrow> p = None | Some b \<Rightarrow> \<exists>m. p = Some m \<and> acl_at m b)"

record SD =
  d_owner :: "SID option"
  d_group :: "SID option"
  d_sacl :: "ACL option"
  d_dacl :: "ACL option"

definition sd_holds :: "SECURITY_DESCRIPTOR_ABSOLUTE \<Rightarrow> SD \<Rightarrow> bool" where
  "sd_holds sd D \<longleftrightarrow> sd_header_ok sd \<and> sid_part (sd_Owner sd) (d_owner D) \<and> sid_part (sd_Group sd) (d_group D)
     \<and> acl_part (sd_Sacl sd) (d_sacl D) \<and> acl_part (sd_Dacl sd) (d_dacl D)"

definition sid_part_size :: "SID option \<Rightarrow> nat" where
  "sid_part_size s = (case s of None \<Rightarrow> 0 | Some t \<Rightarrow> sid_length t)"

definition acl_part_size :: "ACL option \<Rightarrow> nat" where
  "acl_part_size a = (case a of None \<Rightarrow> 0 | Some b \<Rightarrow> acl_used b)"

definition sd_parts_size :: "SD \<Rightarrow> nat" where
  "sd_parts_size D = sid_part_size (d_owner D) + sid_part_size (d_group D) + acl_part_size (d_dacl D)
     + acl_part_size (d_sacl D)"

lemma RtlValidSecurityDescriptor_holds:
  assumes "sd_holds sd D"
  shows "RtlValidSecurityDescriptor sd = Some True"
proof -
  have s: "null_or (\<lambda>m. RtlValidSid (Some m)) p = Some True" if "sid_part p s" for p s
    using that RtlValidSid_correct by (auto simp: sid_part_def null_or_def split: option.splits)
  have a: "null_or (\<lambda>m. do { (v, _) \<leftarrow> RtlValidAcl (Some m); Some v }) p = Some True" if "acl_part p a" for p a
    using that RtlValidAcl_complete by (fastforce simp: acl_part_def null_or_def split: option.splits)
  show ?thesis
    using assms s[of "sd_Owner sd" "d_owner D"] s[of "sd_Group sd" "d_group D"] a[of "sd_Sacl sd" "d_sacl D"]
      a[of "sd_Dacl sd" "d_dacl D"]
    by (simp add: RtlValidSecurityDescriptor_def sd_holds_def verify_header_NT_SUCCESS Let_def)
qed

lemma size_used_sid:
  "sid_part p s \<Longrightarrow> size_used_part sid_size_check p sz = Some (Some (sz + word_of_nat (sid_part_size s)))"
  using RtlValidSid_correct RtlLengthSid_correct
  by (auto simp: sid_part_def size_used_part_def sid_size_check_def sid_part_size_def split: option.splits)

lemma size_used_acl:
  assumes "acl_part p a"
  shows "size_used_part acl_size_check p sz = Some (Some (sz + word_of_nat (acl_part_size a)))"
proof (cases a)
  case (Some b)
  then obtain m where m: "p = Some m" "acl_at m b"
    using assms by (auto simp: acl_part_def)
  then have "ucast (word_of_nat (acl_used b) :: USHORT) = (word_of_nat (acl_used b) :: ULONG)"
    using acl_valid_bounds(1)[of b] by (simp add: ucast_short acl_at_def)
  then show ?thesis
    using Some m RtlValidAcl_complete[OF m(2)]
    by (simp add: size_used_part_def acl_size_check_def acl_part_size_def)
qed (use assms in \<open>simp add: acl_part_def size_used_part_def acl_part_size_def\<close>)

lemma RtlpGetSizeUsedSecurityDescriptor_holds:
  assumes "sd_holds sd D"
  shows "RtlpGetSizeUsedSecurityDescriptor sd = Some (STATUS_SUCCESS, 40 + word_of_nat (sd_parts_size D))"
  using assms
  by (simp add: sd_holds_def RtlpGetSizeUsedSecurityDescriptor_def verify_header_NT_SUCCESS Let_def
      size_used_sid[where s = "d_owner D"] size_used_sid[where s = "d_group D"] size_used_acl[where a = "d_dacl D"]
      size_used_acl[where a = "d_sacl D"] sd_parts_size_def add.assoc)

section \<open>Any sequence of updates\<close>

text \<open>One call of a client on the descriptor, whatever its status.\<close>

inductive sd_step :: "SECURITY_DESCRIPTOR_ABSOLUTE \<Rightarrow> SECURITY_DESCRIPTOR_ABSOLUTE \<Rightarrow> bool" where
  step_owner: "RtlSetOwnerSecurityDescriptor sd p d = (st, sd') \<Longrightarrow> sd_step sd sd'"
| step_group: "RtlSetGroupSecurityDescriptor sd p d = (st, sd') \<Longrightarrow> sd_step sd sd'"
| step_sacl: "RtlSetSaclSecurityDescriptor sd pres p d = (st, sd') \<Longrightarrow> sd_step sd sd'"
| step_dacl: "RtlSetDaclSecurityDescriptor sd pres p d = (st, sd') \<Longrightarrow> sd_step sd sd'"
| step_control: "RtlSetSecurityDescriptorControl sd chg new = (st, sd') \<Longrightarrow> sd_step sd sd'"

lemma control_cases:
  "RtlSetSecurityDescriptorControl sd chg new = (st, sd') \<Longrightarrow> st = STATUS_SUCCESS \<or> sd' = sd"
  by (auto simp: RtlSetSecurityDescriptorControl_def Let_def split: if_splits)

lemma sd_step_header: "sd_step sd sd' \<Longrightarrow> sd_header_ok sd \<Longrightarrow> sd_header_ok sd'"
proof (induction rule: sd_step.induct)
  case (step_owner sd p d st sd')
  then show ?case
    using owner.set_header[of sd p d sd'] by (auto simp: RtlSetOwnerSecurityDescriptor_def owner.set_cases split: if_splits)
next
  case (step_group sd p d st sd')
  then show ?case
    using grp.set_header[of sd p d sd'] by (auto simp: RtlSetGroupSecurityDescriptor_def grp.set_cases split: if_splits)
next
  case (step_sacl sd pres p d st sd')
  then show ?case
    using sacl.set_header[of sd pres p d sd'] by (auto simp: RtlSetSaclSecurityDescriptor_def sacl.set_cases split: if_splits)
next
  case (step_dacl sd pres p d st sd')
  then show ?case
    using dacl.set_header[of sd pres p d sd'] by (auto simp: RtlSetDaclSecurityDescriptor_def dacl.set_cases split: if_splits)
next
  case (step_control sd chg new st sd')
  then show ?case
    using RtlSetSecurityDescriptorControl_ok(1)[of sd chg new sd'] control_cases[of sd chg new st sd'] by auto
qed

section \<open>Properties\<close>

text \<open>C37. Every descriptor reached from a created one by any sequence of calls of the setters, successful or refused,
  passes the header check on which all the other functions rely.\<close>

theorem sd_header_invariant:
  assumes "RtlCreateSecurityDescriptorAbsolute sd0 1 = (STATUS_SUCCESS, sd)" and "sd_step\<^sup>*\<^sup>* sd sd'"
  shows "RtlpVerifySecurityDescriptorHeader sd' = STATUS_SUCCESS"
proof -
  have "sd_header_ok sd'"
    using assms(2) RtlCreateSecurityDescriptorAbsolute_ok[OF assms(1)] by induction (auto intro: sd_step_header)
  then show ?thesis
    by (simp add: verify_header_iff)
qed

text \<open>An empty descriptor and one with an owner and an empty list.\<close>

definition sample_sd :: SECURITY_DESCRIPTOR_ABSOLUTE where
  "sample_sd = \<lparr> sd_Revision = 1, sd_Sbz1 = 0, sd_Control = 0, sd_Owner = None, sd_Group = None, sd_Sacl = None, sd_Dacl = None \<rparr>"

definition sample_sd_owned :: SECURITY_DESCRIPTOR_ABSOLUTE where
  "sample_sd_owned = sample_sd\<lparr>sd_Owner := Some [1,1,0,0,0,0,0,5,18,0,0,0], sd_Control := SE_DACL_PRESENT, sd_Dacl := Some sample_block\<rparr>"

lemma sample_sd_ok: "sd_header_ok sample_sd" "sd_header_ok sample_sd_owned"
  by (simp_all add: sample_sd_owned_def sample_sd_def sd_header_ok_def IsSetFlag_def)

theorem sd_header_invariant_witness:
  "RtlpVerifySecurityDescriptorHeader
    (snd (RtlSetOwnerSecurityDescriptor (snd (RtlCreateSecurityDescriptorAbsolute sample_sd 1)) (Some [1]) True)) = STATUS_SUCCESS"
proof -
  have c: "RtlCreateSecurityDescriptorAbsolute sample_sd 1 = (STATUS_SUCCESS, snd (RtlCreateSecurityDescriptorAbsolute sample_sd 1))"
    by (simp add: RtlCreateSecurityDescriptorAbsolute_def)
  have "sd_step sd (snd (RtlSetOwnerSecurityDescriptor sd (Some [1]) True))" for sd
    by (rule step_owner) (rule prod.collapse[symmetric])
  from sd_header_invariant[OF c r_into_rtranclp[of sd_step, OF this]] show ?thesis .
qed

text \<open>What a setter stored a getter returns: the pointer and the defaulted mark of an identifier, and the present
  mark, the pointer and the defaulted mark of a list, where an absent list reads as NULL and not defaulted.\<close>

lemma sd_get_set:
  "(RtlSetOwnerSecurityDescriptor sd p d = (STATUS_SUCCESS, sd1) \<longrightarrow> RtlGetOwnerSecurityDescriptor sd1 = (STATUS_SUCCESS, p, d))
    \<and> (RtlSetGroupSecurityDescriptor sd p d = (STATUS_SUCCESS, sd2) \<longrightarrow> RtlGetGroupSecurityDescriptor sd2 = (STATUS_SUCCESS, p, d))
    \<and> (RtlSetSaclSecurityDescriptor sd pres p d = (STATUS_SUCCESS, sd3) \<longrightarrow>
        RtlGetSaclSecurityDescriptor sd3 = (STATUS_SUCCESS, pres, if pres then p else None, pres \<and> d))
    \<and> (RtlSetDaclSecurityDescriptor sd pres p d = (STATUS_SUCCESS, sd4) \<longrightarrow>
        RtlGetDaclSecurityDescriptor sd4 = (STATUS_SUCCESS, pres, if pres then p else None, pres \<and> d))"
  using owner.get_set grp.get_set sacl.get_set dacl.get_set
  by (simp add: RtlSetOwnerSecurityDescriptor_def RtlGetOwnerSecurityDescriptor_def RtlSetGroupSecurityDescriptor_def
      RtlGetGroupSecurityDescriptor_def RtlSetSaclSecurityDescriptor_def RtlGetSaclSecurityDescriptor_def
      RtlSetDaclSecurityDescriptor_def RtlGetDaclSecurityDescriptor_def)

text \<open>A descriptor with a valid header and valid parts is valid, and the size reported for it is that of the
  structure and of the parts it uses.\<close>

lemma sd_valid_and_size:
  assumes "sd_holds sd D"
  shows "RtlValidSecurityDescriptor sd = Some True
    \<and> RtlpGetSizeUsedSecurityDescriptor sd = Some (STATUS_SUCCESS, 40 + word_of_nat (sd_parts_size D))"
  using RtlValidSecurityDescriptor_holds[OF assms] RtlpGetSizeUsedSecurityDescriptor_holds[OF assms] by blast

definition sample_SD :: SD where
  "sample_SD = \<lparr> d_owner = Some (mk_sid [0,0,0,0,0,5] [18]), d_group = None, d_sacl = None, d_dacl = Some sample_acl \<rparr>"

lemma sample_sd_holds: "sd_holds sample_sd_owned sample_SD"
  using sample_sd_ok(2) sample_acl_at
  by (simp add: sd_holds_def) (simp add: sample_sd_owned_def sample_sd_def sample_SD_def sid_part_def acl_part_def sid_eval)

end
