(* ===== verification/Security_Sd_Relative.thy ===== *)
theory Security_Sd_Relative
  imports Security_Sd
begin

text \<open>
  Self-relative security descriptors: the verification of a received buffer and the two
  conversions of \<^verbatim>\<open>security-sd.c\<close>.  The verifier walks the four offsets with a callback that
  validates an identifier or a list; the contract of such a callback is stated once and
  holds of both validators.  A descriptor that was encoded is accepted and decodes to the
  identifiers and lists it was made of.
\<close>

section \<open>Layout\<close>

record SECURITY_DESCRIPTOR_RELATIVE =
  rel_Revision :: UCHAR
  rel_Sbz1 :: UCHAR
  rel_Control :: USHORT
  rel_Owner :: ULONG
  rel_Group :: ULONG
  rel_Sacl :: ULONG
  rel_Dacl :: ULONG

text \<open>The local copy of the header.\<close>

definition rel_header :: "mem \<Rightarrow> SECURITY_DESCRIPTOR_RELATIVE option" where
  "rel_header m = do {
     rv \<leftarrow> rd8 m 0;
     s \<leftarrow> rd8 m 1;
     c \<leftarrow> rd16 m 2;
     ow \<leftarrow> rd32 m 4;
     gr \<leftarrow> rd32 m 8;
     sa \<leftarrow> rd32 m 12;
     da \<leftarrow> rd32 m 16;
     Some \<lparr> rel_Revision = rv, rel_Sbz1 = s, rel_Control = c, rel_Owner = ow, rel_Group = gr, rel_Sacl = sa,
            rel_Dacl = da \<rparr>
   }"

text \<open>The pointers of the absolute header made from it: NULL for a zero offset, else the rest of the
  block from the offset on.\<close>

definition rel_pointer :: "mem \<Rightarrow> ULONG \<Rightarrow> mem option" where
  "rel_pointer m off = (if off \<noteq> 0 then Some (drop (unat off) m) else None)"

definition abs_header :: "mem \<Rightarrow> SECURITY_DESCRIPTOR_RELATIVE \<Rightarrow> SECURITY_DESCRIPTOR_ABSOLUTE" where
  "abs_header m r =
    \<lparr> sd_Revision = rel_Revision r, sd_Sbz1 = rel_Sbz1 r, sd_Control = ClearFlag (rel_Control r) SE_SELF_RELATIVE,
      sd_Owner = rel_pointer m (rel_Owner r), sd_Group = rel_pointer m (rel_Group r),
      sd_Sacl = rel_pointer m (rel_Sacl r), sd_Dacl = rel_pointer m (rel_Dacl r) \<rparr>"

section \<open>Operations\<close>

datatype SecurityDescriptorVerificationErrors =
    REL_SD_VALID_SECURITY_DESCRIPTOR
  | REL_SD_INVALID_SECURITY_INFORMATION_MASK
  | REL_SD_INVALID_LENGTH
  | REL_SD_NOT_SELF_RELATIVE
  | REL_SD_MISSING_OWNER
  | REL_SD_MISSING_GROUP
  | REL_SD_MISSING_SACL
  | REL_SD_MISSING_DACL
  | REL_SD_INVALID_OFFSET_OWNER
  | REL_SD_INVALID_OFFSET_GROUP
  | REL_SD_INVALID_OFFSET_SACL
  | REL_SD_INVALID_OFFSET_DACL
  | REL_SD_INVALID_OFFSET_SIZE
  | ABS_SD_INVALID_HEADER

definition RtlpVerifyRelativeSecurityDescriptorOffset ::
    "mem \<Rightarrow> ULONG \<Rightarrow> ULONG \<Rightarrow> ULONG \<Rightarrow> (mem \<Rightarrow> ULONG \<Rightarrow> (bool \<times> ULONG) option) \<Rightarrow> (NTSTATUS \<times> ULONG) option" where
  "RtlpVerifyRelativeSecurityDescriptorOffset SecurityDescriptor SecurityDescriptorLength sizeUsed Offset
      IsValidBufferCallback =
    (if Offset \<noteq> 0 then
       (if Offset > SecurityDescriptorLength then Some (STATUS_ASSERTION_FAILURE, sizeUsed)
        else do {
          p \<leftarrow> ptr_add SecurityDescriptor (unat Offset);
          (v, sz) \<leftarrow> IsValidBufferCallback p (SecurityDescriptorLength - Offset);
          if \<not> v then Some (STATUS_INVALID_SECURITY_DESCR, sizeUsed)
          else Some (STATUS_SUCCESS, sizeUsed + sz)
        })
     else Some (STATUS_SUCCESS, sizeUsed))"

text \<open>The checks of the verifier before the offsets: the first failing one with its subcode.\<close>

definition rel_header_checks ::
    "mem \<Rightarrow> SECURITY_DESCRIPTOR_RELATIVE \<Rightarrow> ULONG \<Rightarrow> NTSTATUS \<times> SecurityDescriptorVerificationErrors" where
  "rel_header_checks m relHeader RequiredInformation =
    (if \<not> IsSetFlag (rel_Control relHeader) SE_SELF_RELATIVE
     then (STATUS_INVALID_SECURITY_DESCR, REL_SD_NOT_SELF_RELATIVE)
     else if IsSetFlag RequiredInformation OWNER_SECURITY_INFORMATION \<and> rel_Owner relHeader = 0
     then (STATUS_INVALID_SECURITY_DESCR, REL_SD_MISSING_OWNER)
     else if IsSetFlag RequiredInformation GROUP_SECURITY_INFORMATION \<and> rel_Group relHeader = 0
     then (STATUS_INVALID_SECURITY_DESCR, REL_SD_MISSING_GROUP)
     else if IsSetFlag RequiredInformation SACL_SECURITY_INFORMATION
        \<and> \<not> IsSetFlag (rel_Control relHeader) SE_SACL_PRESENT
     then (STATUS_INVALID_SECURITY_DESCR, REL_SD_MISSING_SACL)
     else if IsSetFlag RequiredInformation DACL_SECURITY_INFORMATION
        \<and> \<not> IsSetFlag (rel_Control relHeader) SE_DACL_PRESENT
     then (STATUS_INVALID_SECURITY_DESCR, REL_SD_MISSING_DACL)
     else (RtlpVerifySecurityDescriptorHeader (abs_header m relHeader), ABS_SD_INVALID_HEADER))"

text \<open>The four offsets in turn, each with its subcode stored before the status is looked at.\<close>

fun rel_offset_checks ::
    "mem \<Rightarrow> ULONG \<Rightarrow> ULONG \<Rightarrow>
     (ULONG \<times> (mem \<Rightarrow> ULONG \<Rightarrow> (bool \<times> ULONG) option) \<times> SecurityDescriptorVerificationErrors) list \<Rightarrow>
     SecurityDescriptorVerificationErrors \<Rightarrow> (NTSTATUS \<times> SecurityDescriptorVerificationErrors \<times> ULONG) option"
  where
  "rel_offset_checks m len sizeUsed [] err = Some (STATUS_SUCCESS, err, sizeUsed)"
| "rel_offset_checks m len sizeUsed ((off, valid, e) # rest) err = do {
     (status, sizeUsed) \<leftarrow> RtlpVerifyRelativeSecurityDescriptorOffset m len sizeUsed off valid;
     if status \<noteq> STATUS_SUCCESS then Some (status, e, sizeUsed)
     else rel_offset_checks m len sizeUsed rest e
   }"

definition RtlpVerifyRelativeSecurityDescriptorWithErrorSubcode ::
    "mem \<Rightarrow> ULONG \<Rightarrow> ULONG \<Rightarrow> (NTSTATUS \<times> SecurityDescriptorVerificationErrors) option" where
  "RtlpVerifyRelativeSecurityDescriptorWithErrorSubcode SecurityDescriptor SecurityDescriptorLength
      RequiredInformation =
    (if \<not> LW_IS_VALID_FLAGS RequiredInformation VALID_SECURITY_INFORMATION_MASK
     then Some (STATUS_INVALID_PARAMETER, REL_SD_INVALID_SECURITY_INFORMATION_MASK)
     else if SecurityDescriptorLength < SECURITY_DESCRIPTOR_RELATIVE_MIN_SIZE
     then Some (STATUS_INVALID_SECURITY_DESCR, REL_SD_INVALID_LENGTH)
     else do {
       relHeader \<leftarrow> rel_header SecurityDescriptor;
       let (status, err) = rel_header_checks SecurityDescriptor relHeader RequiredInformation;
       if status \<noteq> STATUS_SUCCESS then Some (status, err)
       else do {
         (status, err, sizeUsed) \<leftarrow>
           rel_offset_checks SecurityDescriptor SecurityDescriptorLength SECURITY_DESCRIPTOR_RELATIVE_MIN_SIZE
             [(rel_Owner relHeader, RtlpIsValidLittleEndianSidBuffer, REL_SD_INVALID_OFFSET_OWNER),
              (rel_Group relHeader, RtlpIsValidLittleEndianSidBuffer, REL_SD_INVALID_OFFSET_GROUP),
              (rel_Sacl relHeader, RtlpIsValidLittleEndianAclBuffer, REL_SD_INVALID_OFFSET_SACL),
              (rel_Dacl relHeader, RtlpIsValidLittleEndianAclBuffer, REL_SD_INVALID_OFFSET_DACL)] err;
         if status \<noteq> STATUS_SUCCESS then Some (status, err)
         else if sizeUsed > SecurityDescriptorLength
         then Some (STATUS_ASSERTION_FAILURE, REL_SD_INVALID_OFFSET_SIZE)
         else Some (STATUS_SUCCESS, err)
       }
     })"

definition RtlpVerifyRelativeSecurityDescriptor :: "mem \<Rightarrow> ULONG \<Rightarrow> ULONG \<Rightarrow> NTSTATUS option" where
  "RtlpVerifyRelativeSecurityDescriptor SecurityDescriptor SecurityDescriptorLength RequiredInformation = do {
     (status, _) \<leftarrow> RtlpVerifyRelativeSecurityDescriptorWithErrorSubcode SecurityDescriptor
       SecurityDescriptorLength RequiredInformation;
     Some status
   }"

definition RtlValidRelativeSecurityDescriptor :: "mem \<Rightarrow> ULONG \<Rightarrow> ULONG \<Rightarrow> bool option" where
  "RtlValidRelativeSecurityDescriptor SecurityDescriptor SecurityDescriptorLength RequiredInformation = do {
     status \<leftarrow> RtlpVerifyRelativeSecurityDescriptor SecurityDescriptor SecurityDescriptorLength
       RequiredInformation;
     Some (NT_SUCCESS status)
   }"

definition RtlValidRelativeSecurityDescriptorWithErrorSubcode ::
    "mem \<Rightarrow> ULONG \<Rightarrow> ULONG \<Rightarrow> (bool \<times> SecurityDescriptorVerificationErrors) option" where
  "RtlValidRelativeSecurityDescriptorWithErrorSubcode SecurityDescriptor SecurityDescriptorLength
      RequiredInformation = do {
     (status, err) \<leftarrow> RtlpVerifyRelativeSecurityDescriptorWithErrorSubcode SecurityDescriptor
       SecurityDescriptorLength RequiredInformation;
     Some (NT_SUCCESS status, err)
   }"

text \<open>The length of a part of a relative descriptor, 0 when its offset is.\<close>

definition rel_part_length :: "(mem \<Rightarrow> ULONG option) \<Rightarrow> mem \<Rightarrow> ULONG \<Rightarrow> ULONG option" where
  "rel_part_length len m off = (if off \<noteq> 0 then do { p \<leftarrow> ptr_add m (unat off); len p } else Some 0)"

definition le_sid_length :: "mem \<Rightarrow> ULONG option" where
  "le_sid_length p = do { c \<leftarrow> sid_SubAuthorityCount p; Some (RtlLengthRequiredSid (ucast c)) }"

definition le_acl_length :: "mem \<Rightarrow> ULONG option" where
  "le_acl_length p = do { s \<leftarrow> acl_AclSize p; Some (ucast s) }"

definition RtlLengthSecurityDescriptorRelative :: "mem \<Rightarrow> ULONG option" where
  "RtlLengthSecurityDescriptorRelative SecurityDescriptor = do {
     r \<leftarrow> rel_header SecurityDescriptor;
     ow \<leftarrow> rel_part_length le_sid_length SecurityDescriptor (rel_Owner r);
     gr \<leftarrow> rel_part_length le_sid_length SecurityDescriptor (rel_Group r);
     da \<leftarrow> rel_part_length le_acl_length SecurityDescriptor (rel_Dacl r);
     sa \<leftarrow> rel_part_length le_acl_length SecurityDescriptor (rel_Sacl r);
     Some (SECURITY_DESCRIPTOR_RELATIVE_MIN_SIZE + ow + gr + da + sa)
   }"

text \<open>One part of \<^verbatim>\<open>RtlAbsoluteToSelfRelativeSD\<close>: nothing for a NULL pointer, else the part encoded at
  the current offset, which is stored in the field at \<^verbatim>\<open>fld_off\<close>.\<close>

definition encode_part ::
    "(mem \<Rightarrow> mem \<Rightarrow> ULONG \<Rightarrow> (NTSTATUS \<times> mem \<times> ULONG) option) \<Rightarrow> mem option \<Rightarrow> nat \<Rightarrow> ULONG \<Rightarrow> mem \<Rightarrow> ULONG \<Rightarrow>
     (NTSTATUS \<times> mem \<times> ULONG) option" where
  "encode_part enc p fld_off sz m offset =
    (case p of
       None \<Rightarrow> Some (STATUS_SUCCESS, m, offset)
     | Some x \<Rightarrow> do {
         ((status, used), m) \<leftarrow> at_offset m (unat offset) (\<lambda>q. do {
           (status, q, used) \<leftarrow> enc x q (sz - offset);
           Some ((status, used), q)
         });
         if status \<noteq> STATUS_SUCCESS then Some (status, m, offset)
         else do {
           m \<leftarrow> wr32 m fld_off offset;
           Some (STATUS_SUCCESS, m, offset + used)
         }
       })"

definition encode_parts :: "SECURITY_DESCRIPTOR_ABSOLUTE \<Rightarrow> ULONG \<Rightarrow> mem \<Rightarrow> (NTSTATUS \<times> mem) option" where
  "encode_parts sd sz m = do {
     let offset = SECURITY_DESCRIPTOR_RELATIVE_MIN_SIZE;
     (status, m, offset) \<leftarrow> encode_part RtlpEncodeLittleEndianSid (sd_Owner sd) 4 sz m offset;
     if status \<noteq> STATUS_SUCCESS then Some (status, m)
     else do {
       (status, m, offset) \<leftarrow> encode_part RtlpEncodeLittleEndianSid (sd_Group sd) 8 sz m offset;
       if status \<noteq> STATUS_SUCCESS then Some (status, m)
       else do {
         (status, m, offset) \<leftarrow> encode_part RtlpEncodeLittleEndianAcl (sd_Dacl sd) 16 sz m offset;
         if status \<noteq> STATUS_SUCCESS then Some (status, m)
         else do {
           (status, m, offset) \<leftarrow> encode_part RtlpEncodeLittleEndianAcl (sd_Sacl sd) 12 sz m offset;
           Some (status, m)
         }
       }
     }
   }"

definition RtlAbsoluteToSelfRelativeSD ::
    "SECURITY_DESCRIPTOR_ABSOLUTE option \<Rightarrow> mem option \<Rightarrow> ULONG option \<Rightarrow>
     (NTSTATUS \<times> mem option \<times> ULONG option) option" where
  "RtlAbsoluteToSelfRelativeSD AbsoluteSecurityDescriptor SelfRelativeSecurityDescriptor BufferLength =
    (case (AbsoluteSecurityDescriptor, BufferLength) of
       (Some sd, Some sz) \<Rightarrow>
         if sz > 0 \<and> SelfRelativeSecurityDescriptor = None
         then Some (STATUS_INVALID_PARAMETER, SelfRelativeSecurityDescriptor, Some 0)
         else do {
           v \<leftarrow> RtlValidSecurityDescriptor sd;
           if \<not> v then Some (STATUS_INVALID_SECURITY_DESCR, SelfRelativeSecurityDescriptor, Some 0)
           else do {
             (status, sizeRequired) \<leftarrow> RtlpGetSizeUsedSecurityDescriptor sd;
             if status \<noteq> STATUS_SUCCESS then Some (status, SelfRelativeSecurityDescriptor, Some sizeRequired)
             else do {
               let sizeRequired = sizeRequired - SECURITY_DESCRIPTOR_ABSOLUTE_MIN_SIZE
                 + SECURITY_DESCRIPTOR_RELATIVE_MIN_SIZE;
               if sizeRequired > sz
               then Some (STATUS_BUFFER_TOO_SMALL, SelfRelativeSecurityDescriptor, Some sizeRequired)
               else do {
                 m \<leftarrow> SelfRelativeSecurityDescriptor;
                 m \<leftarrow> wr8 m 0 (sd_Revision sd);
                 m \<leftarrow> wr8 m 1 (sd_Sbz1 sd);
                 m \<leftarrow> wr16 m 2 (sd_Control sd OR SE_SELF_RELATIVE);
                 (status, m) \<leftarrow> encode_parts sd sz m;
                 Some (status, Some m, Some sizeRequired)
               }
             }
           }
         }
     | _ \<Rightarrow> Some (STATUS_INVALID_PARAMETER, SelfRelativeSecurityDescriptor, map_option (\<lambda>_. 0) BufferLength))"

text \<open>The five sizes that \<^verbatim>\<open>RtlSelfRelativeToAbsoluteSD\<close> takes and returns through pointers, and its four
  output buffers.\<close>

record sd_sizes =
  AbsoluteSecurityDescriptorSize :: ULONG
  DaclSize :: ULONG
  SaclSize :: ULONG
  OwnerSize :: ULONG
  PrimaryGroupSize :: ULONG

record sd_buffers =
  b_Abs :: "SECURITY_DESCRIPTOR_ABSOLUTE option"
  b_Dacl :: "mem option"
  b_Sacl :: "mem option"
  b_Owner :: "mem option"
  b_Group :: "mem option"

definition no_sizes :: sd_sizes where
  "no_sizes = \<lparr> AbsoluteSecurityDescriptorSize = 0, DaclSize = 0, SaclSize = 0, OwnerSize = 0, PrimaryGroupSize = 0 \<rparr>"

definition abs_sizes_required :: "SECURITY_DESCRIPTOR_ABSOLUTE \<Rightarrow> sd_sizes option" where
  "abs_sizes_required absHeader = do {
     ow \<leftarrow> null_or_length le_sid_length (sd_Owner absHeader);
     gr \<leftarrow> null_or_length le_sid_length (sd_Group absHeader);
     sa \<leftarrow> null_or_length le_acl_length (sd_Sacl absHeader);
     da \<leftarrow> null_or_length le_acl_length (sd_Dacl absHeader);
     Some \<lparr> AbsoluteSecurityDescriptorSize = SECURITY_DESCRIPTOR_ABSOLUTE_MIN_SIZE, DaclSize = da,
            SaclSize = sa, OwnerSize = ow, PrimaryGroupSize = gr \<rparr>
   }"

text \<open>The conversion of one part: skipped unless the buffer and the part are there.  The pointer of the
  absolute descriptor, when there is one, is then set to the buffer.\<close>

definition convert_sid :: "mem option \<Rightarrow> mem option \<Rightarrow> mem option option" where
  "convert_sid buf p =
    (case (buf, p) of
       (Some b, Some src) \<Rightarrow> do { b \<leftarrow> RtlpDecodeLittleEndianSid src b; Some (Some b) }
     | _ \<Rightarrow> Some buf)"

definition convert_acl :: "mem option \<Rightarrow> mem option \<Rightarrow> (NTSTATUS \<times> mem option) option" where
  "convert_acl buf p =
    (case (buf, p) of
       (Some b, Some src) \<Rightarrow> do { (status, b) \<leftarrow> RtlpDecodeLittleEndianAcl src b; Some (status, Some b) }
     | _ \<Rightarrow> Some (STATUS_SUCCESS, buf))"

definition set_part :: "mem option \<Rightarrow> mem option \<Rightarrow> mem option" where
  "set_part buf p = (if buf \<noteq> None \<and> p \<noteq> None then buf else p)"

definition convert_parts ::
    "SECURITY_DESCRIPTOR_ABSOLUTE \<Rightarrow> sd_buffers \<Rightarrow> (NTSTATUS \<times> sd_buffers) option" where
  "convert_parts absHeader bufs = do {
     let bufs = bufs\<lparr>b_Abs := map_option (\<lambda>_. absHeader) (b_Abs bufs)\<rparr>;
     ow \<leftarrow> convert_sid (b_Owner bufs) (sd_Owner absHeader);
     let bufs = bufs\<lparr>b_Owner := ow, b_Abs := map_option (\<lambda>a. a\<lparr>sd_Owner := set_part ow (sd_Owner a)\<rparr>) (b_Abs bufs)\<rparr>;
     gr \<leftarrow> convert_sid (b_Group bufs) (sd_Group absHeader);
     let bufs = bufs\<lparr>b_Group := gr, b_Abs := map_option (\<lambda>a. a\<lparr>sd_Group := set_part gr (sd_Group a)\<rparr>) (b_Abs bufs)\<rparr>;
     (status, sa) \<leftarrow> convert_acl (b_Sacl bufs) (sd_Sacl absHeader);
     if status \<noteq> STATUS_SUCCESS then Some (status, bufs\<lparr>b_Sacl := sa\<rparr>)
     else do {
       let bufs = bufs\<lparr>b_Sacl := sa, b_Abs := map_option (\<lambda>a. a\<lparr>sd_Sacl := set_part sa (sd_Sacl a)\<rparr>) (b_Abs bufs)\<rparr>;
       (status, da) \<leftarrow> convert_acl (b_Dacl bufs) (sd_Dacl absHeader);
       if status \<noteq> STATUS_SUCCESS then Some (status, bufs\<lparr>b_Dacl := da\<rparr>)
       else Some (STATUS_SUCCESS,
         bufs\<lparr>b_Dacl := da, b_Abs := map_option (\<lambda>a. a\<lparr>sd_Dacl := set_part da (sd_Dacl a)\<rparr>) (b_Abs bufs)\<rparr>)
     }
   }"

text \<open>The argument \<^verbatim>\<open>sizes\<close> is \<^term>\<open>None\<close> when one of the five size pointers is NULL; the sizes returned
  are stored through those that are not.\<close>

definition RtlSelfRelativeToAbsoluteSD ::
    "mem \<Rightarrow> sd_buffers \<Rightarrow> sd_sizes option \<Rightarrow> (NTSTATUS \<times> sd_buffers \<times> sd_sizes) option" where
  "RtlSelfRelativeToAbsoluteSD SelfRelativeSecurityDescriptor bufs sizes =
    (case sizes of
       None \<Rightarrow> Some (STATUS_INVALID_PARAMETER, bufs, no_sizes)
     | Some sz \<Rightarrow>
         if AbsoluteSecurityDescriptorSize sz > 0 \<and> b_Abs bufs = None
            \<or> DaclSize sz > 0 \<and> b_Dacl bufs = None
            \<or> SaclSize sz > 0 \<and> b_Sacl bufs = None
            \<or> OwnerSize sz > 0 \<and> b_Owner bufs = None
            \<or> PrimaryGroupSize sz > 0 \<and> b_Group bufs = None
         then Some (STATUS_INVALID_PARAMETER, bufs, no_sizes)
         else do {
           relHeader \<leftarrow> rel_header SelfRelativeSecurityDescriptor;
           let absHeader = abs_header SelfRelativeSecurityDescriptor relHeader;
           if \<not> IsSetFlag (rel_Control relHeader) SE_SELF_RELATIVE
           then Some (STATUS_ASSERTION_FAILURE, bufs, no_sizes)
           else if \<not> NT_SUCCESS (RtlpVerifySecurityDescriptorHeader absHeader)
           then Some (STATUS_ASSERTION_FAILURE, bufs, no_sizes)
           else do {
             req \<leftarrow> abs_sizes_required absHeader;
             if AbsoluteSecurityDescriptorSize sz < AbsoluteSecurityDescriptorSize req
                \<or> OwnerSize sz < OwnerSize req
                \<or> PrimaryGroupSize sz < PrimaryGroupSize req
                \<or> SaclSize sz < SaclSize req
                \<or> DaclSize sz < DaclSize req
             then Some (STATUS_BUFFER_TOO_SMALL, bufs, req)
             else do {
               (status, bufs) \<leftarrow> convert_parts absHeader bufs;
               Some (status, bufs, req)
             }
           }
         })"

section \<open>The callback contract\<close>

text \<open>What the verifier relies on of the callback that it is given: an accepted part lies in the buffer
  and has the size the callback reports.\<close>

locale buffer_validator =
  fixes valid :: "mem \<Rightarrow> ULONG \<Rightarrow> (bool \<times> ULONG) option"
    and good :: "mem \<Rightarrow> nat \<Rightarrow> bool"
  assumes accepted: "valid p sz = Some (True, u) \<Longrightarrow> unat sz \<le> length p \<Longrightarrow> unat u \<le> unat sz \<and> good p (unat u)"
begin

lemma offset_accepted:
  assumes "RtlpVerifyRelativeSecurityDescriptorOffset m len su off valid = Some (STATUS_SUCCESS, su')"
    and "unat len \<le> length m" and "off \<noteq> 0"
  shows "\<exists>k. good (drop (unat off) m) k \<and> unat off + k \<le> unat len"
proof -
  from assms obtain p u where le: "\<not> off > len" and p: "ptr_add m (unat off) = Some p"
    and v: "valid p (len - off) = Some (True, u)"
    by (auto simp: RtlpVerifyRelativeSecurityDescriptorOffset_def bind_eq_Some_conv split: if_splits)
  have sub: "unat (len - off) = unat len - unat off" "unat off \<le> unat len"
    using le by (auto simp: word_le_nat_alt not_less intro: unat_sub)
  have p': "p = drop (unat off) m"
    using p by (simp add: ptr_add_def split: if_splits)
  have "unat u \<le> unat (len - off) \<and> good p (unat u)"
    using v sub assms(2) p' by (intro accepted) simp_all
  then show ?thesis
    using sub p' by (intro exI[of _ "unat u"]) auto
qed

end

definition good_sid :: "mem \<Rightarrow> nat \<Rightarrow> bool" where
  "good_sid p k \<longleftrightarrow> (\<exists>s. sid_of p = Some s \<and> sid_valid s \<and> k = sid_length s)"

definition good_acl :: "mem \<Rightarrow> nat \<Rightarrow> bool" where
  "good_acl p k \<longleftrightarrow> (\<exists>a. acl_at p a \<and> k = unat (acl_size a) \<and> (\<forall>ace \<in> set (acl_aces a). le_entry ace))"

interpretation le_sid: buffer_validator RtlpIsValidLittleEndianSidBuffer good_sid
proof
  fix p sz u
  assume a: "RtlpIsValidLittleEndianSidBuffer p sz = Some (True, u)" and l: "unat sz \<le> length p"
  then obtain s where s: "sid_of (take (unat sz) p) = Some s" "sid_valid s" "u = word_of_nat (sid_length s)"
    by (auto simp: RtlpIsValidLittleEndianSidBuffer_correct split: option.splits if_splits)
  then have "sid_of p = Some s" "sid_length s \<le> unat sz"
    using sid_of_length[OF s(1)] l
    by (metis append.assoc append_take_drop_id sid_of_iff, simp)
  then show "unat u \<le> unat sz \<and> good_sid p (unat u)"
    using s by (simp add: good_sid_def)
qed

interpretation le_acl: buffer_validator RtlpIsValidLittleEndianAclBuffer good_acl
proof
  fix p sz u
  assume "RtlpIsValidLittleEndianAclBuffer p sz = Some (True, u)" and "unat sz \<le> length p"
  from RtlpIsValidLittleEndianAclBuffer_sound[OF this] show "unat u \<le> unat sz \<and> good_acl p (unat u)"
    by (auto simp: good_acl_def)
qed

section \<open>The verifier\<close>

text \<open>A part of a buffer: nothing, or a good part inside the first \<^verbatim>\<open>len\<close> bytes.\<close>

definition part_in :: "(mem \<Rightarrow> nat \<Rightarrow> bool) \<Rightarrow> mem \<Rightarrow> nat \<Rightarrow> ULONG \<Rightarrow> bool" where
  "part_in good m len off \<longleftrightarrow> off = 0 \<or> (\<exists>k. good (drop (unat off) m) k \<and> unat off + k \<le> len)"

lemma rel_offset_checks_all:
  assumes "rel_offset_checks m len su l err = Some (STATUS_SUCCESS, err', su')" and "(off, valid, e) \<in> set l"
  shows "\<exists>a b. RtlpVerifyRelativeSecurityDescriptorOffset m len a off valid = Some (STATUS_SUCCESS, b)"
  using assms
proof (induction l arbitrary: su err)
  case (Cons x l)
  obtain off' valid' e' where x: "x = (off', valid', e')"
    by (cases x)
  with Cons.prems obtain su'' where v: "RtlpVerifyRelativeSecurityDescriptorOffset m len su off' valid' = Some (STATUS_SUCCESS, su'')"
    and rest: "rel_offset_checks m len su'' l e' = Some (STATUS_SUCCESS, err', su')"
    by (auto simp: bind_eq_Some_conv split: if_splits)
  show ?case
    using Cons.prems(2) x v Cons.IH[OF rest] by auto
qed simp

lemma rel_header_checks_ok:
  assumes "rel_header_checks m r req = (STATUS_SUCCESS, err)"
  shows "IsSetFlag (rel_Control r) SE_SELF_RELATIVE" "sd_header_ok (abs_header m r)"
    "IsSetFlag req OWNER_SECURITY_INFORMATION \<Longrightarrow> rel_Owner r \<noteq> 0"
    "IsSetFlag req GROUP_SECURITY_INFORMATION \<Longrightarrow> rel_Group r \<noteq> 0"
    "IsSetFlag req SACL_SECURITY_INFORMATION \<Longrightarrow> IsSetFlag (rel_Control r) SE_SACL_PRESENT"
    "IsSetFlag req DACL_SECURITY_INFORMATION \<Longrightarrow> IsSetFlag (rel_Control r) SE_DACL_PRESENT"
  using assms by (auto simp: rel_header_checks_def verify_header_iff split: if_splits)

text \<open>What an accepted buffer holds.\<close>

definition rel_ok :: "mem \<Rightarrow> nat \<Rightarrow> SECURITY_DESCRIPTOR_RELATIVE \<Rightarrow> bool" where
  "rel_ok m len r \<longleftrightarrow> rel_header m = Some r \<and> IsSetFlag (rel_Control r) SE_SELF_RELATIVE
     \<and> sd_header_ok (abs_header m r) \<and> part_in good_sid m len (rel_Owner r) \<and> part_in good_sid m len (rel_Group r)
     \<and> part_in good_acl m len (rel_Sacl r) \<and> part_in good_acl m len (rel_Dacl r)"

lemma RtlpVerifyRelativeSecurityDescriptor_sound:
  assumes "RtlpVerifyRelativeSecurityDescriptorWithErrorSubcode m len req = Some (STATUS_SUCCESS, err)"
    and "unat len \<le> length m"
  shows "\<exists>r. rel_ok m (unat len) r \<and> rel_header_checks m r req = (STATUS_SUCCESS, ABS_SD_INVALID_HEADER)"
proof -
  from assms(1) obtain r where r: "rel_header m = Some r"
    by (auto simp: RtlpVerifyRelativeSecurityDescriptorWithErrorSubcode_def bind_eq_Some_conv split: if_splits)
  obtain st e where h: "rel_header_checks m r req = (st, e)"
    by fastforce
  let ?l = "[(rel_Owner r, RtlpIsValidLittleEndianSidBuffer, REL_SD_INVALID_OFFSET_OWNER),
    (rel_Group r, RtlpIsValidLittleEndianSidBuffer, REL_SD_INVALID_OFFSET_GROUP),
    (rel_Sacl r, RtlpIsValidLittleEndianAclBuffer, REL_SD_INVALID_OFFSET_SACL),
    (rel_Dacl r, RtlpIsValidLittleEndianAclBuffer, REL_SD_INVALID_OFFSET_DACL)]"
  from assms(1) have st: "st = STATUS_SUCCESS"
    and "\<exists>su. rel_offset_checks m len 20 ?l e = Some (STATUS_SUCCESS, err, su)"
    by (auto simp: RtlpVerifyRelativeSecurityDescriptorWithErrorSubcode_def bind_eq_Some_conv r h
        simp del: rel_offset_checks.simps split: if_splits)
  then obtain su where c: "rel_offset_checks m len 20 ?l e = Some (STATUS_SUCCESS, err, su)"
    by blast
  have sid: "part_in good_sid m (unat len) off" if "(off, RtlpIsValidLittleEndianSidBuffer, x) \<in> set ?l" for off x
    using rel_offset_checks_all[OF c that] le_sid.offset_accepted[OF _ assms(2)] by (auto simp: part_in_def)
  have acl: "part_in good_acl m (unat len) off" if "(off, RtlpIsValidLittleEndianAclBuffer, x) \<in> set ?l" for off x
    using rel_offset_checks_all[OF c that] le_acl.offset_accepted[OF _ assms(2)] by (auto simp: part_in_def)
  have "e = ABS_SD_INVALID_HEADER"
    using h st by (auto simp: rel_header_checks_def split: if_splits)
  then show ?thesis
    using r h rel_header_checks_ok(1,2)[OF h[unfolded st]] st sid[of "rel_Owner r"] sid[of "rel_Group r"]
      acl[of "rel_Sacl r"] acl[of "rel_Dacl r"]
    by (auto simp: rel_ok_def)
qed

text \<open>The informational status is not among the results, so success is the only status that counts as one.\<close>

lemma rel_offset_statuses:
  "post (\<lambda>(st, _). st \<noteq> STATUS_NOT_ALL_ASSIGNED) (rel_offset_checks m len su l err)"
proof (induction l arbitrary: su err)
  case (Cons x l)
  obtain off valid e where x: "x = (off, valid, e)"
    by (cases x)
  have "post (\<lambda>(st, _). st \<noteq> STATUS_NOT_ALL_ASSIGNED) (RtlpVerifyRelativeSecurityDescriptorOffset m len su off valid)"
    unfolding RtlpVerifyRelativeSecurityDescriptorOffset_def by (auto simp: post_def bind_eq_Some_conv split: if_splits)
  then show ?case
    using Cons by (fastforce simp: x post_def bind_eq_Some_conv split: if_splits)
qed (simp add: post_def)

lemma verify_relative_statuses:
  "post (\<lambda>(st, _). st \<noteq> STATUS_NOT_ALL_ASSIGNED) (RtlpVerifyRelativeSecurityDescriptorWithErrorSubcode m len req)"
proof -
  have h: "fst (rel_header_checks m r req) \<noteq> STATUS_NOT_ALL_ASSIGNED" for r
    by (simp add: rel_header_checks_def RtlpVerifySecurityDescriptorHeader_def Let_def)
  have o: "post (\<lambda>(st, _). st \<noteq> STATUS_NOT_ALL_ASSIGNED) (do {
      (status, err, sizeUsed) \<leftarrow> rel_offset_checks m len su l e;
      if status \<noteq> STATUS_SUCCESS then Some (status, err)
      else if sizeUsed > len then Some (STATUS_ASSERTION_FAILURE, REL_SD_INVALID_OFFSET_SIZE)
      else Some (STATUS_SUCCESS, err) })" for su l e
    using rel_offset_statuses[of m len su l e] by (cases "rel_offset_checks m len su l e") (auto simp: post_def split: if_splits)
  show ?thesis
  proof (cases "rel_header m")
    case (Some r)
    obtain st e where "rel_header_checks m r req = (st, e)"
      by fastforce
    then show ?thesis
      unfolding RtlpVerifyRelativeSecurityDescriptorWithErrorSubcode_def Some bind.bind_lunit Let_def
      using h[of r] o by (auto intro!: post_if post_Some simp del: rel_offset_checks.simps)
  qed (auto simp: RtlpVerifyRelativeSecurityDescriptorWithErrorSubcode_def post_def)
qed

section \<open>From self-relative to absolute\<close>

definition swap_acl :: "ACL \<Rightarrow> ACL" where
  "swap_acl a = a\<lparr>acl_aces := map swap_guids (acl_aces a)\<rparr>"

definition le_acl_entries :: "ACL option \<Rightarrow> bool" where
  "le_acl_entries a \<longleftrightarrow> (case a of None \<Rightarrow> True | Some b \<Rightarrow> \<forall>ace \<in> set (acl_aces b). le_entry ace)"

text \<open>The descriptor with the GUIDs of its object entries converted.\<close>

definition swap_sd :: "SD \<Rightarrow> SD" where
  "swap_sd D = D\<lparr>d_sacl := map_option swap_acl (d_sacl D), d_dacl := map_option swap_acl (d_dacl D)\<rparr>"

lemma swap_acl_used:
  assumes "\<forall>ace \<in> set (acl_aces a). le_entry ace"
  shows "acl_used (swap_acl a) = acl_used a"
proof -
  have "length (concat (map swap_guids as)) = length (concat as)" if "\<forall>ace \<in> set as. le_entry ace" for as
    using that by (induction as) (simp_all add: swap_guids_eq)
  then show ?thesis
    using assms by (simp add: acl_used_def swap_acl_def)
qed

lemma swap_acl_at:
  assumes "acl_at m a" and "\<forall>ace \<in> set (acl_aces a). le_entry ace" and "unat (acl_size a) \<le> length d"
  shows "acl_at (acl_bytes (swap_acl a) @ drop (acl_used a) d) (swap_acl a)"
proof -
  have v: "acl_valid (swap_acl a)"
    using assms(1,2) swap_acl_used[OF assms(2)] ace_wf_swap by (auto simp: acl_at_def acl_valid_def swap_acl_def)
  have "length (acl_bytes (swap_acl a)) = acl_used (swap_acl a)"
    by (simp add: acl_bytes_def acl_used_def)
  moreover have "acl_size (swap_acl a) = acl_size a"
    by (simp add: swap_acl_def)
  ultimately show ?thesis
    using assms(3) swap_acl_used[OF assms(2)] by (intro acl_at_append[OF v]) simp
qed

lemma part_in_sid: "part_in good_sid m len off \<Longrightarrow> \<exists>s. sid_part (rel_pointer m off) s"
proof (cases "off = 0")
  case True
  then have "sid_part (rel_pointer m off) None"
    by (simp add: sid_part_def rel_pointer_def)
  then show ?thesis ..
next
  case False
  assume "part_in good_sid m len off"
  with False obtain s where "sid_of (drop (unat off) m) = Some s" "sid_valid s"
    by (auto simp: part_in_def good_sid_def)
  then have "sid_part (rel_pointer m off) (Some s)"
    using False by (simp add: sid_part_def rel_pointer_def)
  then show ?thesis ..
qed

lemma part_in_acl: "part_in good_acl m len off \<Longrightarrow> \<exists>a. acl_part (rel_pointer m off) a \<and> le_acl_entries a"
proof (cases "off = 0")
  case True
  then have "acl_part (rel_pointer m off) None \<and> le_acl_entries None"
    by (simp add: acl_part_def rel_pointer_def le_acl_entries_def)
  then show ?thesis ..
next
  case False
  assume "part_in good_acl m len off"
  with False obtain a where "acl_at (drop (unat off) m) a" "\<forall>ace \<in> set (acl_aces a). le_entry ace"
    by (auto simp: part_in_def good_acl_def)
  then have "acl_part (rel_pointer m off) (Some a) \<and> le_acl_entries (Some a)"
    using False by (simp add: acl_part_def rel_pointer_def le_acl_entries_def)
  then show ?thesis ..
qed

text \<open>An accepted buffer holds a descriptor.\<close>

lemma rel_ok_holds:
  assumes "rel_ok m len r"
  shows "\<exists>D. sd_holds (abs_header m r) D \<and> le_acl_entries (d_sacl D) \<and> le_acl_entries (d_dacl D)"
proof -
  obtain ow gr where "sid_part (rel_pointer m (rel_Owner r)) ow" "sid_part (rel_pointer m (rel_Group r)) gr"
    using assms part_in_sid by (metis rel_ok_def)
  moreover obtain sa da where "acl_part (rel_pointer m (rel_Sacl r)) sa" "le_acl_entries sa"
    "acl_part (rel_pointer m (rel_Dacl r)) da" "le_acl_entries da"
    using assms part_in_acl by (metis rel_ok_def)
  moreover have "sd_header_ok (abs_header m r)"
    using assms by (simp add: rel_ok_def)
  ultimately have "sd_holds (abs_header m r) \<lparr> d_owner = ow, d_group = gr, d_sacl = sa, d_dacl = da \<rparr>
      \<and> le_acl_entries sa \<and> le_acl_entries da"
    by (simp add: sd_holds_def abs_header_def)
  then show ?thesis
    by (intro exI[of _ "\<lparr> d_owner = ow, d_group = gr, d_sacl = sa, d_dacl = da \<rparr>"]) simp
qed

lemma null_or_length_sid:
  "sid_part p s \<Longrightarrow> null_or_length le_sid_length p = Some (word_of_nat (sid_part_size s))"
  using RtlLengthSid_correct
  by (auto simp: sid_part_def null_or_length_def sid_part_size_def le_sid_length_def RtlLengthSid_def
      split: option.splits)

definition acl_part_alloc :: "ACL option \<Rightarrow> nat" where
  "acl_part_alloc a = (case a of None \<Rightarrow> 0 | Some b \<Rightarrow> unat (acl_size b))"

lemma null_or_length_acl:
  assumes "acl_part p a"
  shows "\<exists>l. null_or_length le_acl_length p = Some l \<and> unat l = acl_part_alloc a"
proof (cases a)
  case (Some b)
  then obtain m where m: "p = Some m" "acl_at m b"
    using assms by (auto simp: acl_part_def)
  moreover have "unat (ucast (acl_size b) :: ULONG) = unat (acl_size b)"
    using unsigned_less[of "acl_size b", where 'a = nat] by (simp add: unsigned_ucast_eq take_bit_nat_eq_self)
  ultimately show ?thesis
    using Some acl_at_fields(2)[OF m(2)] by (simp add: null_or_length_def le_acl_length_def acl_part_alloc_def)
qed (use assms in \<open>simp add: acl_part_def null_or_length_def acl_part_alloc_def\<close>)

text \<open>An output buffer and its size, large enough for a part.\<close>

definition buf_ok :: "mem option \<Rightarrow> ULONG \<Rightarrow> nat \<Rightarrow> bool" where
  "buf_ok buf sz need \<longleftrightarrow> need \<le> unat sz \<and> (case buf of None \<Rightarrow> sz = 0 | Some b \<Rightarrow> unat sz \<le> length b)"

lemma convert_sid_ok:
  assumes "sid_part p s" and "buf_ok buf sz (sid_part_size s)"
  shows "\<exists>buf'. convert_sid buf p = Some buf' \<and> sid_part (set_part buf' p) s"
proof (cases s)
  case None
  then show ?thesis
    using assms by (cases buf) (auto simp: sid_part_def convert_sid_def set_part_def)
next
  case (Some t)
  then obtain m where m: "p = Some m" "sid_of m = Some t" "sid_valid t"
    using assms(1) by (auto simp: sid_part_def)
  have "sid_length t \<ge> 8"
    by (simp add: sid_length_def)
  then obtain b where b: "buf = Some b" "sid_length t \<le> length b"
    using assms(2) Some by (cases buf) (auto simp: buf_ok_def sid_part_size_def)
  show ?thesis
    using Some m b RtlpDecodeLittleEndianSid_correct[OF m(2) b(2)] sid_of_bytes[of t "drop (sid_length t) b"]
    by (simp add: convert_sid_def set_part_def sid_part_def)
qed

lemma convert_acl_ok:
  assumes "acl_part p a" and "le_acl_entries a" and "buf_ok buf sz (acl_part_alloc a)"
  shows "\<exists>buf'. convert_acl buf p = Some (STATUS_SUCCESS, buf') \<and> acl_part (set_part buf' p) (map_option swap_acl a)"
proof (cases a)
  case None
  then show ?thesis
    using assms by (cases buf) (auto simp: acl_part_def convert_acl_def set_part_def)
next
  case (Some x)
  then obtain m where m: "p = Some m" "acl_at m x" "\<forall>ace \<in> set (acl_aces x). le_entry ace"
    using assms(1,2) by (auto simp: acl_part_def le_acl_entries_def)
  have u: "8 \<le> acl_used x" "acl_used x \<le> unat (acl_size x)"
    using m(2) by (simp_all add: acl_used_def acl_at_def acl_valid_def)
  then obtain b where b: "buf = Some b" "unat (acl_size x) \<le> length b"
    using assms(3) Some by (cases buf) (auto simp: buf_ok_def acl_part_alloc_def)
  show ?thesis
    using Some m b u RtlpDecodeLittleEndianAcl_correct[OF m(2,3), of b] swap_acl_at[OF m(2,3) b(2)]
    by (simp add: convert_acl_def set_part_def acl_part_def swap_acl_def)
qed

lemma abs_sizes_holds:
  assumes "sd_holds sd D"
  shows "\<exists>req. abs_sizes_required sd = Some req \<and> AbsoluteSecurityDescriptorSize req = 40
    \<and> unat (OwnerSize req) = sid_part_size (d_owner D) \<and> unat (PrimaryGroupSize req) = sid_part_size (d_group D)
    \<and> unat (SaclSize req) = acl_part_alloc (d_sacl D) \<and> unat (DaclSize req) = acl_part_alloc (d_dacl D)"
proof -
  have u: "unat (word_of_nat (sid_part_size s) :: ULONG) = sid_part_size s" if "sid_part p s" for p s
    using that by (cases s) (auto simp: sid_part_def sid_part_size_def)
  obtain la ld where "null_or_length le_acl_length (sd_Sacl sd) = Some la" "unat la = acl_part_alloc (d_sacl D)"
    "null_or_length le_acl_length (sd_Dacl sd) = Some ld" "unat ld = acl_part_alloc (d_dacl D)"
    using assms null_or_length_acl by (metis sd_holds_def)
  then show ?thesis
    using assms null_or_length_sid[of "sd_Owner sd" "d_owner D"] null_or_length_sid[of "sd_Group sd" "d_group D"]
      u[of "sd_Owner sd" "d_owner D"] u[of "sd_Group sd" "d_group D"]
    by (simp add: abs_sizes_required_def sd_holds_def)
qed

text \<open>The four output buffers with the sizes they are declared with.\<close>

definition bufs_ok :: "sd_buffers \<Rightarrow> sd_sizes \<Rightarrow> SD \<Rightarrow> bool" where
  "bufs_ok bufs sz D \<longleftrightarrow> b_Abs bufs \<noteq> None \<and> 40 \<le> AbsoluteSecurityDescriptorSize sz
     \<and> buf_ok (b_Owner bufs) (OwnerSize sz) (sid_part_size (d_owner D))
     \<and> buf_ok (b_Group bufs) (PrimaryGroupSize sz) (sid_part_size (d_group D))
     \<and> buf_ok (b_Sacl bufs) (SaclSize sz) (acl_part_alloc (d_sacl D))
     \<and> buf_ok (b_Dacl bufs) (DaclSize sz) (acl_part_alloc (d_dacl D))"

lemma convert_parts_ok:
  assumes "sd_holds sd D" and "le_acl_entries (d_sacl D)" and "le_acl_entries (d_dacl D)" and "bufs_ok bufs sz D"
  shows "\<exists>bufs' sd'. convert_parts sd bufs = Some (STATUS_SUCCESS, bufs') \<and> b_Abs bufs' = Some sd'
    \<and> sd_holds sd' (swap_sd D)"
proof -
  obtain ow where ow: "convert_sid (b_Owner bufs) (sd_Owner sd) = Some ow" "sid_part (set_part ow (sd_Owner sd)) (d_owner D)"
    using assms(1,4) convert_sid_ok by (metis sd_holds_def bufs_ok_def)
  obtain gr where gr: "convert_sid (b_Group bufs) (sd_Group sd) = Some gr" "sid_part (set_part gr (sd_Group sd)) (d_group D)"
    using assms(1,4) convert_sid_ok by (metis sd_holds_def bufs_ok_def)
  obtain sa where sa: "convert_acl (b_Sacl bufs) (sd_Sacl sd) = Some (STATUS_SUCCESS, sa)"
    "acl_part (set_part sa (sd_Sacl sd)) (map_option swap_acl (d_sacl D))"
    using assms(1,2,4) convert_acl_ok by (metis sd_holds_def bufs_ok_def)
  obtain da where da: "convert_acl (b_Dacl bufs) (sd_Dacl sd) = Some (STATUS_SUCCESS, da)"
    "acl_part (set_part da (sd_Dacl sd)) (map_option swap_acl (d_dacl D))"
    using assms(1,3,4) convert_acl_ok by (metis sd_holds_def bufs_ok_def)
  let ?sd = "sd\<lparr>sd_Owner := set_part ow (sd_Owner sd), sd_Group := set_part gr (sd_Group sd),
    sd_Sacl := set_part sa (sd_Sacl sd), sd_Dacl := set_part da (sd_Dacl sd)\<rparr>"
  have "sd_header_ok ?sd"
    using assms(1) by (auto simp: sd_holds_def sd_header_ok_def set_part_def)
  then have "sd_holds ?sd (swap_sd D)"
    using ow(2) gr(2) sa(2) da(2) by (simp add: sd_holds_def swap_sd_def)
  moreover obtain a where "b_Abs bufs = Some a"
    using assms(4) by (auto simp: bufs_ok_def)
  ultimately show ?thesis
    using ow(1) gr(1) sa(1) da(1) by (simp add: convert_parts_def Let_def)
qed

text \<open>The conversion of an accepted buffer succeeds, into buffers that are large enough.\<close>

lemma RtlSelfRelativeToAbsoluteSD_ok:
  assumes "rel_ok m len r" and "sd_holds (abs_header m r) D" and "le_acl_entries (d_sacl D)"
    and "le_acl_entries (d_dacl D)" and "bufs_ok bufs sz D"
  shows "\<exists>bufs' req sd'. RtlSelfRelativeToAbsoluteSD m bufs (Some sz) = Some (STATUS_SUCCESS, bufs', req)
    \<and> b_Abs bufs' = Some sd' \<and> sd_holds sd' (swap_sd D)"
proof -
  obtain req where req: "abs_sizes_required (abs_header m r) = Some req" "AbsoluteSecurityDescriptorSize req = 40"
    "unat (OwnerSize req) = sid_part_size (d_owner D)" "unat (PrimaryGroupSize req) = sid_part_size (d_group D)"
    "unat (SaclSize req) = acl_part_alloc (d_sacl D)" "unat (DaclSize req) = acl_part_alloc (d_dacl D)"
    using abs_sizes_holds[OF assms(2)] by blast
  obtain bufs' sd' where cv: "convert_parts (abs_header m r) bufs = Some (STATUS_SUCCESS, bufs')"
    "b_Abs bufs' = Some sd'" "sd_holds sd' (swap_sd D)"
    using convert_parts_ok[OF assms(2-5)] by blast
  have fit: "\<not> s < w" if "buf_ok b s n" "unat w = n" for b s w n
    using that by (simp add: buf_ok_def word_less_nat_alt)
  have g1: "\<not> (AbsoluteSecurityDescriptorSize sz > 0 \<and> b_Abs bufs = None \<or> DaclSize sz > 0 \<and> b_Dacl bufs = None
      \<or> SaclSize sz > 0 \<and> b_Sacl bufs = None \<or> OwnerSize sz > 0 \<and> b_Owner bufs = None
      \<or> PrimaryGroupSize sz > 0 \<and> b_Group bufs = None)"
    using assms(5) by (auto simp: bufs_ok_def buf_ok_def split: option.splits)
  have g2: "\<not> (AbsoluteSecurityDescriptorSize sz < AbsoluteSecurityDescriptorSize req \<or> OwnerSize sz < OwnerSize req
      \<or> PrimaryGroupSize sz < PrimaryGroupSize req \<or> SaclSize sz < SaclSize req \<or> DaclSize sz < DaclSize req)"
    using assms(5) fit req by (metis bufs_ok_def not_less)
  have h: "rel_header m = Some r" "IsSetFlag (rel_Control r) SE_SELF_RELATIVE"
    "NT_SUCCESS (RtlpVerifySecurityDescriptorHeader (abs_header m r))"
    using assms(1) by (simp_all add: rel_ok_def verify_header_NT_SUCCESS)
  have "RtlSelfRelativeToAbsoluteSD m bufs (Some sz) = Some (STATUS_SUCCESS, bufs', req)"
    unfolding RtlSelfRelativeToAbsoluteSD_def option.case if_not_P[OF g1]
    by (simp add: h req(1) if_not_P[OF g2] cv(1) Let_def)
  then show ?thesis
    using cv(2,3) by blast
qed

section \<open>From absolute to self-relative\<close>

definition rel_bytes :: "SECURITY_DESCRIPTOR_RELATIVE \<Rightarrow> mem" where
  "rel_bytes r = rel_Revision r # rel_Sbz1 r # enc16 (rel_Control r) @ enc32 (rel_Owner r) @ enc32 (rel_Group r)
     @ enc32 (rel_Sacl r) @ enc32 (rel_Dacl r)"

lemma length_rel_bytes [simp]: "length (rel_bytes r) = 20"
  by (simp add: rel_bytes_def)

lemma rel_header_bytes: "rel_header (rel_bytes r @ x) = Some r"
  by (simp add: rel_header_def rel_bytes_def f16.get_append_right f32.get_append_right)

lemma rel_header_Some:
  assumes "rel_header m = Some r"
  shows "m = rel_bytes r @ drop 20 m"
proof -
  from assms have f: "rd8 m 0 = Some (rel_Revision r)" "rd8 m 1 = Some (rel_Sbz1 r)" "rd16 m 2 = Some (rel_Control r)"
    "rd32 m 4 = Some (rel_Owner r)" "rd32 m 8 = Some (rel_Group r)" "rd32 m 12 = Some (rel_Sacl r)"
    "rd32 m 16 = Some (rel_Dacl r)"
    by (auto simp: rel_header_def bind_eq_Some_conv)
  have "take 20 m = take 1 m @ take 1 (drop 1 m) @ take 2 (drop 2 m) @ take 4 (drop 4 m) @ take 4 (drop 8 m)
      @ take 4 (drop 12 m) @ take 4 (drop 16 m)"
    using take_split[of 1 19 m] take_split[of 1 18 "drop 1 m"] take_split[of 2 16 "drop 2 m"]
      take_split[of 4 12 "drop 4 m"] take_split[of 4 8 "drop 8 m"] take_split[of 4 4 "drop 12 m"]
    by (simp add: eval_nat_numeral)
  then have "take 20 m = rel_bytes r"
    using f f8.get_Some[of m 0] f8.get_Some[of m 1] f16.get_Some[of m] f32.get_Some[of m]
    by (simp add: rel_bytes_def enc8_def)
  then show ?thesis
    by (metis append_take_drop_id)
qed

lemma wr_rel_bytes:
  "wr8 (rel_bytes r @ x) 0 b = Some (rel_bytes (r\<lparr>rel_Revision := b\<rparr>) @ x)"
  "wr8 (rel_bytes r @ x) 1 b = Some (rel_bytes (r\<lparr>rel_Sbz1 := b\<rparr>) @ x)"
  "wr16 (rel_bytes r @ x) 2 h = Some (rel_bytes (r\<lparr>rel_Control := h\<rparr>) @ x)"
  "wr32 (rel_bytes r @ x) 4 w = Some (rel_bytes (r\<lparr>rel_Owner := w\<rparr>) @ x)"
  "wr32 (rel_bytes r @ x) 8 w = Some (rel_bytes (r\<lparr>rel_Group := w\<rparr>) @ x)"
  "wr32 (rel_bytes r @ x) 12 w = Some (rel_bytes (r\<lparr>rel_Sacl := w\<rparr>) @ x)"
  "wr32 (rel_bytes r @ x) 16 w = Some (rel_bytes (r\<lparr>rel_Dacl := w\<rparr>) @ x)"
  using f16.put_enc[of "enc16 (rel_Control r)" "[rel_Revision r, rel_Sbz1 r]"]
    f32.put_enc[of "enc32 (rel_Owner r)" "rel_Revision r # rel_Sbz1 r # enc16 (rel_Control r)"]
    f32.put_enc[of "enc32 (rel_Group r)" "rel_Revision r # rel_Sbz1 r # enc16 (rel_Control r) @ enc32 (rel_Owner r)"]
    f32.put_enc[of "enc32 (rel_Sacl r)" "rel_Revision r # rel_Sbz1 r # enc16 (rel_Control r) @ enc32 (rel_Owner r)
      @ enc32 (rel_Group r)"]
    f32.put_enc[of "enc32 (rel_Dacl r)" "rel_Revision r # rel_Sbz1 r # enc16 (rel_Control r) @ enc32 (rel_Owner r)
      @ enc32 (rel_Group r) @ enc32 (rel_Sacl r)"]
  by (simp_all add: rel_bytes_def)

text \<open>The bytes of a part as the encoder leaves them.\<close>

definition sid_image :: "SID option \<Rightarrow> mem" where
  "sid_image s = (case s of None \<Rightarrow> [] | Some t \<Rightarrow> sid_bytes t)"

definition acl_image :: "ACL option \<Rightarrow> mem" where
  "acl_image a = (case a of None \<Rightarrow> [] | Some b \<Rightarrow> acl_bytes (trim_acl b))"

text \<open>The entries that the encoder accepts.\<close>

definition std_entries :: "ACL option \<Rightarrow> bool" where
  "std_entries a \<longleftrightarrow>
    (case a of None \<Rightarrow> True | Some b \<Rightarrow> \<forall>ace \<in> set (acl_aces b). le_entry ace \<and> std_ace_type (ace ! 0))"

lemma length_images:
  "sid_part p s \<Longrightarrow> length (sid_image s) = sid_part_size s"
  "length (acl_image a) = acl_part_size a"
  by (auto simp: sid_part_def sid_image_def sid_part_size_def acl_image_def acl_part_size_def acl_bytes_def
      acl_used_def trim_acl_def sid_length_def split: option.splits)

text \<open>One part, after the bytes \<^verbatim>\<open>P\<close> that are already written.\<close>

lemma encode_part_eq:
  assumes "p = Some x" and "enc x (drop k d) (sz - off) = Some (STATUS_SUCCESS, I @ drop (length I) (drop k d), word_of_nat (length I))"
    and "length (H @ P) = unat off"
    and "\<And>y. wr32 (H @ y) f off = Some (H' @ y)"
  shows "encode_part enc p f sz (H @ P @ drop k d) off =
    Some (STATUS_SUCCESS, H' @ (P @ I) @ drop (k + length I) d, off + word_of_nat (length I))"
proof -
  have "at_offset ((H @ P) @ drop k d) (unat off) (\<lambda>q. do {
      (status, q, used) \<leftarrow> enc x q (sz - off); Some ((status, used), q) })
      = Some ((STATUS_SUCCESS, word_of_nat (length I)), (H @ P) @ I @ drop (length I) (drop k d))"
    using assms(2,3) by (intro at_offset_prefix) simp_all
  then show ?thesis
    using assms(1,4) by (simp add: encode_part_def add.commute)
qed

text \<open>The offset field of a part, after the encoding: an absent part leaves what the buffer had.\<close>

definition part_offset :: "'a option \<Rightarrow> nat \<Rightarrow> ULONG \<Rightarrow> ULONG" where
  "part_offset x k old = (if x = None then old else word_of_nat (20 + k))"

lemma small_offset: "k < 1000000 \<Longrightarrow> unat (word_of_nat (20 + k) :: ULONG) = 20 + k"
  by (rule unat_of_nat_small) simp

lemma sub_offset:
  assumes "k < 1000000" and "20 + k \<le> unat sz"
  shows "unat (sz - word_of_nat (20 + k) :: ULONG) = unat sz - (20 + k)"
  using assms small_offset[OF assms(1)] by (metis unat_sub word_le_nat_alt)

lemma encode_sid_part:
  assumes "sid_part p s" and "length P = k" and "k < 1000000"
    and "20 + k + sid_part_size s \<le> unat sz" and "unat sz \<le> 20 + length d"
    and "\<And>r y w. wr32 (rel_bytes r @ y) f w = Some (rel_bytes (upd w r) @ y)"
    and "\<And>r. upd (fld r) r = r"
  shows "encode_part RtlpEncodeLittleEndianSid p f sz (rel_bytes r @ P @ drop k d) (word_of_nat (20 + k)) =
    Some (STATUS_SUCCESS, rel_bytes (upd (part_offset s k (fld r)) r) @ (P @ sid_image s)
      @ drop (k + sid_part_size s) d, word_of_nat (20 + (k + sid_part_size s)))"
proof (cases s)
  case None
  then show ?thesis
    using assms(1,7) by (simp add: encode_part_def sid_part_def part_offset_def sid_image_def sid_part_size_def)
next
  case (Some t)
  then obtain m where m: "p = Some m" "sid_of m = Some t" "sid_valid t"
    using assms(1) by (auto simp: sid_part_def)
  have l: "length (sid_bytes t) = sid_length t"
    using m(3) by (intro length_sid_image) simp
  have "RtlpEncodeLittleEndianSid m (drop k d) (sz - word_of_nat (20 + k)) =
      Some (STATUS_SUCCESS, sid_bytes t @ drop (length (sid_bytes t)) (drop k d), word_of_nat (length (sid_bytes t)))"
    using encode_sid_fits[OF m(2), of "sz - word_of_nat (20 + k)" "drop k d"] assms(4,5) Some sub_offset[OF assms(3)]
    by (simp add: l sid_part_size_def del: of_nat_add length_sid_bytes)
  from encode_part_eq[where enc = RtlpEncodeLittleEndianSid and x = m and k = k and d = d and sz = sz
      and off = "word_of_nat (20 + k)" and I = "sid_bytes t" and H = "rel_bytes r" and P = P and f = f
      and H' = "rel_bytes (upd (word_of_nat (20 + k)) r)", OF m(1) this] show ?thesis
    using assms(2,6) small_offset[OF assms(3)] Some l
    by (simp add: part_offset_def sid_image_def sid_part_size_def add.assoc del: length_sid_bytes)
qed

lemma encode_acl_part:
  assumes "acl_part p a" and "std_entries a" and "length P = k" and "k < 1000000"
    and "20 + k + acl_part_size a \<le> unat sz" and "unat sz \<le> 20 + length d"
    and "\<And>r y w. wr32 (rel_bytes r @ y) f w = Some (rel_bytes (upd w r) @ y)"
    and "\<And>r. upd (fld r) r = r"
  shows "encode_part RtlpEncodeLittleEndianAcl p f sz (rel_bytes r @ P @ drop k d) (word_of_nat (20 + k)) =
    Some (STATUS_SUCCESS, rel_bytes (upd (part_offset a k (fld r)) r) @ (P @ acl_image a)
      @ drop (k + acl_part_size a) d, word_of_nat (20 + (k + acl_part_size a)))"
proof (cases a)
  case None
  then show ?thesis
    using assms(1,8) by (simp add: encode_part_def acl_part_def part_offset_def acl_image_def acl_part_size_def)
next
  case (Some t)
  then obtain m where m: "p = Some m" "acl_at m t"
    using assms(1) by (auto simp: acl_part_def)
  have std: "\<forall>ace \<in> set (acl_aces t). le_entry ace" "\<forall>ace \<in> set (acl_aces t). std_ace_type (ace ! 0)"
    using assms(2) Some by (auto simp: std_entries_def)
  have l: "length (acl_bytes (trim_acl t)) = acl_used t"
    using length_images(2)[of "Some t"] by (simp add: acl_image_def acl_part_size_def)
  have "acl_used t \<le> length (drop k d)" "acl_used t \<le> unat (sz - word_of_nat (20 + k))"
    using assms(5,6) Some sub_offset[OF assms(4)] by (simp_all add: acl_part_size_def del: of_nat_add)
  from RtlpEncodeLittleEndianAcl_correct[OF m(2) std(1) this]
  have "RtlpEncodeLittleEndianAcl m (drop k d) (sz - word_of_nat (20 + k)) =
      Some (STATUS_SUCCESS, acl_bytes (trim_acl t) @ drop (length (acl_bytes (trim_acl t))) (drop k d),
        word_of_nat (length (acl_bytes (trim_acl t))))"
    using std(2) unfolding l by (simp add: trim_acl_def del: of_nat_add)
  from encode_part_eq[where enc = RtlpEncodeLittleEndianAcl and x = m and k = k and d = d and sz = sz
      and off = "word_of_nat (20 + k)" and I = "acl_bytes (trim_acl t)" and H = "rel_bytes r" and P = P and f = f
      and H' = "rel_bytes (upd (word_of_nat (20 + k)) r)", OF m(1) this] show ?thesis
    using assms(3,7) small_offset[OF assms(4)] Some l
    by (simp add: part_offset_def acl_image_def acl_part_size_def add.assoc)
qed

lemma part_size_bounds:
  "sid_part p s \<Longrightarrow> sid_part_size s < 1032" "acl_part p a \<Longrightarrow> acl_part_size a < 65536"
  using sid_length_lt acl_valid_bounds(1)
  by (auto simp: sid_part_def sid_part_size_def acl_part_def acl_part_size_def acl_at_def split: option.splits)

text \<open>The header that the encoder leaves, over the one that was in the buffer.\<close>

definition rel_of :: "SECURITY_DESCRIPTOR_ABSOLUTE \<Rightarrow> SD \<Rightarrow> SECURITY_DESCRIPTOR_RELATIVE \<Rightarrow> SECURITY_DESCRIPTOR_RELATIVE" where
  "rel_of sd D r =
    (let n1 = sid_part_size (d_owner D); n2 = n1 + sid_part_size (d_group D); n3 = n2 + acl_part_size (d_dacl D) in
     \<lparr> rel_Revision = sd_Revision sd, rel_Sbz1 = sd_Sbz1 sd, rel_Control = sd_Control sd OR SE_SELF_RELATIVE,
       rel_Owner = part_offset (d_owner D) 0 (rel_Owner r), rel_Group = part_offset (d_group D) n1 (rel_Group r),
       rel_Sacl = part_offset (d_sacl D) n3 (rel_Sacl r), rel_Dacl = part_offset (d_dacl D) n2 (rel_Dacl r) \<rparr>)"

definition sd_image :: "SD \<Rightarrow> mem" where
  "sd_image D = sid_image (d_owner D) @ sid_image (d_group D) @ acl_image (d_dacl D) @ acl_image (d_sacl D)"

lemma sd_parts_size_lt: "sd_holds sd D \<Longrightarrow> sd_parts_size D < 200000"
  using part_size_bounds(1)[of "sd_Owner sd" "d_owner D"] part_size_bounds(1)[of "sd_Group sd" "d_group D"]
    part_size_bounds(2)[of "sd_Sacl sd" "d_sacl D"] part_size_bounds(2)[of "sd_Dacl sd" "d_dacl D"]
  by (simp add: sd_holds_def sd_parts_size_def)

lemma encode_parts_holds:
  assumes "sd_holds sd D" and "std_entries (d_sacl D)" and "std_entries (d_dacl D)"
    and "20 + sd_parts_size D \<le> unat sz" and "unat sz \<le> 20 + length d"
    and "rel_Revision r = sd_Revision sd" "rel_Sbz1 r = sd_Sbz1 sd" "rel_Control r = sd_Control sd OR SE_SELF_RELATIVE"
  shows "encode_parts sd sz (rel_bytes r @ d) =
    Some (STATUS_SUCCESS, rel_bytes (rel_of sd D r) @ sd_image D @ drop (sd_parts_size D) d)"
proof -
  let ?n1 = "sid_part_size (d_owner D)"
  let ?n2 = "?n1 + sid_part_size (d_group D)"
  let ?n3 = "?n2 + acl_part_size (d_dacl D)"
  let ?r1 = "r\<lparr>rel_Owner := part_offset (d_owner D) 0 (rel_Owner r)\<rparr>"
  let ?r2 = "?r1\<lparr>rel_Group := part_offset (d_group D) ?n1 (rel_Group ?r1)\<rparr>"
  let ?r3 = "?r2\<lparr>rel_Dacl := part_offset (d_dacl D) ?n2 (rel_Dacl ?r2)\<rparr>"
  let ?r4 = "?r3\<lparr>rel_Sacl := part_offset (d_sacl D) ?n3 (rel_Sacl ?r3)\<rparr>"
  have parts: "sid_part (sd_Owner sd) (d_owner D)" "sid_part (sd_Group sd) (d_group D)"
    "acl_part (sd_Sacl sd) (d_sacl D)" "acl_part (sd_Dacl sd) (d_dacl D)"
    using assms(1) by (simp_all add: sd_holds_def)
  note len = length_images(1)[OF parts(1)] length_images(1)[OF parts(2)] length_images(2)[of "d_dacl D"]
  have lt: "?n3 + acl_part_size (d_sacl D) < 200000"
    using sd_parts_size_lt[OF assms(1)] by (simp add: sd_parts_size_def)
  have fit: "20 + (?n3 + acl_part_size (d_sacl D)) \<le> unat sz"
    using assms(4) by (simp add: sd_parts_size_def)
  have 1: "encode_part RtlpEncodeLittleEndianSid (sd_Owner sd) 4 sz (rel_bytes r @ d) 20 =
      Some (STATUS_SUCCESS, rel_bytes ?r1 @ sid_image (d_owner D) @ drop ?n1 d, word_of_nat (20 + ?n1))"
    using encode_sid_part[OF parts(1), of "[]" 0 sz d 4 "\<lambda>w r. r\<lparr>rel_Owner := w\<rparr>" rel_Owner r] fit assms(5) wr_rel_bytes
    by simp
  have 2: "encode_part RtlpEncodeLittleEndianSid (sd_Group sd) 8 sz
        (rel_bytes ?r1 @ sid_image (d_owner D) @ drop ?n1 d) (word_of_nat (20 + ?n1)) =
      Some (STATUS_SUCCESS, rel_bytes ?r2 @ (sid_image (d_owner D) @ sid_image (d_group D)) @ drop ?n2 d,
        word_of_nat (20 + ?n2))"
    using fit lt assms(5) len wr_rel_bytes by (intro encode_sid_part[OF parts(2)]) simp_all
  have 3: "encode_part RtlpEncodeLittleEndianAcl (sd_Dacl sd) 16 sz
        (rel_bytes ?r2 @ (sid_image (d_owner D) @ sid_image (d_group D)) @ drop ?n2 d) (word_of_nat (20 + ?n2)) =
      Some (STATUS_SUCCESS, rel_bytes ?r3 @ ((sid_image (d_owner D) @ sid_image (d_group D)) @ acl_image (d_dacl D))
        @ drop ?n3 d, word_of_nat (20 + ?n3))"
    using fit lt assms(5) len wr_rel_bytes by (intro encode_acl_part[OF parts(4) assms(3)]) simp_all
  have 4: "encode_part RtlpEncodeLittleEndianAcl (sd_Sacl sd) 12 sz
        (rel_bytes ?r3 @ ((sid_image (d_owner D) @ sid_image (d_group D)) @ acl_image (d_dacl D)) @ drop ?n3 d)
        (word_of_nat (20 + ?n3)) =
      Some (STATUS_SUCCESS, rel_bytes ?r4 @ (((sid_image (d_owner D) @ sid_image (d_group D)) @ acl_image (d_dacl D))
          @ acl_image (d_sacl D)) @ drop (?n3 + acl_part_size (d_sacl D)) d,
        word_of_nat (20 + (?n3 + acl_part_size (d_sacl D))))"
    using fit lt assms(5) len wr_rel_bytes by (intro encode_acl_part[OF parts(3) assms(2)]) simp_all
  have "?r4 = rel_of sd D r"
    using assms(6-8) by (simp add: rel_of_def Let_def)
  then show ?thesis
    using 2 3 4 unfolding encode_parts_def Let_def 1
    by (simp add: sd_image_def sd_parts_size_def add.assoc del: of_nat_add)
qed

lemma RtlAbsoluteToSelfRelativeSD_holds:
  assumes "sd_holds sd D" and "std_entries (d_sacl D)" and "std_entries (d_dacl D)"
    and "unat sz \<le> length m" and "20 \<le> length m"
  shows "if unat sz < 20 + sd_parts_size D
    then RtlAbsoluteToSelfRelativeSD (Some sd) (Some m) (Some sz) =
      Some (STATUS_BUFFER_TOO_SMALL, Some m, Some (word_of_nat (20 + sd_parts_size D)))
    else \<exists>r. rel_header m = Some r \<and> RtlAbsoluteToSelfRelativeSD (Some sd) (Some m) (Some sz) =
      Some (STATUS_SUCCESS, Some (rel_bytes (rel_of sd D r) @ sd_image D @ drop (20 + sd_parts_size D) m),
        Some (word_of_nat (20 + sd_parts_size D)))"
proof -
  let ?n = "word_of_nat (20 + sd_parts_size D) :: ULONG"
  have un: "unat ?n = 20 + sd_parts_size D"
    using sd_parts_size_lt[OF assms(1)] by (intro small_offset) simp
  have req: "40 + word_of_nat (sd_parts_size D) - 40 + 20 = ?n"
    by simp
  have lt: "?n > sz \<longleftrightarrow> unat sz < 20 + sd_parts_size D"
    by (simp only: word_less_nat_alt un)
  note checks = RtlAbsoluteToSelfRelativeSD_def RtlValidSecurityDescriptor_holds[OF assms(1)]
    RtlpGetSizeUsedSecurityDescriptor_holds[OF assms(1)]
  show ?thesis
  proof (cases "unat sz < 20 + sd_parts_size D")
    case True
    then show ?thesis
      using lt req by (simp add: checks Let_def)
  next
    case False
    have "\<exists>r. rel_header m = Some r"
      using assms(5) f8.get_defined[of m 0] f8.get_defined[of m 1] f16.get_defined[of m 2] f32.get_defined[of m 4]
        f32.get_defined[of m 8] f32.get_defined[of m 12] f32.get_defined[of m 16]
      by (auto simp: rel_header_def)
    then obtain r where r: "rel_header m = Some r" ..
    define d where "d = drop 20 m"
    have m: "m = rel_bytes r @ d"
      using rel_header_Some[OF r] by (simp add: d_def)
    let ?r = "r\<lparr>rel_Revision := sd_Revision sd, rel_Sbz1 := sd_Sbz1 sd, rel_Control := sd_Control sd OR SE_SELF_RELATIVE\<rparr>"
    have "unat sz \<le> 20 + length d"
      using assms(4) m by simp
    then have "encode_parts sd sz (rel_bytes ?r @ d) =
        Some (STATUS_SUCCESS, rel_bytes (rel_of sd D ?r) @ sd_image D @ drop (sd_parts_size D) d)"
      using False by (intro encode_parts_holds[OF assms(1-3)]) simp_all
    moreover have "rel_of sd D ?r = rel_of sd D r"
      by (simp add: rel_of_def)
    moreover have "drop (20 + sd_parts_size D) m = drop (sd_parts_size D) d"
      by (simp add: d_def add.commute)
    ultimately have "RtlAbsoluteToSelfRelativeSD (Some sd) (Some m) (Some sz) =
      Some (STATUS_SUCCESS, Some (rel_bytes (rel_of sd D r) @ sd_image D @ drop (20 + sd_parts_size D) m),
        Some (word_of_nat (20 + sd_parts_size D)))"
      using False lt req wr_rel_bytes by (simp add: checks m Let_def)
    then show ?thesis
      using False r by simp
  qed
qed

text \<open>A buffer whose offset fields are zero for the parts that are absent.\<close>

definition clean_header :: "SD \<Rightarrow> SECURITY_DESCRIPTOR_RELATIVE \<Rightarrow> bool" where
  "clean_header D r \<longleftrightarrow> (d_owner D = None \<longrightarrow> rel_Owner r = 0) \<and> (d_group D = None \<longrightarrow> rel_Group r = 0)
     \<and> (d_sacl D = None \<longrightarrow> rel_Sacl r = 0) \<and> (d_dacl D = None \<longrightarrow> rel_Dacl r = 0)"

text \<open>The descriptor as it is stored: the lists with the sizes they use.\<close>

definition trim_sd :: "SD \<Rightarrow> SD" where
  "trim_sd D = D\<lparr>d_sacl := map_option trim_acl (d_sacl D), d_dacl := map_option trim_acl (d_dacl D)\<rparr>"

lemma stored_sid:
  assumes "sid_part p s" and "length X = 20 + k" and "k < 1000000" and "s = None \<longrightarrow> old = 0"
  shows "sid_part (rel_pointer (X @ sid_image s @ Y) (part_offset s k old)) s"
    and "part_in good_sid (X @ sid_image s @ Y) (20 + k + sid_part_size s) (part_offset s k old)"
proof -
  have u: "unat (word_of_nat (20 + k) :: ULONG) = 20 + k"
    by (rule small_offset[OF assms(3)])
  then have nz: "(word_of_nat (20 + k) :: ULONG) \<noteq> 0"
    by (metis unsigned_0 add_is_0 zero_neq_numeral)
  show "sid_part (rel_pointer (X @ sid_image s @ Y) (part_offset s k old)) s"
    "part_in good_sid (X @ sid_image s @ Y) (20 + k + sid_part_size s) (part_offset s k old)"
    using assms u nz sid_of_bytes
    by (auto simp: sid_part_def rel_pointer_def part_offset_def sid_image_def part_in_def good_sid_def sid_part_size_def
        simp del: of_nat_add split: option.splits)
qed

lemma stored_acl:
  assumes "acl_part p a" and "std_entries a" and "length X = 20 + k" and "k < 1000000" and "a = None \<longrightarrow> old = 0"
  shows "acl_part (rel_pointer (X @ acl_image a @ Y) (part_offset a k old)) (map_option trim_acl a)"
    and "part_in good_acl (X @ acl_image a @ Y) (20 + k + acl_part_size a) (part_offset a k old)"
proof -
  have u: "unat (word_of_nat (20 + k) :: ULONG) = 20 + k"
    by (rule small_offset[OF assms(4)])
  then have nz: "(word_of_nat (20 + k) :: ULONG) \<noteq> 0"
    by (metis unsigned_0 add_is_0 zero_neq_numeral)
  have at: "acl_at (acl_bytes (trim_acl b) @ Y) (trim_acl b)" if "a = Some b" for b
    using assms(1) that acl_at_trim by (auto simp: acl_part_def)
  have sz: "unat (acl_size (trim_acl b)) = acl_used b" if "a = Some b" for b
    using assms(1) that acl_valid_bounds(1)[of b] by (auto simp: acl_part_def acl_at_def trim_acl_def unat_short)
  have en: "\<forall>ace \<in> set (acl_aces (trim_acl b)). le_entry ace" if "a = Some b" for b
    using assms(2) that by (simp add: std_entries_def trim_acl_def)
  show "acl_part (rel_pointer (X @ acl_image a @ Y) (part_offset a k old)) (map_option trim_acl a)"
    using assms(3,5) u nz at
    by (cases a) (simp_all add: acl_part_def rel_pointer_def part_offset_def acl_image_def del: of_nat_add)
  show "part_in good_acl (X @ acl_image a @ Y) (20 + k + acl_part_size a) (part_offset a k old)"
  proof (cases a)
    case (Some b)
    then have "good_acl (acl_bytes (trim_acl b) @ Y) (acl_used b)"
      using at sz en by (metis good_acl_def)
    then show ?thesis
      using Some assms(3) u nz
      by (auto simp: part_in_def part_offset_def acl_image_def acl_part_size_def simp del: of_nat_add)
  qed (use assms(5) in \<open>simp add: part_in_def part_offset_def\<close>)
qed

lemma part_in_mono: "part_in good m k off \<Longrightarrow> k \<le> len \<Longrightarrow> part_in good m len off"
  by (auto simp: part_in_def)

lemma sid_part_None: "sid_part p s \<Longrightarrow> p = None \<longleftrightarrow> s = None"
  by (cases s) (auto simp: sid_part_def)

lemma acl_part_None: "acl_part p a \<Longrightarrow> p = None \<longleftrightarrow> a = None"
  by (cases a) (auto simp: acl_part_def)

lemma set_clear_bits:
  fixes c f :: "'a::len word"
  assumes "c AND f = 0"
  shows "(c OR f) AND NOT f = c"
proof (rule bit_word_eqI)
  fix n
  assume "n < LENGTH('a)"
  moreover have "\<not> (bit c n \<and> bit f n)"
    using assms by (metis bit_and_iff bit_0_eq bot_apply bot_bool_def)
  ultimately show "bit ((c OR f) AND NOT f) n = bit c n"
    by (auto simp: bit_and_iff bit_or_iff bit_not_iff)
qed

lemma clear_self_relative:
  fixes c :: "16 word"
  assumes "\<not> IsSetFlag c SE_SELF_RELATIVE"
  shows "ClearFlag (c OR SE_SELF_RELATIVE) SE_SELF_RELATIVE = c" and "IsSetFlag (c OR SE_SELF_RELATIVE) SE_SELF_RELATIVE"
proof -
  have "c AND SE_SELF_RELATIVE = 0"
    using assms by (simp add: IsSetFlag_def)
  then show "ClearFlag (c OR SE_SELF_RELATIVE) SE_SELF_RELATIVE = c"
    unfolding ClearFlag_def by (rule set_clear_bits)
  show "IsSetFlag (c OR SE_SELF_RELATIVE) SE_SELF_RELATIVE"
    by (simp add: IsSetFlag_def bit.conj_disj_distrib2)
qed

text \<open>What the encoder leaves is a well-formed self-relative descriptor, and it holds the trimmed descriptor.\<close>

lemma stored_sd:
  assumes "sd_holds sd D" and "std_entries (d_sacl D)" and "std_entries (d_dacl D)" and "clean_header D r"
    and m: "m = rel_bytes (rel_of sd D r) @ sd_image D @ Y"
  shows "rel_ok m (20 + sd_parts_size D) (rel_of sd D r) \<and> sd_holds (abs_header m (rel_of sd D r)) (trim_sd D)"
proof -
  let ?n1 = "sid_part_size (d_owner D)"
  let ?n2 = "?n1 + sid_part_size (d_group D)"
  let ?n3 = "?n2 + acl_part_size (d_dacl D)"
  let ?h = "rel_bytes (rel_of sd D r)"
  let ?ow = "sid_image (d_owner D)" and ?gr = "sid_image (d_group D)"
  let ?da = "acl_image (d_dacl D)" and ?sa = "acl_image (d_sacl D)"
  have parts: "sid_part (sd_Owner sd) (d_owner D)" "sid_part (sd_Group sd) (d_group D)"
    "acl_part (sd_Sacl sd) (d_sacl D)" "acl_part (sd_Dacl sd) (d_dacl D)"
    using assms(1) by (simp_all add: sd_holds_def)
  note len = length_images(1)[OF parts(1)] length_images(1)[OF parts(2)] length_images(2)[of "d_dacl D"]
  have lt: "?n3 + acl_part_size (d_sacl D) < 200000"
    using sd_parts_size_lt[OF assms(1)] by (simp add: sd_parts_size_def)
  have clean: "d_owner D = None \<longrightarrow> rel_Owner r = 0" "d_group D = None \<longrightarrow> rel_Group r = 0"
    "d_sacl D = None \<longrightarrow> rel_Sacl r = 0" "d_dacl D = None \<longrightarrow> rel_Dacl r = 0"
    using assms(4) by (simp_all add: clean_header_def)
  note ow = stored_sid[OF parts(1), where X = ?h and Y = "?gr @ ?da @ ?sa @ Y" and k = 0, OF _ _ clean(1)]
  note gr = stored_sid[OF parts(2), where X = "?h @ ?ow" and Y = "?da @ ?sa @ Y" and k = ?n1, OF _ _ clean(2)]
  note da = stored_acl[OF parts(4) assms(3), where X = "?h @ ?ow @ ?gr" and Y = "?sa @ Y" and k = ?n2, OF _ _ clean(4)]
  note sa = stored_acl[OF parts(3) assms(2), where X = "?h @ ?ow @ ?gr @ ?da" and Y = Y and k = ?n3, OF _ _ clean(3)]
  have at: "sid_part (rel_pointer m (rel_Owner (rel_of sd D r))) (d_owner D)"
    "sid_part (rel_pointer m (rel_Group (rel_of sd D r))) (d_group D)"
    "acl_part (rel_pointer m (rel_Dacl (rel_of sd D r))) (map_option trim_acl (d_dacl D))"
    "acl_part (rel_pointer m (rel_Sacl (rel_of sd D r))) (map_option trim_acl (d_sacl D))"
    using ow(1) gr(1) da(1) sa(1) lt len by (simp_all add: m sd_image_def rel_of_def Let_def)
  have inside: "part_in good_sid m (20 + sd_parts_size D) (rel_Owner (rel_of sd D r))"
    "part_in good_sid m (20 + sd_parts_size D) (rel_Group (rel_of sd D r))"
    "part_in good_acl m (20 + sd_parts_size D) (rel_Dacl (rel_of sd D r))"
    "part_in good_acl m (20 + sd_parts_size D) (rel_Sacl (rel_of sd D r))"
    using ow(2) gr(2) da(2) sa(2) lt len
    by (auto simp: m sd_image_def rel_of_def Let_def sd_parts_size_def intro: part_in_mono)
  let ?c = "sd_Control sd"
  have "\<not> IsSetFlag ?c SE_SELF_RELATIVE"
    using assms(1) by (simp add: sd_holds_def sd_header_ok_def)
  note ctl = clear_self_relative[OF this]
  have none: "(rel_pointer m (rel_Owner (rel_of sd D r)) = None) = (sd_Owner sd = None)"
    "(rel_pointer m (rel_Group (rel_of sd D r)) = None) = (sd_Group sd = None)"
    "(rel_pointer m (rel_Dacl (rel_of sd D r)) = None) = (sd_Dacl sd = None)"
    "(rel_pointer m (rel_Sacl (rel_of sd D r)) = None) = (sd_Sacl sd = None)"
    using sid_part_None acl_part_None parts at by (metis map_option_is_None)+
  have fields: "rel_Revision (rel_of sd D r) = sd_Revision sd" "rel_Sbz1 (rel_of sd D r) = sd_Sbz1 sd"
    "rel_Control (rel_of sd D r) = ?c OR SE_SELF_RELATIVE"
    by (simp_all add: rel_of_def Let_def)
  have "sd_header_ok (abs_header m (rel_of sd D r))"
    using assms(1) by (simp add: sd_holds_def sd_header_ok_def abs_header_def fields ctl(1) none)
  moreover have "rel_header m = Some (rel_of sd D r)"
    by (simp add: m rel_header_bytes)
  ultimately show ?thesis
    using at inside ctl(2) by (simp add: rel_ok_def sd_holds_def trim_sd_def fields(3), simp add: abs_header_def)
qed

lemma swap_trim_sd:
  assumes "std_entries (d_sacl D)" and "std_entries (d_dacl D)"
  shows "swap_sd (trim_sd D) = trim_sd D" and "le_acl_entries (d_sacl (trim_sd D))" and "le_acl_entries (d_dacl (trim_sd D))"
proof -
  have sw: "swap_acl (trim_acl a) = trim_acl a" if "std_entries (Some a)" for a
  proof -
    have "map swap_guids (acl_aces a) = acl_aces a"
      using that by (intro map_idI) (simp add: std_entries_def swap_guids_def)
    then show ?thesis
      by (simp add: swap_acl_def trim_acl_def)
  qed
  then show "swap_sd (trim_sd D) = trim_sd D"
    using assms by (cases "d_sacl D"; cases "d_dacl D") (simp_all add: swap_sd_def trim_sd_def)
  show "le_acl_entries (d_sacl (trim_sd D))" "le_acl_entries (d_dacl (trim_sd D))"
    using assms by (auto simp: trim_sd_def le_acl_entries_def std_entries_def trim_acl_def split: option.splits)
qed

section \<open>Properties\<close>

text \<open>C1. An absolute descriptor whose lists hold only well-formed entries of the three ordinary types, written
  in self-relative form into a buffer of at least its size whose offset fields are clear for the absent parts, and
  converted back into buffers that are large enough, is the same descriptor: the same identifiers and entries, with
  each list cut to the size it uses.  The encoder refuses object entries, so a descriptor that has them is not
  covered.\<close>

theorem absolute_relative_absolute:
  assumes "sd_holds sd D" and "std_entries (d_sacl D)" and "std_entries (d_dacl D)" and "clean_header D r"
    and "rel_header m = Some r" and "unat sz \<le> length m" and "20 + sd_parts_size D \<le> unat sz"
    and "bufs_ok bufs szs (trim_sd D)"
  shows "\<exists>m' n bufs' req sd'. RtlAbsoluteToSelfRelativeSD (Some sd) (Some m) (Some sz) = Some (STATUS_SUCCESS, Some m', n)
    \<and> RtlSelfRelativeToAbsoluteSD m' bufs (Some szs) = Some (STATUS_SUCCESS, bufs', req)
    \<and> b_Abs bufs' = Some sd' \<and> sd_holds sd' (trim_sd D)"
proof -
  let ?m = "rel_bytes (rel_of sd D r) @ sd_image D @ drop (20 + sd_parts_size D) m"
  have enc: "RtlAbsoluteToSelfRelativeSD (Some sd) (Some m) (Some sz) =
      Some (STATUS_SUCCESS, Some ?m, Some (word_of_nat (20 + sd_parts_size D)))"
    using RtlAbsoluteToSelfRelativeSD_holds[OF assms(1-3,6)] assms(5-7) by simp
  have st: "rel_ok ?m (20 + sd_parts_size D) (rel_of sd D r)" "sd_holds (abs_header ?m (rel_of sd D r)) (trim_sd D)"
    using stored_sd[OF assms(1-4) refl] by blast+
  show ?thesis
    using RtlSelfRelativeToAbsoluteSD_ok[OF st swap_trim_sd(2,3)[OF assms(2,3)] assms(8)]
    unfolding swap_trim_sd(1)[OF assms(2,3)] using enc by blast
qed

definition sample_buffers :: sd_buffers where
  "sample_buffers = \<lparr> b_Abs = Some sample_sd, b_Dacl = Some (replicate 60 0), b_Sacl = None, b_Owner = Some (replicate 68 0),
     b_Group = None \<rparr>"

definition sample_sizes :: sd_sizes where
  "sample_sizes = \<lparr> AbsoluteSecurityDescriptorSize = 40, DaclSize = 60, SaclSize = 0, OwnerSize = 68, PrimaryGroupSize = 0 \<rparr>"

lemma sample_std: "std_entries (d_sacl sample_SD)" "std_entries (d_dacl sample_SD)"
  using sample_entry_valid le_entry_bytes[of sample_entry] by (simp_all add: sample_SD_def std_entries_def)

lemma sample_parts_size: "sd_parts_size sample_SD = 40"
  using sample_acl_used by (simp add: sd_parts_size_def sid_part_size_def acl_part_size_def sample_SD_def sid_length_def)

lemma sample_trim_size: "unat (acl_size (trim_acl sample_acl)) = 28"
  using sample_acl_used by (simp add: trim_acl_def)

definition no_offsets :: SECURITY_DESCRIPTOR_RELATIVE where
  "no_offsets = \<lparr> rel_Revision = 0, rel_Sbz1 = 0, rel_Control = 0, rel_Owner = 0, rel_Group = 0, rel_Sacl = 0, rel_Dacl = 0 \<rparr>"

lemma sample_clean: "rel_header (replicate 64 0) = Some no_offsets"
proof -
  have "replicate 64 (0 :: byte) = replicate 20 0 @ replicate 44 0"
    by (simp flip: replicate_add)
  moreover have "replicate 20 0 = rel_bytes no_offsets"
    by (simp add: rel_bytes_def no_offsets_def enc16_def enc32_def numeral_eq_Suc)
  ultimately show ?thesis
    by (simp only: rel_header_bytes)
qed

theorem absolute_relative_absolute_witness:
  "\<exists>m' n bufs' req sd'. RtlAbsoluteToSelfRelativeSD (Some sample_sd_owned) (Some (replicate 64 0)) (Some 64) =
      Some (STATUS_SUCCESS, Some m', n)
    \<and> RtlSelfRelativeToAbsoluteSD m' sample_buffers (Some sample_sizes) = Some (STATUS_SUCCESS, bufs', req)
    \<and> b_Abs bufs' = Some sd' \<and> sd_holds sd' (trim_sd sample_SD)"
proof -
  have "bufs_ok sample_buffers sample_sizes (trim_sd sample_SD)"
    using sample_trim_size
    by (simp add: bufs_ok_def buf_ok_def sample_buffers_def sample_sizes_def trim_sd_def sample_SD_def sid_part_size_def
        acl_part_alloc_def sid_length_def)
  then show ?thesis
    using absolute_relative_absolute[OF sample_sd_holds sample_std _ sample_clean, of 64] sample_parts_size
    by (simp add: clean_header_def no_offsets_def)
qed

text \<open>C2. Validated bytes convert: when the validator of self-relative descriptors accepts a buffer, the buffer holds a
  well-formed descriptor, and converting it into output buffers of sufficient size succeeds with a valid absolute
  descriptor.\<close>

theorem validated_relative_converts:
  assumes "RtlValidRelativeSecurityDescriptor m len req = Some True" and "unat len \<le> length m"
  shows "\<exists>r D. rel_header m = Some r \<and> sd_holds (abs_header m r) D
    \<and> (\<forall>bufs sz. bufs_ok bufs sz D \<longrightarrow>
        (\<exists>bufs' rq sd'. RtlSelfRelativeToAbsoluteSD m bufs (Some sz) = Some (STATUS_SUCCESS, bufs', rq)
          \<and> b_Abs bufs' = Some sd' \<and> RtlValidSecurityDescriptor sd' = Some True \<and> sd_holds sd' (swap_sd D)))"
proof -
  have "\<exists>err. RtlpVerifyRelativeSecurityDescriptorWithErrorSubcode m len req = Some (STATUS_SUCCESS, err)"
    using assms(1) postD[OF verify_relative_statuses[of m len req]]
    by (auto simp: RtlValidRelativeSecurityDescriptor_def RtlpVerifyRelativeSecurityDescriptor_def bind_eq_Some_conv NT_SUCCESS_iff)
  then obtain r where r: "rel_ok m (unat len) r"
    using RtlpVerifyRelativeSecurityDescriptor_sound assms(2) by blast
  obtain D where D: "sd_holds (abs_header m r) D" "le_acl_entries (d_sacl D)" "le_acl_entries (d_dacl D)"
    using rel_ok_holds[OF r] by blast
  then show ?thesis
    using RtlSelfRelativeToAbsoluteSD_ok[OF r D] RtlValidSecurityDescriptor_holds r unfolding rel_ok_def by metis
qed

text \<open>A self-relative descriptor with the local system as owner and no other part.\<close>

definition sample_relative :: mem where
  "sample_relative = [1,0,0,128, 20,0,0,0, 0,0,0,0, 0,0,0,0, 0,0,0,0, 1,1,0,0,0,0,0,5,18,0,0,0]"

theorem validated_relative_converts_witness:
  "RtlValidRelativeSecurityDescriptor sample_relative 32 OWNER_SECURITY_INFORMATION = Some True
    \<and> (\<exists>r D. rel_header sample_relative = Some r \<and> sd_holds (abs_header sample_relative r) D)"
proof -
  have v: "RtlpIsValidLittleEndianSidBuffer [1,1,0,0,0,0,0,5,18,0,0,0] 12 = Some (True, 12)"
    by (simp add: RtlpIsValidLittleEndianSidBuffer_correct sid_eval)
  have h: "rel_header sample_relative = Some \<lparr> rel_Revision = 1, rel_Sbz1 = 0, rel_Control = 0x8000, rel_Owner = 20,
      rel_Group = 0, rel_Sacl = 0, rel_Dacl = 0 \<rparr>"
    by (simp add: rel_header_def sample_relative_def byte_eval)
  have p: "ptr_add sample_relative 20 = Some [1,1,0,0,0,0,0,5,18,0,0,0]"
    by (simp add: ptr_add_def sample_relative_def)
  have "RtlValidRelativeSecurityDescriptor sample_relative 32 OWNER_SECURITY_INFORMATION = Some True"
    using v h p
    by (simp add: RtlValidRelativeSecurityDescriptor_def RtlpVerifyRelativeSecurityDescriptor_def
        RtlpVerifyRelativeSecurityDescriptorWithErrorSubcode_def rel_header_checks_def abs_header_def rel_pointer_def
        RtlpVerifyRelativeSecurityDescriptorOffset_def RtlpVerifySecurityDescriptorHeader_def LW_IS_VALID_FLAGS_def
        IsSetFlag_def ClearFlag_def)
  moreover have "unat (32 :: ULONG) \<le> length sample_relative"
    by (simp add: sample_relative_def)
  ultimately show ?thesis
    using validated_relative_converts by blast
qed

text \<open>Writing the self-relative form reports the size needed: a smaller buffer is refused with that size and left
  unchanged, and otherwise exactly that many bytes are written.\<close>

lemma absolute_to_relative_size:
  assumes "sd_holds sd D" and "std_entries (d_sacl D)" and "std_entries (d_dacl D)"
    and "unat sz \<le> length m" and "20 \<le> length m"
  shows "if unat sz < 20 + sd_parts_size D
    then RtlAbsoluteToSelfRelativeSD (Some sd) (Some m) (Some sz) =
      Some (STATUS_BUFFER_TOO_SMALL, Some m, Some (word_of_nat (20 + sd_parts_size D)))
    else \<exists>m'. RtlAbsoluteToSelfRelativeSD (Some sd) (Some m) (Some sz) =
        Some (STATUS_SUCCESS, Some m', Some (word_of_nat (20 + sd_parts_size D)))
      \<and> length m' = length m \<and> drop (20 + sd_parts_size D) m' = drop (20 + sd_parts_size D) m"
proof -
  have "length (sd_image D) = sd_parts_size D"
    using assms(1) length_images(1)[of "sd_Owner sd" "d_owner D"] length_images(1)[of "sd_Group sd" "d_group D"]
      length_images(2)[of "d_dacl D"] length_images(2)[of "d_sacl D"]
    by (simp add: sd_holds_def sd_image_def sd_parts_size_def)
  then show ?thesis
    using RtlAbsoluteToSelfRelativeSD_holds[OF assms] assms(4) by (cases "unat sz < 20 + sd_parts_size D") auto
qed

end
