(* ===== verification/Security_Sd_Info.thy ===== *)
theory Security_Sd_Info
  imports Security_Sd_Relative
begin

text \<open>
  The functions of \<^verbatim>\<open>security-sd.c\<close> that read and replace chosen parts of an object's self-relative descriptor: it is
  converted to absolute form, changed with the setters, and converted back into the caller's buffer.  The absolute copies
  are freed on every path; freeing is not modelled.
\<close>

section \<open>Operations\<close>


text \<open>The control bits besides those that the setters of the lists maintain.\<close>

abbreviation (input) DACL_CONTROL :: USHORT where "DACL_CONTROL \<equiv> 0x1540"
abbreviation (input) SACL_CONTROL :: USHORT where "SACL_CONTROL \<equiv> 0x2A00"

text \<open>A block that is only allocated when its size is not zero.\<close>

definition alloc_part :: "(nat \<Rightarrow> bool) \<Rightarrow> ULONG \<Rightarrow> NTSTATUS \<times> mem option" where
  "alloc_part avail sz = (if sz = 0 then (STATUS_SUCCESS, None) else RTL_ALLOCATE avail (unat sz))"

definition zero_descriptor :: SECURITY_DESCRIPTOR_ABSOLUTE where
  "zero_descriptor = \<lparr> sd_Revision = 0, sd_Sbz1 = 0, sd_Control = 0, sd_Owner = None, sd_Group = None, sd_Sacl = None, sd_Dacl = None \<rparr>"

definition no_buffers :: sd_buffers where
  "no_buffers = \<lparr> b_Abs = None, b_Dacl = None, b_Sacl = None, b_Owner = None, b_Group = None \<rparr>"

text \<open>The allocations of \<^verbatim>\<open>RtlpCreateAbsSecDescFromRelative\<close>, in order.\<close>

definition alloc_buffers :: "(nat \<Rightarrow> bool) \<Rightarrow> sd_sizes \<Rightarrow> NTSTATUS \<times> sd_buffers" where
  "alloc_buffers avail sz =
    (let (status, ow) = alloc_part avail (OwnerSize sz); bufs = no_buffers\<lparr>b_Owner := ow\<rparr> in
     if status \<noteq> STATUS_SUCCESS then (status, bufs) else
     let (status, gr) = alloc_part avail (PrimaryGroupSize sz); bufs = bufs\<lparr>b_Group := gr\<rparr> in
     if status \<noteq> STATUS_SUCCESS then (status, bufs) else
     let (status, da) = alloc_part avail (DaclSize sz); bufs = bufs\<lparr>b_Dacl := da\<rparr> in
     if status \<noteq> STATUS_SUCCESS then (status, bufs) else
     let (status, sa) = alloc_part avail (SaclSize sz); bufs = bufs\<lparr>b_Sacl := sa\<rparr> in
     if status \<noteq> STATUS_SUCCESS then (status, bufs) else
     let (status, a) = RTL_ALLOCATE avail (unat (AbsoluteSecurityDescriptorSize sz)) in
     (status, bufs\<lparr>b_Abs := map_option (\<lambda>_. zero_descriptor) a\<rparr>))"

definition RtlpCreateAbsSecDescFromRelative ::
    "(nat \<Rightarrow> bool) \<Rightarrow> mem \<Rightarrow> (NTSTATUS \<times> SECURITY_DESCRIPTOR_ABSOLUTE option) option" where
  "RtlpCreateAbsSecDescFromRelative avail pRelSecDesc = do {
     (status, _, sz) \<leftarrow> RtlSelfRelativeToAbsoluteSD pRelSecDesc no_buffers (Some no_sizes);
     let status = (if status = STATUS_BUFFER_TOO_SMALL then STATUS_SUCCESS else status);
     if status \<noteq> STATUS_SUCCESS then Some (status, None)
     else do {
       let (status, bufs) = alloc_buffers avail sz;
       if status \<noteq> STATUS_SUCCESS then Some (status, None)
       else do {
         (status, bufs, _) \<leftarrow> RtlSelfRelativeToAbsoluteSD pRelSecDesc bufs (Some sz);
         if status \<noteq> STATUS_SUCCESS then Some (status, None) else Some (status, b_Abs bufs)
       }
     }
   }"

text \<open>Removal of a part that was not asked for.\<close>

definition drop_sid ::
    "(SECURITY_DESCRIPTOR_ABSOLUTE \<Rightarrow> NTSTATUS \<times> mem option \<times> bool) \<Rightarrow>
     (SECURITY_DESCRIPTOR_ABSOLUTE \<Rightarrow> mem option \<Rightarrow> bool \<Rightarrow> NTSTATUS \<times> SECURITY_DESCRIPTOR_ABSOLUTE) \<Rightarrow>
     SECURITY_DESCRIPTOR_ABSOLUTE \<Rightarrow> NTSTATUS \<times> SECURITY_DESCRIPTOR_ABSOLUTE" where
  "drop_sid getter setter sd =
    (let (status, _, _) = getter sd in if status \<noteq> STATUS_SUCCESS then (status, sd) else setter sd None False)"

definition drop_acl ::
    "(SECURITY_DESCRIPTOR_ABSOLUTE \<Rightarrow> NTSTATUS \<times> bool \<times> mem option \<times> bool) \<Rightarrow>
     (SECURITY_DESCRIPTOR_ABSOLUTE \<Rightarrow> bool \<Rightarrow> mem option \<Rightarrow> bool \<Rightarrow> NTSTATUS \<times> SECURITY_DESCRIPTOR_ABSOLUTE) \<Rightarrow>
     USHORT \<Rightarrow> SECURITY_DESCRIPTOR_ABSOLUTE \<Rightarrow> NTSTATUS \<times> SECURITY_DESCRIPTOR_ABSOLUTE" where
  "drop_acl getter setter control sd =
    (let (status, _, _, _) = getter sd in
     if status \<noteq> STATUS_SUCCESS then (status, sd) else
     let (status, sd) = setter sd False None False in
     if status \<noteq> STATUS_SUCCESS then (status, sd) else RtlSetSecurityDescriptorControl sd control 0)"

definition unless_asked ::
    "ULONG \<Rightarrow> ULONG \<Rightarrow> ('a \<Rightarrow> NTSTATUS \<times> 'a) \<Rightarrow> NTSTATUS \<times> 'a \<Rightarrow> NTSTATUS \<times> 'a" where
  "unless_asked info b f r =
    (let (status, x) = r in if status \<noteq> STATUS_SUCCESS \<or> info AND b \<noteq> 0 then (status, x) else f x)"

definition drop_parts :: "ULONG \<Rightarrow> SECURITY_DESCRIPTOR_ABSOLUTE \<Rightarrow> NTSTATUS \<times> SECURITY_DESCRIPTOR_ABSOLUTE" where
  "drop_parts info sd =
     unless_asked info SACL_SECURITY_INFORMATION (drop_acl RtlGetSaclSecurityDescriptor RtlSetSaclSecurityDescriptor SACL_CONTROL)
    (unless_asked info DACL_SECURITY_INFORMATION (drop_acl RtlGetDaclSecurityDescriptor RtlSetDaclSecurityDescriptor DACL_CONTROL)
    (unless_asked info GROUP_SECURITY_INFORMATION (drop_sid RtlGetGroupSecurityDescriptor RtlSetGroupSecurityDescriptor)
    (unless_asked info OWNER_SECURITY_INFORMATION (drop_sid RtlGetOwnerSecurityDescriptor RtlSetOwnerSecurityDescriptor)
      (STATUS_SUCCESS, sd))))"

definition RtlQuerySecurityDescriptorInfo ::
    "(nat \<Rightarrow> bool) \<Rightarrow> ULONG \<Rightarrow> mem option \<Rightarrow> ULONG option \<Rightarrow> mem \<Rightarrow> (NTSTATUS \<times> mem option \<times> ULONG option) option" where
  "RtlQuerySecurityDescriptorInfo avail SecurityInformation SecurityDescriptor Length ObjectSecurityDescriptor =
    (if SecurityInformation = 0 then Some (STATUS_INVALID_PARAMETER, SecurityDescriptor, Length)
     else do {
       (status, sd) \<leftarrow> RtlpCreateAbsSecDescFromRelative avail ObjectSecurityDescriptor;
       if status \<noteq> STATUS_SUCCESS then Some (status, SecurityDescriptor, Length)
       else do {
         sd \<leftarrow> sd;
         let (status, sd) = drop_parts SecurityInformation sd;
         if status \<noteq> STATUS_SUCCESS then Some (status, SecurityDescriptor, Length)
         else RtlAbsoluteToSelfRelativeSD (Some sd) SecurityDescriptor Length
       }
     })"

text \<open>A part that is asked for moves from the input descriptor, the second of the pair, to the object's.\<close>

definition take_sid ::
    "(SECURITY_DESCRIPTOR_ABSOLUTE \<Rightarrow> NTSTATUS \<times> mem option \<times> bool) \<Rightarrow>
     (SECURITY_DESCRIPTOR_ABSOLUTE \<Rightarrow> mem option \<Rightarrow> bool \<Rightarrow> NTSTATUS \<times> SECURITY_DESCRIPTOR_ABSOLUTE) \<Rightarrow>
     SECURITY_DESCRIPTOR_ABSOLUTE \<times> SECURITY_DESCRIPTOR_ABSOLUTE \<Rightarrow>
     NTSTATUS \<times> SECURITY_DESCRIPTOR_ABSOLUTE \<times> SECURITY_DESCRIPTOR_ABSOLUTE" where
  "take_sid getter setter x =
    (let (obj, inp) = x; (status, _, _) = getter obj in
     if status \<noteq> STATUS_SUCCESS then (status, obj, inp) else
     let (status, p, defaulted) = getter inp in
     if status \<noteq> STATUS_SUCCESS then (status, obj, inp) else
     let (status, inp) = setter inp None False in
     if status \<noteq> STATUS_SUCCESS then (status, obj, inp) else
     let (status, obj) = setter obj p defaulted in (status, obj, inp))"

definition take_acl ::
    "(SECURITY_DESCRIPTOR_ABSOLUTE \<Rightarrow> NTSTATUS \<times> bool \<times> mem option \<times> bool) \<Rightarrow>
     (SECURITY_DESCRIPTOR_ABSOLUTE \<Rightarrow> bool \<Rightarrow> mem option \<Rightarrow> bool \<Rightarrow> NTSTATUS \<times> SECURITY_DESCRIPTOR_ABSOLUTE) \<Rightarrow>
     USHORT \<Rightarrow> USHORT \<Rightarrow> SECURITY_DESCRIPTOR_ABSOLUTE \<times> SECURITY_DESCRIPTOR_ABSOLUTE \<Rightarrow>
     NTSTATUS \<times> SECURITY_DESCRIPTOR_ABSOLUTE \<times> SECURITY_DESCRIPTOR_ABSOLUTE" where
  "take_acl getter setter control inputControl x =
    (let (obj, inp) = x; (status, _, _, _) = getter obj in
     if status \<noteq> STATUS_SUCCESS then (status, obj, inp) else
     let (status, _, p, defaulted) = getter inp in
     if status \<noteq> STATUS_SUCCESS then (status, obj, inp) else
     let (status, inp) = setter inp False None False in
     if status \<noteq> STATUS_SUCCESS then (status, obj, inp) else
     let (status, obj) = RtlSetSecurityDescriptorControl obj control 0 in
     if status \<noteq> STATUS_SUCCESS then (status, obj, inp) else
     let (status, obj) = setter obj True p defaulted in
     if status \<noteq> STATUS_SUCCESS then (status, obj, inp) else
     let (status, obj) = RtlSetSecurityDescriptorControl obj control (inputControl AND control) in (status, obj, inp))"

definition if_asked ::
    "ULONG \<Rightarrow> ULONG \<Rightarrow> ('a \<Rightarrow> NTSTATUS \<times> 'a) \<Rightarrow> NTSTATUS \<times> 'a \<Rightarrow> NTSTATUS \<times> 'a" where
  "if_asked info b f r =
    (let (status, x) = r in if status \<noteq> STATUS_SUCCESS \<or> info AND b = 0 then (status, x) else f x)"

definition take_parts ::
    "ULONG \<Rightarrow> USHORT \<Rightarrow> SECURITY_DESCRIPTOR_ABSOLUTE \<times> SECURITY_DESCRIPTOR_ABSOLUTE \<Rightarrow>
     NTSTATUS \<times> SECURITY_DESCRIPTOR_ABSOLUTE \<times> SECURITY_DESCRIPTOR_ABSOLUTE" where
  "take_parts info inputControl x =
     if_asked info SACL_SECURITY_INFORMATION (take_acl RtlGetSaclSecurityDescriptor RtlSetSaclSecurityDescriptor SACL_CONTROL inputControl)
    (if_asked info DACL_SECURITY_INFORMATION (take_acl RtlGetDaclSecurityDescriptor RtlSetDaclSecurityDescriptor DACL_CONTROL inputControl)
    (if_asked info GROUP_SECURITY_INFORMATION (take_sid RtlGetGroupSecurityDescriptor RtlSetGroupSecurityDescriptor)
    (if_asked info OWNER_SECURITY_INFORMATION (take_sid RtlGetOwnerSecurityDescriptor RtlSetOwnerSecurityDescriptor)
      (STATUS_SUCCESS, x))))"

definition RtlSetSecurityDescriptorInfo ::
    "(nat \<Rightarrow> bool) \<Rightarrow> ULONG \<Rightarrow> mem \<Rightarrow> mem \<Rightarrow> mem option \<Rightarrow> ULONG option \<Rightarrow> (NTSTATUS \<times> mem option \<times> ULONG option) option" where
  "RtlSetSecurityDescriptorInfo avail SecurityInformation InputSecurityDescriptor ObjectSecurityDescriptor
      NewObjectSecurityDescriptor NewObjectSecurityDescriptorLength =
    (let fail = (\<lambda>status. Some (status, NewObjectSecurityDescriptor, NewObjectSecurityDescriptorLength)) in
     if SecurityInformation = 0 then fail STATUS_INVALID_PARAMETER
     else do {
       (status, obj) \<leftarrow> RtlpCreateAbsSecDescFromRelative avail ObjectSecurityDescriptor;
       if status \<noteq> STATUS_SUCCESS then fail status
       else do {
         obj \<leftarrow> obj;
         (status, inp) \<leftarrow> RtlpCreateAbsSecDescFromRelative avail InputSecurityDescriptor;
         if status \<noteq> STATUS_SUCCESS then fail status
         else do {
           inp \<leftarrow> inp;
           let (status, inputControl, _) = RtlGetSecurityDescriptorControl inp;
           if status \<noteq> STATUS_SUCCESS then fail status
           else do {
             let (status, obj, _) = take_parts SecurityInformation inputControl (obj, inp);
             if status \<noteq> STATUS_SUCCESS then fail status
             else RtlAbsoluteToSelfRelativeSD (Some obj) NewObjectSecurityDescriptor NewObjectSecurityDescriptorLength
           }
         }
       }
     })"

section \<open>The absolute copy\<close>

lemma alloc_part_ok:
  assumes "\<forall>n. avail n"
  shows "\<exists>b. alloc_part avail sz = (STATUS_SUCCESS, b) \<and> buf_ok b sz (unat sz)"
  using assms by (auto simp: alloc_part_def RTL_ALLOCATE_cases buf_ok_def unsigned_eq_0_iff)

lemma alloc_buffers_ok:
  assumes "\<forall>n. avail n" and "AbsoluteSecurityDescriptorSize sz = 40"
    and "unat (OwnerSize sz) = sid_part_size (d_owner D)" "unat (PrimaryGroupSize sz) = sid_part_size (d_group D)"
    and "unat (SaclSize sz) = acl_part_alloc (d_sacl D)" "unat (DaclSize sz) = acl_part_alloc (d_dacl D)"
  shows "\<exists>bufs. alloc_buffers avail sz = (STATUS_SUCCESS, bufs) \<and> bufs_ok bufs sz D"
proof -
  note A = alloc_part_ok[OF assms(1)]
  obtain ow where ow: "alloc_part avail (OwnerSize sz) = (STATUS_SUCCESS, ow)" "buf_ok ow (OwnerSize sz) (sid_part_size (d_owner D))"
    using A[of "OwnerSize sz"] assms(3) by auto
  obtain gr where gr: "alloc_part avail (PrimaryGroupSize sz) = (STATUS_SUCCESS, gr)" "buf_ok gr (PrimaryGroupSize sz) (sid_part_size (d_group D))"
    using A[of "PrimaryGroupSize sz"] assms(4) by auto
  obtain sa where sa: "alloc_part avail (SaclSize sz) = (STATUS_SUCCESS, sa)" "buf_ok sa (SaclSize sz) (acl_part_alloc (d_sacl D))"
    using A[of "SaclSize sz"] assms(5) by auto
  obtain da where da: "alloc_part avail (DaclSize sz) = (STATUS_SUCCESS, da)" "buf_ok da (DaclSize sz) (acl_part_alloc (d_dacl D))"
    using A[of "DaclSize sz"] assms(6) by auto
  show ?thesis
    using ow gr sa da assms(1,2) by (simp add: alloc_buffers_def Let_def RTL_ALLOCATE_cases bufs_ok_def no_buffers_def)
qed

text \<open>The conversion changes no field of the header.\<close>

lemma convert_parts_control:
  "convert_parts sd bufs = Some (status, bufs') \<Longrightarrow> b_Abs bufs' = Some sd' \<Longrightarrow> sd_Control sd' = sd_Control sd"
  by (auto simp: convert_parts_def Let_def bind_eq_Some_conv split: if_splits prod.splits)

lemma to_absolute_control:
  assumes "RtlSelfRelativeToAbsoluteSD m bufs (Some sz) = Some (STATUS_SUCCESS, bufs', req)" and "rel_header m = Some r"
    and "b_Abs bufs' = Some sd"
  shows "sd_Control sd = ClearFlag (rel_Control r) SE_SELF_RELATIVE"
proof -
  obtain status where "convert_parts (abs_header m r) bufs = Some (status, bufs')"
    using assms(1,2) by (auto simp: RtlSelfRelativeToAbsoluteSD_def Let_def bind_eq_Some_conv split: if_splits prod.splits)
  then show ?thesis
    using convert_parts_control[OF _ assms(3)] by (simp add: abs_header_def)
qed

text \<open>The first call finds the sizes.\<close>

lemma to_absolute_sizes:
  assumes "rel_ok m len r" and "sd_holds (abs_header m r) D"
  shows "\<exists>req. RtlSelfRelativeToAbsoluteSD m no_buffers (Some no_sizes) = Some (STATUS_BUFFER_TOO_SMALL, no_buffers, req)
    \<and> AbsoluteSecurityDescriptorSize req = 40
    \<and> unat (OwnerSize req) = sid_part_size (d_owner D) \<and> unat (PrimaryGroupSize req) = sid_part_size (d_group D)
    \<and> unat (SaclSize req) = acl_part_alloc (d_sacl D) \<and> unat (DaclSize req) = acl_part_alloc (d_dacl D)"
proof -
  have h: "rel_header m = Some r" "IsSetFlag (rel_Control r) SE_SELF_RELATIVE"
    "NT_SUCCESS (RtlpVerifySecurityDescriptorHeader (abs_header m r))"
    using assms(1) by (simp_all add: rel_ok_def verify_header_NT_SUCCESS)
  show ?thesis
    using abs_sizes_holds[OF assms(2)] h by (auto simp: RtlSelfRelativeToAbsoluteSD_def no_sizes_def no_buffers_def Let_def)
qed

lemma create_abs_correct:
  assumes "rel_ok m len r" and "sd_holds (abs_header m r) D" and "le_acl_entries (d_sacl D)" and "le_acl_entries (d_dacl D)"
    and "\<forall>n. avail n"
  shows "\<exists>sd. RtlpCreateAbsSecDescFromRelative avail m = Some (STATUS_SUCCESS, Some sd) \<and> sd_holds sd (swap_sd D)
    \<and> sd_Control sd = ClearFlag (rel_Control r) SE_SELF_RELATIVE"
proof -
  obtain req where req: "RtlSelfRelativeToAbsoluteSD m no_buffers (Some no_sizes) = Some (STATUS_BUFFER_TOO_SMALL, no_buffers, req)"
    "AbsoluteSecurityDescriptorSize req = 40"
    "unat (OwnerSize req) = sid_part_size (d_owner D)" "unat (PrimaryGroupSize req) = sid_part_size (d_group D)"
    "unat (SaclSize req) = acl_part_alloc (d_sacl D)" "unat (DaclSize req) = acl_part_alloc (d_dacl D)"
    using to_absolute_sizes[OF assms(1,2)] by blast
  obtain bufs where bufs: "alloc_buffers avail req = (STATUS_SUCCESS, bufs)" "bufs_ok bufs req D"
    using alloc_buffers_ok[OF assms(5) req(2-6)] by blast
  obtain bufs' req' sd where r: "RtlSelfRelativeToAbsoluteSD m bufs (Some req) = Some (STATUS_SUCCESS, bufs', req')"
    "b_Abs bufs' = Some sd" "sd_holds sd (swap_sd D)"
    using RtlSelfRelativeToAbsoluteSD_ok[OF assms(1-4) bufs(2)] by blast
  have "sd_Control sd = ClearFlag (rel_Control r) SE_SELF_RELATIVE"
    using to_absolute_control[OF r(1) _ r(2)] assms(1) by (simp add: rel_ok_def)
  then show ?thesis
    using req(1) bufs(1) r by (simp add: RtlpCreateAbsSecDescFromRelative_def)
qed

section \<open>Dropping and taking parts\<close>

definition asked :: "ULONG \<Rightarrow> ULONG \<Rightarrow> bool" where
  "asked info b \<longleftrightarrow> info AND b \<noteq> 0"

text \<open>The control bits of the mask come from the second word.\<close>

definition merge_bits :: "USHORT \<Rightarrow> USHORT \<Rightarrow> USHORT \<Rightarrow> USHORT" where
  "merge_bits M c d = (c AND NOT M) OR (d AND M)"

lemma bit_merge_bits: "bit (merge_bits M c d) n \<longleftrightarrow> (if bit M n then bit d n else bit c n)"
  using bit_imp_le_length[of c n] by (auto simp: merge_bits_def bit_simps)

lemma single_flag: "IsSetFlag c (2 ^ k) \<longleftrightarrow> bit (c :: USHORT) k"
  by (simp add: IsSetFlag_def and_exp_eq_0_iff_not_bit)

lemma merge_single:
  "(if IsSetFlag d (2 ^ k) then SetFlag c (2 ^ k) else ClearFlag c (2 ^ k)) = merge_bits (2 ^ k) c d"
proof (rule bit_word_eqI)
  fix n :: nat
  assume "n < LENGTH(16)"
  then show "bit (if IsSetFlag d (2 ^ k) then SetFlag c (2 ^ k) else ClearFlag c (2 ^ k)) n =
      bit (merge_bits (2 ^ k) c d) n"
    by (auto simp: single_flag bit_merge_bits SetFlag_def ClearFlag_def bit_simps)
qed

lemma ClearFlag_merge: "ClearFlag c b = merge_bits b c 0"
  by (simp add: ClearFlag_def merge_bits_def)

lemma merge_flags: "IsSetFlag (merge_bits M c d) f \<longleftrightarrow> IsSetFlag c f" if "M AND f = 0"
proof -
  have "merge_bits M c d AND f = c AND f"
    using that by (intro bit_word_eqI) (auto simp: bit_merge_bits bit_simps dest: arg_cong[where f = "\<lambda>w. bit w _"])
  then show ?thesis
    by (simp add: IsSetFlag_def)
qed

text \<open>The result of setting control bits of a descriptor with a valid header.\<close>

lemma set_control:
  assumes "sd_header_ok sd" and "LW_IS_VALID_FLAGS M SE_SET_SECURITY_DESCRIPTOR_CONTROL_MASK" and "(M OR d) AND NOT M = 0"
  shows "RtlSetSecurityDescriptorControl sd M d = (STATUS_SUCCESS, sd\<lparr>sd_Control := merge_bits M (sd_Control sd) d\<rparr>)"
    and "sd_header_ok (sd\<lparr>sd_Control := merge_bits M (sd_Control sd) d\<rparr>)"
proof -
  obtain sd' where r: "RtlSetSecurityDescriptorControl sd M d = (STATUS_SUCCESS, sd')"
    using assms verify_header_iff[of sd] by (auto simp: RtlSetSecurityDescriptorControl_def Let_def)
  note ok = RtlSetSecurityDescriptorControl_ok[OF r]
  have "sd_Control sd' = merge_bits M (sd_Control sd) d"
    by (intro bit_word_eqI) (simp add: ok(2) bit_merge_bits)
  then have "sd' = sd\<lparr>sd_Control := merge_bits M (sd_Control sd) d\<rparr>"
    using ok(3) by simp
  then show "RtlSetSecurityDescriptorControl sd M d = (STATUS_SUCCESS, sd\<lparr>sd_Control := merge_bits M (sd_Control sd) d\<rparr>)"
    "sd_header_ok (sd\<lparr>sd_Control := merge_bits M (sd_Control sd) d\<rparr>)"
    using r ok(1) by simp_all
qed

context sd_sid_field begin

lemma drop_sid_ok:
  assumes "sd_header_ok sd"
  shows "drop_sid (\<lambda>sd. RtlpGetSidSecurityDescriptor sd get def_bit) (\<lambda>sd. RtlpSetSidSecurityDescriptor sd put def_bit) sd =
      (STATUS_SUCCESS, (put None sd)\<lparr>sd_Control := merge_bits def_bit (sd_Control sd) 0\<rparr>)"
    and "sd_header_ok ((put None sd)\<lparr>sd_Control := merge_bits def_bit (sd_Control sd) 0\<rparr>)"
  using assms clear_ok[OF assms, of None] verify_header_iff[of sd]
  by (simp_all add: drop_sid_def RtlpGetSidSecurityDescriptor_def set_cases flip: ClearFlag_merge)

lemma take_sid_ok:
  assumes "sd_header_ok obj" and "sd_header_ok inp" and "IsSetFlag (sd_Control inp) def_bit \<longrightarrow> get inp \<noteq> None" and "def_bit = 2 ^ k"
  shows "take_sid (\<lambda>sd. RtlpGetSidSecurityDescriptor sd get def_bit) (\<lambda>sd. RtlpSetSidSecurityDescriptor sd put def_bit) (obj, inp) =
      (STATUS_SUCCESS, (put (get inp) obj)\<lparr>sd_Control := merge_bits def_bit (sd_Control obj) (sd_Control inp)\<rparr>,
       (put None inp)\<lparr>sd_Control := merge_bits def_bit (sd_Control inp) 0\<rparr>)"
    and "sd_header_ok ((put (get inp) obj)\<lparr>sd_Control := merge_bits def_bit (sd_Control obj) (sd_Control inp)\<rparr>)"
proof -
  note m = merge_single[of "sd_Control inp" k "sd_Control obj", folded assms(4)]
  note v = verify_header_iff[of obj] verify_header_iff[of inp]
  show "take_sid (\<lambda>sd. RtlpGetSidSecurityDescriptor sd get def_bit) (\<lambda>sd. RtlpSetSidSecurityDescriptor sd put def_bit) (obj, inp) =
      (STATUS_SUCCESS, (put (get inp) obj)\<lparr>sd_Control := merge_bits def_bit (sd_Control obj) (sd_Control inp)\<rparr>,
       (put None inp)\<lparr>sd_Control := merge_bits def_bit (sd_Control inp) 0\<rparr>)"
    using assms(1-3) v by (auto simp: take_sid_def RtlpGetSidSecurityDescriptor_def set_cases simp flip: ClearFlag_merge m)
  show "sd_header_ok ((put (get inp) obj)\<lparr>sd_Control := merge_bits def_bit (sd_Control obj) (sd_Control inp)\<rparr>)"
    using assms(3) set_ok[OF assms(1), of "get inp"] clear_ok[OF assms(1), of "get inp"] unfolding m[symmetric] by simp
qed

end

text \<open>What replacing a list with its control bits leaves.\<close>

lemma merge_acl_control:
  assumes "P AND M = 0" and "P AND D = 0" and "M AND D = 0"
  shows "merge_bits M (merge_bits D (SetFlag (merge_bits M c 0) P) i) (i AND M) = SetFlag (merge_bits (M OR D) c i) P"
proof (rule bit_word_eqI)
  fix n :: nat
  assume "n < LENGTH(16)"
  have "\<not> (bit P n \<and> bit M n)" "\<not> (bit P n \<and> bit D n)" "\<not> (bit M n \<and> bit D n)"
    using assms by (metis bit_and_iff bit_0_eq bot_apply bot_bool_def)+
  then show "bit (merge_bits M (merge_bits D (SetFlag (merge_bits M c 0) P) i) (i AND M)) n = bit (SetFlag (merge_bits (M OR D) c i) P) n"
    by (auto simp: bit_merge_bits SetFlag_def bit_or_iff bit_and_iff)
qed

context sd_acl_field begin

lemma drop_acl_ok:
  assumes "sd_header_ok sd" and "LW_IS_VALID_FLAGS M SE_SET_SECURITY_DESCRIPTOR_CONTROL_MASK"
  defines "c \<equiv> merge_bits M (ClearFlag (ClearFlag (sd_Control sd) pres_bit) def_bit) 0"
  shows "drop_acl (\<lambda>sd. RtlpGetAclSecurityDescriptor sd pres_bit get def_bit)
        (\<lambda>sd. RtlpSetAclSecurityDescriptor sd pres_bit put def_bit) M sd = (STATUS_SUCCESS, (put None sd)\<lparr>sd_Control := c\<rparr>)"
    and "sd_header_ok ((put None sd)\<lparr>sd_Control := c\<rparr>)"
  using assms(1) verify_header_iff[of sd] set_control[OF absent_ok[OF assms(1)] assms(2), of 0]
  by (simp_all add: drop_acl_def RtlpGetAclSecurityDescriptor_def set_cases c_def)

lemma take_acl_ok:
  assumes obj: "sd_header_ok obj" and inp: "sd_header_ok inp" and M: "LW_IS_VALID_FLAGS M SE_SET_SECURITY_DESCRIPTOR_CONTROL_MASK"
    and i: "IsSetFlag (sd_Control inp) def_bit = IsSetFlag i def_bit" and d: "def_bit = 2 ^ k"
    and dis: "pres_bit AND M = 0" "M AND def_bit = 0"
  shows "take_acl (\<lambda>sd. RtlpGetAclSecurityDescriptor sd pres_bit get def_bit)
        (\<lambda>sd. RtlpSetAclSecurityDescriptor sd pres_bit put def_bit) M i (obj, inp) =
      (STATUS_SUCCESS, (put (get inp) obj)\<lparr>sd_Control := SetFlag (merge_bits (M OR def_bit) (sd_Control obj) i) pres_bit\<rparr>,
       (put None inp)\<lparr>sd_Control := ClearFlag (ClearFlag (sd_Control inp) pres_bit) def_bit\<rparr>)"
    and "sd_header_ok ((put (get inp) obj)\<lparr>sd_Control := SetFlag (merge_bits (M OR def_bit) (sd_Control obj) i) pres_bit\<rparr>)"
proof -
  have z: "(M OR 0) AND NOT M = 0" "(M OR (i AND M)) AND NOT M = 0"
    by (intro bit_word_eqI; auto simp: bit_simps)+
  let ?o1 = "obj\<lparr>sd_Control := merge_bits M (sd_Control obj) 0\<rparr>"
  note s1 = set_control[OF obj M z(1)]
  note m = merge_single[of i k "SetFlag (merge_bits M (sd_Control obj) 0) pres_bit", folded d]
  let ?o2 = "(put (get inp) obj)\<lparr>sd_Control := merge_bits def_bit (SetFlag (merge_bits M (sd_Control obj) 0) pres_bit) i\<rparr>"
  have o2: "sd_header_ok ?o2"
    using present_ok[OF s1(2), of "get inp"] unfolding m[symmetric] by (simp add: put_control)
  note s2 = set_control[OF o2 M z(2)]
  have c: "merge_bits M (merge_bits def_bit (SetFlag (merge_bits M (sd_Control obj) 0) pres_bit) i) (i AND M) =
      SetFlag (merge_bits (M OR def_bit) (sd_Control obj) i) pres_bit"
    using bits(3) dis by (intro merge_acl_control) (simp_all add: and.commute)
  show "sd_header_ok ((put (get inp) obj)\<lparr>sd_Control := SetFlag (merge_bits (M OR def_bit) (sd_Control obj) i) pres_bit\<rparr>)"
    using s2(2) by (simp add: c)
  show "take_acl (\<lambda>sd. RtlpGetAclSecurityDescriptor sd pres_bit get def_bit)
        (\<lambda>sd. RtlpSetAclSecurityDescriptor sd pres_bit put def_bit) M i (obj, inp) =
      (STATUS_SUCCESS, (put (get inp) obj)\<lparr>sd_Control := SetFlag (merge_bits (M OR def_bit) (sd_Control obj) i) pres_bit\<rparr>,
       (put None inp)\<lparr>sd_Control := ClearFlag (ClearFlag (sd_Control inp) pres_bit) def_bit\<rparr>)"
    using obj inp i s1 s2(1) m verify_header_iff[of obj] verify_header_iff[of inp]
    by (cases "IsSetFlag i def_bit") (simp_all add: take_acl_def RtlpGetAclSecurityDescriptor_def set_cases put_control c)
qed

end

lemma getters_setters:
  "RtlGetOwnerSecurityDescriptor = (\<lambda>sd. RtlpGetSidSecurityDescriptor sd sd_Owner SE_OWNER_DEFAULTED)"
  "RtlSetOwnerSecurityDescriptor = (\<lambda>sd. RtlpSetSidSecurityDescriptor sd (\<lambda>p. sd_Owner_update (\<lambda>_. p)) SE_OWNER_DEFAULTED)"
  "RtlGetGroupSecurityDescriptor = (\<lambda>sd. RtlpGetSidSecurityDescriptor sd sd_Group SE_GROUP_DEFAULTED)"
  "RtlSetGroupSecurityDescriptor = (\<lambda>sd. RtlpSetSidSecurityDescriptor sd (\<lambda>p. sd_Group_update (\<lambda>_. p)) SE_GROUP_DEFAULTED)"
  "RtlGetDaclSecurityDescriptor = (\<lambda>sd. RtlpGetAclSecurityDescriptor sd SE_DACL_PRESENT sd_Dacl SE_DACL_DEFAULTED)"
  "RtlSetDaclSecurityDescriptor = (\<lambda>sd. RtlpSetAclSecurityDescriptor sd SE_DACL_PRESENT (\<lambda>p. sd_Dacl_update (\<lambda>_. p)) SE_DACL_DEFAULTED)"
  "RtlGetSaclSecurityDescriptor = (\<lambda>sd. RtlpGetAclSecurityDescriptor sd SE_SACL_PRESENT sd_Sacl SE_SACL_DEFAULTED)"
  "RtlSetSaclSecurityDescriptor = (\<lambda>sd. RtlpSetAclSecurityDescriptor sd SE_SACL_PRESENT (\<lambda>p. sd_Sacl_update (\<lambda>_. p)) SE_SACL_DEFAULTED)"
  by (intro ext; simp add: RtlGetOwnerSecurityDescriptor_def RtlSetOwnerSecurityDescriptor_def RtlGetGroupSecurityDescriptor_def
      RtlSetGroupSecurityDescriptor_def RtlGetDaclSecurityDescriptor_def RtlSetDaclSecurityDescriptor_def
      RtlGetSaclSecurityDescriptor_def RtlSetSaclSecurityDescriptor_def)+

lemma ClearFlag_ClearFlag: "ClearFlag (ClearFlag c a) b = ClearFlag c (a OR b)"
  by (simp add: ClearFlag_def and.assoc)

lemma control_masks:
  "LW_IS_VALID_FLAGS DACL_CONTROL SE_SET_SECURITY_DESCRIPTOR_CONTROL_MASK"
  "LW_IS_VALID_FLAGS SACL_CONTROL SE_SET_SECURITY_DESCRIPTOR_CONTROL_MASK"
  by (simp_all add: LW_IS_VALID_FLAGS_def SE_SET_SECURITY_DESCRIPTOR_CONTROL_MASK_def)

lemma no_part: "sid_part None None" "acl_part None None"
  by (simp_all add: sid_part_def acl_part_def)

text \<open>What a query leaves of a descriptor: the parts asked for, and no bit that belongs to another part.\<close>

definition keep_sd :: "ULONG \<Rightarrow> SD \<Rightarrow> SD" where
  "keep_sd info D =
     \<lparr> d_owner = (if asked info OWNER_SECURITY_INFORMATION then d_owner D else None),
       d_group = (if asked info GROUP_SECURITY_INFORMATION then d_group D else None),
       d_sacl = (if asked info SACL_SECURITY_INFORMATION then d_sacl D else None),
       d_dacl = (if asked info DACL_SECURITY_INFORMATION then d_dacl D else None) \<rparr>"

definition dropped_bits :: "ULONG \<Rightarrow> USHORT" where
  "dropped_bits info =
     (if asked info OWNER_SECURITY_INFORMATION then 0 else SE_OWNER_DEFAULTED)
  OR (if asked info GROUP_SECURITY_INFORMATION then 0 else SE_GROUP_DEFAULTED)
  OR (if asked info DACL_SECURITY_INFORMATION then 0 else SE_DACL_PRESENT OR SE_DACL_DEFAULTED OR DACL_CONTROL)
  OR (if asked info SACL_SECURITY_INFORMATION then 0 else SE_SACL_PRESENT OR SE_SACL_DEFAULTED OR SACL_CONTROL)"

lemma drop_steps:
  assumes "sd_holds sd D"
  shows "\<exists>sd'. unless_asked info OWNER_SECURITY_INFORMATION (drop_sid RtlGetOwnerSecurityDescriptor RtlSetOwnerSecurityDescriptor)
      (STATUS_SUCCESS, sd) = (STATUS_SUCCESS, sd') \<and> sd_holds sd' (D\<lparr>d_owner := d_owner (keep_sd info D)\<rparr>)
      \<and> sd_Control sd' = ClearFlag (sd_Control sd) (if asked info OWNER_SECURITY_INFORMATION then 0 else SE_OWNER_DEFAULTED)" (is ?ow)
    and "\<exists>sd'. unless_asked info GROUP_SECURITY_INFORMATION (drop_sid RtlGetGroupSecurityDescriptor RtlSetGroupSecurityDescriptor)
      (STATUS_SUCCESS, sd) = (STATUS_SUCCESS, sd') \<and> sd_holds sd' (D\<lparr>d_group := d_group (keep_sd info D)\<rparr>)
      \<and> sd_Control sd' = ClearFlag (sd_Control sd) (if asked info GROUP_SECURITY_INFORMATION then 0 else SE_GROUP_DEFAULTED)" (is ?gr)
    and "\<exists>sd'. unless_asked info DACL_SECURITY_INFORMATION (drop_acl RtlGetDaclSecurityDescriptor RtlSetDaclSecurityDescriptor DACL_CONTROL)
      (STATUS_SUCCESS, sd) = (STATUS_SUCCESS, sd') \<and> sd_holds sd' (D\<lparr>d_dacl := d_dacl (keep_sd info D)\<rparr>)
      \<and> sd_Control sd' = ClearFlag (sd_Control sd)
          (if asked info DACL_SECURITY_INFORMATION then 0 else SE_DACL_PRESENT OR SE_DACL_DEFAULTED OR DACL_CONTROL)" (is ?da)
    and "\<exists>sd'. unless_asked info SACL_SECURITY_INFORMATION (drop_acl RtlGetSaclSecurityDescriptor RtlSetSaclSecurityDescriptor SACL_CONTROL)
      (STATUS_SUCCESS, sd) = (STATUS_SUCCESS, sd') \<and> sd_holds sd' (D\<lparr>d_sacl := d_sacl (keep_sd info D)\<rparr>)
      \<and> sd_Control sd' = ClearFlag (sd_Control sd)
          (if asked info SACL_SECURITY_INFORMATION then 0 else SE_SACL_PRESENT OR SE_SACL_DEFAULTED OR SACL_CONTROL)" (is ?sa)
proof -
  have h: "sd_header_ok sd"
    using assms by (simp add: sd_holds_def)
  note defs = getters_setters unless_asked_def keep_sd_def asked_def sd_holds_def no_part
  show ?ow
    using assms owner.drop_sid_ok[OF h] by (cases "asked info OWNER_SECURITY_INFORMATION") (simp_all add: defs ClearFlag_merge merge_bits_def)
  show ?gr
    using assms grp.drop_sid_ok[OF h] by (cases "asked info GROUP_SECURITY_INFORMATION") (simp_all add: defs ClearFlag_merge merge_bits_def)
  show ?da
    using assms dacl.drop_acl_ok[OF h control_masks(1)]
    by (cases "asked info DACL_SECURITY_INFORMATION") (simp_all add: defs ClearFlag_ClearFlag flip: ClearFlag_merge, simp_all add: ClearFlag_def)
  show ?sa
    using assms sacl.drop_acl_ok[OF h control_masks(2)]
    by (cases "asked info SACL_SECURITY_INFORMATION") (simp_all add: defs ClearFlag_ClearFlag flip: ClearFlag_merge, simp_all add: ClearFlag_def)
qed

lemma drop_parts_ok:
  assumes "sd_holds sd D"
  shows "\<exists>sd'. drop_parts info sd = (STATUS_SUCCESS, sd') \<and> sd_holds sd' (keep_sd info D)
    \<and> sd_Control sd' = ClearFlag (sd_Control sd) (dropped_bits info)"
proof -
  obtain s1 where 1: "unless_asked info OWNER_SECURITY_INFORMATION (drop_sid RtlGetOwnerSecurityDescriptor RtlSetOwnerSecurityDescriptor)
      (STATUS_SUCCESS, sd) = (STATUS_SUCCESS, s1)" "sd_holds s1 (D\<lparr>d_owner := d_owner (keep_sd info D)\<rparr>)"
    "sd_Control s1 = ClearFlag (sd_Control sd) (if asked info OWNER_SECURITY_INFORMATION then 0 else SE_OWNER_DEFAULTED)"
    using drop_steps(1)[OF assms] by blast
  note S2 = drop_steps(2)[OF 1(2), of info]
  obtain s2 where 2: "unless_asked info GROUP_SECURITY_INFORMATION (drop_sid RtlGetGroupSecurityDescriptor RtlSetGroupSecurityDescriptor)
      (STATUS_SUCCESS, s1) = (STATUS_SUCCESS, s2)"
      "sd_holds s2 (D\<lparr>d_owner := d_owner (keep_sd info D), d_group := d_group (keep_sd info D)\<rparr>)"
    "sd_Control s2 = ClearFlag (sd_Control s1) (if asked info GROUP_SECURITY_INFORMATION then 0 else SE_GROUP_DEFAULTED)"
    using S2 by (auto simp: keep_sd_def cong: if_cong)
  obtain s3 where 3: "unless_asked info DACL_SECURITY_INFORMATION (drop_acl RtlGetDaclSecurityDescriptor RtlSetDaclSecurityDescriptor DACL_CONTROL)
      (STATUS_SUCCESS, s2) = (STATUS_SUCCESS, s3)"
      "sd_holds s3 (D\<lparr>d_owner := d_owner (keep_sd info D), d_group := d_group (keep_sd info D), d_dacl := d_dacl (keep_sd info D)\<rparr>)"
    "sd_Control s3 = ClearFlag (sd_Control s2)
      (if asked info DACL_SECURITY_INFORMATION then 0 else SE_DACL_PRESENT OR SE_DACL_DEFAULTED OR DACL_CONTROL)"
    using drop_steps(3)[OF 2(2), of info] by (auto simp: keep_sd_def cong: if_cong)
  obtain s4 where 4: "unless_asked info SACL_SECURITY_INFORMATION (drop_acl RtlGetSaclSecurityDescriptor RtlSetSaclSecurityDescriptor SACL_CONTROL)
      (STATUS_SUCCESS, s3) = (STATUS_SUCCESS, s4)" "sd_holds s4 (keep_sd info D)"
    "sd_Control s4 = ClearFlag (sd_Control s3)
      (if asked info SACL_SECURITY_INFORMATION then 0 else SE_SACL_PRESENT OR SE_SACL_DEFAULTED OR SACL_CONTROL)"
    using drop_steps(4)[OF 3(2), of info] by (cases D) (auto simp: keep_sd_def cong: if_cong)
  have "sd_Control s4 = ClearFlag (sd_Control sd) (dropped_bits info)"
    unfolding 4(3) 3(3) 2(3) 1(3) ClearFlag_ClearFlag dropped_bits_def or.assoc ..
  then show ?thesis
    using 1(1) 2(1) 3(1) 4(1,2) by (simp add: drop_parts_def)
qed

text \<open>What an update leaves: the parts asked for come from the input with their control bits, and a list that is asked
  for is present even when the input has none.\<close>

definition merge_sd :: "ULONG \<Rightarrow> SD \<Rightarrow> SD \<Rightarrow> SD" where
  "merge_sd info D E =
     \<lparr> d_owner = d_owner (if asked info OWNER_SECURITY_INFORMATION then E else D),
       d_group = d_group (if asked info GROUP_SECURITY_INFORMATION then E else D),
       d_sacl = d_sacl (if asked info SACL_SECURITY_INFORMATION then E else D),
       d_dacl = d_dacl (if asked info DACL_SECURITY_INFORMATION then E else D) \<rparr>"

definition merge_control :: "ULONG \<Rightarrow> USHORT \<Rightarrow> USHORT \<Rightarrow> USHORT" where
  "merge_control info c i =
    (let c = (if asked info OWNER_SECURITY_INFORMATION then merge_bits SE_OWNER_DEFAULTED c i else c);
         c = (if asked info GROUP_SECURITY_INFORMATION then merge_bits SE_GROUP_DEFAULTED c i else c);
         c = (if asked info DACL_SECURITY_INFORMATION
              then SetFlag (merge_bits (DACL_CONTROL OR SE_DACL_DEFAULTED) c i) SE_DACL_PRESENT else c) in
     if asked info SACL_SECURITY_INFORMATION
     then SetFlag (merge_bits (SACL_CONTROL OR SE_SACL_DEFAULTED) c i) SE_SACL_PRESENT else c)"

lemma merge_single_cong: "IsSetFlag d (2 ^ k) = IsSetFlag i (2 ^ k) \<Longrightarrow> merge_bits (2 ^ k) c d = merge_bits (2 ^ k) c i"
  by (simp flip: merge_single)

text \<open>The two descriptors before and after a step: the object takes the part, and the input keeps the others.\<close>

definition taken ::
    "(NTSTATUS \<times> SECURITY_DESCRIPTOR_ABSOLUTE \<times> SECURITY_DESCRIPTOR_ABSOLUTE) \<Rightarrow> USHORT \<Rightarrow> USHORT \<Rightarrow> SD \<Rightarrow> SD \<Rightarrow> USHORT \<Rightarrow> bool" where
  "taken r m i D E c \<longleftrightarrow> (\<exists>obj inp. r = (STATUS_SUCCESS, obj, inp) \<and> sd_holds obj D \<and> sd_Control obj = c \<and> sd_holds inp E
     \<and> (\<forall>f. f AND m = 0 \<longrightarrow> IsSetFlag (sd_Control inp) f = IsSetFlag i f))"

lemma take_owner:
  assumes obj: "sd_holds obj D" and inp: "sd_holds inp E" and i: "\<forall>f. f AND m = 0 \<longrightarrow> IsSetFlag (sd_Control inp) f = IsSetFlag i f"
    and m: "SE_OWNER_DEFAULTED AND m = 0"
  shows "taken (if_asked info OWNER_SECURITY_INFORMATION (take_sid RtlGetOwnerSecurityDescriptor RtlSetOwnerSecurityDescriptor)
      (STATUS_SUCCESS, obj, inp)) (m OR SE_OWNER_DEFAULTED) i
      (D\<lparr>d_owner := d_owner (if asked info OWNER_SECURITY_INFORMATION then E else D)\<rparr>)
      (E\<lparr>d_owner := (if asked info OWNER_SECURITY_INFORMATION then None else d_owner E)\<rparr>)
      (if asked info OWNER_SECURITY_INFORMATION then merge_bits SE_OWNER_DEFAULTED (sd_Control obj) i else sd_Control obj)"
proof -
  have h: "sd_header_ok obj" "sd_header_ok inp" "IsSetFlag (sd_Control inp) SE_OWNER_DEFAULTED \<longrightarrow> sd_Owner inp \<noteq> None"
    using obj inp by (simp_all add: sd_holds_def sd_header_ok_def)
  have c: "merge_bits SE_OWNER_DEFAULTED (sd_Control obj) (sd_Control inp) = merge_bits SE_OWNER_DEFAULTED (sd_Control obj) i"
    using merge_single_cong[of "sd_Control inp" 0 i "sd_Control obj"] i m by simp
  have "\<forall>f. f AND (m OR SE_OWNER_DEFAULTED) = 0 \<longrightarrow>
      IsSetFlag (merge_bits SE_OWNER_DEFAULTED (sd_Control inp) 0) f = IsSetFlag i f"
    using i merge_flags[of SE_OWNER_DEFAULTED] by (simp add: bit.conj_disj_distrib or_eq_0_iff and.commute)
  then show ?thesis
    using obj inp i owner.take_sid_ok[OF h, of 0] owner.drop_sid_ok(2)[OF h(2)]
    by (cases "asked info OWNER_SECURITY_INFORMATION")
      (simp_all add: taken_def if_asked_def asked_def getters_setters sd_holds_def no_part c bit.conj_disj_distrib or_eq_0_iff)
qed

lemma take_group:
  assumes obj: "sd_holds obj D" and inp: "sd_holds inp E" and i: "\<forall>f. f AND m = 0 \<longrightarrow> IsSetFlag (sd_Control inp) f = IsSetFlag i f"
    and m: "SE_GROUP_DEFAULTED AND m = 0"
  shows "taken (if_asked info GROUP_SECURITY_INFORMATION (take_sid RtlGetGroupSecurityDescriptor RtlSetGroupSecurityDescriptor)
      (STATUS_SUCCESS, obj, inp)) (m OR SE_GROUP_DEFAULTED) i
      (D\<lparr>d_group := d_group (if asked info GROUP_SECURITY_INFORMATION then E else D)\<rparr>)
      (E\<lparr>d_group := (if asked info GROUP_SECURITY_INFORMATION then None else d_group E)\<rparr>)
      (if asked info GROUP_SECURITY_INFORMATION then merge_bits SE_GROUP_DEFAULTED (sd_Control obj) i else sd_Control obj)"
proof -
  have h: "sd_header_ok obj" "sd_header_ok inp" "IsSetFlag (sd_Control inp) SE_GROUP_DEFAULTED \<longrightarrow> sd_Group inp \<noteq> None"
    using obj inp by (simp_all add: sd_holds_def sd_header_ok_def)
  have c: "merge_bits SE_GROUP_DEFAULTED (sd_Control obj) (sd_Control inp) = merge_bits SE_GROUP_DEFAULTED (sd_Control obj) i"
    using merge_single_cong[of "sd_Control inp" 1 i "sd_Control obj"] i m by simp
  have "\<forall>f. f AND (m OR SE_GROUP_DEFAULTED) = 0 \<longrightarrow>
      IsSetFlag (merge_bits SE_GROUP_DEFAULTED (sd_Control inp) 0) f = IsSetFlag i f"
    using i merge_flags[of SE_GROUP_DEFAULTED] by (simp add: bit.conj_disj_distrib or_eq_0_iff and.commute)
  then show ?thesis
    using obj inp i grp.take_sid_ok[OF h, of 1] grp.drop_sid_ok(2)[OF h(2)]
    by (cases "asked info GROUP_SECURITY_INFORMATION")
      (simp_all add: taken_def if_asked_def asked_def getters_setters sd_holds_def no_part c bit.conj_disj_distrib or_eq_0_iff)
qed

lemma take_dacl:
  assumes obj: "sd_holds obj D" and inp: "sd_holds inp E" and i: "\<forall>f. f AND m = 0 \<longrightarrow> IsSetFlag (sd_Control inp) f = IsSetFlag i f"
    and m: "SE_DACL_DEFAULTED AND m = 0"
  shows "taken (if_asked info DACL_SECURITY_INFORMATION (take_acl RtlGetDaclSecurityDescriptor RtlSetDaclSecurityDescriptor DACL_CONTROL i)
      (STATUS_SUCCESS, obj, inp)) (m OR (SE_DACL_PRESENT OR SE_DACL_DEFAULTED)) i
      (D\<lparr>d_dacl := d_dacl (if asked info DACL_SECURITY_INFORMATION then E else D)\<rparr>)
      (E\<lparr>d_dacl := (if asked info DACL_SECURITY_INFORMATION then None else d_dacl E)\<rparr>)
      (if asked info DACL_SECURITY_INFORMATION
       then SetFlag (merge_bits (DACL_CONTROL OR SE_DACL_DEFAULTED) (sd_Control obj) i) SE_DACL_PRESENT else sd_Control obj)"
proof -
  have h: "sd_header_ok obj" "sd_header_ok inp"
    using obj inp by (simp_all add: sd_holds_def)
  have fl: "IsSetFlag (sd_Control inp) SE_DACL_DEFAULTED = IsSetFlag i SE_DACL_DEFAULTED"
    using i m by blast
  have n: "SE_DACL_DEFAULTED = 2 ^ 3" "SE_DACL_PRESENT AND DACL_CONTROL = 0" "DACL_CONTROL AND SE_DACL_DEFAULTED = 0"
    by simp_all
  note t = dacl.take_acl_ok[OF h control_masks(1) fl n]
  have k: "IsSetFlag (ClearFlag (ClearFlag (sd_Control inp) SE_DACL_PRESENT) SE_DACL_DEFAULTED) f = IsSetFlag i f"
    if "f AND (m OR (SE_DACL_PRESENT OR SE_DACL_DEFAULTED)) = 0" for f
    unfolding ClearFlag_ClearFlag unfolding ClearFlag_merge using that i merge_flags[of "SE_DACL_PRESENT OR SE_DACL_DEFAULTED" f "sd_Control inp" 0]
    by (simp add: bit.conj_disj_distrib or_eq_0_iff and.commute)
  show ?thesis
  proof (cases "asked info DACL_SECURITY_INFORMATION")
    case True
    then have "if_asked info DACL_SECURITY_INFORMATION (take_acl RtlGetDaclSecurityDescriptor RtlSetDaclSecurityDescriptor DACL_CONTROL i)
        (STATUS_SUCCESS, obj, inp) = take_acl RtlGetDaclSecurityDescriptor RtlSetDaclSecurityDescriptor DACL_CONTROL i (obj, inp)"
      by (simp add: if_asked_def asked_def)
    then show ?thesis
      using True obj inp t(2) dacl.absent_ok[OF h(2)] k unfolding taken_def getters_setters t(1)
      by (intro exI conjI) (assumption | simp add: sd_holds_def no_part)+
  next
    case False
    then show ?thesis
      using obj inp i by (simp add: taken_def if_asked_def asked_def bit.conj_disj_distrib or_eq_0_iff)
  qed
qed

lemma take_sacl:
  assumes obj: "sd_holds obj D" and inp: "sd_holds inp E" and i: "\<forall>f. f AND m = 0 \<longrightarrow> IsSetFlag (sd_Control inp) f = IsSetFlag i f"
    and m: "SE_SACL_DEFAULTED AND m = 0"
  shows "taken (if_asked info SACL_SECURITY_INFORMATION (take_acl RtlGetSaclSecurityDescriptor RtlSetSaclSecurityDescriptor SACL_CONTROL i)
      (STATUS_SUCCESS, obj, inp)) (m OR (SE_SACL_PRESENT OR SE_SACL_DEFAULTED)) i
      (D\<lparr>d_sacl := d_sacl (if asked info SACL_SECURITY_INFORMATION then E else D)\<rparr>)
      (E\<lparr>d_sacl := (if asked info SACL_SECURITY_INFORMATION then None else d_sacl E)\<rparr>)
      (if asked info SACL_SECURITY_INFORMATION
       then SetFlag (merge_bits (SACL_CONTROL OR SE_SACL_DEFAULTED) (sd_Control obj) i) SE_SACL_PRESENT else sd_Control obj)"
proof -
  have h: "sd_header_ok obj" "sd_header_ok inp"
    using obj inp by (simp_all add: sd_holds_def)
  have fl: "IsSetFlag (sd_Control inp) SE_SACL_DEFAULTED = IsSetFlag i SE_SACL_DEFAULTED"
    using i m by blast
  have n: "SE_SACL_DEFAULTED = 2 ^ 5" "SE_SACL_PRESENT AND SACL_CONTROL = 0" "SACL_CONTROL AND SE_SACL_DEFAULTED = 0"
    by simp_all
  note t = sacl.take_acl_ok[OF h control_masks(2) fl n]
  have k: "IsSetFlag (ClearFlag (ClearFlag (sd_Control inp) SE_SACL_PRESENT) SE_SACL_DEFAULTED) f = IsSetFlag i f"
    if "f AND (m OR (SE_SACL_PRESENT OR SE_SACL_DEFAULTED)) = 0" for f
    unfolding ClearFlag_ClearFlag unfolding ClearFlag_merge using that i merge_flags[of "SE_SACL_PRESENT OR SE_SACL_DEFAULTED" f "sd_Control inp" 0]
    by (simp add: bit.conj_disj_distrib or_eq_0_iff and.commute)
  show ?thesis
  proof (cases "asked info SACL_SECURITY_INFORMATION")
    case True
    then have "if_asked info SACL_SECURITY_INFORMATION (take_acl RtlGetSaclSecurityDescriptor RtlSetSaclSecurityDescriptor SACL_CONTROL i)
        (STATUS_SUCCESS, obj, inp) = take_acl RtlGetSaclSecurityDescriptor RtlSetSaclSecurityDescriptor SACL_CONTROL i (obj, inp)"
      by (simp add: if_asked_def asked_def)
    then show ?thesis
      using True obj inp t(2) sacl.absent_ok[OF h(2)] k unfolding taken_def getters_setters t(1)
      by (intro exI conjI) (assumption | simp add: sd_holds_def no_part)+
  next
    case False
    then show ?thesis
      using obj inp i by (simp add: taken_def if_asked_def asked_def bit.conj_disj_distrib or_eq_0_iff)
  qed
qed

lemma take_parts_ok:
  assumes "sd_holds obj D" and "sd_holds inp E"
  shows "\<exists>obj' inp'. take_parts info (sd_Control inp) (obj, inp) = (STATUS_SUCCESS, obj', inp') \<and> sd_holds obj' (merge_sd info D E)
    \<and> sd_Control obj' = merge_control info (sd_Control obj) (sd_Control inp)"
proof -
  let ?i = "sd_Control inp" and ?M = "merge_sd info D E"
  obtain o1 i1 E1 where 1: "if_asked info OWNER_SECURITY_INFORMATION (take_sid RtlGetOwnerSecurityDescriptor RtlSetOwnerSecurityDescriptor)
        (STATUS_SUCCESS, obj, inp) = (STATUS_SUCCESS, o1, i1)"
    and h1: "sd_holds o1 (D\<lparr>d_owner := d_owner ?M\<rparr>)" "sd_holds i1 E1"
    and e1: "d_group E1 = d_group E" "d_dacl E1 = d_dacl E" "d_sacl E1 = d_sacl E"
    and c1: "sd_Control o1 = (if asked info OWNER_SECURITY_INFORMATION then merge_bits SE_OWNER_DEFAULTED (sd_Control obj) ?i else sd_Control obj)"
    and f1: "\<forall>f. f AND 1 = 0 \<longrightarrow> IsSetFlag (sd_Control i1) f = IsSetFlag ?i f"
    using take_owner[OF assms, of 0 ?i info] by (auto simp: taken_def merge_sd_def)
  obtain o2 i2 E2 where 2: "if_asked info GROUP_SECURITY_INFORMATION (take_sid RtlGetGroupSecurityDescriptor RtlSetGroupSecurityDescriptor)
        (STATUS_SUCCESS, o1, i1) = (STATUS_SUCCESS, o2, i2)"
    and h2: "sd_holds o2 (D\<lparr>d_owner := d_owner ?M, d_group := d_group ?M\<rparr>)" "sd_holds i2 E2"
    and e2: "d_dacl E2 = d_dacl E" "d_sacl E2 = d_sacl E"
    and c2: "sd_Control o2 = (if asked info GROUP_SECURITY_INFORMATION then merge_bits SE_GROUP_DEFAULTED (sd_Control o1) ?i else sd_Control o1)"
    and f2: "\<forall>f. f AND 3 = 0 \<longrightarrow> IsSetFlag (sd_Control i2) f = IsSetFlag ?i f"
    using take_group[OF h1 f1, of info] e1 by (cases "asked info GROUP_SECURITY_INFORMATION") (auto simp: taken_def merge_sd_def)
  obtain o3 i3 E3 where 3: "if_asked info DACL_SECURITY_INFORMATION (take_acl RtlGetDaclSecurityDescriptor RtlSetDaclSecurityDescriptor DACL_CONTROL ?i)
        (STATUS_SUCCESS, o2, i2) = (STATUS_SUCCESS, o3, i3)"
    and h3: "sd_holds o3 (D\<lparr>d_owner := d_owner ?M, d_group := d_group ?M, d_dacl := d_dacl ?M\<rparr>)"
      "sd_holds i3 E3" "d_sacl E3 = d_sacl E"
    and c3: "sd_Control o3 = (if asked info DACL_SECURITY_INFORMATION
      then SetFlag (merge_bits (DACL_CONTROL OR SE_DACL_DEFAULTED) (sd_Control o2) ?i) SE_DACL_PRESENT else sd_Control o2)"
    and f3: "\<forall>f. f AND 15 = 0 \<longrightarrow> IsSetFlag (sd_Control i3) f = IsSetFlag ?i f"
    using take_dacl[OF h2 f2, of info] e2 by (cases "asked info DACL_SECURITY_INFORMATION") (auto simp: taken_def merge_sd_def)
  have M: "D\<lparr>d_owner := d_owner ?M, d_group := d_group ?M, d_dacl := d_dacl ?M, d_sacl := d_sacl ?M\<rparr> = ?M"
    by (cases D) (simp add: merge_sd_def)
  obtain o4 i4 where 4: "if_asked info SACL_SECURITY_INFORMATION (take_acl RtlGetSaclSecurityDescriptor RtlSetSaclSecurityDescriptor SACL_CONTROL ?i)
        (STATUS_SUCCESS, o3, i3) = (STATUS_SUCCESS, o4, i4)"
    and h4: "sd_holds o4 (D\<lparr>d_owner := d_owner ?M, d_group := d_group ?M, d_dacl := d_dacl ?M, d_sacl := d_sacl ?M\<rparr>)"
    and c4: "sd_Control o4 = (if asked info SACL_SECURITY_INFORMATION
      then SetFlag (merge_bits (SACL_CONTROL OR SE_SACL_DEFAULTED) (sd_Control o3) ?i) SE_SACL_PRESENT else sd_Control o3)"
    using take_sacl[OF h3(1,2) f3, of info] h3(3) by (cases "asked info SACL_SECURITY_INFORMATION") (auto simp: taken_def merge_sd_def)
  have "sd_Control o4 = merge_control info (sd_Control obj) ?i"
    unfolding merge_control_def Let_def c4 c3 c2 c1 ..
  then show ?thesis
    using 1 2 3 4 h4 unfolding M by (simp add: take_parts_def)
qed

section \<open>Properties\<close>

text \<open>A buffer that holds a self-relative descriptor with entries of the standard types.\<close>

definition rel_holds :: "mem \<Rightarrow> SECURITY_DESCRIPTOR_RELATIVE \<Rightarrow> SD \<Rightarrow> bool" where
  "rel_holds m r D \<longleftrightarrow> (\<exists>len. rel_ok m len r) \<and> sd_holds (abs_header m r) D \<and> std_entries (d_sacl D) \<and> std_entries (d_dacl D)"

lemma std_le_entries: "std_entries a \<Longrightarrow> le_acl_entries a"
  by (auto simp: std_entries_def le_acl_entries_def split: option.splits)

lemma swap_sd_std:
  assumes "std_entries (d_sacl D)" and "std_entries (d_dacl D)"
  shows "swap_sd D = D"
proof -
  have sw: "swap_acl a = a" if "std_entries (Some a)" for a
  proof -
    have "map swap_guids (acl_aces a) = acl_aces a"
      using that by (intro map_idI) (simp add: std_entries_def swap_guids_def)
    then show ?thesis
      by (simp add: swap_acl_def)
  qed
  show ?thesis
    using assms sw by (cases "d_sacl D"; cases "d_dacl D") (simp_all add: swap_sd_def)
qed

lemma create_abs_rel_holds:
  assumes "rel_holds m r D" and "\<forall>n. avail n"
  shows "\<exists>sd. RtlpCreateAbsSecDescFromRelative avail m = Some (STATUS_SUCCESS, Some sd) \<and> sd_holds sd D
    \<and> sd_Control sd = ClearFlag (rel_Control r) SE_SELF_RELATIVE"
  using assms create_abs_correct std_le_entries swap_sd_std unfolding rel_holds_def by metis

text \<open>The result of writing a descriptor back.\<close>

lemma write_back:
  assumes "sd_holds sd D" and "std_entries (d_sacl D)" and "std_entries (d_dacl D)" and "rel_header m = Some q" and "clean_header D q"
    and "unat sz \<le> length m" and "20 \<le> length m"
  shows "if unat sz < 20 + sd_parts_size D
    then RtlAbsoluteToSelfRelativeSD (Some sd) (Some m) (Some sz) =
      Some (STATUS_BUFFER_TOO_SMALL, Some m, Some (word_of_nat (20 + sd_parts_size D)))
    else \<exists>m' r'. RtlAbsoluteToSelfRelativeSD (Some sd) (Some m) (Some sz) =
        Some (STATUS_SUCCESS, Some m', Some (word_of_nat (20 + sd_parts_size D)))
      \<and> rel_holds m' r' (trim_sd D) \<and> rel_Control r' = sd_Control sd OR SE_SELF_RELATIVE"
proof -
  let ?m = "rel_bytes (rel_of sd D q) @ sd_image D @ drop (20 + sd_parts_size D) m"
  have "rel_holds ?m (rel_of sd D q) (trim_sd D)"
    using stored_sd[OF assms(1-3,5) refl] assms(2,3)
    by (auto simp: rel_holds_def trim_sd_def std_entries_def trim_acl_def split: option.splits)
  moreover have "rel_Control (rel_of sd D q) = sd_Control sd OR SE_SELF_RELATIVE"
    by (simp add: rel_of_def Let_def)
  ultimately show ?thesis
    using RtlAbsoluteToSelfRelativeSD_holds[OF assms(1-3,6,7)] assms(4) by (auto split: if_splits simp del: of_nat_add)
qed

lemma set_again:
  fixes c f :: USHORT
  assumes "bit c k" and "\<not> bit f k"
  shows "ClearFlag (ClearFlag c (2 ^ k)) f OR 2 ^ k = ClearFlag c f"
  using assms unfolding ClearFlag_def by (intro bit_word_eqI) (auto simp: bit_simps)

lemma self_relative_bits:
  "IsSetFlag (c :: USHORT) SE_SELF_RELATIVE \<Longrightarrow> \<not> IsSetFlag f SE_SELF_RELATIVE \<Longrightarrow>
    ClearFlag (ClearFlag c SE_SELF_RELATIVE) f OR SE_SELF_RELATIVE = ClearFlag c f"
  using set_again[of c 15 f] single_flag[of c 15] single_flag[of f 15] by simp

lemma dropped_bits_self_relative: "\<not> IsSetFlag (dropped_bits info) SE_SELF_RELATIVE"
  by (simp add: dropped_bits_def IsSetFlag_def)

text \<open>C35. A query of chosen parts returns them and nothing else.  Given memory, an object's well-formed
  self-relative descriptor whose lists hold entries of the three ordinary types, a selection that is not empty, and a
  buffer of at least 20 bytes whose offset fields are clear for the parts that are not returned, the buffer afterwards
  holds a well-formed descriptor of exactly the parts asked for, with the control bits of the object except those that
  belong to the other parts; a buffer that is too small is left unchanged and the size needed is returned.\<close>

theorem query_info_exact:
  assumes "rel_holds object r D" and "\<forall>n. avail n" and "info \<noteq> 0"
    and "rel_header m = Some q" and "clean_header (keep_sd info D) q" and "unat sz \<le> length m" and "20 \<le> length m"
  shows "if unat sz < 20 + sd_parts_size (keep_sd info D)
    then RtlQuerySecurityDescriptorInfo avail info (Some m) (Some sz) object =
      Some (STATUS_BUFFER_TOO_SMALL, Some m, Some (word_of_nat (20 + sd_parts_size (keep_sd info D))))
    else \<exists>m' r'. RtlQuerySecurityDescriptorInfo avail info (Some m) (Some sz) object =
        Some (STATUS_SUCCESS, Some m', Some (word_of_nat (20 + sd_parts_size (keep_sd info D))))
      \<and> rel_holds m' r' (trim_sd (keep_sd info D)) \<and> rel_Control r' = ClearFlag (rel_Control r) (dropped_bits info)"
proof -
  obtain sd where sd: "RtlpCreateAbsSecDescFromRelative avail object = Some (STATUS_SUCCESS, Some sd)" "sd_holds sd D"
    "sd_Control sd = ClearFlag (rel_Control r) SE_SELF_RELATIVE"
    using create_abs_rel_holds[OF assms(1,2)] by blast
  obtain sd' where sd': "drop_parts info sd = (STATUS_SUCCESS, sd')" "sd_holds sd' (keep_sd info D)"
    "sd_Control sd' = ClearFlag (sd_Control sd) (dropped_bits info)"
    using drop_parts_ok[OF sd(2)] by blast
  have std: "std_entries (d_sacl (keep_sd info D))" "std_entries (d_dacl (keep_sd info D))"
    using assms(1) by (auto simp: rel_holds_def keep_sd_def std_entries_def)
  have "IsSetFlag (rel_Control r) SE_SELF_RELATIVE"
    using assms(1) by (auto simp: rel_holds_def rel_ok_def)
  then have c: "sd_Control sd' OR SE_SELF_RELATIVE = ClearFlag (rel_Control r) (dropped_bits info)"
    using self_relative_bits dropped_bits_self_relative by (simp add: sd'(3) sd(3))
  have q: "RtlQuerySecurityDescriptorInfo avail info (Some m) (Some sz) object = RtlAbsoluteToSelfRelativeSD (Some sd') (Some m) (Some sz)"
    using sd(1) sd'(1) assms(3) by (simp add: RtlQuerySecurityDescriptorInfo_def)
  show ?thesis
    using write_back[OF sd'(2) std assms(4-7)] unfolding q c .
qed

text \<open>C36. An update of chosen parts replaces them by those of the input and keeps the others.  Given memory,
  well-formed self-relative descriptors of the object and of the input whose lists hold entries of the three ordinary
  types, a selection that is not empty, and an output buffer of at least 20 bytes whose offset fields are clear for
  the parts that the result does not have, the buffer afterwards holds a well-formed descriptor with the merged parts
  and control bits; a buffer that is too small is left unchanged and the size needed is returned.  A list that is
  asked for is marked present even when the input has none, which leaves an object whose list is NULL.\<close>

theorem set_info_merges:
  assumes "rel_holds object r D" and "rel_holds input i E" and "\<forall>n. avail n" and "info \<noteq> 0"
    and "rel_header m = Some q" and "clean_header (merge_sd info D E) q" and "unat sz \<le> length m" and "20 \<le> length m"
  shows "if unat sz < 20 + sd_parts_size (merge_sd info D E)
    then RtlSetSecurityDescriptorInfo avail info input object (Some m) (Some sz) =
      Some (STATUS_BUFFER_TOO_SMALL, Some m, Some (word_of_nat (20 + sd_parts_size (merge_sd info D E))))
    else \<exists>m' r'. RtlSetSecurityDescriptorInfo avail info input object (Some m) (Some sz) =
        Some (STATUS_SUCCESS, Some m', Some (word_of_nat (20 + sd_parts_size (merge_sd info D E))))
      \<and> rel_holds m' r' (trim_sd (merge_sd info D E))
      \<and> rel_Control r' = merge_control info (ClearFlag (rel_Control r) SE_SELF_RELATIVE) (ClearFlag (rel_Control i) SE_SELF_RELATIVE)
          OR SE_SELF_RELATIVE"
proof -
  obtain sd where sd: "RtlpCreateAbsSecDescFromRelative avail object = Some (STATUS_SUCCESS, Some sd)" "sd_holds sd D"
    "sd_Control sd = ClearFlag (rel_Control r) SE_SELF_RELATIVE"
    using create_abs_rel_holds[OF assms(1,3)] by blast
  obtain inp where inp: "RtlpCreateAbsSecDescFromRelative avail input = Some (STATUS_SUCCESS, Some inp)" "sd_holds inp E"
    "sd_Control inp = ClearFlag (rel_Control i) SE_SELF_RELATIVE"
    using create_abs_rel_holds[OF assms(2,3)] by blast
  obtain sd' inp' where sd': "take_parts info (sd_Control inp) (sd, inp) = (STATUS_SUCCESS, sd', inp')" "sd_holds sd' (merge_sd info D E)"
    "sd_Control sd' = merge_control info (sd_Control sd) (sd_Control inp)"
    using take_parts_ok[OF sd(2) inp(2)] by blast
  have std: "std_entries (d_sacl (merge_sd info D E))" "std_entries (d_dacl (merge_sd info D E))"
    using assms(1,2) by (auto simp: rel_holds_def merge_sd_def)
  have "RtlGetSecurityDescriptorControl inp = (STATUS_SUCCESS, sd_Control inp, sd_Revision inp)"
    using inp(2) verify_header_iff[of inp] by (simp add: RtlGetSecurityDescriptorControl_def sd_holds_def)
  then have q: "RtlSetSecurityDescriptorInfo avail info input object (Some m) (Some sz) = RtlAbsoluteToSelfRelativeSD (Some sd') (Some m) (Some sz)"
    using sd(1) inp(1) sd'(1) assms(4) by (simp add: RtlSetSecurityDescriptorInfo_def)
  show ?thesis
    using write_back[OF sd'(2) std assms(5-8)] unfolding q sd'(3) sd(3) inp(3) .
qed

lemma stored_rel_holds:
  assumes "sd_holds sd D" and "std_entries (d_sacl D)" and "std_entries (d_dacl D)"
  shows "rel_holds (rel_bytes (rel_of sd D no_offsets) @ sd_image D) (rel_of sd D no_offsets) (trim_sd D)"
  using stored_sd[OF assms, of no_offsets _ "[]"] assms(2,3)
  by (auto simp: rel_holds_def clean_header_def no_offsets_def trim_sd_def std_entries_def trim_acl_def split: option.splits)

lemma clean_no_offsets: "clean_header D no_offsets"
  by (simp add: clean_header_def no_offsets_def)

theorem query_info_exact_witness:
  "\<exists>object m' r'. RtlQuerySecurityDescriptorInfo (\<lambda>_. True) OWNER_SECURITY_INFORMATION (Some (replicate 64 0)) (Some 64) object =
      Some (STATUS_SUCCESS, Some m', Some 32)
    \<and> rel_holds m' r' \<lparr> d_owner = Some (mk_sid [0,0,0,0,0,5] [18]), d_group = None, d_sacl = None, d_dacl = None \<rparr>"
proof -
  let ?D = "trim_sd sample_SD"
  have k: "keep_sd OWNER_SECURITY_INFORMATION ?D = \<lparr> d_owner = Some (mk_sid [0,0,0,0,0,5] [18]), d_group = None, d_sacl = None, d_dacl = None \<rparr>"
    by (simp add: keep_sd_def asked_def trim_sd_def sample_SD_def)
  have t: "trim_sd \<lparr> d_owner = Some (mk_sid [0,0,0,0,0,5] [18]), d_group = None, d_sacl = None, d_dacl = None \<rparr> =
      \<lparr> d_owner = Some (mk_sid [0,0,0,0,0,5] [18]), d_group = None, d_sacl = None, d_dacl = None \<rparr>"
    by (simp add: trim_sd_def)
  have "sd_parts_size (keep_sd OWNER_SECURITY_INFORMATION ?D) = 12"
    by (simp add: k sd_parts_size_def sid_part_size_def acl_part_size_def sid_length_def)
  then show ?thesis
    using query_info_exact[OF stored_rel_holds[OF sample_sd_holds sample_std], of "\<lambda>_. True" OWNER_SECURITY_INFORMATION "replicate 64 0" no_offsets 64]
      sample_clean clean_no_offsets t by (auto simp: k)
qed

theorem set_info_merges_witness:
  "\<exists>object input m' r'. RtlSetSecurityDescriptorInfo (\<lambda>_. True) DACL_SECURITY_INFORMATION input object (Some (replicate 64 0)) (Some 64) =
      Some (STATUS_SUCCESS, Some m', Some 32)
    \<and> rel_holds m' r' \<lparr> d_owner = Some (mk_sid [0,0,0,0,0,5] [18]), d_group = None, d_sacl = None, d_dacl = None \<rparr>
    \<and> IsSetFlag (rel_Control r') SE_DACL_PRESENT"
proof -
  let ?D = "trim_sd sample_SD" and ?E = "\<lparr> d_owner = None, d_group = None, d_sacl = None, d_dacl = None \<rparr>"
  have E: "sd_holds sample_sd ?E"
    using sample_sd_ok(1) by (simp add: sd_holds_def sample_sd_def no_part)
  have e: "trim_sd ?E = ?E" "std_entries (d_sacl ?E)" "std_entries (d_dacl ?E)"
    by (simp_all add: trim_sd_def std_entries_def)
  have k: "merge_sd DACL_SECURITY_INFORMATION ?D (trim_sd ?E) =
      \<lparr> d_owner = Some (mk_sid [0,0,0,0,0,5] [18]), d_group = None, d_sacl = None, d_dacl = None \<rparr>"
    by (simp add: merge_sd_def asked_def trim_sd_def sample_SD_def)
  have t: "trim_sd \<lparr> d_owner = Some (mk_sid [0,0,0,0,0,5] [18]), d_group = None, d_sacl = None, d_dacl = None \<rparr> =
      \<lparr> d_owner = Some (mk_sid [0,0,0,0,0,5] [18]), d_group = None, d_sacl = None, d_dacl = None \<rparr>"
    by (simp add: trim_sd_def)
  have b: "IsSetFlag (merge_control DACL_SECURITY_INFORMATION c d OR SE_SELF_RELATIVE) SE_DACL_PRESENT" for c d
    by (simp add: merge_control_def asked_def IsSetFlag_def SetFlag_def bit.conj_disj_distrib2 or_eq_0_iff)
  have "sd_parts_size (merge_sd DACL_SECURITY_INFORMATION ?D (trim_sd ?E)) = 12"
    by (simp add: k sd_parts_size_def sid_part_size_def acl_part_size_def sid_length_def)
  then obtain m' r' c d where "RtlSetSecurityDescriptorInfo (\<lambda>_. True) DACL_SECURITY_INFORMATION
        (rel_bytes (rel_of sample_sd ?E no_offsets) @ sd_image ?E) (rel_bytes (rel_of sample_sd_owned sample_SD no_offsets) @ sd_image sample_SD)
        (Some (replicate 64 0)) (Some 64) = Some (STATUS_SUCCESS, Some m', Some 32)"
    "rel_holds m' r' \<lparr> d_owner = Some (mk_sid [0,0,0,0,0,5] [18]), d_group = None, d_sacl = None, d_dacl = None \<rparr>"
    "rel_Control r' = merge_control DACL_SECURITY_INFORMATION c d OR SE_SELF_RELATIVE"
    using set_info_merges[OF stored_rel_holds[OF sample_sd_holds sample_std] stored_rel_holds[OF E e(2,3)],
        of "\<lambda>_. True" DACL_SECURITY_INFORMATION "replicate 64 0" no_offsets 64] sample_clean
      clean_no_offsets t by (auto simp: k)
  then show ?thesis
    using b[of c d] by metis
qed

end
