(* ===== verification/Security_Token.thy ===== *)
theory Security_Token
  imports Security_Sd
begin

text \<open>
  Access tokens and the access check: \<^verbatim>\<open>RtlMapGenericMask\<close>, \<^verbatim>\<open>RtlIsSidMemberOfToken\<close>,
  \<^verbatim>\<open>RtlAccessCheckEx\<close> and the small token functions of \<^verbatim>\<open>security-token.c\<close>, with the semantics of an
  access control list as the first matching entry for each right.

  The reader-writer lock of the token is left out: each function is one critical section, so the model is of calls
  that do not overlap a change of the token.
\<close>

section \<open>Constants\<close>

abbreviation (input) SE_GROUP_ENABLED :: ULONG where
  "SE_GROUP_ENABLED \<equiv> 0x00000004"

abbreviation (input) ACCESS_TOKEN_FLAG_UNIX_PRESENT :: ULONG where
  "ACCESS_TOKEN_FLAG_UNIX_PRESENT \<equiv> 0x00000001"

section \<open>Generic rights\<close>

record GENERIC_MAPPING =
  GenericRead :: ACCESS_MASK
  GenericWrite :: ACCESS_MASK
  GenericExecute :: ACCESS_MASK
  GenericAll :: ACCESS_MASK

definition RtlpMapGenericMaskSingleFlag :: "ACCESS_MASK \<Rightarrow> ACCESS_MASK \<Rightarrow> ACCESS_MASK \<Rightarrow> ACCESS_MASK" where
  "RtlpMapGenericMaskSingleFlag AccessMask GenericFlag SpecificFlags =
    (if IsSetFlag AccessMask GenericFlag then SetFlag (ClearFlag AccessMask GenericFlag) SpecificFlags
     else AccessMask)"

definition RtlMapGenericMask :: "ACCESS_MASK \<Rightarrow> GENERIC_MAPPING \<Rightarrow> ACCESS_MASK" where
  "RtlMapGenericMask AccessMask GenericMapping =
    (let AccessMask = RtlpMapGenericMaskSingleFlag AccessMask GENERIC_READ (GenericRead GenericMapping);
         AccessMask = RtlpMapGenericMaskSingleFlag AccessMask GENERIC_WRITE (GenericWrite GenericMapping);
         AccessMask = RtlpMapGenericMaskSingleFlag AccessMask GENERIC_EXECUTE (GenericExecute GenericMapping) in
     RtlpMapGenericMaskSingleFlag AccessMask GENERIC_ALL (GenericAll GenericMapping))"

section \<open>Tokens\<close>

record SID_AND_ATTRIBUTES =
  sa_Sid :: mem
  sa_Attributes :: ULONG

text \<open>The array of privileges is a block of its own, 12 bytes for each; the other pointers are to identifiers and a
  list.\<close>

record ACCESS_TOKEN =
  ReferenceCount :: "32 word"
  tk_Flags :: ULONG
  tk_User :: SID_AND_ATTRIBUTES
  tk_GroupCount :: ULONG
  tk_Groups :: "SID_AND_ATTRIBUTES list"
  tk_PrivilegeCount :: ULONG
  tk_Privileges :: mem
  tk_Owner :: "mem option"
  tk_PrimaryGroup :: "mem option"
  tk_DefaultDacl :: "mem option"
  tk_Uid :: ULONG
  tk_Gid :: ULONG
  tk_Umask :: ULONG

definition RtlReferenceAccessToken :: "ACCESS_TOKEN \<Rightarrow> ACCESS_TOKEN" where
  "RtlReferenceAccessToken AccessToken = AccessToken\<lparr>ReferenceCount := ReferenceCount AccessToken + 1\<rparr>"

text \<open>The token after a release, where \<^term>\<open>Some None\<close> is the freed token; the assertion on the count is the outer
  option.\<close>

definition RtlReleaseAccessToken :: "ACCESS_TOKEN option \<Rightarrow> ACCESS_TOKEN option option" where
  "RtlReleaseAccessToken AccessToken =
    (case AccessToken of
       None \<Rightarrow> Some None
     | Some t \<Rightarrow>
         (let count = ReferenceCount t - 1 in
          if \<not> 0 \<le> sint count then None
          else if count = 0 then Some None
          else Some (Some (t\<lparr>ReferenceCount := count\<rparr>))))"

text \<open>The result is the status and the user, group and mask of the token.\<close>

definition RtlQueryAccessTokenUnixInformation ::
    "ACCESS_TOKEN option \<Rightarrow> NTSTATUS \<times> ULONG \<times> ULONG \<times> ULONG" where
  "RtlQueryAccessTokenUnixInformation AccessToken =
    (case AccessToken of
       None \<Rightarrow> (STATUS_INVALID_PARAMETER, 0, 0, 0)
     | Some t \<Rightarrow>
         if \<not> IsSetFlag (tk_Flags t) ACCESS_TOKEN_FLAG_UNIX_PRESENT then (STATUS_NOT_FOUND, 0, 0, 0)
         else (STATUS_SUCCESS, tk_Uid t, tk_Gid t, tk_Umask t))"

fun member_loop :: "mem \<Rightarrow> SID_AND_ATTRIBUTES list \<Rightarrow> nat \<Rightarrow> bool option" where
  "member_loop sid groups 0 = Some False"
| "member_loop sid [] (Suc n) = None"
| "member_loop sid (g # groups) (Suc n) = do {
     e \<leftarrow> (if IsSetFlag (sa_Attributes g) SE_GROUP_ENABLED then RtlEqualSid sid (sa_Sid g) else Some False);
     if e then Some True else member_loop sid groups n
   }"

definition RtlIsSidMemberOfToken :: "ACCESS_TOKEN \<Rightarrow> mem \<Rightarrow> bool option" where
  "RtlIsSidMemberOfToken AccessToken sid = do {
     e \<leftarrow> RtlEqualSid sid (sa_Sid (tk_User AccessToken));
     if e then Some True else member_loop sid (tk_Groups AccessToken) (unat (tk_GroupCount AccessToken))
   }"

section \<open>The access check\<close>

text \<open>Everything that is still desired, or with \<^verbatim>\<open>MAXIMUM_ALLOWED\<close> all rights, is granted.\<close>

definition grant_all :: "GENERIC_MAPPING \<Rightarrow> bool \<Rightarrow> ACCESS_MASK \<Rightarrow> ACCESS_MASK \<Rightarrow> NTSTATUS \<times> ACCESS_MASK \<times> ACCESS_MASK" where
  "grant_all gm wantMaxAllowed grantedAccess desiredAccess =
    (let desiredAccess =
       (if wantMaxAllowed
        then RtlMapGenericMask (SetFlag (SetFlag desiredAccess STANDARD_RIGHTS_ALL) GENERIC_ALL) gm
        else desiredAccess) in
     (STATUS_SUCCESS, SetFlag grantedAccess desiredAccess, 0))"

text \<open>What one matching entry does to the granted, denied and desired rights.\<close>

definition allow_ace ::
    "bool \<Rightarrow> ACCESS_MASK \<Rightarrow> ACCESS_MASK \<times> ACCESS_MASK \<times> ACCESS_MASK \<Rightarrow> ACCESS_MASK \<times> ACCESS_MASK \<times> ACCESS_MASK" where
  "allow_ace wantMaxAllowed m s =
    (case s of (grantedAccess, deniedAccess, desiredAccess) \<Rightarrow>
       (let grantedAccess = (if wantMaxAllowed then SetFlag grantedAccess (m AND NOT deniedAccess)
                             else SetFlag grantedAccess (m AND desiredAccess)) in
        (grantedAccess, deniedAccess, ClearFlag desiredAccess grantedAccess)))"

definition deny_ace ::
    "ACCESS_MASK \<Rightarrow> ACCESS_MASK \<times> ACCESS_MASK \<times> ACCESS_MASK \<Rightarrow> ACCESS_MASK \<times> ACCESS_MASK \<times> ACCESS_MASK" where
  "deny_ace m s =
    (case s of (grantedAccess, deniedAccess, desiredAccess) \<Rightarrow>
       (let deniedAccess = SetFlag deniedAccess m in
        (grantedAccess, deniedAccess, ClearFlag desiredAccess deniedAccess)))"

text \<open>The body of the loop for the entry at a place: an exit with its status, or the new rights.\<close>

definition check_ace ::
    "ACCESS_TOKEN \<Rightarrow> GENERIC_MAPPING \<Rightarrow> bool \<Rightarrow> mem \<Rightarrow> ACCESS_MASK \<times> ACCESS_MASK \<times> ACCESS_MASK \<Rightarrow>
     (NTSTATUS + ACCESS_MASK \<times> ACCESS_MASK \<times> ACCESS_MASK) option" where
  "check_ace tok gm wantMaxAllowed ace s = do {
     t \<leftarrow> ace_AceType ace;
     if t = ACCESS_ALLOWED_ACE_TYPE \<or> t = ACCESS_DENIED_ACE_TYPE
     then do {
       m \<leftarrow> ace_Mask ace;
       let m = RtlMapGenericMask m gm;
       if wantMaxAllowed \<or> IsSetFlag (snd (snd s)) m
       then do {
         sid \<leftarrow> RtlpGetSidAccessAllowedAce ace;
         isMember \<leftarrow> RtlIsSidMemberOfToken tok sid;
         Some (if \<not> isMember then Inr s
               else if t = ACCESS_ALLOWED_ACE_TYPE then Inr (allow_ace wantMaxAllowed m s)
               else if wantMaxAllowed then Inr (deny_ace m s)
               else Inl STATUS_ACCESS_DENIED)
       }
       else Some (Inr s)
     }
     else Some (Inr s)
   }"

text \<open>The loop; not returning is \<^term>\<open>None\<close>.\<close>

partial_function (option) access_loop ::
    "ACCESS_TOKEN \<Rightarrow> GENERIC_MAPPING \<Rightarrow> bool \<Rightarrow> mem \<Rightarrow> USHORT \<Rightarrow> USHORT \<Rightarrow>
     ACCESS_MASK \<times> ACCESS_MASK \<times> ACCESS_MASK \<Rightarrow> (NTSTATUS \<times> ACCESS_MASK \<times> ACCESS_MASK) option" where
  "access_loop tok gm wantMaxAllowed Dacl aclSizeUsed aceOffset s =
    (case s of (grantedAccess, deniedAccess, desiredAccess) \<Rightarrow>
       let done = Some (if desiredAccess \<noteq> 0 then STATUS_ACCESS_DENIED else STATUS_SUCCESS, grantedAccess, desiredAccess) in
       if \<not> (wantMaxAllowed \<or> desiredAccess \<noteq> 0) then done
       else Option.bind (RtlIterateAce Dacl aclSizeUsed aceOffset) (\<lambda>(status, aceOffset, aceHeader).
         if status = STATUS_NO_MORE_ENTRIES then done
         else if status \<noteq> STATUS_SUCCESS then Some (status, grantedAccess, desiredAccess)
         else Option.bind aceHeader (\<lambda>loc. Option.bind (ptr_add Dacl loc) (\<lambda>ace.
           Option.bind (check_ace tok gm wantMaxAllowed ace s) (\<lambda>r.
             case r of
               Inl e \<Rightarrow> Some (e, grantedAccess, desiredAccess)
             | Inr s \<Rightarrow> access_loop tok gm wantMaxAllowed Dacl aclSizeUsed aceOffset s)))))"

text \<open>Whether the token has a well-known identifier; the buffer holds it afterwards.\<close>

definition is_well_known_member ::
    "ACCESS_TOKEN \<Rightarrow> WELL_KNOWN_SID_TYPE \<Rightarrow> mem \<Rightarrow> (NTSTATUS \<times> bool \<times> mem) option" where
  "is_well_known_member tok t sidBuffer = do {
     (status, b, _) \<leftarrow> RtlCreateWellKnownSid t None (Some sidBuffer) (word_of_nat SID_MAX_SIZE);
     b \<leftarrow> b;
     if status \<noteq> STATUS_SUCCESS then Some (status, False, b)
     else do { isMember \<leftarrow> RtlIsSidMemberOfToken tok b; Some (STATUS_SUCCESS, isMember, b) }
   }"

text \<open>The stages of the check.  Each takes the granted and the desired rights and exits with a status or goes on.\<close>

definition access_dacl ::
    "ACCESS_TOKEN \<Rightarrow> GENERIC_MAPPING \<Rightarrow> bool \<Rightarrow> mem option \<Rightarrow> ACCESS_MASK \<Rightarrow> ACCESS_MASK \<Rightarrow>
     (NTSTATUS \<times> ACCESS_MASK \<times> ACCESS_MASK) option" where
  "access_dacl tok gm wantMaxAllowed Dacl grantedAccess desiredAccess =
    (case Dacl of
       None \<Rightarrow> Some (grant_all gm wantMaxAllowed grantedAccess desiredAccess)
     | Some dacl \<Rightarrow> do {
         (v, aclSizeUsed) \<leftarrow> RtlValidAcl (Some dacl);
         if \<not> v then Some (STATUS_INVALID_ACL, grantedAccess, desiredAccess)
         else access_loop tok gm wantMaxAllowed dacl aclSizeUsed 0 (grantedAccess, 0, desiredAccess)
       })"

definition owner_rights :: "bool \<Rightarrow> ACCESS_MASK \<Rightarrow> ACCESS_MASK \<Rightarrow> ACCESS_MASK \<times> ACCESS_MASK" where
  "owner_rights wantMaxAllowed grantedAccess desiredAccess =
    (let desiredAccess = (if wantMaxAllowed then desiredAccess OR (READ_CONTROL OR WRITE_DAC) else desiredAccess);
         grantedAccess = SetFlag grantedAccess ((READ_CONTROL OR WRITE_DAC) AND desiredAccess) in
     (grantedAccess, ClearFlag desiredAccess grantedAccess))"

definition access_owner ::
    "ACCESS_TOKEN \<Rightarrow> GENERIC_MAPPING \<Rightarrow> bool \<Rightarrow> mem \<Rightarrow> mem option \<Rightarrow> ACCESS_MASK \<Rightarrow> ACCESS_MASK \<Rightarrow>
     (NTSTATUS \<times> ACCESS_MASK \<times> ACCESS_MASK) option" where
  "access_owner tok gm wantMaxAllowed Owner Dacl grantedAccess desiredAccess = do {
     isOwner \<leftarrow> (if wantMaxAllowed \<or> IsSetFlag desiredAccess (READ_CONTROL OR WRITE_DAC)
                 then RtlIsSidMemberOfToken tok Owner else Some False);
     let (grantedAccess, desiredAccess) =
       (if isOwner then owner_rights wantMaxAllowed grantedAccess desiredAccess else (grantedAccess, desiredAccess));
     access_dacl tok gm wantMaxAllowed Dacl grantedAccess desiredAccess
   }"

definition access_take_ownership ::
    "ACCESS_TOKEN \<Rightarrow> GENERIC_MAPPING \<Rightarrow> bool \<Rightarrow> mem \<Rightarrow> mem option \<Rightarrow> mem \<Rightarrow> ACCESS_MASK \<Rightarrow> ACCESS_MASK \<Rightarrow>
     (NTSTATUS \<times> ACCESS_MASK \<times> ACCESS_MASK) option" where
  "access_take_ownership tok gm wantMaxAllowed Owner Dacl sidBuffer grantedAccess desiredAccess = do {
     (status, isAdmin, _) \<leftarrow>
       (if wantMaxAllowed \<or> IsSetFlag desiredAccess WRITE_OWNER
        then is_well_known_member tok WinBuiltinAdministratorsSid sidBuffer
        else Some (STATUS_SUCCESS, False, sidBuffer));
     if status \<noteq> STATUS_SUCCESS then Some (status, grantedAccess, desiredAccess)
     else if isAdmin
     then access_owner tok gm wantMaxAllowed Owner Dacl (SetFlag grantedAccess WRITE_OWNER)
       (ClearFlag desiredAccess WRITE_OWNER)
     else access_owner tok gm wantMaxAllowed Owner Dacl grantedAccess desiredAccess
   }"

definition access_system_security ::
    "ACCESS_TOKEN \<Rightarrow> GENERIC_MAPPING \<Rightarrow> bool \<Rightarrow> mem \<Rightarrow> mem option \<Rightarrow> mem \<Rightarrow> ACCESS_MASK \<Rightarrow> ACCESS_MASK \<Rightarrow>
     (NTSTATUS \<times> ACCESS_MASK \<times> ACCESS_MASK) option" where
  "access_system_security tok gm wantMaxAllowed Owner Dacl sidBuffer grantedAccess desiredAccess = do {
     (status, isAdmin, sidBuffer) \<leftarrow>
       (if wantMaxAllowed \<or> IsSetFlag desiredAccess ACCESS_SYSTEM_SECURITY
        then is_well_known_member tok WinBuiltinAdministratorsSid sidBuffer
        else Some (STATUS_SUCCESS, False, sidBuffer));
     if status \<noteq> STATUS_SUCCESS then Some (status, grantedAccess, desiredAccess)
     else if isAdmin
     then access_take_ownership tok gm wantMaxAllowed Owner Dacl sidBuffer
       (SetFlag grantedAccess ACCESS_SYSTEM_SECURITY) (ClearFlag desiredAccess ACCESS_SYSTEM_SECURITY)
     else if IsSetFlag desiredAccess ACCESS_SYSTEM_SECURITY
     then Some (STATUS_PRIVILEGE_NOT_HELD, grantedAccess, desiredAccess)
     else access_take_ownership tok gm wantMaxAllowed Owner Dacl sidBuffer grantedAccess desiredAccess
   }"

text \<open>The cleanup label: the results are whether access is granted, the rights still desired, the granted rights
  and the status.\<close>

definition access_finish ::
    "ACCESS_MASK \<Rightarrow> NTSTATUS \<times> ACCESS_MASK \<times> ACCESS_MASK \<Rightarrow> bool \<times> ACCESS_MASK \<times> ACCESS_MASK \<times> NTSTATUS" where
  "access_finish PreviouslyGrantedAccess r =
    (case r of (status, grantedAccess, desiredAccess) \<Rightarrow>
       (let status = (if NT_SUCCESS status \<and> \<not> LW_IS_VALID_FLAGS grantedAccess VALID_GRANTED_ACCESS_MASK
                      then STATUS_ASSERTION_FAILURE else status);
            grantedAccess = (if \<not> NT_SUCCESS status then PreviouslyGrantedAccess else grantedAccess) in
        (NT_SUCCESS status, desiredAccess, grantedAccess, status)))"

text \<open>From the first check of the arguments to the cleanup label.\<close>

definition access_stages ::
    "SECURITY_DESCRIPTOR_ABSOLUTE option \<Rightarrow> ACCESS_TOKEN option \<Rightarrow> ACCESS_MASK \<Rightarrow> ACCESS_MASK \<Rightarrow>
     GENERIC_MAPPING option \<Rightarrow> (NTSTATUS \<times> ACCESS_MASK \<times> ACCESS_MASK) option" where
  "access_stages SecurityDescriptor AccessToken DesiredAccess PreviouslyGrantedAccess GenericMapping =
     (case (SecurityDescriptor, AccessToken, GenericMapping) of
        (Some sd, Some tok, Some gm) \<Rightarrow>
          if \<not> LW_IS_VALID_FLAGS DesiredAccess VALID_DESIRED_ACCESS_MASK
             \<or> \<not> LW_IS_VALID_FLAGS PreviouslyGrantedAccess VALID_GRANTED_ACCESS_MASK
          then Some (STATUS_INVALID_PARAMETER, PreviouslyGrantedAccess, DesiredAccess)
          else
            (case (sd_Owner sd, sd_Group sd) of
               (Some Owner, Some _) \<Rightarrow>
                 (let wantMaxAllowed = IsSetFlag DesiredAccess MAXIMUM_ALLOWED;
                      desiredAccess = RtlMapGenericMask (ClearFlag DesiredAccess MAXIMUM_ALLOWED) gm in
                  do {
                    (status, isSystem, sidBuffer) \<leftarrow>
                      is_well_known_member tok WinLocalSystemSid (replicate SID_MAX_SIZE 0);
                    if status \<noteq> STATUS_SUCCESS then Some (status, PreviouslyGrantedAccess, desiredAccess)
                    else if isSystem then Some (grant_all gm wantMaxAllowed PreviouslyGrantedAccess desiredAccess)
                    else access_system_security tok gm wantMaxAllowed Owner (sd_Dacl sd) sidBuffer
                           PreviouslyGrantedAccess desiredAccess
                  })
             | _ \<Rightarrow> Some (STATUS_INVALID_SECURITY_DESCR, PreviouslyGrantedAccess, DesiredAccess))
      | _ \<Rightarrow> Some (STATUS_INVALID_PARAMETER, PreviouslyGrantedAccess, DesiredAccess))"

definition RtlAccessCheckEx ::
    "SECURITY_DESCRIPTOR_ABSOLUTE option \<Rightarrow> ACCESS_TOKEN option \<Rightarrow> ACCESS_MASK \<Rightarrow> ACCESS_MASK \<Rightarrow>
     GENERIC_MAPPING option \<Rightarrow> (bool \<times> ACCESS_MASK \<times> ACCESS_MASK \<times> NTSTATUS) option" where
  "RtlAccessCheckEx SecurityDescriptor AccessToken DesiredAccess PreviouslyGrantedAccess GenericMapping = do {
     r \<leftarrow> access_stages SecurityDescriptor AccessToken DesiredAccess PreviouslyGrantedAccess GenericMapping;
     Some (access_finish PreviouslyGrantedAccess r)
   }"

definition RtlAccessCheck ::
    "SECURITY_DESCRIPTOR_ABSOLUTE option \<Rightarrow> ACCESS_TOKEN option \<Rightarrow> ACCESS_MASK \<Rightarrow> ACCESS_MASK \<Rightarrow>
     GENERIC_MAPPING option \<Rightarrow> (bool \<times> ACCESS_MASK \<times> NTSTATUS) option" where
  "RtlAccessCheck SecurityDescriptor AccessToken DesiredAccess PreviouslyGrantedAccess GenericMapping = do {
     (r, _, GrantedAccess, AccessStatus) \<leftarrow>
       RtlAccessCheckEx SecurityDescriptor AccessToken DesiredAccess PreviouslyGrantedAccess GenericMapping;
     Some (r, GrantedAccess, AccessStatus)
   }"

section \<open>Specification\<close>

text \<open>The identifiers that a token stands for: its user and its enabled groups.\<close>

definition token_wf :: "ACCESS_TOKEN \<Rightarrow> bool" where
  "token_wf tok \<longleftrightarrow> sid_of (sa_Sid (tk_User tok)) \<noteq> None \<and> unat (tk_GroupCount tok) = length (tk_Groups tok)
     \<and> list_all (\<lambda>g. sid_of (sa_Sid g) \<noteq> None) (tk_Groups tok)"

definition token_sids :: "ACCESS_TOKEN \<Rightarrow> SID set" where
  "token_sids tok = set (map (\<lambda>g. the (sid_of (sa_Sid g)))
     (tk_User tok # filter (\<lambda>g. IsSetFlag (sa_Attributes g) SE_GROUP_ENABLED) (tk_Groups tok)))"

text \<open>What an entry means for a set of identifiers: nothing, or that it allows or denies its mapped rights.\<close>

definition ace_effect :: "SID set \<Rightarrow> GENERIC_MAPPING \<Rightarrow> mem \<Rightarrow> (bool \<times> ACCESS_MASK) option" where
  "ace_effect T gm ace =
    (case ace_of ace of
       None \<Rightarrow> None
     | Some a \<Rightarrow>
         if a_sid a \<in> T \<and> (a_type a = ACCESS_ALLOWED_ACE_TYPE \<or> a_type a = ACCESS_DENIED_ACE_TYPE)
         then Some (a_type a = ACCESS_ALLOWED_ACE_TYPE, RtlMapGenericMask (a_mask a) gm) else None)"

definition effects :: "SID set \<Rightarrow> GENERIC_MAPPING \<Rightarrow> mem list \<Rightarrow> (bool \<times> ACCESS_MASK) list" where
  "effects T gm aces = List.map_filter (ace_effect T gm) aces"

text \<open>The first matching entry that mentions a right decides it.\<close>

fun first_match :: "(bool \<times> ACCESS_MASK) list \<Rightarrow> nat \<Rightarrow> bool option" where
  "first_match [] n = None"
| "first_match ((allow, m) # es) n = (if bit m n then Some allow else first_match es n)"

text \<open>The check over the effects of the list.\<close>

fun check_effects ::
    "bool \<Rightarrow> (bool \<times> ACCESS_MASK) list \<Rightarrow> ACCESS_MASK \<times> ACCESS_MASK \<times> ACCESS_MASK \<Rightarrow>
     NTSTATUS \<times> ACCESS_MASK \<times> ACCESS_MASK" where
  "check_effects want [] s = (if snd (snd s) \<noteq> 0 then STATUS_ACCESS_DENIED else STATUS_SUCCESS, fst s, snd (snd s))"
| "check_effects want ((allow, m) # es) s =
    (if \<not> (want \<or> snd (snd s) \<noteq> 0) then (STATUS_SUCCESS, fst s, snd (snd s))
     else if \<not> (want \<or> IsSetFlag (snd (snd s)) m) then check_effects want es s
     else if allow then check_effects want es (allow_ace want m s)
     else if want then check_effects want es (deny_ace m s)
     else (STATUS_ACCESS_DENIED, fst s, snd (snd s)))"

definition acl_readable :: "ACL \<Rightarrow> bool" where
  "acl_readable a \<longleftrightarrow> list_all (\<lambda>ace. ace ! 0 = ACCESS_ALLOWED_ACE_TYPE \<or> ace ! 0 = ACCESS_DENIED_ACE_TYPE \<longrightarrow> ace_of ace \<noteq> None) (acl_aces a)"

section \<open>Membership\<close>

lemma member_loop_correct:
  "sid_of m = Some s \<Longrightarrow> list_all (\<lambda>g. sid_of (sa_Sid g) \<noteq> None) gs \<Longrightarrow>
    member_loop m gs (length gs) =
      Some (\<exists>g \<in> set gs. IsSetFlag (sa_Attributes g) SE_GROUP_ENABLED \<and> sid_of (sa_Sid g) = Some s)"
proof (induction gs)
  case (Cons g gs)
  then obtain s' where "sid_of (sa_Sid g) = Some s'"
    by auto
  then show ?case
    using Cons RtlEqualSid_correct[OF Cons.prems(1), of "sa_Sid g" s'] by (auto simp del: not_None_eq)
qed simp

lemma RtlIsSidMemberOfToken_correct:
  assumes "token_wf tok" and "sid_of m = Some s"
  shows "RtlIsSidMemberOfToken tok m = Some (s \<in> token_sids tok)"
proof -
  obtain u where u: "sid_of (sa_Sid (tk_User tok)) = Some u"
    using assms(1) by (auto simp: token_wf_def)
  have gs: "list_all (\<lambda>g. sid_of (sa_Sid g) \<noteq> None) (tk_Groups tok)"
    and n: "unat (tk_GroupCount tok) = length (tk_Groups tok)"
    using assms(1) by (simp_all add: token_wf_def)
  have "s \<in> token_sids tok \<longleftrightarrow> s = u \<or>
      (\<exists>g \<in> set (tk_Groups tok). IsSetFlag (sa_Attributes g) SE_GROUP_ENABLED \<and> sid_of (sa_Sid g) = Some s)"
    using gs u by (force simp: token_sids_def list_all_iff)
  then show ?thesis
    unfolding RtlIsSidMemberOfToken_def n
    using RtlEqualSid_correct[OF assms(2) u] member_loop_correct[OF assms(2) gs] by simp
qed

section \<open>The loop over the list\<close>

lemma ace_of_append: "ace_of ace = Some a \<Longrightarrow> ace_of (ace @ r) = Some a"
proof -
  assume a: "ace_of ace = Some a"
  then have len: "8 \<le> length ace"
    by (auto simp: ace_of_def ptr_add_def bind_eq_Some_conv split: if_splits)
  obtain s where s: "sid_of (drop 8 ace) = Some s"
    using a len by (auto simp: ace_of_def ptr_add_def bind_eq_Some_conv)
  then have "sid_of (drop 8 ace @ r) = Some s"
    by (auto simp: sid_of_iff)
  then show ?thesis
    using a s len
    by (simp add: ace_of_def ace_AceType_def ace_AceFlags_def ace_Mask_def ptr_add_def f8.get_append_left
        f32.get_append_left)
qed

lemma check_ace_correct:
  assumes "token_wf tok" and "ace_wf ace"
    and "ace ! 0 = ACCESS_ALLOWED_ACE_TYPE \<or> ace ! 0 = ACCESS_DENIED_ACE_TYPE \<Longrightarrow> ace_of ace \<noteq> None"
  shows "check_ace tok gm want (ace @ r) s = Some
    (case ace_effect (token_sids tok) gm ace of
       None \<Rightarrow> Inr s
     | Some (allow, m) \<Rightarrow>
         if \<not> (want \<or> IsSetFlag (snd (snd s)) m) then Inr s
         else if allow then Inr (allow_ace want m s)
         else if want then Inr (deny_ace m s) else Inl STATUS_ACCESS_DENIED)"
proof -
  have t: "ace_AceType (ace @ r) = Some (ace ! 0)"
    using assms(2) by (cases ace) (auto simp: ace_wf_def ace_AceType_def)
  show ?thesis
  proof (cases "ace ! 0 = ACCESS_ALLOWED_ACE_TYPE \<or> ace ! 0 = ACCESS_DENIED_ACE_TYPE")
    case True
    then obtain a where a: "ace_of ace = Some a"
      using assms(3) by auto
    obtain p where "a_type a = ace ! 0" "ace_Mask (ace @ r) = Some (a_mask a)" "RtlpGetSidAccessAllowedAce (ace @ r) = Some p"
      "sid_of p = Some (a_sid a)"
      using ace_of_append[OF a, of r] t by (auto simp: ace_of_def RtlpGetSidAccessAllowedAce_def bind_eq_Some_conv)
    then show ?thesis
      using True t a RtlIsSidMemberOfToken_correct[OF assms(1), of p]
      by (auto simp: check_ace_def ace_effect_def Let_def)
  next
    case False
    moreover have "a_type a = ace ! 0" if "ace_of ace = Some a" for a
      using ace_of_append[OF that, of r] t by (auto simp: ace_of_def bind_eq_Some_conv)
    ultimately show ?thesis
      using t by (auto simp: check_ace_def ace_effect_def split: option.splits)
  qed
qed

lemma check_effects_done: "check_effects False es (g, d, 0) = (STATUS_SUCCESS, g, 0)"
  by (cases es) auto

lemma access_loop_correct:
  assumes "acl_at m a" and "acl_readable a" and "token_wf tok" and "i \<le> length (acl_aces a)"
  shows "access_loop tok gm want m (word_of_nat (acl_used a)) (ace_cursor a i) s =
    Some (check_effects want (effects (token_sids tok) gm (drop i (acl_aces a))) s)"
  using assms(4)
proof (induction "length (acl_aces a) - i" arbitrary: i s)
  case 0
  then have "i = length (acl_aces a)"
    by simp
  then show ?case
    using RtlIterateAce_stop[OF assms(1)]
    by (subst access_loop.simps) (auto simp: effects_def map_filter_simps Let_def split: prod.splits)
next
  case (Suc k)
  then have i: "i < length (acl_aces a)"
    by simp
  have IH: "access_loop tok gm want m (word_of_nat (acl_used a)) (ace_cursor a (Suc i)) s =
      Some (check_effects want (effects (token_sids tok) gm (drop (Suc i) (acl_aces a))) s)" for s
    using Suc.hyps i by simp
  let ?ace = "acl_aces a ! i"
  have d: "drop i (acl_aces a) = ?ace # drop (Suc i) (acl_aces a)"
    using i by (simp add: Cons_nth_drop_Suc)
  have r: "?ace ! 0 = ACCESS_ALLOWED_ACE_TYPE \<or> ?ace ! 0 = ACCESS_DENIED_ACE_TYPE \<Longrightarrow> ace_of ?ace \<noteq> None"
    using assms(2) i by (auto simp add: acl_readable_def list_all_length)
  show ?case
    unfolding d
    by (subst access_loop.simps, cases s, cases want)
      (use IH in \<open>simp_all add: RtlIterateAce_step[OF assms(1) i] acl_at_entry(1)[OF assms(1) i]
        check_ace_correct[OF assms(3) acl_at_entry(2)[OF assms(1) i] r] effects_def map_filter_simps
        check_effects_done Let_def split: option.splits\<close>)
qed

section \<open>The first matching entry decides\<close>

lemma bit_flags:
  fixes a b :: "'a::len word"
  shows "bit (SetFlag a b) n \<longleftrightarrow> bit a n \<or> bit b n"
    and "bit (ClearFlag a b) n \<longleftrightarrow> bit a n \<and> \<not> bit b n"
    and "IsSetFlag a b \<longleftrightarrow> (\<exists>n. bit a n \<and> bit b n)"
    and "a AND b = 0 \<longleftrightarrow> (\<forall>n. \<not> (bit a n \<and> bit b n))"
    and "a = 0 \<longleftrightarrow> (\<forall>n. \<not> bit a n)"
    and "bit (a AND NOT b) n \<longleftrightarrow> bit a n \<and> \<not> bit b n"
  by (auto simp: SetFlag_def ClearFlag_def IsSetFlag_def bit_simps bit_eq_iff dest: bit_imp_le_length
      intro: bit_imp_le_length)

lemma check_effects_exact:
  "g AND d = 0 \<Longrightarrow>
    if \<forall>n. bit d n \<longrightarrow> first_match es n = Some True
    then check_effects False es (g, dn, d) = (STATUS_SUCCESS, SetFlag g d, 0)
    else fst (check_effects False es (g, dn, d)) = STATUS_ACCESS_DENIED"
proof (induction es arbitrary: g d)
  case Nil
  then show ?case
    using bit_flags(5)[of d] by (cases "d = 0") (auto simp: SetFlag_def)
next
  case (Cons e es)
  obtain allow m where e: "e = (allow, m)"
    by (cases e)
  show ?case
  proof (cases "IsSetFlag d m")
    case False
    then have "\<forall>n. bit d n \<longrightarrow> first_match (e # es) n = first_match es n"
      by (auto simp: e bit_flags(3))
    then show ?thesis
      using Cons.IH[OF Cons.prems, of] False by (cases "d = 0") (auto simp: e SetFlag_def)
  next
    case True
    let ?g = "SetFlag g (m AND d)"
    have d0: "d \<noteq> 0"
      using True by (auto simp: IsSetFlag_def)
    have eq: "SetFlag ?g (ClearFlag d ?g) = SetFlag g d"
      using Cons.prems unfolding bit_flags(4) by (intro bit_word_eqI) (auto simp: bit_flags bit_simps)
    have "?g AND ClearFlag d ?g = 0"
      by (auto simp: bit_flags(1,2,4))
    note IH = Cons.IH[OF this, unfolded eq]
    have "(\<forall>n. bit (ClearFlag d ?g) n \<longrightarrow> first_match es n = Some True) \<longleftrightarrow>
        (\<forall>n. bit d n \<longrightarrow> first_match ((True, m) # es) n = Some True)"
      using Cons.prems unfolding bit_flags(4) by (auto simp: bit_flags(1,2) bit_simps)
    moreover have "\<not> (\<forall>n. bit d n \<longrightarrow> first_match ((False, m) # es) n = Some True)"
      using True by (auto simp: bit_flags(3))
    ultimately show ?thesis
      using IH True d0 by (cases allow) (simp_all add: e allow_ace_def Let_def)
  qed
qed

text \<open>With \<^verbatim>\<open>MAXIMUM_ALLOWED\<close> every right is decided by its first entry; a right asked for by name is dropped from
  the desired ones by an entry that denies it as well as by one that allows it.\<close>

lemma check_effects_maximum:
  assumes "g AND d = 0" and "dn AND d = 0"
  shows "\<exists>g' d'. check_effects True es (g, dn, d) = (if d' = 0 then STATUS_SUCCESS else STATUS_ACCESS_DENIED, g', d')
    \<and> (\<forall>n. bit g' n \<longleftrightarrow> bit g n \<or> \<not> bit dn n \<and> first_match es n = Some True)
    \<and> (\<forall>n. bit d' n \<longleftrightarrow> bit d n \<and> first_match es n = None)"
  using assms
proof (induction es arbitrary: g dn d)
  case (Cons e es)
  obtain allow m where e: "e = (allow, m)"
    by (cases e)
  show ?case
  proof (cases allow)
    case True
    let ?g = "SetFlag g (m AND NOT dn)"
    have "?g AND ClearFlag d ?g = 0" "dn AND ClearFlag d ?g = 0"
      using Cons.prems(2) unfolding bit_flags(4) by (auto simp: bit_flags(1,2))
    from Cons.IH[OF this] obtain g' d' where
      "check_effects True es (?g, dn, ClearFlag d ?g) = (if d' = 0 then STATUS_SUCCESS else STATUS_ACCESS_DENIED, g', d')"
      "\<forall>n. bit g' n \<longleftrightarrow> bit ?g n \<or> \<not> bit dn n \<and> first_match es n = Some True"
      "\<forall>n. bit d' n \<longleftrightarrow> bit (ClearFlag d ?g) n \<and> first_match es n = None"
      by blast
    with Cons.prems show ?thesis
      unfolding bit_flags(4) e
      by (intro exI[of _ g'] exI[of _ d']) (auto simp: True allow_ace_def Let_def bit_flags(1,2,6))
  next
    case False
    let ?dn = "SetFlag dn m"
    have "g AND ClearFlag d ?dn = 0" "?dn AND ClearFlag d ?dn = 0"
      using Cons.prems(1) unfolding bit_flags(4) by (auto simp: bit_flags(1,2))
    from Cons.IH[OF this] obtain g' d' where
      "check_effects True es (g, ?dn, ClearFlag d ?dn) = (if d' = 0 then STATUS_SUCCESS else STATUS_ACCESS_DENIED, g', d')"
      "\<forall>n. bit g' n \<longleftrightarrow> bit g n \<or> \<not> bit ?dn n \<and> first_match es n = Some True"
      "\<forall>n. bit d' n \<longleftrightarrow> bit (ClearFlag d ?dn) n \<and> first_match es n = None"
      by blast
    with Cons.prems show ?thesis
      unfolding bit_flags(4) e
      by (intro exI[of _ g'] exI[of _ d']) (auto simp: False deny_ace_def Let_def bit_flags(1,2))
  qed
qed auto

section \<open>The whole check\<close>

definition system_sid :: SID where
  "system_sid = mk_sid [0,0,0,0,0,5] [18]"

definition administrators_sid :: SID where
  "administrators_sid = mk_sid [0,0,0,0,0,5] [32, 544]"

text \<open>The rights that do not depend on the list.\<close>

definition special_rights :: "SID set \<Rightarrow> SID \<Rightarrow> ACCESS_MASK" where
  "special_rights T owner =
    (if administrators_sid \<in> T then ACCESS_SYSTEM_SECURITY OR WRITE_OWNER else 0)
    OR (if owner \<in> T then READ_CONTROL OR WRITE_DAC else 0)"

text \<open>Rights taken from the desired to the granted ones, all of them or those that are desired.\<close>

definition give :: "bool \<Rightarrow> ACCESS_MASK \<Rightarrow> ACCESS_MASK \<Rightarrow> ACCESS_MASK \<Rightarrow> ACCESS_MASK \<times> ACCESS_MASK" where
  "give want r g d = (SetFlag g (if want then r else r AND d), ClearFlag d r)"

text \<open>The check over identifiers and entries.\<close>

definition dacl_spec ::
    "SID set \<Rightarrow> GENERIC_MAPPING \<Rightarrow> bool \<Rightarrow> mem list option \<Rightarrow> ACCESS_MASK \<times> ACCESS_MASK \<Rightarrow>
     NTSTATUS \<times> ACCESS_MASK \<times> ACCESS_MASK" where
  "dacl_spec T gm want dacl s =
    (case dacl of
       None \<Rightarrow> grant_all gm want (fst s) (snd s)
     | Some aces \<Rightarrow> check_effects want (effects T gm aces) (fst s, 0, snd s))"

definition access_spec ::
    "SID set \<Rightarrow> GENERIC_MAPPING \<Rightarrow> bool \<Rightarrow> SID \<Rightarrow> mem list option \<Rightarrow> ACCESS_MASK \<Rightarrow> ACCESS_MASK \<Rightarrow>
     NTSTATUS \<times> ACCESS_MASK \<times> ACCESS_MASK" where
  "access_spec T gm want owner dacl g d =
    (if system_sid \<in> T then grant_all gm want g d
     else if administrators_sid \<notin> T \<and> IsSetFlag d ACCESS_SYSTEM_SECURITY then (STATUS_PRIVILEGE_NOT_HELD, g, d)
     else dacl_spec T gm want dacl (give want (special_rights T owner) g d))"

definition dacl_at :: "mem option \<Rightarrow> mem list option \<Rightarrow> bool" where
  "dacl_at m aces \<longleftrightarrow>
    (case (m, aces) of
       (None, None) \<Rightarrow> True
     | (Some m, Some as) \<Rightarrow> \<exists>a. acl_at m a \<and> acl_readable a \<and> acl_aces a = as
     | _ \<Rightarrow> False)"

lemma is_well_known_member_correct:
  assumes "token_wf tok" and "well_known_sid t None = Inr s" and "sid_wf s" and "sid_length s \<le> 68" and "length b = 68"
  shows "\<exists>b'. is_well_known_member tok t b = Some (STATUS_SUCCESS, s \<in> token_sids tok, b') \<and> length b' = 68"
proof -
  have "sid_of (sid_bytes s @ drop (sid_length s) b) = Some s"
    using assms(3) by (rule sid_of_bytes)
  then show ?thesis
    using RtlCreateWellKnownSid_refines[of None 68 b t] assms RtlIsSidMemberOfToken_correct[OF assms(1)]
    by (simp add: is_well_known_member_def sid_length_def)
qed

lemmas well_known_members =
  is_well_known_member_correct[where t = WinLocalSystemSid and s = system_sid]
  is_well_known_member_correct[where t = WinBuiltinAdministratorsSid and s = administrators_sid]

lemma access_dacl_correct:
  assumes "token_wf tok" and "dacl_at dm dacl"
  shows "access_dacl tok gm want dm g d = Some (dacl_spec (token_sids tok) gm want dacl (g, d))"
proof (cases dm)
  case None
  then show ?thesis
    using assms(2) by (auto simp: access_dacl_def dacl_at_def dacl_spec_def split: option.splits)
next
  case (Some m)
  then obtain a where a: "acl_at m a" "acl_readable a" "dacl = Some (acl_aces a)"
    using assms(2) by (auto simp: dacl_at_def split: option.splits)
  have "access_loop tok gm want m (word_of_nat (acl_used a)) 0 (g, 0, d) =
    Some (check_effects want (effects (token_sids tok) gm (acl_aces a)) (g, 0, d))"
  proof (cases "acl_aces a = []")
    case True
    then show ?thesis
      using RtlIterateAce_empty[OF a(1), of "word_of_nat (acl_used a)"]
      by (subst access_loop.simps) (auto simp: effects_def map_filter_simps Let_def)
  next
    case False
    then have "ace_cursor a 0 = 0"
      by (simp add: ace_cursor_def)
    then show ?thesis
      using access_loop_correct[OF a(1,2) assms(1), of 0] by simp
  qed
  then show ?thesis
    using Some a RtlValidAcl_complete[OF a(1)] by (simp add: access_dacl_def dacl_spec_def)
qed

lemma give_give: "g AND d = 0 \<Longrightarrow> (case give want r g d of (g, d) \<Rightarrow> give want r' g d) = give want (r OR r') g d"
  by (auto simp: give_def intro!: bit_word_eqI simp: bit_flags(1,2) bit_simps)

lemma give_step: "g AND d = 0 \<Longrightarrow> give want r g d = (g', d') \<Longrightarrow> give want r' g' d' = give want (r OR r') g d"
  using give_give[of g d want r' r] by simp

lemma give_disjoint: "g AND d = 0 \<Longrightarrow> give want r g d = (g', d') \<Longrightarrow> g' AND d' = 0"
  unfolding bit_flags(4) by (auto simp: give_def bit_flags(1,2) bit_simps split: if_splits)

lemma give_none: "\<not> want \<Longrightarrow> \<not> IsSetFlag d r \<Longrightarrow> give want r g d = (g, d)"
  unfolding bit_flags(3) by (auto simp: give_def intro!: bit_word_eqI simp: bit_flags(1,2) bit_simps)

lemma give_0 [simp]: "give want 0 g d = (g, d)"
  by (simp add: give_def SetFlag_def ClearFlag_def)

lemma owner_rights_give: "g AND d = 0 \<Longrightarrow> owner_rights want g d = give want (READ_CONTROL OR WRITE_DAC) g d"
  unfolding bit_flags(4)
  by (auto simp: give_def owner_rights_def Let_def intro!: bit_word_eqI simp: bit_flags(1,2) bit_simps)

lemma single_right: "IsSetFlag d (2 ^ k :: ACCESS_MASK) \<Longrightarrow> 2 ^ k AND d = 2 ^ k"
  by (auto simp: bit_flags(3) bit_simps intro!: bit_word_eqI)

lemma single_give:
  "want \<or> IsSetFlag d r \<Longrightarrow> r = WRITE_OWNER \<or> r = ACCESS_SYSTEM_SECURITY \<Longrightarrow>
    (SetFlag g r, ClearFlag d r) = give want r g d"
  using single_right[of d 19] single_right[of d 24] by (auto simp: give_def)

lemma access_owner_correct:
  assumes "token_wf tok" and "dacl_at dm dacl" and "sid_of Owner = Some owner" and "g AND d = 0"
  shows "access_owner tok gm want Owner dm g d = Some (dacl_spec (token_sids tok) gm want dacl
    (give want (if owner \<in> token_sids tok then READ_CONTROL OR WRITE_DAC else 0) g d))"
  using RtlIsSidMemberOfToken_correct[OF assms(1,3)] access_dacl_correct[OF assms(1,2)]
    owner_rights_give[OF assms(4), of want] give_none[of want d "READ_CONTROL OR WRITE_DAC" g]
  by (auto simp: access_owner_def Let_def split: prod.splits)

lemma is_administrator:
  assumes "token_wf tok" and "length b = 68"
  shows "\<exists>b'. is_well_known_member tok WinBuiltinAdministratorsSid b =
    Some (STATUS_SUCCESS, administrators_sid \<in> token_sids tok, b') \<and> length b' = 68"
  using well_known_members(2)[OF assms(1) _ _ _ assms(2)]
  by (simp add: well_known_eval administrators_sid_def sid_wf_def sid_length_def)

lemma is_system:
  assumes "token_wf tok" and "length b = 68"
  shows "\<exists>b'. is_well_known_member tok WinLocalSystemSid b =
    Some (STATUS_SUCCESS, system_sid \<in> token_sids tok, b') \<and> length b' = 68"
  using well_known_members(1)[OF assms(1) _ _ _ assms(2)]
  by (simp add: well_known_eval system_sid_def sid_wf_def sid_length_def)

lemma access_take_ownership_correct:
  assumes "token_wf tok" and "dacl_at dm dacl" and "sid_of Owner = Some owner" and "g AND d = 0" and "length b = 68"
  shows "access_take_ownership tok gm want Owner dm b g d = Some (dacl_spec (token_sids tok) gm want dacl
    (give want ((if administrators_sid \<in> token_sids tok then WRITE_OWNER else 0)
       OR (if owner \<in> token_sids tok then READ_CONTROL OR WRITE_DAC else 0)) g d))"
proof -
  let ?r = "if administrators_sid \<in> token_sids tok then WRITE_OWNER else 0"
  obtain g1 d1 where 1: "give want ?r g d = (g1, d1)"
    by fastforce
  obtain b' where b': "is_well_known_member tok WinBuiltinAdministratorsSid b =
    Some (STATUS_SUCCESS, administrators_sid \<in> token_sids tok, b')"
    using is_administrator[OF assms(1,5)] by blast
  have "access_take_ownership tok gm want Owner dm b g d = access_owner tok gm want Owner dm g1 d1"
    using 1 b' single_give[of want d WRITE_OWNER g] give_none[of want d WRITE_OWNER g]
    by (auto simp: access_take_ownership_def split: if_splits)
  then show ?thesis
    using access_owner_correct[OF assms(1-3) give_disjoint[OF assms(4) 1]] by (simp only: give_step[OF assms(4) 1])
qed

lemma access_system_security_correct:
  assumes "token_wf tok" and "dacl_at dm dacl" and "sid_of Owner = Some owner" and "g AND d = 0" and "length b = 68"
  shows "access_system_security tok gm want Owner dm b g d = Some
    (if administrators_sid \<notin> token_sids tok \<and> IsSetFlag d ACCESS_SYSTEM_SECURITY
     then (STATUS_PRIVILEGE_NOT_HELD, g, d)
     else dacl_spec (token_sids tok) gm want dacl (give want (special_rights (token_sids tok) owner) g d))"
proof -
  let ?r = "if administrators_sid \<in> token_sids tok then ACCESS_SYSTEM_SECURITY else 0"
  obtain g1 d1 where 1: "give want ?r g d = (g1, d1)"
    by fastforce
  obtain b' where b': "is_well_known_member tok WinBuiltinAdministratorsSid b =
    Some (STATUS_SUCCESS, administrators_sid \<in> token_sids tok, b')" "length b' = 68"
    using is_administrator[OF assms(1,5)] by blast
  have eq: "special_rights (token_sids tok) owner =
      ?r OR ((if administrators_sid \<in> token_sids tok then WRITE_OWNER else 0)
        OR (if owner \<in> token_sids tok then READ_CONTROL OR WRITE_DAC else 0))"
    by (simp add: special_rights_def ac_simps)
  have "access_system_security tok gm want Owner dm b g d =
    (if administrators_sid \<notin> token_sids tok \<and> IsSetFlag d ACCESS_SYSTEM_SECURITY
     then Some (STATUS_PRIVILEGE_NOT_HELD, g, d)
     else access_take_ownership tok gm want Owner dm
       (if want \<or> IsSetFlag d ACCESS_SYSTEM_SECURITY then b' else b) g1 d1)"
    using 1 b' single_give[of want d ACCESS_SYSTEM_SECURITY g] give_none[of want d ACCESS_SYSTEM_SECURITY g]
    by (auto simp: access_system_security_def split: if_splits)
  moreover have "length (if want \<or> IsSetFlag d ACCESS_SYSTEM_SECURITY then b' else b) = 68"
    using assms(5) b'(2) by simp
  note access_take_ownership_correct[OF assms(1-3) give_disjoint[OF assms(4) 1] this, of gm want]
  ultimately show ?thesis
    unfolding eq by (simp only: give_step[OF assms(4) 1] if_distrib[of Some])
qed

text \<open>The byte-level check is the check over identifiers and entries.\<close>

lemma RtlAccessCheckEx_refines:
  assumes "token_wf tok" and "sd_Owner sd = Some om" and "sid_of om = Some owner" and "sd_Group sd \<noteq> None"
    and "dacl_at (sd_Dacl sd) dacl"
    and "LW_IS_VALID_FLAGS D VALID_DESIRED_ACCESS_MASK" and "LW_IS_VALID_FLAGS prev VALID_GRANTED_ACCESS_MASK"
    and "prev AND RtlMapGenericMask (ClearFlag D MAXIMUM_ALLOWED) gm = 0"
  shows "RtlAccessCheckEx (Some sd) (Some tok) D prev (Some gm) =
    Some (access_finish prev (access_spec (token_sids tok) gm (IsSetFlag D MAXIMUM_ALLOWED) owner dacl prev
      (RtlMapGenericMask (ClearFlag D MAXIMUM_ALLOWED) gm)))"
proof -
  obtain b where "is_well_known_member tok WinLocalSystemSid (replicate 68 0) =
    Some (STATUS_SUCCESS, system_sid \<in> token_sids tok, b)" "length b = 68"
    using is_system[OF assms(1), of "replicate 68 0"] by auto
  then show ?thesis
    using assms(2,4,6,7) access_system_security_correct[OF assms(1,5,3,8), of b]
    by (auto simp: RtlAccessCheckEx_def access_stages_def access_spec_def Let_def)
qed

text \<open>Who may have which rights, right by right.\<close>

definition access_allowed ::
    "SID set \<Rightarrow> GENERIC_MAPPING \<Rightarrow> SID \<Rightarrow> mem list option \<Rightarrow> ACCESS_MASK \<Rightarrow> bool" where
  "access_allowed T gm owner dacl d \<longleftrightarrow> system_sid \<in> T
     \<or> (bit d 24 \<longrightarrow> administrators_sid \<in> T)
       \<and> (case dacl of
            None \<Rightarrow> True
          | Some aces \<Rightarrow> \<forall>n<32. bit d n \<and> \<not> bit (special_rights T owner) n \<longrightarrow>
              first_match (effects T gm aces) n = Some True)"

lemma bit_lt_32: "bit (w :: ACCESS_MASK) n \<Longrightarrow> n < 32"
  using bit_imp_le_length[of w n] by simp

lemma IsSetFlag_exp: "k < 32 \<Longrightarrow> IsSetFlag (d :: ACCESS_MASK) (2 ^ k) \<longleftrightarrow> bit d k"
  by (auto simp: bit_flags(3) bit_simps)

lemma IsSetFlag_security: "IsSetFlag (d :: ACCESS_MASK) ACCESS_SYSTEM_SECURITY \<longleftrightarrow> bit d 24"
  using IsSetFlag_exp[of 24 d] by simp

lemma give_all: "g AND d = 0 \<Longrightarrow> give False r g d = (g', d') \<Longrightarrow> SetFlag g' d' = SetFlag g d"
  by (auto simp: give_def bit_flags(1,2) bit_simps intro!: bit_word_eqI)

lemma access_spec_exact:
  assumes "g AND d = 0"
  shows "if access_allowed T gm owner dacl d
    then access_spec T gm False owner dacl g d = (STATUS_SUCCESS, SetFlag g d, 0)
    else \<not> NT_SUCCESS (fst (access_spec T gm False owner dacl g d))"
proof -
  obtain g' d' where g: "give False (special_rights T owner) g d = (g', d')"
    by fastforce
  have d': "bit d' n \<longleftrightarrow> bit d n \<and> \<not> bit (special_rights T owner) n" for n
    using g by (auto simp: give_def bit_flags(2))
  have "(\<forall>n. bit d' n \<longrightarrow> first_match es n = Some True) \<longleftrightarrow>
      (\<forall>n<32. bit d n \<and> \<not> bit (special_rights T owner) n \<longrightarrow> first_match es n = Some True)" for es
    unfolding d' using bit_lt_32 by blast
  then show ?thesis
    using check_effects_exact[OF give_disjoint[OF assms g], of _ 0] give_all[OF assms g] g
    by (cases dacl) (auto simp: access_spec_def access_allowed_def IsSetFlag_security dacl_spec_def grant_all_def)
qed

lemma access_spec_maximum:
  assumes "g AND d = 0" and "system_sid \<notin> T" and "bit d 24 \<longrightarrow> administrators_sid \<in> T"
  shows "\<exists>g' d'. access_spec T gm True owner (Some aces) g d =
      (if d' = 0 then STATUS_SUCCESS else STATUS_ACCESS_DENIED, g', d')
    \<and> (\<forall>n. bit g' n \<longleftrightarrow> bit g n \<or> bit (special_rights T owner) n \<or> first_match (effects T gm aces) n = Some True)
    \<and> (\<forall>n. bit d' n \<longleftrightarrow> bit d n \<and> \<not> bit (special_rights T owner) n \<and> first_match (effects T gm aces) n = None)"
proof -
  obtain g1 d1 where g: "give True (special_rights T owner) g d = (g1, d1)"
    by fastforce
  then have b: "bit g1 n \<longleftrightarrow> bit g n \<or> bit (special_rights T owner) n"
    "bit d1 n \<longleftrightarrow> bit d n \<and> \<not> bit (special_rights T owner) n" for n
    by (auto simp: give_def bit_flags(1,2))
  have "access_spec T gm True owner (Some aces) g d = check_effects True (effects T gm aces) (g1, 0, d1)"
    using assms(2,3) g by (auto simp: access_spec_def IsSetFlag_security dacl_spec_def)
  then show ?thesis
    using check_effects_maximum[OF give_disjoint[OF assms(1) g], of 0 "effects T gm aces"] b by auto
qed

lemma access_finish_closed:
  "case access_finish prev r of (ok, rem, g, st) \<Rightarrow>
    (ok \<longleftrightarrow> NT_SUCCESS st) \<and> (\<not> ok \<longrightarrow> g = prev) \<and> (ok \<longrightarrow> LW_IS_VALID_FLAGS g VALID_GRANTED_ACCESS_MASK)"
proof -
  obtain st0 g0 d0 where "r = (st0, g0, d0)"
    by (cases r)
  then show ?thesis
    by (cases "NT_SUCCESS st0"; cases "LW_IS_VALID_FLAGS g0 VALID_GRANTED_ACCESS_MASK") (simp_all add: access_finish_def)
qed

lemma RtlAccessCheckEx_exact:
  assumes "token_wf tok" and "sd_Owner sd = Some om" and "sid_of om = Some owner" and "sd_Group sd \<noteq> None"
    and "dacl_at (sd_Dacl sd) dacl"
    and "LW_IS_VALID_FLAGS D VALID_DESIRED_ACCESS_MASK" and "LW_IS_VALID_FLAGS prev VALID_GRANTED_ACCESS_MASK"
    and "\<not> IsSetFlag D MAXIMUM_ALLOWED"
    and "d = RtlMapGenericMask D gm" and "prev AND d = 0" and "LW_IS_VALID_FLAGS (prev OR d) VALID_GRANTED_ACCESS_MASK"
  shows "\<exists>rem st. RtlAccessCheckEx (Some sd) (Some tok) D prev (Some gm) =
    (if access_allowed (token_sids tok) gm owner dacl d
     then Some (True, 0, prev OR d, STATUS_SUCCESS)
     else Some (False, rem, prev, st))"
proof -
  have D: "ClearFlag D MAXIMUM_ALLOWED = D"
    using assms(8) unfolding bit_flags(3) by (intro bit_word_eqI) (auto simp: bit_flags(2))
  note ref = RtlAccessCheckEx_refines[OF assms(1-7), of gm, unfolded D, folded assms(9), OF assms(10)]
  show ?thesis
    using ref access_spec_exact[OF assms(10), of "token_sids tok" gm owner dacl] assms(8,11)
    by (cases "access_spec (token_sids tok) gm False owner dacl prev d";
        cases "access_allowed (token_sids tok) gm owner dacl d") (auto simp: access_finish_def Let_def SetFlag_def)
qed

section \<open>Samples\<close>

text \<open>A user who is a member of everyone, an object open to everyone, and one that denies everyone the second
  specific right.\<close>

definition sample_token :: ACCESS_TOKEN where
  "sample_token = \<lparr> ReferenceCount = 1, tk_Flags = 0, tk_User = \<lparr> sa_Sid = [1,1,0,0,0,0,0,5,7,0,0,0], sa_Attributes = 0 \<rparr>,
     tk_GroupCount = 1, tk_Groups = [\<lparr> sa_Sid = [1,1,0,0,0,0,0,1,0,0,0,0], sa_Attributes = 4 \<rparr>],
     tk_PrivilegeCount = 0, tk_Privileges = [], tk_Owner = None, tk_PrimaryGroup = None, tk_DefaultDacl = None,
     tk_Uid = 0, tk_Gid = 0, tk_Umask = 0 \<rparr>"

definition sample_mapping :: GENERIC_MAPPING where
  "sample_mapping = \<lparr> GenericRead = 1, GenericWrite = 2, GenericExecute = 4, GenericAll = 7 \<rparr>"

definition sample_object :: SECURITY_DESCRIPTOR_ABSOLUTE where
  "sample_object = sample_sd_owned\<lparr>sd_Group := Some [1,1,0,0,0,0,0,5,18,0,0,0]\<rparr>"

definition sample_deny_ace :: mem where
  "sample_deny_ace = [1,0,20,0, 2,0,0,0, 1,1,0,0,0,0,0,1,0,0,0,0]"

definition sample_deny_acl :: ACL where
  "sample_deny_acl = \<lparr> acl_rev = 2, acl_size = 28, acl_aces = [sample_deny_ace] \<rparr>"

lemma sample_token_sids:
  "token_wf sample_token" "token_sids sample_token = {mk_sid [0,0,0,0,0,5] [7], mk_sid [0,0,0,0,0,1] [0]}"
  by (simp_all add: token_wf_def token_sids_def sample_token_def IsSetFlag_def sid_eval)

lemma sample_object_fields:
  "sd_Owner sample_object = Some [1,1,0,0,0,0,0,5,18,0,0,0]" "sd_Group sample_object \<noteq> None"
  "sd_Dacl sample_object = Some sample_block" "sid_of [1,1,0,0,0,0,0,5,18,0,0,0] = Some system_sid"
  by (simp_all add: sample_object_def sample_sd_owned_def sample_sd_def system_sid_def sid_eval)

lemma sample_special: "special_rights (token_sids sample_token) system_sid = 0"
  by (simp add: special_rights_def sample_token_sids system_sid_def administrators_sid_def)

lemma sample_dacl: "dacl_at (Some sample_block) (Some [sample_ace])"
proof -
  have "acl_readable sample_acl"
    by (simp add: acl_readable_def sample_acl_def sample_ace_def ace_of_def ace_AceType_def ace_AceFlags_def ace_Mask_def
        ptr_add_def sid_eval)
  then show ?thesis
    using sample_acl_at by (auto simp: dacl_at_def sample_acl_def)
qed

lemma sample_effects:
  "effects (token_sids sample_token) sample_mapping [sample_ace] = [(True, 0x1F01FF)]"
  "effects (token_sids sample_token) sample_mapping [sample_deny_ace] = [(False, 2)]"
  by (simp_all add: effects_def map_filter_simps ace_effect_def sample_token_sids sample_ace_def sample_deny_ace_def ace_of_def
      ace_AceType_def ace_AceFlags_def ace_Mask_def ptr_add_def sid_eval RtlMapGenericMask_def
      RtlpMapGenericMaskSingleFlag_def IsSetFlag_def)

lemma sample_deny_dacl: "dacl_at (Some (acl_bytes sample_deny_acl)) (Some [sample_deny_ace])"
proof -
  have "ace_wf sample_deny_ace"
    by (simp add: sample_deny_ace_def ace_wf_def ace_AceSize_def LW_IS_VALID_FLAGS_def byte_eval)
  moreover have "acl_used sample_deny_acl = 28"
    by (simp add: acl_used_def sample_deny_acl_def sample_deny_ace_def)
  ultimately have "acl_valid sample_deny_acl"
    by (simp add: acl_valid_def) (simp add: sample_deny_acl_def)
  then have "acl_at (acl_bytes sample_deny_acl) sample_deny_acl"
    using acl_at_append[of sample_deny_acl "[]"] by (simp add: sample_deny_acl_def acl_bytes_def sample_deny_ace_def)
  moreover have "acl_readable sample_deny_acl"
    by (simp add: acl_readable_def sample_deny_acl_def sample_deny_ace_def ace_of_def ace_AceType_def ace_AceFlags_def
        ace_Mask_def ptr_add_def sid_eval)
  ultimately show ?thesis
    by (auto simp: dacl_at_def sample_deny_acl_def)
qed

section \<open>Properties\<close>

text \<open>C3. The access check is exact.  The conditions are a well-formed token, a descriptor with an owner and a
  group whose list is absent or well formed, valid masks, no \<^verbatim>\<open>MAXIMUM_ALLOWED\<close>, and desired
  rights that are disjoint from those granted before.  Then the byte-level function returns, and grants the desired
  rights, all of them or none.  It grants them exactly when the token is the system, or when
  \<^verbatim>\<open>ACCESS_SYSTEM_SECURITY\<close>, bit 24, is asked for only by an administrator and each desired
  right is a special right of the owner or of an administrator or its first matching entry in the list allows it; a
  missing list allows everything else.  So administrators are granted
  \<^verbatim>\<open>ACCESS_SYSTEM_SECURITY\<close>, although a comment of the source says that requesting it is not
  allowed.\<close>

theorem access_check_exact:
  assumes "token_wf tok" and "sd_Owner sd = Some om" and "sid_of om = Some owner" and "sd_Group sd \<noteq> None"
    and "dacl_at (sd_Dacl sd) dacl"
    and "LW_IS_VALID_FLAGS D VALID_DESIRED_ACCESS_MASK" and "LW_IS_VALID_FLAGS prev VALID_GRANTED_ACCESS_MASK"
    and "\<not> IsSetFlag D MAXIMUM_ALLOWED"
    and "d = RtlMapGenericMask D gm" and "prev AND d = 0" and "LW_IS_VALID_FLAGS (prev OR d) VALID_GRANTED_ACCESS_MASK"
  shows "\<exists>rem st. RtlAccessCheckEx (Some sd) (Some tok) D prev (Some gm) =
    (if access_allowed (token_sids tok) gm owner dacl d
     then Some (True, 0, prev OR d, STATUS_SUCCESS)
     else Some (False, rem, prev, st))"
  by (rule RtlAccessCheckEx_exact[OF assms])

text \<open>A user asks for the generic right to write to an object that is open to everyone.\<close>

theorem access_check_exact_witness:
  "RtlAccessCheckEx (Some sample_object) (Some sample_token) GENERIC_WRITE 1 (Some sample_mapping) =
    Some (True, 0, 3, STATUS_SUCCESS)"
proof -
  have "access_allowed (token_sids sample_token) sample_mapping system_sid (Some [sample_ace]) 2"
    unfolding access_allowed_def option.case sample_special sample_effects
    by (auto simp: sample_token_sids numeral_eq_Suc less_Suc_eq)
  moreover have "RtlMapGenericMask GENERIC_WRITE sample_mapping = 2"
    by (simp add: RtlMapGenericMask_def RtlpMapGenericMaskSingleFlag_def IsSetFlag_def sample_mapping_def SetFlag_def ClearFlag_def)
  ultimately show ?thesis
    using access_check_exact[OF sample_token_sids(1) sample_object_fields(1,4,2), unfolded sample_object_fields(3), OF sample_dacl,
        of GENERIC_WRITE 1 2 sample_mapping]
    by (simp add: LW_IS_VALID_FLAGS_def VALID_DESIRED_ACCESS_MASK_def VALID_GRANTED_ACCESS_MASK_def VALID_SACL_ACCESS_MASK_def
        VALID_DACL_ACCESS_MASK_def IsSetFlag_def)
qed

text \<open>C14. The check with \<^verbatim>\<open>MAXIMUM_ALLOWED\<close>, for a well-formed token that is not the
  system, a descriptor with an owner, a group and a well-formed list, valid masks, rights asked for by name that are
  disjoint from those granted before, and \<^verbatim>\<open>ACCESS_SYSTEM_SECURITY\<close>, bit 24, asked for by name
  only by an administrator.  On success the rights are exactly those granted before, the special rights, to which
  \<^verbatim>\<open>ACCESS_SYSTEM_SECURITY\<close> belongs for an administrator although a comment of the source says
  that requesting it is not allowed, and every right whose first matching entry allows it.  The check succeeds exactly
  when these are valid rights and every right asked for by name is a special right or is mentioned by some matching
  entry, one that denies it included.\<close>

theorem access_check_maximum:
  assumes "token_wf tok" and "sd_Owner sd = Some om" and "sid_of om = Some owner" and "sd_Group sd \<noteq> None"
    and "dacl_at (sd_Dacl sd) (Some aces)"
    and "LW_IS_VALID_FLAGS D VALID_DESIRED_ACCESS_MASK" and "LW_IS_VALID_FLAGS prev VALID_GRANTED_ACCESS_MASK"
    and "IsSetFlag D MAXIMUM_ALLOWED"
    and "d = RtlMapGenericMask (ClearFlag D MAXIMUM_ALLOWED) gm" and "prev AND d = 0"
    and "system_sid \<notin> token_sids tok" and "bit d 24 \<longrightarrow> administrators_sid \<in> token_sids tok"
  shows "\<exists>ok rem g st. RtlAccessCheckEx (Some sd) (Some tok) D prev (Some gm) =
      Some (ok, rem, if ok then g else prev, st)
    \<and> (\<forall>n. bit g n \<longleftrightarrow> bit prev n \<or> bit (special_rights (token_sids tok) owner) n
        \<or> first_match (effects (token_sids tok) gm aces) n = Some True)
    \<and> (ok \<longleftrightarrow> LW_IS_VALID_FLAGS g VALID_GRANTED_ACCESS_MASK
        \<and> (\<forall>n. bit d n \<and> \<not> bit (special_rights (token_sids tok) owner) n \<longrightarrow>
              first_match (effects (token_sids tok) gm aces) n \<noteq> None))"
proof -
  note ref = RtlAccessCheckEx_refines[OF assms(1-7), of gm, folded assms(9), OF assms(10)]
  obtain g d' where s: "access_spec (token_sids tok) gm True owner (Some aces) prev d =
      (if d' = 0 then STATUS_SUCCESS else STATUS_ACCESS_DENIED, g, d')"
    and b: "\<forall>n. bit g n \<longleftrightarrow> bit prev n \<or> bit (special_rights (token_sids tok) owner) n
        \<or> first_match (effects (token_sids tok) gm aces) n = Some True"
      "\<forall>n. bit d' n \<longleftrightarrow> bit d n \<and> \<not> bit (special_rights (token_sids tok) owner) n
        \<and> first_match (effects (token_sids tok) gm aces) n = None"
    using access_spec_maximum[OF assms(10-12), of gm owner aces] by blast
  have d': "d' = 0 \<longleftrightarrow> (\<forall>n. bit d n \<and> \<not> bit (special_rights (token_sids tok) owner) n \<longrightarrow>
              first_match (effects (token_sids tok) gm aces) n \<noteq> None)"
    using bit_flags(5)[of d'] b(2) by auto
  let ?ok = "LW_IS_VALID_FLAGS g VALID_GRANTED_ACCESS_MASK \<and> d' = 0"
  have "access_finish prev (if d' = 0 then STATUS_SUCCESS else STATUS_ACCESS_DENIED, g, d') = (?ok, d', if ?ok then g else prev,
      if d' \<noteq> 0 then STATUS_ACCESS_DENIED else if ?ok then STATUS_SUCCESS else STATUS_ASSERTION_FAILURE)"
    by (simp add: access_finish_def)
  then have "RtlAccessCheckEx (Some sd) (Some tok) D prev (Some gm) = Some (?ok, d', if ?ok then g else prev,
      if d' \<noteq> 0 then STATUS_ACCESS_DENIED else if ?ok then STATUS_SUCCESS else STATUS_ASSERTION_FAILURE)"
    using ref s assms(8) by simp
  then show ?thesis
    by (intro exI conjI, assumption, intro b(1)) (simp only: d')
qed

text \<open>A user asks for the second specific right by name together with the maximum: the call succeeds without it.\<close>

theorem access_check_maximum_witness:
  "\<exists>rem g st. RtlAccessCheckEx (Some (sample_object\<lparr>sd_Dacl := Some (acl_bytes sample_deny_acl)\<rparr>)) (Some sample_token)
      (MAXIMUM_ALLOWED OR 2) 0 (Some sample_mapping) = Some (True, rem, g, st) \<and> g = 0"
proof -
  have d: "2 = RtlMapGenericMask (ClearFlag (MAXIMUM_ALLOWED OR 2) MAXIMUM_ALLOWED) sample_mapping"
    by (simp add: RtlMapGenericMask_def RtlpMapGenericMaskSingleFlag_def IsSetFlag_def ClearFlag_def)
  obtain ok rem g st where r: "RtlAccessCheckEx (Some (sample_object\<lparr>sd_Dacl := Some (acl_bytes sample_deny_acl)\<rparr>))
      (Some sample_token) (MAXIMUM_ALLOWED OR 2) 0 (Some sample_mapping) = Some (ok, rem, if ok then g else 0, st)"
    and g: "\<forall>n. bit g n \<longleftrightarrow> first_match [(False, 2)] n = Some True"
    and ok: "ok \<longleftrightarrow> LW_IS_VALID_FLAGS g VALID_GRANTED_ACCESS_MASK \<and> (\<forall>n. bit (2 :: ACCESS_MASK) n \<longrightarrow> first_match [(False, 2)] n \<noteq> None)"
    using access_check_maximum[of sample_token "sample_object\<lparr>sd_Dacl := Some (acl_bytes sample_deny_acl)\<rparr>" _ system_sid
        "[sample_deny_ace]" "MAXIMUM_ALLOWED OR 2" 0 2 sample_mapping, unfolded sample_special sample_effects]
      d sample_token_sids sample_object_fields sample_deny_dacl
    by (auto simp: LW_IS_VALID_FLAGS_def VALID_DESIRED_ACCESS_MASK_def IsSetFlag_def system_sid_def)
  have "g = 0"
    using g bit_flags(5)[of g] by auto
  then show ?thesis
    using r ok by (auto simp: LW_IS_VALID_FLAGS_def)
qed

text \<open>Whatever the arguments, a call that returns reports success exactly when its status is a success, leaves the
  previously granted rights alone when it fails, and grants no right outside the valid mask when it succeeds.\<close>

lemma access_check_fails_closed:
  assumes "RtlAccessCheckEx SecurityDescriptor AccessToken D prev gm = Some (ok, rem, g, st)"
  shows "(ok \<longleftrightarrow> NT_SUCCESS st) \<and> (\<not> ok \<longrightarrow> g = prev) \<and> (ok \<longrightarrow> LW_IS_VALID_FLAGS g VALID_GRANTED_ACCESS_MASK)"
proof -
  obtain r where r: "access_finish prev r = (ok, rem, g, st)"
    using assms unfolding RtlAccessCheckEx_def bind_eq_Some_conv option.inject by (elim exE conjE) (rule that)
  show ?thesis
    using access_finish_closed[of prev r] unfolding r by simp
qed

end
