(* ===== verification/Security_Privilege.thy ===== *)
theory Security_Privilege
  imports Security_Token
begin

text \<open>
  Privileges: the functions on locally unique identifiers and privilege sets of \<^verbatim>\<open>security-privileges.c\<close>, and
  \<^verbatim>\<open>RtlPrivilegeCheck\<close> and \<^verbatim>\<open>RtlAdjustTokenPrivileges\<close> of \<^verbatim>\<open>security-token.c\<close>, over the arrays of
  privileges as they lie in memory.
\<close>

section \<open>Layout\<close>

record LUID =
  LowPart :: ULONG
  HighPart :: "32 word"

record LUID_AND_ATTRIBUTES =
  la_Luid :: LUID
  la_Attributes :: ULONG

definition enc_priv :: "LUID_AND_ATTRIBUTES \<Rightarrow> byte list" where
  "enc_priv p = enc32 (LowPart (la_Luid p)) @ enc32 (HighPart (la_Luid p)) @ enc32 (la_Attributes p)"

definition dec_priv :: "byte list \<Rightarrow> LUID_AND_ATTRIBUTES" where
  "dec_priv bs = \<lparr> la_Luid = \<lparr> LowPart = dec32 (take 4 bs), HighPart = dec32 (take 4 (drop 4 bs)) \<rparr>,
     la_Attributes = dec32 (drop 8 bs) \<rparr>"

definition rd_priv :: "mem \<Rightarrow> nat \<Rightarrow> LUID_AND_ATTRIBUTES option" where
  "rd_priv m off = map_option dec_priv (rdn m off 12)"

definition wr_priv :: "mem \<Rightarrow> nat \<Rightarrow> LUID_AND_ATTRIBUTES \<Rightarrow> mem option" where
  "wr_priv m off p = wrn m off (enc_priv p)"

abbreviation (input) SE_PRIVILEGE_ENABLED :: ULONG where "SE_PRIVILEGE_ENABLED \<equiv> 2"
abbreviation (input) SE_PRIVILEGE_REMOVED :: ULONG where "SE_PRIVILEGE_REMOVED \<equiv> 4"
abbreviation (input) SE_PRIVILEGE_USED_FOR_ACCESS :: ULONG where "SE_PRIVILEGE_USED_FOR_ACCESS \<equiv> 0x80000000"
abbreviation (input) PRIVILEGE_SET_ALL_NECESSARY :: ULONG where "PRIVILEGE_SET_ALL_NECESSARY \<equiv> 1"

section \<open>Operations\<close>

definition RtlConvertLongToLuid :: "32 word \<Rightarrow> LUID" where
  "RtlConvertLongToLuid Long = \<lparr> LowPart = Long, HighPart = 0 \<rparr>"

definition RtlConvertUlongToLuid :: "ULONG \<Rightarrow> LUID" where
  "RtlConvertUlongToLuid Ulong = \<lparr> LowPart = Ulong, HighPart = 0 \<rparr>"

definition RtlEqualLuid :: "LUID \<Rightarrow> LUID \<Rightarrow> bool" where
  "RtlEqualLuid Luid1 Luid2 \<longleftrightarrow> HighPart Luid1 = HighPart Luid2 \<and> LowPart Luid1 = LowPart Luid2"

definition RtlLengthRequiredPrivilegeSet :: "ULONG \<Rightarrow> ULONG" where
  "RtlLengthRequiredPrivilegeSet PrivilegeCount = 8 + 12 * PrivilegeCount"

definition RtlLengthPrivilegeSet :: "mem \<Rightarrow> ULONG option" where
  "RtlLengthPrivilegeSet PrivilegeSet = do { n \<leftarrow> rd32 PrivilegeSet 0; Some (RtlLengthRequiredPrivilegeSet n) }"

definition RtlCopyPrivilegeSet :: "ULONG \<Rightarrow> mem \<Rightarrow> mem \<Rightarrow> (NTSTATUS \<times> mem) option" where
  "RtlCopyPrivilegeSet DestinationPrivilegeSetLength DestinationPrivilegeSet SourcePrivilegeSet = do {
     len \<leftarrow> RtlLengthPrivilegeSet SourcePrivilegeSet;
     if DestinationPrivilegeSetLength < len then Some (STATUS_BUFFER_TOO_SMALL, DestinationPrivilegeSet)
     else do {
       d \<leftarrow> memcpy DestinationPrivilegeSet 0 SourcePrivilegeSet 0 (unat len);
       Some (STATUS_SUCCESS, d)
     }
   }"

text \<open>The inner loop of the check, from an assigned privilege on, for the required privilege at an index.  The state is
  the number of privileges still needed and the set; \<^term>\<open>True\<close> first means that the loop was left.\<close>

fun check_assigned_loop :: "mem \<Rightarrow> nat \<Rightarrow> nat \<Rightarrow> nat \<Rightarrow> ULONG \<times> mem \<Rightarrow> (bool \<times> ULONG \<times> mem) option" where
  "check_assigned_loop privs iRequired iAssigned 0 (needed, rp) = Some (False, needed, rp)"
| "check_assigned_loop privs iRequired iAssigned (Suc n) (needed, rp) = do {
     r \<leftarrow> rd_priv rp (8 + 12 * iRequired);
     p \<leftarrow> rd_priv privs (12 * iAssigned);
     if RtlEqualLuid (la_Luid r) (la_Luid p)
     then do {
       control \<leftarrow> rd32 rp 4;
       if la_Attributes p AND SE_PRIVILEGE_ENABLED \<noteq> 0
       then do {
         let needed = (if needed > 0 then needed - 1 else needed);
         let needed = (if control AND PRIVILEGE_SET_ALL_NECESSARY = 0 then 0 else needed);
         rp \<leftarrow> wr_priv rp (8 + 12 * iRequired) (r\<lparr>la_Attributes := la_Attributes r OR SE_PRIVILEGE_USED_FOR_ACCESS\<rparr>);
         check_assigned_loop privs iRequired (Suc iAssigned) n (needed, rp)
       }
       else if control AND PRIVILEGE_SET_ALL_NECESSARY \<noteq> 0 then Some (True, needed, rp)
       else check_assigned_loop privs iRequired (Suc iAssigned) n (needed, rp)
     }
     else check_assigned_loop privs iRequired (Suc iAssigned) n (needed, rp)
   }"

fun check_required_loop :: "mem \<Rightarrow> nat \<Rightarrow> nat \<Rightarrow> nat \<Rightarrow> ULONG \<times> mem \<Rightarrow> (ULONG \<times> mem) option" where
  "check_required_loop privs assigned iRequired 0 s = Some s"
| "check_required_loop privs assigned iRequired (Suc n) s = do {
     (left, s) \<leftarrow> check_assigned_loop privs iRequired 0 assigned s;
     if left then Some s else check_required_loop privs assigned (Suc iRequired) n s
   }"

definition RtlPrivilegeCheck :: "mem \<Rightarrow> ACCESS_TOKEN \<Rightarrow> (bool \<times> mem) option" where
  "RtlPrivilegeCheck RequiredPrivileges AccessToken = do {
     count \<leftarrow> rd32 RequiredPrivileges 0;
     (needed, rp) \<leftarrow> check_required_loop (tk_Privileges AccessToken) (unat (tk_PrivilegeCount AccessToken)) 0
       (unat count) (count, RequiredPrivileges);
     Some (needed = 0, rp)
   }"

text \<open>The results are the status, the buffer and the size that the buffer needs so far.\<close>

definition RtlpAppendTokenPrivileges ::
    "mem option \<Rightarrow> ULONG \<Rightarrow> LUID_AND_ATTRIBUTES \<Rightarrow> ULONG \<Rightarrow> (NTSTATUS \<times> mem option \<times> ULONG) option" where
  "RtlpAppendTokenPrivileges Buffer BufferLength AppendPrivilege Index =
    (let bufferUsed = 4 + 12 * (Index + 1) in
     if bufferUsed \<le> BufferLength
     then do {
       b \<leftarrow> Buffer;
       b \<leftarrow> wr_priv b (4 + 12 * unat Index) AppendPrivilege;
       b \<leftarrow> wr32 b 0 (Index + 1);
       Some (STATUS_SUCCESS, Some b, bufferUsed)
     }
     else Some (STATUS_BUFFER_TOO_SMALL, Buffer, bufferUsed))"

text \<open>The variables of the adjustment: the array and its count, the buffer for the previous state, the index and the size
  of that buffer, the number of adjusted privileges and the status.\<close>

record ADJUST =
  ad_privs :: mem
  ad_count :: ULONG
  ad_prev :: "mem option"
  ad_returned :: ULONG
  ad_used :: ULONG
  ad_adjusted :: ULONG
  ad_status :: NTSTATUS

text \<open>One privilege is saved and, when that succeeds, its attributes are changed.\<close>

definition adjust_attributes ::
    "ULONG \<Rightarrow> (ULONG \<Rightarrow> ULONG) \<Rightarrow> nat \<Rightarrow> ADJUST \<Rightarrow> ADJUST option" where
  "adjust_attributes BufferLength change i st = do {
     p \<leftarrow> rd_priv (ad_privs st) (12 * i);
     (status, prev, used) \<leftarrow> RtlpAppendTokenPrivileges (ad_prev st) BufferLength p (ad_returned st);
     let st = st\<lparr>ad_prev := prev, ad_used := used, ad_status := status, ad_returned := ad_returned st + 1\<rparr>;
     if status = STATUS_SUCCESS
     then do {
       m \<leftarrow> wr_priv (ad_privs st) (12 * i) (p\<lparr>la_Attributes := change (la_Attributes p)\<rparr>);
       Some (st\<lparr>ad_privs := m, ad_adjusted := ad_adjusted st + 1\<rparr>)
     }
     else Some st
   }"

text \<open>The count of adjusted privileges is not read after all privileges are disabled.\<close>

fun disable_all_loop :: "ULONG \<Rightarrow> nat \<Rightarrow> nat \<Rightarrow> ADJUST \<Rightarrow> ADJUST option" where
  "disable_all_loop BufferLength i 0 st = Some st"
| "disable_all_loop BufferLength i (Suc n) st = do {
     st \<leftarrow> adjust_attributes BufferLength (\<lambda>a. ClearFlag a SE_PRIVILEGE_ENABLED) i st;
     disable_all_loop BufferLength (Suc i) n st
   }"

text \<open>The number of bytes moved is that of the source, \<^verbatim>\<open>sizeof(p[0]) * count - index - 1\<close>.\<close>

definition remove_privilege :: "nat \<Rightarrow> ADJUST \<Rightarrow> ADJUST option" where
  "remove_privilege i st = do {
     let count = unat (ad_count st);
     m \<leftarrow> (if i + 1 < count then memmove (ad_privs st) (12 * i) (12 * (i + 1)) (12 * count - i - 1)
           else Some (ad_privs st));
     m \<leftarrow> memset m (12 * (count - 1)) 0 12;
     Some (st\<lparr>ad_privs := m, ad_count := ad_count st - 1, ad_adjusted := ad_adjusted st + 1\<rparr>)
   }"

definition adjust_one :: "ULONG \<Rightarrow> ULONG \<Rightarrow> nat \<Rightarrow> ADJUST \<Rightarrow> ADJUST option" where
  "adjust_one BufferLength attributes i st = do {
     st \<leftarrow> (if attributes = 0 then adjust_attributes BufferLength (\<lambda>a. ClearFlag a SE_PRIVILEGE_ENABLED) i st else Some st);
     st \<leftarrow> (if IsSetFlag attributes SE_PRIVILEGE_ENABLED
            then adjust_attributes BufferLength (\<lambda>a. SetFlag a SE_PRIVILEGE_ENABLED) i st else Some st);
     if IsSetFlag attributes SE_PRIVILEGE_REMOVED then remove_privilege i st else Some st
   }"

text \<open>The search for the assigned privilege; it stops at the first one with the identifier.\<close>

fun adjust_search :: "ULONG \<Rightarrow> LUID_AND_ATTRIBUTES \<Rightarrow> nat \<Rightarrow> nat \<Rightarrow> ADJUST \<Rightarrow> ADJUST option" where
  "adjust_search BufferLength new i 0 st = Some st"
| "adjust_search BufferLength new i (Suc n) st = do {
     p \<leftarrow> rd_priv (ad_privs st) (12 * i);
     if RtlEqualLuid (la_Luid new) (la_Luid p) then adjust_one BufferLength (la_Attributes new) i st
     else adjust_search BufferLength new (Suc i) n st
   }"

fun adjust_loop :: "ULONG \<Rightarrow> mem \<Rightarrow> nat \<Rightarrow> nat \<Rightarrow> ADJUST \<Rightarrow> ADJUST option" where
  "adjust_loop BufferLength NewState i 0 st = Some st"
| "adjust_loop BufferLength NewState i (Suc n) st = do {
     new \<leftarrow> rd_priv NewState (4 + 12 * i);
     st \<leftarrow> adjust_search BufferLength new 0 (unat (ad_count st)) st;
     adjust_loop BufferLength NewState (Suc i) n st
   }"

text \<open>The roll-back: every assigned privilege with the identifier of a saved one takes its attributes.\<close>

fun restore_one :: "LUID_AND_ATTRIBUTES \<Rightarrow> nat \<Rightarrow> nat \<Rightarrow> mem \<Rightarrow> mem option" where
  "restore_one old i 0 m = Some m"
| "restore_one old i (Suc n) m = do {
     p \<leftarrow> rd_priv m (12 * i);
     m \<leftarrow> (if RtlEqualLuid (la_Luid old) (la_Luid p)
           then wr_priv m (12 * i) (p\<lparr>la_Attributes := la_Attributes old\<rparr>) else Some m);
     restore_one old (Suc i) n m
   }"

fun restore_loop :: "mem \<Rightarrow> nat \<Rightarrow> nat \<Rightarrow> nat \<Rightarrow> mem \<Rightarrow> mem option" where
  "restore_loop prev count i 0 m = Some m"
| "restore_loop prev count i (Suc n) m = do {
     old \<leftarrow> rd_priv prev (4 + 12 * i);
     m \<leftarrow> restore_one old 0 count m;
     restore_loop prev count (Suc i) n m
   }"

definition adjust_rollback :: "ULONG \<Rightarrow> ADJUST \<Rightarrow> ADJUST option" where
  "adjust_rollback BufferLength st =
    (case ad_prev st of
       None \<Rightarrow> Some st
     | Some prev \<Rightarrow>
         if ad_used st > BufferLength
         then do {
           n \<leftarrow> rd32 prev 0;
           m \<leftarrow> restore_loop prev (unat (ad_count st)) 0 (unat n) (ad_privs st);
           Some (st\<lparr>ad_privs := m, ad_status := STATUS_BUFFER_TOO_SMALL\<rparr>)
         }
         else Some st)"

text \<open>The body up to the cleanup label.\<close>

definition adjust_body :: "bool \<Rightarrow> mem option \<Rightarrow> ULONG \<Rightarrow> ADJUST \<Rightarrow> ADJUST option" where
  "adjust_body DisableAll NewState BufferLength st =
    (if \<not> DisableAll \<and> NewState = None then Some (st\<lparr>ad_status := STATUS_INVALID_PARAMETER\<rparr>)
     else if NewState = None \<and> BufferLength > 0 then Some (st\<lparr>ad_status := STATUS_INVALID_PARAMETER\<rparr>)
     else if ad_count st = 0 then Some (st\<lparr>ad_status := STATUS_NOT_ALL_ASSIGNED\<rparr>)
     else if DisableAll then disable_all_loop BufferLength 0 (unat (ad_count st)) st
     else do {
       new \<leftarrow> NewState;
       n \<leftarrow> rd32 new 0;
       adjust_loop BufferLength new 0 (unat n) st
     })"

text \<open>The last argument says whether the caller passes a place for the length; the results are the status, the token, the
  buffer for the previous state and the length.\<close>

definition RtlAdjustTokenPrivileges ::
    "ACCESS_TOKEN \<Rightarrow> bool \<Rightarrow> mem option \<Rightarrow> ULONG \<Rightarrow> mem option \<Rightarrow> bool \<Rightarrow>
     (NTSTATUS \<times> ACCESS_TOKEN \<times> mem option \<times> ULONG) option" where
  "RtlAdjustTokenPrivileges AccessToken DisableAll NewState BufferLength PreviousState pReturnedLength = do {
     st \<leftarrow> adjust_body DisableAll NewState BufferLength
       \<lparr> ad_privs = tk_Privileges AccessToken, ad_count = tk_PrivilegeCount AccessToken, ad_prev = PreviousState,
          ad_returned = 0, ad_used = 0, ad_adjusted = 0, ad_status = STATUS_SUCCESS \<rparr>;
     st \<leftarrow> adjust_rollback BufferLength st;
     status \<leftarrow>
       (if ad_status st = STATUS_SUCCESS \<and> \<not> DisableAll
        then do {
          new \<leftarrow> NewState;
          n \<leftarrow> rd32 new 0;
          Some (if ad_adjusted st < n then STATUS_NOT_ALL_ASSIGNED else STATUS_SUCCESS)
        }
        else Some (ad_status st));
     len \<leftarrow>
       (if pReturnedLength
        then Some (if status = STATUS_SUCCESS \<or> status = STATUS_BUFFER_TOO_SMALL \<or> status = STATUS_NOT_ALL_ASSIGNED
                   then ad_used st else 0)
        else None);
     Some (status, AccessToken\<lparr>tk_Privileges := ad_privs st, tk_PrivilegeCount := ad_count st\<rparr>, ad_prev st, len)
   }"

interpretation fpriv: scalar_field enc_priv dec_priv 12 rd_priv wr_priv
proof
  show "enc_priv (dec_priv bs) = bs" if "length bs = 12" for bs
    using that enc32_dec32[of "take 4 bs"] enc32_dec32[of "take 4 (drop 4 bs)"] enc32_dec32[of "drop 8 bs"]
      append_take_drop_id[of 4 bs] append_take_drop_id[of 4 "drop 4 bs"]
    by (simp add: enc_priv_def dec_priv_def)
  show "dec_priv (enc_priv p) = p" for p
    by (simp add: enc_priv_def dec_priv_def dec32_enc32)
qed (simp_all add: enc_priv_def rd_priv_def wr_priv_def)

section \<open>The privilege check\<close>

definition pset_bytes :: "ULONG \<Rightarrow> LUID_AND_ATTRIBUTES list \<Rightarrow> mem" where
  "pset_bytes c rs = enc32 (word_of_nat (length rs)) @ enc32 c @ concat (map enc_priv rs)"

text \<open>The token holds an array of privileges with distinct identifiers, and nothing more.\<close>

definition token_privs :: "ACCESS_TOKEN \<Rightarrow> LUID_AND_ATTRIBUTES list \<Rightarrow> bool" where
  "token_privs tok ps \<longleftrightarrow> tk_Privileges tok = concat (map enc_priv ps) \<and> unat (tk_PrivilegeCount tok) = length ps
     \<and> distinct (map la_Luid ps)"

definition priv_enabled :: "LUID_AND_ATTRIBUTES list \<Rightarrow> LUID \<Rightarrow> bool" where
  "priv_enabled ps l \<longleftrightarrow> list_ex (\<lambda>p. la_Luid p = l \<and> la_Attributes p AND SE_PRIVILEGE_ENABLED \<noteq> 0) ps"

definition mark_used :: "LUID_AND_ATTRIBUTES list \<Rightarrow> LUID_AND_ATTRIBUTES \<Rightarrow> LUID_AND_ATTRIBUTES" where
  "mark_used ps r = (if priv_enabled ps (la_Luid r)
     then r\<lparr>la_Attributes := la_Attributes r OR SE_PRIVILEGE_USED_FOR_ACCESS\<rparr> else r)"

text \<open>A required privilege the token holds disabled ends a check of all; one the token does not hold does not.\<close>

definition ends_check :: "ULONG \<Rightarrow> LUID_AND_ATTRIBUTES list \<Rightarrow> LUID_AND_ATTRIBUTES \<Rightarrow> bool" where
  "ends_check c ps r \<longleftrightarrow> c AND PRIVILEGE_SET_ALL_NECESSARY \<noteq> 0 \<and> list_ex (\<lambda>p. la_Luid p = la_Luid r) ps
     \<and> \<not> priv_enabled ps (la_Luid r)"

definition mark_checked :: "ULONG \<Rightarrow> LUID_AND_ATTRIBUTES list \<Rightarrow> LUID_AND_ATTRIBUTES list \<Rightarrow> LUID_AND_ATTRIBUTES list" where
  "mark_checked c ps rs = map (mark_used ps) (takeWhile (\<lambda>r. \<not> ends_check c ps r) rs) @ dropWhile (\<lambda>r. \<not> ends_check c ps r) rs"

lemma RtlEqualLuid_iff [simp]: "RtlEqualLuid l1 l2 \<longleftrightarrow> l1 = l2"
  by (auto simp: RtlEqualLuid_def)

lemma pset_fields:
  "rd32 (pset_bytes c rs @ t) 0 = Some (word_of_nat (length rs))"
  "rd32 (pset_bytes c rs @ t) 4 = Some c"
  "i < length rs \<Longrightarrow> rd_priv (pset_bytes c rs @ t) (8 + 12 * i) = Some (rs ! i)"
  "i < length rs \<Longrightarrow> wr_priv (pset_bytes c rs @ t) (8 + 12 * i) r = Some (pset_bytes c (rs[i := r]) @ t)"
  using fpriv.get_array[of i rs "enc32 (word_of_nat (length rs)) @ enc32 c" t]
    fpriv.put_array[of i rs "enc32 (word_of_nat (length rs)) @ enc32 c" t r]
  by (simp_all add: pset_bytes_def f32.get_append_right)

lemma rd_privs: "i < length ps \<Longrightarrow> rd_priv (concat (map enc_priv ps)) (12 * i) = Some (ps ! i)"
  using fpriv.get_array[of i ps "[]" "[]"] by simp

lemma wr_privs:
  "i < length ps \<Longrightarrow> wr_priv (concat (map enc_priv ps)) (12 * i) p = Some (concat (map enc_priv (ps[i := p])))"
  using fpriv.put_array[of i ps "[]" "[]"] by simp

definition use_one :: "ULONG \<Rightarrow> ULONG \<Rightarrow> ULONG" where
  "use_one c needed = (if c AND PRIVILEGE_SET_ALL_NECESSARY = 0 then 0 else if needed > 0 then needed - 1 else needed)"

lemma check_assigned_loop_correct:
  assumes "distinct (map la_Luid ps)" and "i \<le> length ps" and "j < length rs"
  shows "check_assigned_loop (concat (map enc_priv ps)) j i (length ps - i) (needed, pset_bytes c rs @ t) = Some
    (case find (\<lambda>p. la_Luid p = la_Luid (rs ! j)) (drop i ps) of
       None \<Rightarrow> (False, needed, pset_bytes c rs @ t)
     | Some p \<Rightarrow>
         if la_Attributes p AND SE_PRIVILEGE_ENABLED \<noteq> 0
         then (False, use_one c needed,
           pset_bytes c (rs[j := (rs ! j)\<lparr>la_Attributes := la_Attributes (rs ! j) OR SE_PRIVILEGE_USED_FOR_ACCESS\<rparr>]) @ t)
         else (c AND PRIVILEGE_SET_ALL_NECESSARY \<noteq> 0, needed, pset_bytes c rs @ t))"
  using assms(2,3)
proof (induction "length ps - i" arbitrary: i rs needed)
  case (Suc k)
  then have i: "i < length ps" and k: "length ps - i = Suc k" "k = length ps - Suc i"
    by auto
  have d: "drop i ps = ps ! i # drop (Suc i) ps"
    using i by (simp add: Cons_nth_drop_Suc)
  have later: "find (\<lambda>p. la_Luid p = la_Luid (ps ! i)) (drop (Suc i) ps) = None"
    using assms(1) d unfolding find_None_iff
    by (metis append_take_drop_id distinct.simps(2) distinct_append image_eqI list.set_map list.simps(9) map_append)
  have IH: "j < length rs' \<Longrightarrow> check_assigned_loop (concat (map enc_priv ps)) j (Suc i) k (n', pset_bytes c rs' @ t) = Some
    (case find (\<lambda>p. la_Luid p = la_Luid (rs' ! j)) (drop (Suc i) ps) of
       None \<Rightarrow> (False, n', pset_bytes c rs' @ t)
     | Some p \<Rightarrow>
         if la_Attributes p AND SE_PRIVILEGE_ENABLED \<noteq> 0
         then (False, use_one c n',
           pset_bytes c (rs'[j := (rs' ! j)\<lparr>la_Attributes := la_Attributes (rs' ! j) OR SE_PRIVILEGE_USED_FOR_ACCESS\<rparr>]) @ t)
         else (c AND PRIVILEGE_SET_ALL_NECESSARY \<noteq> 0, n', pset_bytes c rs' @ t))" for rs' n'
    using Suc.hyps(1)[OF k(2)] i k(2) by simp
  show ?case
    using IH[of rs needed] IH[of "rs[j := (rs ! j)\<lparr>la_Attributes := la_Attributes (rs ! j) OR SE_PRIVILEGE_USED_FOR_ACCESS\<rparr>]"]
      later i Suc.prems(2)
    by (simp add: k(1) d pset_fields rd_privs Let_def use_one_def)
qed simp

lemma priv_enabled_find:
  assumes "distinct (map la_Luid ps)"
  shows "priv_enabled ps l \<longleftrightarrow>
    (case find (\<lambda>p. la_Luid p = l) ps of None \<Rightarrow> False | Some p \<Rightarrow> la_Attributes p AND SE_PRIVILEGE_ENABLED \<noteq> 0)"
  using assms
proof (induction ps)
  case (Cons p ps)
  have "\<not> priv_enabled ps (la_Luid p)"
    using Cons.prems by (auto simp: priv_enabled_def list_ex_iff image_iff)
  then show ?case
    using Cons by (auto simp: priv_enabled_def)
qed (simp add: priv_enabled_def)

lemma ends_check_find:
  assumes "distinct (map la_Luid ps)"
  shows "ends_check c ps r \<longleftrightarrow>
    (\<exists>p. find (\<lambda>p. la_Luid p = la_Luid r) ps = Some p \<and> la_Attributes p AND SE_PRIVILEGE_ENABLED = 0
       \<and> c AND PRIVILEGE_SET_ALL_NECESSARY \<noteq> 0)"
proof (cases "find (\<lambda>p. la_Luid p = la_Luid r) ps")
  case None
  then have "\<not> list_ex (\<lambda>p. la_Luid p = la_Luid r) ps"
    by (auto simp: find_None_iff list_ex_iff)
  then show ?thesis
    using None by (simp add: ends_check_def)
next
  case (Some p)
  then have "list_ex (\<lambda>p. la_Luid p = la_Luid r) ps"
    by (auto simp: find_Some_iff list_ex_iff)
  then show ?thesis
    using Some priv_enabled_find[OF assms, of "la_Luid r"] by (auto simp: ends_check_def)
qed

text \<open>How many privileges are still needed after the first ones are looked up.\<close>

definition still_needed :: "ULONG \<Rightarrow> (LUID_AND_ATTRIBUTES \<Rightarrow> bool) \<Rightarrow> LUID_AND_ATTRIBUTES list \<Rightarrow> nat \<Rightarrow> ULONG" where
  "still_needed c found rs j =
    (if c AND PRIVILEGE_SET_ALL_NECESSARY = 0 then if list_ex found (take j rs) then 0 else word_of_nat (length rs)
     else word_of_nat (length rs - length (filter found (take j rs))))"

lemma still_needed_step:
  assumes "j < length rs" and "length rs < 2 ^ 32"
  shows "still_needed c found rs (Suc j) =
    (if found (rs ! j) then use_one c (still_needed c found rs j) else still_needed c found rs j)"
proof -
  have f: "length (filter found (take j rs)) < length rs"
    using assms(1) length_filter_le[of found "take j rs"] by simp
  then have "unat (word_of_nat (length rs - length (filter found (take j rs))) :: ULONG) = length rs - length (filter found (take j rs))"
    using assms(2) by (intro unat_of_nat_small) simp
  then have "(0 :: ULONG) < word_of_nat (length rs - length (filter found (take j rs)))"
    using f by (simp add: word_less_nat_alt)
  moreover have "(word_of_nat (length rs - length (filter found (take j rs))) :: ULONG) - 1 =
      word_of_nat (length rs - Suc (length (filter found (take j rs))))"
    using f by (simp add: of_nat_diff)
  ultimately show ?thesis
    using assms(1) by (simp add: still_needed_def use_one_def take_Suc_conv_app_nth)
qed

lemma still_needed_end:
  assumes "length rs < 2 ^ 32"
  shows "still_needed c found rs (length rs) = 0 \<longleftrightarrow>
      (if c AND PRIVILEGE_SET_ALL_NECESSARY = 0 then rs = [] \<or> list_ex found rs else list_all found rs)"
    and "c AND PRIVILEGE_SET_ALL_NECESSARY \<noteq> 0 \<Longrightarrow> j < length rs \<Longrightarrow> still_needed c found rs j \<noteq> 0"
proof -
  have z: "word_of_nat n = (0 :: ULONG) \<longleftrightarrow> n = 0" if "n \<le> length rs" for n
  proof -
    have u: "unat (word_of_nat n :: ULONG) = n"
      using that assms by (intro unat_of_nat_small) simp
    have "n = 0" if "word_of_nat n = (0 :: ULONG)"
      using u unfolding that by simp
    then show ?thesis
      by auto
  qed
  have all: "length rs - length (filter found rs) = 0 \<longleftrightarrow> list_all found rs"
  proof (cases "list_all found rs")
    case False
    then obtain r where "r \<in> set rs" "\<not> found r"
      by (auto simp: list_all_iff)
    then show ?thesis
      using length_filter_less[of r rs found] False by simp
  qed (simp add: list_all_iff)
  show "still_needed c found rs (length rs) = 0 \<longleftrightarrow>
      (if c AND PRIVILEGE_SET_ALL_NECESSARY = 0 then rs = [] \<or> list_ex found rs else list_all found rs)"
    using z[of "length rs"] z[of "length rs - length (filter found rs)"] all
    by (simp add: still_needed_def del: of_nat_diff)
  show "still_needed c found rs j \<noteq> 0" if "c AND PRIVILEGE_SET_ALL_NECESSARY \<noteq> 0" "j < length rs"
    using that length_filter_le[of found "take j rs"] z[of "length rs - length (filter found (take j rs))"]
    by (simp add: still_needed_def del: of_nat_diff)
qed

lemma marked_update:
  assumes "j < length rs"
  shows "(map f (take j rs) @ drop j rs)[j := f (rs ! j)] = map f (take (Suc j) rs) @ drop (Suc j) rs"
    and "(map f (take j rs) @ drop j rs) ! j = rs ! j"
  using assms Cons_nth_drop_Suc[of j rs, symmetric]
  by (simp_all add: take_Suc_conv_app_nth list_update_append nth_append)

lemma check_required_loop_correct:
  assumes "distinct (map la_Luid ps)" and "length rs < 2 ^ 32" and "j \<le> length rs"
  shows "\<exists>needed. check_required_loop (concat (map enc_priv ps)) (length ps) j (length rs - j)
      (still_needed c (\<lambda>r. priv_enabled ps (la_Luid r)) rs j, pset_bytes c (map (mark_used ps) (take j rs) @ drop j rs) @ t) =
      Some (needed, pset_bytes c (map (mark_used ps) (take j rs) @ mark_checked c ps (drop j rs)) @ t)
    \<and> (needed = 0 \<longleftrightarrow> still_needed c (\<lambda>r. priv_enabled ps (la_Luid r)) rs (length rs) = 0)"
  using assms(3)
proof (induction "length rs - j" arbitrary: j)
  case 0
  then show ?case
    by (intro exI[of _ "still_needed c (\<lambda>r. priv_enabled ps (la_Luid r)) rs (length rs)"]) (simp add: mark_checked_def)
next
  case (Suc n)
  then have j: "j < length rs" and n: "length rs - j = Suc n" "n = length rs - Suc j"
    by auto
  let ?found = "\<lambda>r. priv_enabled ps (la_Luid r)" and ?L = "\<lambda>j. map (mark_used ps) (take j rs) @ drop j rs"
  let ?lookup = "find (\<lambda>p. la_Luid p = la_Luid (rs ! j)) ps"
  note step = check_assigned_loop_correct[OF assms(1), of 0 j "?L j" "still_needed c ?found rs j" c t]
    marked_update[OF j, of "mark_used ps"] still_needed_step[OF j assms(2), of c ?found]
    priv_enabled_find[OF assms(1), of "la_Luid (rs ! j)"]
  have same: "(?L j)[j := rs ! j] = ?L j"
    using list_update_id[of "?L j" j] marked_update(2)[OF j] by metis
  note IH = Suc.hyps(1)[OF n(2), unfolded n(2)[symmetric]]
  note ends = ends_check_find[OF assms(1), of c]
  show ?case
  proof (cases "\<exists>p. ?lookup = Some p \<and> la_Attributes p AND SE_PRIVILEGE_ENABLED = 0 \<and> c AND PRIVILEGE_SET_ALL_NECESSARY \<noteq> 0")
    case True
    then have "\<not> list_all ?found rs"
      using step j by (auto simp: list_all_length)
    moreover have "mark_checked c ps (drop j rs) = drop j rs"
      using True step(5) ends[of "rs ! j"] Cons_nth_drop_Suc[OF j, symmetric] by (simp add: mark_checked_def)
    ultimately show ?thesis
      using True step j still_needed_end(2)[OF assms(2) _ j, of c ?found] still_needed_end(1)[OF assms(2), of c ?found]
      by (intro exI[of _ "still_needed c ?found rs j"]) (auto simp: n(1))
  next
    case False
    have "check_assigned_loop (concat (map enc_priv ps)) j 0 (length ps) (still_needed c ?found rs j, pset_bytes c (?L j) @ t) =
        Some (False, still_needed c ?found rs (Suc j), pset_bytes c (?L (Suc j)) @ t)"
      using False step j same by (auto simp: mark_used_def split: option.splits)
    moreover have "mark_checked c ps (drop j rs) = mark_used ps (rs ! j) # mark_checked c ps (drop (Suc j) rs)"
      using False ends[of "rs ! j"] Cons_nth_drop_Suc[OF j, symmetric] by (simp add: mark_checked_def)
    ultimately show ?thesis
      using IH j by (simp add: n(1) take_Suc_conv_app_nth)
  qed
qed

lemma RtlPrivilegeCheck_correct:
  assumes "token_privs tok ps" and "length rs < 2 ^ 32"
  shows "RtlPrivilegeCheck (pset_bytes c rs @ t) tok =
      Some (if c AND PRIVILEGE_SET_ALL_NECESSARY = 0 then rs = [] \<or> list_ex (\<lambda>r. priv_enabled ps (la_Luid r)) rs
            else list_all (\<lambda>r. priv_enabled ps (la_Luid r)) rs,
        pset_bytes c (mark_checked c ps rs) @ t)"
proof -
  have u: "unat (word_of_nat (length rs) :: ULONG) = length rs"
    using assms(2) by (intro unat_of_nat_small) simp
  let ?found = "\<lambda>r. priv_enabled ps (la_Luid r)"
  have "still_needed c ?found rs 0 = word_of_nat (length rs)"
    by (simp add: still_needed_def)
  then obtain needed where k: "check_required_loop (concat (map enc_priv ps)) (length ps) 0 (length rs)
      (word_of_nat (length rs), pset_bytes c rs @ t) = Some (needed, pset_bytes c (mark_checked c ps rs) @ t)"
    "needed = 0 \<longleftrightarrow> still_needed c ?found rs (length rs) = 0"
    using check_required_loop_correct[of ps rs 0 c t] assms by (auto simp: token_privs_def)
  have "RtlPrivilegeCheck (pset_bytes c rs @ t) tok = Some (needed = 0, pset_bytes c (mark_checked c ps rs) @ t)"
    using k(1) assms(1) u by (simp add: RtlPrivilegeCheck_def pset_fields token_privs_def del: append_assoc)
  then show ?thesis
    unfolding k(2) still_needed_end(1)[OF assms(2)] .
qed

section \<open>Adjusting privileges\<close>

definition tp_bytes :: "LUID_AND_ATTRIBUTES list \<Rightarrow> mem" where
  "tp_bytes ps = enc32 (word_of_nat (length ps)) @ concat (map enc_priv ps)"

text \<open>The buffer for the previous state after some privileges were saved in it.\<close>

definition saved_bytes :: "mem \<Rightarrow> LUID_AND_ATTRIBUTES list \<Rightarrow> mem" where
  "saved_bytes b0 ps = (if ps = [] then b0 else tp_bytes ps @ drop (4 + 12 * length ps) b0)"

definition capacity :: "ULONG \<Rightarrow> nat" where
  "capacity BufferLength = (unat BufferLength - 4) div 12"

lemma tp_fields:
  "rd32 (tp_bytes ps @ t) 0 = Some (word_of_nat (length ps))"
  "i < length ps \<Longrightarrow> rd_priv (tp_bytes ps @ t) (4 + 12 * i) = Some (ps ! i)"
  using fpriv.get_array[of i ps "enc32 (word_of_nat (length ps))" t] by (simp_all add: tp_bytes_def)

lemma saved_append:
  assumes "4 + 12 * Suc (length ps) \<le> length b0"
  shows "\<exists>b. wr_priv (saved_bytes b0 ps) (4 + 12 * length ps) p = Some b
    \<and> wr32 b 0 (word_of_nat (length ps) + 1) = Some (saved_bytes b0 (ps @ [p]))"
proof -
  have l: "length (concat (map enc_priv ps)) = 12 * length ps" "length (enc_priv p) = 12"
    by (simp_all add: fpriv.array_length fpriv.enc_length)
  have "length (saved_bytes b0 ps) = length b0"
    using assms l by (simp add: saved_bytes_def tp_bytes_def)
  moreover have "drop 4 (take (4 + 12 * length ps) (saved_bytes b0 ps)) = concat (map enc_priv ps)"
    using assms l by (simp add: saved_bytes_def tp_bytes_def)
  moreover have "drop (4 + 12 * Suc (length ps)) (saved_bytes b0 ps) = drop (4 + 12 * Suc (length ps)) b0"
    using assms l by (simp add: saved_bytes_def tp_bytes_def add.commute)
  ultimately show ?thesis
    using assms l by (simp add: wr_priv_def wr32_def wrn_def saved_bytes_def tp_bytes_def add.commute)
qed

lemma capacity_iff:
  assumes "n < 2 ^ 28"
  shows "4 + 12 * (word_of_nat n + 1) \<le> (B :: ULONG) \<longleftrightarrow> n < capacity B"
    and "unat (4 + 12 * (word_of_nat n + 1) :: ULONG) = 4 + 12 * Suc n"
proof -
  have "4 + 12 * (word_of_nat n + 1) = (word_of_nat (4 + 12 * Suc n) :: ULONG)"
    by simp
  then show u: "unat (4 + 12 * (word_of_nat n + 1) :: ULONG) = 4 + 12 * Suc n"
    using assms unat_of_nat_small[of "4 + 12 * Suc n", where 'a = 32] by simp
  show "4 + 12 * (word_of_nat n + 1) \<le> B \<longleftrightarrow> n < capacity B"
    unfolding word_le_nat_alt u capacity_def by (simp add: less_eq_div_iff_mult_less_eq Suc_le_eq[symmetric] del: mult_Suc_right) presburger
qed

lemma append_saved:
  assumes "unat B \<le> length b0" and "length S < 2 ^ 28"
  shows "RtlpAppendTokenPrivileges (Some (saved_bytes b0 (take (capacity B) S))) B p (word_of_nat (length S)) =
    Some (if length S < capacity B then STATUS_SUCCESS else STATUS_BUFFER_TOO_SMALL,
      Some (saved_bytes b0 (take (capacity B) (S @ [p]))), word_of_nat (4 + 12 * Suc (length S)))"
proof -
  have u: "unat (word_of_nat (length S) :: ULONG) = length S"
    using assms(2) by (intro unat_of_nat_small) simp
  have w: "4 + 12 * (word_of_nat (length S) + 1) = (word_of_nat (4 + 12 * Suc (length S)) :: ULONG)"
    by simp
  have "4 + 12 * Suc (length S) \<le> length b0" if "length S < capacity B"
    using that assms(1) capacity_iff(1)[OF assms(2), of B] unfolding word_le_nat_alt capacity_iff(2)[OF assms(2)] by simp
  then show ?thesis
    using capacity_iff(1)[OF assms(2), of B] saved_append[of S b0 p] u
    unfolding RtlpAppendTokenPrivileges_def Let_def w
    by (cases "length S < capacity B") (auto simp del: of_nat_add of_nat_mult of_nat_Suc)
qed

text \<open>The variables after the privileges in \<^term>\<open>S\<close> were met, of which the buffer holds the first ones.\<close>

definition adjust_inv ::
    "ULONG \<Rightarrow> mem \<Rightarrow> LUID_AND_ATTRIBUTES list \<Rightarrow> LUID_AND_ATTRIBUTES list \<Rightarrow> ADJUST \<Rightarrow> bool" where
  "adjust_inv B b0 ps S st \<longleftrightarrow>
     ad_privs st = concat (map enc_priv ps) \<and> unat (ad_count st) = length ps
   \<and> ad_prev st = Some (saved_bytes b0 (take (capacity B) S)) \<and> ad_returned st = word_of_nat (length S)
   \<and> ad_used st = (if S = [] then 0 else word_of_nat (4 + 12 * length S))
   \<and> ad_adjusted st = word_of_nat (min (length S) (capacity B))
   \<and> ad_status st = (if length S \<le> capacity B then STATUS_SUCCESS else STATUS_BUFFER_TOO_SMALL)"

lemma adjust_attributes_correct:
  assumes "adjust_inv B b0 ps S st" and "unat B \<le> length b0" and "length S < 2 ^ 28" and "i < length ps"
  shows "\<exists>st'. adjust_attributes B change i st = Some st'
    \<and> adjust_inv B b0 (if length S < capacity B then ps[i := (ps ! i)\<lparr>la_Attributes := change (la_Attributes (ps ! i))\<rparr>] else ps)
        (S @ [ps ! i]) st'"
proof -
  have st: "ad_privs st = concat (map enc_priv ps)" "ad_prev st = Some (saved_bytes b0 (take (capacity B) S))"
    "ad_returned st = word_of_nat (length S)" "ad_adjusted st = word_of_nat (min (length S) (capacity B))"
    using assms(1) by (simp_all add: adjust_inv_def)
  show ?thesis
    using assms(1,4) append_saved[OF assms(2,3), of "ps ! i"]
    by (cases "length S < capacity B") (simp_all add: adjust_attributes_def st rd_privs wr_privs adjust_inv_def)
qed

text \<open>What an adjustment means: the privileges of the token that are named are met in turn, and those that find room in the
  buffer are changed.\<close>

definition set_attributes :: "LUID \<Rightarrow> (ULONG \<Rightarrow> ULONG) \<Rightarrow> LUID_AND_ATTRIBUTES list \<Rightarrow> LUID_AND_ATTRIBUTES list" where
  "set_attributes l change ps = map (\<lambda>p. if la_Luid p = l then p\<lparr>la_Attributes := change (la_Attributes p)\<rparr> else p) ps"

definition new_attributes :: "ULONG \<Rightarrow> ULONG \<Rightarrow> ULONG" where
  "new_attributes a old = (if a = 0 then ClearFlag old SE_PRIVILEGE_ENABLED else SetFlag old SE_PRIVILEGE_ENABLED)"

definition adjusts :: "LUID_AND_ATTRIBUTES \<Rightarrow> bool" where
  "adjusts new \<longleftrightarrow> la_Attributes new = 0 \<or> IsSetFlag (la_Attributes new) SE_PRIVILEGE_ENABLED"

definition adjust_step ::
    "nat \<Rightarrow> LUID_AND_ATTRIBUTES \<Rightarrow> LUID_AND_ATTRIBUTES list \<times> LUID_AND_ATTRIBUTES list \<Rightarrow>
     LUID_AND_ATTRIBUTES list \<times> LUID_AND_ATTRIBUTES list" where
  "adjust_step K new s =
    (case find (\<lambda>p. la_Luid p = la_Luid new) (fst s) of
       None \<Rightarrow> s
     | Some p \<Rightarrow>
         if adjusts new
         then (if length (snd s) < K then set_attributes (la_Luid new) (new_attributes (la_Attributes new)) (fst s) else fst s,
               snd s @ [p])
         else s)"

lemma set_attributes_nth:
  "distinct (map la_Luid ps) \<Longrightarrow> i < length ps \<Longrightarrow>
    set_attributes (la_Luid (ps ! i)) change ps = ps[i := (ps ! i)\<lparr>la_Attributes := change (la_Attributes (ps ! i))\<rparr>]"
  by (rule nth_equalityI) (auto simp: set_attributes_def nth_list_update nth_eq_iff_index_eq distinct_conv_nth)

lemma set_attributes_luids [simp]: "map la_Luid (set_attributes l change ps) = map la_Luid ps"
  by (simp add: set_attributes_def)

lemma set_attributes_length [simp]: "length (set_attributes l change ps) = length ps"
  by (simp add: set_attributes_def)

lemma adjust_step_luids [simp]: "map la_Luid (fst (adjust_step K new s)) = map la_Luid (fst s)"
  by (auto simp: adjust_step_def split: option.splits)

lemma adjust_one_correct:
  assumes "adjust_inv B b0 ps S st" and "unat B \<le> length b0" and "length S < 2 ^ 28" and "i < length ps"
    and "distinct (map la_Luid ps)" and "la_Luid (ps ! i) = la_Luid new" and "\<not> IsSetFlag (la_Attributes new) SE_PRIVILEGE_REMOVED"
  shows "\<exists>st'. adjust_one B (la_Attributes new) i st = Some st'
    \<and> (if adjusts new then adjust_inv B b0 (if length S < capacity B
          then set_attributes (la_Luid new) (new_attributes (la_Attributes new)) ps else ps) (S @ [ps ! i]) st'
       else st' = st)"
proof -
  let ?change = "new_attributes (la_Attributes new)"
  have "?change = (if la_Attributes new = 0 then (\<lambda>a. ClearFlag a SE_PRIVILEGE_ENABLED)
      else (\<lambda>a. SetFlag a SE_PRIVILEGE_ENABLED))"
    by (auto simp: new_attributes_def)
  then have "adjust_one B (la_Attributes new) i st = (if adjusts new then adjust_attributes B ?change i st else Some st)"
    using assms(7) by (auto simp: adjust_one_def adjusts_def IsSetFlag_def)
  then show ?thesis
    using adjust_attributes_correct[OF assms(1-4), of ?change] set_attributes_nth[OF assms(5,4), of ?change, unfolded assms(6)]
    by (cases "adjusts new"; cases "length S < capacity B") simp_all
qed

lemma adjust_search_correct:
  assumes "adjust_inv B b0 ps S st" and "unat B \<le> length b0" and "length S < 2 ^ 28"
    and "distinct (map la_Luid ps)" and "\<not> IsSetFlag (la_Attributes new) SE_PRIVILEGE_REMOVED" and "i \<le> length ps"
  shows "\<exists>st'. adjust_search B new i (length ps - i) st = Some st'
    \<and> (case find (\<lambda>p. la_Luid p = la_Luid new) (drop i ps) of
         None \<Rightarrow> st' = st
       | Some p \<Rightarrow>
           if adjusts new then adjust_inv B b0 (if length S < capacity B
             then set_attributes (la_Luid new) (new_attributes (la_Attributes new)) ps else ps) (S @ [p]) st'
           else st' = st)"
  using assms(6)
proof (induction "length ps - i" arbitrary: i)
  case (Suc k)
  then have i: "i < length ps" and k: "length ps - i = Suc k" "k = length ps - Suc i"
    by auto
  have d: "drop i ps = ps ! i # drop (Suc i) ps"
    using i by (simp add: Cons_nth_drop_Suc)
  have rd: "rd_priv (ad_privs st) (12 * i) = Some (ps ! i)"
    using assms(1) i by (simp add: adjust_inv_def rd_privs)
  show ?case
  proof (cases "la_Luid (ps ! i) = la_Luid new")
    case True
    then show ?thesis
      using adjust_one_correct[OF assms(1-3) i assms(4) True assms(5)] rd by (simp add: k(1) d)
  next
    case False
    then show ?thesis
      using Suc.hyps(1)[OF k(2)] k(2) i rd by (simp add: k(1) d eq_commute[of "la_Luid new"])
  qed
qed simp

lemma adjust_loop_correct:
  assumes "adjust_inv B b0 ps S st" and "unat B \<le> length b0" and "length S + (length ns - i) < 2 ^ 28"
    and "distinct (map la_Luid ps)" and "list_all (\<lambda>new. \<not> IsSetFlag (la_Attributes new) SE_PRIVILEGE_REMOVED) ns"
    and "i \<le> length ns"
  shows "\<exists>st'. adjust_loop B (tp_bytes ns @ t) i (length ns - i) st = Some st'
    \<and> (case fold (adjust_step (capacity B)) (drop i ns) (ps, S) of (ps', S') \<Rightarrow> adjust_inv B b0 ps' S' st')"
  using assms(1,3,4,6)
proof (induction "length ns - i" arbitrary: i ps S st)
  case (Suc k)
  then have i: "i < length ns" and k: "length ns - i = Suc k" "k = length ns - Suc i"
    by auto
  let ?new = "ns ! i"
  have d: "drop i ns = ?new # drop (Suc i) ns"
    using i by (simp add: Cons_nth_drop_Suc)
  have new: "\<not> IsSetFlag (la_Attributes ?new) SE_PRIVILEGE_REMOVED"
    using assms(5) i by (simp add: list_all_length)
  obtain ps1 S1 where s1: "adjust_step (capacity B) ?new (ps, S) = (ps1, S1)"
    by fastforce
  have "unat (ad_count st) = length ps"
    using Suc.prems(1) by (simp add: adjust_inv_def)
  then obtain st1 where st1: "adjust_search B ?new 0 (unat (ad_count st)) st = Some st1" "adjust_inv B b0 ps1 S1 st1"
    using adjust_search_correct[OF Suc.prems(1) assms(2) _ Suc.prems(3) new, of 0] Suc.prems(1,2) s1
    by (auto simp: adjust_step_def split: option.splits if_splits)
  moreover have "length S1 + (length ns - Suc i) < 2 ^ 28" "distinct (map la_Luid ps1)"
    using Suc.prems(2,3) s1 i adjust_step_luids[of "capacity B" ?new "(ps, S)"]
    by (auto simp: adjust_step_def split: option.splits if_splits)
  ultimately show ?case
    using Suc.hyps(1)[OF k(2), of ps1 S1 st1] i s1 by (simp add: k d tp_fields)
qed simp

text \<open>The same for a new state that names each privilege once: which privileges are met, and the new privileges.\<close>

definition named :: "LUID_AND_ATTRIBUTES list \<Rightarrow> LUID_AND_ATTRIBUTES list \<Rightarrow> LUID_AND_ATTRIBUTES list" where
  "named ns ps = List.map_filter (\<lambda>new. if adjusts new then find (\<lambda>p. la_Luid p = la_Luid new) ps else None) ns"

definition adjusted :: "LUID_AND_ATTRIBUTES list \<Rightarrow> LUID_AND_ATTRIBUTES \<Rightarrow> LUID_AND_ATTRIBUTES" where
  "adjusted ns p =
    (case find (\<lambda>new. adjusts new \<and> la_Luid new = la_Luid p) ns of
       None \<Rightarrow> p
     | Some new \<Rightarrow> p\<lparr>la_Attributes := new_attributes (la_Attributes new) (la_Attributes p)\<rparr>)"

definition restored :: "LUID_AND_ATTRIBUTES list \<Rightarrow> LUID_AND_ATTRIBUTES \<Rightarrow> LUID_AND_ATTRIBUTES" where
  "restored saved p =
    (case find (\<lambda>old. la_Luid old = la_Luid p) saved of
       None \<Rightarrow> p | Some old \<Rightarrow> p\<lparr>la_Attributes := la_Attributes old\<rparr>)"

lemma find_set_attributes:
  "l \<noteq> l' \<Longrightarrow> find (\<lambda>p. la_Luid p = l') (set_attributes l change ps) = find (\<lambda>p. la_Luid p = l') ps"
  by (induction ps) (auto simp: set_attributes_def)

lemma named_set_attributes: "l \<notin> la_Luid ` set ns \<Longrightarrow> named ns (set_attributes l change ps) = named ns ps"
  by (induction ns) (auto simp: named_def map_filter_simps find_set_attributes split: option.splits)

lemma adjust_step_cases:
  "adjust_step K new (ps, S) =
    (case if adjusts new then find (\<lambda>p. la_Luid p = la_Luid new) ps else None of
       None \<Rightarrow> (ps, S)
     | Some p \<Rightarrow> (if length S < K then set_attributes (la_Luid new) (new_attributes (la_Attributes new)) ps else ps, S @ [p]))"
  by (simp add: adjust_step_def split: option.splits)

lemma adjusted_Cons:
  assumes "la_Luid new \<notin> la_Luid ` set ns" and "adjusts new"
  shows "map (adjusted ns) (set_attributes (la_Luid new) (new_attributes (la_Attributes new)) ps) = map (adjusted (new # ns)) ps"
proof -
  have "find (\<lambda>n. adjusts n \<and> la_Luid n = la_Luid new) ns = None"
    using assms(1) unfolding find_None_iff by (metis image_eqI)
  then show ?thesis
    using assms(2) by (auto simp: set_attributes_def adjusted_def)
qed

lemma adjusted_skip:
  "(if adjusts new then find (\<lambda>p. la_Luid p = la_Luid new) ps else None) = None \<Longrightarrow>
    map (adjusted (new # ns)) ps = map (adjusted ns) ps"
  by (auto simp: adjusted_def find_None_iff split: if_splits)

lemma fold_adjust_room:
  "distinct (map la_Luid ns) \<Longrightarrow> length S + length (named ns ps) \<le> K \<Longrightarrow>
    fold (adjust_step K) ns (ps, S) = (map (adjusted ns) ps, S @ named ns ps)"
proof (induction ns arbitrary: ps S)
  case Nil
  have "adjusted [] = id"
    by (auto simp: adjusted_def)
  then show ?case
    by (simp add: named_def map_filter_simps)
next
  case (Cons new ns)
  show ?case
  proof (cases "if adjusts new then find (\<lambda>p. la_Luid p = la_Luid new) ps else None")
    case None
    then show ?thesis
      using Cons.IH[of S ps] Cons.prems adjusted_skip[OF None, of ns]
      by (simp only: fold.simps comp_def adjust_step_cases None) (simp add: named_def map_filter_simps None)
  next
    case (Some p)
    let ?ps = "set_attributes (la_Luid new) (new_attributes (la_Attributes new)) ps"
    have a: "adjusts new"
      using Some by (auto split: if_splits)
    have n: "named (new # ns) ps = p # named ns ?ps"
      using Some Cons.prems(1) by (simp add: named_set_attributes) (simp add: named_def map_filter_simps a)
    then show ?thesis
      using Cons.IH[of "S @ [p]" ?ps] Cons.prems adjusted_Cons[OF _ a, of ns ps]
      by (simp only: fold.simps comp_def adjust_step_cases Some) (simp add: n)
  qed
qed

lemma snd_fold_adjust:
  "distinct (map la_Luid ns) \<Longrightarrow> snd (fold (adjust_step K) ns (ps, S)) = S @ named ns ps"
proof (induction ns arbitrary: ps S)
  case (Cons new ns)
  then show ?case
    by (cases "if adjusts new then find (\<lambda>p. la_Luid p = la_Luid new) ps else None")
      (auto simp: adjust_step_cases named_def map_filter_simps named_set_attributes[unfolded named_def])
qed (simp add: named_def map_filter_simps)

lemma restored_step:
  assumes "distinct (map la_Luid ps)" and "find (\<lambda>p. la_Luid p = l) ps = Some p" and "l \<notin> la_Luid ` set S"
  shows "map (restored (S @ [p])) (set_attributes l change ps) = map (restored S) ps"
proof -
  have l: "la_Luid p = l" "p \<in> set ps"
    using assms(2) by (auto simp: find_Some_iff)
  have none: "find (\<lambda>old. la_Luid old = l) S = None"
    using assms(3) unfolding find_None_iff by (metis image_eqI)
  have app: "find P (xs @ ys) = (case find P xs of None \<Rightarrow> find P ys | Some x \<Rightarrow> Some x)"
    for P and xs ys :: "LUID_AND_ATTRIBUTES list"
    by (induction xs) auto
  have "q = p" if "q \<in> set ps" "la_Luid q = l" for q
    using assms(1) that l by (metis distinct_map inj_onD)
  then show ?thesis
    using l(1) none by (auto simp: set_attributes_def restored_def app split: option.splits)
qed

lemma fold_adjust_restored:
  "distinct (map la_Luid ns) \<Longrightarrow> distinct (map la_Luid ps) \<Longrightarrow> la_Luid ` set S \<inter> la_Luid ` set ns = {} \<Longrightarrow>
    map (restored (take K (S @ named ns ps))) (fst (fold (adjust_step K) ns (ps, S))) = map (restored (take K S)) ps"
proof (induction ns arbitrary: ps S)
  case (Cons new ns)
  show ?case
  proof (cases "if adjusts new then find (\<lambda>p. la_Luid p = la_Luid new) ps else None")
    case None
    then show ?thesis
      using Cons.IH[of ps S] Cons.prems
      by (simp only: fold.simps comp_def adjust_step_cases None) (simp add: named_def map_filter_simps None)
  next
    case (Some p)
    let ?ps = "if length S < K then set_attributes (la_Luid new) (new_attributes (la_Attributes new)) ps else ps"
    have f: "find (\<lambda>p. la_Luid p = la_Luid new) ps = Some p"
      using Some by (simp split: if_splits)
    then have p: "la_Luid p = la_Luid new"
      by (auto simp: find_Some_iff)
    have "distinct (map la_Luid ?ps)"
      using Cons.prems(2) by simp
    moreover have "named ns ?ps = named ns ps"
      using Cons.prems(1) by (simp add: named_set_attributes)
    moreover have "named (new # ns) ps = p # named ns ps"
      using Some by (simp add: named_def map_filter_simps)
    ultimately have "map (restored (take K (S @ named (new # ns) ps))) (fst (fold (adjust_step K) (new # ns) (ps, S))) =
        map (restored (take K (S @ [p]))) ?ps"
      using Cons.IH[of ?ps "S @ [p]"] Cons.prems(1,3) p
      by (simp only: fold.simps comp_def adjust_step_cases Some) simp
    then show ?thesis
      using restored_step[OF Cons.prems(2) f, of S] Cons.prems(3) by auto
  qed
qed (simp add: named_def map_filter_simps)

lemma restore_one_correct:
  "i \<le> length ps \<Longrightarrow> restore_one old i (length ps - i) (concat (map enc_priv ps)) =
    Some (concat (map enc_priv (take i ps @ map (restored [old]) (drop i ps))))"
proof (induction "length ps - i" arbitrary: i ps)
  case (Suc k)
  then have i: "i < length ps" and k: "length ps - i = Suc k" "k = length ps - Suc i"
    by auto
  let ?ps = "ps[i := restored [old] (ps ! i)]"
  have d: "drop i ps = ps ! i # drop (Suc i) ps"
    using i by (simp add: Cons_nth_drop_Suc)
  have "restore_one old (Suc i) k (concat (map enc_priv ?ps)) =
      Some (concat (map enc_priv (take (Suc i) ?ps @ map (restored [old]) (drop (Suc i) ?ps))))"
    using Suc.hyps(1)[of ?ps "Suc i"] k(2) i by simp
  moreover have "take (Suc i) ?ps = take i ps @ [restored [old] (ps ! i)]" "drop (Suc i) ?ps = drop (Suc i) ps"
    using i by (simp_all add: take_Suc_conv_app_nth)
  moreover have "restored [old] (ps ! i) = ps ! i" if "la_Luid old \<noteq> la_Luid (ps ! i)"
    using that by (simp add: restored_def)
  moreover have "restored [old] (ps ! i) = (ps ! i)\<lparr>la_Attributes := la_Attributes old\<rparr>" if "la_Luid old = la_Luid (ps ! i)"
    using that by (simp add: restored_def)
  ultimately show ?case
    using i by (cases "la_Luid old = la_Luid (ps ! i)") (simp_all add: k(1) d rd_privs wr_privs)
qed simp

lemma restored_Cons:
  assumes "la_Luid old \<notin> la_Luid ` set saved"
  shows "restored saved (restored [old] p) = restored (old # saved) p"
proof -
  have "find (\<lambda>o'. la_Luid o' = la_Luid old) saved = None"
    using assms unfolding find_None_iff by (metis image_eqI)
  then show ?thesis
    by (auto simp: restored_def split: option.splits)
qed

lemma restore_loop_correct:
  "distinct (map la_Luid saved) \<Longrightarrow> i \<le> length saved \<Longrightarrow>
    restore_loop (tp_bytes saved @ r) (length ps) i (length saved - i) (concat (map enc_priv ps)) =
      Some (concat (map enc_priv (map (restored (drop i saved)) ps)))"
proof (induction "length saved - i" arbitrary: i ps)
  case 0
  have "restored [] = id"
    by (auto simp: restored_def)
  then show ?case
    using 0 by simp
next
  case (Suc k)
  then have i: "i < length saved" and k: "length saved - i = Suc k" "k = length saved - Suc i"
    by auto
  have d: "drop i saved = saved ! i # drop (Suc i) saved"
    using i by (simp add: Cons_nth_drop_Suc)
  then have "la_Luid (saved ! i) \<notin> la_Luid ` set (drop (Suc i) saved)"
    using Suc.prems(1) distinct_drop[of "map la_Luid saved" i] by (simp add: drop_map)
  then have Cons: "restored (drop (Suc i) saved) \<circ> restored [saved ! i] = restored (drop i saved)"
    by (auto simp: restored_Cons d)
  then show ?case
    using Suc.hyps(1)[OF k(2), of "map (restored [saved ! i]) ps"] Suc.prems(1) i restore_one_correct[of 0 ps "saved ! i"]
    by (simp add: k(1) tp_fields Cons) (simp add: k(2))
qed

lemma adjust_init:
  assumes "token_privs tok ps"
  shows "adjust_inv B b0 ps [] \<lparr> ad_privs = tk_Privileges tok, ad_count = tk_PrivilegeCount tok, ad_prev = Some b0,
      ad_returned = 0, ad_used = 0, ad_adjusted = 0, ad_status = STATUS_SUCCESS \<rparr>"
  using assms by (simp add: adjust_inv_def token_privs_def saved_bytes_def)

lemma adjust_used:
  assumes "adjust_inv B b0 ps S st" and "length S < 2 ^ 28"
  shows "ad_used st > B \<longleftrightarrow> capacity B < length S"
proof (cases S)
  case (Cons p S')
  then show ?thesis
    using assms capacity_iff(1)[of "length S'" B] by (auto simp: adjust_inv_def not_le[symmetric])
qed (use assms in \<open>simp add: adjust_inv_def\<close>)

lemma named_luids:
  "map la_Luid (named ns ps) =
    map la_Luid (filter (\<lambda>new. adjusts new \<and> la_Luid new \<in> la_Luid ` set ps) ns)"
proof (induction ns)
  case (Cons new ns)
  show ?case
  proof (cases "find (\<lambda>p. la_Luid p = la_Luid new) ps")
    case None
    then have "la_Luid new \<notin> la_Luid ` set ps"
      by (auto simp: find_None_iff)
    then show ?thesis
      using Cons None by (simp add: named_def map_filter_simps)
  next
    case (Some p)
    then have "la_Luid p = la_Luid new" "p \<in> set ps"
      by (auto simp: find_Some_iff)
    then have "la_Luid p = la_Luid new" "la_Luid new \<in> la_Luid ` set ps"
      by (metis, metis image_eqI)
    then show ?thesis
      using Cons Some by (simp add: named_def map_filter_simps)
  qed
qed (simp add: named_def map_filter_simps)

lemma named_length: "length (named ns ps) \<le> length ns"
  using arg_cong[OF named_luids, of length ns ps] by (simp add: le_trans[OF _ length_filter_le])

lemma fold_adjust_luids: "map la_Luid (fst (fold (adjust_step K) ns s)) = map la_Luid (fst s)"
  by (induction ns arbitrary: s) simp_all

lemma adjust_body_correct:
  assumes "token_privs tok ps" and "ps \<noteq> []" and "unat B \<le> length b0" and "length ns < 2 ^ 28"
    and "list_all (\<lambda>new. \<not> IsSetFlag (la_Attributes new) SE_PRIVILEGE_REMOVED) ns" and "distinct (map la_Luid ns)"
  shows "\<exists>st ps'. adjust_body False (Some (tp_bytes ns @ t)) B
      \<lparr> ad_privs = tk_Privileges tok, ad_count = tk_PrivilegeCount tok, ad_prev = Some b0,
        ad_returned = 0, ad_used = 0, ad_adjusted = 0, ad_status = STATUS_SUCCESS \<rparr> = Some st
    \<and> adjust_inv B b0 ps' (named ns ps) st \<and> fold (adjust_step (capacity B)) ns (ps, []) = (ps', named ns ps)"
proof -
  obtain ps' where f: "fold (adjust_step (capacity B)) ns (ps, []) = (ps', named ns ps)"
    using snd_fold_adjust[OF assms(6), of "capacity B" ps "[]"] by (metis append_Nil prod.collapse)
  have u: "unat (word_of_nat (length ns) :: ULONG) = length ns"
    using assms(4) by (intro unat_of_nat_small) simp
  have "tk_PrivilegeCount tok \<noteq> 0"
    using assms(1,2) by (auto simp: token_privs_def)
  then show ?thesis
    using adjust_loop_correct[OF adjust_init[OF assms(1), of B b0] assms(3) _ _ assms(5), of 0 t] assms(1,4) f u
    by (simp add: adjust_body_def tp_fields token_privs_def)
qed

lemma RtlAdjustTokenPrivileges_room:
  assumes "token_privs tok ps" and "ps \<noteq> []" and "unat B \<le> length b0" and "length ns < 2 ^ 28"
    and "list_all (\<lambda>new. \<not> IsSetFlag (la_Attributes new) SE_PRIVILEGE_REMOVED) ns" and "distinct (map la_Luid ns)"
    and "length (named ns ps) \<le> capacity B"
  shows "RtlAdjustTokenPrivileges tok False (Some (tp_bytes ns @ t)) B (Some b0) True =
    Some (if length (named ns ps) < length ns then STATUS_NOT_ALL_ASSIGNED else STATUS_SUCCESS,
      tok\<lparr>tk_Privileges := concat (map enc_priv (map (adjusted ns) ps))\<rparr>, Some (saved_bytes b0 (named ns ps)),
      if named ns ps = [] then 0 else word_of_nat (4 + 12 * length (named ns ps)))"
proof -
  obtain st ps' where st: "adjust_body False (Some (tp_bytes ns @ t)) B
      \<lparr> ad_privs = tk_Privileges tok, ad_count = tk_PrivilegeCount tok, ad_prev = Some b0,
        ad_returned = 0, ad_used = 0, ad_adjusted = 0, ad_status = STATUS_SUCCESS \<rparr> = Some st"
    and inv: "adjust_inv B b0 ps' (named ns ps) st" and f: "fold (adjust_step (capacity B)) ns (ps, []) = (ps', named ns ps)"
    using adjust_body_correct[OF assms(1-6)] by blast
  have small: "length (named ns ps) < 2 ^ 28"
    using named_length[of ns ps] assms(4) by simp
  have ps': "ps' = map (adjusted ns) ps"
    using fold_adjust_room[OF assms(6), of "[]" ps "capacity B"] assms(7) f by simp
  have "adjust_rollback B st = Some st"
    using adjust_used[OF inv small] inv assms(7) by (simp add: adjust_rollback_def adjust_inv_def)
  moreover have "(word_of_nat (length (named ns ps)) < (word_of_nat (length ns) :: ULONG)) \<longleftrightarrow> length (named ns ps) < length ns"
    using small assms(4) by (simp add: word_less_nat_alt unat_of_nat_small)
  moreover have "ad_count st = tk_PrivilegeCount tok"
    using inv assms(1) ps' by (simp add: adjust_inv_def token_privs_def word_unat_eq_iff)
  ultimately show ?thesis
    using st inv assms(7) ps'
    by (simp add: RtlAdjustTokenPrivileges_def adjust_inv_def tp_fields)
qed

lemma RtlAdjustTokenPrivileges_rollback:
  assumes "token_privs tok ps" and "ps \<noteq> []" and "unat B \<le> length b0" and "length ns < 2 ^ 28"
    and "list_all (\<lambda>new. \<not> IsSetFlag (la_Attributes new) SE_PRIVILEGE_REMOVED) ns" and "distinct (map la_Luid ns)"
    and "capacity B < length (named ns ps)" and "0 < capacity B"
  shows "RtlAdjustTokenPrivileges tok False (Some (tp_bytes ns @ t)) B (Some b0) True =
    Some (STATUS_BUFFER_TOO_SMALL, tok, Some (saved_bytes b0 (take (capacity B) (named ns ps))),
      word_of_nat (4 + 12 * length (named ns ps)))"
proof -
  let ?saved = "take (capacity B) (named ns ps)"
  obtain st ps' where st: "adjust_body False (Some (tp_bytes ns @ t)) B
      \<lparr> ad_privs = tk_Privileges tok, ad_count = tk_PrivilegeCount tok, ad_prev = Some b0,
        ad_returned = 0, ad_used = 0, ad_adjusted = 0, ad_status = STATUS_SUCCESS \<rparr> = Some st"
    and inv: "adjust_inv B b0 ps' (named ns ps) st" and f: "fold (adjust_step (capacity B)) ns (ps, []) = (ps', named ns ps)"
    using adjust_body_correct[OF assms(1-6)] by blast
  have small: "length (named ns ps) < 2 ^ 28"
    using named_length[of ns ps] assms(4) by simp
  have nil: "restored [] = id"
    by (auto simp: restored_def)
  have luids: "map la_Luid ps' = map la_Luid ps" "length ps' = length ps"
    using fold_adjust_luids[of "capacity B" ns "(ps, [])"] f by (simp_all add: map_equality_iff)
  have d: "distinct (map la_Luid ?saved)"
    using assms(6) named_luids[of ns ps] by (simp add: take_map[symmetric] distinct_map_filter)
  have u: "unat (word_of_nat (capacity B) :: ULONG) = capacity B" and l: "length ?saved = capacity B" "?saved \<noteq> []"
    using small assms(7,8) by (auto intro!: unat_of_nat_small)
  have undo: "map (restored ?saved) ps' = ps"
    using fold_adjust_restored[OF assms(6), of ps "[]" "capacity B"] assms(1) f nil by (simp add: token_privs_def)
  have "rd32 (saved_bytes b0 ?saved) 0 = Some (word_of_nat (capacity B))"
    using l tp_fields(1)[of ?saved] by (simp add: saved_bytes_def)
  then have "adjust_rollback B st = Some (st\<lparr>ad_privs := concat (map enc_priv ps), ad_status := STATUS_BUFFER_TOO_SMALL\<rparr>)"
    using adjust_used[OF inv small] inv assms(7) restore_loop_correct[OF d, of 0 _ ps', unfolded drop_0 undo] l u
    by (simp add: adjust_rollback_def adjust_inv_def saved_bytes_def)
  moreover have "ad_count st = tk_PrivilegeCount tok" "tk_Privileges tok = concat (map enc_priv ps)"
    using inv assms(1) luids by (simp_all add: adjust_inv_def token_privs_def word_unat_eq_iff)
  ultimately show ?thesis
    using st inv assms(7) by (auto simp: RtlAdjustTokenPrivileges_def adjust_inv_def)
qed

section \<open>Calls that do not do what they ask for\<close>

text \<open>Without room for one privilege nothing was saved, and the roll-back reads what the caller's buffer held before.\<close>

lemma fold_adjust_none: "distinct (map la_Luid ns) \<Longrightarrow> fst (fold (adjust_step 0) ns (ps, S)) = ps"
proof (induction ns arbitrary: S)
  case (Cons new ns)
  then show ?case
    by (cases "if adjusts new then find (\<lambda>p. la_Luid p = la_Luid new) ps else None") (simp_all add: adjust_step_cases)
qed simp

lemma adjust_stale_buffer:
  assumes "token_privs tok ps" and "ps \<noteq> []" and "unat B \<le> length (tp_bytes old @ r)" and "length ns < 2 ^ 28"
    and "list_all (\<lambda>new. \<not> IsSetFlag (la_Attributes new) SE_PRIVILEGE_REMOVED) ns" and "distinct (map la_Luid ns)"
    and "named ns ps \<noteq> []" and "capacity B = 0" and "distinct (map la_Luid old)" and "length old < 2 ^ 32"
  shows "RtlAdjustTokenPrivileges tok False (Some (tp_bytes ns @ t)) B (Some (tp_bytes old @ r)) True =
    Some (STATUS_BUFFER_TOO_SMALL, tok\<lparr>tk_Privileges := concat (map enc_priv (map (restored old) ps))\<rparr>,
      Some (tp_bytes old @ r), word_of_nat (4 + 12 * length (named ns ps)))"
proof -
  obtain st ps' where st: "adjust_body False (Some (tp_bytes ns @ t)) B
      \<lparr> ad_privs = tk_Privileges tok, ad_count = tk_PrivilegeCount tok, ad_prev = Some (tp_bytes old @ r),
        ad_returned = 0, ad_used = 0, ad_adjusted = 0, ad_status = STATUS_SUCCESS \<rparr> = Some st"
    and inv: "adjust_inv B (tp_bytes old @ r) ps' (named ns ps) st"
    and f: "fold (adjust_step (capacity B)) ns (ps, []) = (ps', named ns ps)"
    using adjust_body_correct[OF assms(1-6)] by blast
  have small: "length (named ns ps) < 2 ^ 28"
    using named_length[of ns ps] assms(4) by simp
  have ps': "ps' = ps"
    using fold_adjust_none[OF assms(6), of ps "[]"] f assms(8) by simp
  have u: "unat (word_of_nat (length old) :: ULONG) = length old"
    using assms(10) by (intro unat_of_nat_small) simp
  have "adjust_rollback B st = Some (st\<lparr>ad_privs := concat (map enc_priv (map (restored old) ps)), ad_status := STATUS_BUFFER_TOO_SMALL\<rparr>)"
    using adjust_used[OF inv small] inv assms(7,8) restore_loop_correct[OF assms(9), of 0 r ps] u
    by (simp add: adjust_rollback_def adjust_inv_def ps' saved_bytes_def tp_fields)
  moreover have "ad_count st = tk_PrivilegeCount tok"
    using inv assms(1) ps' by (simp add: adjust_inv_def token_privs_def word_unat_eq_iff)
  ultimately show ?thesis
    using st inv assms(7,8) by (auto simp: RtlAdjustTokenPrivileges_def adjust_inv_def saved_bytes_def)
qed

lemma disable_all_no_buffer:
  "i + n < 2 ^ 28 \<Longrightarrow> 12 * (i + n) \<le> length (ad_privs st) \<Longrightarrow> ad_prev st = None \<Longrightarrow> ad_returned st = word_of_nat i \<Longrightarrow>
    \<exists>st'. disable_all_loop 0 i n st = Some st' \<and> ad_privs st' = ad_privs st \<and> ad_count st' = ad_count st \<and> ad_prev st' = None
      \<and> (0 < n \<longrightarrow> ad_status st' = STATUS_BUFFER_TOO_SMALL \<and> ad_used st' = 4 + 12 * word_of_nat (i + n))"
proof (induction n arbitrary: i st)
  case (Suc n)
  obtain p where p: "rd_priv (ad_privs st) (12 * i) = Some p"
    using fpriv.get_defined[of "ad_privs st" "12 * i"] Suc.prems(2) by auto
  let ?st = "st\<lparr>ad_prev := None, ad_used := 4 + 12 * (word_of_nat i + 1), ad_status := STATUS_BUFFER_TOO_SMALL, ad_returned := word_of_nat i + 1\<rparr>"
  have "\<not> 4 + 12 * (word_of_nat i + 1) \<le> (0 :: ULONG)"
    using capacity_iff(1)[of i 0] Suc.prems(1) by (simp add: capacity_def)
  then have "adjust_attributes 0 change i st = Some ?st" for change
    using p Suc.prems(3,4) by (simp add: adjust_attributes_def RtlpAppendTokenPrivileges_def Let_def)
  then show ?case
    using Suc.IH[of "Suc i" ?st] Suc.prems by (cases n) (auto simp: algebra_simps)
qed simp

lemma disable_all_ineffective:
  assumes "token_privs tok ps" and "ps \<noteq> []" and "length ps < 2 ^ 28"
  shows "RtlAdjustTokenPrivileges tok True None 0 None True =
    Some (STATUS_BUFFER_TOO_SMALL, tok, None, 4 + 12 * word_of_nat (length ps))"
proof -
  have "12 * length ps \<le> length (tk_Privileges tok)" "unat (tk_PrivilegeCount tok) = length ps" "tk_PrivilegeCount tok \<noteq> 0"
    using assms(1,2) by (auto simp: token_privs_def fpriv.array_length)
  then show ?thesis
    using disable_all_no_buffer[of 0 "length ps" "\<lparr> ad_privs = tk_Privileges tok, ad_count = tk_PrivilegeCount tok, ad_prev = None,
          ad_returned = 0, ad_used = 0, ad_adjusted = 0, ad_status = STATUS_SUCCESS \<rparr>"] assms(2,3)
    by (auto simp: RtlAdjustTokenPrivileges_def adjust_body_def adjust_rollback_def)
qed

lemma remove_overrun:
  assumes "token_privs tok ps" and "i + 1 < length ps"
  shows "RtlAdjustTokenPrivileges tok False (Some (tp_bytes [\<lparr> la_Luid = la_Luid (ps ! i), la_Attributes = SE_PRIVILEGE_REMOVED \<rparr>])) B
    prev ret = None"
proof -
  let ?new = "\<lparr> la_Luid = la_Luid (ps ! i), la_Attributes = SE_PRIVILEGE_REMOVED \<rparr>"
  have rem: "remove_privilege i st = None" if "ad_privs st = concat (map enc_priv ps)" "unat (ad_count st) = length ps" for st
    using that assms(2) by (simp add: remove_privilege_def memmove_def rdn_def fpriv.array_length)
  have "adjust_search B ?new j (length ps - j) st = None"
    if "ad_privs st = concat (map enc_priv ps)" "unat (ad_count st) = length ps" "j \<le> i" for j st
    using that(3)
  proof (induction "i - j" arbitrary: j)
    case 0
    then show ?case
      using that(1,2) assms(2) rem by (auto simp: Suc_diff_Suc[symmetric] rd_privs adjust_one_def IsSetFlag_def)
  next
    case (Suc k)
    then have "la_Luid (ps ! i) \<noteq> la_Luid (ps ! j)"
      using assms by (auto simp: token_privs_def distinct_conv_nth)
    then show ?case
      using Suc.hyps(1)[of "Suc j"] Suc that(1) assms(2) by (auto simp: Suc_diff_Suc[symmetric] rd_privs)
  qed
  from this[of _ 0] have "adjust_search B ?new 0 (length ps) st = None"
    if "ad_privs st = concat (map enc_priv ps)" "unat (ad_count st) = length ps" for st
    using that by simp
  then show ?thesis
    using assms tp_fields(1)[of "[?new]" "[]"] tp_fields(2)[of 0 "[?new]" "[]"]
    by (auto simp: RtlAdjustTokenPrivileges_def adjust_body_def token_privs_def)
qed

section \<open>Properties\<close>

text \<open>A token with one enabled and one disabled privilege.\<close>

definition sample_privs :: "LUID_AND_ATTRIBUTES list" where
  "sample_privs = [\<lparr> la_Luid = RtlConvertUlongToLuid 7, la_Attributes = 2 \<rparr>, \<lparr> la_Luid = RtlConvertUlongToLuid 8, la_Attributes = 0 \<rparr>]"

definition sample_priv_token :: ACCESS_TOKEN where
  "sample_priv_token = sample_token\<lparr>tk_PrivilegeCount := 2, tk_Privileges := concat (map enc_priv sample_privs)\<rparr>"

lemma sample_priv_token_privs: "token_privs sample_priv_token sample_privs"
  by (simp add: token_privs_def sample_priv_token_def sample_privs_def RtlConvertUlongToLuid_def)



text \<open>C16. An adjustment of a token that has at least one privilege and whose privileges have distinct
  identifiers.  When the new state names each privilege once and removes none, and the caller has a place for the
  returned length and room for the previous state, the call enables and disables exactly the privileges it names,
  leaves the others, returns the privileges as they were before together with the size they take, and reports whether
  every one it names was adjusted.\<close>

theorem privilege_adjust_exact:
  assumes "token_privs tok ps" and "ps \<noteq> []" and "unat B \<le> length b0" and "length ns < 2 ^ 28"
    and "list_all (\<lambda>new. \<not> IsSetFlag (la_Attributes new) SE_PRIVILEGE_REMOVED) ns" and "distinct (map la_Luid ns)"
    and "length (named ns ps) \<le> capacity B"
  shows "RtlAdjustTokenPrivileges tok False (Some (tp_bytes ns @ t)) B (Some b0) True =
    Some (if length (named ns ps) < length ns then STATUS_NOT_ALL_ASSIGNED else STATUS_SUCCESS,
      tok\<lparr>tk_Privileges := concat (map enc_priv (map (adjusted ns) ps))\<rparr>, Some (saved_bytes b0 (named ns ps)),
      if named ns ps = [] then 0 else word_of_nat (4 + 12 * length (named ns ps)))"
  by (rule RtlAdjustTokenPrivileges_room[OF assms])

theorem privilege_adjust_exact_witness:
  "RtlAdjustTokenPrivileges sample_priv_token False
      (Some (tp_bytes [\<lparr> la_Luid = RtlConvertUlongToLuid 8, la_Attributes = 2 \<rparr>])) 16 (Some (replicate 16 0)) True =
    Some (STATUS_SUCCESS, sample_priv_token\<lparr>tk_Privileges := concat (map enc_priv
        [\<lparr> la_Luid = RtlConvertUlongToLuid 7, la_Attributes = 2 \<rparr>, \<lparr> la_Luid = RtlConvertUlongToLuid 8, la_Attributes = 2 \<rparr>])\<rparr>,
      Some (tp_bytes [\<lparr> la_Luid = RtlConvertUlongToLuid 8, la_Attributes = 0 \<rparr>]), 16)"
proof -
  let ?ns = "[\<lparr> la_Luid = RtlConvertUlongToLuid 8, la_Attributes = 2 \<rparr>]"
  have "named ?ns sample_privs = [\<lparr> la_Luid = RtlConvertUlongToLuid 8, la_Attributes = 0 \<rparr>]"
    "map (adjusted ?ns) sample_privs = [\<lparr> la_Luid = RtlConvertUlongToLuid 7, la_Attributes = 2 \<rparr>,
       \<lparr> la_Luid = RtlConvertUlongToLuid 8, la_Attributes = 2 \<rparr>]" "sample_privs \<noteq> []"
    by (simp_all add: named_def map_filter_simps adjusted_def adjusts_def sample_privs_def RtlConvertUlongToLuid_def
        new_attributes_def IsSetFlag_def SetFlag_def)
  then show ?thesis
    using privilege_adjust_exact[OF sample_priv_token_privs, of 16 "replicate 16 0" ?ns "[]"]
    by (simp add: capacity_def saved_bytes_def IsSetFlag_def)
qed

text \<open>C17. Under the same conditions on the token and the new state, when the buffer for the previous state has
  room for at least one but not for all of the privileges that would change, the call fails with the size it needs and
  leaves the token exactly as it was.  Without room for even one the call reads what the buffer held before, which is
  not covered here.\<close>

theorem privilege_adjust_rollback:
  assumes "token_privs tok ps" and "ps \<noteq> []" and "unat B \<le> length b0" and "length ns < 2 ^ 28"
    and "list_all (\<lambda>new. \<not> IsSetFlag (la_Attributes new) SE_PRIVILEGE_REMOVED) ns" and "distinct (map la_Luid ns)"
    and "capacity B < length (named ns ps)" and "0 < capacity B"
  shows "RtlAdjustTokenPrivileges tok False (Some (tp_bytes ns @ t)) B (Some b0) True =
    Some (STATUS_BUFFER_TOO_SMALL, tok, Some (saved_bytes b0 (take (capacity B) (named ns ps))),
      word_of_nat (4 + 12 * length (named ns ps)))"
  by (rule RtlAdjustTokenPrivileges_rollback[OF assms])

theorem privilege_adjust_rollback_witness:
  "\<exists>prev. RtlAdjustTokenPrivileges sample_priv_token False
      (Some (tp_bytes (map (\<lambda>p. p\<lparr>la_Attributes := 2\<rparr>) sample_privs))) 20 (Some (replicate 20 0)) True =
    Some (STATUS_BUFFER_TOO_SMALL, sample_priv_token, prev, 28)"
proof -
  let ?ns = "map (\<lambda>p. p\<lparr>la_Attributes := 2\<rparr>) sample_privs"
  have "length (named ?ns sample_privs) = 2" "sample_privs \<noteq> []" "length ?ns = 2" "distinct (map la_Luid ?ns)"
    "list_all (\<lambda>new. \<not> IsSetFlag (la_Attributes new) SE_PRIVILEGE_REMOVED) ?ns"
    by (simp_all add: named_def map_filter_simps adjusts_def sample_privs_def RtlConvertUlongToLuid_def IsSetFlag_def)
  then show ?thesis
    using privilege_adjust_rollback[OF sample_priv_token_privs, of 20 "replicate 20 0" ?ns "[]"]
    by (simp add: capacity_def)
qed

text \<open>C38. Three uses the interface offers do not work.  Without a place for the returned length the function has no
  defined result.  Disabling all privileges without a buffer for the previous state fails and disables none.  Removing a
  privilege that is not the last one moves bytes from beyond the end of the array.\<close>

theorem privilege_adjust_defects:
  assumes "token_privs tok ps" and "ps \<noteq> []" and "length ps < 2 ^ 28" and "i + 1 < length ps"
  shows "RtlAdjustTokenPrivileges tok dis new B prev False = None
    \<and> RtlAdjustTokenPrivileges tok True None 0 None True =
        Some (STATUS_BUFFER_TOO_SMALL, tok, None, 4 + 12 * word_of_nat (length ps))
    \<and> RtlAdjustTokenPrivileges tok False
        (Some (tp_bytes [\<lparr> la_Luid = la_Luid (ps ! i), la_Attributes = SE_PRIVILEGE_REMOVED \<rparr>])) B prev True = None"
proof -
  have "RtlAdjustTokenPrivileges tok dis new B prev False = None"
    unfolding RtlAdjustTokenPrivileges_def by (simp add: bind_eq_None_conv)
  then show ?thesis
    using disable_all_ineffective[OF assms(1-3)] remove_overrun[OF assms(1,4)] by blast
qed

theorem privilege_adjust_defects_witness:
  "RtlAdjustTokenPrivileges sample_priv_token True None 0 None True = Some (STATUS_BUFFER_TOO_SMALL, sample_priv_token, None, 28)
    \<and> RtlAdjustTokenPrivileges sample_priv_token False (Some (tp_bytes [\<lparr> la_Luid = RtlConvertUlongToLuid 7, la_Attributes = 4 \<rparr>]))
        0 None True = None"
  using privilege_adjust_defects[OF sample_priv_token_privs, of 0 True None 0 None] by (simp add: sample_privs_def)

end
