(* ===== verification/Security_Token_Create.thy ===== *)
theory Security_Token_Create
  imports Security_Privilege
begin

text \<open>
  Creation and query of access tokens: \<^verbatim>\<open>RtlCreateAccessToken\<close> and \<^verbatim>\<open>RtlQueryAccessTokenInformation\<close> of
  \<^verbatim>\<open>security-token.c\<close>.  Both compute the size of one block, then fill it from the front and compare where they end
  with the size.  The model keeps that place as an offset, checks every copy against the size of the block, and returns
  the copied objects.
\<close>

section \<open>Operations\<close>

text \<open>A step that may leave the function with a status.\<close>

definition on_success :: "(NTSTATUS \<times> 'a) option \<Rightarrow> ('a \<Rightarrow> (NTSTATUS \<times> 'a) option) \<Rightarrow> (NTSTATUS \<times> 'a) option" where
  "on_success m f = do { (status, x) \<leftarrow> m; if status \<noteq> STATUS_SUCCESS then Some (status, x) else f x }"

record TOKEN_GROUPS =
  tg_GroupCount :: ULONG
  tg_Groups :: "(mem option \<times> ULONG) list"

record TOKEN_UNIX =
  tu_Uid :: ULONG
  tu_Gid :: ULONG
  tu_Umask :: ULONG

definition RtlpAppendData :: "nat \<Rightarrow> nat \<Rightarrow> mem \<Rightarrow> nat \<Rightarrow> (mem \<times> nat) option" where
  "RtlpAppendData blockSize location Data DataSize = do {
     bs \<leftarrow> rdn Data 0 DataSize;
     if location + DataSize \<le> blockSize then Some (bs, location + DataSize) else None
   }"

fun check_groups :: "(mem option \<times> ULONG) list \<Rightarrow> nat \<Rightarrow> NTSTATUS option" where
  "check_groups gs 0 = Some STATUS_SUCCESS"
| "check_groups [] (Suc n) = None"
| "check_groups ((sid, _) # gs) (Suc n) =
    (case sid of
       None \<Rightarrow> Some STATUS_INVALID_PARAMETER
     | Some s \<Rightarrow> do {
         v \<leftarrow> RtlValidSid (Some s);
         if \<not> v then Some STATUS_INVALID_SID else check_groups gs n
       })"

definition null_or_valid :: "mem option \<Rightarrow> bool option" where
  "null_or_valid sid = (case sid of None \<Rightarrow> Some True | Some s \<Rightarrow> RtlValidSid (Some s))"

text \<open>The checks before the size is computed; the arguments are the user's identifier and attributes, the groups, the
  owner, the primary group and the default list.\<close>

definition token_checks ::
    "mem \<Rightarrow> ULONG \<Rightarrow> TOKEN_GROUPS \<Rightarrow> mem option \<Rightarrow> mem option \<Rightarrow> mem option \<Rightarrow> NTSTATUS option" where
  "token_checks user attributes groups owner primary dacl = do {
     v \<leftarrow> RtlValidSid (Some user);
     v \<leftarrow> (if v then null_or_valid owner else Some False);
     v \<leftarrow> (if v then null_or_valid primary else Some False);
     if \<not> v then Some STATUS_INVALID_SID
     else if attributes \<noteq> 0 then Some STATUS_INVALID_PARAMETER
     else do {
       status \<leftarrow> check_groups (tg_Groups groups) (unat (tg_GroupCount groups));
       if status \<noteq> STATUS_SUCCESS then Some status
       else
         (case dacl of
            None \<Rightarrow> Some STATUS_SUCCESS
          | Some d \<Rightarrow> do {
              (ok, _) \<leftarrow> RtlValidAcl (Some d);
              Some (if ok then STATUS_SUCCESS else STATUS_INVALID_ACL)
            })
     }
   }"

definition add_sid_size :: "ULONG \<Rightarrow> mem option \<Rightarrow> (NTSTATUS \<times> ULONG) option" where
  "add_sid_size requiredSize sid =
    (case sid of
       None \<Rightarrow> Some (STATUS_SUCCESS, requiredSize)
     | Some s \<Rightarrow> do { l \<leftarrow> RtlLengthSid s; Some (LwRtlSafeAddULONG requiredSize l) })"

definition add_acl_size :: "ULONG \<Rightarrow> mem option \<Rightarrow> (NTSTATUS \<times> ULONG) option" where
  "add_acl_size requiredSize acl =
    (case acl of
       None \<Rightarrow> Some (STATUS_SUCCESS, requiredSize)
     | Some a \<Rightarrow> do { l \<leftarrow> acl_AclSize a; Some (LwRtlSafeAddULONG requiredSize (ucast l)) })"

fun add_group_sizes :: "ULONG \<Rightarrow> (mem option \<times> ULONG) list \<Rightarrow> nat \<Rightarrow> (NTSTATUS \<times> ULONG) option" where
  "add_group_sizes requiredSize gs 0 = Some (STATUS_SUCCESS, requiredSize)"
| "add_group_sizes requiredSize [] (Suc n) = None"
| "add_group_sizes requiredSize ((sid, _) # gs) (Suc n) =
    (case sid of
       None \<Rightarrow> None
     | Some s \<Rightarrow> do {
         l \<leftarrow> RtlLengthSid s;
         on_success (Some (LwRtlSafeAddULONG requiredSize l)) (\<lambda>r. add_group_sizes r gs n)
       })"

definition add_array_size :: "ULONG \<Rightarrow> ULONG \<Rightarrow> ULONG \<Rightarrow> (NTSTATUS \<times> ULONG) option" where
  "add_array_size requiredSize width count =
    on_success (Some (LwRtlSafeMultiplyULONG width count)) (\<lambda>size. Some (LwRtlSafeAddULONG requiredSize size))"

definition token_size ::
    "ULONG \<Rightarrow> mem \<Rightarrow> TOKEN_GROUPS \<Rightarrow> mem option \<Rightarrow> mem option \<Rightarrow> mem option \<Rightarrow> mem option \<Rightarrow> (NTSTATUS \<times> ULONG) option" where
  "token_size tokenSize user groups privileges owner primary dacl =
    on_success (add_sid_size tokenSize (Some user)) (\<lambda>r.
    on_success (add_sid_size r owner) (\<lambda>r.
    on_success (add_sid_size r primary) (\<lambda>r.
    on_success (add_acl_size r dacl) (\<lambda>r.
    on_success (add_array_size r 16 (tg_GroupCount groups)) (\<lambda>r.
    on_success (add_group_sizes r (tg_Groups groups) (unat (tg_GroupCount groups))) (\<lambda>r. do {
      p \<leftarrow> privileges;
      count \<leftarrow> rd32 p 0;
      add_array_size r 12 count
    }))))))"

fun copy_groups ::
    "nat \<Rightarrow> nat \<Rightarrow> (mem option \<times> ULONG) list \<Rightarrow> nat \<Rightarrow> (SID_AND_ATTRIBUTES list \<times> nat) option" where
  "copy_groups blockSize location gs 0 = Some ([], location)"
| "copy_groups blockSize location [] (Suc n) = None"
| "copy_groups blockSize location ((sid, attributes) # gs) (Suc n) = do {
     s \<leftarrow> sid;
     l \<leftarrow> RtlLengthSid s;
     (bs, location) \<leftarrow> RtlpAppendData blockSize location s (unat l);
     (out, location) \<leftarrow> copy_groups blockSize location gs n;
     Some (\<lparr> sa_Sid = bs, sa_Attributes = attributes \<rparr> # out, location)
   }"

definition copy_sid :: "nat \<Rightarrow> nat \<Rightarrow> mem option \<Rightarrow> (mem option \<times> nat) option" where
  "copy_sid blockSize location sid =
    (case sid of
       None \<Rightarrow> Some (None, location)
     | Some s \<Rightarrow> do {
         l \<leftarrow> RtlLengthSid s;
         (bs, location) \<leftarrow> RtlpAppendData blockSize location s (unat l);
         Some (Some bs, location)
       })"

definition copy_acl :: "nat \<Rightarrow> nat \<Rightarrow> mem option \<Rightarrow> (mem option \<times> nat) option" where
  "copy_acl blockSize location acl =
    (case acl of
       None \<Rightarrow> Some (None, location)
     | Some a \<Rightarrow> do {
         l \<leftarrow> acl_AclSize a;
         (bs, location) \<leftarrow> RtlpAppendData blockSize location a (unat l);
         Some (Some bs, location)
       })"

text \<open>The block is filled; the results are the token and the place behind the last copy.\<close>

definition token_fill ::
    "nat \<Rightarrow> nat \<Rightarrow> mem \<Rightarrow> ULONG \<Rightarrow> TOKEN_GROUPS \<Rightarrow> mem option \<Rightarrow> mem option \<Rightarrow> mem option \<Rightarrow> mem option \<Rightarrow>
     TOKEN_UNIX option \<Rightarrow> (ACCESS_TOKEN \<times> nat) option" where
  "token_fill requiredSize location user attributes groups privileges owner primary dacl unix = do {
     (u, location) \<leftarrow> copy_sid requiredSize location (Some user);
     u \<leftarrow> u;
     let location = location + 16 * unat (tg_GroupCount groups);
     (gs, location) \<leftarrow> copy_groups requiredSize location (tg_Groups groups) (unat (tg_GroupCount groups));
     p \<leftarrow> privileges;
     count \<leftarrow> rd32 p 0;
     ps \<leftarrow> ptr_add p 4;
     (ps, location) \<leftarrow> RtlpAppendData requiredSize location ps (12 * unat count);
     (ow, location) \<leftarrow> copy_sid requiredSize location owner;
     (gr, location) \<leftarrow> copy_sid requiredSize location primary;
     (da, location) \<leftarrow> copy_acl requiredSize location dacl;
     Some (\<lparr> ReferenceCount = 1,
        tk_Flags = (case unix of None \<Rightarrow> 0 | Some _ \<Rightarrow> SetFlag 0 ACCESS_TOKEN_FLAG_UNIX_PRESENT),
        tk_User = \<lparr> sa_Sid = u, sa_Attributes = attributes \<rparr>,
        tk_GroupCount = tg_GroupCount groups, tk_Groups = gs, tk_PrivilegeCount = count, tk_Privileges = ps,
        tk_Owner = ow, tk_PrimaryGroup = gr, tk_DefaultDacl = da,
        tk_Uid = (case unix of None \<Rightarrow> 0 | Some x \<Rightarrow> tu_Uid x), tk_Gid = (case unix of None \<Rightarrow> 0 | Some x \<Rightarrow> tu_Gid x),
        tk_Umask = (case unix of None \<Rightarrow> 0 | Some x \<Rightarrow> tu_Umask x) \<rparr>, location)
   }"

text \<open>The size of the token structure, which contains a lock of the C library, is a parameter, as are the allocator and
  the outcome of initialising the lock, the status of the failure if there is one.\<close>

definition RtlCreateAccessToken ::
    "(nat \<Rightarrow> bool) \<Rightarrow> ULONG \<Rightarrow> NTSTATUS option \<Rightarrow> (mem option \<times> ULONG) option \<Rightarrow> TOKEN_GROUPS option \<Rightarrow> mem option \<Rightarrow>
     mem option option \<Rightarrow> mem option option \<Rightarrow> mem option option \<Rightarrow> TOKEN_UNIX option \<Rightarrow>
     (NTSTATUS \<times> ACCESS_TOKEN option) option" where
  "RtlCreateAccessToken avail tokenSize lockFailure User Groups Privileges Owner PrimaryGroup DefaultDacl Unix =
    (case (User, Groups, Owner, PrimaryGroup, DefaultDacl) of
       (Some (Some user, attributes), Some groups, Some owner, Some primary, Some dacl) \<Rightarrow> do {
         status \<leftarrow> token_checks user attributes groups owner primary dacl;
         if status \<noteq> STATUS_SUCCESS then Some (status, None)
         else do {
           (status, requiredSize) \<leftarrow> token_size tokenSize user groups Privileges owner primary dacl;
           if status \<noteq> STATUS_SUCCESS then Some (status, None)
           else
               (case RTL_ALLOCATE avail (unat requiredSize) of (status, block) \<Rightarrow>
                  if status \<noteq> STATUS_SUCCESS then Some (status, None)
                  else
                    (case lockFailure of
                       Some e \<Rightarrow> Some (e, None)
                     | None \<Rightarrow> do {
                         (token, location) \<leftarrow> token_fill (unat requiredSize) (unat tokenSize) user attributes groups
                           Privileges owner primary dacl Unix;
                         if location \<noteq> unat requiredSize then Some (STATUS_ASSERTION_FAILURE, None)
                         else Some (STATUS_SUCCESS, Some token)
                       }))
         }
       }
     | _ \<Rightarrow> Some (STATUS_INVALID_PARAMETER, None))"

text \<open>The parts of a token that can be asked for.  When the token has no default list the function writes nothing, and the
  field of the caller's buffer keeps what it held: this is the last case, which is not the same as a NULL field.\<close>

datatype TOKEN_INFO =
    InfoUser SID_AND_ATTRIBUTES
  | InfoGroups ULONG "SID_AND_ATTRIBUTES list"
  | InfoPrivileges ULONG mem
  | InfoOwner "mem option"
  | InfoPrimaryGroup "mem option"
  | InfoDefaultDacl mem
  | InfoUnwritten

abbreviation (input) TokenUser :: ULONG where "TokenUser \<equiv> 1"
abbreviation (input) TokenGroups :: ULONG where "TokenGroups \<equiv> 2"
abbreviation (input) TokenPrivileges :: ULONG where "TokenPrivileges \<equiv> 3"
abbreviation (input) TokenOwner :: ULONG where "TokenOwner \<equiv> 4"
abbreviation (input) TokenPrimaryGroup :: ULONG where "TokenPrimaryGroup \<equiv> 5"
abbreviation (input) TokenDefaultDacl :: ULONG where "TokenDefaultDacl \<equiv> 6"

text \<open>The first switch: the size that is required.\<close>

definition query_size :: "ACCESS_TOKEN \<Rightarrow> ULONG \<Rightarrow> (NTSTATUS \<times> ULONG) option" where
  "query_size tok c =
    (if c = TokenUser then add_sid_size 16 (Some (sa_Sid (tk_User tok)))
     else if c = TokenGroups then
       on_success (Some (LwRtlSafeMultiplyULONG 16 (tk_GroupCount tok))) (\<lambda>r.
       on_success (Some (LwRtlSafeAddULONG r 8)) (\<lambda>r.
         add_group_sizes r (map (\<lambda>g. (Some (sa_Sid g), sa_Attributes g)) (tk_Groups tok)) (unat (tk_GroupCount tok))))
     else if c = TokenPrivileges then
       on_success (Some (LwRtlSafeMultiplyULONG 12 (tk_PrivilegeCount tok))) (\<lambda>r. Some (LwRtlSafeAddULONG r 4))
     else if c = TokenOwner then do { s \<leftarrow> tk_Owner tok; add_sid_size 8 (Some s) }
     else if c = TokenPrimaryGroup then do { s \<leftarrow> tk_PrimaryGroup tok; add_sid_size 8 (Some s) }
     else if c = TokenDefaultDacl then
       (case tk_DefaultDacl tok of
          None \<Rightarrow> Some (LwRtlSafeAddULONG 8 0)
        | Some d \<Rightarrow> add_acl_size 8 (Some d))
     else Some (STATUS_INVALID_PARAMETER, 0))"

text \<open>The second switch: the copy, and the place behind it.\<close>

definition query_copy :: "nat \<Rightarrow> ACCESS_TOKEN \<Rightarrow> ULONG \<Rightarrow> (TOKEN_INFO \<times> nat) option" where
  "query_copy len tok c =
    (if c = TokenUser then do {
       (bs, location) \<leftarrow> copy_sid len 16 (Some (sa_Sid (tk_User tok)));
       bs \<leftarrow> bs;
       Some (InfoUser \<lparr> sa_Sid = bs, sa_Attributes = sa_Attributes (tk_User tok) \<rparr>, location)
     }
     else if c = TokenGroups then do {
       (gs, location) \<leftarrow> copy_groups len (8 + 16 * unat (tk_GroupCount tok))
         (map (\<lambda>g. (Some (sa_Sid g), sa_Attributes g)) (tk_Groups tok)) (unat (tk_GroupCount tok));
       Some (InfoGroups (tk_GroupCount tok) gs, location)
     }
     else if c = TokenPrivileges then do {
       (ps, location) \<leftarrow> RtlpAppendData len 4 (tk_Privileges tok) (12 * unat (tk_PrivilegeCount tok));
       Some (InfoPrivileges (tk_PrivilegeCount tok) ps, location)
     }
     else if c = TokenOwner then do {
       s \<leftarrow> tk_Owner tok;
       (bs, location) \<leftarrow> copy_sid len 8 (Some s);
       Some (InfoOwner bs, location)
     }
     else if c = TokenPrimaryGroup then do {
       s \<leftarrow> tk_PrimaryGroup tok;
       (bs, location) \<leftarrow> copy_sid len 8 (Some s);
       Some (InfoPrimaryGroup bs, location)
     }
     else do {
       (bs, location) \<leftarrow> copy_acl len 8 (tk_DefaultDacl tok);
       Some (case bs of None \<Rightarrow> InfoUnwritten | Some d \<Rightarrow> InfoDefaultDacl d, location)
     })"

text \<open>The argument \<^term>\<open>haveInfo\<close> says whether the caller passes a buffer, which is as long as it says; the results are
  the status, what the buffer holds and the length.\<close>

definition RtlQueryAccessTokenInformation ::
    "ACCESS_TOKEN option \<Rightarrow> ULONG \<Rightarrow> bool \<Rightarrow> ULONG \<Rightarrow> (NTSTATUS \<times> TOKEN_INFO option \<times> ULONG) option" where
  "RtlQueryAccessTokenInformation AccessToken TokenInformationClass haveInfo TokenInformationLength =
    (case AccessToken of
       None \<Rightarrow> Some (STATUS_INVALID_PARAMETER, None, 0)
     | Some tok \<Rightarrow>
         if \<not> haveInfo \<and> TokenInformationLength \<noteq> 0 then Some (STATUS_INVALID_PARAMETER, None, 0)
         else do {
           (status, requiredSize) \<leftarrow> query_size tok TokenInformationClass;
           if status \<noteq> STATUS_SUCCESS then Some (status, None, requiredSize)
           else if requiredSize > TokenInformationLength then Some (STATUS_BUFFER_TOO_SMALL, None, requiredSize)
           else if \<not> haveInfo then Some (STATUS_ASSERTION_FAILURE, None, requiredSize)
           else do {
             (info, location) \<leftarrow> query_copy (unat TokenInformationLength) tok TokenInformationClass;
             Some (if location \<noteq> unat requiredSize then STATUS_ASSERTION_FAILURE else STATUS_SUCCESS, Some info, requiredSize)
           }
         })"

section \<open>Sizes\<close>

text \<open>A size that was summed without loss, or the overflow.\<close>

definition sizes_to :: "(NTSTATUS \<times> ULONG) option \<Rightarrow> nat \<Rightarrow> bool" where
  "sizes_to m n \<longleftrightarrow>
    (if n < 2 ^ 32 then m = Some (STATUS_SUCCESS, word_of_nat n) else (\<exists>v. m = Some (STATUS_INTEGER_OVERFLOW, v)))"

lemma sizes_chain:
  assumes "\<And>n. n < 2 ^ 32 \<Longrightarrow> sizes_to (A (word_of_nat n)) (n + a)" and "\<And>n. n < 2 ^ 32 \<Longrightarrow> sizes_to (B (word_of_nat n)) (n + b)"
    and "n < 2 ^ 32"
  shows "sizes_to (on_success (A (word_of_nat n)) B) (n + (a + b))"
  using assms(1)[OF assms(3)] assms(2)[of "n + a"]
  by (cases "n + a < 2 ^ 32") (auto simp: sizes_to_def on_success_def add.assoc)

lemma sizes_id: "n < 2 ^ 32 \<Longrightarrow> sizes_to (Some (STATUS_SUCCESS, word_of_nat n)) n"
  by (simp add: sizes_to_def)

lemma add_sizes_to:
  assumes "n < 2 ^ 32" and "k < 2 ^ 32"
  shows "sizes_to (Some (LwRtlSafeAddULONG (word_of_nat n) (word_of_nat k))) (n + k)"
proof -
  have "unat (word_of_nat n :: ULONG) = n" "unat (word_of_nat k :: ULONG) = k"
    using assms by (simp_all add: unat_of_nat_small)
  then show ?thesis
    by (simp add: sizes_to_def LwRtlSafeAddULONG_def word_add_overflow_iff Let_def)
qed

lemma mul_sizes_to:
  assumes "a < 2 ^ 32" and "b < 2 ^ 32"
  shows "sizes_to (Some (LwRtlSafeMultiplyULONG (word_of_nat a) (word_of_nat b))) (a * b)"
proof -
  have "unat (word_of_nat a :: ULONG) = a" "unat (word_of_nat b :: ULONG) = b"
    using assms by (simp_all add: unat_of_nat_small)
  moreover have "unat (- 1 :: ULONG) = 2 ^ 32 - 1"
    by (simp add: unsigned_minus_1_eq_mask mask_eq_exp_minus_1)
  ultimately show ?thesis
    by (auto simp: sizes_to_def LwRtlSafeMultiplyULONG_def Let_def)
qed

text \<open>The arguments of a token in memory: each identifier is a valid one, and the sizes of what is copied.\<close>

definition sid_arg :: "mem option \<Rightarrow> SID option \<Rightarrow> bool" where
  "sid_arg m s \<longleftrightarrow>
    (case (m, s) of (None, None) \<Rightarrow> True | (Some m, Some s) \<Rightarrow> sid_of m = Some s \<and> sid_valid s | _ \<Rightarrow> False)"

definition acl_arg :: "mem option \<Rightarrow> mem option \<Rightarrow> bool" where
  "acl_arg m bs \<longleftrightarrow>
    (case (m, bs) of
       (None, None) \<Rightarrow> True
     | (Some m, Some bs) \<Rightarrow> (\<exists>a. acl_at m a \<and> bs = take (unat (acl_size a)) m)
     | _ \<Rightarrow> False)"

definition opt_sid_length :: "SID option \<Rightarrow> nat" where
  "opt_sid_length s = (case s of None \<Rightarrow> 0 | Some s \<Rightarrow> sid_length s)"

definition opt_length :: "mem option \<Rightarrow> nat" where
  "opt_length m = (case m of None \<Rightarrow> 0 | Some m \<Rightarrow> length m)"

lemma sid_arg_length: "sid_arg (Some m) (Some s) \<Longrightarrow> RtlLengthSid m = Some (word_of_nat (sid_length s))"
  by (simp add: sid_arg_def RtlLengthSid_correct)

lemma sid_valid_length: "sid_valid s \<Longrightarrow> sid_length s \<le> 68"
  by (simp add: sid_valid_def sid_length_def)

lemma add_sid_size_correct:
  "sid_arg m s \<Longrightarrow> n < 2 ^ 32 \<Longrightarrow> sizes_to (add_sid_size (word_of_nat n) m) (n + opt_sid_length s)"
  using sid_valid_length[of "the s"]
  by (cases m; cases s) (auto simp: sid_arg_def add_sid_size_def opt_sid_length_def RtlLengthSid_correct sizes_id intro!: add_sizes_to)

lemma acl_at_copy:
  assumes "acl_at m a"
  shows "acl_AclSize m = Some (acl_size a)" and "unat (acl_size a) \<le> length m" and "unat (acl_size a) < 65536"
  using acl_at_fields(2)[OF assms] assms unsigned_less[of "acl_size a", where 'a = nat]
  by (auto simp: acl_at_def)

lemma add_acl_size_correct:
  assumes "acl_arg m bs" and "n < 2 ^ 32"
  shows "sizes_to (add_acl_size (word_of_nat n) m) (n + opt_length bs)"
proof (cases m)
  case None
  then show ?thesis
    using assms by (auto simp: acl_arg_def add_acl_size_def opt_length_def sizes_id split: option.splits)
next
  case (Some d)
  then obtain a where a: "acl_at d a" "bs = Some (take (unat (acl_size a)) d)"
    using assms(1) by (auto simp: acl_arg_def split: option.splits)
  have "(ucast (acl_size a) :: ULONG) = word_of_nat (unat (acl_size a))"
    by simp
  then show ?thesis
    using Some a(2) acl_at_copy[OF a(1)] add_sizes_to[OF assms(2), of "unat (acl_size a)"]
    by (simp add: add_acl_size_def opt_length_def)
qed

lemma add_array_size_correct:
  assumes "n < 2 ^ 32" and "w < 2 ^ 32" and "k < 2 ^ 32"
  shows "sizes_to (add_array_size (word_of_nat n) (word_of_nat w) (word_of_nat k)) (n + w * k)"
  using mul_sizes_to[OF assms(2,3)] add_sizes_to[OF assms(1), of "w * k"]
  by (cases "w * k < 2 ^ 32") (auto simp: add_array_size_def on_success_def sizes_to_def)

definition groups_at :: "TOKEN_GROUPS \<Rightarrow> (SID \<times> ULONG) list \<Rightarrow> bool" where
  "groups_at groups gs \<longleftrightarrow> unat (tg_GroupCount groups) = length gs
     \<and> list_all2 (\<lambda>(m, a) (s, a'). sid_arg m (Some s) \<and> a = a') (tg_Groups groups) gs"

definition groups_length :: "(SID \<times> ULONG) list \<Rightarrow> nat" where
  "groups_length gs = sum_list (map (\<lambda>g. sid_length (fst g)) gs)"

lemma add_group_sizes_correct:
  "list_all2 (\<lambda>(m, a) (s, a'). sid_arg m (Some s) \<and> a = a') ms gs \<Longrightarrow> n < 2 ^ 32 \<Longrightarrow>
    sizes_to (add_group_sizes (word_of_nat n) ms (length gs)) (n + groups_length gs)"
proof (induction ms gs arbitrary: n rule: list_all2_induct)
  case Nil
  then show ?case
    by (simp add: groups_length_def sizes_id)
next
  case (Cons x ms y gs)
  obtain m a s where x: "x = (Some m, a)" "y = (s, a)" "sid_of m = Some s" "sid_valid s"
    using Cons.hyps(1) by (cases x; cases y) (auto simp: sid_arg_def split: option.splits)
  have "sizes_to (on_success (Some (LwRtlSafeAddULONG (word_of_nat n) (word_of_nat (sid_length s))))
      (\<lambda>r. add_group_sizes r ms (length gs))) (n + (sid_length s + groups_length gs))"
    by (rule sizes_chain[where A = "\<lambda>r. Some (LwRtlSafeAddULONG r (word_of_nat (sid_length s)))"])
      (use Cons.IH Cons.prems sid_valid_length[OF x(4)] in \<open>auto intro!: add_sizes_to\<close>)
  then show ?case
    using x by (simp add: RtlLengthSid_correct groups_length_def)
qed

section \<open>Creation\<close>

record TOKEN =
  t_user :: SID
  t_groups :: "(SID \<times> ULONG) list"
  t_privs :: "LUID_AND_ATTRIBUTES list"
  t_owner :: "SID option"
  t_primary :: "SID option"
  t_dacl :: "mem option"
  t_unix :: "TOKEN_UNIX option"

text \<open>The image of a token: every object is exactly its bytes.\<close>

definition token_image :: "TOKEN \<Rightarrow> ACCESS_TOKEN" where
  "token_image T = \<lparr> ReferenceCount = 1, tk_Flags = (case t_unix T of None \<Rightarrow> 0 | Some _ \<Rightarrow> ACCESS_TOKEN_FLAG_UNIX_PRESENT),
     tk_User = \<lparr> sa_Sid = sid_bytes (t_user T), sa_Attributes = 0 \<rparr>,
     tk_GroupCount = word_of_nat (length (t_groups T)),
     tk_Groups = map (\<lambda>g. \<lparr> sa_Sid = sid_bytes (fst g), sa_Attributes = snd g \<rparr>) (t_groups T),
     tk_PrivilegeCount = word_of_nat (length (t_privs T)), tk_Privileges = concat (map enc_priv (t_privs T)),
     tk_Owner = map_option sid_bytes (t_owner T), tk_PrimaryGroup = map_option sid_bytes (t_primary T),
     tk_DefaultDacl = t_dacl T,
     tk_Uid = (case t_unix T of None \<Rightarrow> 0 | Some x \<Rightarrow> tu_Uid x), tk_Gid = (case t_unix T of None \<Rightarrow> 0 | Some x \<Rightarrow> tu_Gid x),
     tk_Umask = (case t_unix T of None \<Rightarrow> 0 | Some x \<Rightarrow> tu_Umask x) \<rparr>"

text \<open>The bytes behind the structure.\<close>

definition token_data_size :: "TOKEN \<Rightarrow> nat" where
  "token_data_size T = sid_length (t_user T) + opt_sid_length (t_owner T) + opt_sid_length (t_primary T)
     + opt_length (t_dacl T) + 16 * length (t_groups T) + groups_length (t_groups T) + 12 * length (t_privs T)"

text \<open>The arguments describe the token.\<close>

definition token_args ::
    "TOKEN \<Rightarrow> mem \<Rightarrow> TOKEN_GROUPS \<Rightarrow> mem \<Rightarrow> mem option \<Rightarrow> mem option \<Rightarrow> mem option \<Rightarrow> TOKEN_UNIX option \<Rightarrow> bool" where
  "token_args T user groups privileges owner primary dacl unix \<longleftrightarrow>
     sid_arg (Some user) (Some (t_user T)) \<and> groups_at groups (t_groups T)
   \<and> (\<exists>r. privileges = tp_bytes (t_privs T) @ r) \<and> length (t_privs T) < 2 ^ 32
   \<and> sid_arg owner (t_owner T) \<and> sid_arg primary (t_primary T) \<and> acl_arg dacl (t_dacl T) \<and> unix = t_unix T"

lemma null_or_valid_correct: "sid_arg m s \<Longrightarrow> null_or_valid m = Some True"
  using RtlValidSid_correct by (cases m; cases s) (auto simp: sid_arg_def null_or_valid_def)

lemma check_groups_correct:
  "list_all2 (\<lambda>(m, a) (s, a'). sid_arg m (Some s) \<and> a = a') ms gs \<Longrightarrow> check_groups ms (length gs) = Some STATUS_SUCCESS"
proof (induction ms gs rule: list_all2_induct)
  case (Cons x ms y gs)
  then show ?case
    using RtlValidSid_correct by (cases x; cases y) (auto simp: sid_arg_def split: option.splits)
qed simp

lemma token_checks_correct:
  assumes "token_args T user groups privileges owner primary dacl unix"
  shows "token_checks user 0 groups owner primary dacl = Some STATUS_SUCCESS"
proof -
  note a = assms[unfolded token_args_def groups_at_def]
  have "RtlValidSid (Some user) = Some True"
    using a RtlValidSid_correct[of user "t_user T"] by (simp add: sid_arg_def)
  moreover have "\<forall>d. dacl = Some d \<longrightarrow> (\<exists>n. RtlValidAcl (Some d) = Some (True, n))"
    using a RtlValidAcl_complete by (fastforce simp: acl_arg_def split: option.splits)
  ultimately show ?thesis
    using a null_or_valid_correct[of owner "t_owner T"] null_or_valid_correct[of primary "t_primary T"]
      check_groups_correct[of "tg_Groups groups" "t_groups T"]
    by (cases dacl) (auto simp: token_checks_def)
qed

lemma token_size_correct:
  assumes "token_args T user groups privileges owner primary dacl unix"
  shows "sizes_to (token_size tokenSize user groups (Some privileges) owner primary dacl) (unat tokenSize + token_data_size T)"
proof -
  note a = assms[unfolded token_args_def groups_at_def]
  have n: "unat tokenSize < 2 ^ 32"
    using unsigned_less[of tokenSize, where 'a = nat] by simp
  have gc: "tg_GroupCount groups = word_of_nat (length (t_groups T))" "length (t_groups T) < 2 ^ 32"
    using a unsigned_less[of "tg_GroupCount groups", where 'a = nat] by (auto simp flip: a[THEN conjunct2, THEN conjunct1, THEN conjunct1])
  have privs: "rd32 privileges 0 = Some (word_of_nat (length (t_privs T)))"
    using a tp_fields(1) by auto
  have "sizes_to (token_size (word_of_nat (unat tokenSize)) user groups (Some privileges) owner primary dacl)
    ((unat tokenSize + (opt_sid_length (Some (t_user T)) + (opt_sid_length (t_owner T) + (opt_sid_length (t_primary T)
      + (opt_length (t_dacl T) + (16 * length (t_groups T) + (groups_length (t_groups T) + 12 * length (t_privs T)))))))))"
    unfolding token_size_def
    by (intro sizes_chain add_sid_size_correct add_acl_size_correct n)
      (use a gc privs add_group_sizes_correct[of "tg_Groups groups" "t_groups T"] add_array_size_correct[of _ 16 "length (t_groups T)"]
        add_array_size_correct[of _ 12 "length (t_privs T)"] in simp_all)
  then show ?thesis
    by (simp add: token_data_size_def opt_sid_length_def add.assoc)
qed

lemma copy_sid_correct:
  assumes "sid_arg m s" and "loc + opt_sid_length s \<le> block"
  shows "copy_sid block loc m = Some (map_option sid_bytes s, loc + opt_sid_length s)"
proof (cases m)
  case None
  then show ?thesis
    using assms by (cases s) (auto simp: sid_arg_def copy_sid_def opt_sid_length_def)
next
  case (Some x)
  then obtain s' where s: "s = Some s'" "sid_of x = Some s'" "sid_valid s'"
    using assms(1) by (auto simp: sid_arg_def split: option.splits)
  then obtain r where "x = sid_bytes s' @ r"
    by (auto simp: sid_of_iff)
  moreover have "length (sid_bytes s') = sid_length s'"
    using s(3) by (simp add: sid_length_def)
  moreover have "unat (word_of_nat (sid_length s') :: ULONG) = sid_length s'"
    using sid_valid_length[OF s(3)] by (intro unat_of_nat_small) simp
  ultimately show ?thesis
    using Some s assms(2) RtlLengthSid_correct[OF s(2)]
    by (simp add: copy_sid_def RtlpAppendData_def opt_sid_length_def rdn_def)
qed

lemma copy_acl_correct:
  assumes "acl_arg m bs" and "loc + opt_length bs \<le> block"
  shows "copy_acl block loc m = Some (bs, loc + opt_length bs)"
proof (cases m)
  case None
  then show ?thesis
    using assms by (cases bs) (auto simp: acl_arg_def copy_acl_def opt_length_def)
next
  case (Some x)
  then obtain a where a: "acl_at x a" "bs = Some (take (unat (acl_size a)) x)"
    using assms(1) by (auto simp: acl_arg_def split: option.splits)
  then show ?thesis
    using Some assms(2) acl_at_copy[OF a(1)] by (simp add: copy_acl_def RtlpAppendData_def opt_length_def rdn_def)
qed

lemma copy_groups_correct:
  "list_all2 (\<lambda>(m, a) (s, a'). sid_arg m (Some s) \<and> a = a') ms gs \<Longrightarrow> loc + groups_length gs \<le> block \<Longrightarrow>
    copy_groups block loc ms (length gs) =
      Some (map (\<lambda>g. \<lparr> sa_Sid = sid_bytes (fst g), sa_Attributes = snd g \<rparr>) gs, loc + groups_length gs)"
proof (induction ms gs arbitrary: loc rule: list_all2_induct)
  case Nil
  then show ?case
    by (simp add: groups_length_def)
next
  case (Cons x ms y gs)
  obtain m a s where x: "x = (Some m, a)" "y = (s, a)" "sid_arg (Some m) (Some s)"
    using Cons.hyps(1) by (cases x; cases y) (auto simp: sid_arg_def split: option.splits)
  have "copy_sid block loc (Some m) = Some (Some (sid_bytes s), loc + sid_length s)"
    using copy_sid_correct[OF x(3), of loc block] Cons.prems x(2) by (simp add: opt_sid_length_def groups_length_def)
  then show ?case
    using x(1,2) Cons.IH[of "loc + sid_length s"] Cons.prems
    by (auto simp: copy_sid_def groups_length_def add.assoc bind_eq_Some_conv)
qed

lemma token_fill_correct:
  assumes "token_args T user groups privileges owner primary dacl unix" and "loc + token_data_size T \<le> block"
  shows "token_fill block loc user 0 groups (Some privileges) owner primary dacl unix =
    Some (token_image T, loc + token_data_size T)"
proof -
  note a = assms(1)[unfolded token_args_def groups_at_def]
  note sz = assms(2)[unfolded token_data_size_def]
  let ?l1 = "loc + sid_length (t_user T)" let ?l2 = "?l1 + 16 * length (t_groups T)"
  let ?l3 = "?l2 + groups_length (t_groups T)" let ?l4 = "?l3 + 12 * length (t_privs T)"
  let ?l5 = "?l4 + opt_sid_length (t_owner T)" let ?l6 = "?l5 + opt_sid_length (t_primary T)"
  have u: "unat (word_of_nat (length (t_privs T)) :: ULONG) = length (t_privs T)"
    using a by (intro unat_of_nat_small) simp
  have gc: "tg_GroupCount groups = word_of_nat (length (t_groups T))"
    using a by (metis of_nat_unat ucast_id)
  have "rd32 privileges 0 = Some (word_of_nat (length (t_privs T)))"
    using a tp_fields(1) by auto
  moreover have "\<exists>r. ptr_add privileges 4 = Some (concat (map enc_priv (t_privs T)) @ r)"
    using a by (auto simp: tp_bytes_def ptr_add_def)
  then obtain r where "ptr_add privileges 4 = Some (concat (map enc_priv (t_privs T)) @ r)"
    by blast
  moreover have "RtlpAppendData block ?l3 (concat (map enc_priv (t_privs T)) @ r) (12 * length (t_privs T)) =
      Some (concat (map enc_priv (t_privs T)), ?l4)"
    using sz by (simp add: RtlpAppendData_def rdn_def fpriv.array_length)
  moreover have "copy_sid block loc (Some user) = Some (Some (sid_bytes (t_user T)), ?l1)"
    using a sz copy_sid_correct[of "Some user" "Some (t_user T)" loc block] by (simp add: opt_sid_length_def)
  moreover have "copy_groups block ?l2 (tg_Groups groups) (length (t_groups T)) =
      Some (map (\<lambda>g. \<lparr> sa_Sid = sid_bytes (fst g), sa_Attributes = snd g \<rparr>) (t_groups T), ?l3)"
    using a sz copy_groups_correct[of "tg_Groups groups" "t_groups T" ?l2 block] by simp
  moreover have "copy_sid block ?l4 owner = Some (map_option sid_bytes (t_owner T), ?l5)"
    "copy_sid block ?l5 primary = Some (map_option sid_bytes (t_primary T), ?l6)"
    "copy_acl block ?l6 dacl = Some (t_dacl T, ?l6 + opt_length (t_dacl T))"
    using a sz by (simp_all add: copy_sid_correct copy_acl_correct)
  moreover have "loc + token_data_size T = ?l6 + opt_length (t_dacl T)"
    by (simp add: token_data_size_def)
  moreover have "unat (tg_GroupCount groups) = length (t_groups T)" "unix = t_unix T"
    using a by simp_all
  ultimately show ?thesis
    using u by (cases "t_unix T") (simp_all add: token_fill_def token_image_def SetFlag_def Let_def gc[symmetric])
qed

lemma RtlCreateAccessToken_correct:
  assumes "token_args T user groups privileges owner primary dacl unix" and "0 < tokenSize"
  shows "RtlCreateAccessToken avail tokenSize None (Some (Some user, 0)) (Some groups) (Some privileges) (Some owner)
      (Some primary) (Some dacl) unix =
    (if 2 ^ 32 \<le> unat tokenSize + token_data_size T then Some (STATUS_INTEGER_OVERFLOW, None)
     else if avail (unat tokenSize + token_data_size T) then Some (STATUS_SUCCESS, Some (token_image T))
     else Some (STATUS_INSUFFICIENT_RESOURCES, None))"
proof -
  let ?n = "unat tokenSize + token_data_size T"
  have "0 < unat tokenSize"
    using assms(2) by (simp add: word_less_nat_alt)
  moreover have "unat (word_of_nat ?n :: ULONG) = ?n" if "?n < 2 ^ 32"
    using that by (intro unat_of_nat_small) simp
  ultimately show ?thesis
    using token_checks_correct[OF assms(1)] token_size_correct[OF assms(1), of tokenSize]
      token_fill_correct[OF assms(1), of "unat tokenSize" ?n]
    by (cases "?n < 2 ^ 32") (auto simp: RtlCreateAccessToken_def sizes_to_def RTL_ALLOCATE_cases simp del: of_nat_add)
qed

section \<open>What a created token is\<close>

definition token_ok :: "TOKEN \<Rightarrow> bool" where
  "token_ok T \<longleftrightarrow> sid_valid (t_user T) \<and> list_all (\<lambda>g. sid_valid (fst g)) (t_groups T) \<and> length (t_groups T) < 2 ^ 32
     \<and> length (t_privs T) < 2 ^ 32 \<and> pred_option sid_valid (t_owner T) \<and> pred_option sid_valid (t_primary T)
     \<and> acl_arg (t_dacl T) (t_dacl T)"

lemma acl_arg_trimmed:
  assumes "acl_arg m bs"
  shows "acl_arg bs bs"
proof (cases bs)
  case (Some b)
  then obtain d a where a: "m = Some d" "acl_at d a" "b = take (unat (acl_size a)) d"
    using assms by (auto simp: acl_arg_def split: option.splits)
  then have "acl_at b a" "length b = unat (acl_size a)"
    using acl_at_copy[OF a(2)] by (auto simp: acl_at_def acl_valid_def take_take min_def)
  then show ?thesis
    using Some by (auto simp: acl_arg_def)
qed (simp add: acl_arg_def)

lemma token_args_ok: "token_args T user groups privileges owner primary dacl unix \<Longrightarrow> token_ok T"
proof -
  assume a: "token_args T user groups privileges owner primary dacl unix"
  then have g: "list_all2 (\<lambda>(m, a) (s, a'). sid_arg m (Some s) \<and> a = a') (tg_Groups groups) (t_groups T)"
    and n: "length (t_groups T) = unat (tg_GroupCount groups)"
    by (simp_all add: token_args_def groups_at_def)
  from g have "list_all (\<lambda>g. sid_valid (fst g)) (t_groups T)"
    by (induction rule: list_all2_induct) (auto simp: sid_arg_def split: option.splits)
  moreover have "length (t_groups T) < 2 ^ 32"
    unfolding n using unsigned_less[of "tg_GroupCount groups", where 'a = nat] by simp
  ultimately show ?thesis
    using a acl_arg_trimmed[of dacl "t_dacl T"]
    by (auto simp: token_args_def token_ok_def sid_arg_def pred_option_def split: option.splits)
qed

lemma token_image_sids:
  assumes "token_ok T"
  shows "token_wf (token_image T)"
    and "token_sids (token_image T) =
      insert (t_user T) (fst ` {g \<in> set (t_groups T). IsSetFlag (snd g) SE_GROUP_ENABLED})"
proof -
  have s: "sid_of (sid_bytes s) = Some s" if "sid_valid s" for s
    using that sid_of_bytes[of s "[]"] by simp
  have u: "unat (word_of_nat (length (t_groups T)) :: ULONG) = length (t_groups T)"
    using assms by (intro unat_of_nat_small) (simp add: token_ok_def)
  show "token_wf (token_image T)"
    using assms u s by (auto simp: token_wf_def token_image_def token_ok_def list_all_iff)
  show "token_sids (token_image T) =
      insert (t_user T) (fst ` {g \<in> set (t_groups T). IsSetFlag (snd g) SE_GROUP_ENABLED})"
    using assms s by (force simp: token_sids_def token_image_def token_ok_def list_all_iff)
qed

section \<open>Queries\<close>

text \<open>What a query of each class returns, and its size.\<close>

definition query_spec :: "TOKEN \<Rightarrow> ULONG \<Rightarrow> (TOKEN_INFO \<times> nat) option" where
  "query_spec T c =
    (if c = TokenUser then
       Some (InfoUser \<lparr> sa_Sid = sid_bytes (t_user T), sa_Attributes = 0 \<rparr>, 16 + sid_length (t_user T))
     else if c = TokenGroups then
       Some (InfoGroups (word_of_nat (length (t_groups T)))
               (map (\<lambda>g. \<lparr> sa_Sid = sid_bytes (fst g), sa_Attributes = snd g \<rparr>) (t_groups T)),
             8 + 16 * length (t_groups T) + groups_length (t_groups T))
     else if c = TokenPrivileges then
       Some (InfoPrivileges (word_of_nat (length (t_privs T))) (concat (map enc_priv (t_privs T))), 4 + 12 * length (t_privs T))
     else if c = TokenOwner then
       map_option (\<lambda>s. (InfoOwner (Some (sid_bytes s)), 8 + sid_length s)) (t_owner T)
     else if c = TokenPrimaryGroup then
       map_option (\<lambda>s. (InfoPrimaryGroup (Some (sid_bytes s)), 8 + sid_length s)) (t_primary T)
     else if c = TokenDefaultDacl then 
       Some (case t_dacl T of None \<Rightarrow> InfoUnwritten | Some d \<Rightarrow> InfoDefaultDacl d, 8 + opt_length (t_dacl T))
     else None)"

lemma sid_arg_image: "sid_valid s \<Longrightarrow> sid_arg (Some (sid_bytes s)) (Some s)"
  using sid_of_bytes[of s "[]"] by (simp add: sid_arg_def)

lemma groups_image:
  "list_all (\<lambda>g. sid_valid (fst g)) gs \<Longrightarrow>
    list_all2 (\<lambda>(m, a) (s, a'). sid_arg m (Some s) \<and> a = a')
      (map (\<lambda>g. (Some (sa_Sid g), sa_Attributes g)) (map (\<lambda>g. \<lparr> sa_Sid = sid_bytes (fst g), sa_Attributes = snd g \<rparr>) gs)) gs"
  by (induction gs) (auto simp: sid_arg_image)

lemma query_size_groups:
  assumes "token_ok T"
  shows "sizes_to (query_size (token_image T) TokenGroups) (8 + 16 * length (t_groups T) + groups_length (t_groups T))"
proof -
  let ?n = "length (t_groups T)"
  let ?ms = "map (\<lambda>g. (Some (sa_Sid g), sa_Attributes g)) (tk_Groups (token_image T))"
  have n: "?n < 2 ^ 32" "unat (word_of_nat ?n :: ULONG) = ?n"
    using assms by (auto simp: token_ok_def intro!: unat_of_nat_small)
  have gs: "list_all2 (\<lambda>(m, a) (s, a'). sid_arg m (Some s) \<and> a = a') ?ms (t_groups T)"
    using groups_image[of "t_groups T"] assms by (simp add: token_image_def token_ok_def)
  have mul: "sizes_to (Some (LwRtlSafeMultiplyULONG 16 (word_of_nat ?n))) (16 * ?n)"
    using mul_sizes_to[of 16 ?n] n(1) by simp
  have rest: "sizes_to (on_success (Some (LwRtlSafeAddULONG (word_of_nat k) 8)) (\<lambda>r. add_group_sizes r ?ms ?n))
      (k + (8 + groups_length (t_groups T)))" if "k < 2 ^ 32" for k
    by (rule sizes_chain[where A = "\<lambda>r. Some (LwRtlSafeAddULONG r 8)"])
      (use that add_sizes_to[of _ 8] add_group_sizes_correct[OF gs] in auto)
  show ?thesis
    using mul rest[of "16 * ?n"] n(2)
    by (cases "16 * ?n < 2 ^ 32") (auto simp: query_size_def on_success_def sizes_to_def token_image_def add.commute add.left_commute)
qed

lemma query_cases:
  assumes "query_spec T c = Some (info, n)"
  obtains "c = TokenUser" "info = InfoUser \<lparr> sa_Sid = sid_bytes (t_user T), sa_Attributes = 0 \<rparr>" "n = 16 + sid_length (t_user T)"
  | "c = TokenGroups" "info = InfoGroups (word_of_nat (length (t_groups T)))
      (map (\<lambda>g. \<lparr> sa_Sid = sid_bytes (fst g), sa_Attributes = snd g \<rparr>) (t_groups T))"
      "n = 8 + 16 * length (t_groups T) + groups_length (t_groups T)"
  | "c = TokenPrivileges" "info = InfoPrivileges (word_of_nat (length (t_privs T))) (concat (map enc_priv (t_privs T)))"
      "n = 4 + 12 * length (t_privs T)"
  | s where "c = TokenOwner" "t_owner T = Some s" "info = InfoOwner (Some (sid_bytes s))" "n = 8 + sid_length s"
  | s where "c = TokenPrimaryGroup" "t_primary T = Some s" "info = InfoPrimaryGroup (Some (sid_bytes s))" "n = 8 + sid_length s"
  | "c = TokenDefaultDacl" "info = (case t_dacl T of None \<Rightarrow> InfoUnwritten | Some d \<Rightarrow> InfoDefaultDacl d)" "n = 8 + opt_length (t_dacl T)"
  using assms by (simp add: query_spec_def split: if_splits) auto

lemma query_size_correct:
  assumes "token_ok T" and "query_spec T c = Some (info, n)"
  shows "sizes_to (query_size (token_image T) c) n"
proof -
  have sid: "sizes_to (add_sid_size (word_of_nat k) (Some (sid_bytes s))) (k + sid_length s)" if "sid_valid s" "k < 2 ^ 32" for s k
    using add_sid_size_correct[OF sid_arg_image[OF that(1)] that(2)] by (simp add: opt_sid_length_def)
  have privs: "sizes_to (on_success (Some (LwRtlSafeMultiplyULONG 12 (word_of_nat (length (t_privs T)))))
      (\<lambda>r. Some (LwRtlSafeAddULONG r 4))) (12 * length (t_privs T) + 4)"
    using mul_sizes_to[of 12 "length (t_privs T)"] assms(1) add_sizes_to[of "12 * length (t_privs T)" 4]
    by (cases "12 * length (t_privs T) < 2 ^ 32") (auto simp: on_success_def sizes_to_def token_ok_def)
  have dacl: "sizes_to (add_acl_size 8 (t_dacl T)) (8 + opt_length (t_dacl T))"
    using add_acl_size_correct[of "t_dacl T" "t_dacl T" 8] assms(1) by (simp add: token_ok_def)
  have none: "sizes_to (Some (LwRtlSafeAddULONG 8 0)) 8"
    by (simp add: sizes_to_def LwRtlSafeAddULONG_def)
  note ok = assms(1)[unfolded token_ok_def]
  show ?thesis
    using assms(2)
  proof (cases rule: query_cases)
    case 1
    then show ?thesis
      using sid[of "t_user T" 16] ok by (simp add: query_size_def token_image_def)
  next
    case 2
    then show ?thesis
      using query_size_groups[OF assms(1)] by simp
  next
    case 3
    then show ?thesis
      using privs by (simp add: query_size_def token_image_def add.commute)
  next
    case (4 s)
    then show ?thesis
      using sid[of s 8] ok by (simp add: query_size_def token_image_def)
  next
    case (5 s)
    then show ?thesis
      using sid[of s 8] ok by (simp add: query_size_def token_image_def)
  next
    case 6
    then show ?thesis
      using dacl none by (cases "t_dacl T") (simp_all add: query_size_def token_image_def opt_length_def)
  qed
qed

lemma query_copy_correct:
  assumes "token_ok T" and "query_spec T c = Some (info, n)" and "n \<le> len"
  shows "query_copy len (token_image T) c = Some (info, n)"
proof -
  have sid: "copy_sid len k (Some (sid_bytes s)) = Some (Some (sid_bytes s), k + sid_length s)"
    if "sid_valid s" "k + sid_length s \<le> len" for s k
    using copy_sid_correct[OF sid_arg_image[OF that(1)], of k len] that(2) by (simp add: opt_sid_length_def)
  have u: "unat (word_of_nat (length (t_groups T)) :: ULONG) = length (t_groups T)"
    "unat (word_of_nat (length (t_privs T)) :: ULONG) = length (t_privs T)"
    using assms(1) by (auto simp: token_ok_def intro!: unat_of_nat_small)
  have gs: "copy_groups len (8 + 16 * length (t_groups T))
      (map (\<lambda>g. (Some (sa_Sid g), sa_Attributes g)) (tk_Groups (token_image T))) (length (t_groups T)) =
      Some (tk_Groups (token_image T), 8 + 16 * length (t_groups T) + groups_length (t_groups T))"
    if "8 + 16 * length (t_groups T) + groups_length (t_groups T) \<le> len"
    using copy_groups_correct[OF groups_image that] assms(1) by (simp add: token_image_def token_ok_def)
  have privs: "RtlpAppendData len 4 (concat (map enc_priv (t_privs T))) (12 * length (t_privs T)) =
      Some (concat (map enc_priv (t_privs T)), 4 + 12 * length (t_privs T))" if "4 + 12 * length (t_privs T) \<le> len"
    using that by (simp add: RtlpAppendData_def rdn_def fpriv.array_length)
  have dacl: "copy_acl len 8 (t_dacl T) = Some (t_dacl T, 8 + opt_length (t_dacl T))" if "8 + opt_length (t_dacl T) \<le> len"
    using copy_acl_correct[of "t_dacl T" "t_dacl T" 8 len] assms(1) that by (simp add: token_ok_def)
  note ok = assms(1)[unfolded token_ok_def]
  show ?thesis
    using assms(2)
  proof (cases rule: query_cases)
    case 1
    then show ?thesis
      using sid[of "t_user T" 16] ok assms(3) by (simp add: query_copy_def token_image_def)
  next
    case 2
    then show ?thesis
      using gs u assms(3) by (simp add: query_copy_def) (simp add: token_image_def)
  next
    case 3
    then show ?thesis
      using privs u assms(3) by (simp add: query_copy_def token_image_def)
  next
    case (4 s)
    then show ?thesis
      using sid[of s 8] ok assms(3) by (simp add: query_copy_def token_image_def)
  next
    case (5 s)
    then show ?thesis
      using sid[of s 8] ok assms(3) by (simp add: query_copy_def token_image_def)
  next
    case 6
    then show ?thesis
      using dacl assms(3) by (simp add: query_copy_def token_image_def)
  qed
qed

lemma RtlQueryAccessTokenInformation_correct:
  assumes "token_ok T" and "query_spec T c = Some (info, n)" and "n < 2 ^ 32"
  shows "RtlQueryAccessTokenInformation (Some (token_image T)) c True len =
    Some (if n \<le> unat len then STATUS_SUCCESS else STATUS_BUFFER_TOO_SMALL, if n \<le> unat len then Some info else None, word_of_nat n)"
proof -
  have u: "unat (word_of_nat n :: ULONG) = n"
    using assms(3) by (intro unat_of_nat_small) simp
  then have "(word_of_nat n > len) \<longleftrightarrow> \<not> n \<le> unat len"
    by (simp add: word_less_nat_alt not_le)
  then show ?thesis
    using query_size_correct[OF assms(1,2)] query_copy_correct[OF assms(1,2), of "unat len"] assms(3) u
    by (auto simp: RtlQueryAccessTokenInformation_def sizes_to_def)
qed

section \<open>Properties\<close>

definition sample_T :: TOKEN where
  "sample_T = \<lparr> t_user = mk_sid [0,0,0,0,0,5] [7], t_groups = [(mk_sid [0,0,0,0,0,1] [0], 4)], t_privs = sample_privs,
     t_owner = Some (mk_sid [0,0,0,0,0,5] [7]), t_primary = None, t_dacl = None,
     t_unix = Some \<lparr> tu_Uid = 1, tu_Gid = 2, tu_Umask = 18 \<rparr> \<rparr>"

lemma sample_T_args:
  "token_args sample_T [1,1,0,0,0,0,0,5,7,0,0,0] \<lparr> tg_GroupCount = 1, tg_Groups = [(Some [1,1,0,0,0,0,0,1,0,0,0,0], 4)] \<rparr>
    (tp_bytes sample_privs) (Some [1,1,0,0,0,0,0,5,7,0,0,0]) None None (Some \<lparr> tu_Uid = 1, tu_Gid = 2, tu_Umask = 18 \<rparr>)"
  by (simp add: token_args_def sample_T_def sid_arg_def acl_arg_def groups_at_def sid_eval sample_privs_def)

lemma sample_T_size: "token_data_size sample_T = 76"
  by (simp add: token_data_size_def sample_T_def sample_privs_def opt_sid_length_def opt_length_def groups_length_def sid_length_def)

text \<open>C19. Creating a token from valid identifiers, privileges and a valid list succeeds exactly when the sum of the sizes
  fits 32 bits and the memory is available; the copies fill the block exactly.  The token then has the user and the
  enabled groups as its identifiers, one reference, and the Unix identity it was given.\<close>

theorem token_create_exact:
  assumes "token_args T user groups privileges owner primary dacl unix" and "0 < tokenSize"
  shows "RtlCreateAccessToken avail tokenSize None (Some (Some user, 0)) (Some groups) (Some privileges) (Some owner)
      (Some primary) (Some dacl) unix =
    (if 2 ^ 32 \<le> unat tokenSize + token_data_size T then Some (STATUS_INTEGER_OVERFLOW, None)
     else if avail (unat tokenSize + token_data_size T) then Some (STATUS_SUCCESS, Some (token_image T))
     else Some (STATUS_INSUFFICIENT_RESOURCES, None))
    \<and> token_wf (token_image T)
    \<and> token_sids (token_image T) = insert (t_user T) (fst ` {g \<in> set (t_groups T). IsSetFlag (snd g) SE_GROUP_ENABLED})
    \<and> RtlReleaseAccessToken (Some (token_image T)) = Some None
    \<and> RtlQueryAccessTokenUnixInformation (Some (token_image T)) =
        (case unix of None \<Rightarrow> (STATUS_NOT_FOUND, 0, 0, 0) | Some x \<Rightarrow> (STATUS_SUCCESS, tu_Uid x, tu_Gid x, tu_Umask x))"
proof -
  have "RtlReleaseAccessToken (Some (token_image T)) = Some None"
    by (simp add: RtlReleaseAccessToken_def token_image_def)
  moreover have "unix = t_unix T"
    using assms(1) by (simp add: token_args_def)
  then have "RtlQueryAccessTokenUnixInformation (Some (token_image T)) =
      (case unix of None \<Rightarrow> (STATUS_NOT_FOUND, 0, 0, 0) | Some x \<Rightarrow> (STATUS_SUCCESS, tu_Uid x, tu_Gid x, tu_Umask x))"
    by (cases "t_unix T") (simp_all add: RtlQueryAccessTokenUnixInformation_def token_image_def IsSetFlag_def)
  ultimately show ?thesis
    using RtlCreateAccessToken_correct[OF assms] token_image_sids[OF token_args_ok[OF assms(1)]] by blast
qed

theorem token_create_exact_witness:
  "RtlCreateAccessToken (\<lambda>n. n \<le> 4096) 152 None (Some (Some [1,1,0,0,0,0,0,5,7,0,0,0], 0))
      (Some \<lparr> tg_GroupCount = 1, tg_Groups = [(Some [1,1,0,0,0,0,0,1,0,0,0,0], 4)] \<rparr>) (Some (tp_bytes sample_privs))
      (Some (Some [1,1,0,0,0,0,0,5,7,0,0,0])) (Some None) (Some None) (Some \<lparr> tu_Uid = 1, tu_Gid = 2, tu_Umask = 18 \<rparr>) =
    Some (STATUS_SUCCESS, Some (token_image sample_T))"
  using token_create_exact[OF sample_T_args, of 152 "\<lambda>n. n \<le> 4096"] by (simp add: sample_T_size)

text \<open>C39. A query of a created token, with a buffer of the length the caller names, is exact for every class.  The user,
  the groups and the privileges are returned as they were given at creation, and so are the owner, the primary group and
  the default list of a token that has them, when the buffer has room; a short buffer is refused with the length needed.
  For a token without a default list the query succeeds and leaves the field of the buffer unwritten.  For a token without
  an owner or a primary group the query of that part has no defined result, since the length of a NULL identifier is read.
  A class that is not one of the six is refused.\<close>

theorem token_query_exact:
  assumes "token_ok T" and "\<And>info n. query_spec T c = Some (info, n) \<Longrightarrow> n < 2 ^ 32"
  shows "RtlQueryAccessTokenInformation (Some (token_image T)) c True len =
    (case query_spec T c of
       Some (info, n) \<Rightarrow>
         Some (if n \<le> unat len then STATUS_SUCCESS else STATUS_BUFFER_TOO_SMALL, if n \<le> unat len then Some info else None, word_of_nat n)
     | None \<Rightarrow> if c = TokenOwner \<or> c = TokenPrimaryGroup then None else Some (STATUS_INVALID_PARAMETER, None, 0))"
proof (cases "query_spec T c")
  case None
  then show ?thesis
    by (auto simp: query_spec_def RtlQueryAccessTokenInformation_def query_size_def token_image_def split: if_splits)
next
  case (Some r)
  then show ?thesis
    using RtlQueryAccessTokenInformation_correct[OF assms(1), of c "fst r" "snd r" len] assms(2)[of "fst r" "snd r"]
    by (cases r) simp
qed

theorem token_query_exact_witness:
  "RtlQueryAccessTokenInformation (Some (token_image sample_T)) TokenUser True 28 =
      Some (STATUS_SUCCESS, Some (InfoUser \<lparr> sa_Sid = [1,1,0,0,0,0,0,5,7,0,0,0], sa_Attributes = 0 \<rparr>), 28)
    \<and> RtlQueryAccessTokenInformation (Some (token_image sample_T)) TokenUser True 27 = Some (STATUS_BUFFER_TOO_SMALL, None, 28)
    \<and> RtlQueryAccessTokenInformation (Some (token_image sample_T)) TokenDefaultDacl True 8 = Some (STATUS_SUCCESS, Some InfoUnwritten, 8)
    \<and> RtlQueryAccessTokenInformation (Some (token_image sample_T)) TokenPrimaryGroup True 100 = None"
proof -
  have "query_spec sample_T TokenUser = Some (InfoUser \<lparr> sa_Sid = [1,1,0,0,0,0,0,5,7,0,0,0], sa_Attributes = 0 \<rparr>, 28)"
    "query_spec sample_T TokenDefaultDacl = Some (InfoUnwritten, 8)" "query_spec sample_T TokenPrimaryGroup = None"
    by (simp_all add: query_spec_def sample_T_def sid_eval opt_length_def)
  then show ?thesis
    using token_query_exact[OF token_args_ok[OF sample_T_args], of TokenUser]
      token_query_exact[OF token_args_ok[OF sample_T_args], of TokenDefaultDacl 8]
      token_query_exact[OF token_args_ok[OF sample_T_args], of TokenPrimaryGroup 100] by simp
qed

end
