(* ===== verification/Security_Acl_Index.thy ===== *)
theory Security_Acl_Index
  imports Security_Acl
begin

text \<open>
  The index-based functions of \<^verbatim>\<open>security-acl.c\<close>: entries named by their position, lists of
  entries added at once, and the functions that add an entry at its place in the canonical
  order.  They are shown to be list operations on the abstraction of \<^verbatim>\<open>Security_Acl\<close>.
\<close>

section \<open>Operations\<close>

definition RtlCreateAcl :: "mem \<Rightarrow> ULONG \<Rightarrow> ULONG \<Rightarrow> (NTSTATUS \<times> mem) option" where
  "RtlCreateAcl Acl AclLength AclRevision = do {
     (status, m, _) \<leftarrow> RtlInitializeAcl Acl AclLength AclRevision;
     Some (status, m)
   }"

text \<open>The validation loop of \<^verbatim>\<open>RtlpGetAceLocationFromIndex\<close>: the index, the size used so far, the
  offset found so far (0 when none) and the number of iterations left.\<close>

fun ace_index_loop ::
    "mem \<Rightarrow> USHORT \<Rightarrow> ULONG \<Rightarrow> USHORT \<Rightarrow> USHORT \<Rightarrow> USHORT \<Rightarrow> nat \<Rightarrow> (NTSTATUS \<times> USHORT \<times> USHORT) option"
  where
  "ace_index_loop Acl AclSize AceIndex aceIndex sizeUsed aceOffset 0 =
     Some (STATUS_SUCCESS, sizeUsed, aceOffset)"
| "ace_index_loop Acl AclSize AceIndex aceIndex sizeUsed aceOffset (Suc n) = do {
     ace \<leftarrow> ptr_add Acl (unat sizeUsed);
     v \<leftarrow> RtlpValidAce (Some ace);
     if \<not> v then Some (STATUS_INVALID_ACL, sizeUsed, aceOffset)
     else do {
       let aceOffset = (if ucast aceIndex = AceIndex then sizeUsed - 8 else aceOffset);
       sz \<leftarrow> ace_AceSize ace;
       let sizeUsed = sizeUsed + sz;
       if sizeUsed < sz then Some (STATUS_INVALID_ACL, sizeUsed, aceOffset)
       else if sizeUsed > AclSize then Some (STATUS_INVALID_ACL, sizeUsed, aceOffset)
       else ace_index_loop Acl AclSize AceIndex (aceIndex + 1) sizeUsed aceOffset n
     }
   }"

definition RtlpGetAceLocationFromIndex ::
    "mem \<Rightarrow> ULONG \<Rightarrow> (NTSTATUS \<times> USHORT \<times> USHORT \<times> nat option) option" where
  "RtlpGetAceLocationFromIndex Acl AceIndex = do {
     n \<leftarrow> acl_AceCount Acl;
     if AceIndex \<ge> ucast n \<and> AceIndex \<noteq> - 1 then Some (STATUS_INVALID_PARAMETER, 0, 0, None)
     else do {
       h \<leftarrow> RtlpValidAclHeader (Some Acl);
       if \<not> h then Some (STATUS_INVALID_ACL, 0, 0, None)
       else do {
         AclSize \<leftarrow> acl_AclSize Acl;
         (status, sizeUsed, aceOffset) \<leftarrow> ace_index_loop Acl AclSize AceIndex 0 8 0 (unat n);
         if status \<noteq> STATUS_SUCCESS then Some (status, 0, 0, None)
         else if aceOffset = 0 \<and> AceIndex \<noteq> - 1 \<and> AceIndex \<noteq> 0
         then Some (STATUS_ASSERTION_FAILURE, 0, 0, None)
         else
           (let aceOffset = (if aceOffset = 0 \<and> AceIndex = - 1 then sizeUsed - 8 else aceOffset) in
            if sizeUsed > AclSize then Some (STATUS_INVALID_ACL, 0, 0, None)
            else Some (STATUS_SUCCESS, sizeUsed, aceOffset, Some (8 + unat aceOffset)))
       }
     }
   }"

text \<open>The loop of \<^verbatim>\<open>RtlpValidAceList\<close> over a list of \<^verbatim>\<open>AceListLength\<close> bytes.  Each round advances
  the offset by a validated entry size of at least four.\<close>

function ace_list_loop :: "mem \<Rightarrow> nat \<Rightarrow> nat \<Rightarrow> USHORT \<Rightarrow> (NTSTATUS \<times> nat \<times> USHORT) option" where
  "ace_list_loop AceList len aceOffset aceCount =
    (if aceOffset < len then
       (if 4 + aceOffset > len then Some (STATUS_INVALID_PARAMETER, aceOffset, aceCount)
        else
          (case ptr_add AceList aceOffset of
             None \<Rightarrow> None
           | Some ace \<Rightarrow>
               (case ace_AceSize ace of
                  None \<Rightarrow> None
                | Some sz \<Rightarrow>
                    if aceOffset + unat sz > len then Some (STATUS_INVALID_PARAMETER, aceOffset, aceCount)
                    else
                      (case RtlpValidAce (Some ace) of
                         None \<Rightarrow> None
                       | Some v \<Rightarrow>
                           if \<not> v then Some (STATUS_INVALID_PARAMETER, aceOffset, aceCount)
                           else ace_list_loop AceList len (aceOffset + unat sz) (aceCount + 1)))))
     else Some (STATUS_SUCCESS, aceOffset, aceCount))"
  by pat_completeness auto
termination
  by (relation "measure (\<lambda>(_, len, aceOffset, _). len - aceOffset)")
    (auto simp: RtlpValidAce_eq RtlpValidAceHeader_def split: if_splits)

declare ace_list_loop.simps [simp del]

definition RtlpValidAceList :: "ULONG \<Rightarrow> mem \<Rightarrow> ULONG \<Rightarrow> (NTSTATUS \<times> USHORT) option" where
  "RtlpValidAceList AceRevision AceList AceListLength =
    (if AceListLength = 0 \<or> unat AceListLength > 65535 - 8 then Some (STATUS_INVALID_PARAMETER, 0)
     else do {
       (status, aceOffset, aceCount) \<leftarrow> ace_list_loop AceList (unat AceListLength) 0 0;
       if status \<noteq> STATUS_SUCCESS then Some (status, 0)
       else if aceOffset \<noteq> unat AceListLength then Some (STATUS_INVALID_PARAMETER, 0)
       else Some (STATUS_SUCCESS, aceCount)
     })"

definition RtlAddAce ::
    "mem \<Rightarrow> ULONG \<Rightarrow> ULONG \<Rightarrow> mem option \<Rightarrow> ULONG \<Rightarrow> (NTSTATUS \<times> mem) option" where
  "RtlAddAce Acl AceRevision StartingAceIndex AceList AceListLength =
    (if AceListLength = 0 then Some (STATUS_SUCCESS, Acl)
     else
       (case AceList of
          None \<Rightarrow> Some (STATUS_INVALID_PARAMETER, Acl)
        | Some l \<Rightarrow> do {
            h \<leftarrow> RtlpValidAclHeader (Some Acl);
            if \<not> h then Some (STATUS_INVALID_ACL, Acl)
            else do {
              rv \<leftarrow> acl_AclRevision Acl;
              sz \<leftarrow> acl_AclSize Acl;
              if \<not> RtlpValidAclRevision AceRevision \<or> AceRevision > ucast rv
              then Some (STATUS_INVALID_PARAMETER, Acl)
              else if unat AceListLength > unat sz - 8 then Some (STATUS_BUFFER_TOO_SMALL, Acl)
              else do {
                (status, aceListCount) \<leftarrow> RtlpValidAceList AceRevision l AceListLength;
                if status \<noteq> STATUS_SUCCESS then Some (status, Acl)
                else do {
                  (status, sizeUsed, _, loc) \<leftarrow> RtlpGetAceLocationFromIndex Acl StartingAceIndex;
                  if status \<noteq> STATUS_SUCCESS then Some (status, Acl)
                  else do {
                    loc \<leftarrow> loc;
                    (status, m) \<leftarrow> RtlpMakeRoomForAceAtLocation Acl sizeUsed loc (ucast AceListLength);
                    if status \<noteq> STATUS_SUCCESS then Some (status, m)
                    else do {
                      m \<leftarrow> memcpy m loc l 0 (unat AceListLength);
                      m \<leftarrow> bump_AceCount m aceListCount;
                      Some (STATUS_SUCCESS, m)
                    }
                  }
                }
              }
            }
          }))"

definition RtlDeleteAce :: "mem \<Rightarrow> ULONG \<Rightarrow> (NTSTATUS \<times> mem) option" where
  "RtlDeleteAce Acl AceIndex =
    (if AceIndex = - 1 then Some (STATUS_INVALID_PARAMETER, Acl)
     else do {
       (status, sizeUsed, _, loc) \<leftarrow> RtlpGetAceLocationFromIndex Acl AceIndex;
       if status \<noteq> STATUS_SUCCESS then Some (status, Acl)
       else do {
         loc \<leftarrow> loc;
         (status, m, _) \<leftarrow> RtlpRemoveAceFromLocation Acl sizeUsed loc;
         Some (status, m)
       }
     })"

definition RtlGetAce :: "mem \<Rightarrow> ULONG \<Rightarrow> (NTSTATUS \<times> nat option) option" where
  "RtlGetAce Acl AceIndex =
    (if AceIndex = - 1 then Some (STATUS_INVALID_PARAMETER, None)
     else do {
       (status, _, _, loc) \<leftarrow> RtlpGetAceLocationFromIndex Acl AceIndex;
       if status \<noteq> STATUS_SUCCESS then Some (status, None) else Some (status, loc)
     })"

definition RtlpCompareAceFlagsForInsert :: "ULONG \<Rightarrow> ULONG \<Rightarrow> int" where
  "RtlpCompareAceFlagsForInsert AceFlags1 AceFlags2 =
    (let bInherited1 = IsSetFlag AceFlags1 INHERITED_ACE;
         bInheritOnly1 = IsSetFlag AceFlags1 INHERIT_ONLY_ACE;
         bInherited2 = IsSetFlag AceFlags2 INHERITED_ACE;
         bInheritOnly2 = IsSetFlag AceFlags2 INHERIT_ONLY_ACE in
     if bInherited1 then
       (if \<not> bInherited2 then 1
        else if bInheritOnly1 then (if \<not> bInheritOnly2 then - 1 else 0)
        else if bInheritOnly2 then 1
        else 0)
     else
       (if bInherited2 then - 1
        else if bInheritOnly1 then (if \<not> bInheritOnly2 then - 1 else 0)
        else if bInheritOnly2 then 1
        else 0))"

text \<open>The search loop of the functions that add an entry: \<^verbatim>\<open>stop\<close> is the test in the loop body.
  The result is the status, the value of the loop index and the last location.\<close>

fun add_search_loop ::
    "(mem \<Rightarrow> bool option) \<Rightarrow> mem \<Rightarrow> USHORT \<Rightarrow> USHORT \<Rightarrow> nat option \<Rightarrow> nat \<Rightarrow> nat \<Rightarrow>
     (NTSTATUS \<times> nat \<times> nat option) option" where
  "add_search_loop stop Acl sizeUsed aceOffset loc usLoop 0 = Some (STATUS_SUCCESS, usLoop, loc)"
| "add_search_loop stop Acl sizeUsed aceOffset loc usLoop (Suc n) = do {
     (status, aceOffset, loc) \<leftarrow> RtlIterateAce Acl sizeUsed aceOffset;
     if status \<noteq> STATUS_SUCCESS then Some (status, usLoop, loc)
     else do {
       off \<leftarrow> loc;
       ace \<leftarrow> ptr_add Acl off;
       b \<leftarrow> stop ace;
       if b then Some (STATUS_SUCCESS, usLoop, loc)
       else add_search_loop stop Acl sizeUsed aceOffset loc (Suc usLoop) n
     }
   }"

definition allowed_stop :: "ULONG \<Rightarrow> mem \<Rightarrow> bool option" where
  "allowed_stop AceFlags ace = do {
     t \<leftarrow> ace_AceType ace;
     f \<leftarrow> ace_AceFlags ace;
     Some (t = ACCESS_ALLOWED_ACE_TYPE \<and> RtlpCompareAceFlagsForInsert AceFlags (ucast f) \<le> 0)
   }"

definition denied_stop :: "ULONG \<Rightarrow> mem \<Rightarrow> bool option" where
  "denied_stop AceFlags ace = do {
     t \<leftarrow> ace_AceType ace;
     f \<leftarrow> ace_AceFlags ace;
     Some (t = ACCESS_ALLOWED_ACE_TYPE
       \<or> t = ACCESS_DENIED_ACE_TYPE \<and> RtlpCompareAceFlagsForInsert AceFlags (ucast f) \<le> 0)
   }"

text \<open>The common text of the three functions after the search: room, initialiser, assertion and
  count.\<close>

definition store_new_ace ::
    "(mem \<Rightarrow> USHORT option) \<Rightarrow>
     (mem \<Rightarrow> nat \<Rightarrow> ULONG \<Rightarrow> USHORT \<Rightarrow> ACCESS_MASK \<Rightarrow> mem \<Rightarrow> (NTSTATUS \<times> mem) option) \<Rightarrow>
     mem \<Rightarrow> USHORT \<Rightarrow> nat \<Rightarrow> ULONG \<Rightarrow> ACCESS_MASK \<Rightarrow> mem \<Rightarrow> (NTSTATUS \<times> mem) option" where
  "store_new_ace len init Acl sizeUsed loc AceFlags AccessMask Sid = do {
     aceSize \<leftarrow> len Sid;
     (status, m) \<leftarrow> RtlpMakeRoomForAceAtLocation Acl sizeUsed loc aceSize;
     if status \<noteq> STATUS_SUCCESS then Some (status, m)
     else do {
       (status, m) \<leftarrow> init m loc (ucast aceSize) (ucast AceFlags) AccessMask Sid;
       if status \<noteq> STATUS_SUCCESS then Some (status, m)
       else do {
         sz \<leftarrow> rd16 m (loc + 2);
         if aceSize \<noteq> sz then None
         else do { m \<leftarrow> bump_AceCount m 1; Some (STATUS_SUCCESS, m) }
       }
     }
   }"

text \<open>The argument checks that the three functions share, then the rest.\<close>

definition add_ace_checks ::
    "mem \<Rightarrow> ULONG \<Rightarrow> mem option \<Rightarrow> (mem \<Rightarrow> (NTSTATUS \<times> mem) option) \<Rightarrow> (NTSTATUS \<times> mem) option" where
  "add_ace_checks Acl AceRevision Sid body = do {
     h \<leftarrow> RtlpValidAclHeader (Some Acl);
     if \<not> h then Some (STATUS_INVALID_ACL, Acl)
     else do {
       rv \<leftarrow> acl_AclRevision Acl;
       if \<not> RtlpValidAclRevision AceRevision \<or> AceRevision > ucast rv
       then Some (STATUS_INVALID_PARAMETER, Acl)
       else do {
         v \<leftarrow> RtlValidSid Sid;
         if \<not> v then Some (STATUS_INVALID_PARAMETER, Acl)
         else do { sid \<leftarrow> Sid; body sid }
       }
     }
   }"

definition add_access_ace ::
    "(mem \<Rightarrow> USHORT option) \<Rightarrow>
     (mem \<Rightarrow> nat \<Rightarrow> ULONG \<Rightarrow> USHORT \<Rightarrow> ACCESS_MASK \<Rightarrow> mem \<Rightarrow> (NTSTATUS \<times> mem) option) \<Rightarrow>
     (mem \<Rightarrow> bool option) \<Rightarrow> mem \<Rightarrow> ULONG \<Rightarrow> ULONG \<Rightarrow> ACCESS_MASK \<Rightarrow> mem option \<Rightarrow>
     (NTSTATUS \<times> mem) option" where
  "add_access_ace len init stop Acl AceRevision AceFlags AccessMask Sid =
     add_ace_checks Acl AceRevision Sid (\<lambda>sid. do {
       n \<leftarrow> acl_AceCount Acl;
       (status, sizeUsed, usLoop, loc) \<leftarrow>
         (if unat n > 0 then do {
            sizeUsed \<leftarrow> RtlGetAclSizeUsed Acl;
            (status, usLoop, loc) \<leftarrow> add_search_loop stop Acl sizeUsed 0 None 0 (unat n);
            Some (status, sizeUsed, usLoop, loc)
          }
          else Some (STATUS_SUCCESS, 0, 0, None));
       if status \<noteq> STATUS_SUCCESS then Some (status, Acl)
       else do {
         (status, sizeUsed, loc) \<leftarrow>
           (if usLoop = unat n then do {
              (status, sizeUsed, _, loc) \<leftarrow> RtlpGetAceLocationFromIndex Acl (- 1);
              Some (status, sizeUsed, loc)
            }
            else Some (STATUS_SUCCESS, sizeUsed, loc));
         if status \<noteq> STATUS_SUCCESS then Some (status, Acl)
         else do {
           loc \<leftarrow> loc;
           store_new_ace len init Acl sizeUsed loc AceFlags AccessMask sid
         }
       }
     })"

definition RtlAddAccessAllowedAceEx ::
    "mem \<Rightarrow> ULONG \<Rightarrow> ULONG \<Rightarrow> ACCESS_MASK \<Rightarrow> mem option \<Rightarrow> (NTSTATUS \<times> mem) option" where
  "RtlAddAccessAllowedAceEx Acl AceRevision AceFlags AccessMask Sid =
     add_access_ace RtlLengthAccessAllowedAce RtlInitializeAccessAllowedAce (allowed_stop AceFlags)
       Acl AceRevision AceFlags AccessMask Sid"

definition RtlAddAccessDeniedAceEx ::
    "mem \<Rightarrow> ULONG \<Rightarrow> ULONG \<Rightarrow> ACCESS_MASK \<Rightarrow> mem option \<Rightarrow> (NTSTATUS \<times> mem) option" where
  "RtlAddAccessDeniedAceEx Acl AceRevision AceFlags AccessMask Sid =
     add_access_ace RtlLengthAccessDeniedAce RtlInitializeAccessDeniedAce (denied_stop AceFlags)
       Acl AceRevision AceFlags AccessMask Sid"

definition RtlAddSystemAuditAceEx ::
    "mem \<Rightarrow> ULONG \<Rightarrow> ULONG \<Rightarrow> ACCESS_MASK \<Rightarrow> mem option \<Rightarrow> (NTSTATUS \<times> mem) option" where
  "RtlAddSystemAuditAceEx Acl AceRevision AceFlags AccessMask Sid =
     add_ace_checks Acl AceRevision Sid (\<lambda>sid. do {
       (status, sizeUsed, _, loc) \<leftarrow> RtlpGetAceLocationFromIndex Acl (- 1);
       if status \<noteq> STATUS_SUCCESS then Some (status, Acl)
       else do {
         loc \<leftarrow> loc;
         store_new_ace RtlLengthAccessDeniedAce RtlInitializeSystemAuditAce Acl sizeUsed loc
           AceFlags AccessMask sid
       }
     })"

section \<open>Entries by index\<close>

lemma index_eq_iff:
  assumes "i < 65536"
  shows "(ucast (word_of_nat i :: USHORT) :: ULONG) = idx \<longleftrightarrow> unat idx = i"
proof -
  have "unat (ucast (word_of_nat i :: USHORT) :: ULONG) = i"
    using assms by (simp add: unsigned_ucast_eq take_bit_nat_eq_self unat_short)
  then show ?thesis
    by (metis unsigned_word_eqI)
qed

lemma unat_end_index: "unat (- 1 :: ULONG) = 4294967295"
  by (simp add: unsigned_minus_1_eq_mask mask_eq_exp_minus_1)

lemma ace_index_loop_correct:
  assumes "acl_at m a" and "i + n = length (acl_aces a)"
  shows "ace_index_loop m (acl_size a) idx (word_of_nat i) (word_of_nat (ace_pos a i)) off n =
    Some (STATUS_SUCCESS, word_of_nat (acl_used a),
      if i \<le> unat idx \<and> unat idx < length (acl_aces a) then word_of_nat (ace_off a (unat idx)) else off)"
  using assms(2)
proof (induction n arbitrary: i off)
  case 0
  then show ?case
    using ace_pos_length[of a] by auto
next
  case (Suc n)
  have v: "acl_valid a"
    using assms(1) by (simp add: acl_at_def)
  from Suc.prems have i: "i < length (acl_aces a)"
    by simp
  note wf = acl_at_entry(2)[OF assms(1) i]
  have o1: "\<not> (word_of_nat (ace_pos a (Suc i)) :: USHORT) < word_of_nat (length (acl_aces a ! i))"
    using ace_pos_unat(1)[OF v, of "Suc i"] RtlpValidAceHeader_wf(3)[OF wf] ace_pos_Suc[OF i]
    by (simp only: word_less_nat_alt)
  have o2: "\<not> (word_of_nat (ace_pos a (Suc i)) :: USHORT) > acl_size a"
    using ace_pos_unat(1)[OF v, of "Suc i"] ace_pos_le[of a "Suc i"] v
    by (simp only: word_less_nat_alt) (simp add: acl_valid_def)
  have idx: "(ucast (word_of_nat i :: USHORT) :: ULONG) = idx \<longleftrightarrow> unat idx = i"
    using i acl_valid_bounds(2)[OF v] by (intro index_eq_iff) simp
  have sub: "(word_of_nat (ace_pos a i) :: USHORT) - 8 = word_of_nat (ace_off a i)"
    by (simp add: ace_pos_def)
  have suc: "(word_of_nat i :: USHORT) + 1 = word_of_nat (Suc i)"
    by simp
  show ?case
    using acl_at_entry(1)[OF assms(1) i] Suc.IH[of "Suc i"] Suc.prems ace_pos_unat(1)[OF v, of i]
      RtlpValidAceHeader_wf(1,2)[OF wf] ace_pos_step[OF i] o1 o2 idx sub i
    by (simp only: ace_index_loop.simps suc) (auto simp: RtlpValidAce_eq Let_def)
qed

text \<open>The location of an entry, of the end of the list (index \<^verbatim>\<open>(ULONG) -1\<close>), or an error.\<close>

lemma RtlpGetAceLocationFromIndex_correct:
  assumes "acl_at m a"
  shows "RtlpGetAceLocationFromIndex m idx =
    (if unat idx < length (acl_aces a)
     then Some (STATUS_SUCCESS, word_of_nat (acl_used a), word_of_nat (ace_off a (unat idx)),
            Some (ace_pos a (unat idx)))
     else if idx = - 1
     then Some (STATUS_SUCCESS, word_of_nat (acl_used a), word_of_nat (acl_used a) - 8, Some (acl_used a))
     else Some (STATUS_INVALID_PARAMETER, 0, 0, None))"
proof -
  let ?n = "length (acl_aces a)"
  have v: "acl_valid a"
    using assms by (simp add: acl_at_def)
  have n: "unat (word_of_nat ?n :: USHORT) = ?n" "?n < 65536"
    using acl_valid_bounds(2)[OF v] by (simp_all add: unat_short)
  have un: "unat (ucast (word_of_nat ?n :: USHORT) :: ULONG) = ?n"
    using n by (simp add: unsigned_ucast_eq take_bit_nat_eq_self)
  have ge: "idx \<ge> ucast (word_of_nat ?n :: USHORT) \<longleftrightarrow> \<not> unat idx < ?n"
    by (simp only: word_le_nat_alt un not_less)
  have u: "unat (word_of_nat (acl_used a) :: USHORT) = acl_used a" "8 \<le> acl_used a"
    using unat_short[OF acl_valid_bounds(1)[OF v]] by (simp, simp add: acl_used_def)
  have sz: "\<not> word_of_nat (acl_used a) > acl_size a"
    using v u by (simp add: word_less_nat_alt acl_valid_def)
  have e: "unat (word_of_nat (acl_used a) - 8 :: USHORT) = acl_used a - 8"
    using u by (subst unat_sub) (simp_all add: word_le_nat_alt)
  have off: "(word_of_nat (ace_off a i) :: USHORT) = 0 \<longleftrightarrow> ace_off a i = 0" for i
    using ace_pos_unat(2)[OF v, of i] by (simp only: word_unat_eq_iff unsigned_0)
  have pos: "ace_off a i \<noteq> 0" if "i \<noteq> 0" "i < ?n" for i
    using that acl_at_entry(2)[OF assms, of 0] by (cases i; cases "acl_aces a") (auto simp: ace_off_def ace_wf_def)
  have m1: "\<not> unat (- 1 :: ULONG) < ?n"
    using n(2) by (simp add: unat_end_index)
  have z: "unat idx = 0 \<longleftrightarrow> idx = 0"
    by (simp add: unat_eq_0)
  note loop = ace_index_loop_correct[OF assms, of 0 ?n idx 0]
  note simps = RtlpGetAceLocationFromIndex_def Let_def ge acl_at_fields[OF assms] n
  consider (entry) "unat idx < ?n" | (last) "idx = - 1" | (bad) "\<not> unat idx < ?n" "idx \<noteq> - 1"
    by blast
  then show ?thesis
  proof cases
    case entry
    then have "ace_off a (unat idx) = 0 \<longrightarrow> idx = 0" "idx \<noteq> - 1"
      using pos[of "unat idx"] z m1 by auto
    then show ?thesis
      using entry loop sz off[of "unat idx"] ace_pos_unat(2)[OF v, of "unat idx"]
      by (auto simp: simps ace_pos_def)
  next
    case last
    then show ?thesis
      using loop sz e u m1 by (simp add: simps)
  next
    case bad
    then show ?thesis
      by (simp add: simps)
  qed
qed

lemma RtlGetAce_correct:
  assumes "acl_at m a"
  shows "RtlGetAce m idx =
    (if unat idx < length (acl_aces a) then Some (STATUS_SUCCESS, Some (ace_pos a (unat idx)))
     else Some (STATUS_INVALID_PARAMETER, None))"
proof -
  have "length (acl_aces a) < 65536"
    using acl_valid_bounds(2)[of a] assms by (simp add: acl_at_def)
  then show ?thesis
    using RtlpGetAceLocationFromIndex_correct[OF assms, of idx]
    by (auto simp: RtlGetAce_def unat_end_index)
qed

text \<open>Deletion by index is removal by offset.\<close>

lemma RtlDeleteAce_eq:
  assumes "acl_at m a"
  shows "RtlDeleteAce m idx =
    (if unat idx < length (acl_aces a)
     then map_option (\<lambda>(status, m', _). (status, m'))
       (RtlRemoveAce m (word_of_nat (acl_used a)) (ace_cursor a (unat idx)))
     else Some (STATUS_INVALID_PARAMETER, m))"
proof -
  have v: "acl_valid a" and n: "length (acl_aces a) < 65536"
    using acl_valid_bounds(2)[of a] assms by (simp_all add: acl_at_def)
  have "ace_cursor a i \<noteq> 0xFFFF" if "i < length (acl_aces a)" for i
    using ace_off_lt_end(1)[OF v that] that by (simp add: ace_cursor_def)
  then show ?thesis
    using RtlpGetAceLocationFromIndex_correct[OF assms, of idx] n
      RtlpGetAceLocationFromOffset_cursor[OF assms, of "unat idx"]
    by (cases "RtlpRemoveAceFromLocation m (word_of_nat (acl_used a)) (ace_pos a (unat idx))")
      (auto simp: RtlDeleteAce_def RtlRemoveAce_def unat_end_index)
qed

section \<open>Lists of entries\<close>

lemma ace_list_loop_complete:
  assumes "\<forall>ace \<in> set as. ace_wf ace" and "length pre + length (concat as) = len"
  shows "ace_list_loop (pre @ concat as @ r) len (length pre) c =
    Some (STATUS_SUCCESS, len, c + word_of_nat (length as))"
  using assms
proof (induction as arbitrary: pre c)
  case Nil
  then show ?case
    by (subst ace_list_loop.simps) simp
next
  case (Cons x as)
  have wf: "ace_wf x"
    using Cons.prems by simp
  have lx: "4 \<le> length x" "unat (word_of_nat (length x) :: USHORT) = length x"
    using wf RtlpValidAceHeader_wf(3)[OF wf] by (simp_all add: ace_wf_def)
  have p: "ptr_add (pre @ x @ concat as @ r) (length pre) = Some (x @ concat as @ r)"
    by (simp add: ptr_add_def)
  have "ace_list_loop ((pre @ x) @ concat as @ r) len (length (pre @ x)) (c + 1) =
      Some (STATUS_SUCCESS, len, c + 1 + word_of_nat (length as))"
    using Cons.prems by (intro Cons.IH) simp_all
  then show ?case
    using Cons.prems(2) p lx RtlpValidAceHeader_wf(1,2)[OF wf]
    by (subst ace_list_loop.simps) (simp add: RtlpValidAce_eq add.assoc)
qed

lemma ace_list_loop_sound:
  assumes "ace_list_loop l len off c = Some (STATUS_SUCCESS, e, c')" and "len \<le> length l" and "off \<le> len"
  shows "e = len \<and> (\<exists>as. (\<forall>ace \<in> set as. ace_wf ace) \<and> take (len - off) (drop off l) = concat as
    \<and> c' = c + word_of_nat (length as))"
  using assms
proof (induction l len off c rule: ace_list_loop.induct)
  case (1 l len off c)
  show ?case
  proof (cases "off < len")
    case False
    then show ?thesis
      using "1.prems" by (subst (asm) ace_list_loop.simps) (auto intro: exI[of _ "[]"])
  next
    case True
    then obtain p s where p: "ptr_add l off = Some p" and s: "ace_AceSize p = Some s"
      and le: "\<not> off + unat s > len" "\<not> 4 + off > len" and v: "RtlpValidAce (Some p) = Some True"
      and rest: "ace_list_loop l len (off + unat s) (c + 1) = Some (STATUS_SUCCESS, e, c')"
      using "1.prems"(1) by (subst (asm) ace_list_loop.simps) (auto split: if_splits option.splits)
    have p': "p = drop off l"
      using p by (simp add: ptr_add_def split: if_splits)
    obtain as where as: "e = len" "\<forall>ace \<in> set as. ace_wf ace"
      "take (len - (off + unat s)) (drop (off + unat s) l) = concat as"
      "c' = c + 1 + word_of_nat (length as)"
      using "1.IH"[OF True le(2) p s le(1) v] rest "1.prems"(2) le by auto
    have "ace_wf (take (unat s) p)"
      using RtlpValidAceHeader_Some(1)[of p s] v s le "1.prems"(2) p' by (simp add: RtlpValidAce_eq)
    moreover have "take (len - off) p = take (unat s) p @ concat as"
      using take_add[of "unat s" "len - (off + unat s)" p] le as(3) p' by (simp add: add.commute)
    ultimately show ?thesis
      using as p' by (intro conjI exI[of _ "take (unat s) p # as"]) auto
  qed
qed

lemma length_concat_pos:
  assumes "\<forall>ace \<in> set as. ace_wf ace" and "as \<noteq> []"
  shows "0 < length (concat as)"
proof -
  have "0 < length as"
    using assms(2) by simp
  then show ?thesis
    using length_concat_aces[OF assms(1)] by linarith
qed

text \<open>The accepted lists are the nonempty concatenations of well-formed entries that fit an access
  control list, and the count is the number of entries.\<close>

lemma RtlpValidAceList_complete:
  assumes "\<forall>ace \<in> set as. ace_wf ace" and "as \<noteq> []" and "length (concat as) \<le> 65527"
  shows "RtlpValidAceList rv (concat as @ r) (word_of_nat (length (concat as))) =
    Some (STATUS_SUCCESS, word_of_nat (length as))"
proof -
  have u: "unat (word_of_nat (length (concat as)) :: ULONG) = length (concat as)"
    using assms(3) by (intro unat_of_nat_small) simp
  have "(word_of_nat (length (concat as)) :: ULONG) \<noteq> 0"
    using u length_concat_pos[OF assms(1,2)] by (metis less_irrefl unsigned_0)
  then show ?thesis
    using assms(3) u ace_list_loop_complete[OF assms(1), of "[]" "length (concat as)" r 0]
    by (simp only: RtlpValidAceList_def) simp
qed

lemma RtlpValidAceList_sound:
  assumes "RtlpValidAceList rv l len = Some (STATUS_SUCCESS, n)" and "unat len \<le> length l"
  shows "\<exists>as. (\<forall>ace \<in> set as. ace_wf ace) \<and> as \<noteq> [] \<and> take (unat len) l = concat as
    \<and> unat n = length as \<and> unat len \<le> 65527"
proof -
  from assms(1) have b: "len \<noteq> 0" "unat len \<le> 65527"
    and "ace_list_loop l (unat len) 0 0 = Some (STATUS_SUCCESS, unat len, n)"
    by (auto simp: RtlpValidAceList_def bind_eq_Some_conv split: if_splits)
  then obtain as where as: "\<forall>ace \<in> set as. ace_wf ace" "take (unat len) l = concat as"
    "n = word_of_nat (length as)"
    using ace_list_loop_sound[of l "unat len" 0 0 "unat len" n] assms(2) by auto
  have lc: "length (concat as) = unat len"
    using as(2) assms(2) by (metis length_take min.absorb2)
  then have "as \<noteq> []"
    using b(1) by (auto simp: unat_eq_0)
  moreover have "length as < 65536"
    using length_concat_aces[OF as(1)] lc b(2) by simp
  ultimately show ?thesis
    using as b by (auto simp: unat_short)
qed

lemma acl_add_position:
  assumes "acl_at m a" and "unat idx < length (acl_aces a) \<or> idx = - 1"
  defines "i \<equiv> if idx = - 1 then length (acl_aces a) else unat idx"
  shows "RtlpGetAceLocationFromIndex m idx =
    Some (STATUS_SUCCESS, word_of_nat (acl_used a), word_of_nat (ace_off a i), Some (ace_pos a i))"
proof -
  have "length (acl_aces a) < 65536"
    using acl_valid_bounds(2)[of a] assms(1) by (simp add: acl_at_def)
  moreover have "(word_of_nat (acl_used a) - 8 :: USHORT) = word_of_nat (ace_off a (length (acl_aces a)))"
    by (simp add: acl_used_def ace_off_def)
  ultimately show ?thesis
    using RtlpGetAceLocationFromIndex_correct[OF assms(1), of idx] assms(2) ace_pos_length[of a]
    by (auto simp: i_def unat_end_index)
qed

lemma RtlAddAce_correct:
  assumes "acl_at m a" and "unat idx < length (acl_aces a) \<or> idx = - 1"
    and "\<forall>ace \<in> set as. ace_wf ace" and "as \<noteq> []" and "rv = 2 \<or> rv = 4" and "rv \<le> ucast (acl_rev a)"
    and "acl_used a + length (concat as) \<le> 65535"
  defines "i \<equiv> if idx = - 1 then length (acl_aces a) else unat idx"
  shows "if unat (acl_size a) < acl_used a + length (concat as)
    then RtlAddAce m rv idx (Some (concat as @ r)) (word_of_nat (length (concat as))) =
      Some (STATUS_BUFFER_TOO_SMALL, m)
    else \<exists>m'. RtlAddAce m rv idx (Some (concat as @ r)) (word_of_nat (length (concat as))) =
      Some (STATUS_SUCCESS, m') \<and> acl_at m' (acl_insert a i as)"
proof -
  let ?l = "length (concat as)"
  have lc: "?l \<le> 65527" "4 * length as \<le> ?l" "0 < ?l"
    using assms(7) length_concat_aces[OF assms(3)] length_concat_pos[OF assms(3,4)]
    by (simp_all only: acl_used_def)
  have u: "unat (word_of_nat ?l :: ULONG) = ?l" "unat (word_of_nat ?l :: USHORT) = ?l"
    "unat (word_of_nat (length as) :: USHORT) = length as"
    using lc by (simp_all add: unat_of_nat_small)
  have c: "(ucast (word_of_nat ?l :: ULONG) :: USHORT) = word_of_nat ?l"
    using u by (metis of_nat_unat)
  have nz: "(word_of_nat ?l :: ULONG) \<noteq> 0"
    using u lc by (metis less_irrefl unsigned_0)
  have rev: "RtlpValidAclRevision rv" "\<not> rv > ucast (acl_rev a)"
    using assms(5,6) by (auto simp: RtlpValidAclRevision_def)
  note room = RtlpMakeRoomForAceAtLocation_correct[OF assms(1), of "word_of_nat ?l" i]
  note simps = RtlAddAce_def nz acl_at_fields[OF assms(1)] rev RtlpValidAceList_complete[OF assms(3,4) lc(1)]
    acl_add_position[OF assms(1,2), folded i_def] c u
  show ?thesis
  proof (cases "unat (acl_size a) < acl_used a + ?l")
    case True
    then show ?thesis
      using room assms(7) by (simp only: simps if_True) (simp add: simps)
  next
    case False
    let ?m = "acl_hdr (acl_rev a) (acl_size a) (length (acl_aces a) + length as)
      @ concat (take i (acl_aces a)) @ concat as @ concat (drop i (acl_aces a))
      @ drop (acl_used a + ?l) m"
    have x: "length (take ?l (concat (drop i (acl_aces a)) @ drop (acl_used a) m)) = length (concat as)"
      using False assms(1) by (auto simp: acl_at_def)
    have q: "\<not> ?l > unat (acl_size a) - 8"
      using False by (simp add: acl_used_def)
    have cp: "memcpy y (ace_pos a i) (concat as @ r) 0 ?l = wrn y (ace_pos a i) (concat as)" for y
      by (simp add: memcpy_def)
    have "RtlAddAce m rv idx (Some (concat as @ r)) (word_of_nat ?l) = Some (STATUS_SUCCESS, ?m)"
      using False room assms(7) q
        fill_room[OF x, of a i "concat (drop i (acl_aces a)) @ drop (acl_used a + ?l) m"]
      by (simp add: simps cp bind_eq_Some_conv del: take_append)
    moreover have "acl_at ?m (acl_insert a i as)"
      using False by (intro acl_at_insert[OF assms(1,3)]) simp
    ultimately show ?thesis
      using False by (simp only: if_False) blast
  qed
qed

section \<open>Insertion in canonical order\<close>

text \<open>The four classes of the comment in \<^verbatim>\<open>RtlpCompareAceFlagsForInsert\<close>, and the position of an
  entry in the canonical order: denied entries, then allowed ones, each by class.\<close>

definition flags_rank :: "ULONG \<Rightarrow> nat" where
  "flags_rank f = (if IsSetFlag f INHERITED_ACE then 2 else 0) + (if IsSetFlag f INHERIT_ONLY_ACE then 0 else 1)"

definition ace_rank :: "UCHAR \<Rightarrow> ULONG \<Rightarrow> nat" where
  "ace_rank t f = (if t = ACCESS_ALLOWED_ACE_TYPE then 4 else 0) + flags_rank f"

definition entry_rank :: "mem \<Rightarrow> nat" where
  "entry_rank ace = ace_rank (ace ! 0) (ucast (ace ! 1))"

definition access_entry :: "mem \<Rightarrow> bool" where
  "access_entry ace \<longleftrightarrow> ace ! 0 = ACCESS_ALLOWED_ACE_TYPE \<or> ace ! 0 = ACCESS_DENIED_ACE_TYPE"

definition canonical :: "mem list \<Rightarrow> bool" where
  "canonical as \<longleftrightarrow> (\<forall>ace \<in> set as. access_entry ace) \<and> sorted (map entry_rank as)"

definition insert_position :: "nat \<Rightarrow> mem list \<Rightarrow> nat" where
  "insert_position r as = length (takeWhile (\<lambda>ace. entry_rank ace < r) as)"

lemma flags_rank_lt: "flags_rank f < 4"
  by (simp add: flags_rank_def)

lemma RtlpCompareAceFlagsForInsert_rank:
  "RtlpCompareAceFlagsForInsert f g = sgn (int (flags_rank f) - int (flags_rank g))"
  by (simp add: RtlpCompareAceFlagsForInsert_def flags_rank_def Let_def)

lemma compare_le_0:
  "RtlpCompareAceFlagsForInsert f g \<le> 0 \<longleftrightarrow> flags_rank f \<le> flags_rank g"
  unfolding RtlpCompareAceFlagsForInsert_rank by (simp add: sgn_if)

lemma stop_rank:
  assumes "ace_wf ace" and "access_entry ace"
  shows "allowed_stop f (ace @ r) = Some (ace_rank 0 f \<le> entry_rank ace)"
    and "denied_stop f (ace @ r) = Some (ace_rank 1 f \<le> entry_rank ace)"
proof -
  have "ace_AceType (ace @ r) = Some (ace ! 0)" "ace_AceFlags (ace @ r) = Some (ace ! 1)"
    using assms(1) by (simp_all add: ace_wf_def ace_AceType_def ace_AceFlags_def rd8_def rdn_def dec8_def nth_append)
  then show "allowed_stop f (ace @ r) = Some (ace_rank 0 f \<le> entry_rank ace)"
    "denied_stop f (ace @ r) = Some (ace_rank 1 f \<le> entry_rank ace)"
    using assms(2) flags_rank_lt[of "ucast (ace ! 1)"] flags_rank_lt[of f]
    by (auto simp: allowed_stop_def denied_stop_def compare_le_0 entry_rank_def ace_rank_def access_entry_def)
qed

lemma add_search_loop_correct:
  assumes "acl_at m a" and "i + n = length (acl_aces a)"
    and "\<And>ace r. ace \<in> set (acl_aces a) \<Longrightarrow> stop (ace @ r) = Some (rk \<le> entry_rank ace)"
  shows "\<exists>loc'. add_search_loop stop m (word_of_nat (acl_used a)) (ace_cursor a i) loc i n =
      Some (STATUS_SUCCESS, i + insert_position rk (drop i (acl_aces a)), loc')
    \<and> (i + insert_position rk (drop i (acl_aces a)) < length (acl_aces a) \<longrightarrow>
        loc' = Some (ace_pos a (i + insert_position rk (drop i (acl_aces a)))))"
  using assms(2)
proof (induction n arbitrary: i loc)
  case 0
  then show ?case
    by (simp add: insert_position_def)
next
  case (Suc n)
  then have i: "i < length (acl_aces a)"
    by simp
  have d: "drop i (acl_aces a) = acl_aces a ! i # drop (Suc i) (acl_aces a)"
    using i by (simp add: Cons_nth_drop_Suc)
  note st = RtlIterateAce_step[OF assms(1) i] acl_at_entry(1)[OF assms(1) i]
    assms(3)[of "acl_aces a ! i" "concat (drop (Suc i) (acl_aces a)) @ drop (acl_used a) m"]
  show ?case
  proof (cases "rk \<le> entry_rank (acl_aces a ! i)")
    case True
    then show ?thesis
      using st i by (simp add: d insert_position_def)
  next
    case False
    then have "insert_position rk (drop i (acl_aces a)) = Suc (insert_position rk (drop (Suc i) (acl_aces a)))"
      by (simp add: d insert_position_def)
    then show ?thesis
      using st i False Suc.IH[of "Suc i" "Some (ace_pos a i)"] Suc.prems by simp
  qed
qed

lemma insert_position_le: "insert_position rk as \<le> length as"
  by (simp add: insert_position_def length_takeWhile_le)

lemma canonical_insert:
  assumes "canonical as" and "access_entry x" and "entry_rank x = rk"
  shows "canonical (take (insert_position rk as) as @ [x] @ drop (insert_position rk as) as)"
proof -
  have t: "take (insert_position rk as) as = takeWhile (\<lambda>ace. entry_rank ace < rk) as"
    and d: "drop (insert_position rk as) as = dropWhile (\<lambda>ace. entry_rank ace < rk) as"
    by (simp_all add: insert_position_def takeWhile_eq_take[symmetric] dropWhile_eq_drop[symmetric])
  have s: "sorted (map entry_rank as)"
    using assms(1) by (simp add: canonical_def)
  have lo: "entry_rank y < rk" if "y \<in> set (take (insert_position rk as) as)" for y
    using that unfolding t by (auto dest: set_takeWhileD)
  have hi: "rk \<le> entry_rank y" if y: "y \<in> set (drop (insert_position rk as) as)" for y
  proof -
    obtain z zs where z: "drop (insert_position rk as) as = z # zs"
      using y by (metis empty_iff list.exhaust list.set(1))
    then have "\<not> entry_rank z < rk"
      using d by (metis dropWhile_eq_Cons_conv)
    moreover have "sorted (map entry_rank (z # zs))"
      using s z by (metis sorted_wrt_drop drop_map)
    ultimately show ?thesis
      using y z by auto
  qed
  have cross: "entry_rank y \<le> entry_rank z"
    if "y \<in> set (take (insert_position rk as) as)" "z \<in> set (drop (insert_position rk as) as)" for y z
    using lo[OF that(1)] hi[OF that(2)] by simp
  have "sorted (map entry_rank (take (insert_position rk as) as))"
    "sorted (map entry_rank (drop (insert_position rk as) as))"
    using s by (metis sorted_wrt_take take_map, metis sorted_wrt_drop drop_map)
  moreover have "\<forall>ace \<in> set as. access_entry ace"
    using assms(1) by (simp add: canonical_def)
  ultimately show ?thesis
    using assms(2,3) lo hi cross
    by (auto simp: canonical_def sorted_append dest: in_set_takeD in_set_dropD intro: less_imp_le)
qed

lemma entry_rank_new:
  assumes "LW_IS_VALID_FLAGS (ucast F :: USHORT) VALID_ACE_FLAGS_MASK"
  shows "entry_rank (ace_bytes (mk_ace t (ucast F) am s)) = ace_rank t F"
proof -
  have "IsSetFlag (ucast (ucast (ucast F :: USHORT) :: UCHAR) :: ULONG) g = IsSetFlag F g"
    if "g = 0x10 \<or> g = 8" for g :: ULONG
  proof -
    have "ucast (ucast (ucast F :: USHORT) :: UCHAR) AND g = F AND take_bit 8 g"
      by (rule bit_word_eqI) (auto simp: bit_simps)
    moreover have "take_bit 8 g = g"
      using that by auto
    ultimately show ?thesis
      by (simp add: IsSetFlag_def)
  qed
  then show ?thesis
    by (simp add: entry_rank_def ace_rank_def flags_rank_def ace_bytes_def)
qed

lemma add_ace_checks_pass:
  assumes "acl_at m a" and "sid_of sm = Some s" and "sid_valid s" and "rv = 2 \<or> rv = 4"
    and "rv \<le> ucast (acl_rev a)"
  shows "add_ace_checks m rv (Some sm) body = body sm"
  using assms RtlValidSid_correct[OF assms(2)] acl_at_fields[OF assms(1)]
  by (auto simp: add_ace_checks_def RtlpValidAclRevision_def)

text \<open>The block with the entries from a position on moved up, and the place they leave not yet written.\<close>

definition moved_block :: "ACL \<Rightarrow> mem \<Rightarrow> nat \<Rightarrow> nat \<Rightarrow> mem" where
  "moved_block a m i n = acl_pre a i @ take n (concat (drop i (acl_aces a)) @ drop (acl_used a) m)
     @ concat (drop i (acl_aces a)) @ drop (acl_used a + n) m"

context ace_initializer
begin

text \<open>The code shared by the add functions is the end of the insert functions.\<close>

lemma store_new_ace_eq:
  assumes "acl_at m a" and "i \<le> length (acl_aces a)" and "sid_of sm = Some s" and "sid_valid s"
  shows "store_new_ace len init m (word_of_nat (acl_used a)) (ace_pos a i) F am sm =
    map_option (\<lambda>(status, m', _). (status, m'))
      (insert_access_ace len init m (word_of_nat (acl_used a)) (ace_cursor a i) (ucast F) am (Some sm))"
  using RtlpGetAceLocationFromOffset_cursor[OF assms(1,2)] RtlValidSid_correct[OF assms(3)] assms(4)
  by (auto simp: store_new_ace_def insert_access_ace_def split: option.splits bind_split)

lemma store_new_ace_correct:
  assumes "acl_at m a" and "i \<le> length (acl_aces a)" and "sid_of sm = Some s" and "sid_valid s"
    and "acl_used a + sid_ace_length s \<le> unat (acl_size a)"
    and "LW_IS_VALID_FLAGS (ucast F :: USHORT) 0xDF" and "mask_ok am"
  shows "\<exists>m'. store_new_ace len init m (word_of_nat (acl_used a)) (ace_pos a i) F am sm =
        Some (STATUS_SUCCESS, m')
      \<and> acl_at m' (acl_insert a i [ace_bytes (mk_ace ty (ucast F) am s)])"
  using insert_correct[OF assms] store_new_ace_eq[OF assms(1-4), of F am] by auto

lemma store_new_ace_no_room:
  assumes "acl_at m a" and "sid_of sm = Some s" and "unat (acl_size a) < acl_used a + sid_ace_length s"
  shows "\<exists>e. \<not> NT_SUCCESS e \<and> store_new_ace len init m (word_of_nat (acl_used a)) (ace_pos a i) F am sm = Some (e, m)"
proof -
  have "acl_used a < 65536"
    using assms(1) acl_valid_bounds(1) by (simp add: acl_at_def)
  moreover have "unat (word_of_nat (sid_ace_length s) :: USHORT) = sid_ace_length s"
    using sid_of_Some[OF assms(2)] sid_ace_length_lt[of s] by (intro unat_short) simp
  ultimately show ?thesis
    using assms(3) len_law[OF assms(2)] acl_at_fields(2)[OF assms(1)]
    by (simp add: store_new_ace_def RtlpMakeRoomForAceAtLocation_def RtlpCheckEnoughAclBuffer_def unat_short Let_def)
qed

text \<open>A refusal of the initializer comes after the entries were moved, and leaves them there.\<close>

lemma store_new_ace_refused:
  assumes "acl_at m a" and "i \<le> length (acl_aces a)" and "sid_of sm = Some s" and "sid_valid s"
    and "acl_used a + sid_ace_length s \<le> unat (acl_size a)"
    and "\<not> (LW_IS_VALID_FLAGS (ucast F :: USHORT) 0xDF \<and> mask_ok am)"
  shows "store_new_ace len init m (word_of_nat (acl_used a)) (ace_pos a i) F am sm =
    Some (STATUS_INVALID_PARAMETER, moved_block a m i (sid_ace_length s))"
proof -
  let ?n = "sid_ace_length s"
  have v: "acl_valid a" and m: "unat (acl_size a) \<le> length m"
    using assms(1) by (simp_all add: acl_at_def)
  have n: "unat (word_of_nat ?n :: USHORT) = ?n"
    using sid_of_Some[OF assms(3)] sid_ace_length_lt[of s] by (intro unat_short) simp
  have l: "unat (ucast (word_of_nat ?n :: USHORT) :: ULONG) = ?n"
    using n sid_of_Some[OF assms(3)] sid_ace_length_lt[of s] by (simp add: unsigned_ucast_eq take_bit_nat_eq_self)
  have used: "length (acl_pre a i) + length (concat (drop i (acl_aces a))) = acl_used a"
    using length_concat_take_drop[of i "acl_aces a"] by (simp add: acl_pre_def acl_used_def)
  have "length (moved_block a m i ?n) = length m" "ace_pos a i + ?n \<le> length m"
    using used assms(5) m by (simp_all add: moved_block_def ace_pos_def ace_off_def acl_pre_def)
  then have "init (moved_block a m i ?n) (ace_pos a i) (ucast (word_of_nat ?n :: USHORT)) (ucast F) am sm =
      Some (STATUS_INVALID_PARAMETER, moved_block a m i ?n)"
    using init_law[OF assms(3), of "ucast (word_of_nat ?n :: USHORT)" "moved_block a m i ?n" "ace_pos a i"] l assms(6) by auto
  moreover have "RtlpMakeRoomForAceAtLocation m (word_of_nat (acl_used a)) (ace_pos a i) (word_of_nat ?n) =
      Some (STATUS_SUCCESS, moved_block a m i ?n)"
    using RtlpMakeRoomForAceAtLocation_correct[OF assms(1), of "word_of_nat ?n" i] n assms(5) acl_valid_bounds(1)[OF v]
      unsigned_less[of "acl_size a", where 'a = nat]
    by (simp add: moved_block_def)
  ultimately show ?thesis
    using len_law[OF assms(3)] by (simp add: store_new_ace_def)
qed

text \<open>The search ends at the position of the new entry.\<close>

lemma add_eq:
  assumes "acl_at m a" and "sid_of sm = Some s" and "sid_valid s" and "rv = 2 \<or> rv = 4"
    and "rv \<le> ucast (acl_rev a)"
    and "\<And>ace r. ace \<in> set (acl_aces a) \<Longrightarrow> stop (ace @ r) = Some (rk \<le> entry_rank ace)"
  shows "add_access_ace len init stop m rv F am (Some sm) =
    store_new_ace len init m (word_of_nat (acl_used a)) (ace_pos a (insert_position rk (acl_aces a))) F am sm"
proof -
  let ?n = "length (acl_aces a)" and ?i = "insert_position rk (acl_aces a)"
  have v: "acl_valid a"
    using assms(1) by (simp add: acl_at_def)
  have n: "unat (word_of_nat ?n :: USHORT) = ?n"
    using acl_valid_bounds(2)[OF v] by (simp add: unat_short)
  have cur: "ace_cursor a 0 = 0" if "acl_aces a \<noteq> []"
    using that by (simp add: ace_cursor_def)
  obtain loc where loop: "add_search_loop stop m (word_of_nat (acl_used a)) (ace_cursor a 0) None 0 ?n =
      Some (STATUS_SUCCESS, ?i, loc)" and loc: "?i < ?n \<Longrightarrow> loc = Some (ace_pos a ?i)"
    using add_search_loop_correct[OF assms(1), of 0 ?n stop rk None] assms(6) by auto
  have fin: "RtlpGetAceLocationFromIndex m (- 1) =
      Some (STATUS_SUCCESS, word_of_nat (acl_used a), word_of_nat (ace_off a ?n), Some (ace_pos a ?n))"
    using acl_add_position[OF assms(1), of "- 1"] by simp
  show ?thesis
    using loop loc fin cur n acl_at_fields(3)[OF assms(1)] RtlGetAclSizeUsed_correct[OF assms(1)]
      insert_position_le[of rk "acl_aces a"]
    by (cases "acl_aces a = []"; cases "?i = ?n")
      (simp_all add: add_access_ace_def add_ace_checks_pass[OF assms(1-5)])
qed

lemma add_correct:
  assumes "acl_at m a" and "sid_of sm = Some s" and "sid_valid s" and "rv = 2 \<or> rv = 4"
    and "rv \<le> ucast (acl_rev a)" and "acl_used a + sid_ace_length s \<le> unat (acl_size a)"
    and "LW_IS_VALID_FLAGS (ucast F :: USHORT) 0xDF" and "mask_ok am"
    and "\<And>ace r. ace \<in> set (acl_aces a) \<Longrightarrow> stop (ace @ r) = Some (rk \<le> entry_rank ace)"
  shows "\<exists>m'. add_access_ace len init stop m rv F am (Some sm) = Some (STATUS_SUCCESS, m')
      \<and> acl_at m' (acl_insert a (insert_position rk (acl_aces a)) [ace_bytes (mk_ace ty (ucast F) am s)])"
  using store_new_ace_correct[OF assms(1) insert_position_le assms(2,3,6-8), of rk]
    add_eq[where stop = stop and rk = rk, OF assms(1-5)] assms(9) by simp

end

text \<open>The add functions put the entry at its place and keep a canonical list canonical.\<close>

lemma RtlAddAccessAllowedAceEx_canonical:
  assumes "acl_at m a" and "canonical (acl_aces a)" and "sid_of sm = Some s" and "sid_valid s"
    and "rv = 2 \<or> rv = 4" and "rv \<le> ucast (acl_rev a)"
    and "acl_used a + sid_ace_length s \<le> unat (acl_size a)"
    and "LW_IS_VALID_FLAGS (ucast F :: USHORT) VALID_ACE_FLAGS_MASK"
  shows "\<exists>m' a'. RtlAddAccessAllowedAceEx m rv F am (Some sm) = Some (STATUS_SUCCESS, m') \<and> acl_at m' a'
    \<and> a' = acl_insert a (insert_position (ace_rank 0 F) (acl_aces a)) [ace_bytes (mk_ace 0 (ucast F) am s)]
    \<and> canonical (acl_aces a')"
proof -
  let ?x = "ace_bytes (mk_ace 0 (ucast F) am s)"
  have "access_entry ?x"
    by (simp add: access_entry_def ace_bytes_def)
  then have "canonical (acl_aces (acl_insert a (insert_position (ace_rank 0 F) (acl_aces a)) [?x]))"
    using canonical_insert[OF assms(2), of ?x "ace_rank 0 F"] entry_rank_new[OF assms(8), of 0 am s]
    by (simp add: acl_insert_def)
  moreover have "allowed_stop F (ace @ r) = Some (ace_rank 0 F \<le> entry_rank ace)" if "ace \<in> set (acl_aces a)" for ace r
    using that assms(1,2) by (intro stop_rank) (simp_all add: acl_at_def acl_valid_def canonical_def)
  ultimately show ?thesis
    using allowed.add_correct[OF assms(1,3-8), where stop = "allowed_stop F" and rk = "ace_rank 0 F"]
    by (auto simp: RtlAddAccessAllowedAceEx_def)
qed

lemma RtlAddAccessDeniedAceEx_canonical:
  assumes "acl_at m a" and "canonical (acl_aces a)" and "sid_of sm = Some s" and "sid_valid s"
    and "rv = 2 \<or> rv = 4" and "rv \<le> ucast (acl_rev a)"
    and "acl_used a + sid_ace_length s \<le> unat (acl_size a)"
    and "LW_IS_VALID_FLAGS (ucast F :: USHORT) VALID_ACE_FLAGS_MASK"
    and "LW_IS_VALID_FLAGS am VALID_DACL_ACCESS_MASK"
  shows "\<exists>m' a'. RtlAddAccessDeniedAceEx m rv F am (Some sm) = Some (STATUS_SUCCESS, m') \<and> acl_at m' a'
    \<and> a' = acl_insert a (insert_position (ace_rank 1 F) (acl_aces a)) [ace_bytes (mk_ace 1 (ucast F) am s)]
    \<and> canonical (acl_aces a')"
proof -
  let ?x = "ace_bytes (mk_ace 1 (ucast F) am s)"
  have "access_entry ?x"
    by (simp add: access_entry_def ace_bytes_def)
  then have "canonical (acl_aces (acl_insert a (insert_position (ace_rank 1 F) (acl_aces a)) [?x]))"
    using canonical_insert[OF assms(2), of ?x "ace_rank 1 F"] entry_rank_new[OF assms(8), of 1 am s]
    by (simp add: acl_insert_def)
  moreover have "denied_stop F (ace @ r) = Some (ace_rank 1 F \<le> entry_rank ace)" if "ace \<in> set (acl_aces a)" for ace r
    using that assms(1,2) by (intro stop_rank) (simp_all add: acl_at_def acl_valid_def canonical_def)
  ultimately show ?thesis
    using denied.add_correct[OF assms(1,3-9), where stop = "denied_stop F" and rk = "ace_rank 1 F"]
    by (auto simp: RtlAddAccessDeniedAceEx_def)
qed

lemma RtlAddSystemAuditAceEx_correct:
  assumes "acl_at m a" and "sid_of sm = Some s" and "sid_valid s"
    and "rv = 2 \<or> rv = 4" and "rv \<le> ucast (acl_rev a)"
    and "acl_used a + sid_ace_length s \<le> unat (acl_size a)"
    and "LW_IS_VALID_FLAGS (ucast F :: USHORT) VALID_ACE_FLAGS_MASK"
    and "LW_IS_VALID_FLAGS am VALID_DACL_ACCESS_MASK"
  shows "\<exists>m'. RtlAddSystemAuditAceEx m rv F am (Some sm) = Some (STATUS_SUCCESS, m')
    \<and> acl_at m' (acl_insert a (length (acl_aces a)) [ace_bytes (mk_ace 2 (ucast F) am s)])"
  using audit.store_new_ace_correct[OF assms(1) order_refl assms(2,3,6-8)]
    acl_add_position[OF assms(1), of "- 1"]
  by (simp add: RtlAddSystemAuditAceEx_def add_ace_checks_pass[OF assms(1-5)])

text \<open>Without room the add functions refuse and leave the block as it is.\<close>

lemma add_no_room:
  assumes "acl_at m a" and "canonical (acl_aces a)" and "sid_of sm = Some s" and "sid_valid s"
    and "rv = 2 \<or> rv = 4" and "rv \<le> ucast (acl_rev a)" and "unat (acl_size a) < acl_used a + sid_ace_length s"
  shows "\<exists>e. \<not> NT_SUCCESS e \<and> RtlAddAccessAllowedAceEx m rv F am (Some sm) = Some (e, m)"
    and "\<exists>e. \<not> NT_SUCCESS e \<and> RtlAddAccessDeniedAceEx m rv F am (Some sm) = Some (e, m)"
proof -
  have stop: "allowed_stop F (ace @ r) = Some (ace_rank 0 F \<le> entry_rank ace)"
    "denied_stop F (ace @ r) = Some (ace_rank 1 F \<le> entry_rank ace)" if "ace \<in> set (acl_aces a)" for ace r
    using that assms(1,2) by (intro stop_rank, simp_all add: acl_at_def acl_valid_def canonical_def)+
  show "\<exists>e. \<not> NT_SUCCESS e \<and> RtlAddAccessAllowedAceEx m rv F am (Some sm) = Some (e, m)"
    using allowed.add_eq[OF assms(1,3-6), where stop = "allowed_stop F" and rk = "ace_rank 0 F"] stop(1)
      allowed.store_new_ace_no_room[OF assms(1,3,7)] by (simp add: RtlAddAccessAllowedAceEx_def)
  show "\<exists>e. \<not> NT_SUCCESS e \<and> RtlAddAccessDeniedAceEx m rv F am (Some sm) = Some (e, m)"
    using denied.add_eq[OF assms(1,3-6), where stop = "denied_stop F" and rk = "ace_rank 1 F"] stop(2)
      denied.store_new_ace_no_room[OF assms(1,3,7)] by (simp add: RtlAddAccessDeniedAceEx_def)
qed

section \<open>Sequences of additions\<close>

text \<open>A client that grants and denies access in any order: flags, mask and identifier of each entry.\<close>

datatype access_op =
    Allow ULONG ACCESS_MASK SID
  | Deny ULONG ACCESS_MASK SID

fun access_op_ok :: "access_op \<Rightarrow> bool" where
  "access_op_ok (Allow F am s) \<longleftrightarrow> LW_IS_VALID_FLAGS (ucast F :: USHORT) VALID_ACE_FLAGS_MASK \<and> sid_valid s"
| "access_op_ok (Deny F am s) \<longleftrightarrow> LW_IS_VALID_FLAGS (ucast F :: USHORT) VALID_ACE_FLAGS_MASK \<and> sid_valid s
     \<and> LW_IS_VALID_FLAGS am VALID_DACL_ACCESS_MASK"

fun run_access_op :: "ULONG \<Rightarrow> mem \<Rightarrow> access_op \<Rightarrow> (NTSTATUS \<times> mem) option" where
  "run_access_op rv m (Allow F am s) = RtlAddAccessAllowedAceEx m rv F am (Some (sid_bytes s))"
| "run_access_op rv m (Deny F am s) = RtlAddAccessDeniedAceEx m rv F am (Some (sid_bytes s))"

fun run_access_ops :: "ULONG \<Rightarrow> mem \<Rightarrow> access_op list \<Rightarrow> mem option" where
  "run_access_ops rv m [] = Some m"
| "run_access_ops rv m (op # ops) = do { (_, m) \<leftarrow> run_access_op rv m op; run_access_ops rv m ops }"

text \<open>The entry of an operation, and the operations of a sequence that found room.\<close>

fun op_entry :: "access_op \<Rightarrow> mem" where
  "op_entry (Allow F am s) = ace_bytes (mk_ace ACCESS_ALLOWED_ACE_TYPE (ucast F) am s)"
| "op_entry (Deny F am s) = ace_bytes (mk_ace ACCESS_DENIED_ACE_TYPE (ucast F) am s)"

fun accepted_ops :: "ULONG \<Rightarrow> mem \<Rightarrow> access_op list \<Rightarrow> access_op list" where
  "accepted_ops rv m [] = []"
| "accepted_ops rv m (op # ops) =
    (case run_access_op rv m op of
       None \<Rightarrow> []
     | Some (e, m') \<Rightarrow> (if NT_SUCCESS e then [op] else []) @ accepted_ops rv m' ops)"

lemma set_acl_insert: "set (acl_aces (acl_insert a i [x])) = insert x (set (acl_aces a))"
  using set_append[of "take i (acl_aces a)" "drop i (acl_aces a)"] by (auto simp: acl_insert_def)

lemma acl_insert_fields [simp]: "acl_rev (acl_insert a i as) = acl_rev a" "acl_size (acl_insert a i as) = acl_size a"
  by (simp_all add: acl_insert_def)

lemma run_access_op_canonical:
  assumes "acl_at m a" and "canonical (acl_aces a)" and "access_op_ok op" and "rv = 2 \<or> rv = 4" and "rv \<le> ucast (acl_rev a)"
  shows "\<exists>e m' a'. run_access_op rv m op = Some (e, m') \<and> acl_at m' a' \<and> canonical (acl_aces a')
    \<and> acl_rev a' = acl_rev a \<and> acl_size a' = acl_size a
    \<and> set (acl_aces a') = (if NT_SUCCESS e then {op_entry op} else {}) \<union> set (acl_aces a)"
proof -
  have sid: "sid_of (sid_bytes s) = Some s" if "sid_valid s" for s
    using sid_of_bytes[of s "[]"] that by simp
  show ?thesis
  proof (cases op)
    case (Allow F am s)
    then have s: "sid_of (sid_bytes s) = Some s" "sid_valid s" "LW_IS_VALID_FLAGS (ucast F :: USHORT) VALID_ACE_FLAGS_MASK"
      using assms(3) sid by simp_all
    show ?thesis
      using RtlAddAccessAllowedAceEx_canonical[OF assms(1,2) s(1,2) assms(4,5) _ s(3), of am]
        add_no_room(1)[OF assms(1,2) s(1,2) assms(4,5), of F am] assms(1,2) Allow
      by (cases "unat (acl_size a) < acl_used a + sid_ace_length s") (fastforce simp: set_acl_insert)+
  next
    case (Deny F am s)
    then have s: "sid_of (sid_bytes s) = Some s" "sid_valid s" "LW_IS_VALID_FLAGS (ucast F :: USHORT) VALID_ACE_FLAGS_MASK"
      "LW_IS_VALID_FLAGS am VALID_DACL_ACCESS_MASK"
      using assms(3) sid by simp_all
    show ?thesis
      using RtlAddAccessDeniedAceEx_canonical[OF assms(1,2) s(1,2) assms(4,5) _ s(3,4)]
        add_no_room(2)[OF assms(1,2) s(1,2) assms(4,5), of F am] assms(1,2) Deny
      by (cases "unat (acl_size a) < acl_used a + sid_ace_length s") (fastforce simp: set_acl_insert)+
  qed
qed

lemma run_access_ops_canonical:
  assumes "acl_at m a" and "canonical (acl_aces a)" and "\<forall>op \<in> set ops. access_op_ok op"
    and "rv = 2 \<or> rv = 4" and "rv \<le> ucast (acl_rev a)"
  shows "\<exists>m' a'. run_access_ops rv m ops = Some m' \<and> acl_at m' a' \<and> canonical (acl_aces a') \<and> acl_size a' = acl_size a
    \<and> set (acl_aces a') = op_entry ` set (accepted_ops rv m ops) \<union> set (acl_aces a)"
  using assms
proof (induction ops arbitrary: m a)
  case (Cons op ops)
  obtain e m1 a1 where 1: "run_access_op rv m op = Some (e, m1)" "acl_at m1 a1" "canonical (acl_aces a1)"
    "acl_rev a1 = acl_rev a" "acl_size a1 = acl_size a"
    "set (acl_aces a1) = (if NT_SUCCESS e then {op_entry op} else {}) \<union> set (acl_aces a)"
    using run_access_op_canonical[OF Cons.prems(1,2) _ Cons.prems(4,5), of op] Cons.prems(3) by auto
  moreover obtain m' a' where "run_access_ops rv m1 ops = Some m'" "acl_at m' a'" "canonical (acl_aces a')"
    "acl_size a' = acl_size a1" "set (acl_aces a') = op_entry ` set (accepted_ops rv m1 ops) \<union> set (acl_aces a1)"
    using Cons.IH[OF 1(2,3)] Cons.prems(3-5) 1(4) by auto
  ultimately show ?case
    by (intro exI[of _ m'] exI[of _ a']) auto
qed auto

lemma created_acl_ops:
  assumes "RtlCreateAcl m len rv = Some (STATUS_SUCCESS, m0)" and "unat len \<le> length m"
    and "\<forall>op \<in> set ops. access_op_ok op"
  shows "\<exists>m' a. run_access_ops rv m0 ops = Some m' \<and> acl_at m' a \<and> unat (acl_size a) = unat len
    \<and> canonical (acl_aces a) \<and> set (acl_aces a) = op_entry ` set (accepted_ops rv m0 ops)"
proof -
  obtain u where i: "RtlInitializeAcl m len rv = Some (STATUS_SUCCESS, m0, u)"
    using assms(1) by (auto simp: RtlCreateAcl_def bind_eq_Some_conv)
  have rv: "rv = 2 \<or> rv = 4" and len: "unat len \<le> 65535"
    using i by (auto simp: RtlInitializeAcl_def split: if_splits)
  let ?a = "\<lparr> acl_rev = ucast rv, acl_size = ucast len, acl_aces = [] \<rparr>"
  have at: "acl_at m0 ?a"
    using RtlInitializeAcl_correct[OF assms(2), of rv] i by (auto split: if_splits)
  have "unat (ucast len :: USHORT) = unat len"
    using len by (simp add: unsigned_ucast_eq take_bit_nat_eq_self)
  moreover have "rv \<le> ucast (ucast rv :: UCHAR)"
    using rv by auto
  moreover from this obtain m' a where "run_access_ops rv m0 ops = Some m'" "acl_at m' a" "canonical (acl_aces a)"
    "acl_size a = ucast len"
    "set (acl_aces a) = op_entry ` set (accepted_ops rv m0 ops)"
    using run_access_ops_canonical[OF at _ assms(3) rv] by (auto simp: canonical_def)
  ultimately show ?thesis
    by metis
qed

section \<open>Properties\<close>

text \<open>C7. Starting from a freshly created list, every sequence of grants and denials whose flags and
  identifiers, and for denials masks, are valid leaves a well-formed list in canonical order: all denied entries
  before the allowed ones, and within each kind the explicit ones before the inherited ones.  Operations may be
  refused for lack of room; an operation with invalid flags or mask is excluded, since its refusal damages the list.\<close>

theorem add_sequence_canonical:
  assumes "RtlCreateAcl m len rv = Some (STATUS_SUCCESS, m0)" and "unat len \<le> length m"
    and "\<forall>op \<in> set ops. access_op_ok op"
  shows "\<exists>m' a. run_access_ops rv m0 ops = Some m' \<and> acl_at m' a \<and> unat (acl_size a) = unat len
    \<and> (\<forall>ace \<in> set (acl_aces a). access_entry ace) \<and> sorted (map entry_rank (acl_aces a))"
  using created_acl_ops[OF assms] unfolding canonical_def by blast

theorem add_sequence_canonical_witness:
  "\<exists>m0 m' a. RtlCreateAcl (replicate 48 9) 48 2 = Some (STATUS_SUCCESS, m0)
    \<and> run_access_ops 2 m0 [Allow 0 1 (mk_sid [0,0,0,0,0,1] [0]), Deny 0 2 (mk_sid [0,0,0,0,0,5] [18])] = Some m'
    \<and> acl_at m' a \<and> sorted (map entry_rank (acl_aces a))"
proof -
  obtain m0 where m0: "RtlCreateAcl (replicate 48 9) 48 2 = Some (STATUS_SUCCESS, m0)"
    using RtlInitializeAcl_correct[of 48 "replicate 48 9" 2] by (auto simp: RtlCreateAcl_def)
  have "access_op_ok (Allow 0 1 (mk_sid [0,0,0,0,0,1] [0]))" "access_op_ok (Deny 0 2 (mk_sid [0,0,0,0,0,5] [18]))"
    by (simp_all add: LW_IS_VALID_FLAGS_def sid_valid_def VALID_DACL_ACCESS_MASK_def VALID_DESIRED_ACCESS_MASK_def)
  then show ?thesis
    using add_sequence_canonical[OF m0,
        of "[Allow 0 1 (mk_sid [0,0,0,0,0,1] [0]), Deny 0 2 (mk_sid [0,0,0,0,0,5] [18])]"] m0 by auto
qed





text \<open>C23. Adding a block of entries by index refines insertion of all of them into the abstract list, at the index
  or, for the index MAXULONG, at the end; without room the list is unchanged.\<close>

theorem add_ace_list_refines:
  assumes "acl_at m a" and "unat idx < length (acl_aces a) \<or> idx = - 1"
    and "\<forall>ace \<in> set as. ace_wf ace" and "as \<noteq> []" and "rv = 2 \<or> rv = 4" and "rv \<le> ucast (acl_rev a)"
    and "acl_used a + length (concat as) \<le> 65535"
  shows "if unat (acl_size a) < acl_used a + length (concat as)
    then RtlAddAce m rv idx (Some (concat as @ r)) (word_of_nat (length (concat as))) = Some (STATUS_BUFFER_TOO_SMALL, m)
    else \<exists>m'. RtlAddAce m rv idx (Some (concat as @ r)) (word_of_nat (length (concat as))) = Some (STATUS_SUCCESS, m')
      \<and> acl_at m' (acl_insert a (if idx = - 1 then length (acl_aces a) else unat idx) as)"
  using assms by (rule RtlAddAce_correct)

theorem add_ace_list_refines_witness:
  "\<exists>m'. RtlAddAce sample_block 2 (- 1) (Some sample_ace) 20 = Some (STATUS_SUCCESS, m')
    \<and> acl_at m' (acl_insert sample_acl 1 [sample_ace])"
proof -
  have "acl_rev sample_acl = 2" "acl_size sample_acl = 48" "length (acl_aces sample_acl) = 1" "length sample_ace = 20"
    by (simp_all add: sample_acl_def sample_ace_def)
  then show ?thesis
    using add_ace_list_refines[OF sample_acl_at, of "- 1" "[sample_ace]" 2 "[]"] sample_ace_wf sample_acl_used by simp
qed

text \<open>The validator of a block of entries is exact on blocks of at most 65527 bytes: it accepts when the
  block is a sequence of well-formed entries, counts them, and accepts nothing else.\<close>

lemma ace_list_validator_exact:
  assumes "unat len \<le> length l"
  shows "RtlpValidAceList rv l len = Some (STATUS_SUCCESS, n) \<longleftrightarrow>
    (\<exists>as. (\<forall>ace \<in> set as. ace_wf ace) \<and> as \<noteq> [] \<and> take (unat len) l = concat as
      \<and> n = word_of_nat (length as) \<and> unat len \<le> 65527)"
proof
  assume "RtlpValidAceList rv l len = Some (STATUS_SUCCESS, n)"
  from RtlpValidAceList_sound[OF this assms] show "\<exists>as. (\<forall>ace \<in> set as. ace_wf ace) \<and> as \<noteq> []
      \<and> take (unat len) l = concat as \<and> n = word_of_nat (length as) \<and> unat len \<le> 65527"
    by (metis of_nat_unat ucast_id)
next
  assume "\<exists>as. (\<forall>ace \<in> set as. ace_wf ace) \<and> as \<noteq> [] \<and> take (unat len) l = concat as
      \<and> n = word_of_nat (length as) \<and> unat len \<le> 65527"
  then obtain as where as: "\<forall>ace \<in> set as. ace_wf ace" "as \<noteq> []" "take (unat len) l = concat as"
    "n = word_of_nat (length as)" "unat len \<le> 65527"
    by blast
  have k: "length (concat as) = unat len"
    using as(3) assms by (metis length_take min.absorb2)
  then have "len = word_of_nat (length (concat as))" and "l = concat as @ drop (unat len) l"
    using as(3) by (simp, metis append_take_drop_id)
  then show "RtlpValidAceList rv l len = Some (STATUS_SUCCESS, n)"
    using RtlpValidAceList_complete[OF as(1,2), of rv "drop (unat len) l"] as(4,5) k by metis
qed

end
