(* ===== verification/Access_Policy.thy ===== *)
theory Access_Policy
  imports Security_Token Security_Acl_Index
begin

text \<open>
  Lists that are built by the add functions and then read by the access check: a sequence of grants and denials,
  in whatever order, gives each right to those it is granted to and not denied to.
\<close>

section \<open>Denied entries come first\<close>

lemma first_match_denies_first:
  "sorted_wrt (\<lambda>x y. fst x \<longrightarrow> fst y) es \<Longrightarrow>
    first_match es n =
      (if \<exists>m. (False, m) \<in> set es \<and> bit m n then Some False
       else if \<exists>m. (True, m) \<in> set es \<and> bit m n then Some True else None)"
proof (induction es)
  case (Cons e es)
  obtain allow m where e: "e = (allow, m)"
    by (cases e)
  have "\<not> allow \<or> (\<forall>m'. (False, m') \<notin> set es)"
    using Cons.prems e by auto
  then show ?case
    using Cons by (cases "bit m n"; cases allow) (auto simp: e)
qed simp

lemma set_effects: "e \<in> set (effects T gm aces) \<longleftrightarrow> (\<exists>ace \<in> set aces. ace_effect T gm ace = Some e)"
  by (induction aces) (auto simp: effects_def map_filter_simps split: option.splits)

lemma effect_rank:
  assumes "ace_effect T gm ace = Some (allow, m)"
  shows "allow \<longleftrightarrow> 4 \<le> entry_rank ace"
proof -
  obtain a where a: "ace_of ace = Some a" "allow \<longleftrightarrow> a_type a = ACCESS_ALLOWED_ACE_TYPE"
    using assms by (auto simp: ace_effect_def split: option.splits if_splits)
  then have "a_type a = ace ! 0"
    by (cases ace) (auto simp: ace_of_def ace_AceType_def bind_eq_Some_conv rd8_def rdn_def dec8_def)
  then show ?thesis
    using a(2) flags_rank_lt[of "ucast (ace ! 1)"] by (auto simp: entry_rank_def ace_rank_def)
qed

lemma effects_denies_first:
  "sorted (map entry_rank aces) \<Longrightarrow> sorted_wrt (\<lambda>x y. fst x \<longrightarrow> fst y) (effects T gm aces)"
proof (induction aces)
  case (Cons ace aces)
  have "fst e" if "ace_effect T gm ace = Some (True, m)" "e \<in> set (effects T gm aces)" for e m
  proof -
    obtain ace' where "ace' \<in> set aces" "ace_effect T gm ace' = Some e"
      using \<open>e \<in> _\<close> by (auto simp: set_effects)
    then show ?thesis
      using effect_rank[OF that(1)] effect_rank[of T gm ace' "fst e" "snd e"] Cons.prems by fastforce
  qed
  then show ?case
    using Cons by (auto simp: effects_def map_filter_simps split: option.splits)
qed (simp add: effects_def map_filter_simps)

section \<open>What a sequence of operations means\<close>

fun op_effect :: "SID set \<Rightarrow> GENERIC_MAPPING \<Rightarrow> access_op \<Rightarrow> (bool \<times> ACCESS_MASK) option" where
  "op_effect T gm (Allow F am s) = (if s \<in> T then Some (True, RtlMapGenericMask am gm) else None)"
| "op_effect T gm (Deny F am s) = (if s \<in> T then Some (False, RtlMapGenericMask am gm) else None)"

definition ops_say :: "bool \<Rightarrow> SID set \<Rightarrow> GENERIC_MAPPING \<Rightarrow> access_op list \<Rightarrow> nat \<Rightarrow> bool" where
  "ops_say b T gm ops n \<longleftrightarrow>
    list_ex (\<lambda>op. case op_effect T gm op of None \<Rightarrow> False | Some (allow, m) \<Rightarrow> allow = b \<and> bit m n) ops"

lemma ace_effect_op: "access_op_ok op \<Longrightarrow> ace_effect T gm (op_entry op) = op_effect T gm op"
  using ace_of_bytes[of _ "[]"] by (cases op) (simp_all add: ace_effect_def)

lemma accepted_ops_subset: "set (accepted_ops rv m ops) \<subseteq> set ops"
  by (induction ops arbitrary: m) (auto split: option.splits)

lemma first_match_ops:
  assumes "canonical aces" and "set aces = op_entry ` set ops" and "\<forall>op \<in> set ops. access_op_ok op"
  shows "first_match (effects T gm aces) n =
    (if ops_say False T gm ops n then Some False else if ops_say True T gm ops n then Some True else None)"
proof -
  have "(b, m) \<in> set (effects T gm aces) \<longleftrightarrow> (\<exists>op \<in> set ops. op_effect T gm op = Some (b, m))" for b m
    using assms(3) by (simp add: set_effects assms(2) ace_effect_op)
  then have "(\<exists>m. (b, m) \<in> set (effects T gm aces) \<and> bit m n) \<longleftrightarrow> ops_say b T gm ops n" for b
    by (fastforce simp: ops_say_def list_ex_iff split: option.splits)
  then show ?thesis
    using first_match_denies_first[OF effects_denies_first, of aces T gm n] assms(1) by (simp add: canonical_def)
qed

lemma built_dacl_at:
  assumes "acl_at m a" and "set (acl_aces a) = op_entry ` set ops" and "\<forall>op \<in> set ops. access_op_ok op"
  shows "dacl_at (Some m) (Some (acl_aces a))"
proof -
  have "ace_of (op_entry op) \<noteq> None" if "access_op_ok op" for op
    using that ace_of_bytes[of _ "[]"] by (cases op) simp_all
  then have "acl_readable a"
    using assms(2,3) by (auto simp: acl_readable_def list_all_iff)
  then show ?thesis
    using assms(1) by (auto simp: dacl_at_def)
qed

text \<open>A block with room for all the entries accepts every operation.\<close>

fun op_size :: "access_op \<Rightarrow> nat" where
  "op_size (Allow F am s) = sid_ace_length s"
| "op_size (Deny F am s) = sid_ace_length s"

lemma run_access_op_room:
  assumes "acl_at m a" and "canonical (acl_aces a)" and "access_op_ok op" and "rv = 2 \<or> rv = 4" and "rv \<le> ucast (acl_rev a)"
    and "acl_used a + op_size op \<le> unat (acl_size a)"
  shows "\<exists>m' a'. run_access_op rv m op = Some (STATUS_SUCCESS, m') \<and> acl_at m' a' \<and> canonical (acl_aces a')
    \<and> acl_rev a' = acl_rev a \<and> acl_size a' = acl_size a \<and> acl_used a' = acl_used a + op_size op"
proof (cases op)
  case (Allow F am s)
  then have s: "sid_of (sid_bytes s) = Some s" "sid_valid s" "LW_IS_VALID_FLAGS (ucast F :: USHORT) VALID_ACE_FLAGS_MASK"
    using assms(3) sid_of_bytes[of s "[]"] by simp_all
  then obtain m' a' where "RtlAddAccessAllowedAceEx m rv F am (Some (sid_bytes s)) = Some (STATUS_SUCCESS, m')" "acl_at m' a'"
    "a' = acl_insert a (insert_position (ace_rank 0 F) (acl_aces a)) [ace_bytes (mk_ace 0 (ucast F) am s)]" "canonical (acl_aces a')"
    using RtlAddAccessAllowedAceEx_canonical[OF assms(1,2) s(1,2) assms(4,5) _ s(3), of am] assms(6) Allow by auto
  then show ?thesis
    using Allow s(2) by (intro exI[of _ m'] exI[of _ a']) (simp add: acl_used_insert length_ace_bytes ace_length_def)
next
  case (Deny F am s)
  then have s: "sid_of (sid_bytes s) = Some s" "sid_valid s" "LW_IS_VALID_FLAGS (ucast F :: USHORT) VALID_ACE_FLAGS_MASK"
    "LW_IS_VALID_FLAGS am VALID_DACL_ACCESS_MASK"
    using assms(3) sid_of_bytes[of s "[]"] by simp_all
  then obtain m' a' where "RtlAddAccessDeniedAceEx m rv F am (Some (sid_bytes s)) = Some (STATUS_SUCCESS, m')" "acl_at m' a'"
    "a' = acl_insert a (insert_position (ace_rank 1 F) (acl_aces a)) [ace_bytes (mk_ace 1 (ucast F) am s)]" "canonical (acl_aces a')"
    using RtlAddAccessDeniedAceEx_canonical[OF assms(1,2) s(1,2) assms(4,5) _ s(3,4)] assms(6) Deny by auto
  then show ?thesis
    using Deny s(2) by (intro exI[of _ m'] exI[of _ a']) (simp add: acl_used_insert length_ace_bytes ace_length_def)
qed

lemma accepted_ops_room:
  assumes "acl_at m a" and "canonical (acl_aces a)" and "\<forall>op \<in> set ops. access_op_ok op"
    and "rv = 2 \<or> rv = 4" and "rv \<le> ucast (acl_rev a)" and "acl_used a + sum_list (map op_size ops) \<le> unat (acl_size a)"
  shows "accepted_ops rv m ops = ops"
  using assms
proof (induction ops arbitrary: m a)
  case (Cons op ops)
  obtain m1 a1 where 1: "run_access_op rv m op = Some (STATUS_SUCCESS, m1)" "acl_at m1 a1" "canonical (acl_aces a1)"
    "acl_rev a1 = acl_rev a" "acl_size a1 = acl_size a" "acl_used a1 = acl_used a + op_size op"
    using run_access_op_room[OF Cons.prems(1,2) _ Cons.prems(4,5), of op] Cons.prems(3,6) by auto
  then show ?case
    using Cons.IH[OF 1(2,3)] Cons.prems(3-6) by simp
qed simp

lemma created_accepts:
  assumes "RtlCreateAcl m len rv = Some (STATUS_SUCCESS, m0)" and "unat len \<le> length m"
    and "\<forall>op \<in> set ops. access_op_ok op" and "8 + sum_list (map op_size ops) \<le> unat len"
  shows "accepted_ops rv m0 ops = ops"
proof -
  obtain u where i: "RtlInitializeAcl m len rv = Some (STATUS_SUCCESS, m0, u)"
    using assms(1) by (auto simp: RtlCreateAcl_def bind_eq_Some_conv)
  have rv: "rv = 2 \<or> rv = 4" "rv \<le> ucast (ucast rv :: UCHAR)" and len: "unat len \<le> 65535"
    using i by (auto simp: RtlInitializeAcl_def split: if_splits)
  let ?a = "\<lparr> acl_rev = ucast rv, acl_size = ucast len, acl_aces = [] \<rparr>"
  have "acl_at m0 ?a"
    using RtlInitializeAcl_correct[OF assms(2), of rv] i by (auto split: if_splits)
  moreover have "unat (ucast len :: USHORT) = unat len"
    using len by (simp add: unsigned_ucast_eq take_bit_nat_eq_self)
  ultimately show ?thesis
    using accepted_ops_room[of m0 ?a ops rv] assms(3,4) rv by (simp add: canonical_def acl_used_def)
qed

text \<open>The decision of the check for a list in canonical order that holds the entries of some operations.\<close>

lemma canonical_dacl_decides:
  assumes "acl_at m a" and "canonical (acl_aces a)" and "set (acl_aces a) = op_entry ` set ops" and "\<forall>op \<in> set ops. access_op_ok op"
    and "sd_Dacl sd = Some m" and "token_wf tok" and "system_sid \<notin> token_sids tok"
    and "sd_Owner sd = Some om" and "sid_of om = Some owner" and "sd_Group sd \<noteq> None"
    and "LW_IS_VALID_FLAGS D VALID_DESIRED_ACCESS_MASK" and "\<not> IsSetFlag D MAXIMUM_ALLOWED"
    and "d = RtlMapGenericMask D gm" and "LW_IS_VALID_FLAGS d VALID_GRANTED_ACCESS_MASK"
  shows "\<exists>rem st. RtlAccessCheckEx (Some sd) (Some tok) D 0 (Some gm) =
    (if (bit d 24 \<longrightarrow> administrators_sid \<in> token_sids tok)
        \<and> (\<forall>n<32. bit d n \<and> \<not> bit (special_rights (token_sids tok) owner) n \<longrightarrow>
              ops_say True (token_sids tok) gm ops n \<and> \<not> ops_say False (token_sids tok) gm ops n)
     then Some (True, 0, d, STATUS_SUCCESS) else Some (False, rem, 0, st))"
proof -
  have dacl: "dacl_at (sd_Dacl sd) (Some (acl_aces a))"
    using built_dacl_at[OF assms(1,3,4)] assms(5) by simp
  have z: "LW_IS_VALID_FLAGS (0 :: ACCESS_MASK) VALID_GRANTED_ACCESS_MASK" "0 AND d = 0"
    "LW_IS_VALID_FLAGS (0 OR d) VALID_GRANTED_ACCESS_MASK"
    using assms(14) by (simp_all add: LW_IS_VALID_FLAGS_def)
  have allowed: "access_allowed (token_sids tok) gm owner (Some (acl_aces a)) d \<longleftrightarrow>
      (bit d 24 \<longrightarrow> administrators_sid \<in> token_sids tok)
        \<and> (\<forall>n<32. bit d n \<and> \<not> bit (special_rights (token_sids tok) owner) n \<longrightarrow>
              ops_say True (token_sids tok) gm ops n \<and> \<not> ops_say False (token_sids tok) gm ops n)"
    using assms(7) by (auto simp: access_allowed_def first_match_ops[OF assms(2-4)])
  show ?thesis
    using RtlAccessCheckEx_exact[OF assms(6,8-10) dacl assms(11) z(1) assms(12,13) z(2,3)]
    unfolding allowed by (simp only: or.left_neutral)
qed

section \<open>Properties\<close>

text \<open>C4. From the creation of a list to the decision of the check.  A list is created and filled by a sequence
  of grants and denials whose flags and identifiers, and for denials masks, are valid, and an object with an owner and
  a group carries it.  A well-formed token that is not the system asks for rights, with valid masks, without
  \<^verbatim>\<open>MAXIMUM_ALLOWED\<close> and with nothing granted before.  It is granted them exactly when
  \<^verbatim>\<open>ACCESS_SYSTEM_SECURITY\<close> is asked for only by an administrator and each of them that is not
  a special right was granted to one of its identifiers by an accepted operation and denied to none of them.  The
  order of the operations does not matter, and an operation for which there is no room changes nothing; one with
  invalid arguments is excluded, since it damages the list.\<close>

theorem grants_minus_denies:
  assumes "RtlCreateAcl m len rv = Some (STATUS_SUCCESS, m0)" and "unat len \<le> length m"
    and "\<forall>op \<in> set ops. access_op_ok op" and "sd_Dacl sd = run_access_ops rv m0 ops"
    and "token_wf tok" and "system_sid \<notin> token_sids tok"
    and "sd_Owner sd = Some om" and "sid_of om = Some owner" and "sd_Group sd \<noteq> None"
    and "LW_IS_VALID_FLAGS D VALID_DESIRED_ACCESS_MASK" and "\<not> IsSetFlag D MAXIMUM_ALLOWED"
    and "d = RtlMapGenericMask D gm" and "LW_IS_VALID_FLAGS d VALID_GRANTED_ACCESS_MASK"
  shows "\<exists>rem st. RtlAccessCheckEx (Some sd) (Some tok) D 0 (Some gm) =
    (if (bit d 24 \<longrightarrow> administrators_sid \<in> token_sids tok)
        \<and> (\<forall>n<32. bit d n \<and> \<not> bit (special_rights (token_sids tok) owner) n \<longrightarrow>
              ops_say True (token_sids tok) gm (accepted_ops rv m0 ops) n
            \<and> \<not> ops_say False (token_sids tok) gm (accepted_ops rv m0 ops) n)
     then Some (True, 0, d, STATUS_SUCCESS) else Some (False, rem, 0, st))"
proof -
  obtain m' a where b: "run_access_ops rv m0 ops = Some m'" "acl_at m' a" "canonical (acl_aces a)"
    "set (acl_aces a) = op_entry ` set (accepted_ops rv m0 ops)"
    using created_acl_ops[OF assms(1-3)] by blast
  have ok: "\<forall>op \<in> set (accepted_ops rv m0 ops). access_op_ok op"
    using assms(3) accepted_ops_subset by blast
  show ?thesis
    using canonical_dacl_decides[OF b(2-4) ok _ assms(5-13)] assms(4) b(1) by simp
qed

text \<open>Everyone is granted two rights, then the user is denied the second: the first is granted and the second is not.\<close>

theorem grants_minus_denies_witness:
  "\<exists>m0 sd rem st. RtlCreateAcl (replicate 48 9) 48 2 = Some (STATUS_SUCCESS, m0)
    \<and> sd_Dacl sd = run_access_ops 2 m0 [Allow 0 3 (mk_sid [0,0,0,0,0,1] [0]), Deny 0 2 (mk_sid [0,0,0,0,0,5] [7])]
    \<and> RtlAccessCheckEx (Some sd) (Some sample_token) 1 0 (Some sample_mapping) = Some (True, 0, 1, STATUS_SUCCESS)
    \<and> RtlAccessCheckEx (Some sd) (Some sample_token) 2 0 (Some sample_mapping) = Some (False, rem, 0, st)"
proof -
  let ?ops = "[Allow 0 3 (mk_sid [0,0,0,0,0,1] [0]), Deny 0 2 (mk_sid [0,0,0,0,0,5] [7])]"
  obtain m0 where m0: "RtlCreateAcl (replicate 48 9) 48 2 = Some (STATUS_SUCCESS, m0)"
    using RtlInitializeAcl_correct[of 48 "replicate 48 9" 2] by (auto simp: RtlCreateAcl_def)
  have ok: "\<forall>op \<in> set ?ops. access_op_ok op"
    by (simp add: LW_IS_VALID_FLAGS_def sid_valid_def VALID_DACL_ACCESS_MASK_def)
  have acc: "accepted_ops 2 m0 ?ops = ?ops"
    using created_accepts[OF m0 _ ok] by (simp add: sid_ace_length_def sid_length_def)
  let ?sd = "sample_object\<lparr>sd_Dacl := run_access_ops 2 m0 ?ops\<rparr>"
  have f: "sd_Dacl ?sd = run_access_ops 2 m0 ?ops" "sd_Owner ?sd = Some [1,1,0,0,0,0,0,5,18,0,0,0]" "sd_Group ?sd \<noteq> None"
    using sample_object_fields by simp_all
  have sys: "system_sid \<notin> token_sids sample_token"
    by (simp add: sample_token_sids system_sid_def)
  have map: "RtlMapGenericMask n sample_mapping = n" if "n = 1 \<or> n = 2 \<or> n = 3" for n
    using that by (auto simp: RtlMapGenericMask_def RtlpMapGenericMaskSingleFlag_def IsSetFlag_def)
  have say: "ops_say True (token_sids sample_token) sample_mapping ?ops n \<longleftrightarrow> bit (3 :: ACCESS_MASK) n"
    "ops_say False (token_sids sample_token) sample_mapping ?ops n \<longleftrightarrow> bit (2 :: ACCESS_MASK) n" for n
    by (simp_all add: ops_say_def sample_token_sids map)
  have val: "LW_IS_VALID_FLAGS n VALID_DESIRED_ACCESS_MASK" "\<not> IsSetFlag n MAXIMUM_ALLOWED"
    "LW_IS_VALID_FLAGS n VALID_GRANTED_ACCESS_MASK" if "n = 1 \<or> n = 2" for n :: ACCESS_MASK
    using that by (auto simp: LW_IS_VALID_FLAGS_def IsSetFlag_def VALID_DESIRED_ACCESS_MASK_def VALID_GRANTED_ACCESS_MASK_def
        VALID_SACL_ACCESS_MASK_def VALID_DACL_ACCESS_MASK_def)
  note chk = grants_minus_denies[OF m0 _ ok f(1) sample_token_sids(1) sys f(2) sample_object_fields(4) f(3),
      OF _ val(1,2) map[symmetric] val(3), unfolded acc say sample_special]
  have "\<forall>n<32. bit (1 :: ACCESS_MASK) n \<longrightarrow> bit (3 :: ACCESS_MASK) n \<and> \<not> bit (2 :: ACCESS_MASK) n"
    "\<not> (\<forall>n<32. bit (2 :: ACCESS_MASK) n \<longrightarrow> bit (3 :: ACCESS_MASK) n \<and> \<not> bit (2 :: ACCESS_MASK) n)"
    "\<not> bit (1 :: ACCESS_MASK) 24" "\<not> bit (2 :: ACCESS_MASK) 24"
    by (auto simp: numeral_eq_Suc less_Suc_eq)
  then show ?thesis
    using chk[of 1] chk[of 2] m0 f(1) by (intro exI[of _ m0] exI[of _ ?sd]) auto
qed

end
