(* ===== verification/Security_Sd_Inherit.thy ===== *)
theory Security_Sd_Inherit
  imports Security_Sd_Info Security_Token_Create Access_Policy
begin

text \<open>
  The security descriptor of a new object (\<^verbatim>\<open>security-sd-inherit.c\<close>), made from those of its parent and of its
  creator and from the creator's token.  Descriptors are handled in absolute form; a pointer that is dereferenced without
  a test is undefined when it is NULL.  Buffers on the stack are clear in the model; only bytes that were written are read.
\<close>

section \<open>Operations\<close>

abbreviation (input) SEF_DACL_AUTO_INHERIT :: ULONG where "SEF_DACL_AUTO_INHERIT \<equiv> 0x1"
abbreviation (input) SEF_SACL_AUTO_INHERIT :: ULONG where "SEF_SACL_AUTO_INHERIT \<equiv> 0x2"
abbreviation (input) SEF_AVOID_PRIVILEGE_CHECK :: ULONG where "SEF_AVOID_PRIVILEGE_CHECK \<equiv> 0x8"
abbreviation (input) SEF_AVOID_OWNER_CHECK :: ULONG where "SEF_AVOID_OWNER_CHECK \<equiv> 0x10"
abbreviation (input) SEF_DEFAULT_OWNER_FROM_PARENT :: ULONG where "SEF_DEFAULT_OWNER_FROM_PARENT \<equiv> 0x20"
abbreviation (input) SEF_DEFAULT_GROUP_FROM_PARENT :: ULONG where "SEF_DEFAULT_GROUP_FROM_PARENT \<equiv> 0x40"

text \<open>The sizes of the stack buffers for an owner, a union, and for a primary group, a structure.\<close>

abbreviation (input) OWNER_BUFFER_SIZE :: ULONG where "OWNER_BUFFER_SIZE \<equiv> 72"
abbreviation (input) GROUP_BUFFER_SIZE :: ULONG where "GROUP_BUFFER_SIZE \<equiv> 80"

definition query_owner :: "ACCESS_TOKEN option \<Rightarrow> (NTSTATUS \<times> mem option) option" where
  "query_owner tok = do {
     (status, info, _) \<leftarrow> RtlQueryAccessTokenInformation tok TokenOwner True OWNER_BUFFER_SIZE;
     Some (status, case info of Some (InfoOwner p) \<Rightarrow> p | _ \<Rightarrow> None)
   }"

definition query_group :: "ACCESS_TOKEN option \<Rightarrow> (NTSTATUS \<times> mem option) option" where
  "query_group tok = do {
     (status, info, _) \<leftarrow> RtlQueryAccessTokenInformation tok TokenPrimaryGroup True GROUP_BUFFER_SIZE;
     Some (status, case info of Some (InfoPrimaryGroup p) \<Rightarrow> p | _ \<Rightarrow> None)
   }"

text \<open>The choice of the owner and of the group: the getter and setter, the flag, and the query of the token.  The parent's
  identifier only decides whether the creator's is copied.\<close>

definition object_set_sid ::
    "(SECURITY_DESCRIPTOR_ABSOLUTE \<Rightarrow> NTSTATUS \<times> mem option \<times> bool) \<Rightarrow>
     (SECURITY_DESCRIPTOR_ABSOLUTE \<Rightarrow> mem option \<Rightarrow> bool \<Rightarrow> NTSTATUS \<times> SECURITY_DESCRIPTOR_ABSOLUTE) \<Rightarrow>
     ULONG \<Rightarrow> (ACCESS_TOKEN option \<Rightarrow> (NTSTATUS \<times> mem option) option) \<Rightarrow> (nat \<Rightarrow> bool) \<Rightarrow>
     SECURITY_DESCRIPTOR_ABSOLUTE \<Rightarrow> SECURITY_DESCRIPTOR_ABSOLUTE option \<Rightarrow> SECURITY_DESCRIPTOR_ABSOLUTE option \<Rightarrow>
     ULONG \<Rightarrow> ACCESS_TOKEN option \<Rightarrow> (NTSTATUS \<times> SECURITY_DESCRIPTOR_ABSOLUTE) option" where
  "object_set_sid getter setter fromParent query avail sd parent creator AutoInheritFlags tok = do {
     let (status, cr, defaulted) = (case creator of None \<Rightarrow> (STATUS_SUCCESS, None, False) | Some c \<Rightarrow> getter c);
     if status \<noteq> STATUS_SUCCESS then Some (status, sd)
     else do {
       member \<leftarrow> (case cr of None \<Rightarrow> Some False | Some s \<Rightarrow> do { t \<leftarrow> tok; RtlIsSidMemberOfToken t s });
       if member then do {
         c \<leftarrow> cr;
         (status, new) \<leftarrow> RtlDuplicateSid avail c;
         if status \<noteq> STATUS_SUCCESS then Some (status, sd) else Some (setter sd new defaulted)
       }
       else do {
         let (status, pa, _) = (case parent of
           Some p \<Rightarrow> if AutoInheritFlags AND fromParent \<noteq> 0 then getter p else (STATUS_SUCCESS, None, False)
         | None \<Rightarrow> (STATUS_SUCCESS, None, False));
         if status \<noteq> STATUS_SUCCESS then Some (status, sd)
         else if pa \<noteq> None then do {
           c \<leftarrow> cr;
           (status, new) \<leftarrow> RtlDuplicateSid avail c;
           if status \<noteq> STATUS_SUCCESS then Some (status, sd) else Some (setter sd new True)
         }
         else do {
           (status, s) \<leftarrow> query tok;
           if status \<noteq> STATUS_SUCCESS then Some (status, sd)
           else do {
             s \<leftarrow> s;
             (status, new) \<leftarrow> RtlDuplicateSid avail s;
             if status \<noteq> STATUS_SUCCESS then Some (status, sd) else Some (setter sd new True)
           }
         }
       }
     }
   }"

definition RtlpObjectSetOwner ::
    "(nat \<Rightarrow> bool) \<Rightarrow> SECURITY_DESCRIPTOR_ABSOLUTE \<Rightarrow> SECURITY_DESCRIPTOR_ABSOLUTE option \<Rightarrow> SECURITY_DESCRIPTOR_ABSOLUTE option \<Rightarrow>
     ULONG \<Rightarrow> ACCESS_TOKEN option \<Rightarrow> (NTSTATUS \<times> SECURITY_DESCRIPTOR_ABSOLUTE) option" where
  "RtlpObjectSetOwner =
     object_set_sid RtlGetOwnerSecurityDescriptor RtlSetOwnerSecurityDescriptor SEF_DEFAULT_OWNER_FROM_PARENT query_owner"

definition RtlpObjectSetGroup ::
    "(nat \<Rightarrow> bool) \<Rightarrow> SECURITY_DESCRIPTOR_ABSOLUTE \<Rightarrow> SECURITY_DESCRIPTOR_ABSOLUTE option \<Rightarrow> SECURITY_DESCRIPTOR_ABSOLUTE option \<Rightarrow>
     ULONG \<Rightarrow> ACCESS_TOKEN option \<Rightarrow> (NTSTATUS \<times> SECURITY_DESCRIPTOR_ABSOLUTE) option" where
  "RtlpObjectSetGroup =
     object_set_sid RtlGetGroupSecurityDescriptor RtlSetGroupSecurityDescriptor SEF_DEFAULT_GROUP_FROM_PARENT query_group"

definition RtlpDuplicateAcl :: "(nat \<Rightarrow> bool) \<Rightarrow> mem option \<Rightarrow> (NTSTATUS \<times> mem option) option" where
  "RtlpDuplicateAcl avail Acl = do {
     m \<leftarrow> Acl;
     daclSize \<leftarrow> RtlGetAclSize m;
     case RTL_ALLOCATE avail (unat daclSize) of
       (status, None) \<Rightarrow> Some (status, None)
     | (status, Some newAcl) \<Rightarrow> do { newAcl \<leftarrow> memcpy newAcl 0 m 0 (unat daclSize); Some (status, Some newAcl) }
   }"

text \<open>The identifiers CREATOR OWNER and CREATOR GROUP, and what stands for them.\<close>

record creator_sids =
  cs_CreatorOwner :: mem
  cs_CreatorGroup :: mem
  cs_Owner :: "mem option"
  cs_PrimaryGroup :: "mem option"

definition get_creator_sids :: "ACCESS_TOKEN option \<Rightarrow> (NTSTATUS + creator_sids) option" where
  "get_creator_sids tok = do {
     (status, co, _) \<leftarrow> RtlCreateWellKnownSid WinCreatorOwnerSid None (Some (replicate SID_MAX_SIZE 0)) (word_of_nat SID_MAX_SIZE);
     if status \<noteq> STATUS_SUCCESS then Some (Inl status)
     else do {
       co \<leftarrow> co;
       (status, cg, _) \<leftarrow> RtlCreateWellKnownSid WinCreatorGroupSid None (Some (replicate SID_MAX_SIZE 0)) (word_of_nat SID_MAX_SIZE);
       if status \<noteq> STATUS_SUCCESS then Some (Inl status)
       else do {
         cg \<leftarrow> cg;
         (status, ow) \<leftarrow> query_owner tok;
         if status \<noteq> STATUS_SUCCESS then Some (Inl status)
         else do {
           (status, gr) \<leftarrow> query_group tok;
           if status \<noteq> STATUS_SUCCESS then Some (Inl status)
           else Some (Inr \<lparr> cs_CreatorOwner = co, cs_CreatorGroup = cg, cs_Owner = ow, cs_PrimaryGroup = gr \<rparr>)
         }
       }
     }
   }"

definition replace_creator :: "creator_sids \<Rightarrow> mem \<Rightarrow> mem option option" where
  "replace_creator cs aceSid = do {
     e \<leftarrow> RtlEqualSid aceSid (cs_CreatorOwner cs);
     if e then Some (cs_Owner cs)
     else do {
       e \<leftarrow> RtlEqualSid aceSid (cs_CreatorGroup cs);
       Some (if e then cs_PrimaryGroup cs else Some aceSid)
     }
   }"

text \<open>The switch over the type of an entry; other types are skipped before it.\<close>

definition add_typed :: "UCHAR \<Rightarrow> mem \<Rightarrow> UCHAR \<Rightarrow> ACCESS_MASK \<Rightarrow> mem option \<Rightarrow> (NTSTATUS \<times> mem) option" where
  "add_typed t pAcl flags am sid =
    (if t = ACCESS_ALLOWED_ACE_TYPE then RtlAddAccessAllowedAceEx pAcl ACL_REVISION (ucast flags) am sid
     else if t = ACCESS_DENIED_ACE_TYPE then RtlAddAccessDeniedAceEx pAcl ACL_REVISION (ucast flags) am sid
     else RtlAddSystemAuditAceEx pAcl ACL_REVISION (ucast flags) am sid)"

definition typed :: "UCHAR \<Rightarrow> bool" where
  "typed t \<longleftrightarrow> t = ACCESS_ALLOWED_ACE_TYPE \<or> t = ACCESS_DENIED_ACE_TYPE \<or> t = SYSTEM_AUDIT_ACE_TYPE"

definition assign_ace :: "GENERIC_MAPPING \<Rightarrow> creator_sids \<Rightarrow> mem \<Rightarrow> mem \<Rightarrow> (NTSTATUS \<times> mem) option" where
  "assign_ace gm cs pAcl ace = do {
     t \<leftarrow> ace_AceType ace;
     if \<not> typed t then Some (STATUS_SUCCESS, pAcl)
     else do {
       mask \<leftarrow> ace_Mask ace;
       aceSid \<leftarrow> ptr_add ace 8;
       sid \<leftarrow> replace_creator cs aceSid;
       flags \<leftarrow> ace_AceFlags ace;
       add_typed t pAcl flags (RtlMapGenericMask mask gm) sid
     }
   }"

partial_function (option) assign_loop ::
    "GENERIC_MAPPING \<Rightarrow> creator_sids \<Rightarrow> mem \<Rightarrow> USHORT \<Rightarrow> USHORT \<Rightarrow> mem \<Rightarrow> (NTSTATUS \<times> mem) option" where
  "assign_loop gm cs src sizeUsed aceOffset pAcl = do {
     (status, aceOffset, aceHeader) \<leftarrow> RtlIterateAce src sizeUsed aceOffset;
     if status = STATUS_NO_MORE_ENTRIES then Some (STATUS_SUCCESS, pAcl)
     else if status \<noteq> STATUS_SUCCESS then Some (status, pAcl)
     else do {
       loc \<leftarrow> aceHeader;
       ace \<leftarrow> ptr_add src loc;
       (status, pAcl) \<leftarrow> assign_ace gm cs pAcl ace;
       if status \<noteq> STATUS_SUCCESS then Some (status, pAcl) else assign_loop gm cs src sizeUsed aceOffset pAcl
     }
   }"

text \<open>Allocation and initialisation of the new list.\<close>

definition new_acl :: "(nat \<Rightarrow> bool) \<Rightarrow> USHORT \<Rightarrow> (NTSTATUS + mem) option" where
  "new_acl avail aclSize =
    (case RTL_ALLOCATE avail (unat aclSize) of
       (status, None) \<Rightarrow> Some (Inl status)
     | (_, Some pAcl) \<Rightarrow> do {
         (status, pAcl) \<leftarrow> RtlCreateAcl pAcl (ucast aclSize) ACL_REVISION;
         Some (if status \<noteq> STATUS_SUCCESS then Inl status else Inr pAcl)
       })"

definition RtlpObjectAclAssignSecurity ::
    "(nat \<Rightarrow> bool) \<Rightarrow> ACCESS_TOKEN option \<Rightarrow> mem option \<Rightarrow> GENERIC_MAPPING \<Rightarrow> (NTSTATUS \<times> mem option) option" where
  "RtlpObjectAclAssignSecurity avail tok pSrcAcl gm = do {
     src \<leftarrow> pSrcAcl;
     n \<leftarrow> RtlGetAclAceCount src;
     let aclSize = 8 + n * 80;
     if aclSize = 0 then Some (STATUS_INVALID_SECURITY_DESCR, None)
     else do {
       cs \<leftarrow> get_creator_sids tok;
       case cs of
         Inl status \<Rightarrow> Some (status, None)
       | Inr cs \<Rightarrow> do {
           r \<leftarrow> new_acl avail aclSize;
           case r of
             Inl status \<Rightarrow> Some (status, None)
           | Inr pAcl \<Rightarrow> do {
               sizeUsed \<leftarrow> RtlGetAclSizeUsed src;
               (status, pAcl) \<leftarrow> assign_loop gm cs src sizeUsed 0 pAcl;
               Some (status, if status = STATUS_SUCCESS then Some pAcl else None)
             }
         }
     }
   }"

text \<open>The loops over the entries of the creator and of the parent: the index, and the number of iterations left.\<close>

definition creator_ace :: "GENERIC_MAPPING \<Rightarrow> mem \<Rightarrow> mem \<Rightarrow> (NTSTATUS \<times> mem) option" where
  "creator_ace gm pAcl ace = do {
     t \<leftarrow> ace_AceType ace;
     if \<not> typed t then Some (STATUS_SUCCESS, pAcl)
     else do {
       mask \<leftarrow> ace_Mask ace;
       flags \<leftarrow> ace_AceFlags ace;
       aceSid \<leftarrow> ptr_add ace 8;
       add_typed t pAcl flags (RtlMapGenericMask mask gm) (Some aceSid)
     }
   }"

definition inherit_flags :: "UCHAR \<Rightarrow> UCHAR" where
  "inherit_flags flags = (flags AND NOT (CONTAINER_INHERIT_ACE OR OBJECT_INHERIT_ACE OR INHERIT_ONLY_ACE)) OR INHERITED_ACE"

definition parent_ace :: "bool \<Rightarrow> GENERIC_MAPPING \<Rightarrow> creator_sids \<Rightarrow> mem \<Rightarrow> mem \<Rightarrow> (NTSTATUS \<times> mem) option" where
  "parent_ace IsContainerObject gm cs pAcl ace = do {
     flags \<leftarrow> ace_AceFlags ace;
     if IsContainerObject \<and> flags AND CONTAINER_INHERIT_ACE = 0 \<or> \<not> IsContainerObject \<and> flags AND OBJECT_INHERIT_ACE = 0
     then Some (STATUS_SUCCESS, pAcl)
     else do {
       t \<leftarrow> ace_AceType ace;
       if \<not> typed t then Some (STATUS_SUCCESS, pAcl)
       else do {
         mask \<leftarrow> ace_Mask ace;
         aceSid \<leftarrow> ptr_add ace 8;
         (status, pAcl) \<leftarrow> (if IsContainerObject \<and> \<not> IsSetFlag flags NO_PROPAGATE_INHERIT_ACE
           then add_typed t pAcl flags mask (Some aceSid) else Some (STATUS_SUCCESS, pAcl));
         if status \<noteq> STATUS_SUCCESS then Some (status, pAcl)
         else do {
           sid \<leftarrow> replace_creator cs aceSid;
           add_typed t pAcl (inherit_flags flags) (RtlMapGenericMask mask gm) sid
         }
       }
     }
   }"

fun ace_loop :: "(mem \<Rightarrow> mem \<Rightarrow> (NTSTATUS \<times> mem) option) \<Rightarrow> mem \<Rightarrow> mem \<Rightarrow> USHORT \<Rightarrow> nat \<Rightarrow> (NTSTATUS \<times> mem) option" where
  "ace_loop f src pAcl i 0 = Some (STATUS_SUCCESS, pAcl)"
| "ace_loop f src pAcl i (Suc n) = do {
     (status, loc) \<leftarrow> RtlGetAce src (ucast i);
     if status \<noteq> STATUS_SUCCESS then Some (status, pAcl)
     else do {
       loc \<leftarrow> loc;
       ace \<leftarrow> ptr_add src loc;
       (status, pAcl) \<leftarrow> f pAcl ace;
       if status \<noteq> STATUS_SUCCESS then Some (status, pAcl) else ace_loop f src pAcl (i + 1) n
     }
   }"

definition ace_count :: "mem option \<Rightarrow> USHORT option" where
  "ace_count acl = (case acl of None \<Rightarrow> Some 0 | Some m \<Rightarrow> RtlGetAclAceCount m)"

definition inherit_size :: "mem option \<Rightarrow> mem option \<Rightarrow> USHORT option" where
  "inherit_size CreateAcl ParentAcl = do {
     usAclSize \<leftarrow> (case CreateAcl of None \<Rightarrow> Some 0 | Some m \<Rightarrow> do { n \<leftarrow> RtlGetAclAceCount m; Some (8 + n * 80) });
     case ParentAcl of None \<Rightarrow> Some usAclSize | Some m \<Rightarrow> do { n \<leftarrow> RtlGetAclAceCount m; Some (usAclSize + (8 + (n * 2) * 80)) }
   }"

text \<open>The result is the status, the new list, and whether it is defaulted.\<close>

definition RtlpObjectInheritSecurity ::
    "(nat \<Rightarrow> bool) \<Rightarrow> mem option \<Rightarrow> mem option \<Rightarrow> bool \<Rightarrow> bool \<Rightarrow> ACCESS_TOKEN option \<Rightarrow> GENERIC_MAPPING \<Rightarrow>
     (NTSTATUS \<times> mem option \<times> bool) option" where
  "RtlpObjectInheritSecurity avail ParentAcl CreateAcl CreatorIsAclDefaulted IsContainerObject tok gm =
    (if ParentAcl = None \<and> CreatorIsAclDefaulted then do {
       (status, pAcl) \<leftarrow> RtlpObjectAclAssignSecurity avail tok CreateAcl gm;
       Some (status, pAcl, status = STATUS_SUCCESS)
     }
     else do {
       usAclSize \<leftarrow> inherit_size CreateAcl ParentAcl;
       if usAclSize = 0 then Some (STATUS_INVALID_SECURITY_DESCR, None, False)
       else do {
         cs \<leftarrow> get_creator_sids tok;
         case cs of
           Inl status \<Rightarrow> Some (status, None, False)
         | Inr cs \<Rightarrow> do {
             r \<leftarrow> new_acl avail usAclSize;
             case r of
               Inl status \<Rightarrow> Some (status, None, False)
             | Inr pAcl \<Rightarrow> do {
                 n \<leftarrow> ace_count CreateAcl;
                 (status, pAcl) \<leftarrow> (case CreateAcl of None \<Rightarrow> Some (STATUS_SUCCESS, pAcl) | Some m \<Rightarrow> ace_loop (creator_ace gm) m pAcl 0 (unat n));
                 if status \<noteq> STATUS_SUCCESS then Some (status, None, False)
                 else do {
                   n \<leftarrow> ace_count ParentAcl;
                   (status, pAcl) \<leftarrow> (case ParentAcl of None \<Rightarrow> Some (STATUS_SUCCESS, pAcl)
                     | Some m \<Rightarrow> ace_loop (parent_ace IsContainerObject gm cs) m pAcl 0 (unat n));
                   if status \<noteq> STATUS_SUCCESS then Some (status, None, False)
                   else Some (STATUS_SUCCESS, Some pAcl, CreatorIsAclDefaulted)
                 }
               }
           }
       }
     })"

text \<open>The lists of the parent and of the creator, as the two setters of lists fetch them: whether each is present, the lists
  and whether the creator's is defaulted, and the creator's control bits.\<close>

definition fetch_acls ::
    "(SECURITY_DESCRIPTOR_ABSOLUTE \<Rightarrow> NTSTATUS \<times> bool \<times> mem option \<times> bool) \<Rightarrow> bool \<Rightarrow>
     SECURITY_DESCRIPTOR_ABSOLUTE option \<Rightarrow> SECURITY_DESCRIPTOR_ABSOLUTE option \<Rightarrow>
     NTSTATUS + ((bool \<times> mem option) \<times> (bool \<times> mem option \<times> bool) \<times> USHORT)" where
  "fetch_acls getter useParent parent creator =
    (let (status, pPresent, pAcl, _) = (case parent of
           Some p \<Rightarrow> if useParent then getter p else (STATUS_SUCCESS, False, None, False)
         | None \<Rightarrow> (STATUS_SUCCESS, False, None, False)) in
     if status \<noteq> STATUS_SUCCESS then Inl status
     else (case creator of
         None \<Rightarrow> Inr ((pPresent, pAcl), (False, None, False), 0)
       | Some c \<Rightarrow>
           let (status, cPresent, cAcl, cDefaulted) = getter c in
           if status \<noteq> STATUS_SUCCESS then Inl status
           else let (status, control, _) = RtlGetSecurityDescriptorControl c in
                if status \<noteq> STATUS_SUCCESS then Inl status
                else Inr ((pPresent, pAcl), (cPresent, cAcl, cDefaulted), control)))"

text \<open>The default list of the token, in a buffer of the size that a first query reports.  The buffer is allocated zeroed,
  so a field that the query leaves unwritten is read back as NULL.\<close>

definition token_default_dacl :: "(nat \<Rightarrow> bool) \<Rightarrow> ACCESS_TOKEN option \<Rightarrow> (NTSTATUS \<times> mem option) option" where
  "token_default_dacl avail tok = do {
     (status, _, len) \<leftarrow> RtlQueryAccessTokenInformation tok TokenDefaultDacl False 0;
     if status \<noteq> STATUS_BUFFER_TOO_SMALL
     then if status \<noteq> STATUS_SUCCESS then Some (status, None) else None
     else (case RTL_ALLOCATE avail (unat len) of
         (status, None) \<Rightarrow> Some (status, None)
       | (_, Some _) \<Rightarrow> do {
           (status, info, _) \<leftarrow> RtlQueryAccessTokenInformation tok TokenDefaultDacl True len;
           Some (status, case info of Some (InfoDefaultDacl p) \<Rightarrow> Some p | _ \<Rightarrow> None)
         })
   }"

text \<open>The last steps: the control bits and the list.\<close>

definition set_acl_and_control ::
    "(SECURITY_DESCRIPTOR_ABSOLUTE \<Rightarrow> bool \<Rightarrow> mem option \<Rightarrow> bool \<Rightarrow> NTSTATUS \<times> SECURITY_DESCRIPTOR_ABSOLUTE) \<Rightarrow>
     USHORT \<Rightarrow> USHORT \<Rightarrow> bool \<Rightarrow> USHORT \<Rightarrow> SECURITY_DESCRIPTOR_ABSOLUTE \<Rightarrow> mem option \<Rightarrow> bool \<Rightarrow>
     NTSTATUS \<times> SECURITY_DESCRIPTOR_ABSOLUTE" where
  "set_acl_and_control setter protBit inhBit autoInherit creatorControl sd acl defaulted =
    (let controlSet = (if creatorControl AND protBit \<noteq> 0 then protBit else if autoInherit then inhBit else 0);
         (status, sd) = RtlSetSecurityDescriptorControl sd (protBit OR inhBit) controlSet in
     if status \<noteq> STATUS_SUCCESS then (status, sd) else setter sd (acl \<noteq> None) acl defaulted)"

definition dacl_from_descriptors ::
    "(nat \<Rightarrow> bool) \<Rightarrow> (bool \<times> mem option) \<Rightarrow> (bool \<times> mem option \<times> bool) \<Rightarrow> USHORT \<Rightarrow> bool \<Rightarrow>
     ACCESS_TOKEN option \<Rightarrow> GENERIC_MAPPING \<Rightarrow> (NTSTATUS \<times> mem option \<times> bool) option" where
  "dacl_from_descriptors avail P C control isContainer tok gm =
    (let (pPresent, pAcl) = P; (cPresent, cAcl, cDefaulted) = C in
     if cPresent \<and> control AND SE_DACL_PROTECTED \<noteq> 0 then do {
       (status, a) \<leftarrow> RtlpDuplicateAcl avail cAcl;
       Some (status, a, False)
     }
     else if pPresent \<or> cPresent then
       RtlpObjectInheritSecurity avail (if pPresent then pAcl else None) (if cPresent then cAcl else None) cDefaulted isContainer tok gm
     else Some (STATUS_SUCCESS, None, False))"

definition RtlpObjectSetDacl ::
    "(nat \<Rightarrow> bool) \<Rightarrow> SECURITY_DESCRIPTOR_ABSOLUTE \<Rightarrow> SECURITY_DESCRIPTOR_ABSOLUTE option \<Rightarrow> SECURITY_DESCRIPTOR_ABSOLUTE option \<Rightarrow>
     bool \<Rightarrow> ULONG \<Rightarrow> ACCESS_TOKEN option \<Rightarrow> GENERIC_MAPPING \<Rightarrow> (NTSTATUS \<times> SECURITY_DESCRIPTOR_ABSOLUTE) option" where
  "RtlpObjectSetDacl avail sd parent creator isContainer AutoInheritFlags tok gm =
    (case fetch_acls RtlGetDaclSecurityDescriptor (AutoInheritFlags AND SEF_DACL_AUTO_INHERIT \<noteq> 0) parent creator of
       Inl status \<Rightarrow> Some (status, sd)
     | Inr (P, C, control) \<Rightarrow> do {
         (status, final, defaulted) \<leftarrow> dacl_from_descriptors avail P C control isContainer tok gm;
         if status \<noteq> STATUS_SUCCESS then Some (status, sd)
         else do {
           n \<leftarrow> ace_count final;
           (status, final, defaulted) \<leftarrow>
             (if n \<noteq> 0 then Some (STATUS_SUCCESS, final, defaulted)
              else do {
                (status, d) \<leftarrow> token_default_dacl avail tok;
                if status \<noteq> STATUS_SUCCESS then Some (status, None, defaulted)
                else do {
                  (status, final, _) \<leftarrow> RtlpObjectInheritSecurity avail None d True isContainer tok gm;
                  Some (status, final, \<not> fst P)
                }
              });
           if status \<noteq> STATUS_SUCCESS then Some (status, sd)
           else Some (set_acl_and_control RtlSetDaclSecurityDescriptor SE_DACL_PROTECTED SE_DACL_AUTO_INHERITED
             (AutoInheritFlags AND SEF_DACL_AUTO_INHERIT \<noteq> 0) control sd final defaulted)
         }
       })"

definition RtlpObjectSetSacl ::
    "(nat \<Rightarrow> bool) \<Rightarrow> SECURITY_DESCRIPTOR_ABSOLUTE \<Rightarrow> SECURITY_DESCRIPTOR_ABSOLUTE option \<Rightarrow> SECURITY_DESCRIPTOR_ABSOLUTE option \<Rightarrow>
     bool \<Rightarrow> ULONG \<Rightarrow> ACCESS_TOKEN option \<Rightarrow> GENERIC_MAPPING \<Rightarrow> (NTSTATUS \<times> SECURITY_DESCRIPTOR_ABSOLUTE) option" where
  "RtlpObjectSetSacl avail sd parent creator isContainer AutoInheritFlags tok gm =
    (case fetch_acls RtlGetSaclSecurityDescriptor (IsSetFlag AutoInheritFlags SEF_SACL_AUTO_INHERIT) parent creator of
       Inl status \<Rightarrow> Some (status, sd)
     | Inr ((pPresent, pAcl), (cPresent, cAcl, cDefaulted), control) \<Rightarrow> do {
         (status, final, defaulted) \<leftarrow>
           (if IsSetFlag control SE_SACL_PROTECTED then
              if cPresent then do { (status, a) \<leftarrow> RtlpDuplicateAcl avail cAcl; Some (status, a, False) }
              else Some (STATUS_SUCCESS, None, False)
            else if pPresent \<or> cPresent then
              RtlpObjectInheritSecurity avail (if pPresent then pAcl else None) (if cPresent then cAcl else None) cDefaulted isContainer tok gm
            else Some (STATUS_SUCCESS, None, False));
         if status \<noteq> STATUS_SUCCESS then Some (status, sd)
         else Some (set_acl_and_control RtlSetSaclSecurityDescriptor SE_SACL_PROTECTED SE_SACL_AUTO_INHERITED
           (AutoInheritFlags AND SEF_SACL_AUTO_INHERIT \<noteq> 0) control sd final defaulted)
       })"

text \<open>An optional self-relative descriptor in absolute form.\<close>

definition abs_or_null :: "(nat \<Rightarrow> bool) \<Rightarrow> mem option \<Rightarrow> (NTSTATUS \<times> SECURITY_DESCRIPTOR_ABSOLUTE option) option" where
  "abs_or_null avail p = (case p of None \<Rightarrow> Some (STATUS_SUCCESS, None) | Some m \<Rightarrow> RtlpCreateAbsSecDescFromRelative avail m)"

text \<open>The self-relative form of the new descriptor, in a block of the size that a first call reports.\<close>

definition to_new_relative :: "(nat \<Rightarrow> bool) \<Rightarrow> SECURITY_DESCRIPTOR_ABSOLUTE \<Rightarrow> (NTSTATUS \<times> mem option \<times> ULONG) option" where
  "to_new_relative avail sd = do {
     (status, _, len) \<leftarrow> RtlAbsoluteToSelfRelativeSD (Some sd) None (Some 0);
     len \<leftarrow> len;
     if status \<noteq> STATUS_BUFFER_TOO_SMALL
     then Some (status, None, if status = STATUS_SUCCESS then len else 0)
     else (case RTL_ALLOCATE avail (unat len) of
         (status, None) \<Rightarrow> Some (status, None, 0)
       | (_, Some b) \<Rightarrow> do {
           (status, b, len) \<leftarrow> RtlAbsoluteToSelfRelativeSD (Some sd) (Some b) (Some len);
           len \<leftarrow> len;
           Some (if status \<noteq> STATUS_SUCCESS then (status, None, 0) else (status, b, len))
         })
   }"

text \<open>The argument \<^verbatim>\<open>outputs\<close> says that neither output pointer is NULL.\<close>

definition RtlCreatePrivateObjectSecurityEx ::
    "(nat \<Rightarrow> bool) \<Rightarrow> bool \<Rightarrow> mem option \<Rightarrow> mem option \<Rightarrow> bool \<Rightarrow> ULONG \<Rightarrow> ACCESS_TOKEN option \<Rightarrow> GENERIC_MAPPING option \<Rightarrow>
     (NTSTATUS \<times> mem option \<times> ULONG) option" where
  "RtlCreatePrivateObjectSecurityEx avail outputs pParentSecDesc pCreatorSecDesc bIsContainerObject AutoInheritFlags pUserToken pGenericMap =
    (case pGenericMap of
       None \<Rightarrow> Some (STATUS_INVALID_PARAMETER, None, 0)
     | Some gm \<Rightarrow>
         if \<not> outputs then Some (STATUS_INVALID_PARAMETER, None, 0)
         else if \<not> (AutoInheritFlags AND (SEF_AVOID_OWNER_CHECK OR SEF_AVOID_PRIVILEGE_CHECK)
                    \<noteq> (SEF_AVOID_OWNER_CHECK OR SEF_AVOID_PRIVILEGE_CHECK)) \<and> pUserToken = None
         then Some (STATUS_NO_TOKEN, None, 0)
         else do {
           (status, parent) \<leftarrow> abs_or_null avail pParentSecDesc;
           if status \<noteq> STATUS_SUCCESS then Some (status, None, 0) else do {
           (status, creator) \<leftarrow> abs_or_null avail pCreatorSecDesc;
           if status \<noteq> STATUS_SUCCESS then Some (status, None, 0) else do {
           let (status, _) = RTL_ALLOCATE avail 40;
           if status \<noteq> STATUS_SUCCESS then Some (status, None, 0) else do {
           let (status, sd) = RtlCreateSecurityDescriptorAbsolute zero_descriptor 1;
           if status \<noteq> STATUS_SUCCESS then Some (status, None, 0) else do {
           (status, sd) \<leftarrow> RtlpObjectSetOwner avail sd parent creator AutoInheritFlags pUserToken;
           if status \<noteq> STATUS_SUCCESS then Some (status, None, 0) else do {
           (status, sd) \<leftarrow> RtlpObjectSetGroup avail sd parent creator AutoInheritFlags pUserToken;
           if status \<noteq> STATUS_SUCCESS then Some (status, None, 0) else do {
           (status, sd) \<leftarrow> RtlpObjectSetDacl avail sd parent creator bIsContainerObject AutoInheritFlags pUserToken gm;
           if status \<noteq> STATUS_SUCCESS then Some (status, None, 0) else do {
           (status, sd) \<leftarrow> RtlpObjectSetSacl avail sd parent creator bIsContainerObject AutoInheritFlags pUserToken gm;
           if status \<noteq> STATUS_SUCCESS then Some (status, None, 0) else
           to_new_relative avail sd }}}}}}}})"

section \<open>What the lists say\<close>

text \<open>The entries of a list that carry a mask and an identifier, in order.  The functions read these fields without
  a check of the entry's size, so a list is readable when they exist.\<close>

definition typed_entry :: "mem \<Rightarrow> ACE list" where
  "typed_entry ace = (if typed (ace ! 0) then case ace_of ace of None \<Rightarrow> [] | Some e \<Rightarrow> [e] else [])"

definition typed_entries :: "ACL \<Rightarrow> ACE list" where
  "typed_entries a = concat (map typed_entry (acl_aces a))"

definition source_at :: "mem \<Rightarrow> ACL \<Rightarrow> bool" where
  "source_at m a \<longleftrightarrow> acl_at m a \<and> list_all (\<lambda>ace. typed (ace ! 0) \<longrightarrow> ace_of ace \<noteq> None) (acl_aces a)"

definition creator_owner_sid :: SID where
  "creator_owner_sid = mk_sid [0,0,0,0,0,3] [0]"

definition creator_group_sid :: SID where
  "creator_group_sid = mk_sid [0,0,0,0,0,3] [1]"

definition stands_for :: "SID \<Rightarrow> SID \<Rightarrow> SID \<Rightarrow> SID" where
  "stands_for ow gr s = (if s = creator_owner_sid then ow else if s = creator_group_sid then gr else s)"

definition map_entry :: "GENERIC_MAPPING \<Rightarrow> ACE \<Rightarrow> ACE" where
  "map_entry gm e = e\<lparr>a_mask := RtlMapGenericMask (a_mask e) gm\<rparr>"

definition assign_entry :: "GENERIC_MAPPING \<Rightarrow> SID \<Rightarrow> SID \<Rightarrow> ACE \<Rightarrow> ACE" where
  "assign_entry gm ow gr e = e\<lparr>a_mask := RtlMapGenericMask (a_mask e) gm, a_sid := stands_for ow gr (a_sid e)\<rparr>"

definition inheritable :: "bool \<Rightarrow> ACE \<Rightarrow> bool" where
  "inheritable container e \<longleftrightarrow> IsSetFlag (a_flags e) (if container then CONTAINER_INHERIT_ACE else OBJECT_INHERIT_ACE)"

text \<open>What one entry of the parent gives the child: a container keeps the entry itself for its own children.  Of the flags, the
  marks for auditing and against propagation stay.\<close>

definition child_flags :: "UCHAR \<Rightarrow> UCHAR" where
  "child_flags f = INHERITED_ACE OR (f AND 0xE4)"

lemma inherit_flags_child: "inherit_flags f = child_flags f"
proof -
  have "(f AND 0xF4) OR 0x10 = 0x10 OR (f AND 0xE4)"
    by (simp add: bit.disj_conj_distrib bit.disj_conj_distrib2 or.commute)
  moreover have "NOT (CONTAINER_INHERIT_ACE OR OBJECT_INHERIT_ACE OR INHERIT_ONLY_ACE) = (0xF4 :: UCHAR)"
    by simp
  ultimately show ?thesis
    by (simp only: inherit_flags_def child_flags_def)
qed

definition inherited_entries :: "bool \<Rightarrow> GENERIC_MAPPING \<Rightarrow> SID \<Rightarrow> SID \<Rightarrow> ACE \<Rightarrow> ACE list" where
  "inherited_entries container gm ow gr e =
    (if inheritable container e
     then (if container \<and> \<not> IsSetFlag (a_flags e) NO_PROPAGATE_INHERIT_ACE then [e] else [])
          @ [assign_entry gm ow gr (e\<lparr>a_flags := child_flags (a_flags e)\<rparr>)]
     else [])"

text \<open>What an entry must satisfy so that it can be added; the mask of an allowed entry is not checked.\<close>

definition entry_ok :: "ACE \<Rightarrow> bool" where
  "entry_ok e \<longleftrightarrow> LW_IS_VALID_FLAGS (a_flags e) VALID_ACE_FLAGS_MASK \<and> sid_valid (a_sid e)
     \<and> (a_type e \<noteq> ACCESS_ALLOWED_ACE_TYPE \<longrightarrow> LW_IS_VALID_FLAGS (a_mask e) VALID_DACL_ACCESS_MASK)"

section \<open>Building a list\<close>

text \<open>A block of the given size that holds the entries added so far, in the order that the additions give them.\<close>

definition built :: "(UCHAR \<Rightarrow> bool) \<Rightarrow> (ACE list \<Rightarrow> mem list) \<Rightarrow> USHORT \<Rightarrow> mem \<Rightarrow> ACE list \<Rightarrow> bool" where
  "built kind order sz m es \<longleftrightarrow> acl_at m \<lparr> acl_rev = ACL_REVISION, acl_size = sz, acl_aces = order es \<rparr>
     \<and> length (concat (order es)) = sum_list (map ace_length es)
     \<and> list_all (\<lambda>e. kind (a_type e) \<and> entry_ok e) es"

text \<open>The outcome of adding entries to a block: they are there if the block has room for them all, otherwise there is an
  error.\<close>

definition adds_up ::
    "(UCHAR \<Rightarrow> bool) \<Rightarrow> (ACE list \<Rightarrow> mem list) \<Rightarrow> USHORT \<Rightarrow> (NTSTATUS \<times> mem) option \<Rightarrow> ACE list \<Rightarrow> bool" where
  "adds_up kind order sz res es \<longleftrightarrow>
    (if 8 + sum_list (map ace_length es) \<le> unat sz
     then \<exists>m. res = Some (STATUS_SUCCESS, m) \<and> built kind order sz m es
     else \<exists>st m. \<not> NT_SUCCESS st \<and> res = Some (st, m))"

text \<open>The contract of additions to a list of one kind.\<close>

locale acl_builder =
  fixes kind :: "UCHAR \<Rightarrow> bool" and order :: "ACE list \<Rightarrow> mem list"
  assumes kind_typed: "kind t \<Longrightarrow> typed t"
    and order_Nil: "order [] = []"
    and add: "built kind order sz m es \<Longrightarrow> kind (a_type e) \<Longrightarrow> entry_ok e \<Longrightarrow> sid_of sm = Some (a_sid e)
      \<Longrightarrow> adds_up kind order sz (add_typed (a_type e) m (a_flags e) (a_mask e) (Some sm)) (es @ [e])"

text \<open>Access control entries: denied before allowed, direct before inherited, the latest first among equals.\<close>

definition dacl_kind :: "UCHAR \<Rightarrow> bool" where
  "dacl_kind t \<longleftrightarrow> t = ACCESS_ALLOWED_ACE_TYPE \<or> t = ACCESS_DENIED_ACE_TYPE"

definition dacl_order :: "ACE list \<Rightarrow> mem list" where
  "dacl_order es = sort_key entry_rank (rev (map ace_bytes es))"

text \<open>Audit entries are appended.\<close>

definition sacl_kind :: "UCHAR \<Rightarrow> bool" where
  "sacl_kind t \<longleftrightarrow> t = SYSTEM_AUDIT_ACE_TYPE"

definition sacl_order :: "ACE list \<Rightarrow> mem list" where
  "sacl_order es = map ace_bytes es"

lemma insert_position_insort:
  "take (insert_position (entry_rank x) as) as @ [x] @ drop (insert_position (entry_rank x) as) as = insort_key entry_rank x as"
  by (induction as) (auto simp: insert_position_def)

lemma dacl_order_append: "dacl_order (es @ [e]) = insort_key entry_rank (ace_bytes e) (dacl_order es)"
  by (simp add: dacl_order_def)

lemma dacl_order_canonical:
  assumes "list_all (\<lambda>e. dacl_kind (a_type e)) es"
  shows "canonical (dacl_order es)"
  using assms by (auto simp: canonical_def dacl_order_def list_all_iff dacl_kind_def access_entry_def ace_bytes_def)

lemma length_concat_insort: "length (concat (insort_key f x xs)) = length x + length (concat xs)"
  by (induction xs) auto

lemma flags_ucast: "ucast (ucast (f :: UCHAR) :: ULONG) = (ucast f :: USHORT)" "ucast (ucast f :: USHORT) = f"
  by (rule bit_word_eqI, auto simp: bit_simps)+

lemma valid_flags_wider:
  "LW_IS_VALID_FLAGS (f :: UCHAR) VALID_ACE_FLAGS_MASK \<Longrightarrow> LW_IS_VALID_FLAGS (ucast f :: USHORT) VALID_ACE_FLAGS_MASK"
proof -
  have "ucast (f AND NOT 0xDF) = (ucast f AND NOT 0xDF :: USHORT)"
    by (rule bit_word_eqI) (auto simp: bit_simps dest: bit_imp_le_length)
  then show "LW_IS_VALID_FLAGS f VALID_ACE_FLAGS_MASK \<Longrightarrow> LW_IS_VALID_FLAGS (ucast f :: USHORT) VALID_ACE_FLAGS_MASK"
    by (simp add: LW_IS_VALID_FLAGS_def)
qed

interpretation dacl_list: acl_builder dacl_kind dacl_order
proof unfold_locales
  fix sz m es e sm
  assume b: "built dacl_kind dacl_order sz m es" and k: "dacl_kind (a_type e)" and ok: "entry_ok e" and s: "sid_of sm = Some (a_sid e)"
  let ?a = "\<lparr> acl_rev = ACL_REVISION, acl_size = sz, acl_aces = dacl_order es \<rparr>" and ?F = "ucast (a_flags e) :: ULONG"
  have a: "acl_at m ?a" "canonical (acl_aces ?a)" and u: "acl_used ?a = 8 + sum_list (map ace_length es)"
    using b dacl_order_canonical[of es] by (auto simp: built_def acl_used_def list_all_iff)
  have f: "LW_IS_VALID_FLAGS (ucast ?F :: USHORT) VALID_ACE_FLAGS_MASK" "sid_valid (a_sid e)"
    using ok valid_flags_wider[of "a_flags e"] by (simp_all add: entry_ok_def flags_ucast)
  have e: "mk_ace (a_type e) (ucast ?F) (a_mask e) (a_sid e) = e"
    by (simp add: flags_ucast)
  have ins: "acl_insert ?a (insert_position (ace_rank (a_type e) ?F) (acl_aces ?a)) [ace_bytes e] = ?a\<lparr>acl_aces := dacl_order (es @ [e])\<rparr>"
    using entry_rank_new[OF f(1), of "a_type e" "a_mask e" "a_sid e"] insert_position_insort[of "ace_bytes e" "dacl_order es"]
    unfolding e by (simp add: acl_insert_def dacl_order_append)
  show "adds_up dacl_kind dacl_order sz (add_typed (a_type e) m (a_flags e) (a_mask e) (Some sm)) (es @ [e])"
  proof (cases "acl_used ?a + sid_ace_length (a_sid e) \<le> unat (acl_size ?a)")
    case True
    have "\<exists>m'. add_typed (a_type e) m (a_flags e) (a_mask e) (Some sm) = Some (STATUS_SUCCESS, m')
        \<and> acl_at m' (?a\<lparr>acl_aces := dacl_order (es @ [e])\<rparr>)"
      using RtlAddAccessAllowedAceEx_canonical[OF a s f(2) _ _ True f(1), of ACL_REVISION "a_mask e"]
        RtlAddAccessDeniedAceEx_canonical[OF a s f(2) _ _ True f(1), of ACL_REVISION "a_mask e"] e ins ok k
      by (auto simp: add_typed_def dacl_kind_def entry_ok_def)
    then show ?thesis
      using True u b k ok f(2)
      by (auto simp: adds_up_def built_def dacl_order_append length_concat_insort length_ace_bytes ace_length_def)
  next
    case False
    then have "\<exists>st. \<not> NT_SUCCESS st \<and> add_typed (a_type e) m (a_flags e) (a_mask e) (Some sm) = Some (st, m)"
      using add_no_room[OF a s f(2), of ACL_REVISION] k by (auto simp: add_typed_def dacl_kind_def)
    then show ?thesis
      using False u by (auto simp: adds_up_def ace_length_def)
  qed
qed (auto simp: dacl_kind_def typed_def dacl_order_def)

lemma audit_no_room:
  assumes "acl_at m a" and "sid_of sm = Some s" and "sid_valid s" and "rv = 2 \<or> rv = 4" and "rv \<le> ucast (acl_rev a)"
    and "unat (acl_size a) < acl_used a + sid_ace_length s"
  shows "\<exists>e. \<not> NT_SUCCESS e \<and> RtlAddSystemAuditAceEx m rv F am (Some sm) = Some (e, m)"
  using audit.store_new_ace_no_room[OF assms(1,2,6)] acl_add_position[OF assms(1), of "- 1"]
  by (simp add: RtlAddSystemAuditAceEx_def add_ace_checks_pass[OF assms(1-5)])

interpretation sacl_list: acl_builder sacl_kind sacl_order
proof unfold_locales
  fix sz m es e sm
  assume b: "built sacl_kind sacl_order sz m es" and k: "sacl_kind (a_type e)" and ok: "entry_ok e" and s: "sid_of sm = Some (a_sid e)"
  let ?a = "\<lparr> acl_rev = ACL_REVISION, acl_size = sz, acl_aces = sacl_order es \<rparr>" and ?F = "ucast (a_flags e) :: ULONG"
  have a: "acl_at m ?a" and u: "acl_used ?a = 8 + sum_list (map ace_length es)"
    using b by (auto simp: built_def acl_used_def)
  have f: "LW_IS_VALID_FLAGS (ucast ?F :: USHORT) VALID_ACE_FLAGS_MASK" "sid_valid (a_sid e)"
    "LW_IS_VALID_FLAGS (a_mask e) VALID_DACL_ACCESS_MASK"
    using ok k valid_flags_wider[of "a_flags e"] by (simp_all add: entry_ok_def sacl_kind_def flags_ucast)
  have e: "mk_ace SYSTEM_AUDIT_ACE_TYPE (ucast ?F) (a_mask e) (a_sid e) = e"
    using k by (simp add: flags_ucast sacl_kind_def)
  show "adds_up sacl_kind sacl_order sz (add_typed (a_type e) m (a_flags e) (a_mask e) (Some sm)) (es @ [e])"
  proof (cases "acl_used ?a + sid_ace_length (a_sid e) \<le> unat (acl_size ?a)")
    case True
    have "\<exists>m'. add_typed (a_type e) m (a_flags e) (a_mask e) (Some sm) = Some (STATUS_SUCCESS, m')
        \<and> acl_at m' (?a\<lparr>acl_aces := sacl_order (es @ [e])\<rparr>)"
      using RtlAddSystemAuditAceEx_correct[OF a s f(2) _ _ True f(1,3), of ACL_REVISION] k
      unfolding e by (auto simp: add_typed_def sacl_kind_def acl_insert_def sacl_order_def)
    then show ?thesis
      using True u b k ok f(2) by (auto simp: adds_up_def built_def sacl_order_def length_ace_bytes ace_length_def)
  next
    case False
    then show ?thesis
      using audit_no_room[OF a s f(2), of ACL_REVISION ?F "a_mask e"] u k by (auto simp: adds_up_def add_typed_def sacl_kind_def ace_length_def)
  qed
qed (auto simp: sacl_kind_def typed_def sacl_order_def)

section \<open>The loops\<close>

text \<open>The fields of an entry, read from a pointer to it.\<close>

lemma ace_of_pointer:
  assumes "ace_of ace = Some e"
  shows "ace_AceType (ace @ r) = Some (a_type e)" and "ace_AceFlags (ace @ r) = Some (a_flags e)"
    and "ace_Mask (ace @ r) = Some (a_mask e)" and "\<exists>p. ptr_add (ace @ r) 8 = Some p \<and> sid_of p = Some (a_sid e)"
  using ace_of_append[OF assms, of r] by (auto simp: ace_of_def bind_eq_Some_conv)

lemma ace_head:
  assumes "ace_wf ace"
  shows "ace_AceType (ace @ r) = Some (ace ! 0)" and "ace_AceFlags (ace @ r) = Some (ace ! 1)"
proof -
  obtain b0 b1 rest where "ace = b0 # b1 # rest"
    using assms by (cases ace rule: remdups_adj.cases) (auto simp: ace_wf_def)
  then show "ace_AceType (ace @ r) = Some (ace ! 0)" "ace_AceFlags (ace @ r) = Some (ace ! 1)"
    by (simp_all add: ace_AceType_def ace_AceFlags_def)
qed

lemma ace_of_head:
  assumes "ace_wf ace" and "ace_of ace = Some e"
  shows "a_type e = ace ! 0" and "a_flags e = ace ! 1"
  using ace_head[OF assms(1), of "[]"] ace_of_pointer(1,2)[OF assms(2), of "[]"] by simp_all

lemma source_entry:
  assumes "source_at m a" and "ace \<in> set (acl_aces a)"
  shows "ace_wf ace" and "typed (ace ! 0) \<Longrightarrow> \<exists>e. ace_of ace = Some e \<and> typed_entry ace = [e]"
    and "\<not> typed (ace ! 0) \<Longrightarrow> typed_entry ace = []"
  using assms by (auto simp: source_at_def acl_at_def acl_valid_def typed_entry_def list_all_iff)

lemma query_owner_image:
  assumes "token_ok T" and "t_owner T = Some ow"
  shows "query_owner (Some (token_image T)) =
    Some (if sid_length ow \<le> 64 then (STATUS_SUCCESS, Some (sid_bytes ow)) else (STATUS_BUFFER_TOO_SMALL, None))"
proof -
  have "sid_length ow < 1032"
    using assms sid_length_lt[of ow] by (simp add: token_ok_def)
  then show ?thesis
    using RtlQueryAccessTokenInformation_correct[OF assms(1), of TokenOwner "InfoOwner (Some (sid_bytes ow))" "8 + sid_length ow" OWNER_BUFFER_SIZE] assms(2)
    by (auto simp: query_owner_def query_spec_def)
qed

lemma query_group_image:
  assumes "token_ok T" and "t_primary T = Some gr"
  shows "query_group (Some (token_image T)) = Some (STATUS_SUCCESS, Some (sid_bytes gr))"
proof -
  have "sid_length gr \<le> 68"
    using assms by (simp add: token_ok_def sid_valid_def sid_length_def)
  then show ?thesis
    using RtlQueryAccessTokenInformation_correct[OF assms(1), of TokenPrimaryGroup "InfoPrimaryGroup (Some (sid_bytes gr))" "8 + sid_length gr" GROUP_BUFFER_SIZE] assms(2)
    by (auto simp: query_group_def query_spec_def)
qed

lemma well_known_creators:
  "\<exists>r. RtlCreateWellKnownSid WinCreatorOwnerSid None (Some (replicate SID_MAX_SIZE 0)) (word_of_nat SID_MAX_SIZE) =
    Some (STATUS_SUCCESS, Some (sid_bytes creator_owner_sid @ r), 12)"
  "\<exists>r. RtlCreateWellKnownSid WinCreatorGroupSid None (Some (replicate SID_MAX_SIZE 0)) (word_of_nat SID_MAX_SIZE) =
    Some (STATUS_SUCCESS, Some (sid_bytes creator_group_sid @ r), 12)"
  using RtlCreateWellKnownSid_refines[of None "word_of_nat SID_MAX_SIZE" "replicate SID_MAX_SIZE 0"]
  by (auto simp: well_known_eval creator_owner_sid_def creator_group_sid_def sid_length_def)

lemma get_creator_sids_ok:
  assumes "token_ok T" and "t_owner T = Some ow" and "t_primary T = Some gr" and "sid_length ow \<le> 64"
  shows "\<exists>co cg. get_creator_sids (Some (token_image T)) =
      Some (Inr \<lparr> cs_CreatorOwner = co, cs_CreatorGroup = cg, cs_Owner = Some (sid_bytes ow), cs_PrimaryGroup = Some (sid_bytes gr) \<rparr>)
    \<and> sid_of co = Some creator_owner_sid \<and> sid_of cg = Some creator_group_sid"
proof -
  obtain r r' where "RtlCreateWellKnownSid WinCreatorOwnerSid None (Some (replicate SID_MAX_SIZE 0)) (word_of_nat SID_MAX_SIZE) =
      Some (STATUS_SUCCESS, Some (sid_bytes creator_owner_sid @ r), 12)"
    "RtlCreateWellKnownSid WinCreatorGroupSid None (Some (replicate SID_MAX_SIZE 0)) (word_of_nat SID_MAX_SIZE) =
      Some (STATUS_SUCCESS, Some (sid_bytes creator_group_sid @ r'), 12)"
    using well_known_creators by blast
  moreover have "sid_wf creator_owner_sid" "sid_wf creator_group_sid"
    by (simp_all add: creator_owner_sid_def creator_group_sid_def sid_wf_def)
  ultimately show ?thesis
    using query_owner_image[OF assms(1,2)] query_group_image[OF assms(1,3)] assms(4)
    by (simp add: get_creator_sids_def sid_of_bytes)
qed

lemma replace_creator_ok:
  assumes "sid_of co = Some creator_owner_sid" and "sid_of cg = Some creator_group_sid" and "sid_valid ow" and "sid_valid gr"
    and "sid_of p = Some s"
  shows "\<exists>q. replace_creator \<lparr> cs_CreatorOwner = co, cs_CreatorGroup = cg, cs_Owner = Some (sid_bytes ow), cs_PrimaryGroup = Some (sid_bytes gr) \<rparr> p
      = Some (Some q) \<and> sid_of q = Some (stands_for ow gr s)"
  using assms sid_of_bytes[of ow "[]"] sid_of_bytes[of gr "[]"] RtlEqualSid_correct[OF assms(5,1)] RtlEqualSid_correct[OF assms(5,2)]
  by (simp add: replace_creator_def stands_for_def)

context acl_builder
begin

text \<open>A body adds the entries \<^verbatim>\<open>g\<close> of every entry of the source.\<close>

definition adds :: "USHORT \<Rightarrow> mem list \<Rightarrow> (mem \<Rightarrow> mem \<Rightarrow> (NTSTATUS \<times> mem) option) \<Rightarrow> (mem \<Rightarrow> ACE list) \<Rightarrow> bool" where
  "adds sz as f g \<longleftrightarrow>
    (\<forall>ace \<in> set as. \<forall>r m es. built kind order sz m es \<longrightarrow> adds_up kind order sz (f m (ace @ r)) (es @ g ace))"

lemma adds_up_Nil: "built kind order sz m es \<Longrightarrow> adds_up kind order sz (Some (STATUS_SUCCESS, m)) es"
  by (auto simp: adds_up_def built_def acl_at_def acl_valid_def acl_used_def)

text \<open>One step of a loop over the entries: the rest of the loop continues after a success.\<close>

lemma adds_up_step:
  assumes "adds_up kind order sz r (es @ xs)"
    and "\<And>m. built kind order sz m (es @ xs) \<Longrightarrow> adds_up kind order sz (k m) (es @ xs @ ys)"
  shows "adds_up kind order sz (do { (status, m) \<leftarrow> r; if status \<noteq> STATUS_SUCCESS then Some (status, m) else k m }) (es @ xs @ ys)"
proof (cases "8 + sum_list (map ace_length (es @ xs)) \<le> unat sz")
  case True
  then obtain m where "r = Some (STATUS_SUCCESS, m)" "built kind order sz m (es @ xs)"
    using assms(1) by (auto simp: adds_up_def)
  then show ?thesis
    using assms(2) by simp
next
  case False
  then obtain st m where "r = Some (st, m)" "\<not> NT_SUCCESS st"
    using assms(1) by (auto simp: adds_up_def)
  moreover have "\<not> 8 + sum_list (map ace_length (es @ xs @ ys)) \<le> unat sz"
    using False by simp
  ultimately show ?thesis
    by (auto simp: adds_up_def)
qed

text \<open>A loop over such a body adds them all, in order.\<close>

lemma ace_loop_adds:
  assumes "acl_at src b" and "adds sz (acl_aces b) f g" and "i + n = length (acl_aces b)" and "built kind order sz m es"
  shows "adds_up kind order sz (ace_loop f src m (word_of_nat i) n) (es @ concat (map g (drop i (acl_aces b))))"
  using assms(3,4)
proof (induction n arbitrary: i m es)
  case (Suc n)
  let ?ace = "acl_aces b ! i"
  have i: "i < length (acl_aces b)" "?ace \<in> set (acl_aces b)"
    using Suc.prems(1) by auto
  have d: "drop i (acl_aces b) = ?ace # drop (Suc i) (acl_aces b)"
    using i by (simp add: Cons_nth_drop_Suc)
  obtain r where r: "ptr_add src (ace_pos b i) = Some (?ace @ r)"
    using acl_at_entry(1)[OF assms(1) i(1)] by blast
  have "i < 65536"
    using acl_valid_bounds(2)[of b] assms(1) i(1) by (simp add: acl_at_def)
  then have "unat (ucast (word_of_nat i :: USHORT) :: ULONG) = i"
    by (simp add: unsigned_ucast_eq unsigned_of_nat take_bit_nat_eq_self)
  then have "RtlGetAce src (ucast (word_of_nat i :: USHORT)) = Some (STATUS_SUCCESS, Some (ace_pos b i))"
    using RtlGetAce_correct[OF assms(1)] i(1) by simp
  moreover have "adds_up kind order sz (f m (?ace @ r)) (es @ g ?ace)"
    using assms(2) i(2) Suc.prems(2) by (simp add: adds_def)
  moreover have "adds_up kind order sz (ace_loop f src m (word_of_nat i + 1) n) (es @ g ?ace @ concat (map g (drop (Suc i) (acl_aces b))))"
    if "built kind order sz m (es @ g ?ace)" for m
    using Suc.IH[OF _ that, of "Suc i"] Suc.prems(1) by (simp add: add.commute[of "1 :: USHORT"])
  ultimately show ?case
    using r adds_up_step[of sz "f m (?ace @ r)" es "g ?ace" "\<lambda>m. ace_loop f src m (word_of_nat i + 1) n"] by (simp add: d)
qed (simp add: adds_up_Nil)

lemma assign_loop_adds:
  assumes "acl_at src b" and "adds sz (acl_aces b) (assign_ace gm cs) g" and "i + n = length (acl_aces b)" and "built kind order sz m es"
  shows "adds_up kind order sz (assign_loop gm cs src (word_of_nat (acl_used b)) (ace_cursor b i) m)
    (es @ concat (map g (drop i (acl_aces b))))"
  using assms(3,4)
proof (induction n arbitrary: i m es)
  case 0
  then show ?case
    using RtlIterateAce_stop[OF assms(1)] by (subst assign_loop.simps) (simp add: adds_up_Nil)
next
  case (Suc n)
  let ?ace = "acl_aces b ! i"
  have i: "i < length (acl_aces b)" "?ace \<in> set (acl_aces b)"
    using Suc.prems(1) by auto
  have d: "drop i (acl_aces b) = ?ace # drop (Suc i) (acl_aces b)"
    using i by (simp add: Cons_nth_drop_Suc)
  obtain r where r: "ptr_add src (ace_pos b i) = Some (?ace @ r)"
    using acl_at_entry(1)[OF assms(1) i(1)] by blast
  moreover have "adds_up kind order sz (assign_ace gm cs m (?ace @ r)) (es @ g ?ace)"
    using assms(2) i(2) Suc.prems(2) by (simp add: adds_def)
  moreover have "adds_up kind order sz (assign_loop gm cs src (word_of_nat (acl_used b)) (ace_cursor b (Suc i)) m)
      (es @ g ?ace @ concat (map g (drop (Suc i) (acl_aces b))))" if "built kind order sz m (es @ g ?ace)" for m
    using Suc.IH[OF _ that, of "Suc i"] Suc.prems(1) by simp
  ultimately show ?case
    using RtlIterateAce_step[OF assms(1) i(1)] adds_up_step[of sz "assign_ace gm cs m (?ace @ r)" es "g ?ace"
        "\<lambda>m. assign_loop gm cs src (word_of_nat (acl_used b)) (ace_cursor b (Suc i)) m"]
    by (subst assign_loop.simps) (simp add: d)
qed

end

section \<open>The two ways of building a list\<close>

definition option_entries :: "ACL option \<Rightarrow> ACE list" where
  "option_entries a = (case a of None \<Rightarrow> [] | Some a \<Rightarrow> typed_entries a)"

definition new_entries :: "bool \<Rightarrow> GENERIC_MAPPING \<Rightarrow> SID \<Rightarrow> SID \<Rightarrow> bool \<Rightarrow> ACL option \<Rightarrow> ACL option \<Rightarrow> ACE list" where
  "new_entries container gm ow gr defaulted p c =
    (if p = None \<and> defaulted then map (assign_entry gm ow gr) (option_entries c)
     else map (map_entry gm) (option_entries c) @ concat (map (inherited_entries container gm ow gr) (option_entries p)))"

text \<open>The size that the functions compute, before it is cut to 16 bits.\<close>

definition new_size :: "ACL option \<Rightarrow> ACL option \<Rightarrow> nat" where
  "new_size p c =
     (case c of None \<Rightarrow> 0 | Some a \<Rightarrow> 8 + 80 * length (acl_aces a))
   + (case p of None \<Rightarrow> 0 | Some a \<Rightarrow> 8 + 160 * length (acl_aces a))"

lemma length_typed_entries: "length (typed_entries a) \<le> length (acl_aces a)"
proof -
  have "length (typed_entry ace) \<le> 1" for ace
    by (simp add: typed_entry_def split: option.splits)
  then have "length (concat (map typed_entry as)) \<le> length as" for as
    by (induction as) (auto simp: add_le_mono[of _ 1, simplified])
  then show ?thesis
    by (simp add: typed_entries_def)
qed

lemma entries_size: "list_all (\<lambda>e. kind (a_type e) \<and> entry_ok e) es \<Longrightarrow> sum_list (map ace_length es) \<le> 76 * length es"
  by (induction es) (auto simp: entry_ok_def sid_valid_def ace_length_def sid_ace_length_def sid_length_def)

lemma length_inherited: "length (inherited_entries container gm ow gr e) \<le> 2"
  by (simp add: inherited_entries_def)

lemma length_new_entries:
  assumes "p \<noteq> None \<or> c \<noteq> None"
  shows "8 + 76 * length (new_entries container gm ow gr defaulted p c) \<le> new_size p c"
proof -
  have "length (concat (map (inherited_entries container gm ow gr) es)) \<le> 2 * length es" for es
    using length_inherited by (induction es) (auto simp: add_le_mono[of _ 2, simplified])
  then have "length (new_entries container gm ow gr defaulted p c) \<le> length (option_entries c) + 2 * length (option_entries p)"
    by (auto simp: new_entries_def)
  moreover have "length (option_entries a) \<le> (case a of None \<Rightarrow> 0 | Some a \<Rightarrow> length (acl_aces a))" for a
    using length_typed_entries by (simp add: option_entries_def split: option.splits)
  note this[of p] this[of c]
  ultimately show ?thesis
    using assms by (cases p; cases c) (simp_all add: new_size_def option_entries_def)
qed

lemma new_acl_ok:
  assumes "\<forall>n. avail n" and "8 \<le> unat sz"
  shows "\<exists>m. new_acl avail sz = Some (Inr m) \<and> acl_at m \<lparr> acl_rev = ACL_REVISION, acl_size = sz, acl_aces = [] \<rparr>"
proof -
  have "unat sz < 2 ^ 16"
    using unsigned_less[of sz, where ?'a = nat] by simp
  then have "unat (ucast sz :: ULONG) = unat sz" "unat sz \<le> 65535"
    by (simp_all add: unsigned_ucast_eq take_bit_nat_eq_self)
  moreover have "ucast (ucast sz :: ULONG) = sz"
    by (rule bit_word_eqI) (auto simp: bit_simps)
  ultimately show ?thesis
    using RtlInitializeAcl_correct[of "ucast sz" "replicate (unat sz) 0" ACL_REVISION] assms
    by (auto simp: new_acl_def RTL_ALLOCATE_cases RtlCreateAcl_def)
qed

context acl_builder
begin

abbreviation all_ok :: "ACE list \<Rightarrow> bool" where
  "all_ok \<equiv> list_all (\<lambda>e. kind (a_type e) \<and> entry_ok e)"

lemma creator_ace_adds:
  assumes "source_at src b" and "ace \<in> set (acl_aces b)" and "all_ok (map (map_entry gm) (typed_entry ace))"
    and "built kind order sz m es"
  shows "adds_up kind order sz (creator_ace gm m (ace @ r)) (es @ map (map_entry gm) (typed_entry ace))"
proof (cases "typed (ace ! 0)")
  case True
  then obtain e where e: "ace_of ace = Some e" "typed_entry ace = [e]"
    using source_entry(2)[OF assms(1,2)] by blast
  obtain p where p: "ptr_add (ace @ r) 8 = Some p" "sid_of p = Some (a_sid e)"
    using ace_of_pointer(4)[OF e(1)] by blast
  have t: "a_type e = ace ! 0"
    using ace_of_head(1)[OF source_entry(1)[OF assms(1,2)] e(1)] .
  show ?thesis
    using add[OF assms(4), of "map_entry gm e" p] assms(3) True p t
    by (simp add: creator_ace_def ace_of_pointer[OF e(1)] e(2) map_entry_def)
next
  case False
  then show ?thesis
    using source_entry[OF assms(1,2)] assms(4) by (simp add: creator_ace_def ace_head adds_up_Nil)
qed

end

context acl_builder
begin

lemma assign_ace_adds:
  assumes "source_at src b" and "ace \<in> set (acl_aces b)" and "all_ok (map (assign_entry gm ow gr) (typed_entry ace))"
    and "sid_of co = Some creator_owner_sid" "sid_of cg = Some creator_group_sid" "sid_valid ow" "sid_valid gr"
    and "built kind order sz m es"
  shows "adds_up kind order sz (assign_ace gm \<lparr> cs_CreatorOwner = co, cs_CreatorGroup = cg, cs_Owner = Some (sid_bytes ow), cs_PrimaryGroup = Some (sid_bytes gr) \<rparr> m (ace @ r))
    (es @ map (assign_entry gm ow gr) (typed_entry ace))"
proof (cases "typed (ace ! 0)")
  case True
  then obtain e where e: "ace_of ace = Some e" "typed_entry ace = [e]"
    using source_entry(2)[OF assms(1,2)] by blast
  obtain p where p: "ptr_add (ace @ r) 8 = Some p" "sid_of p = Some (a_sid e)"
    using ace_of_pointer(4)[OF e(1)] by blast
  obtain q where q: "replace_creator \<lparr> cs_CreatorOwner = co, cs_CreatorGroup = cg, cs_Owner = Some (sid_bytes ow), cs_PrimaryGroup = Some (sid_bytes gr) \<rparr> p
      = Some (Some q)" "sid_of q = Some (stands_for ow gr (a_sid e))"
    using replace_creator_ok[OF assms(4-7) p(2)] by blast
  have t: "a_type e = ace ! 0"
    using ace_of_head(1)[OF source_entry(1)[OF assms(1,2)] e(1)] .
  show ?thesis
    using add[OF assms(8), of "assign_entry gm ow gr e" q] assms(3) True p q t
    by (simp add: assign_ace_def ace_of_pointer[OF e(1)] e(2) assign_entry_def)
next
  case False
  then show ?thesis
    using source_entry[OF assms(1,2)] assms(8) by (simp add: assign_ace_def ace_head adds_up_Nil)
qed

lemma parent_ace_adds:
  assumes "source_at src b" and "ace \<in> set (acl_aces b)"
    and ok: "all_ok (concat (map (inherited_entries container gm ow gr) (typed_entry ace)))"
    and cs: "sid_of co = Some creator_owner_sid" "sid_of cg = Some creator_group_sid" "sid_valid ow" "sid_valid gr"
    and b: "built kind order sz m es"
  shows "adds_up kind order sz (parent_ace container gm \<lparr> cs_CreatorOwner = co, cs_CreatorGroup = cg, cs_Owner = Some (sid_bytes ow), cs_PrimaryGroup = Some (sid_bytes gr) \<rparr> m (ace @ r))
    (es @ concat (map (inherited_entries container gm ow gr) (typed_entry ace)))"
proof (cases "typed (ace ! 0)")
  case True
  then obtain e where e: "ace_of ace = Some e" "typed_entry ace = [e]"
    using source_entry(2)[OF assms(1,2)] by blast
  have t: "typed (a_type e)"
    using ace_of_head(1)[OF source_entry(1)[OF assms(1,2)] e(1)] True by simp
  obtain p where p: "ptr_add (ace @ r) 8 = Some p" "sid_of p = Some (a_sid e)"
    using ace_of_pointer(4)[OF e(1)] by blast
  obtain q where q: "replace_creator \<lparr> cs_CreatorOwner = co, cs_CreatorGroup = cg, cs_Owner = Some (sid_bytes ow), cs_PrimaryGroup = Some (sid_bytes gr) \<rparr> p
      = Some (Some q)" "sid_of q = Some (stands_for ow gr (a_sid e))"
    using replace_creator_ok[OF cs p(2)] by blast
  let ?copy = "if container \<and> \<not> IsSetFlag (a_flags e) NO_PROPAGATE_INHERIT_ACE then [e] else []"
  let ?new = "assign_entry gm ow gr (e\<lparr>a_flags := child_flags (a_flags e)\<rparr>)"
  show ?thesis
  proof (cases "inheritable container e")
    case True
    then have i: "inherited_entries container gm ow gr e = ?copy @ [?new]"
      by (simp add: inherited_entries_def)
    have "adds_up kind order sz (if container \<and> \<not> IsSetFlag (a_flags e) NO_PROPAGATE_INHERIT_ACE
        then add_typed (a_type e) m (a_flags e) (a_mask e) (Some p) else Some (STATUS_SUCCESS, m)) (es @ ?copy)"
      using add[OF b, of e p] adds_up_Nil[OF b] ok p(2) by (auto simp: i e(2))
    moreover have "adds_up kind order sz (add_typed (a_type e) m1 (child_flags (a_flags e)) (RtlMapGenericMask (a_mask e) gm) (Some q)) (es @ ?copy @ [?new])"
      if "built kind order sz m1 (es @ ?copy)" for m1
      using add[OF that, of ?new q] ok q(2) by (simp add: i e(2) assign_entry_def)
    ultimately have "adds_up kind order sz (do {
        (status, m) \<leftarrow> (if container \<and> \<not> IsSetFlag (a_flags e) NO_PROPAGATE_INHERIT_ACE
          then add_typed (a_type e) m (a_flags e) (a_mask e) (Some p) else Some (STATUS_SUCCESS, m));
        if status \<noteq> STATUS_SUCCESS then Some (status, m)
        else add_typed (a_type e) m (child_flags (a_flags e)) (RtlMapGenericMask (a_mask e) gm) (Some q) }) (es @ ?copy @ [?new])"
      by (rule adds_up_step)
    then show ?thesis
      using p q t True by (simp add: parent_ace_def inherit_flags_child ace_of_pointer[OF e(1)] e(2) i inheritable_def IsSetFlag_def cong: if_cong split: if_splits)
  next
    case False
    then show ?thesis
      using adds_up_Nil[OF b]
      by (cases container) (simp_all add: parent_ace_def ace_of_pointer[OF e(1)] e(2) inherited_entries_def inheritable_def IsSetFlag_def)
  qed
next
  case False
  then show ?thesis
    using source_entry[OF assms(1,2)] adds_up_Nil[OF b] by (simp add: parent_ace_def ace_head)
qed

end

context acl_builder
begin

lemma built_Nil: "acl_at m \<lparr> acl_rev = ACL_REVISION, acl_size = sz, acl_aces = [] \<rparr> \<Longrightarrow> built kind order sz m []"
  by (simp add: built_def order_Nil)

lemma concat_typed: "concat (map (\<lambda>ace. map f (typed_entry ace)) (acl_aces a)) = map f (typed_entries a)"
  by (simp add: typed_entries_def map_concat comp_def)

lemma concat_typed2: "concat (map (\<lambda>ace. concat (map f (typed_entry ace))) (acl_aces a)) = concat (map f (typed_entries a))"
proof -
  have "concat (map (\<lambda>ace. concat (map f (typed_entry ace))) as) = concat (map f (concat (map typed_entry as)))" for as
    by (induction as) simp_all
  then show ?thesis
    by (simp add: typed_entries_def)
qed

lemma all_ok_concat: "all_ok (concat (map g as)) \<Longrightarrow> x \<in> set as \<Longrightarrow> all_ok (g x)"
  by (auto simp: list_all_iff)

lemma creator_loop:
  assumes "rel_option source_at C c" and "all_ok (map (map_entry gm) (option_entries c))" and "built kind order sz m []" and "ace_count C = Some n"
  shows "adds_up kind order sz (case C of None \<Rightarrow> Some (STATUS_SUCCESS, m) | Some src \<Rightarrow> ace_loop (creator_ace gm) src m 0 (unat n))
    (map (map_entry gm) (option_entries c))"
proof (cases C)
  case (Some src)
  then obtain b where b: "c = Some b" "source_at src b" "acl_at src b"
    using assms(1) by (auto simp: source_at_def option_rel_Some1)
  let ?g = "\<lambda>ace. map (map_entry gm) (typed_entry ace)"
  have n: "unat n = length (acl_aces b)"
    using assms(4) Some acl_at_fields(3)[OF b(3)] acl_valid_bounds(2)[of b] b(3)
    by (auto simp: ace_count_def RtlGetAclAceCount_def acl_at_def unat_short)
  have ok: "all_ok (?g ace)" if "ace \<in> set (acl_aces b)" for ace
    using all_ok_concat[of ?g, OF _ that] assms(2) by (simp add: concat_typed b(1) option_entries_def)
  have "adds sz (acl_aces b) (creator_ace gm) ?g"
    using creator_ace_adds[OF b(2) _ ok] by (simp add: adds_def)
  then show ?thesis
    using ace_loop_adds[OF b(3), of sz _ ?g 0 "unat n" m "[]"] assms(3) n Some
    by (simp add: concat_typed b(1) option_entries_def)
qed (use assms adds_up_Nil[OF assms(3)] in \<open>auto simp: option_entries_def\<close>)

lemma parent_loop:
  assumes "rel_option source_at P p" and "all_ok (concat (map (inherited_entries container gm ow gr) (option_entries p)))"
    and cs: "sid_of co = Some creator_owner_sid" "sid_of cg = Some creator_group_sid" "sid_valid ow" "sid_valid gr"
    and "built kind order sz m es" and "ace_count P = Some n"
  shows "adds_up kind order sz (case P of None \<Rightarrow> Some (STATUS_SUCCESS, m) | Some src \<Rightarrow> ace_loop (parent_ace container gm
        \<lparr> cs_CreatorOwner = co, cs_CreatorGroup = cg, cs_Owner = Some (sid_bytes ow), cs_PrimaryGroup = Some (sid_bytes gr) \<rparr>) src m 0 (unat n))
    (es @ concat (map (inherited_entries container gm ow gr) (option_entries p)))"
proof (cases P)
  case (Some src)
  then obtain b where b: "p = Some b" "source_at src b" "acl_at src b"
    using assms(1) by (auto simp: source_at_def option_rel_Some1)
  let ?g = "\<lambda>ace. concat (map (inherited_entries container gm ow gr) (typed_entry ace))"
  have n: "unat n = length (acl_aces b)"
    using assms(8) Some acl_at_fields(3)[OF b(3)] acl_valid_bounds(2)[of b] b(3)
    by (auto simp: ace_count_def RtlGetAclAceCount_def acl_at_def unat_short)
  have ok: "all_ok (?g ace)" if "ace \<in> set (acl_aces b)" for ace
    using all_ok_concat[of ?g, OF _ that] assms(2) by (simp add: concat_typed2 b(1) option_entries_def)
  have "adds sz (acl_aces b) (parent_ace container gm
      \<lparr> cs_CreatorOwner = co, cs_CreatorGroup = cg, cs_Owner = Some (sid_bytes ow), cs_PrimaryGroup = Some (sid_bytes gr) \<rparr>) ?g"
    using parent_ace_adds[OF b(2) _ ok cs] by (simp add: adds_def)
  then show ?thesis
    using ace_loop_adds[OF b(3), of sz _ ?g 0 "unat n" m es] assms(7) n Some
    by (simp add: concat_typed2 b(1) option_entries_def)
qed (use assms adds_up_Nil[OF assms(7)] in \<open>auto simp: option_entries_def\<close>)

end

text \<open>A token from which the functions can take an owner and a group; the owner must fit the buffer on the stack.\<close>

definition creator_token :: "TOKEN \<Rightarrow> SID \<Rightarrow> SID \<Rightarrow> bool" where
  "creator_token T ow gr \<longleftrightarrow> token_ok T \<and> t_owner T = Some ow \<and> t_primary T = Some gr \<and> sid_length ow \<le> 64"

lemma creator_token_sids:
  assumes "creator_token T ow gr"
  obtains co cg where "get_creator_sids (Some (token_image T)) =
      Some (Inr \<lparr> cs_CreatorOwner = co, cs_CreatorGroup = cg, cs_Owner = Some (sid_bytes ow), cs_PrimaryGroup = Some (sid_bytes gr) \<rparr>)"
    "sid_of co = Some creator_owner_sid" "sid_of cg = Some creator_group_sid" "sid_valid ow" "sid_valid gr"
  using get_creator_sids_ok[of T ow gr] assms by (auto simp: creator_token_def token_ok_def)

lemma source_count:
  assumes "rel_option source_at P p"
  shows "ace_count P = Some (word_of_nat (case p of None \<Rightarrow> 0 | Some a \<Rightarrow> length (acl_aces a)))"
  using assms acl_at_fields(3) by (cases P; cases p) (auto simp: ace_count_def RtlGetAclAceCount_def source_at_def)

lemma inherit_size_ok:
  assumes "rel_option source_at P p" and "rel_option source_at C c"
  shows "inherit_size C P = Some (word_of_nat (new_size p c))"
  using assms acl_at_fields(3)
  by (cases P; cases p; cases C; cases c) (auto simp: inherit_size_def RtlGetAclAceCount_def source_at_def new_size_def algebra_simps)

lemma new_acl_small:
  assumes "\<forall>n. avail n" and "sz \<noteq> 0" and "unat sz < 8"
  shows "new_acl avail sz = Some (Inl STATUS_BUFFER_TOO_SMALL)"
proof -
  have "unat (ucast sz :: ULONG) = unat sz" "unat sz \<noteq> 0"
    using assms(2,3) by (simp_all add: unsigned_ucast_eq take_bit_nat_eq_self unsigned_eq_0_iff)
  then show ?thesis
    using RtlInitializeAcl_correct[of "ucast sz" "replicate (unat sz) 0" ACL_REVISION] assms
    by (auto simp: new_acl_def RTL_ALLOCATE_cases RtlCreateAcl_def)
qed

text \<open>The outcome of making a new list of some size.\<close>

definition makes_list ::
    "(UCHAR \<Rightarrow> bool) \<Rightarrow> (ACE list \<Rightarrow> mem list) \<Rightarrow> USHORT \<Rightarrow> (NTSTATUS \<times> mem option) option \<Rightarrow> ACE list \<Rightarrow> bool" where
  "makes_list kind order sz res es \<longleftrightarrow>
    (if 8 + sum_list (map ace_length es) \<le> unat sz
     then \<exists>m. res = Some (STATUS_SUCCESS, Some m) \<and> built kind order sz m es
     else \<exists>st. \<not> NT_SUCCESS st \<and> res = Some (st, None))"

context acl_builder
begin

text \<open>Allocation, then additions.\<close>

lemma new_acl_then:
  assumes "\<forall>n. avail n" and "sz \<noteq> 0" and "\<And>m. built kind order sz m [] \<Longrightarrow> adds_up kind order sz (k m) es"
  shows "makes_list kind order sz (do {
      r \<leftarrow> new_acl avail sz;
      case r of Inl status \<Rightarrow> Some (status, None)
      | Inr m \<Rightarrow> do { (status, m) \<leftarrow> k m; Some (status, if status = STATUS_SUCCESS then Some m else None) } }) es"
proof (cases "unat sz < 8")
  case True
  then show ?thesis
    using new_acl_small[OF assms(1,2)] by (auto simp: makes_list_def)
next
  case False
  then obtain m where m: "new_acl avail sz = Some (Inr m)" "built kind order sz m []"
    using new_acl_ok[OF assms(1), of sz] built_Nil by (auto simp: not_less)
  then show ?thesis
    using assms(3)[OF m(2)] by (auto simp: makes_list_def adds_up_def)
qed

end

text \<open>The second way, with its two loops as one continuation.\<close>

lemma inherit_unfold:
  assumes "\<not> (P = None \<and> defaulted)" and "inherit_size C P = Some sz" and "get_creator_sids tok = Some (Inr cs)"
    and "ace_count C = Some n" and "ace_count P = Some n'"
  shows "RtlpObjectInheritSecurity avail P C defaulted container tok gm =
    (if sz = 0 then Some (STATUS_INVALID_SECURITY_DESCR, None, False)
     else map_option (\<lambda>(st, a). (st, a, defaulted \<and> st = STATUS_SUCCESS)) (do {
      r \<leftarrow> new_acl avail sz;
      case r of Inl status \<Rightarrow> Some (status, None)
      | Inr m \<Rightarrow> do {
          (status, m) \<leftarrow> do {
            (status, m) \<leftarrow> (case C of None \<Rightarrow> Some (STATUS_SUCCESS, m) | Some src \<Rightarrow> ace_loop (creator_ace gm) src m 0 (unat n));
            if status \<noteq> STATUS_SUCCESS then Some (status, m)
            else (case P of None \<Rightarrow> Some (STATUS_SUCCESS, m) | Some src \<Rightarrow> ace_loop (parent_ace container gm cs) src m 0 (unat n')) };
          Some (status, if status = STATUS_SUCCESS then Some m else None) } }))"
proof -
  have new: "\<And>st. new_acl avail sz = Some (Inl st) \<Longrightarrow> st \<noteq> STATUS_SUCCESS"
    by (auto simp: new_acl_def RTL_ALLOCATE_cases bind_eq_Some_conv split: if_splits)
  have "RtlpObjectInheritSecurity avail P C defaulted container tok gm =
    (if sz = 0 then Some (STATUS_INVALID_SECURITY_DESCR, None, False)
     else do {
      r \<leftarrow> new_acl avail sz;
      case r of Inl status \<Rightarrow> Some (status, None, False)
      | Inr pAcl \<Rightarrow> do {
          (status, pAcl) \<leftarrow> (case C of None \<Rightarrow> Some (STATUS_SUCCESS, pAcl) | Some src \<Rightarrow> ace_loop (creator_ace gm) src pAcl 0 (unat n));
          if status \<noteq> STATUS_SUCCESS then Some (status, None, False)
          else do {
            (status, pAcl) \<leftarrow> (case P of None \<Rightarrow> Some (STATUS_SUCCESS, pAcl) | Some src \<Rightarrow> ace_loop (parent_ace container gm cs) src pAcl 0 (unat n'));
            if status \<noteq> STATUS_SUCCESS then Some (status, None, False)
            else Some (STATUS_SUCCESS, Some pAcl, defaulted) } } })"
    unfolding RtlpObjectInheritSecurity_def if_not_P[OF assms(1)] by (simp add: assms(2-5) cong: sum.case_cong if_cong)
  then show ?thesis
    using new by (cases "new_acl avail sz") (auto split: bind_splits sum.splits)
qed

context acl_builder
begin

lemma assign_ok:
  assumes "creator_token T ow gr" and "\<forall>n. avail n" and "source_at src b" and "all_ok (map (assign_entry gm ow gr) (typed_entries b))"
  shows "makes_list kind order (word_of_nat (8 + 80 * length (acl_aces b)))
    (RtlpObjectAclAssignSecurity avail (Some (token_image T)) (Some src) gm) (map (assign_entry gm ow gr) (typed_entries b))"
proof -
  obtain co cg where cs: "get_creator_sids (Some (token_image T)) =
      Some (Inr \<lparr> cs_CreatorOwner = co, cs_CreatorGroup = cg, cs_Owner = Some (sid_bytes ow), cs_PrimaryGroup = Some (sid_bytes gr) \<rparr>)"
    "sid_of co = Some creator_owner_sid" "sid_of cg = Some creator_group_sid" "sid_valid ow" "sid_valid gr"
    using creator_token_sids[OF assms(1)] .
  let ?cs = "\<lparr> cs_CreatorOwner = co, cs_CreatorGroup = cg, cs_Owner = Some (sid_bytes ow), cs_PrimaryGroup = Some (sid_bytes gr) \<rparr>"
  let ?sz = "word_of_nat (8 + 80 * length (acl_aces b)) :: USHORT" and ?g = "\<lambda>ace. map (assign_entry gm ow gr) (typed_entry ace)"
  let ?loop = "assign_loop gm ?cs src (word_of_nat (acl_used b)) 0"
  have b: "acl_at src b"
    using assms(3) by (simp add: source_at_def)
  have "all_ok (?g ace)" if "ace \<in> set (acl_aces b)" for ace
    using all_ok_concat[of ?g, OF _ that] assms(4) by (simp add: concat_typed)
  then have adds: "adds ?sz (acl_aces b) (assign_ace gm ?cs) ?g"
    using assign_ace_adds[OF assms(3) _ _ cs(2-5)] by (simp add: adds_def)
  have first: "assign_loop gm ?cs src (word_of_nat (acl_used b)) (ace_cursor b 0) m = ?loop m" for m
  proof (cases "acl_aces b = []")
    case True
    then show ?thesis
      using RtlIterateAce_empty[OF b True] RtlIterateAce_stop[OF b]
      by (subst assign_loop.simps, subst (2) assign_loop.simps) simp
  qed (simp add: ace_cursor_def ace_off_def)
  have "adds_up kind order ?sz (?loop m) (map (assign_entry gm ow gr) (typed_entries b))" if "built kind order ?sz m []" for m
    using assign_loop_adds[OF b adds _ that, of 0 "length (acl_aces b)"] by (simp add: concat_typed first)
  note made = new_acl_then[OF assms(2) _ this]
  have "RtlpObjectAclAssignSecurity avail (Some (token_image T)) (Some src) gm =
    (if ?sz = 0 then Some (STATUS_INVALID_SECURITY_DESCR, None) else do {
      r \<leftarrow> new_acl avail ?sz;
      case r of Inl status \<Rightarrow> Some (status, None)
      | Inr m \<Rightarrow> do { (status, m) \<leftarrow> ?loop m; Some (status, if status = STATUS_SUCCESS then Some m else None) } })"
    using cs(1) acl_at_fields(3)[OF b] RtlGetAclSizeUsed_correct[OF b]
    by (simp add: RtlpObjectAclAssignSecurity_def RtlGetAclAceCount_def algebra_simps cong: sum.case_cong)
  then show ?thesis
    using made by (cases "?sz = 0") (auto simp: makes_list_def)
qed

lemma inherit_merged:
  assumes "creator_token T ow gr" and "\<forall>n. avail n" and "rel_option source_at P p" and "rel_option source_at C c"
    and False: "\<not> (p = None \<and> defaulted)" and "all_ok (new_entries container gm ow gr defaulted p c)"
  shows "\<exists>st a. RtlpObjectInheritSecurity avail P C defaulted container (Some (token_image T)) gm = Some (st, a, defaulted \<and> st = STATUS_SUCCESS)
    \<and> makes_list kind order (word_of_nat (new_size p c)) (Some (st, a)) (new_entries container gm ow gr defaulted p c)"
proof -
  obtain co cg where cs: "get_creator_sids (Some (token_image T)) =
      Some (Inr \<lparr> cs_CreatorOwner = co, cs_CreatorGroup = cg, cs_Owner = Some (sid_bytes ow), cs_PrimaryGroup = Some (sid_bytes gr) \<rparr>)"
    "sid_of co = Some creator_owner_sid" "sid_of cg = Some creator_group_sid" "sid_valid ow" "sid_valid gr"
    using creator_token_sids[OF assms(1)] .
  let ?sz = "word_of_nat (new_size p c) :: USHORT" and ?C = "map (map_entry gm) (option_entries c)"
    and ?P = "concat (map (inherited_entries container gm ow gr) (option_entries p))"
  define n where "n a = (word_of_nat (case a of None \<Rightarrow> 0 | Some a \<Rightarrow> length (acl_aces a)) :: USHORT)" for a :: "ACL option"
  define l1 where "l1 m = (case C of None \<Rightarrow> Some (STATUS_SUCCESS, m) | Some src \<Rightarrow> ace_loop (creator_ace gm) src m 0 (unat (n c)))" for m
  define l2 where "l2 m = (case P of None \<Rightarrow> Some (STATUS_SUCCESS, m) | Some src \<Rightarrow> ace_loop (parent_ace container gm
    \<lparr> cs_CreatorOwner = co, cs_CreatorGroup = cg, cs_Owner = Some (sid_bytes ow), cs_PrimaryGroup = Some (sid_bytes gr) \<rparr>) src m 0 (unat (n p)))" for m
  define k where "k m = do { (status, m) \<leftarrow> l1 m; if status \<noteq> STATUS_SUCCESS then Some (status, m) else l2 m }" for m
  have es: "new_entries container gm ow gr defaulted p c = ?C @ ?P"
    using False by (simp only: new_entries_def if_False)
  then have ok: "all_ok ?C" "all_ok ?P"
    using assms(6) by simp_all
  have counts: "ace_count C = Some (n c)" "ace_count P = Some (n p)"
    using source_count assms(3,4) by (simp_all add: n_def)
  have 1: "adds_up kind order ?sz (l1 m) ([] @ ?C)" if "built kind order ?sz m []" for m
    using creator_loop[OF assms(4) ok(1) that counts(1)] by (simp add: l1_def)
  have 2: "adds_up kind order ?sz (l2 m) ([] @ ?C @ ?P)" if "built kind order ?sz m ([] @ ?C)" for m
    using parent_loop[OF assms(3) ok(2) cs(2-5) _ counts(2)] that by (simp add: l2_def)
  have "adds_up kind order ?sz (k m) (?C @ ?P)" if "built kind order ?sz m []" for m
    using adds_up_step[OF 1[OF that], of l2 ?P] 2 by (simp add: k_def)
  then have made: "?sz \<noteq> 0 \<Longrightarrow> makes_list kind order ?sz (do {
      r \<leftarrow> new_acl avail ?sz;
      case r of Inl status \<Rightarrow> Some (status, None)
      | Inr m \<Rightarrow> do { (status, m) \<leftarrow> k m; Some (status, if status = STATUS_SUCCESS then Some m else None) } }) (?C @ ?P)"
    by (intro new_acl_then[OF assms(2)])
  have "\<not> (P = None \<and> defaulted)"
    using False assms(3) by auto
  then have "RtlpObjectInheritSecurity avail P C defaulted container (Some (token_image T)) gm =
    (if ?sz = 0 then Some (STATUS_INVALID_SECURITY_DESCR, None, False)
     else map_option (\<lambda>(st, a). (st, a, defaulted \<and> st = STATUS_SUCCESS)) (do {
      r \<leftarrow> new_acl avail ?sz;
      case r of Inl status \<Rightarrow> Some (status, None)
      | Inr m \<Rightarrow> do { (status, m) \<leftarrow> k m; Some (status, if status = STATUS_SUCCESS then Some m else None) } }))"
    unfolding k_def l1_def l2_def by (rule inherit_unfold[OF _ inherit_size_ok[OF assms(3,4)] cs(1) counts])
  then show ?thesis
    using made es by (cases "?sz = 0") (auto simp: makes_list_def split: if_splits)
qed

lemma inherit_ok:
  assumes "creator_token T ow gr" and "\<forall>n. avail n" and "rel_option source_at P p" and "rel_option source_at C c"
    and "p \<noteq> None \<or> c \<noteq> None" and "all_ok (new_entries container gm ow gr defaulted p c)"
  shows "\<exists>st a. RtlpObjectInheritSecurity avail P C defaulted container (Some (token_image T)) gm = Some (st, a, defaulted \<and> st = STATUS_SUCCESS)
    \<and> makes_list kind order (word_of_nat (new_size p c)) (Some (st, a)) (new_entries container gm ow gr defaulted p c)"
proof (cases "p = None \<and> defaulted")
  case True
  then obtain src b where b: "C = Some src" "c = Some b" "source_at src b" "P = None"
    using assms(3-5) by (cases P; cases C; cases c) auto
  have "makes_list kind order (word_of_nat (new_size p c)) (RtlpObjectAclAssignSecurity avail (Some (token_image T)) C gm)
      (new_entries container gm ow gr defaulted p c)"
    using assign_ok[OF assms(1,2) b(3), of gm] assms(6) True b by (simp add: new_entries_def option_entries_def new_size_def)
  then show ?thesis
    using True b by (auto simp: RtlpObjectInheritSecurity_def makes_list_def split: if_splits)
qed (use inherit_merged[OF assms(1-4) _ assms(6)] in blast)

end

section \<open>Properties\<close>

text \<open>C6. The list of a new object.  Given memory, a token with an owner of at most 14
  sub-authorities and a primary group, at least one well-formed list,
  and entries of the result that have valid flags, identifiers and masks and are all access entries or all audit
  entries, the list is made exactly of these: the creator's entries, with generic rights mapped; and what the parent's
  inheritable entries become, which is for containers, unless propagation is cut off, a verbatim copy whose generic
  rights are not mapped, and then an entry for the object itself that is marked inherited, has generic rights mapped,
  and names the token's owner or group for CREATOR OWNER or CREATOR GROUP.  A defaulted list of the creator without a
  parent is taken with rights mapped and identities replaced.  Access entries come in canonical order, the latest
  first among those of equal rank, audit entries in the order given.  This succeeds exactly when the entries fit the
  size that was computed in 16 bits; otherwise there is an error and no list.\<close>

theorem inherited_list_exact:
  assumes "creator_token T ow gr" and "\<forall>n. avail n" and "rel_option source_at P p" and "rel_option source_at C c"
    and "p \<noteq> None \<or> c \<noteq> None" and "es = new_entries container gm ow gr defaulted p c" and "list_all entry_ok es"
    and "list_all (\<lambda>e. dacl_kind (a_type e)) es \<and> order = dacl_order \<or> list_all (\<lambda>e. sacl_kind (a_type e)) es \<and> order = sacl_order"
  shows "if 8 + sum_list (map ace_length es) \<le> new_size p c mod 65536
    then \<exists>m. RtlpObjectInheritSecurity avail P C defaulted container (Some (token_image T)) gm = Some (STATUS_SUCCESS, Some m, defaulted)
      \<and> acl_at m \<lparr> acl_rev = ACL_REVISION, acl_size = word_of_nat (new_size p c), acl_aces = order es \<rparr>
    else \<exists>st. \<not> NT_SUCCESS st \<and> RtlpObjectInheritSecurity avail P C defaulted container (Some (token_image T)) gm = Some (st, None, False)"
proof -
  have u: "unat (word_of_nat (new_size p c) :: USHORT) = new_size p c mod 65536"
    by (simp add: unsigned_of_nat take_bit_eq_mod)
  obtain kind where "\<exists>st a. RtlpObjectInheritSecurity avail P C defaulted container (Some (token_image T)) gm =
        Some (st, a, defaulted \<and> st = STATUS_SUCCESS)
      \<and> makes_list kind order (word_of_nat (new_size p c)) (Some (st, a)) es"
    using dacl_list.inherit_ok[OF assms(1-5), of container gm defaulted] sacl_list.inherit_ok[OF assms(1-5), of container gm defaulted]
      assms(6-8) by (auto simp: list_all_iff)
  then show ?thesis
    by (auto simp: makes_list_def built_def u split: if_splits)
qed

definition sample_creator :: TOKEN where
  "sample_creator = sample_T\<lparr>t_primary := Some (mk_sid [0,0,0,0,0,5] [11])\<rparr>"

definition sample_parent :: ACL where
  "sample_parent = \<lparr> acl_rev = 2, acl_size = 28, acl_aces = [ace_bytes \<lparr> a_type = 0, a_flags = 3, a_mask = 3, a_sid = creator_owner_sid \<rparr>] \<rparr>"

lemma sample_creator_token: "creator_token sample_creator (mk_sid [0,0,0,0,0,5] [7]) (mk_sid [0,0,0,0,0,5] [11])"
  using token_args_ok[OF sample_T_args] by (simp add: creator_token_def token_ok_def sample_creator_def sample_T_def sid_valid_def sid_length_def)

lemma sample_parent_source: "source_at (acl_bytes sample_parent) sample_parent"
  and sample_parent_entries: "typed_entries sample_parent = [\<lparr> a_type = 0, a_flags = 3, a_mask = 3, a_sid = creator_owner_sid \<rparr>]"
proof -
  let ?e = "\<lparr> a_type = 0, a_flags = 3, a_mask = 3, a_sid = creator_owner_sid \<rparr> :: ACE"
  have e: "ace_of (ace_bytes ?e) = Some ?e" "length (ace_bytes ?e) = 20" "ace_bytes ?e ! 0 = 0" "ace_bytes ?e ! 1 = 3"
    "ace_AceSize (ace_bytes ?e) = Some 20"
    using ace_of_bytes[of ?e "[]"] ace_fields_bytes(3)[of ?e "[]"]
    by (simp_all add: creator_owner_sid_def sid_wf_def ace_bytes_def ace_length_def sid_ace_length_def sid_length_def)
  then have "ace_wf (ace_bytes ?e)"
    by (simp add: ace_wf_def LW_IS_VALID_FLAGS_def)
  then show "source_at (acl_bytes sample_parent) sample_parent"
    using e by (simp add: source_at_def acl_at_def acl_valid_def acl_used_def sample_parent_def acl_bytes_def)
  show "typed_entries sample_parent = [?e]"
    using e by (simp add: typed_entries_def sample_parent_def typed_entry_def typed_def)
qed

definition sample_inherited :: ACE where
  "sample_inherited = \<lparr> a_type = 0, a_flags = 0x10, a_mask = 3, a_sid = mk_sid [0,0,0,0,0,5] [7] \<rparr>"

lemma sample_new_entries:
  "new_entries False sample_mapping (mk_sid [0,0,0,0,0,5] [7]) (mk_sid [0,0,0,0,0,5] [11]) False (Some sample_parent) None = [sample_inherited]"
  by (simp add: new_entries_def option_entries_def sample_parent_entries inherited_entries_def inheritable_def IsSetFlag_def
      assign_entry_def child_flags_def stands_for_def RtlMapGenericMask_def RtlpMapGenericMaskSingleFlag_def sample_inherited_def)

lemma sample_inherited_ok:
  "list_all entry_ok [sample_inherited]" "list_all (\<lambda>e. dacl_kind (a_type e)) [sample_inherited]" "ace_length sample_inherited = 20"
  "new_size (Some sample_parent) None = 168"
  by (simp_all add: entry_ok_def LW_IS_VALID_FLAGS_def sid_valid_def dacl_kind_def ace_length_def sid_ace_length_def sid_length_def
      sample_inherited_def new_size_def sample_parent_def)

text \<open>A file inherits the right of CREATOR OWNER as a right of the token's owner.\<close>

theorem inherited_list_exact_witness:
  "\<exists>m. RtlpObjectInheritSecurity (\<lambda>_. True) (Some (acl_bytes sample_parent)) None False False (Some (token_image sample_creator)) sample_mapping =
      Some (STATUS_SUCCESS, Some m, False)
    \<and> acl_at m \<lparr> acl_rev = 2, acl_size = 168, acl_aces = [ace_bytes sample_inherited] \<rparr>"
  using inherited_list_exact[OF sample_creator_token, of "\<lambda>_. True" "Some (acl_bytes sample_parent)" "Some sample_parent" None None,
      OF _ _ _ _ sample_new_entries[symmetric] sample_inherited_ok(1), of dacl_order] sample_inherited_ok(2-4) sample_parent_source
  by (simp add: dacl_order_def)

text \<open>C32. The size of a new list, for well-formed lists of which at least one is present and entries of the
  result that have valid flags, identifiers and masks.  It is computed in 16 bits and is the true size modulo 65536.
  The true size is always enough for the entries, so up to 818 entries, those of the creator counted once and those of
  the parent twice, they fit.  The bound is tight: with 819 and both lists present the computed size is 0.\<close>

theorem inherit_size_bounds:
  assumes "rel_option source_at P p" and "rel_option source_at C c" and "p \<noteq> None \<or> c \<noteq> None"
    and "es = new_entries container gm ow gr defaulted p c" and "list_all entry_ok es"
    and "n = (case c of None \<Rightarrow> 0 | Some a \<Rightarrow> length (acl_aces a)) + 2 * (case p of None \<Rightarrow> 0 | Some a \<Rightarrow> length (acl_aces a))"
  shows "\<exists>sz. inherit_size C P = Some sz \<and> unat sz = new_size p c mod 65536
    \<and> 8 + sum_list (map ace_length es) \<le> new_size p c
    \<and> (n \<le> 818 \<longrightarrow> 8 + sum_list (map ace_length es) \<le> unat sz)
    \<and> (n = 819 \<and> p \<noteq> None \<and> c \<noteq> None \<longrightarrow> sz = 0)"
proof -
  let ?sz = "word_of_nat (new_size p c) :: USHORT"
  have u: "unat ?sz = new_size p c mod 65536"
    by (simp add: unsigned_of_nat take_bit_eq_mod)
  have fit: "8 + sum_list (map ace_length es) \<le> new_size p c"
    using entries_size[of "\<lambda>_. True" es] length_new_entries[OF assms(3), of container gm ow gr defaulted] assms(4,5) by simp
  have size: "new_size p c \<le> 16 + 80 * n" "p \<noteq> None \<and> c \<noteq> None \<longrightarrow> new_size p c = 16 + 80 * n"
    using assms(6) by (auto simp: new_size_def split: option.splits)
  have "?sz = 0" if "n = 819" "p \<noteq> None \<and> c \<noteq> None"
    using size(2) that u by (simp add: unsigned_eq_0_iff[symmetric])
  then show ?thesis
    using inherit_size_ok[OF assms(1,2)] u fit size(1) by (intro exI[of _ ?sz]) auto
qed

theorem inherit_size_bounds_witness:
  "\<exists>sz. inherit_size None (Some (acl_bytes sample_parent)) = Some sz \<and> unat sz = 168 \<and> 8 + sum_list (map ace_length [sample_inherited]) \<le> unat sz"
  using inherit_size_bounds[of "Some (acl_bytes sample_parent)" "Some sample_parent" None None,
      OF _ _ _ sample_new_entries[symmetric] sample_inherited_ok(1) refl] sample_parent_source sample_inherited_ok(3,4)
  by (auto simp: sample_parent_def)

section \<open>What a new object allows\<close>

text \<open>An entry allows or denies a right to the holders of some identifiers.\<close>

definition entry_op :: "ACE \<Rightarrow> access_op" where
  "entry_op e = (if a_type e = ACCESS_ALLOWED_ACE_TYPE then Allow (ucast (a_flags e)) (a_mask e) (a_sid e)
     else Deny (ucast (a_flags e)) (a_mask e) (a_sid e))"

definition entries_say :: "bool \<Rightarrow> SID set \<Rightarrow> GENERIC_MAPPING \<Rightarrow> ACE list \<Rightarrow> nat \<Rightarrow> bool" where
  "entries_say b S gm es n \<longleftrightarrow>
    list_ex (\<lambda>e. a_sid e \<in> S \<and> (a_type e = ACCESS_ALLOWED_ACE_TYPE \<longleftrightarrow> b) \<and> bit (RtlMapGenericMask (a_mask e) gm) n) es"

lemma ops_say_entries: "ops_say b S gm (map entry_op es) n = entries_say b S gm es n"
  by (induction es) (auto simp: ops_say_def entries_say_def entry_op_def)

lemma entry_op_bytes: "dacl_kind (a_type e) \<Longrightarrow> op_entry (entry_op e) = ace_bytes e"
  by (cases e) (auto simp: entry_op_def dacl_kind_def flags_ucast)

lemma entry_op_ok: "entry_ok e \<Longrightarrow> access_op_ok (entry_op e)"
  using valid_flags_wider[of "a_flags e"] by (auto simp: entry_ok_def entry_op_def flags_ucast)

text \<open>C31. From inheritance to the decision of the check.  The DACL of an object with an owner and a group was
  made from its parent's and its creator's well-formed lists, for a token with an owner of at most 14 sub-authorities
  and a primary group, and the entries that went into it are access entries with valid flags,
  identifiers and masks.  A well-formed token that is not the system asks for rights, with valid masks, without
  \<^verbatim>\<open>MAXIMUM_ALLOWED\<close> and with nothing granted before.  It is granted them exactly when
  \<^verbatim>\<open>ACCESS_SYSTEM_SECURITY\<close> is asked for only by an administrator and each of them that is not
  a special right is allowed to one of its identifiers by some entry of the new list and denied by none, in whatever
  order the parent and the creator had them.\<close>

theorem inherited_access:
  assumes "creator_token T ow gr" and "\<forall>n. avail n" and "rel_option source_at P p" and "rel_option source_at C c"
    and "p \<noteq> None \<or> c \<noteq> None" and "es = new_entries container gm ow gr defaulted p c" and "list_all entry_ok es"
    and "list_all (\<lambda>e. dacl_kind (a_type e)) es"
    and "RtlpObjectInheritSecurity avail P C defaulted container (Some (token_image T)) gm = Some (STATUS_SUCCESS, Some m, df)"
    and "sd_Dacl sd = Some m" and "token_wf tok" and "system_sid \<notin> token_sids tok"
    and "sd_Owner sd = Some om" and "sid_of om = Some owner" and "sd_Group sd \<noteq> None"
    and "LW_IS_VALID_FLAGS D VALID_DESIRED_ACCESS_MASK" and "\<not> IsSetFlag D MAXIMUM_ALLOWED"
    and "d = RtlMapGenericMask D gm'" and "LW_IS_VALID_FLAGS d VALID_GRANTED_ACCESS_MASK"
  shows "\<exists>rem st. RtlAccessCheckEx (Some sd) (Some tok) D 0 (Some gm') =
    (if (bit d 24 \<longrightarrow> administrators_sid \<in> token_sids tok)
        \<and> (\<forall>n<32. bit d n \<and> \<not> bit (special_rights (token_sids tok) owner) n \<longrightarrow>
              entries_say True (token_sids tok) gm' es n \<and> \<not> entries_say False (token_sids tok) gm' es n)
     then Some (True, 0, d, STATUS_SUCCESS) else Some (False, rem, 0, st))"
proof -
  let ?a = "\<lparr> acl_rev = ACL_REVISION, acl_size = word_of_nat (new_size p c), acl_aces = dacl_order es \<rparr>"
  have k: "list_all (\<lambda>e. dacl_kind (a_type e) \<and> entry_ok e) es"
    using assms(7,8) by (simp add: list_all_iff)
  have m: "acl_at m ?a"
    using dacl_list.inherit_ok[OF assms(1-5), of container gm defaulted] assms(6,9) k by (auto simp: makes_list_def built_def split: if_splits)
  have c: "canonical (acl_aces ?a)"
    using dacl_order_canonical[OF assms(8)] by simp
  have s: "set (acl_aces ?a) = op_entry ` set (map entry_op es)"
    using assms(8) by (auto simp: dacl_order_def list_all_iff entry_op_bytes image_iff)
  have o: "\<forall>op \<in> set (map entry_op es). access_op_ok op"
    using assms(7) by (auto simp: list_all_iff entry_op_ok)
  show ?thesis
    using canonical_dacl_decides[OF m c s o assms(10-19)] by (simp only: ops_say_entries)
qed

text \<open>The owner of the token may read the file that inherited the right, and may not delete it.\<close>

theorem inherited_access_witness:
  "\<exists>m sd rem st. RtlpObjectInheritSecurity (\<lambda>_. True) (Some (acl_bytes sample_parent)) None False False (Some (token_image sample_creator)) sample_mapping =
      Some (STATUS_SUCCESS, Some m, False) \<and> sd_Dacl sd = Some m
    \<and> RtlAccessCheckEx (Some sd) (Some sample_token) 1 0 (Some sample_mapping) = Some (True, 0, 1, STATUS_SUCCESS)
    \<and> RtlAccessCheckEx (Some sd) (Some sample_token) 0x10000 0 (Some sample_mapping) = Some (False, rem, 0, st)"
proof -
  obtain m where m: "RtlpObjectInheritSecurity (\<lambda>_. True) (Some (acl_bytes sample_parent)) None False False
      (Some (token_image sample_creator)) sample_mapping = Some (STATUS_SUCCESS, Some m, False)"
    using dacl_list.inherit_ok[OF sample_creator_token, of "\<lambda>_. True" "Some (acl_bytes sample_parent)" "Some sample_parent" None None False sample_mapping False]
      sample_new_entries sample_inherited_ok sample_parent_source by (auto simp: makes_list_def)
  let ?sd = "sample_object\<lparr>sd_Dacl := Some m\<rparr>"
  have f: "sd_Dacl ?sd = Some m" "sd_Owner ?sd = Some [1,1,0,0,0,0,0,5,18,0,0,0]" "sd_Group ?sd \<noteq> None"
    using sample_object_fields by simp_all
  have sys: "system_sid \<notin> token_sids sample_token"
    by (simp add: sample_token_sids system_sid_def)
  have map: "RtlMapGenericMask n sample_mapping = n" if "n = 1 \<or> n = 0x10000 \<or> n = 3" for n
    using that by (auto simp: RtlMapGenericMask_def RtlpMapGenericMaskSingleFlag_def IsSetFlag_def)
  have say: "entries_say True (token_sids sample_token) sample_mapping [sample_inherited] n \<longleftrightarrow> bit (3 :: ACCESS_MASK) n"
    "entries_say False (token_sids sample_token) sample_mapping [sample_inherited] n \<longleftrightarrow> False" for n
    by (simp_all add: entries_say_def sample_token_sids map sample_inherited_def)
  have val: "LW_IS_VALID_FLAGS n VALID_DESIRED_ACCESS_MASK" "\<not> IsSetFlag n MAXIMUM_ALLOWED"
    "LW_IS_VALID_FLAGS n VALID_GRANTED_ACCESS_MASK" if "n = 1 \<or> n = 0x10000" for n :: ACCESS_MASK
    using that by (auto simp: LW_IS_VALID_FLAGS_def IsSetFlag_def VALID_DESIRED_ACCESS_MASK_def VALID_GRANTED_ACCESS_MASK_def
        VALID_SACL_ACCESS_MASK_def VALID_DACL_ACCESS_MASK_def)
  have src: "rel_option source_at (Some (acl_bytes sample_parent)) (Some sample_parent)"
    using sample_parent_source by simp
  have chk: "\<exists>rem st. RtlAccessCheckEx (Some ?sd) (Some sample_token) n 0 (Some sample_mapping) =
      (if (bit n 24 \<longrightarrow> administrators_sid \<in> token_sids sample_token) \<and> (\<forall>k<32. bit n k \<longrightarrow> bit (3 :: ACCESS_MASK) k)
       then Some (True, 0, n, STATUS_SUCCESS) else Some (False, rem, 0, st))" if n: "n = 1 \<or> n = 0x10000" for n :: ACCESS_MASK
  proof -
    have mp: "n = RtlMapGenericMask n sample_mapping"
      using map[of n] n by auto
    show ?thesis
      using inherited_access[OF sample_creator_token _ src _ _ sample_new_entries[symmetric] sample_inherited_ok(1,2) m f(1)
        sample_token_sids(1) sys f(2) sample_object_fields(4) f(3) val(1,2)[OF n] mp val(3)[OF n]] by (simp add: say sample_special cong: if_cong)
  qed
  have "((bit (1 :: ACCESS_MASK) 24 \<longrightarrow> administrators_sid \<in> token_sids sample_token) \<and> (\<forall>k<32. bit (1 :: ACCESS_MASK) k \<longrightarrow> bit (3 :: ACCESS_MASK) k)) = True"
    "((bit (0x10000 :: ACCESS_MASK) 24 \<longrightarrow> administrators_sid \<in> token_sids sample_token)
      \<and> (\<forall>k<32. bit (0x10000 :: ACCESS_MASK) k \<longrightarrow> bit (3 :: ACCESS_MASK) k)) = False"
    by (auto simp: numeral_eq_Suc less_Suc_eq)
  from chk[of 1, unfolded this] chk[of "0x10000", unfolded this] show ?thesis
    using m f(1) by (intro exI[of _ m] exI[of _ ?sd]) simp
qed

end
