(* ===== verification/Security_Sd_Create.thy ===== *)
theory Security_Sd_Create
  imports Security_Sd_Inherit
begin

text \<open>
  Correctness of the creation of private object security: the choice of the owner and the group, of the two lists, and the
  composition, from the self-relative descriptors of the parent and the creator to that of the new object.
\<close>

section \<open>Owner and group\<close>

text \<open>The identifier that is chosen and whether it is marked defaulted; nothing where the code dereferences NULL.  The
  arguments are the identifiers of the token, whether to default from the parent, the creator's identifier with its mark,
  the parent's, and the token's own.\<close>

definition choose_sid :: "SID set \<Rightarrow> bool \<Rightarrow> SID option \<Rightarrow> bool \<Rightarrow> SID option \<Rightarrow> SID \<Rightarrow> (SID \<times> bool) option" where
  "choose_sid S fromParent cr crDefaulted pa tk =
    (if \<exists>s. cr = Some s \<and> s \<in> S then map_option (\<lambda>s. (s, crDefaulted)) cr
     else if fromParent \<and> pa \<noteq> None then map_option (\<lambda>s. (s, True)) cr
     else Some (tk, True))"

text \<open>What a step of the creation may use of a descriptor that may be missing.\<close>

definition opt_holds :: "SECURITY_DESCRIPTOR_ABSOLUTE option \<Rightarrow> SD option \<Rightarrow> bool" where
  "opt_holds sd D \<longleftrightarrow> rel_option sd_holds sd D"

definition opt_part :: "(SD \<Rightarrow> 'a option) \<Rightarrow> SD option \<Rightarrow> 'a option" where
  "opt_part f D = Option.bind D f"

definition opt_control :: "SECURITY_DESCRIPTOR_ABSOLUTE option \<Rightarrow> USHORT" where
  "opt_control sd = (case sd of None \<Rightarrow> 0 | Some sd \<Rightarrow> sd_Control sd)"

context sd_sid_field begin

definition stored :: "SECURITY_DESCRIPTOR_ABSOLUTE \<Rightarrow> SID \<Rightarrow> bool \<Rightarrow> SECURITY_DESCRIPTOR_ABSOLUTE" where
  "stored sd s d = (put (Some (sid_bytes s)) sd)\<lparr>sd_Control := (if d then SetFlag (sd_Control sd) def_bit else ClearFlag (sd_Control sd) def_bit)\<rparr>"

lemma stored_ok: "sd_header_ok sd \<Longrightarrow> sd_header_ok (stored sd s d)"
  using set_ok[of sd "Some (sid_bytes s)"] clear_ok[of sd "Some (sid_bytes s)"] by (simp add: stored_def)

lemma getter: "sd_header_ok sd \<Longrightarrow> RtlpGetSidSecurityDescriptor sd get def_bit = (STATUS_SUCCESS, get sd, IsSetFlag (sd_Control sd) def_bit)"
  using verify_header_iff[of sd] by (simp add: RtlpGetSidSecurityDescriptor_def)

lemma object_set_sid_exact:
  assumes "sd_header_ok sd" and "\<forall>n. avail n" and "token_wf tok" and "query (Some tok) = Some (STATUS_SUCCESS, Some (sid_bytes tk))" and "sid_valid tk"
    and "creator = None \<and> cr = None \<or> (\<exists>c. creator = Some c \<and> sd_header_ok c \<and> sid_part (get c) cr)"
    and "parent = None \<and> pa = None \<or> (\<exists>p. parent = Some p \<and> sd_header_ok p \<and> sid_part (get p) pa)"
  shows "object_set_sid (\<lambda>sd. RtlpGetSidSecurityDescriptor sd get def_bit) (\<lambda>sd. RtlpSetSidSecurityDescriptor sd put def_bit)
      fromParent query avail sd parent creator flags (Some tok) =
    map_option (\<lambda>(s, d). (STATUS_SUCCESS, stored sd s d))
      (choose_sid (token_sids tok) (flags AND fromParent \<noteq> 0) cr (IsSetFlag (opt_control creator) def_bit) pa tk)"
proof -
  have set: "RtlpSetSidSecurityDescriptor sd put def_bit (Some (sid_bytes s)) d = (STATUS_SUCCESS, stored sd s d)" for s d
    using assms(1) by (simp add: set_cases stored_def)
  have dup: "RtlDuplicateSid avail m = Some (STATUS_SUCCESS, Some (sid_bytes s))" if "sid_of m = Some s" for m s
    using RtlDuplicateSid_correct[OF that, of avail] assms(2) by simp
  have tk: "sid_of (sid_bytes tk) = Some tk"
    using sid_of_bytes[of tk "[]"] assms(5) by simp
  have pa: "(case parent of Some p \<Rightarrow> if flags AND fromParent \<noteq> 0 then RtlpGetSidSecurityDescriptor p get def_bit else (STATUS_SUCCESS, None, False)
      | None \<Rightarrow> (STATUS_SUCCESS, None, False)) = (STATUS_SUCCESS, if flags AND fromParent \<noteq> 0 then Option.bind parent get else None,
        flags AND fromParent \<noteq> 0 \<and> IsSetFlag (opt_control parent) def_bit)"
    "(Option.bind parent get \<noteq> None) = (pa \<noteq> None)"
    using assms(7) getter by (auto simp: opt_control_def sid_part_def IsSetFlag_def split: option.splits)
  consider (none) "creator = None" "cr = None" | (absent) c where "creator = Some c" "sd_header_ok c" "cr = None" "get c = None"
    | (present) c m s where "creator = Some c" "sd_header_ok c" "cr = Some s" "get c = Some m" "sid_of m = Some s"
    using assms(6) by (auto simp: sid_part_def split: option.splits)
  then show ?thesis
  proof cases
    case none
    then show ?thesis
      using pa(2) assms(4) dup[OF tk] set by (auto simp: object_set_sid_def pa(1) choose_sid_def)
  next
    case absent
    then show ?thesis
      using pa(2) assms(4) dup[OF tk] set by (auto simp: object_set_sid_def pa(1) choose_sid_def getter)
  next
    case present
    then show ?thesis
      using pa(2) assms(4) dup[OF tk] dup[OF present(5)] set RtlIsSidMemberOfToken_correct[OF assms(3) present(5)]
      by (auto simp: object_set_sid_def pa(1) choose_sid_def getter opt_control_def)
  qed
qed

end

lemma opt_holds_sid:
  assumes "opt_holds sd D"
  shows "sd = None \<and> opt_part d_owner D = None \<or> (\<exists>c. sd = Some c \<and> sd_header_ok c \<and> sid_part (sd_Owner c) (opt_part d_owner D))"
    and "sd = None \<and> opt_part d_group D = None \<or> (\<exists>c. sd = Some c \<and> sd_header_ok c \<and> sid_part (sd_Group c) (opt_part d_group D))"
  using assms by (cases sd; cases D; auto simp: opt_holds_def opt_part_def sd_holds_def)+

lemma set_owner_exact:
  assumes "sd_header_ok sd" and "\<forall>n. avail n" and "creator_token T ow gr" and "opt_holds parent P" and "opt_holds creator C"
  shows "RtlpObjectSetOwner avail sd parent creator flags (Some (token_image T)) =
    map_option (\<lambda>(s, d). (STATUS_SUCCESS, owner.stored sd s d))
      (choose_sid (token_sids (token_image T)) (flags AND SEF_DEFAULT_OWNER_FROM_PARENT \<noteq> 0) (opt_part d_owner C)
        (IsSetFlag (opt_control creator) SE_OWNER_DEFAULTED) (opt_part d_owner P) ow)"
proof -
  have T: "token_ok T" "t_owner T = Some ow" "sid_length ow \<le> 64" "sid_valid ow"
    using assms(3) by (auto simp: creator_token_def token_ok_def)
  have q: "query_owner (Some (token_image T)) = Some (STATUS_SUCCESS, Some (sid_bytes ow))"
    using query_owner_image[OF T(1,2)] T(3) by simp
  show ?thesis
    unfolding RtlpObjectSetOwner_def getters_setters
    by (rule owner.object_set_sid_exact[where query = query_owner and avail = avail, OF assms(1,2) token_image_sids(1)[OF T(1)] q T(4) opt_holds_sid(1)[OF assms(5)] opt_holds_sid(1)[OF assms(4)]])
qed

lemma set_group_exact:
  assumes "sd_header_ok sd" and "\<forall>n. avail n" and "creator_token T ow gr" and "opt_holds parent P" and "opt_holds creator C"
  shows "RtlpObjectSetGroup avail sd parent creator flags (Some (token_image T)) =
    map_option (\<lambda>(s, d). (STATUS_SUCCESS, grp.stored sd s d))
      (choose_sid (token_sids (token_image T)) (flags AND SEF_DEFAULT_GROUP_FROM_PARENT \<noteq> 0) (opt_part d_group C)
        (IsSetFlag (opt_control creator) SE_GROUP_DEFAULTED) (opt_part d_group P) gr)"
proof -
  have T: "token_ok T" "t_primary T = Some gr" "sid_valid gr"
    using assms(3) by (auto simp: creator_token_def token_ok_def)
  show ?thesis
    unfolding RtlpObjectSetGroup_def getters_setters
    by (rule grp.object_set_sid_exact[where query = query_group and avail = avail, OF assms(1,2) token_image_sids(1)[OF T(1)] query_group_image[OF T(1,2)] T(3)
        opt_holds_sid(2)[OF assms(5)] opt_holds_sid(2)[OF assms(4)]])
qed

section \<open>Lists\<close>

definition made_acl ::
    "(ACE list \<Rightarrow> mem list) \<Rightarrow> bool \<Rightarrow> GENERIC_MAPPING \<Rightarrow> SID \<Rightarrow> SID \<Rightarrow> bool \<Rightarrow> ACL option \<Rightarrow> ACL option \<Rightarrow> ACL" where
  "made_acl order container gm ow gr defaulted p c =
    \<lparr> acl_rev = ACL_REVISION, acl_size = word_of_nat (new_size p c), acl_aces = order (new_entries container gm ow gr defaulted p c) \<rparr>"

text \<open>There is a list to make, its size does not wrap, and its entries can be added.\<close>

definition can_make ::
    "(UCHAR \<Rightarrow> bool) \<Rightarrow> bool \<Rightarrow> GENERIC_MAPPING \<Rightarrow> SID \<Rightarrow> SID \<Rightarrow> bool \<Rightarrow> ACL option \<Rightarrow> ACL option \<Rightarrow> bool" where
  "can_make kind container gm ow gr defaulted p c \<longleftrightarrow> (p \<noteq> None \<or> c \<noteq> None) \<and> new_size p c < 65536
     \<and> list_all (\<lambda>e. kind (a_type e) \<and> entry_ok e) (new_entries container gm ow gr defaulted p c)"

context acl_builder begin

lemma inherit_makes:
  assumes "creator_token T ow gr" and "\<forall>n. avail n" and "rel_option source_at P p" and "rel_option source_at C c"
    and "can_make kind container gm ow gr defaulted p c"
  shows "\<exists>m. RtlpObjectInheritSecurity avail P C defaulted container (Some (token_image T)) gm = Some (STATUS_SUCCESS, Some m, defaulted)
    \<and> acl_at m (made_acl order container gm ow gr defaulted p c)"
proof -
  let ?es = "new_entries container gm ow gr defaulted p c"
  have k: "p \<noteq> None \<or> c \<noteq> None" "list_all (\<lambda>e. kind (a_type e) \<and> entry_ok e) ?es" "unat (word_of_nat (new_size p c) :: USHORT) = new_size p c"
    using assms(5) by (auto simp: can_make_def unat_short)
  have "8 + sum_list (map ace_length ?es) \<le> new_size p c"
    using entries_size[OF k(2)] length_new_entries[OF k(1), of container gm ow gr defaulted] by simp
  then show ?thesis
    using inherit_ok[OF assms(1-4) k(1,2)] k(3) by (auto simp: makes_list_def built_def made_acl_def)
qed

end

lemma made_std:
  assumes "can_make kind container gm ow gr defaulted p c" and "kind = dacl_kind \<and> order = dacl_order \<or> kind = sacl_kind \<and> order = sacl_order"
  shows "std_entries (Some (made_acl order container gm ow gr defaulted p c))"
proof -
  have "le_entry (ace_bytes e) \<and> std_ace_type (ace_bytes e ! 0)" if "e \<in> set (new_entries container gm ow gr defaulted p c)" for e
  proof -
    have "kind (a_type e)" "entry_ok e"
      using that assms(1) by (auto simp: can_make_def list_all_iff)
    then show ?thesis
      using assms(2) by (intro conjI le_entry_image) (auto simp: entry_ok_def std_ace_type_def dacl_kind_def sacl_kind_def)
  qed
  then show ?thesis
    using assms(2) by (auto simp: std_entries_def made_acl_def dacl_order_def sacl_order_def)
qed

lemma std_source:
  assumes "acl_part m a" and "std_entries a"
  shows "rel_option source_at m a"
proof -
  have "ace_of ace \<noteq> None" if "le_entry ace" "std_ace_type (ace ! 0)" for ace
  proof -
    have "ace_sid_offset ace = 8" "8 \<le> length ace" "sid_of (drop 8 ace) \<noteq> None" "ace_wf ace"
      using that by (auto simp: le_entry_def ace_sid_offset_def split: option.splits)
    then show ?thesis
      using ace_head[of ace "[]"] by (auto simp: ace_of_def ptr_add_def ace_Mask_def rd32_def rdn_def)
  qed
  then show ?thesis
    using assms by (auto simp: acl_part_def std_entries_def source_at_def list_all_iff split: option.splits)
qed

lemma duplicate_acl_ok:
  assumes "acl_at m a" and "\<forall>n. avail n"
  shows "\<exists>m'. RtlpDuplicateAcl avail (Some m) = Some (STATUS_SUCCESS, Some m') \<and> acl_at m' a"
proof -
  let ?n = "unat (acl_size a)" and ?c = "take (unat (acl_size a)) m"
  have n: "8 \<le> ?n" "?n \<le> length m" "acl_used a \<le> ?n"
    using assms(1) by (auto simp: acl_at_def acl_valid_def acl_used_def)
  have "acl_at ?c a"
    using assms(1) n by (simp add: acl_at_def min_def)
  moreover have "memcpy (replicate ?n 0) 0 m 0 ?n = Some ?c"
    using n(2) by (simp add: memcpy_def rdn_def wrn_def)
  ultimately show ?thesis
    using acl_at_fields(2)[OF assms(1)] assms(2) n(1) by (simp add: RtlpDuplicateAcl_def RtlGetAclSize_def RTL_ALLOCATE_cases)
qed

lemma token_default_dacl_ok:
  assumes "token_ok T" and "t_dacl T = Some d" and "\<forall>n. avail n"
  shows "token_default_dacl avail (Some (token_image T)) = Some (STATUS_SUCCESS, Some d)"
proof -
  let ?n = "8 + length d"
  have q: "query_spec T TokenDefaultDacl = Some (InfoDefaultDacl d, ?n)"
    using assms(2) by (simp add: query_spec_def opt_length_def)
  obtain a where a: "acl_at d a" "d = take (unat (acl_size a)) d"
    using assms(1,2) by (auto simp: token_ok_def acl_arg_def)
  have "length d \<le> unat (acl_size a)"
    using a(2) by (metis length_take min.cobounded2)
  then have "length d \<le> 65535"
    using acl_at_copy(3)[OF a(1)] by simp
  then have n: "?n < 2 ^ 32" "unat (word_of_nat ?n :: ULONG) = ?n"
    by (simp_all add: unat_of_nat_small del: of_nat_add)
  then have "(word_of_nat ?n :: ULONG) > 0"
    by (metis add_is_0 neq0_conv unsigned_0 word_gt_0 zero_neq_numeral)
  then have "RtlQueryAccessTokenInformation (Some (token_image T)) TokenDefaultDacl False 0 = Some (STATUS_BUFFER_TOO_SMALL, None, word_of_nat ?n)"
    using query_size_correct[OF assms(1) q] n(1) by (simp add: RtlQueryAccessTokenInformation_def sizes_to_def del: of_nat_add)
  then show ?thesis
    using RtlQueryAccessTokenInformation_correct[OF assms(1) q n(1), of "word_of_nat ?n"] n(2) assms(3)
    by (simp add: token_default_dacl_def RTL_ALLOCATE_cases del: of_nat_add)
qed

section \<open>Setting the lists\<close>

context sd_acl_field begin

lemma fetch_acls_ok:
  assumes "parent = None \<or> (\<exists>p. parent = Some p \<and> sd_header_ok p)" and "creator = None \<or> (\<exists>c. creator = Some c \<and> sd_header_ok c)"
  shows "fetch_acls (\<lambda>sd. RtlpGetAclSecurityDescriptor sd pres_bit get def_bit) use parent creator =
    Inr ((use \<and> IsSetFlag (opt_control parent) pres_bit, if use then Option.bind parent get else None),
      (IsSetFlag (opt_control creator) pres_bit, Option.bind creator get, IsSetFlag (opt_control creator) def_bit), opt_control creator)"
  using assms verify_header_iff
  by (auto simp: fetch_acls_def opt_control_def RtlpGetAclSecurityDescriptor_def RtlGetSecurityDescriptorControl_def IsSetFlag_def split: option.splits)

text \<open>The control bits of a list that was made or copied.\<close>

definition list_control :: "USHORT \<Rightarrow> USHORT \<Rightarrow> bool \<Rightarrow> USHORT \<Rightarrow> USHORT \<Rightarrow> bool \<Rightarrow> bool \<Rightarrow> USHORT" where
  "list_control prot inh auto creatorControl c present d =
    (let c = merge_bits (prot OR inh) c (if IsSetFlag creatorControl prot then prot else if auto then inh else 0) in
     if \<not> present then ClearFlag (ClearFlag c pres_bit) def_bit
     else if d then SetFlag (SetFlag c pres_bit) def_bit else ClearFlag (SetFlag c pres_bit) def_bit)"

lemma set_acl_and_control_ok:
  fixes a :: "mem option" and prot inh cc :: USHORT and auto d :: bool and sd :: SECURITY_DESCRIPTOR_ABSOLUTE
  assumes "sd_header_ok sd" and "LW_IS_VALID_FLAGS (prot OR inh) SE_SET_SECURITY_DESCRIPTOR_CONTROL_MASK"
  defines "sd' \<equiv> (put a sd)\<lparr>sd_Control := list_control prot inh auto cc (sd_Control sd) (a \<noteq> None) d\<rparr>"
  shows "set_acl_and_control (\<lambda>sd. RtlpSetAclSecurityDescriptor sd pres_bit put def_bit) prot inh auto cc sd a d = (STATUS_SUCCESS, sd')"
    and "sd_header_ok sd'"
proof -
  let ?set = "if IsSetFlag cc prot then prot else if auto then inh else 0"
  have "((prot OR inh) OR ?set) AND NOT (prot OR inh) = 0"
    by (intro bit_word_eqI) (auto simp: bit_simps)
  note s = set_control[OF assms(1,2) this]
  show "set_acl_and_control (\<lambda>sd. RtlpSetAclSecurityDescriptor sd pres_bit put def_bit) prot inh auto cc sd a d = (STATUS_SUCCESS, sd')"
    using s by (simp add: set_acl_and_control_def IsSetFlag_def set_cases put_control sd'_def list_control_def Let_def)
  show "sd_header_ok sd'"
    using present_ok[OF s(2), of a] absent_ok[OF s(2)] by (cases a) (simp_all add: sd'_def list_control_def Let_def put_control)
qed

end

lemma opt_holds_header: "opt_holds sd D \<Longrightarrow> sd = None \<or> (\<exists>c. sd = Some c \<and> sd_header_ok c)"
  by (cases sd; cases D) (auto simp: opt_holds_def sd_holds_def)

text \<open>The DACL of a new object, and whether it is marked defaulted: the creator's own if it is protected, else one made from both
  sources; and if there is none or it is empty, the default list of the token.\<close>

definition first_dacl :: "bool \<Rightarrow> GENERIC_MAPPING \<Rightarrow> SID \<Rightarrow> SID \<Rightarrow> bool \<Rightarrow> bool \<Rightarrow> ACL option \<Rightarrow> ACL option \<Rightarrow> ACL option" where
  "first_dacl container gm ow gr protected defaulted p c =
    (if protected \<and> c \<noteq> None then c
     else if p \<noteq> None \<or> c \<noteq> None then Some (made_acl dacl_order container gm ow gr defaulted p c) else None)"

definition new_dacl :: "bool \<Rightarrow> GENERIC_MAPPING \<Rightarrow> SID \<Rightarrow> SID \<Rightarrow> bool \<Rightarrow> bool \<Rightarrow> ACL option \<Rightarrow> ACL option \<Rightarrow> ACL \<Rightarrow> ACL \<times> bool" where
  "new_dacl container gm ow gr protected defaulted p c dflt =
    (let fallback = (made_acl dacl_order container gm ow gr True None (Some dflt), p = None) in
     case first_dacl container gm ow gr protected defaulted p c of
       None \<Rightarrow> fallback
     | Some a \<Rightarrow> if acl_aces a = [] then fallback else (a, \<not> (protected \<and> c \<noteq> None) \<and> defaulted))"

definition new_sacl :: "bool \<Rightarrow> GENERIC_MAPPING \<Rightarrow> SID \<Rightarrow> SID \<Rightarrow> bool \<Rightarrow> bool \<Rightarrow> ACL option \<Rightarrow> ACL option \<Rightarrow> ACL option \<times> bool" where
  "new_sacl container gm ow gr protected defaulted p c =
    (if protected then (c, False)
     else if p \<noteq> None \<or> c \<noteq> None then (Some (made_acl sacl_order container gm ow gr defaulted p c), defaulted)
     else (None, False))"

lemma dacl_from_descriptors_ok:
  assumes "creator_token T ow gr" and "\<forall>n. avail n" and "rel_option source_at P p" and "rel_option source_at C c"
    and "\<not> (control AND SE_DACL_PROTECTED \<noteq> 0 \<and> c \<noteq> None) \<and> (p \<noteq> None \<or> c \<noteq> None) \<longrightarrow> can_make dacl_kind container gm ow gr defaulted p c"
  shows "\<exists>m. dacl_from_descriptors avail (p \<noteq> None, P) (c \<noteq> None, C, defaulted) control container (Some (token_image T)) gm =
      Some (STATUS_SUCCESS, m, \<not> (control AND SE_DACL_PROTECTED \<noteq> 0 \<and> c \<noteq> None) \<and> (p \<noteq> None \<or> c \<noteq> None) \<and> defaulted)
    \<and> acl_part m (first_dacl container gm ow gr (control AND SE_DACL_PROTECTED \<noteq> 0) defaulted p c)"
proof (cases "c \<noteq> None \<and> control AND SE_DACL_PROTECTED \<noteq> 0")
  case True
  then obtain m b where b: "C = Some m" "c = Some b" "acl_at m b"
    using assms(4) by (auto simp: source_at_def option_rel_Some2)
  obtain m' where m': "RtlpDuplicateAcl avail (Some m) = Some (STATUS_SUCCESS, Some m')" "acl_at m' b"
    using duplicate_acl_ok[OF b(3) assms(2)] by auto
  show ?thesis
    using True by (intro exI[of _ "Some m'"]) (simp add: b(1,2) m' dacl_from_descriptors_def first_dacl_def acl_part_def)
next
  case unprotected: False
  have n: "(if p \<noteq> None then P else None) = P" "(if c \<noteq> None then C else None) = C"
    using assms(3,4) by (auto simp: option.rel_sel)
  show ?thesis
  proof (cases "p \<noteq> None \<or> c \<noteq> None")
    case True
    obtain m where m: "RtlpObjectInheritSecurity avail P C defaulted container (Some (token_image T)) gm = Some (STATUS_SUCCESS, Some m, defaulted)"
      "acl_at m (made_acl dacl_order container gm ow gr defaulted p c)"
      using dacl_list.inherit_makes[OF assms(1-4), of container gm defaulted] assms(5) True unprotected by blast
    show ?thesis
      using True unprotected unfolding dacl_from_descriptors_def prod.case Let_def n m(1)
      by (intro exI[of _ "Some m"]) (auto simp: first_dacl_def acl_part_def m)
  next
    case False
    then show ?thesis
      by (simp add: dacl_from_descriptors_def first_dacl_def acl_part_def)
  qed
qed

text \<open>What the setters of the lists may use of a descriptor: its lists have entries of the three ordinary types, and no list is
  marked present without being there.\<close>

definition usable :: "SECURITY_DESCRIPTOR_ABSOLUTE option \<Rightarrow> SD option \<Rightarrow> bool" where
  "usable sd D \<longleftrightarrow> opt_holds sd D \<and> std_entries (opt_part d_sacl D) \<and> std_entries (opt_part d_dacl D)
     \<and> (IsSetFlag (opt_control sd) SE_SACL_PRESENT \<longrightarrow> opt_part d_sacl D \<noteq> None)
     \<and> (IsSetFlag (opt_control sd) SE_DACL_PRESENT \<longrightarrow> opt_part d_dacl D \<noteq> None)"

lemma usable_lists:
  assumes "usable sd D"
  shows "rel_option source_at (Option.bind sd sd_Dacl) (opt_part d_dacl D)" and "rel_option source_at (Option.bind sd sd_Sacl) (opt_part d_sacl D)"
    and "IsSetFlag (opt_control sd) SE_DACL_PRESENT = (opt_part d_dacl D \<noteq> None)" and "IsSetFlag (opt_control sd) SE_SACL_PRESENT = (opt_part d_sacl D \<noteq> None)"
    and "sd = None \<or> (\<exists>c. sd = Some c \<and> sd_header_ok c)"
proof -
  consider "sd = None" "D = None" | c E where "sd = Some c" "D = Some E" "sd_holds c E"
    using assms by (cases sd; cases D) (auto simp: usable_def opt_holds_def)
  note cases = this
  have a: "acl_part (Option.bind sd sd_Dacl) (opt_part d_dacl D)" "acl_part (Option.bind sd sd_Sacl) (opt_part d_sacl D)"
    by (cases rule: cases; simp add: sd_holds_def opt_part_def acl_part_def)+
  show "rel_option source_at (Option.bind sd sd_Dacl) (opt_part d_dacl D)" "rel_option source_at (Option.bind sd sd_Sacl) (opt_part d_sacl D)"
    using a std_source assms by (auto simp: usable_def)
  show "IsSetFlag (opt_control sd) SE_DACL_PRESENT = (opt_part d_dacl D \<noteq> None)" "IsSetFlag (opt_control sd) SE_SACL_PRESENT = (opt_part d_sacl D \<noteq> None)"
    using a assms by (cases rule: cases; auto simp: usable_def sd_holds_def sd_header_ok_def opt_control_def acl_part_def opt_part_def IsSetFlag_def split: option.splits)+
  show "sd = None \<or> (\<exists>c. sd = Some c \<and> sd_header_ok c)"
    using assms opt_holds_header by (auto simp: usable_def)
qed

lemma part_count:
  assumes "acl_part m a"
  shows "\<exists>n. ace_count m = Some n \<and> (n = 0) = (case a of None \<Rightarrow> True | Some b \<Rightarrow> acl_aces b = [])"
proof (cases a)
  case (Some b)
  then obtain q where q: "m = Some q" "acl_at q b"
    using assms by (auto simp: acl_part_def)
  then have "length (acl_aces b) < 65536"
    using acl_valid_bounds(2)[of b] by (simp add: acl_at_def)
  then have "(word_of_nat (length (acl_aces b)) = (0 :: USHORT)) = (acl_aces b = [])"
    by (simp add: word_unat_eq_iff unat_short)
  then show ?thesis
    using Some q acl_at_fields(3)[OF q(2)] by (simp add: ace_count_def RtlGetAclAceCount_def)
qed (use assms in \<open>simp add: acl_part_def ace_count_def\<close>)

definition can_make_dacl :: "bool \<Rightarrow> GENERIC_MAPPING \<Rightarrow> SID \<Rightarrow> SID \<Rightarrow> bool \<Rightarrow> bool \<Rightarrow> ACL option \<Rightarrow> ACL option \<Rightarrow> ACL \<Rightarrow> bool" where
  "can_make_dacl container gm ow gr protected defaulted p c dflt \<longleftrightarrow>
    (\<not> (protected \<and> c \<noteq> None) \<and> (p \<noteq> None \<or> c \<noteq> None) \<longrightarrow> can_make dacl_kind container gm ow gr defaulted p c)
    \<and> can_make dacl_kind container gm ow gr True None (Some dflt)"

lemma set_dacl_ok:
  fixes flags :: ULONG
  assumes "sd_header_ok sd" and "\<forall>n. avail n" and "creator_token T ow gr" and "usable parent P" and "usable creator C"
    and "t_dacl T = Some d" and "source_at d dflt"
  defines "auto \<equiv> flags AND SEF_DACL_AUTO_INHERIT \<noteq> 0" and "prot \<equiv> opt_control creator AND SE_DACL_PROTECTED \<noteq> 0"
    and "defaulted \<equiv> IsSetFlag (opt_control creator) SE_DACL_DEFAULTED"
  assumes "can_make_dacl container gm ow gr prot defaulted (if auto then opt_part d_dacl P else None) (opt_part d_dacl C) dflt"
    and "(a, mark) = new_dacl container gm ow gr prot defaulted (if auto then opt_part d_dacl P else None) (opt_part d_dacl C) dflt"
  shows "\<exists>m. RtlpObjectSetDacl avail sd parent creator container flags (Some (token_image T)) gm = Some (STATUS_SUCCESS,
      sd\<lparr>sd_Dacl := Some m, sd_Control := dacl.list_control SE_DACL_PROTECTED SE_DACL_AUTO_INHERITED auto (opt_control creator) (sd_Control sd) True mark\<rparr>)
    \<and> acl_at m a"
proof -
  let ?p = "if auto then opt_part d_dacl P else None" and ?c = "opt_part d_dacl C" and ?tok = "Some (token_image T)"
  let ?P = "if auto then Option.bind parent sd_Dacl else None" and ?C = "Option.bind creator sd_Dacl"
  note uP = usable_lists[OF assms(4)] and uC = usable_lists[OF assms(5)]
  have "rel_option source_at ?P ?p"
    using uP(1) by simp
  then obtain m where m: "dacl_from_descriptors avail (?p \<noteq> None, ?P) (?c \<noteq> None, ?C, defaulted) (opt_control creator) container ?tok gm =
      Some (STATUS_SUCCESS, m, \<not> (prot \<and> ?c \<noteq> None) \<and> (?p \<noteq> None \<or> ?c \<noteq> None) \<and> defaulted)"
    "acl_part m (first_dacl container gm ow gr prot defaulted ?p ?c)"
    using dacl_from_descriptors_ok[OF assms(3,2) _ uC(1), where P = ?P and p = ?p and control = "opt_control creator" and gm = gm and container = container and defaulted = defaulted]
      assms(11) unfolding can_make_dacl_def prot_def by blast
  have f: "fetch_acls RtlGetDaclSecurityDescriptor auto parent creator =
    Inr ((?p \<noteq> None, ?P), (?c \<noteq> None, ?C, defaulted), opt_control creator)"
    using dacl.fetch_acls_ok[OF uP(5) uC(5), of auto] uP(3) uC(3) unfolding getters_setters defaulted_def by simp
  obtain n where n: "ace_count m = Some n"
    "(n = 0) = (case first_dacl container gm ow gr prot defaulted ?p ?c of None \<Rightarrow> True | Some b \<Rightarrow> acl_aces b = [])"
    using part_count[OF m(2)] by auto
  obtain m' where m': "RtlpObjectInheritSecurity avail None (Some d) True container ?tok gm = Some (STATUS_SUCCESS, Some m', True)"
    "acl_at m' (made_acl dacl_order container gm ow gr True None (Some dflt))"
    using dacl_list.inherit_makes[OF assms(3,2), of None None "Some d" "Some dflt" container gm True] assms(7,11) by (auto simp: can_make_dacl_def)
  have "token_ok T"
    using assms(3) by (simp add: creator_token_def)
  note td = token_default_dacl_ok[OF this assms(6,2)]
  have s: "set_acl_and_control RtlSetDaclSecurityDescriptor SE_DACL_PROTECTED SE_DACL_AUTO_INHERITED auto (opt_control creator) sd (Some x) mark =
    (STATUS_SUCCESS, sd\<lparr>sd_Dacl := Some x,
      sd_Control := dacl.list_control SE_DACL_PROTECTED SE_DACL_AUTO_INHERITED auto (opt_control creator) (sd_Control sd) True mark\<rparr>)" for x
    unfolding getters_setters
    using dacl.set_acl_and_control_ok(1)[OF assms(1), where prot = SE_DACL_PROTECTED and inh = SE_DACL_AUTO_INHERITED and a = "Some x"]
    by (simp add: LW_IS_VALID_FLAGS_def SE_SET_SECURITY_DESCRIPTOR_CONTROL_MASK_def)
  note unfold = RtlpObjectSetDacl_def auto_def[symmetric] f sum.case prod.case m(1) n(1) Option.bind.bind_lunit
  show ?thesis
  proof (cases "n = 0")
    case True
    then have "a = made_acl dacl_order container gm ow gr True None (Some dflt) \<and> mark = (?p = None)"
      using n(2) assms(12) by (auto simp: new_dacl_def Let_def split: option.splits)
    then show ?thesis
      using True m' td s unfolding unfold by (intro exI[of _ m']) (simp del: not_None_eq)
  next
    case False
    then have "first_dacl container gm ow gr prot defaulted ?p ?c = Some a \<and> mark = (\<not> (prot \<and> ?c \<noteq> None) \<and> defaulted)"
      using n(2) assms(12) by (auto simp: new_dacl_def Let_def split: option.splits)
    moreover from this obtain x where "m = Some x" "acl_at x a"
      using m(2) by (auto simp: acl_part_def split: option.splits)
    moreover have "?p \<noteq> None \<or> ?c \<noteq> None"
      using calculation(1) by (auto simp: first_dacl_def split: if_splits)
    ultimately show ?thesis
      using False s unfolding unfold by (intro exI[of _ x]) (simp del: not_None_eq)
  qed
qed

lemma sacl_choice_ok:
  assumes "creator_token T ow gr" and "\<forall>n. avail n" and "rel_option source_at P p" and "rel_option source_at C c"
    and "\<not> prot \<and> (p \<noteq> None \<or> c \<noteq> None) \<longrightarrow> can_make sacl_kind container gm ow gr defaulted p c"
    and "(a, mark) = new_sacl container gm ow gr prot defaulted p c"
  shows "\<exists>m. (if prot then if c \<noteq> None then do { (status, x) \<leftarrow> RtlpDuplicateAcl avail C; Some (status, x, False) } else Some (STATUS_SUCCESS, None, False)
      else if p \<noteq> None \<or> c \<noteq> None then
        RtlpObjectInheritSecurity avail (if p \<noteq> None then P else None) (if c \<noteq> None then C else None) defaulted container (Some (token_image T)) gm
      else Some (STATUS_SUCCESS, None, False)) = Some (STATUS_SUCCESS, m, mark) \<and> acl_part m a"
proof -
  have n: "(if p \<noteq> None then P else None) = P" "(if c \<noteq> None then C else None) = C"
    using assms(3,4) by (auto simp: option.rel_sel)
  consider (copy) m b where "prot" "C = Some m" "c = Some b" "acl_at m b" | (made) "\<not> prot" "p \<noteq> None \<or> c \<noteq> None"
    | (none) "prot \<and> c = None \<or> \<not> prot \<and> p = None \<and> c = None"
    using assms(4) by (cases prot; cases c) (auto simp: source_at_def option_rel_Some2)
  then show ?thesis
  proof cases
    case copy
    obtain m' where "RtlpDuplicateAcl avail (Some m) = Some (STATUS_SUCCESS, Some m')" "acl_at m' b"
      using duplicate_acl_ok[OF copy(4) assms(2)] by auto
    then show ?thesis
      using copy assms(6) by (intro exI[of _ "Some m'"]) (simp add: new_sacl_def acl_part_def)
  next
    case made
    obtain m where m: "RtlpObjectInheritSecurity avail P C defaulted container (Some (token_image T)) gm = Some (STATUS_SUCCESS, Some m, defaulted)"
      "acl_at m (made_acl sacl_order container gm ow gr defaulted p c)"
      using sacl_list.inherit_makes[OF assms(1-4), of container gm defaulted] assms(5) made by blast
    show ?thesis
      using made assms(6) unfolding n m(1) by (intro exI[of _ "Some m"]) (auto simp: new_sacl_def acl_part_def m(2))
  next
    case none
    then show ?thesis
      using assms(6) by (auto simp: new_sacl_def acl_part_def)
  qed
qed

lemma set_sacl_ok:
  fixes flags :: ULONG
  assumes "sd_header_ok sd" and "\<forall>n. avail n" and "creator_token T ow gr" and "usable parent P" and "usable creator C"
  defines "auto \<equiv> flags AND SEF_SACL_AUTO_INHERIT \<noteq> 0" and "prot \<equiv> opt_control creator AND SE_SACL_PROTECTED \<noteq> 0"
    and "defaulted \<equiv> IsSetFlag (opt_control creator) SE_SACL_DEFAULTED"
    and "p \<equiv> if flags AND SEF_SACL_AUTO_INHERIT \<noteq> 0 then opt_part d_sacl P else None"
  assumes "\<not> prot \<and> (p \<noteq> None \<or> opt_part d_sacl C \<noteq> None) \<longrightarrow> can_make sacl_kind container gm ow gr defaulted p (opt_part d_sacl C)"
    and "(a, mark) = new_sacl container gm ow gr prot defaulted p (opt_part d_sacl C)"
  shows "\<exists>m. RtlpObjectSetSacl avail sd parent creator container flags (Some (token_image T)) gm = Some (STATUS_SUCCESS,
      sd\<lparr>sd_Sacl := m, sd_Control := sacl.list_control SE_SACL_PROTECTED SE_SACL_AUTO_INHERITED auto (opt_control creator) (sd_Control sd) (a \<noteq> None) mark\<rparr>)
    \<and> acl_part m a"
proof -
  let ?c = "opt_part d_sacl C" and ?tok = "Some (token_image T)"
  let ?P = "if auto then Option.bind parent sd_Sacl else None" and ?C = "Option.bind creator sd_Sacl"
  note uP = usable_lists[OF assms(4)] and uC = usable_lists[OF assms(5)]
  have b: "IsSetFlag flags SEF_SACL_AUTO_INHERIT = auto" "IsSetFlag (opt_control creator) SE_SACL_PROTECTED = prot"
    by (simp_all add: auto_def prot_def IsSetFlag_def)
  have "rel_option source_at ?P p"
    using uP(2) by (simp add: p_def auto_def)
  note ok = sacl_choice_ok[OF assms(3,2) this uC(2) assms(10,11)]
  obtain m where m: "(if prot then if ?c \<noteq> None then do { (status, x) \<leftarrow> RtlpDuplicateAcl avail ?C; Some (status, x, False) } else Some (STATUS_SUCCESS, None, False)
      else if p \<noteq> None \<or> ?c \<noteq> None then
        RtlpObjectInheritSecurity avail (if p \<noteq> None then ?P else None) (if ?c \<noteq> None then ?C else None) defaulted container ?tok gm
      else Some (STATUS_SUCCESS, None, False)) = Some (STATUS_SUCCESS, m, mark)" "acl_part m a"
    using ok by blast
  have f: "fetch_acls RtlGetSaclSecurityDescriptor auto parent creator = Inr ((p \<noteq> None, ?P), (?c \<noteq> None, ?C, defaulted), opt_control creator)"
    using sacl.fetch_acls_ok[OF uP(5) uC(5), of auto] uP(4) uC(4) unfolding getters_setters defaulted_def p_def auto_def by simp
  have "(m \<noteq> None) = (a \<noteq> None)"
    using m(2) by (auto simp: acl_part_def split: option.splits)
  then have s: "set_acl_and_control RtlSetSaclSecurityDescriptor SE_SACL_PROTECTED SE_SACL_AUTO_INHERITED auto (opt_control creator) sd m mark =
    (STATUS_SUCCESS, sd\<lparr>sd_Sacl := m,
      sd_Control := sacl.list_control SE_SACL_PROTECTED SE_SACL_AUTO_INHERITED auto (opt_control creator) (sd_Control sd) (a \<noteq> None) mark\<rparr>)"
    unfolding getters_setters
    using sacl.set_acl_and_control_ok(1)[OF assms(1), where prot = SE_SACL_PROTECTED and inh = SE_SACL_AUTO_INHERITED and a = m]
    by (simp add: LW_IS_VALID_FLAGS_def SE_SET_SECURITY_DESCRIPTOR_CONTROL_MASK_def)
  show ?thesis
    using s m(2) unfolding RtlpObjectSetSacl_def b auto_def[symmetric] f sum.case prod.case m(1) Option.bind.bind_lunit by (intro exI[of _ m]) simp
qed

section \<open>The new descriptor\<close>

lemma to_new_relative_ok:
  assumes "sd_holds sd D" and "std_entries (d_sacl D)" and "std_entries (d_dacl D)" and "\<forall>n. avail n"
  shows "\<exists>m r. to_new_relative avail sd = Some (STATUS_SUCCESS, Some m, word_of_nat (20 + sd_parts_size D))
    \<and> rel_holds m r (trim_sd D) \<and> rel_Control r = sd_Control sd OR SE_SELF_RELATIVE"
proof -
  let ?n = "20 + sd_parts_size D" and ?w = "word_of_nat (20 + sd_parts_size D) :: ULONG"
  have un: "unat ?w = ?n"
    using sd_parts_size_lt[OF assms(1)] by (intro small_offset) simp
  have w: "20 + word_of_nat (sd_parts_size D) = ?w"
    by simp
  have first: "RtlAbsoluteToSelfRelativeSD (Some sd) None (Some 0) = Some (STATUS_BUFFER_TOO_SMALL, None, Some ?w)"
    using un by (simp add: RtlAbsoluteToSelfRelativeSD_def RtlValidSecurityDescriptor_holds[OF assms(1)] RtlpGetSizeUsedSecurityDescriptor_holds[OF assms(1)]
        Let_def word_less_nat_alt w del: of_nat_add)
  define q where "q = \<lparr> rel_Revision = 0, rel_Sbz1 = 0, rel_Control = 0, rel_Owner = 0, rel_Group = 0, rel_Sacl = 0, rel_Dacl = 0 \<rparr>"
  have h: "rel_header (replicate ?n 0) = Some q"
    using rel_header_bytes[of q "replicate (sd_parts_size D) 0"] by (simp add: q_def rel_bytes_def byte_eval replicate_add numeral_eq_Suc)
  have "clean_header D q"
    by (simp add: clean_header_def q_def)
  from write_back[OF assms(1-3) h this, of ?w] obtain m r where
    "RtlAbsoluteToSelfRelativeSD (Some sd) (Some (replicate ?n 0)) (Some ?w) = Some (STATUS_SUCCESS, Some m, Some ?w)"
    "rel_holds m r (trim_sd D)" "rel_Control r = sd_Control sd OR SE_SELF_RELATIVE"
    unfolding un by auto
  then show ?thesis
    using first assms(4) un by (auto simp: to_new_relative_def RTL_ALLOCATE_cases simp del: of_nat_add)
qed

context sd_acl_field begin

lemma list_control_clean:
  assumes "c AND (prot OR inh OR pres_bit OR def_bit) = 0" and "prot AND (pres_bit OR def_bit) = 0" and "inh AND (pres_bit OR def_bit) = 0"
  shows "list_control prot inh auto cc c present d = c OR (if IsSetFlag cc prot then prot else if auto then inh else 0)
    OR (if present then pres_bit OR (if d then def_bit else 0) else 0)"
proof -
  have z: "\<not> (bit c n \<and> (bit prot n \<or> bit inh n \<or> bit pres_bit n \<or> bit def_bit n))" "\<not> (bit prot n \<and> (bit pres_bit n \<or> bit def_bit n))"
    "\<not> (bit inh n \<and> (bit pres_bit n \<or> bit def_bit n))" "\<not> (bit def_bit n \<and> bit pres_bit n)" if "n < 16" for n
    using assms bits(3) that by (auto simp: bit_eq_iff bit_simps)
  show ?thesis
    using z by (intro bit_word_eqI) (auto simp: list_control_def Let_def merge_bits_def SetFlag_def ClearFlag_def bit_simps)
qed

end

text \<open>The self-relative descriptor of the parent or the creator, what it says, and its control bits but for the self-relative one.\<close>

definition given_sd :: "mem option \<Rightarrow> SD option \<Rightarrow> USHORT \<Rightarrow> bool" where
  "given_sd m D control \<longleftrightarrow> (case m of None \<Rightarrow> D = None \<and> control = 0
     | Some b \<Rightarrow> \<exists>E r. D = Some E \<and> rel_holds b r E \<and> control = ClearFlag (rel_Control r) SE_SELF_RELATIVE
         \<and> (IsSetFlag control SE_SACL_PRESENT \<longrightarrow> d_sacl E \<noteq> None) \<and> (IsSetFlag control SE_DACL_PRESENT \<longrightarrow> d_dacl E \<noteq> None))"

lemma given_usable:
  assumes "given_sd m D control" and "\<forall>n. avail n"
  shows "\<exists>sd. abs_or_null avail m = Some (STATUS_SUCCESS, sd) \<and> usable sd D \<and> opt_control sd = control"
proof (cases m)
  case (Some b)
  then obtain E r where E: "D = Some E" "rel_holds b r E" "control = ClearFlag (rel_Control r) SE_SELF_RELATIVE"
    "IsSetFlag control SE_SACL_PRESENT \<longrightarrow> d_sacl E \<noteq> None" "IsSetFlag control SE_DACL_PRESENT \<longrightarrow> d_dacl E \<noteq> None"
    using assms(1) by (auto simp: given_sd_def)
  obtain sd where sd: "RtlpCreateAbsSecDescFromRelative avail b = Some (STATUS_SUCCESS, Some sd)" "sd_holds sd E"
    "sd_Control sd = ClearFlag (rel_Control r) SE_SELF_RELATIVE"
    using create_abs_rel_holds[OF E(2) assms(2)] by blast
  have "usable (Some sd) D \<and> opt_control (Some sd) = control"
    using E sd(2,3) by (simp add: usable_def opt_holds_def opt_part_def opt_control_def rel_holds_def)
  then show ?thesis
    using Some sd(1) by (auto simp: abs_or_null_def)
qed (use assms in \<open>simp add: given_sd_def abs_or_null_def usable_def opt_holds_def opt_part_def opt_control_def std_entries_def IsSetFlag_def\<close>)

text \<open>What a creation is given.\<close>

record creation =
  n_container :: bool
  n_mapping :: GENERIC_MAPPING
  n_flags :: ULONG
  n_token :: TOKEN
  n_owner :: SID
  n_group :: SID
  n_default :: ACL
  n_parent :: "SD option"
  n_creator :: "SD option"
  n_control :: USHORT

definition inputs :: "creation \<Rightarrow> mem option \<Rightarrow> mem option \<Rightarrow> bool" where
  "inputs I parent creator \<longleftrightarrow> creator_token (n_token I) (n_owner I) (n_group I)
     \<and> (\<exists>d. t_dacl (n_token I) = Some d \<and> source_at d (n_default I))
     \<and> (\<exists>c. given_sd parent (n_parent I) c) \<and> given_sd creator (n_creator I) (n_control I)"

text \<open>What it makes of it.\<close>

definition object_owner :: "creation \<Rightarrow> (SID \<times> bool) option" where
  "object_owner I = choose_sid (token_sids (token_image (n_token I))) (IsSetFlag (n_flags I) SEF_DEFAULT_OWNER_FROM_PARENT)
     (opt_part d_owner (n_creator I)) (IsSetFlag (n_control I) SE_OWNER_DEFAULTED) (opt_part d_owner (n_parent I)) (n_owner I)"

definition object_group :: "creation \<Rightarrow> (SID \<times> bool) option" where
  "object_group I = choose_sid (token_sids (token_image (n_token I))) (IsSetFlag (n_flags I) SEF_DEFAULT_GROUP_FROM_PARENT)
     (opt_part d_group (n_creator I)) (IsSetFlag (n_control I) SE_GROUP_DEFAULTED) (opt_part d_group (n_parent I)) (n_group I)"

definition parent_dacl :: "creation \<Rightarrow> ACL option" where
  "parent_dacl I = (if IsSetFlag (n_flags I) SEF_DACL_AUTO_INHERIT then opt_part d_dacl (n_parent I) else None)"

definition parent_sacl :: "creation \<Rightarrow> ACL option" where
  "parent_sacl I = (if IsSetFlag (n_flags I) SEF_SACL_AUTO_INHERIT then opt_part d_sacl (n_parent I) else None)"

definition object_dacl :: "creation \<Rightarrow> ACL \<times> bool" where
  "object_dacl I = new_dacl (n_container I) (n_mapping I) (n_owner I) (n_group I) (IsSetFlag (n_control I) SE_DACL_PROTECTED)
     (IsSetFlag (n_control I) SE_DACL_DEFAULTED) (parent_dacl I) (opt_part d_dacl (n_creator I)) (n_default I)"

definition object_sacl :: "creation \<Rightarrow> ACL option \<times> bool" where
  "object_sacl I = new_sacl (n_container I) (n_mapping I) (n_owner I) (n_group I) (IsSetFlag (n_control I) SE_SACL_PROTECTED)
     (IsSetFlag (n_control I) SE_SACL_DEFAULTED) (parent_sacl I) (opt_part d_sacl (n_creator I))"

definition lists_fit :: "creation \<Rightarrow> bool" where
  "lists_fit I \<longleftrightarrow> can_make_dacl (n_container I) (n_mapping I) (n_owner I) (n_group I) (IsSetFlag (n_control I) SE_DACL_PROTECTED)
       (IsSetFlag (n_control I) SE_DACL_DEFAULTED) (parent_dacl I) (opt_part d_dacl (n_creator I)) (n_default I)
     \<and> (\<not> IsSetFlag (n_control I) SE_SACL_PROTECTED \<and> (parent_sacl I \<noteq> None \<or> opt_part d_sacl (n_creator I) \<noteq> None) \<longrightarrow>
          can_make sacl_kind (n_container I) (n_mapping I) (n_owner I) (n_group I) (IsSetFlag (n_control I) SE_SACL_DEFAULTED)
            (parent_sacl I) (opt_part d_sacl (n_creator I)))"

definition object_sd :: "creation \<Rightarrow> SID \<Rightarrow> SID \<Rightarrow> SD" where
  "object_sd I s g = \<lparr> d_owner = Some s, d_group = Some g, d_sacl = fst (object_sacl I), d_dacl = Some (fst (object_dacl I)) \<rparr>"

definition object_control :: "creation \<Rightarrow> bool \<Rightarrow> bool \<Rightarrow> USHORT" where
  "object_control I ownerDefaulted groupDefaulted =
    (if ownerDefaulted then SE_OWNER_DEFAULTED else 0) OR (if groupDefaulted then SE_GROUP_DEFAULTED else 0)
    OR (if IsSetFlag (n_control I) SE_DACL_PROTECTED then SE_DACL_PROTECTED
        else if IsSetFlag (n_flags I) SEF_DACL_AUTO_INHERIT then SE_DACL_AUTO_INHERITED else 0)
    OR (SE_DACL_PRESENT OR (if snd (object_dacl I) then SE_DACL_DEFAULTED else 0))
    OR (if IsSetFlag (n_control I) SE_SACL_PROTECTED then SE_SACL_PROTECTED
        else if IsSetFlag (n_flags I) SEF_SACL_AUTO_INHERIT then SE_SACL_AUTO_INHERITED else 0)
    OR (if fst (object_sacl I) \<noteq> None then SE_SACL_PRESENT OR (if snd (object_sacl I) then SE_SACL_DEFAULTED else 0) else 0)"

lemma object_control_steps:
  "sacl.list_control SE_SACL_PROTECTED SE_SACL_AUTO_INHERITED (IsSetFlag (n_flags I) SEF_SACL_AUTO_INHERIT) (n_control I)
     (dacl.list_control SE_DACL_PROTECTED SE_DACL_AUTO_INHERITED (IsSetFlag (n_flags I) SEF_DACL_AUTO_INHERIT) (n_control I)
        (let c = (if od then SetFlag 0 SE_OWNER_DEFAULTED else ClearFlag 0 SE_OWNER_DEFAULTED) in
           if gd then SetFlag c SE_GROUP_DEFAULTED else ClearFlag c SE_GROUP_DEFAULTED)
        True (snd (object_dacl I)))
     (fst (object_sacl I) \<noteq> None) (snd (object_sacl I)) = object_control I od gd"
proof -
  let ?c = "(if od then SE_OWNER_DEFAULTED else 0) OR (if gd then SE_GROUP_DEFAULTED else 0) :: USHORT"
  have c: "(let c = (if od then SetFlag 0 SE_OWNER_DEFAULTED else ClearFlag 0 SE_OWNER_DEFAULTED) in
      if gd then SetFlag c SE_GROUP_DEFAULTED else ClearFlag c SE_GROUP_DEFAULTED) = ?c"
    by (simp add: SetFlag_def ClearFlag_def)
  define b where "b = ?c"
  have "b \<in> {0, 1, 2, 3}"
    by (simp add: b_def)
  then have b: "b AND 0x140C = 0" "b AND 0x2830 = 0"
    by auto
  define p where "p = (if IsSetFlag (n_control I) SE_DACL_PROTECTED then SE_DACL_PROTECTED
    else if IsSetFlag (n_flags I) SEF_DACL_AUTO_INHERIT then SE_DACL_AUTO_INHERITED else 0 :: USHORT)"
  define q where "q = (SE_DACL_PRESENT OR (if snd (object_dacl I) then SE_DACL_DEFAULTED else 0) :: USHORT)"
  have pq: "p AND 0x2830 = 0" "q AND 0x2830 = 0"
    by (simp_all add: p_def q_def)
  have 1: "dacl.list_control SE_DACL_PROTECTED SE_DACL_AUTO_INHERITED (IsSetFlag (n_flags I) SEF_DACL_AUTO_INHERIT) (n_control I)
      b True (snd (object_dacl I)) = b OR p OR q"
    using dacl.list_control_clean[of b SE_DACL_PROTECTED SE_DACL_AUTO_INHERITED] b(1) unfolding p_def q_def by simp
  have "(b OR p OR q) AND 0x2830 = 0"
    using b(2) pq by (simp add: bit.conj_disj_distrib2)
  then have "sacl.list_control SE_SACL_PROTECTED SE_SACL_AUTO_INHERITED auto (n_control I) (b OR p OR q) present d = ((b OR p) OR q)
      OR (if IsSetFlag (n_control I) SE_SACL_PROTECTED then SE_SACL_PROTECTED else if auto then SE_SACL_AUTO_INHERITED else 0)
      OR (if present then SE_SACL_PRESENT OR (if d then SE_SACL_DEFAULTED else 0) else 0)" for auto present d
    using sacl.list_control_clean[of "b OR p OR q" SE_SACL_PROTECTED SE_SACL_AUTO_INHERITED] by (simp add: or.assoc)
  then show ?thesis
    unfolding c b_def[symmetric] 1 by (simp only: object_control_def p_def[symmetric] q_def[symmetric] b_def or.assoc)
qed

lemma chosen_part:
  assumes "choose_sid S f cr crd pa tk = Some (s, d)" and "sid_valid tk" and "creator = None \<and> cr = None \<or> (\<exists>c. creator = Some c \<and> sd_header_ok c \<and> sid_part (get c) cr)"
  shows "sid_part (Some (sid_bytes s)) (Some s)"
proof -
  have "cr = Some s \<or> s = tk"
    using assms(1) by (auto simp: choose_sid_def split: if_splits)
  then have "sid_valid s"
    using assms(2,3) by (auto simp: sid_part_def split: option.splits)
  then show ?thesis
    using sid_of_bytes[of s "[]"] by (simp add: sid_part_def)
qed

lemma object_lists_std:
  assumes "lists_fit I" and "std_entries (opt_part d_sacl (n_creator I))" and "std_entries (opt_part d_dacl (n_creator I))"
  shows "std_entries (Some (fst (object_dacl I)))" and "std_entries (fst (object_sacl I))"
proof -
  have f: "can_make dacl_kind (n_container I) (n_mapping I) (n_owner I) (n_group I) True None (Some (n_default I))"
    using assms(1) by (simp add: lists_fit_def can_make_dacl_def)
  show "std_entries (Some (fst (object_dacl I)))"
    using assms(1,3) made_std[OF f] made_std[where kind = dacl_kind and order = dacl_order] unfolding lists_fit_def can_make_dacl_def object_dacl_def new_dacl_def first_dacl_def Let_def
    by (auto split: option.splits if_splits)
  show "std_entries (fst (object_sacl I))"
    using assms(1,2) made_std[where kind = sacl_kind and order = sacl_order] unfolding lists_fit_def object_sacl_def new_sacl_def
    by (auto simp: std_entries_def split: if_splits)
qed

text \<open>The creation at the level of the absolute descriptors, and its four steps.\<close>

definition prepared :: "creation \<Rightarrow> (nat \<Rightarrow> bool) \<Rightarrow> SECURITY_DESCRIPTOR_ABSOLUTE option \<Rightarrow> SECURITY_DESCRIPTOR_ABSOLUTE option \<Rightarrow> bool" where
  "prepared I avail parent creator \<longleftrightarrow> creator_token (n_token I) (n_owner I) (n_group I)
     \<and> (\<exists>d. t_dacl (n_token I) = Some d \<and> source_at d (n_default I))
     \<and> usable parent (n_parent I) \<and> usable creator (n_creator I) \<and> opt_control creator = n_control I \<and> (\<forall>n. avail n)"

lemma object_owner_step:
  assumes "prepared I avail parent creator" and "sd_header_ok sd"
  shows "RtlpObjectSetOwner avail sd parent creator (n_flags I) (Some (token_image (n_token I))) =
      map_option (\<lambda>(s, d). (STATUS_SUCCESS, owner.stored sd s d)) (object_owner I)"
    and "RtlpObjectSetGroup avail sd parent creator (n_flags I) (Some (token_image (n_token I))) =
      map_option (\<lambda>(s, d). (STATUS_SUCCESS, grp.stored sd s d)) (object_group I)"
    and "object_owner I = Some (s, d) \<Longrightarrow> sid_part (Some (sid_bytes s)) (Some s)"
    and "object_group I = Some (s, d) \<Longrightarrow> sid_part (Some (sid_bytes s)) (Some s)"
proof -
  have c: "creator_token (n_token I) (n_owner I) (n_group I)" "opt_holds parent (n_parent I)" "opt_holds creator (n_creator I)" "opt_control creator = n_control I" "\<forall>n. avail n"
    using assms(1) by (auto simp: prepared_def usable_def)
  show "RtlpObjectSetOwner avail sd parent creator (n_flags I) (Some (token_image (n_token I))) =
      map_option (\<lambda>(s, d). (STATUS_SUCCESS, owner.stored sd s d)) (object_owner I)"
    using set_owner_exact[OF assms(2) c(5,1,2,3), of "n_flags I"] c(4) by (simp add: object_owner_def IsSetFlag_def)
  show "RtlpObjectSetGroup avail sd parent creator (n_flags I) (Some (token_image (n_token I))) =
      map_option (\<lambda>(s, d). (STATUS_SUCCESS, grp.stored sd s d)) (object_group I)"
    using set_group_exact[OF assms(2) c(5,1,2,3), of "n_flags I"] c(4) by (simp add: object_group_def IsSetFlag_def)
  have v: "sid_valid (n_owner I)" "sid_valid (n_group I)"
    using c(1) by (auto simp: creator_token_def token_ok_def)
  show "object_owner I = Some (s, d) \<Longrightarrow> sid_part (Some (sid_bytes s)) (Some s)"
    unfolding object_owner_def using chosen_part[OF _ v(1) opt_holds_sid(1)[OF c(3)]] .
  show "object_group I = Some (s, d) \<Longrightarrow> sid_part (Some (sid_bytes s)) (Some s)"
    unfolding object_group_def using chosen_part[OF _ v(2) opt_holds_sid(2)[OF c(3)]] .
qed

lemma object_dacl_step:
  assumes "prepared I avail parent creator" and "lists_fit I" and "sd_header_ok sd"
  defines "sd' \<equiv> \<lambda>m. sd\<lparr>sd_Dacl := Some m, sd_Control := dacl.list_control SE_DACL_PROTECTED SE_DACL_AUTO_INHERITED
    (IsSetFlag (n_flags I) SEF_DACL_AUTO_INHERIT) (n_control I) (sd_Control sd) True (snd (object_dacl I))\<rparr>"
  shows "\<exists>m. RtlpObjectSetDacl avail sd parent creator (n_container I) (n_flags I) (Some (token_image (n_token I))) (n_mapping I) =
    Some (STATUS_SUCCESS, sd' m) \<and> acl_at m (fst (object_dacl I)) \<and> sd_header_ok (sd' m)"
proof -
  obtain d where c: "creator_token (n_token I) (n_owner I) (n_group I)" "usable parent (n_parent I)" "usable creator (n_creator I)"
    "t_dacl (n_token I) = Some d" "source_at d (n_default I)" "opt_control creator = n_control I" "\<forall>n. avail n"
    using assms(1) by (auto simp: prepared_def)
  have "sd_header_ok (sd' m)" for m
    using dacl.set_acl_and_control_ok(2)[OF assms(3), where prot = SE_DACL_PROTECTED and inh = SE_DACL_AUTO_INHERITED and a = "Some m"]
    by (simp add: sd'_def LW_IS_VALID_FLAGS_def SE_SET_SECURITY_DESCRIPTOR_CONTROL_MASK_def)
  then show ?thesis
    using set_dacl_ok[OF assms(3) c(7,1,2,3,4,5), where flags = "n_flags I" and container = "n_container I" and gm = "n_mapping I"
        and a = "fst (object_dacl I)" and mark = "snd (object_dacl I)"] assms(2)
    unfolding lists_fit_def object_dacl_def parent_dacl_def sd'_def IsSetFlag_def c(6) by auto
qed

lemma object_sacl_step:
  assumes "prepared I avail parent creator" and "lists_fit I" and "sd_header_ok sd"
  defines "sd' \<equiv> \<lambda>m. sd\<lparr>sd_Sacl := m, sd_Control := sacl.list_control SE_SACL_PROTECTED SE_SACL_AUTO_INHERITED
    (IsSetFlag (n_flags I) SEF_SACL_AUTO_INHERIT) (n_control I) (sd_Control sd) (fst (object_sacl I) \<noteq> None) (snd (object_sacl I))\<rparr>"
  shows "\<exists>m. RtlpObjectSetSacl avail sd parent creator (n_container I) (n_flags I) (Some (token_image (n_token I))) (n_mapping I) =
    Some (STATUS_SUCCESS, sd' m) \<and> acl_part m (fst (object_sacl I)) \<and> sd_header_ok (sd' m)"
proof -
  have c: "creator_token (n_token I) (n_owner I) (n_group I)" "usable parent (n_parent I)" "usable creator (n_creator I)"
    "opt_control creator = n_control I" "\<forall>n. avail n"
    using assms(1) by (auto simp: prepared_def)
  have "sd_header_ok (sd' m)" if "acl_part m (fst (object_sacl I))" for m
  proof -
    have "(m \<noteq> None) = (fst (object_sacl I) \<noteq> None)"
      using that by (auto simp: acl_part_def split: option.splits)
    then show ?thesis
      using sacl.set_acl_and_control_ok(2)[OF assms(3), where prot = SE_SACL_PROTECTED and inh = SE_SACL_AUTO_INHERITED and a = m]
      by (simp add: sd'_def LW_IS_VALID_FLAGS_def SE_SET_SECURITY_DESCRIPTOR_CONTROL_MASK_def)
  qed
  then show ?thesis
    using set_sacl_ok[OF assms(3) c(5,1,2,3), where flags = "n_flags I" and container = "n_container I" and gm = "n_mapping I"
        and a = "fst (object_sacl I)" and mark = "snd (object_sacl I)"] assms(2)
    unfolding lists_fit_def object_sacl_def parent_sacl_def sd'_def IsSetFlag_def c(4) by auto
qed

text \<open>The steps in sequence, on a fresh descriptor.\<close>

lemma object_steps_ok:
  assumes "prepared I avail parent creator" and "lists_fit I" and "object_owner I = Some (s, od)" and "object_group I = Some (g, gd)"
  defines "tok \<equiv> Some (token_image (n_token I))" and "sd0 \<equiv> zero_descriptor\<lparr>sd_Revision := 1\<rparr>"
  defines "sd2 \<equiv> grp.stored (owner.stored sd0 s od) g gd"
  shows "\<exists>sd3 sd. RtlpObjectSetDacl avail sd2 parent creator (n_container I) (n_flags I) tok (n_mapping I) = Some (STATUS_SUCCESS, sd3)
    \<and> RtlpObjectSetSacl avail sd3 parent creator (n_container I) (n_flags I) tok (n_mapping I) = Some (STATUS_SUCCESS, sd)
    \<and> sd_holds sd (object_sd I s g) \<and> sd_Control sd = object_control I od gd"
proof -
  have h0: "sd_header_ok sd0"
    by (simp add: sd0_def zero_descriptor_def sd_header_ok_def IsSetFlag_def)
  have h2: "sd_header_ok sd2"
    unfolding sd2_def by (intro grp.stored_ok owner.stored_ok h0)
  have f2: "sd_Owner sd2 = Some (sid_bytes s)" "sd_Group sd2 = Some (sid_bytes g)"
    "sd_Control sd2 = (let c = (if od then SetFlag 0 SE_OWNER_DEFAULTED else ClearFlag 0 SE_OWNER_DEFAULTED) in
       if gd then SetFlag c SE_GROUP_DEFAULTED else ClearFlag c SE_GROUP_DEFAULTED)"
    by (simp_all add: sd2_def sd0_def owner.stored_def grp.stored_def zero_descriptor_def Let_def)
  obtain m sd3 where sd3: "RtlpObjectSetDacl avail sd2 parent creator (n_container I) (n_flags I) tok (n_mapping I) = Some (STATUS_SUCCESS, sd3)"
    "acl_at m (fst (object_dacl I))" "sd_header_ok sd3" "sd_Dacl sd3 = Some m" "sd_Owner sd3 = sd_Owner sd2" "sd_Group sd3 = sd_Group sd2"
    "sd_Control sd3 = dacl.list_control SE_DACL_PROTECTED SE_DACL_AUTO_INHERITED (IsSetFlag (n_flags I) SEF_DACL_AUTO_INHERIT)
      (n_control I) (sd_Control sd2) True (snd (object_dacl I))"
    using object_dacl_step[OF assms(1,2) h2] unfolding tok_def by fastforce
  obtain m' sd where sd: "RtlpObjectSetSacl avail sd3 parent creator (n_container I) (n_flags I) tok (n_mapping I) = Some (STATUS_SUCCESS, sd)"
    "acl_part m' (fst (object_sacl I))" "sd_header_ok sd" "sd_Sacl sd = m'" "sd_Owner sd = sd_Owner sd3" "sd_Group sd = sd_Group sd3" "sd_Dacl sd = sd_Dacl sd3"
    "sd_Control sd = sacl.list_control SE_SACL_PROTECTED SE_SACL_AUTO_INHERITED (IsSetFlag (n_flags I) SEF_SACL_AUTO_INHERIT)
      (n_control I) (sd_Control sd3) (fst (object_sacl I) \<noteq> None) (snd (object_sacl I))"
    using object_sacl_step[OF assms(1,2) sd3(3)] unfolding tok_def by fastforce
  have "sd_holds sd (object_sd I s g)"
    using sd(2-7) sd3(2,4-6) f2(1,2) object_owner_step(3)[OF assms(1) h0 assms(3)] object_owner_step(4)[OF assms(1) h0 assms(4)]
    by (simp add: sd_holds_def object_sd_def acl_part_def)
  moreover have "sd_Control sd = object_control I od gd"
    unfolding sd(8) sd3(7) f2(3) by (rule object_control_steps)
  ultimately show ?thesis
    using sd3(1) sd(1) by blast
qed

lemma create_prepared:
  assumes "abs_or_null avail parent = Some (STATUS_SUCCESS, p)" and "abs_or_null avail creator = Some (STATUS_SUCCESS, c)" and "\<forall>n. avail n"
  shows "RtlCreatePrivateObjectSecurityEx avail True parent creator container flags (Some tok) (Some gm) = do {
    (status, sd) \<leftarrow> RtlpObjectSetOwner avail (zero_descriptor\<lparr>sd_Revision := 1\<rparr>) p c flags (Some tok);
    if status \<noteq> STATUS_SUCCESS then Some (status, None, 0) else do {
    (status, sd) \<leftarrow> RtlpObjectSetGroup avail sd p c flags (Some tok);
    if status \<noteq> STATUS_SUCCESS then Some (status, None, 0) else do {
    (status, sd) \<leftarrow> RtlpObjectSetDacl avail sd p c container flags (Some tok) gm;
    if status \<noteq> STATUS_SUCCESS then Some (status, None, 0) else do {
    (status, sd) \<leftarrow> RtlpObjectSetSacl avail sd p c container flags (Some tok) gm;
    if status \<noteq> STATUS_SUCCESS then Some (status, None, 0) else to_new_relative avail sd }}}}"
  using assms by (simp add: RtlCreatePrivateObjectSecurityEx_def RTL_ALLOCATE_cases RtlCreateSecurityDescriptorAbsolute_def zero_descriptor_def)

lemma inputs_prepared:
  assumes "inputs I parent creator" and "\<forall>n. avail n"
  shows "\<exists>p c. abs_or_null avail parent = Some (STATUS_SUCCESS, p) \<and> abs_or_null avail creator = Some (STATUS_SUCCESS, c) \<and> prepared I avail p c"
  using assms given_usable[OF _ assms(2)] unfolding inputs_def prepared_def by metis

text \<open>C5. Private object security, from the self-relative descriptors of the parent and the creator to that of
  the new object. The conditions: there is memory; the descriptors, if given, are well formed with entries of the three
  ordinary types, and have no list that is marked present and is NULL; the token has an owner of at most 14
  sub-authorities, a primary group and a well-formed default list; the sizes computed for the new lists, and
  for one made from the default list, are below 65536; and the entries that go into them are of the kind of the list and have valid flags, identifiers and masks, so
  that they can be added.  Then the descriptor that is returned is well formed, exactly as long as reported, and holds
  the owner and the group that the selection picks, the chosen or inherited lists with the default list of the token
  where nothing is inherited, and exactly the control bits that mark them defaulted, protected, inherited and present.
  When the selection asks for the parent's owner or group and the creator has none, the behaviour is undefined.\<close>

theorem private_security_exact:
  assumes "inputs I parent creator" and "\<forall>n. avail n" and "lists_fit I"
  shows "case (object_owner I, object_group I) of
      (Some (s, od), Some (g, gd)) \<Rightarrow>
        \<exists>m r. RtlCreatePrivateObjectSecurityEx avail True parent creator (n_container I) (n_flags I) (Some (token_image (n_token I))) (Some (n_mapping I)) =
            Some (STATUS_SUCCESS, Some m, word_of_nat (20 + sd_parts_size (object_sd I s g)))
          \<and> rel_holds m r (trim_sd (object_sd I s g)) \<and> rel_Control r = object_control I od gd OR SE_SELF_RELATIVE
    | _ \<Rightarrow>
        RtlCreatePrivateObjectSecurityEx avail True parent creator (n_container I) (n_flags I) (Some (token_image (n_token I))) (Some (n_mapping I)) = None"
proof -
  obtain p c where pc: "abs_or_null avail parent = Some (STATUS_SUCCESS, p)" "abs_or_null avail creator = Some (STATUS_SUCCESS, c)" "prepared I avail p c"
    using inputs_prepared[OF assms(1,2)] by blast
  have h0: "sd_header_ok (zero_descriptor\<lparr>sd_Revision := 1\<rparr>)"
    by (simp add: zero_descriptor_def sd_header_ok_def IsSetFlag_def)
  note start = create_prepared[OF pc(1,2) assms(2)] object_owner_step(1)[OF pc(3) h0]
  show ?thesis
  proof (cases "object_owner I")
    case (Some so)
    obtain s od where o: "object_owner I = Some (s, od)"
      using Some by (cases so) simp
    note group = object_owner_step(2)[OF pc(3) owner.stored_ok[OF h0, of s od]]
    show ?thesis
    proof (cases "object_group I")
      case (Some gr)
      obtain g gd where g: "object_group I = Some (g, gd)"
        using Some by (cases gr) simp
      have std: "std_entries (d_sacl (object_sd I s g))" "std_entries (d_dacl (object_sd I s g))"
        using object_lists_std[OF assms(3)] pc(3) by (auto simp: object_sd_def prepared_def usable_def)
      from object_steps_ok[OF pc(3) assms(3) o g] obtain sd3 sd where
        sd: "RtlpObjectSetDacl avail (grp.stored (owner.stored (zero_descriptor\<lparr>sd_Revision := 1\<rparr>) s od) g gd) p c (n_container I) (n_flags I)
            (Some (token_image (n_token I))) (n_mapping I) = Some (STATUS_SUCCESS, sd3)"
        "RtlpObjectSetSacl avail sd3 p c (n_container I) (n_flags I) (Some (token_image (n_token I))) (n_mapping I) = Some (STATUS_SUCCESS, sd)"
        "sd_holds sd (object_sd I s g)" "sd_Control sd = object_control I od gd"
        by blast
      show ?thesis
        using to_new_relative_ok[OF sd(3) std assms(2)] unfolding start o g option.map prod.case option.case
        by (simp add: group g sd(1,2,4) del: of_nat_add)
    qed (simp add: start group o)
  qed (simp add: start)
qed

text \<open>A directory owned by S-1-5-18 whose list grants its creator owner, and a token whose default list is the same.\<close>

definition sample_dir :: SECURITY_DESCRIPTOR_ABSOLUTE where
  "sample_dir = \<lparr> sd_Revision = 1, sd_Sbz1 = 0, sd_Control = SE_DACL_PRESENT, sd_Owner = Some (sid_bytes (mk_sid [0,0,0,0,0,5] [18])),
     sd_Group = None, sd_Sacl = None, sd_Dacl = Some (acl_bytes sample_parent) \<rparr>"

definition sample_DIR :: SD where
  "sample_DIR = \<lparr> d_owner = Some (mk_sid [0,0,0,0,0,5] [18]), d_group = None, d_sacl = None, d_dacl = Some sample_parent \<rparr>"

definition sample_dir_bytes :: mem where
  "sample_dir_bytes = rel_bytes (rel_of sample_dir sample_DIR no_offsets) @ sd_image sample_DIR"

definition sample_maker :: TOKEN where
  "sample_maker = sample_creator\<lparr>t_dacl := Some (acl_bytes sample_parent)\<rparr>"

lemma sample_dir_holds: "sd_holds sample_dir sample_DIR"
proof -
  have "sid_part (Some (sid_bytes (mk_sid [0,0,0,0,0,5] [18]))) (Some (mk_sid [0,0,0,0,0,5] [18]))"
    using sid_of_bytes[of "mk_sid [0,0,0,0,0,5] [18]" "[]"] by (simp add: sid_part_def sid_valid_def)
  moreover have "acl_part (Some (acl_bytes sample_parent)) (Some sample_parent)"
    using sample_parent_source by (simp add: acl_part_def source_at_def)
  moreover have "sd_header_ok sample_dir"
    by (simp add: sd_header_ok_def sample_dir_def IsSetFlag_def)
  ultimately show ?thesis
    by (simp add: sd_holds_def sample_dir_def sample_DIR_def no_part)
qed

lemma sample_parent_ace:
  defines "e \<equiv> \<lparr> a_type = 0, a_flags = 3, a_mask = 3, a_sid = creator_owner_sid \<rparr> :: ACE"
  shows "le_entry (ace_bytes e)" and "ace_bytes e ! 0 = 0" and "length (ace_bytes e) = 20"
proof -
  show "le_entry (ace_bytes e)"
    by (rule le_entry_image) (simp_all add: e_def std_ace_type_def LW_IS_VALID_FLAGS_def creator_owner_sid_def sid_valid_def)
  show "ace_bytes e ! 0 = 0" "length (ace_bytes e) = 20"
    by (simp_all add: e_def ace_bytes_def creator_owner_sid_def sid_bytes_def)
qed

lemma sample_dir_given: "given_sd (Some sample_dir_bytes) (Some sample_DIR) SE_DACL_PRESENT"
proof -
  have s: "std_entries (d_sacl sample_DIR)" "std_entries (d_dacl sample_DIR)"
    using sample_parent_ace(1,2) by (simp_all add: std_entries_def sample_DIR_def sample_parent_def std_ace_type_def)
  have t: "trim_sd sample_DIR = sample_DIR"
    using sample_parent_ace(3) by (simp add: trim_sd_def sample_DIR_def trim_acl_def sample_parent_def acl_used_def)
  have "rel_Control (rel_of sample_dir sample_DIR no_offsets) = SE_DACL_PRESENT OR SE_SELF_RELATIVE"
    by (simp add: rel_of_def Let_def sample_dir_def)
  then show ?thesis
    using stored_rel_holds[OF sample_dir_holds s] unfolding t given_sd_def sample_dir_bytes_def
    by (auto simp: ClearFlag_def IsSetFlag_def sample_DIR_def intro!: exI)
qed

lemma sample_maker_token: "creator_token sample_maker (mk_sid [0,0,0,0,0,5] [7]) (mk_sid [0,0,0,0,0,5] [11])"
proof -
  have "acl_at (acl_bytes sample_parent) sample_parent"
    using sample_parent_source by (simp add: source_at_def)
  moreover have "length (acl_bytes sample_parent) = 28" "unat (acl_size sample_parent) = 28"
    using sample_parent_ace(3) by (simp_all add: sample_parent_def acl_bytes_def)
  ultimately have "acl_arg (Some (acl_bytes sample_parent)) (Some (acl_bytes sample_parent))"
    by (auto simp: acl_arg_def intro!: exI[of _ sample_parent])
  then show ?thesis
    using sample_creator_token by (auto simp: creator_token_def token_ok_def sample_maker_def)
qed

definition sample_creation :: creation where
  "sample_creation = \<lparr> n_container = False, n_mapping = sample_mapping, n_flags = SEF_DACL_AUTO_INHERIT, n_token = sample_maker,
     n_owner = mk_sid [0,0,0,0,0,5] [7], n_group = mk_sid [0,0,0,0,0,5] [11], n_default = sample_parent,
     n_parent = Some sample_DIR, n_creator = None, n_control = 0 \<rparr>"

lemma sample_inputs: "inputs sample_creation (Some sample_dir_bytes) None"
  using sample_maker_token sample_dir_given sample_parent_source
  by (auto simp: inputs_def sample_creation_def sample_maker_def given_sd_def[of None])

lemma sample_made:
  "made_acl dacl_order False sample_mapping (mk_sid [0,0,0,0,0,5] [7]) (mk_sid [0,0,0,0,0,5] [11]) False (Some sample_parent) None =
    \<lparr> acl_rev = 2, acl_size = 168, acl_aces = [ace_bytes sample_inherited] \<rparr>"
  using sample_inherited_ok(4) by (simp add: made_acl_def sample_new_entries dacl_order_def)

lemma sample_object:
  "object_owner sample_creation = Some (mk_sid [0,0,0,0,0,5] [7], True)" "object_group sample_creation = Some (mk_sid [0,0,0,0,0,5] [11], True)"
  "object_dacl sample_creation = (\<lparr> acl_rev = 2, acl_size = 168, acl_aces = [ace_bytes sample_inherited] \<rparr>, False)"
  "object_sacl sample_creation = (None, False)"
  by (simp_all add: object_owner_def object_group_def choose_sid_def object_dacl_def new_dacl_def first_dacl_def parent_dacl_def object_sacl_def
      new_sacl_def parent_sacl_def opt_part_def sample_creation_def sample_DIR_def IsSetFlag_def sample_made)

lemma sample_fits: "lists_fit sample_creation"
proof -
  have "can_make dacl_kind False sample_mapping (mk_sid [0,0,0,0,0,5] [7]) (mk_sid [0,0,0,0,0,5] [11]) False (Some sample_parent) None"
    using sample_inherited_ok by (simp add: can_make_def sample_new_entries)
  moreover have "can_make dacl_kind False sample_mapping (mk_sid [0,0,0,0,0,5] [7]) (mk_sid [0,0,0,0,0,5] [11]) True None (Some sample_parent)"
    unfolding can_make_def new_entries_def option_entries_def option.case sample_parent_entries
    by (simp add: assign_entry_def stands_for_def new_size_def sample_parent_def dacl_kind_def entry_ok_def LW_IS_VALID_FLAGS_def sid_valid_def creator_owner_sid_def creator_group_sid_def)
  ultimately show ?thesis
    by (simp add: lists_fit_def can_make_dacl_def sample_creation_def parent_dacl_def parent_sacl_def opt_part_def sample_DIR_def IsSetFlag_def)
qed

text \<open>A file made in the directory: owned by its creator, who is also granted what the directory grants CREATOR OWNER.\<close>

theorem private_security_exact_witness:
  "\<exists>m r. RtlCreatePrivateObjectSecurityEx (\<lambda>_. True) True (Some sample_dir_bytes) None False SEF_DACL_AUTO_INHERIT
        (Some (token_image sample_maker)) (Some sample_mapping) = Some (STATUS_SUCCESS, Some m, 72)
    \<and> rel_holds m r \<lparr> d_owner = Some (mk_sid [0,0,0,0,0,5] [7]), d_group = Some (mk_sid [0,0,0,0,0,5] [11]), d_sacl = None,
        d_dacl = Some \<lparr> acl_rev = 2, acl_size = 28, acl_aces = [ace_bytes sample_inherited] \<rparr> \<rparr>
    \<and> rel_Control r = 0x8407"
proof -
  let ?o = "object_sd sample_creation (mk_sid [0,0,0,0,0,5] [7]) (mk_sid [0,0,0,0,0,5] [11])"
  have n: "length (ace_bytes sample_inherited) = 20"
    by (simp add: sample_inherited_def ace_bytes_def sid_bytes_def)
  have c: "n_control sample_creation = 0" "n_flags sample_creation = SEF_DACL_AUTO_INHERIT"
    by (simp_all add: sample_creation_def)
  have "sd_parts_size ?o = 52" "object_control sample_creation True True = 0x407"
    "trim_sd ?o = \<lparr> d_owner = Some (mk_sid [0,0,0,0,0,5] [7]), d_group = Some (mk_sid [0,0,0,0,0,5] [11]), d_sacl = None,
        d_dacl = Some \<lparr> acl_rev = 2, acl_size = 28, acl_aces = [ace_bytes sample_inherited] \<rparr> \<rparr>"
    using n by (simp_all add: object_sd_def sample_object sd_parts_size_def sid_part_size_def acl_part_size_def sid_length_def acl_used_def trim_sd_def trim_acl_def
        object_control_def c IsSetFlag_def)
  then show ?thesis
    using private_security_exact[OF sample_inputs _ sample_fits, of "\<lambda>_. True"] unfolding sample_object option.case prod.case by (simp add: sample_creation_def)
qed

text \<open>C33. With the flag that defaults the owner from the parent, and a parent that has an owner, the owner stored is the one the
  creator's descriptor names, whether or not the token may assign it, and never the parent's.  Without one in the
  creator's descriptor the behaviour is undefined.\<close>

theorem owner_from_parent_is_creators:
  assumes "sd_header_ok sd" and "\<forall>n. avail n" and "creator_token T ow gr" and "opt_holds parent P" and "opt_holds creator C"
    and "flags AND SEF_DEFAULT_OWNER_FROM_PARENT \<noteq> 0" and "opt_part d_owner P \<noteq> None"
  shows "RtlpObjectSetOwner avail sd parent creator flags (Some (token_image T)) =
    (case opt_part d_owner C of
       None \<Rightarrow> None
     | Some s \<Rightarrow> Some (STATUS_SUCCESS, sd\<lparr>sd_Owner := Some (sid_bytes s),
         sd_Control := (if s \<in> token_sids (token_image T) \<and> \<not> IsSetFlag (opt_control creator) SE_OWNER_DEFAULTED
                        then ClearFlag (sd_Control sd) SE_OWNER_DEFAULTED else SetFlag (sd_Control sd) SE_OWNER_DEFAULTED)\<rparr>))"
  using set_owner_exact[OF assms(1-5), of flags] assms(6,7) by (auto simp: choose_sid_def owner.stored_def split: option.splits)

theorem owner_from_parent_is_creators_witness:
  "RtlpObjectSetOwner (\<lambda>_. True) (zero_descriptor\<lparr>sd_Revision := 1\<rparr>) (Some sample_dir) None SEF_DEFAULT_OWNER_FROM_PARENT (Some (token_image sample_maker)) = None"
  using owner_from_parent_is_creators[of "zero_descriptor\<lparr>sd_Revision := 1\<rparr>" "\<lambda>_. True", OF _ _ sample_maker_token, of "Some sample_dir" "Some sample_DIR" None None SEF_DEFAULT_OWNER_FROM_PARENT]
    sample_dir_holds
  by (simp add: opt_holds_def opt_part_def sample_DIR_def zero_descriptor_def sd_header_ok_def IsSetFlag_def)

text \<open>C34. The check for a missing token is inverted.  Given memory and descriptors, or none, that are well formed with entries of the
  three ordinary types and no list that is marked present and is NULL, a call without a token has exactly these outcomes.  It is refused for the missing token when both flags that make the token optional are set.
  Otherwise it goes on: with an owner in the creator's descriptor the behaviour is undefined, and so it is without one when
  the owner is to come from a parent that has one; in the remaining case the query of the token's owner refuses the NULL
  token as an invalid parameter.\<close>

theorem null_token_guard_inverted:
  assumes "given_sd parent P pc" and "given_sd creator C control" and "\<forall>n. avail n"
  shows "RtlCreatePrivateObjectSecurityEx avail True parent creator container flags None (Some gm) =
    (if flags AND (SEF_AVOID_OWNER_CHECK OR SEF_AVOID_PRIVILEGE_CHECK) = SEF_AVOID_OWNER_CHECK OR SEF_AVOID_PRIVILEGE_CHECK
     then Some (STATUS_NO_TOKEN, None, 0)
     else if opt_part d_owner C \<noteq> None \<or> flags AND SEF_DEFAULT_OWNER_FROM_PARENT \<noteq> 0 \<and> opt_part d_owner P \<noteq> None then None
     else Some (STATUS_INVALID_PARAMETER, None, 0))"
proof -
  obtain p where p: "abs_or_null avail parent = Some (STATUS_SUCCESS, p)" "opt_holds p P"
    using given_usable[OF assms(1,3)] by (auto simp: usable_def)
  obtain c where c: "abs_or_null avail creator = Some (STATUS_SUCCESS, c)" "opt_holds c C"
    using given_usable[OF assms(2,3)] by (auto simp: usable_def)
  have "query_owner None = Some (STATUS_INVALID_PARAMETER, None)"
    by (simp add: query_owner_def RtlQueryAccessTokenInformation_def)
  then have "RtlpObjectSetOwner avail sd0 p c flags None =
      (if opt_part d_owner C \<noteq> None \<or> flags AND SEF_DEFAULT_OWNER_FROM_PARENT \<noteq> 0 \<and> opt_part d_owner P \<noteq> None then None
       else Some (STATUS_INVALID_PARAMETER, sd0))" for sd0
    unfolding RtlpObjectSetOwner_def getters_setters
    using opt_holds_sid(1)[OF p(2)] opt_holds_sid(1)[OF c(2)]
    by (auto simp: object_set_sid_def owner.getter sid_part_def split: option.splits)
  then show ?thesis
    using p(1) c(1) assms(3) by (auto simp: RtlCreatePrivateObjectSecurityEx_def RTL_ALLOCATE_cases RtlCreateSecurityDescriptorAbsolute_def)
qed

theorem null_token_guard_inverted_witness:
  "RtlCreatePrivateObjectSecurityEx (\<lambda>_. True) True None (Some sample_dir_bytes) False 0x18 None (Some sample_mapping) = Some (STATUS_NO_TOKEN, None, 0)
   \<and> RtlCreatePrivateObjectSecurityEx (\<lambda>_. True) True None (Some sample_dir_bytes) False 0 None (Some sample_mapping) = None
   \<and> RtlCreatePrivateObjectSecurityEx (\<lambda>_. True) True None None False 0 None (Some sample_mapping) = Some (STATUS_INVALID_PARAMETER, None, 0)"
  using null_token_guard_inverted[of None None 0, OF _ sample_dir_given, of "\<lambda>_. True" False _ sample_mapping]
    null_token_guard_inverted[of None None 0 None None 0 "\<lambda>_. True" False 0 sample_mapping]
  by (simp add: given_sd_def[of None] sample_DIR_def opt_part_def)

end
