(* ===== verification/Security_Token_Relative.thy ===== *)
theory Security_Token_Relative
  imports Security_Token_Create
begin

text \<open>
  The self-relative form of access tokens, in which they pass between processes: \<^verbatim>\<open>RtlAccessTokenRelativeSize\<close>,
  \<^verbatim>\<open>RtlAccessTokenToSelfRelativeAccessToken\<close> and \<^verbatim>\<open>RtlSelfRelativeAccessTokenToAccessToken\<close> of
  \<^verbatim>\<open>security-token.c\<close>.  The pointers to the groups and privileges of a token, which creation always sets, are not
  NULL.
\<close>

section \<open>Operations\<close>

definition Align32 :: "ULONG \<Rightarrow> ULONG" where
  "Align32 ulValue = (let ulRem = ulValue mod 32 in if ulRem \<noteq> 0 then ulValue + (32 - ulRem) else ulValue)"

definition CheckOffset :: "ULONG \<Rightarrow> ULONG \<Rightarrow> ULONG \<Rightarrow> NTSTATUS" where
  "CheckOffset ulOffset ulSize ulMaxSize =
    (if ulMaxSize - ulOffset < ulSize then STATUS_BUFFER_TOO_SMALL else STATUS_SUCCESS)"

definition rel_sid_size :: "ULONG \<Rightarrow> mem option \<Rightarrow> ULONG option" where
  "rel_sid_size ulRelativeSize sid =
    (case sid of None \<Rightarrow> Some ulRelativeSize | Some s \<Rightarrow> do { l \<leftarrow> RtlLengthSid s; Some (Align32 (ulRelativeSize + l)) })"

definition rel_acl_size :: "ULONG \<Rightarrow> mem option \<Rightarrow> ULONG option" where
  "rel_acl_size ulRelativeSize acl =
    (case acl of None \<Rightarrow> Some ulRelativeSize | Some a \<Rightarrow> do { l \<leftarrow> RtlGetAclSize a; Some (Align32 (ulRelativeSize + ucast l)) })"

fun rel_group_sizes :: "ULONG \<Rightarrow> SID_AND_ATTRIBUTES list \<Rightarrow> nat \<Rightarrow> ULONG option" where
  "rel_group_sizes ulRelativeSize gs 0 = Some ulRelativeSize"
| "rel_group_sizes ulRelativeSize [] (Suc n) = None"
| "rel_group_sizes ulRelativeSize (g # gs) (Suc n) = do {
     r \<leftarrow> rel_sid_size ulRelativeSize (Some (sa_Sid g));
     rel_group_sizes r gs n
   }"

definition RtlAccessTokenRelativeSize :: "ACCESS_TOKEN \<Rightarrow> ULONG option" where
  "RtlAccessTokenRelativeSize pToken = do {
     let r = Align32 52;
     r \<leftarrow> rel_sid_size r (Some (sa_Sid (tk_User pToken)));
     let r = Align32 (r + 8 * tk_GroupCount pToken);
     r \<leftarrow> rel_group_sizes r (tk_Groups pToken) (unat (tk_GroupCount pToken));
     let r = Align32 (r + 12 * tk_PrivilegeCount pToken);
     r \<leftarrow> rel_sid_size r (tk_Owner pToken);
     r \<leftarrow> rel_sid_size r (tk_PrimaryGroup pToken);
     rel_acl_size r (tk_DefaultDacl pToken)
   }"

text \<open>Bytes are copied to the buffer at the offset, which then moves behind them to a multiple of 32.\<close>

definition rel_copy :: "mem \<Rightarrow> ULONG \<Rightarrow> mem \<Rightarrow> ULONG \<Rightarrow> (mem \<times> ULONG) option" where
  "rel_copy m ulOffset src len = do {
     m \<leftarrow> memcpy m (unat ulOffset) src 0 (unat len);
     Some (m, Align32 (ulOffset + len))
   }"

text \<open>An optional part: its offset, or zero, is stored in the header at a place.\<close>

definition rel_sid :: "mem \<Rightarrow> nat \<Rightarrow> ULONG \<Rightarrow> mem option \<Rightarrow> (mem \<times> ULONG) option" where
  "rel_sid m field ulOffset sid =
    (case sid of
       None \<Rightarrow> do { m \<leftarrow> wr32 m field 0; Some (m, ulOffset) }
     | Some s \<Rightarrow> do {
         m \<leftarrow> wr32 m field ulOffset;
         l \<leftarrow> RtlLengthSid s;
         rel_copy m ulOffset s l
       })"

definition rel_acl :: "mem \<Rightarrow> nat \<Rightarrow> ULONG \<Rightarrow> mem option \<Rightarrow> (mem \<times> ULONG) option" where
  "rel_acl m field ulOffset acl =
    (case acl of
       None \<Rightarrow> do { m \<leftarrow> wr32 m field 0; Some (m, ulOffset) }
     | Some a \<Rightarrow> do {
         m \<leftarrow> wr32 m field ulOffset;
         l \<leftarrow> RtlGetAclSize a;
         rel_copy m ulOffset a (ucast l)
       })"

fun rel_groups :: "mem \<Rightarrow> nat \<Rightarrow> ULONG \<Rightarrow> SID_AND_ATTRIBUTES list \<Rightarrow> nat \<Rightarrow> (mem \<times> ULONG) option" where
  "rel_groups m entry ulOffset gs 0 = Some (m, ulOffset)"
| "rel_groups m entry ulOffset [] (Suc n) = None"
| "rel_groups m entry ulOffset (g # gs) (Suc n) = do {
     m \<leftarrow> wr32 m (entry + 4) (sa_Attributes g);
     (m, ulOffset) \<leftarrow> rel_sid m entry ulOffset (Some (sa_Sid g));
     rel_groups m (entry + 8) ulOffset gs n
   }"

definition rel_fields :: "mem \<Rightarrow> ACCESS_TOKEN \<Rightarrow> mem option" where
  "rel_fields m pToken = do {
     m \<leftarrow> wr32 m 0 (tk_Flags pToken);
     m \<leftarrow> wr32 m 8 (sa_Attributes (tk_User pToken));
     m \<leftarrow> wr32 m 12 (tk_GroupCount pToken);
     m \<leftarrow> wr32 m 20 (tk_PrivilegeCount pToken);
     m \<leftarrow> wr32 m 40 (tk_Uid pToken);
     m \<leftarrow> wr32 m 44 (tk_Gid pToken);
     wr32 m 48 (tk_Umask pToken)
   }"

definition rel_parts :: "mem \<Rightarrow> ACCESS_TOKEN \<Rightarrow> (mem \<times> ULONG) option" where
  "rel_parts m pToken = do {
     let ulOffset = Align32 52;
     (m, ulOffset) \<leftarrow> rel_sid m 4 ulOffset (Some (sa_Sid (tk_User pToken)));
     m \<leftarrow> wr32 m 16 ulOffset;
     let pGroups = unat ulOffset;
     let ulOffset = Align32 (ulOffset + 8 * tk_GroupCount pToken);
     (m, ulOffset) \<leftarrow> rel_groups m pGroups ulOffset (tk_Groups pToken) (unat (tk_GroupCount pToken));
     m \<leftarrow> wr32 m 24 ulOffset;
     m \<leftarrow> memcpy m (unat ulOffset) (tk_Privileges pToken) 0 (12 * unat (tk_PrivilegeCount pToken));
     let ulOffset = Align32 (ulOffset + 12 * tk_PrivilegeCount pToken);
     (m, ulOffset) \<leftarrow> rel_sid m 28 ulOffset (tk_Owner pToken);
     (m, ulOffset) \<leftarrow> rel_sid m 32 ulOffset (tk_PrimaryGroup pToken);
     rel_acl m 36 ulOffset (tk_DefaultDacl pToken)
   }"

text \<open>The results are the status, the buffer and the size.\<close>

definition RtlAccessTokenToSelfRelativeAccessToken ::
    "ACCESS_TOKEN \<Rightarrow> mem option \<Rightarrow> ULONG \<Rightarrow> (NTSTATUS \<times> mem option \<times> ULONG) option" where
  "RtlAccessTokenToSelfRelativeAccessToken pToken pRelative ulSize = do {
     ulRelativeSize \<leftarrow> RtlAccessTokenRelativeSize pToken;
     case pRelative of
       None \<Rightarrow> Some (STATUS_SUCCESS, None, ulRelativeSize)
     | Some m \<Rightarrow>
         if ulSize < ulRelativeSize then Some (STATUS_BUFFER_TOO_SMALL, Some m, ulRelativeSize)
         else do {
           m \<leftarrow> rel_fields m pToken;
           (m, ulOffset) \<leftarrow> rel_parts m pToken;
           if ulOffset = ulRelativeSize then Some (STATUS_SUCCESS, Some m, ulRelativeSize) else None
         }
   }"

text \<open>The check of the identifier at an offset; it reads the length from the buffer.\<close>

definition RtlValidateSelfRelativeSid :: "mem \<Rightarrow> ULONG \<Rightarrow> ULONG \<Rightarrow> NTSTATUS option" where
  "RtlValidateSelfRelativeSid pBuffer ulOffset ulRelativeSize =
    (if CheckOffset ulOffset 8 ulRelativeSize \<noteq> STATUS_SUCCESS then Some (CheckOffset ulOffset 8 ulRelativeSize)
     else do {
       pSid \<leftarrow> ptr_add pBuffer (unat ulOffset);
       l \<leftarrow> RtlLengthSid pSid;
       Some (CheckOffset ulOffset l ulRelativeSize)
     })"

definition sid_at_offset :: "mem \<Rightarrow> ULONG \<Rightarrow> ULONG \<Rightarrow> (NTSTATUS \<times> mem option) option" where
  "sid_at_offset pBuffer ulOffset ulRelativeSize = do {
     status \<leftarrow> RtlValidateSelfRelativeSid pBuffer ulOffset ulRelativeSize;
     if status \<noteq> STATUS_SUCCESS then Some (status, None)
     else do { pSid \<leftarrow> ptr_add pBuffer (unat ulOffset); Some (STATUS_SUCCESS, Some pSid) }
   }"

fun read_groups :: "mem \<Rightarrow> ULONG \<Rightarrow> nat \<Rightarrow> nat \<Rightarrow> (NTSTATUS \<times> (mem option \<times> ULONG) list) option" where
  "read_groups pBuffer ulRelativeSize entry 0 = Some (STATUS_SUCCESS, [])"
| "read_groups pBuffer ulRelativeSize entry (Suc n) = do {
     attributes \<leftarrow> rd32 pBuffer (entry + 4);
     ulOffset \<leftarrow> rd32 pBuffer entry;
     (status, sid) \<leftarrow> sid_at_offset pBuffer ulOffset ulRelativeSize;
     if status \<noteq> STATUS_SUCCESS then Some (status, [])
     else do {
       (status, gs) \<leftarrow> read_groups pBuffer ulRelativeSize (entry + 8) n;
       Some (status, (sid, attributes) # gs)
     }
   }"

text \<open>The size of an array and of its copy: entries of the two widths and a header.\<close>

definition array_sizes :: "ULONG \<Rightarrow> ULONG \<Rightarrow> ULONG \<Rightarrow> ULONG \<Rightarrow> NTSTATUS \<times> ULONG \<times> ULONG" where
  "array_sizes width realWidth header count =
    (case LwRtlSafeMultiplyULONG width count of (status, ulSize) \<Rightarrow>
       if status \<noteq> STATUS_SUCCESS then (status, 0, 0)
       else
         (case LwRtlSafeMultiplyULONG realWidth count of (status, ulRealSize) \<Rightarrow>
            if status \<noteq> STATUS_SUCCESS then (status, 0, 0)
            else
              (case LwRtlSafeAddULONG ulRealSize header of (status, ulRealSize) \<Rightarrow>
                 if status \<noteq> STATUS_SUCCESS then (status, 0, 0) else (STATUS_SUCCESS, ulSize, ulRealSize))))"

definition rel_token_groups ::
    "(nat \<Rightarrow> bool) \<Rightarrow> mem \<Rightarrow> ULONG \<Rightarrow> (NTSTATUS \<times> TOKEN_GROUPS option) option" where
  "rel_token_groups avail pBuffer ulRelativeSize = do {
     ulOffset \<leftarrow> rd32 pBuffer 16;
     if ulOffset = 0 then Some (STATUS_SUCCESS, None)
     else do {
       count \<leftarrow> rd32 pBuffer 12;
       case array_sizes 8 16 8 count of (status, ulSize, ulRealSize) \<Rightarrow>
         if status \<noteq> STATUS_SUCCESS then Some (status, None)
         else if CheckOffset ulOffset ulSize ulRelativeSize \<noteq> STATUS_SUCCESS
         then Some (CheckOffset ulOffset ulSize ulRelativeSize, None)
         else if fst (RTL_ALLOCATE avail (unat ulRealSize)) \<noteq> STATUS_SUCCESS
         then Some (fst (RTL_ALLOCATE avail (unat ulRealSize)), None)
         else do {
           (status, gs) \<leftarrow> read_groups pBuffer ulRelativeSize (unat ulOffset) (unat count);
           Some (status, Some \<lparr> tg_GroupCount = count, tg_Groups = gs \<rparr>)
         }
     }
   }"

definition rel_token_privileges ::
    "(nat \<Rightarrow> bool) \<Rightarrow> mem \<Rightarrow> ULONG \<Rightarrow> (NTSTATUS \<times> mem option) option" where
  "rel_token_privileges avail pBuffer ulRelativeSize = do {
     ulOffset \<leftarrow> rd32 pBuffer 24;
     if ulOffset = 0 then Some (STATUS_SUCCESS, None)
     else do {
       count \<leftarrow> rd32 pBuffer 20;
       case array_sizes 12 12 4 count of (status, ulSize, ulRealSize) \<Rightarrow>
         if status \<noteq> STATUS_SUCCESS then Some (status, None)
         else if CheckOffset ulOffset ulSize ulRelativeSize \<noteq> STATUS_SUCCESS
         then Some (CheckOffset ulOffset ulSize ulRelativeSize, None)
         else
           (case RTL_ALLOCATE avail (unat ulRealSize) of (status, p) \<Rightarrow>
              if status \<noteq> STATUS_SUCCESS then Some (status, None)
              else do {
                p \<leftarrow> p;
                p \<leftarrow> wr32 p 0 count;
                p \<leftarrow> memcpy p 4 pBuffer (unat ulOffset) (12 * unat count);
                Some (STATUS_SUCCESS, Some p)
              })
     }
   }"

definition rel_token_sid :: "mem \<Rightarrow> nat \<Rightarrow> ULONG \<Rightarrow> (NTSTATUS \<times> mem option) option" where
  "rel_token_sid pBuffer field ulRelativeSize = do {
     ulOffset \<leftarrow> rd32 pBuffer field;
     if ulOffset = 0 then Some (STATUS_SUCCESS, None) else sid_at_offset pBuffer ulOffset ulRelativeSize
   }"

definition RtlSelfRelativeAccessTokenToAccessToken ::
    "(nat \<Rightarrow> bool) \<Rightarrow> ULONG \<Rightarrow> NTSTATUS option \<Rightarrow> mem \<Rightarrow> ULONG \<Rightarrow> (NTSTATUS \<times> ACCESS_TOKEN option) option" where
  "RtlSelfRelativeAccessTokenToAccessToken avail tokenSize lockFailure pRelative ulRelativeSize =
    (if CheckOffset 0 52 ulRelativeSize \<noteq> STATUS_SUCCESS then Some (CheckOffset 0 52 ulRelativeSize, None)
     else do {
       flags \<leftarrow> rd32 pRelative 0;
       unix \<leftarrow> (if flags AND ACCESS_TOKEN_FLAG_UNIX_PRESENT \<noteq> 0 then do {
           uid \<leftarrow> rd32 pRelative 40;
           gid \<leftarrow> rd32 pRelative 44;
           umask \<leftarrow> rd32 pRelative 48;
           Some (Some \<lparr> tu_Uid = uid, tu_Gid = gid, tu_Umask = umask \<rparr>)
         } else Some None);
       attributes \<leftarrow> rd32 pRelative 8;
       ulOffset \<leftarrow> rd32 pRelative 4;
       (status, user) \<leftarrow> sid_at_offset pRelative ulOffset ulRelativeSize;
       if status \<noteq> STATUS_SUCCESS then Some (status, None)
       else do {
         (status, groups) \<leftarrow> rel_token_groups avail pRelative ulRelativeSize;
         if status \<noteq> STATUS_SUCCESS then Some (status, None)
         else do {
           (status, privileges) \<leftarrow> rel_token_privileges avail pRelative ulRelativeSize;
           if status \<noteq> STATUS_SUCCESS then Some (status, None)
           else do {
             (status, owner) \<leftarrow> rel_token_sid pRelative 28 ulRelativeSize;
             if status \<noteq> STATUS_SUCCESS then Some (status, None)
             else do {
               (status, primary) \<leftarrow> rel_token_sid pRelative 32 ulRelativeSize;
               if status \<noteq> STATUS_SUCCESS then Some (status, None)
               else RtlCreateAccessToken avail tokenSize lockFailure (Some (user, attributes)) groups privileges
                 (Some owner) (Some primary) (Some None) unix
             }
           }
         }
       }
     })"

section \<open>Writes to places that do not overlap\<close>

primrec do_writes :: "(nat \<times> byte list) list \<Rightarrow> mem \<Rightarrow> mem option" where
  "do_writes [] m = Some m"
| "do_writes (w # ws) m = do { m \<leftarrow> wrn m (fst w) (snd w); do_writes ws m }"

definition apart :: "nat \<times> byte list \<Rightarrow> nat \<times> byte list \<Rightarrow> bool" where
  "apart v w \<longleftrightarrow> fst v + length (snd v) \<le> fst w \<or> fst w + length (snd w) \<le> fst v"

lemma do_writes_append: "do_writes (vs @ ws) m = Option.bind (do_writes vs m) (do_writes ws)"
  by (induction vs arbitrary: m) simp_all

definition reads_back :: "mem \<Rightarrow> (nat \<times> byte list) list \<Rightarrow> bool" where
  "reads_back m ws \<longleftrightarrow> (\<forall>w\<in>set ws. rdn m (fst w) (length (snd w)) = Some (snd w))"

lemma do_writes_correct:
  assumes "sorted_wrt apart ws" and "\<forall>w\<in>set ws. fst w + length (snd w) \<le> length m"
  shows "\<exists>m'. do_writes ws m = Some m' \<and> length m' = length m \<and> reads_back m' ws
    \<and> (\<forall>off n. (\<forall>w\<in>set ws. off + n \<le> fst w \<or> fst w + length (snd w) \<le> off) \<longrightarrow> rdn m' off n = rdn m off n)"
  using assms
proof (induction ws arbitrary: m)
  case (Cons w ws)
  obtain m1 where m1: "wrn m (fst w) (snd w) = Some m1"
    using Cons.prems(2) wrn_defined[of m "fst w" "snd w"] by auto
  have l: "length m1 = length m"
    by (rule wrn_length[OF m1])
  obtain m' where m': "do_writes ws m1 = Some m'" "length m' = length m1" "reads_back m' ws"
    "\<And>off n. \<forall>w\<in>set ws. off + n \<le> fst w \<or> fst w + length (snd w) \<le> off \<Longrightarrow> rdn m' off n = rdn m1 off n"
    using Cons.IH[of m1] Cons.prems l by auto
  have "rdn m' (fst w) (length (snd w)) = Some (snd w)"
    using m'(4)[of "fst w" "length (snd w)"] Cons.prems(1) rdn_wrn_same[OF m1] by (simp add: apart_def)
  moreover have "rdn m' off n = rdn m off n"
    if "\<forall>v\<in>set (w # ws). off + n \<le> fst v \<or> fst v + length (snd v) \<le> off" for off n
    using that m'(4)[of off n] rdn_wrn_other[OF m1, of off n] by auto
  ultimately show ?case
    using m1 m' l by (auto simp: reads_back_def)
qed (simp add: reads_back_def)

lemma reads_back_word:
  assumes "reads_back m ws" and "(off, enc32 w) \<in> set ws"
  shows "rd32 m off = Some w"
  using assms by (auto simp: reads_back_def rd32_def dec32_enc32)

section \<open>The layout of a token\<close>

definition pad32 :: "nat \<Rightarrow> nat" where
  "pad32 n = 32 * ((n + 31) div 32)"

lemma pad32_bounds: "n \<le> pad32 n"
  by (simp add: pad32_def)

lemma pad32_eq: "pad32 n = (if n mod 32 = 0 then n else n + (32 - n mod 32))"
proof -
  obtain q r where n: "n = 32 * q + r" "r < 32"
    by (metis mod_less_divisor mult_div_mod_eq zero_less_numeral)
  have "(32 * q + r + 31) div 32 = (if r = 0 then q else q + 1)"
    using n(2) div_nat_eqI[of q 32 "32 * q + r + 31"] div_nat_eqI[of "q + 1" 32 "32 * q + r + 31"] by (cases "r = 0") simp_all
  then show ?thesis
    using n by (cases "r = 0") (simp_all add: pad32_def)
qed

lemma Align32_correct: "Align32 (word_of_nat n) = word_of_nat (pad32 n)"
proof -
  have u: "unat (word_of_nat (n mod 32) :: ULONG) = n mod 32"
    by (rule unat_of_nat_small) (rule less_trans[of _ 32], simp_all)
  have "unat ((word_of_nat n :: ULONG) mod 32) = n mod 32"
    by (simp add: unat_mod_distrib unat_of_nat take_bit_eq_mod mod_mod_cancel)
  then have m: "(word_of_nat n :: ULONG) mod 32 = word_of_nat (n mod 32)"
    using u by (intro word_unat_eq_iff[THEN iffD2]) simp
  have z: "(word_of_nat (n mod 32) :: ULONG) = 0 \<longleftrightarrow> n mod 32 = 0"
    unfolding unat_eq_0[symmetric] u ..
  show ?thesis
  proof (cases "n mod 32 = 0")
    case True
    then have "pad32 n = n"
      by (simp add: pad32_eq)
    then show ?thesis
      using True m z by (simp add: Align32_def Let_def)
  next
    case False
    then have "pad32 n = n + (32 - n mod 32)"
      by (simp add: pad32_eq)
    moreover have "(word_of_nat (32 - n mod 32) :: ULONG) = 32 - word_of_nat (n mod 32)"
      by (subst of_nat_diff) (simp_all add: less_imp_le)
    ultimately have "(word_of_nat (pad32 n) :: ULONG) = word_of_nat n + (32 - word_of_nat (n mod 32))"
      by (simp only: of_nat_add)
    then show ?thesis
      using False m z by (simp add: Align32_def Let_def)
  qed
qed

definition part_next :: "nat \<Rightarrow> byte list option \<Rightarrow> nat" where
  "part_next pos bs = (case bs of None \<Rightarrow> pos | Some b \<Rightarrow> pad32 (pos + length b))"

definition part_writes :: "nat \<Rightarrow> nat \<Rightarrow> byte list option \<Rightarrow> (nat \<times> byte list) list" where
  "part_writes field pos bs =
    (case bs of None \<Rightarrow> [(field, enc32 0)] | Some b \<Rightarrow> [(field, enc32 (word_of_nat pos)), (pos, b)])"

primrec groups_next :: "nat \<Rightarrow> (SID \<times> ULONG) list \<Rightarrow> nat" where
  "groups_next pos [] = pos"
| "groups_next pos (g # gs) = groups_next (part_next pos (Some (sid_bytes (fst g)))) gs"

primrec group_writes :: "nat \<Rightarrow> nat \<Rightarrow> (SID \<times> ULONG) list \<Rightarrow> (nat \<times> byte list) list" where
  "group_writes entry pos [] = []"
| "group_writes entry pos (g # gs) =
    (entry + 4, enc32 (snd g)) # part_writes entry pos (Some (sid_bytes (fst g)))
      @ group_writes (entry + 8) (part_next pos (Some (sid_bytes (fst g)))) gs"

lemma part_next_le: "pos \<le> part_next pos bs"
  using pad32_bounds[of "pos + length (the bs)"] by (auto simp: part_next_def split: option.split)

lemma part_writes_range:
  "w \<in> set (part_writes field pos bs) \<Longrightarrow>
    fst w = field \<and> length (snd w) = 4 \<or> pos \<le> fst w \<and> fst w + length (snd w) \<le> part_next pos bs"
  by (auto simp: part_writes_def part_next_def pad32_bounds split: option.splits)

lemma part_writes_apart: "field + 4 \<le> pos \<Longrightarrow> sorted_wrt apart (part_writes field pos bs)"
  by (auto simp: part_writes_def apart_def split: option.splits)

lemma groups_next_mono: "pos \<le> groups_next pos gs"
proof (induction gs arbitrary: pos)
  case (Cons g gs)
  show ?case
    using part_next_le[of pos "Some (sid_bytes (fst g))"] Cons.IH[of "part_next pos (Some (sid_bytes (fst g)))"] by simp
qed simp

lemma groups_next_le:
  "list_all (\<lambda>g. sid_valid (fst g)) gs \<Longrightarrow> pos + 8 * length gs \<le> groups_next pos gs"
proof (induction gs arbitrary: pos)
  case (Cons g gs)
  have "pos + 8 \<le> part_next pos (Some (sid_bytes (fst g)))"
    using pad32_bounds[of "pos + length (sid_bytes (fst g))"] Cons.prems by (simp add: part_next_def)
  then show ?case
    using Cons.IH[of "part_next pos (Some (sid_bytes (fst g)))"] Cons.prems by simp
qed simp

lemma group_writes_range:
  "w \<in> set (group_writes entry pos gs) \<Longrightarrow>
    entry \<le> fst w \<and> fst w + length (snd w) \<le> entry + 8 * length gs
  \<or> pos \<le> fst w \<and> fst w + length (snd w) \<le> groups_next pos gs"
proof (induction gs arbitrary: entry pos)
  case (Cons g gs)
  let ?q = "part_next pos (Some (sid_bytes (fst g)))"
  have q: "pos \<le> ?q" "?q \<le> groups_next ?q gs"
    using part_next_le groups_next_mono[of ?q gs] by auto
  consider "w = (entry + 4, enc32 (snd g))" | "w \<in> set (part_writes entry pos (Some (sid_bytes (fst g))))"
    | "w \<in> set (group_writes (entry + 8) ?q gs)"
    using Cons.prems by auto
  then show ?case
    using q part_writes_range[of w entry pos "Some (sid_bytes (fst g))"] Cons.IH[of "entry + 8" ?q]
    by cases auto
qed simp

lemma group_writes_apart: "entry + 8 * length gs \<le> pos \<Longrightarrow> sorted_wrt apart (group_writes entry pos gs)"
proof (induction gs arbitrary: entry pos)
  case (Cons g gs)
  let ?q = "part_next pos (Some (sid_bytes (fst g)))"
  let ?p = "part_writes entry pos (Some (sid_bytes (fst g)))" let ?r = "group_writes (entry + 8) ?q gs"
  have q: "pos \<le> ?q"
    by (rule part_next_le)
  have p: "fst v = entry \<and> length (snd v) = 4 \<or> pos \<le> fst v \<and> fst v + length (snd v) \<le> ?q" if "v \<in> set ?p" for v
    using part_writes_range[OF that] .
  have r: "entry + 8 \<le> fst v \<and> fst v + length (snd v) \<le> pos \<or> ?q \<le> fst v" if "v \<in> set ?r" for v
    using group_writes_range[OF that] Cons.prems by auto
  have "apart (entry + 4, enc32 (snd g)) v" if "v \<in> set ?p \<union> set ?r" for v
    using that p[of v] r[of v] q Cons.prems unfolding apart_def by auto
  moreover have "apart v w" if "v \<in> set ?p" "w \<in> set ?r" for v w
    using p[OF that(1)] r[OF that(2)] q Cons.prems unfolding apart_def by auto
  ultimately show ?case
    using Cons.IH[of "entry + 8" ?q] q Cons.prems part_writes_apart[of entry pos]
    by (simp add: sorted_wrt_append ball_Un)
qed simp

text \<open>The places of the parts: the user, the array of the groups, their identifiers, the privileges, the owner, the
  primary group, the list and the end.\<close>

definition groups_pos :: "TOKEN \<Rightarrow> nat" where
  "groups_pos T = part_next 64 (Some (sid_bytes (t_user T)))"

definition group_sids_pos :: "TOKEN \<Rightarrow> nat" where
  "group_sids_pos T = pad32 (groups_pos T + 8 * length (t_groups T))"

definition privs_pos :: "TOKEN \<Rightarrow> nat" where
  "privs_pos T = groups_next (group_sids_pos T) (t_groups T)"

definition owner_pos :: "TOKEN \<Rightarrow> nat" where
  "owner_pos T = pad32 (privs_pos T + 12 * length (t_privs T))"

definition primary_pos :: "TOKEN \<Rightarrow> nat" where
  "primary_pos T = part_next (owner_pos T) (map_option sid_bytes (t_owner T))"

definition dacl_pos :: "TOKEN \<Rightarrow> nat" where
  "dacl_pos T = part_next (primary_pos T) (map_option sid_bytes (t_primary T))"

definition relative_size :: "TOKEN \<Rightarrow> nat" where
  "relative_size T = part_next (dacl_pos T) (t_dacl T)"

lemma token_places:
  "64 + length (sid_bytes (t_user T)) \<le> groups_pos T" "groups_pos T + 8 * length (t_groups T) \<le> group_sids_pos T"
  "group_sids_pos T \<le> privs_pos T" "privs_pos T + 12 * length (t_privs T) \<le> owner_pos T"
  "owner_pos T \<le> primary_pos T" "primary_pos T \<le> dacl_pos T" "dacl_pos T \<le> relative_size T"
  using pad32_bounds[of "64 + length (sid_bytes (t_user T))"]
  by (simp_all add: groups_pos_def group_sids_pos_def privs_pos_def owner_pos_def primary_pos_def dacl_pos_def
      relative_size_def part_next_le groups_next_mono pad32_bounds part_next_def[of 64])

definition field_writes :: "TOKEN \<Rightarrow> (nat \<times> byte list) list" where
  "field_writes T = (let tok = token_image T in
     [(0, enc32 (tk_Flags tok)), (8, enc32 0), (12, enc32 (tk_GroupCount tok)), (20, enc32 (tk_PrivilegeCount tok)),
      (40, enc32 (tk_Uid tok)), (44, enc32 (tk_Gid tok)), (48, enc32 (tk_Umask tok))])"

definition array_writes :: "TOKEN \<Rightarrow> (nat \<times> byte list) list" where
  "array_writes T = (16, enc32 (word_of_nat (groups_pos T))) # group_writes (groups_pos T) (group_sids_pos T) (t_groups T)
     @ [(24, enc32 (word_of_nat (privs_pos T))), (privs_pos T, concat (map enc_priv (t_privs T)))]"

definition token_writes :: "TOKEN \<Rightarrow> (nat \<times> byte list) list" where
  "token_writes T = field_writes T @ part_writes 4 64 (Some (sid_bytes (t_user T))) @ array_writes T
     @ part_writes 28 (owner_pos T) (map_option sid_bytes (t_owner T))
     @ part_writes 32 (primary_pos T) (map_option sid_bytes (t_primary T)) @ part_writes 36 (dacl_pos T) (t_dacl T)"

lemma array_writes_range:
  "w \<in> set (array_writes T) \<Longrightarrow>
    fst w = 16 \<and> length (snd w) = 4 \<or> fst w = 24 \<and> length (snd w) = 4
  \<or> groups_pos T \<le> fst w \<and> fst w + length (snd w) \<le> owner_pos T"
  using group_writes_range[of w "groups_pos T" "group_sids_pos T" "t_groups T"] token_places[of T]
  by (auto simp: array_writes_def fpriv.array_length simp flip: privs_pos_def)

lemma array_writes_apart: "sorted_wrt apart (array_writes T)"
proof -
  let ?g = "group_writes (groups_pos T) (group_sids_pos T) (t_groups T)"
  note p = token_places[of T]
  have "64 \<le> fst w \<and> fst w + length (snd w) \<le> privs_pos T" if "w \<in> set ?g" for w
    using group_writes_range[OF that] p by (auto simp flip: privs_pos_def)
  then have "apart (16, enc32 v) w" "apart w (24, enc32 v)" "apart w (privs_pos T, v')" if "w \<in> set ?g" for v v' w
    using that by (fastforce simp: apart_def)+
  moreover have "apart (16, v) (privs_pos T, v')" "apart (24, v) (privs_pos T, v')" "apart (16, v) (24, v'')"
    if "length v = 4" for v v' v''
    using that p by (simp_all add: apart_def)
  ultimately show ?thesis
    using group_writes_apart[OF p(2)] by (simp add: array_writes_def sorted_wrt_append)
qed

lemma token_writes_range:
  assumes "w \<in> set (token_writes T)"
  shows "fst w + length (snd w) \<le> relative_size T"
proof -
  note p = token_places[of T]
  note r = part_writes_range[of w 28 "owner_pos T" "map_option sid_bytes (t_owner T)"]
    part_writes_range[of w 32 "primary_pos T" "map_option sid_bytes (t_primary T)"]
    part_writes_range[of w 36 "dacl_pos T" "t_dacl T"] part_writes_range[of w 4 64 "Some (sid_bytes (t_user T))"]
  have "64 \<le> relative_size T"
    using p by linarith
  consider "w \<in> set (field_writes T)" | "w \<in> set (part_writes 4 64 (Some (sid_bytes (t_user T))))" | "w \<in> set (array_writes T)"
    | "w \<in> set (part_writes 28 (owner_pos T) (map_option sid_bytes (t_owner T)))"
    | "w \<in> set (part_writes 32 (primary_pos T) (map_option sid_bytes (t_primary T)))"
    | "w \<in> set (part_writes 36 (dacl_pos T) (t_dacl T))"
    using assms by (auto simp: token_writes_def)
  then show ?thesis
  proof cases
    case 1
    then show ?thesis
      using \<open>64 \<le> relative_size T\<close> by (auto simp: field_writes_def Let_def)
  qed (use r array_writes_range[of w T] p \<open>64 \<le> relative_size T\<close> in
      \<open>auto simp flip: groups_pos_def primary_pos_def dacl_pos_def relative_size_def\<close>)
qed

text \<open>A write to a cell of the header at a place, or inside a part between two places.\<close>

definition in_part :: "nat set \<Rightarrow> nat \<Rightarrow> nat \<Rightarrow> nat \<times> byte list \<Rightarrow> bool" where
  "in_part cells lo hi w \<longleftrightarrow> fst w \<in> cells \<and> length (snd w) = 4 \<or> lo \<le> fst w \<and> fst w + length (snd w) \<le> hi"

lemma in_part_apart:
  assumes "in_part C lo hi v" and "in_part D lo' hi' w" and "\<forall>c\<in>C. \<forall>d\<in>D. c + 4 \<le> d \<or> d + 4 \<le> c"
    and "\<forall>c\<in>C \<union> D. c < 52" and "64 \<le> lo" and "hi \<le> lo'" and "64 \<le> lo'"
  shows "apart v w"
proof -
  consider "fst v \<in> C" "length (snd v) = 4" "fst w \<in> D" "length (snd w) = 4" | "fst v \<in> C" "length (snd v) = 4" "lo' \<le> fst w"
    | "lo \<le> fst v" "fst w \<in> D" "length (snd w) = 4" | "fst v + length (snd v) \<le> hi" "lo' \<le> fst w"
    using assms(1,2) unfolding in_part_def by blast
  then show ?thesis
  proof cases
    case 1
    then show ?thesis
      using assms(3) by (simp add: apart_def)
  next
    case 2
    moreover have "fst v < 52"
      using assms(4) 2(1) by blast
    ultimately show ?thesis
      using assms(7) by (simp add: apart_def)
  next
    case 3
    moreover have "fst w < 52"
      using assms(4) 3(2) by blast
    ultimately show ?thesis
      using assms(5) by (simp add: apart_def)
  next
    case 4
    then show ?thesis
      using assms(6) by (simp add: apart_def)
  qed
qed

lemma in_part_parts: "w \<in> set (part_writes field pos bs) \<Longrightarrow> in_part {field} pos (part_next pos bs) w"
  using part_writes_range[of w field pos bs] by (simp add: in_part_def)

lemma token_writes_apart: "sorted_wrt apart (token_writes T)"
proof -
  note p = token_places[of T]
  let ?u = "part_writes 4 64 (Some (sid_bytes (t_user T)))" let ?o = "part_writes 28 (owner_pos T) (map_option sid_bytes (t_owner T))"
  let ?p = "part_writes 32 (primary_pos T) (map_option sid_bytes (t_primary T))" let ?d = "part_writes 36 (dacl_pos T) (t_dacl T)"
  have le: "64 \<le> groups_pos T" "64 \<le> owner_pos T" "64 \<le> primary_pos T" "64 \<le> dacl_pos T" "groups_pos T \<le> owner_pos T"
    using p by linarith+
  have f: "in_part {0, 8, 12, 20, 40, 44, 48} 64 64 w" if "w \<in> set (field_writes T)" for w
    using that by (auto simp: in_part_def field_writes_def Let_def)
  have u: "in_part {4} 64 (groups_pos T) w" if "w \<in> set ?u" for w
    using in_part_parts[OF that] by (simp add: groups_pos_def)
  have a: "in_part {16, 24} (groups_pos T) (owner_pos T) w" if "w \<in> set (array_writes T)" for w
    using array_writes_range[OF that] by (auto simp: in_part_def)
  have q: "in_part {28} (owner_pos T) (primary_pos T) w" if "w \<in> set ?o" for w
    using in_part_parts[OF that] by (simp add: primary_pos_def)
  have r: "in_part {32} (primary_pos T) (dacl_pos T) w" if "w \<in> set ?p" for w
    using in_part_parts[OF that] by (simp add: dacl_pos_def)
  have d: "in_part {36} (dacl_pos T) (relative_size T) w" if "w \<in> set ?d" for w
    using in_part_parts[OF that] by (simp add: relative_size_def)
  note rules = in_part_apart[OF f u] in_part_apart[OF f a] in_part_apart[OF f q] in_part_apart[OF f r] in_part_apart[OF f d]
    in_part_apart[OF u a] in_part_apart[OF u q] in_part_apart[OF u r] in_part_apart[OF u d] in_part_apart[OF a q]
    in_part_apart[OF a r] in_part_apart[OF a d] in_part_apart[OF q r] in_part_apart[OF q d] in_part_apart[OF r d]
  have "sorted_wrt apart (field_writes T)"
    by (simp add: field_writes_def apart_def Let_def)
  then show ?thesis
    using le p(5,6) array_writes_apart[of T] part_writes_apart rules by (simp add: token_writes_def sorted_wrt_append ball_Un)
qed

section \<open>Encoding\<close>

lemma wr32_bind: "Option.bind (wr32 m off w) f = Option.bind (do_writes [(off, enc32 w)] m) f"
  by (simp add: wr32_def)

lemma image_length:
  assumes "sid_valid s"
  shows "RtlLengthSid (sid_bytes s) = Some (word_of_nat (length (sid_bytes s)))"
    and "unat (word_of_nat (length (sid_bytes s)) :: ULONG) = length (sid_bytes s)"
proof -
  show "RtlLengthSid (sid_bytes s) = Some (word_of_nat (length (sid_bytes s)))"
    using sid_arg_length[OF sid_arg_image[OF assms]] assms by (simp add: sid_length_def)
  show "unat (word_of_nat (length (sid_bytes s)) :: ULONG) = length (sid_bytes s)"
    using sid_valid_length[OF assms] assms by (intro unat_of_nat_small) (simp add: sid_length_def)
qed

lemma rel_sid_size_correct:
  "pred_option sid_valid s \<Longrightarrow>
    rel_sid_size (word_of_nat pos) (map_option sid_bytes s) = Some (word_of_nat (part_next pos (map_option sid_bytes s)))"
  by (cases s) (simp_all add: rel_sid_size_def part_next_def image_length(1) flip: of_nat_add Align32_correct)

lemma rel_copy_correct:
  assumes "pos < 2 ^ 32" and "unat len = length bs"
  shows "rel_copy m (word_of_nat pos) bs len =
    do { m \<leftarrow> do_writes [(pos, bs)] m; Some (m, word_of_nat (pad32 (pos + length bs))) }"
proof -
  have "unat (word_of_nat pos :: ULONG) = pos"
    using assms(1) by (intro unat_of_nat_small) simp
  moreover have "len = word_of_nat (length bs)"
    using assms(2) by (metis of_nat_unat ucast_id)
  ultimately show ?thesis
    using assms(2) by (simp add: rel_copy_def memcpy_def rdn_def flip: of_nat_add Align32_correct)
qed

lemma rel_sid_correct:
  assumes "pred_option sid_valid s" and "pos < 2 ^ 32"
  shows "rel_sid m field (word_of_nat pos) (map_option sid_bytes s) =
    do { m \<leftarrow> do_writes (part_writes field pos (map_option sid_bytes s)) m;
         Some (m, word_of_nat (part_next pos (map_option sid_bytes s))) }"
  using assms image_length[of "the s"]
  by (cases s) (simp_all add: rel_sid_def part_writes_def part_next_def wr32_bind rel_copy_correct bind_assoc del: of_nat_add)

lemma acl_arg_size:
  assumes "acl_arg (Some a) (Some a)"
  shows "\<exists>l. RtlGetAclSize a = Some l \<and> unat l = length a"
proof -
  obtain b where b: "acl_at a b" "a = take (unat (acl_size b)) a"
    using assms by (auto simp: acl_arg_def)
  then have "length a = unat (acl_size b)"
    using acl_at_copy(2)[OF b(1)] by (metis length_take min.absorb2)
  then show ?thesis
    using acl_at_copy(1)[OF b(1)] by (simp add: RtlGetAclSize_def)
qed

lemma rel_acl_correct:
  assumes "acl_arg d d" and "pos < 2 ^ 32"
  shows "rel_acl m field (word_of_nat pos) d =
    do { m \<leftarrow> do_writes (part_writes field pos d) m; Some (m, word_of_nat (part_next pos d)) }"
proof (cases d)
  case (Some a)
  then obtain l where "RtlGetAclSize a = Some l" "unat l = length a"
    using acl_arg_size assms(1) by blast
  then show ?thesis
    using Some assms(2) rel_copy_correct[of pos "ucast l" a] unsigned_less[of l, where 'a = nat]
    by (simp add: rel_acl_def part_writes_def part_next_def wr32_bind bind_assoc unsigned_ucast_eq take_bit_nat_eq_self
        del: of_nat_add)
qed (simp add: rel_acl_def part_writes_def part_next_def wr32_bind)

lemma rel_acl_size_correct:
  assumes "acl_arg d d"
  shows "rel_acl_size (word_of_nat pos) d = Some (word_of_nat (part_next pos d))"
proof (cases d)
  case (Some a)
  then obtain l where l: "RtlGetAclSize a = Some l" "unat l = length a"
    using acl_arg_size assms by blast
  then have "(ucast l :: ULONG) = word_of_nat (length a)"
    by (simp flip: l(2))
  then show ?thesis
    using Some l by (simp add: rel_acl_size_def part_next_def flip: of_nat_add Align32_correct)
qed (simp add: rel_acl_size_def part_next_def)

lemma rel_group_sizes_correct:
  "list_all (\<lambda>g. sid_valid (fst g)) gs \<Longrightarrow>
    rel_group_sizes (word_of_nat pos) (map (\<lambda>g. \<lparr> sa_Sid = sid_bytes (fst g), sa_Attributes = snd g \<rparr>) gs) (length gs) =
      Some (word_of_nat (groups_next pos gs))"
proof (induction gs arbitrary: pos)
  case (Cons g gs)
  then show ?case
    using rel_sid_size_correct[of "Some (fst g)" pos] by simp
qed simp

lemma rel_groups_correct:
  "list_all (\<lambda>g. sid_valid (fst g)) gs \<Longrightarrow> groups_next pos gs < 2 ^ 32 \<Longrightarrow>
    rel_groups m entry (word_of_nat pos) (map (\<lambda>g. \<lparr> sa_Sid = sid_bytes (fst g), sa_Attributes = snd g \<rparr>) gs) (length gs) =
      do { m \<leftarrow> do_writes (group_writes entry pos gs) m; Some (m, word_of_nat (groups_next pos gs)) }"
proof (induction gs arbitrary: m entry pos)
  case (Cons g gs)
  let ?q = "part_next pos (Some (sid_bytes (fst g)))"
  have "pos < 2 ^ 32"
    using Cons.prems(2) part_next_le[of pos "Some (sid_bytes (fst g))"] groups_next_mono[of ?q gs] by simp
  then have "rel_sid m entry (word_of_nat pos) (Some (sid_bytes (fst g))) =
      do { m \<leftarrow> do_writes (part_writes entry pos (Some (sid_bytes (fst g)))) m; Some (m, word_of_nat ?q) }" for m
    using rel_sid_correct[of "Some (fst g)" pos m entry] Cons.prems(1) by simp
  then show ?case
    using Cons.IH Cons.prems by (simp add: wr32_def do_writes_append bind_assoc)
qed simp

lemma RtlAccessTokenRelativeSize_correct:
  assumes "token_ok T"
  shows "RtlAccessTokenRelativeSize (token_image T) = Some (word_of_nat (relative_size T))"
proof -
  note ok = assms[unfolded token_ok_def]
  have u: "unat (word_of_nat (length (t_groups T)) :: ULONG) = length (t_groups T)"
    using ok by (intro unat_of_nat_small) simp
  have a: "Align32 52 = word_of_nat 64" "Align32 (word_of_nat p + 8 * word_of_nat n) = word_of_nat (pad32 (p + 8 * n))"
    "Align32 (word_of_nat p + 12 * word_of_nat n) = word_of_nat (pad32 (p + 12 * n))" for p n
    using Align32_correct[of 52] Align32_correct[of "p + 8 * n"] Align32_correct[of "p + 12 * n"] by (simp_all add: pad32_def)
  have 1: "rel_sid_size (word_of_nat 64) (Some (sid_bytes (t_user T))) = Some (word_of_nat (groups_pos T))"
    using rel_sid_size_correct[of "Some (t_user T)" 64] ok by (simp only: groups_pos_def) simp
  have 2: "rel_group_sizes (word_of_nat (group_sids_pos T)) (tk_Groups (token_image T)) (length (t_groups T)) =
      Some (word_of_nat (privs_pos T))"
    using rel_group_sizes_correct[of "t_groups T"] ok by (simp add: token_image_def privs_pos_def)
  have 3: "rel_sid_size (word_of_nat (owner_pos T)) (map_option sid_bytes (t_owner T)) = Some (word_of_nat (primary_pos T))"
    "rel_sid_size (word_of_nat (primary_pos T)) (map_option sid_bytes (t_primary T)) = Some (word_of_nat (dacl_pos T))"
    "rel_acl_size (word_of_nat (dacl_pos T)) (t_dacl T) = Some (word_of_nat (relative_size T))"
    using ok by (simp_all add: rel_sid_size_correct rel_acl_size_correct primary_pos_def dacl_pos_def relative_size_def)
  have f: "sa_Sid (tk_User (token_image T)) = sid_bytes (t_user T)" "tk_GroupCount (token_image T) = word_of_nat (length (t_groups T))"
    "tk_PrivilegeCount (token_image T) = word_of_nat (length (t_privs T))" "tk_Owner (token_image T) = map_option sid_bytes (t_owner T)"
    "tk_PrimaryGroup (token_image T) = map_option sid_bytes (t_primary T)" "tk_DefaultDacl (token_image T) = t_dacl T"
    by (simp_all add: token_image_def)
  show ?thesis
    unfolding RtlAccessTokenRelativeSize_def Let_def a f u 1 bind.bind_lunit
      group_sids_pos_def[symmetric] 2 owner_pos_def[symmetric] 3 ..
qed

lemma rel_fields_correct: "rel_fields m (token_image T) = do_writes (field_writes T) m"
  by (simp add: rel_fields_def field_writes_def wr32_def token_image_def Let_def)

lemma rel_parts_correct:
  assumes "token_ok T" and "relative_size T < 2 ^ 32"
  shows "rel_parts m (token_image T) =
    do { m \<leftarrow> do_writes (drop (length (field_writes T)) (token_writes T)) m; Some (m, word_of_nat (relative_size T)) }"
proof -
  note ok = assms(1)[unfolded token_ok_def]
  have lt: "groups_pos T < 2 ^ 32" "group_sids_pos T < 2 ^ 32" "privs_pos T < 2 ^ 32" "owner_pos T < 2 ^ 32" "primary_pos T < 2 ^ 32"
    "dacl_pos T < 2 ^ 32"
    using assms(2) token_places[of T] by linarith+
  have u: "unat (word_of_nat (length (t_groups T)) :: ULONG) = length (t_groups T)"
    "unat (word_of_nat (length (t_privs T)) :: ULONG) = length (t_privs T)"
    "unat (word_of_nat (groups_pos T) :: ULONG) = groups_pos T" "unat (word_of_nat (privs_pos T) :: ULONG) = privs_pos T"
    using ok lt by (auto intro!: unat_of_nat_small)
  have a: "Align32 52 = 64"
    "Align32 (word_of_nat (groups_pos T) + 8 * word_of_nat (length (t_groups T))) = word_of_nat (group_sids_pos T)"
    "Align32 (word_of_nat (privs_pos T) + 12 * word_of_nat (length (t_privs T))) = word_of_nat (owner_pos T)"
    using Align32_correct[of 52] Align32_correct[of "groups_pos T + 8 * length (t_groups T)"]
      Align32_correct[of "privs_pos T + 12 * length (t_privs T)"]
    by (simp_all add: group_sids_pos_def owner_pos_def) (simp add: pad32_def)
  have 1: "rel_sid m 4 64 (Some (sid_bytes (t_user T))) =
      do { m \<leftarrow> do_writes (part_writes 4 64 (Some (sid_bytes (t_user T)))) m; Some (m, word_of_nat (groups_pos T)) }" for m
    using rel_sid_correct[of "Some (t_user T)" 64 m 4] ok by (simp add: groups_pos_def)
  have 2: "rel_groups m e (word_of_nat (group_sids_pos T)) (tk_Groups (token_image T)) (length (t_groups T)) =
      do { m \<leftarrow> do_writes (group_writes e (group_sids_pos T) (t_groups T)) m; Some (m, word_of_nat (privs_pos T)) }" for m e
    using rel_groups_correct[of "t_groups T" "group_sids_pos T" m e] ok lt(3) by (simp add: token_image_def privs_pos_def)
  have 3: "memcpy m (privs_pos T) (tk_Privileges (token_image T)) 0 (12 * length (t_privs T)) =
      do_writes [(privs_pos T, concat (map enc_priv (t_privs T)))] m" for m
    by (simp add: memcpy_def rdn_def token_image_def fpriv.array_length)
  have 4: "rel_sid m 28 (word_of_nat (owner_pos T)) (map_option sid_bytes (t_owner T)) =
      do { m \<leftarrow> do_writes (part_writes 28 (owner_pos T) (map_option sid_bytes (t_owner T))) m; Some (m, word_of_nat (primary_pos T)) }"
    "rel_sid m 32 (word_of_nat (primary_pos T)) (map_option sid_bytes (t_primary T)) =
      do { m \<leftarrow> do_writes (part_writes 32 (primary_pos T) (map_option sid_bytes (t_primary T))) m; Some (m, word_of_nat (dacl_pos T)) }"
    "rel_acl m 36 (word_of_nat (dacl_pos T)) (t_dacl T) =
      do { m \<leftarrow> do_writes (part_writes 36 (dacl_pos T) (t_dacl T)) m; Some (m, word_of_nat (relative_size T)) }" for m
    using ok lt by (simp_all add: rel_sid_correct rel_acl_correct primary_pos_def dacl_pos_def relative_size_def)
  have f: "sa_Sid (tk_User (token_image T)) = sid_bytes (t_user T)" "tk_GroupCount (token_image T) = word_of_nat (length (t_groups T))"
    "tk_PrivilegeCount (token_image T) = word_of_nat (length (t_privs T))" "tk_Owner (token_image T) = map_option sid_bytes (t_owner T)"
    "tk_PrimaryGroup (token_image T) = map_option sid_bytes (t_primary T)" "tk_DefaultDacl (token_image T) = t_dacl T"
    by (simp_all add: token_image_def)
  show ?thesis
    by (simp add: rel_parts_def a f u 1 2 3 4 wr32_def token_writes_def array_writes_def do_writes_append bind_assoc
        del: of_nat_add)
qed

text \<open>What encoding leaves: every part at its place.\<close>

lemma RtlAccessTokenToSelfRelativeAccessToken_correct:
  assumes "token_ok T" and "relative_size T < 2 ^ 32" and "relative_size T \<le> length m"
  shows "\<exists>m'. RtlAccessTokenToSelfRelativeAccessToken (token_image T) (Some m) ulSize =
      Some (if relative_size T \<le> unat ulSize then STATUS_SUCCESS else STATUS_BUFFER_TOO_SMALL,
        Some (if relative_size T \<le> unat ulSize then m' else m), word_of_nat (relative_size T))
    \<and> length m' = length m \<and> reads_back m' (token_writes T)"
proof -
  let ?f = "field_writes T" let ?r = "drop (length (field_writes T)) (token_writes T)"
  have w: "token_writes T = ?f @ ?r"
    by (simp add: token_writes_def)
  obtain m' where m': "do_writes (token_writes T) m = Some m'" "length m' = length m" "reads_back m' (token_writes T)"
    using do_writes_correct[OF token_writes_apart[of T], of m] order_trans[OF token_writes_range assms(3)] by auto
  obtain m1 where "do_writes ?f m = Some m1" "do_writes ?r m1 = Some m'"
    using m'(1) do_writes_append[of ?f ?r m] w by (cases "do_writes ?f m") simp_all
  moreover have "(ulSize < word_of_nat (relative_size T)) \<longleftrightarrow> \<not> relative_size T \<le> unat ulSize"
    using assms(2) unat_of_nat_small[of "relative_size T", where 'a = 32] by (simp add: word_less_nat_alt not_le)
  ultimately show ?thesis
    using m'(2,3) RtlAccessTokenRelativeSize_correct[OF assms(1)] rel_parts_correct[OF assms(1,2)]
    by (intro exI[of _ m']) (simp add: RtlAccessTokenToSelfRelativeAccessToken_def rel_fields_correct)
qed

section \<open>Decoding\<close>

lemma CheckOffset_inside:
  assumes "off + n \<le> z" and "z < 2 ^ 32"
  shows "CheckOffset (word_of_nat off) (word_of_nat n) (word_of_nat z) = STATUS_SUCCESS"
proof -
  have "(word_of_nat z - word_of_nat off :: ULONG) = word_of_nat (z - off)"
    using assms(1) by (subst of_nat_diff) simp_all
  moreover have "unat (word_of_nat (z - off) :: ULONG) = z - off"
    by (rule unat_of_nat_small) (use assms in simp)
  moreover have "unat (word_of_nat n :: ULONG) = n"
    by (rule unat_of_nat_small) (use assms in simp)
  ultimately show ?thesis
    using assms(1) by (simp add: CheckOffset_def word_less_nat_alt del: of_nat_diff)
qed

lemma sid_at_offset_correct:
  assumes "reads_back m ws" and "(pos, sid_bytes s) \<in> set ws" and "sid_valid s"
    and "pos + length (sid_bytes s) \<le> z" and "z < 2 ^ 32"
  shows "sid_at_offset m (word_of_nat pos) (word_of_nat z) = Some (STATUS_SUCCESS, Some (drop pos m))"
    and "sid_arg (Some (drop pos m)) (Some s)"
proof -
  have r: "rdn m pos (length (sid_bytes s)) = Some (sid_bytes s)"
    using assms(1,2) by (auto simp: reads_back_def)
  then have d: "take (length (sid_bytes s)) (drop pos m) = sid_bytes s" "pos \<le> length m"
    by (auto simp: rdn_Some_iff)
  then have "drop pos m = sid_bytes s @ drop (length (sid_bytes s)) (drop pos m)"
    by (metis append_take_drop_id)
  then have "sid_of (drop pos m) = Some s"
    using assms(3) sid_of_iff sid_valid_wf by blast
  then show a: "sid_arg (Some (drop pos m)) (Some s)"
    using assms(3) by (simp add: sid_arg_def)
  have "unat (word_of_nat pos :: ULONG) = pos"
    using assms(4,5) by (intro unat_of_nat_small) simp
  moreover have "sid_length s = length (sid_bytes s)"
    using assms(3) by (simp add: sid_length_def)
  moreover have "CheckOffset (word_of_nat pos) 8 (word_of_nat z) = STATUS_SUCCESS"
    using CheckOffset_inside[of pos 8 z] assms(3-5) by simp
  ultimately show "sid_at_offset m (word_of_nat pos) (word_of_nat z) = Some (STATUS_SUCCESS, Some (drop pos m))"
    using d(2) sid_arg_length[OF a] CheckOffset_inside[OF assms(4,5)]
    by (simp add: sid_at_offset_def RtlValidateSelfRelativeSid_def ptr_add_def)
qed

lemma read_groups_correct:
  assumes "reads_back m ws" and "z < 2 ^ 32"
  shows "set (group_writes entry pos gs) \<subseteq> set ws \<Longrightarrow> list_all (\<lambda>g. sid_valid (fst g)) gs \<Longrightarrow> groups_next pos gs \<le> z \<Longrightarrow>
    \<exists>ms. read_groups m (word_of_nat z) entry (length gs) = Some (STATUS_SUCCESS, ms)
      \<and> list_all2 (\<lambda>(m, a) (s, a'). sid_arg m (Some s) \<and> a = a') ms gs"
proof (induction gs arbitrary: entry pos)
  case (Cons g gs)
  let ?q = "part_next pos (Some (sid_bytes (fst g)))"
  have w: "(entry + 4, enc32 (snd g)) \<in> set ws" "(entry, enc32 (word_of_nat pos)) \<in> set ws" "(pos, sid_bytes (fst g)) \<in> set ws"
    and v: "sid_valid (fst g)"
    using Cons.prems by (auto simp: part_writes_def)
  have "pos + length (sid_bytes (fst g)) \<le> z"
    using Cons.prems(3) groups_next_mono[of ?q gs] pad32_bounds[of "pos + length (sid_bytes (fst g))"] by (simp add: part_next_def)
  note s = sid_at_offset_correct[OF assms(1) w(3) v this assms(2)]
  obtain ms where "read_groups m (word_of_nat z) (entry + 8) (length gs) = Some (STATUS_SUCCESS, ms)"
    "list_all2 (\<lambda>(m, a) (s, a'). sid_arg m (Some s) \<and> a = a') ms gs"
    using Cons.IH[of "entry + 8" ?q] Cons.prems by auto
  then show ?case
    using s reads_back_word[OF assms(1) w(1)] reads_back_word[OF assms(1) w(2)] by (cases g) simp
qed simp

lemma array_sizes_correct:
  assumes "a * n < 2 ^ 32" and "b * n + h < 2 ^ 32" and "0 < a" and "0 < b"
  shows "array_sizes (word_of_nat a) (word_of_nat b) (word_of_nat h) (word_of_nat n) =
    (STATUS_SUCCESS, word_of_nat (a * n), word_of_nat (b * n + h))"
proof (cases "n = 0")
  case True
  then show ?thesis
    using assms(2) add_sizes_to[of 0 h] mul_sizes_to[of "unat (word_of_nat a :: ULONG)" 0] mul_sizes_to[of "unat (word_of_nat b :: ULONG)" 0]
    by (simp add: array_sizes_def LwRtlSafeMultiplyULONG_def sizes_to_def)
next
  case False
  have "a \<le> a * n" "b \<le> b * n" "n \<le> a * n"
    using False assms(3) by simp_all
  then have "a < 2 ^ 32" "b < 2 ^ 32" "n < 2 ^ 32" "b * n < 2 ^ 32"
    using assms(1,2) by linarith+
  then show ?thesis
    using assms mul_sizes_to[of a n] mul_sizes_to[of b n] add_sizes_to[of "b * n" h]
    by (simp add: array_sizes_def sizes_to_def del: of_nat_mult of_nat_add)
qed

lemma rel_token_sid_correct:
  assumes "reads_back m ws" and "set (part_writes field pos (map_option sid_bytes s)) \<subseteq> set ws" and "pred_option sid_valid s"
    and "part_next pos (map_option sid_bytes s) \<le> z" and "z < 2 ^ 32" and "0 < pos"
  shows "\<exists>x. rel_token_sid m field (word_of_nat z) = Some (STATUS_SUCCESS, x) \<and> sid_arg x s"
proof (cases s)
  case None
  then show ?thesis
    using assms(2) reads_back_word[OF assms(1)] by (simp add: part_writes_def rel_token_sid_def sid_arg_def)
next
  case (Some t)
  have "pos + length (sid_bytes t) \<le> z"
    using assms(4) Some pad32_bounds[of "pos + length (sid_bytes t)"] by (simp add: part_next_def)
  moreover have "(field, enc32 (word_of_nat pos)) \<in> set ws" "(pos, sid_bytes t) \<in> set ws" "sid_valid t"
    using assms(2,3) Some by (simp_all add: part_writes_def)
  moreover have "unat (word_of_nat pos :: ULONG) = pos"
    using assms(5) calculation(1) by (intro unat_of_nat_small) simp
  then have "(word_of_nat pos :: ULONG) \<noteq> 0"
    using assms(6) by (intro notI) simp
  ultimately show ?thesis
    using sid_at_offset_correct[OF assms(1), of pos t z] reads_back_word[OF assms(1)] Some assms(5)
    by (simp add: rel_token_sid_def)
qed

lemma rel_token_groups_correct:
  assumes "token_ok T" and "reads_back m (token_writes T)" and "relative_size T < 2 ^ 32"
  shows "\<exists>groups. rel_token_groups avail m (word_of_nat (relative_size T)) =
      Some (if avail (16 * length (t_groups T) + 8) then (STATUS_SUCCESS, Some groups) else (STATUS_INSUFFICIENT_RESOURCES, None))
    \<and> groups_at groups (t_groups T)"
proof -
  let ?n = "length (t_groups T)" let ?g = "groups_pos T"
  note p = token_places[of T]
  note ok = assms(1)[unfolded token_ok_def]
  have "group_sids_pos T + 8 * ?n \<le> privs_pos T"
    using groups_next_le[of "t_groups T" "group_sids_pos T"] ok by (simp add: privs_pos_def)
  then have lt: "16 * ?n + 8 < 2 ^ 32" "?g + 8 * ?n \<le> relative_size T" "privs_pos T \<le> relative_size T" "0 < ?g" "?g < 2 ^ 32"
    using p assms(3) by linarith+
  have w: "(16, enc32 (word_of_nat ?g)) \<in> set (token_writes T)" "(12, enc32 (word_of_nat ?n)) \<in> set (token_writes T)"
    "set (group_writes ?g (group_sids_pos T) (t_groups T)) \<subseteq> set (token_writes T)"
    by (auto simp: token_writes_def array_writes_def field_writes_def token_image_def Let_def)
  have sz: "array_sizes 8 16 8 (word_of_nat ?n) = (STATUS_SUCCESS, word_of_nat (8 * ?n), word_of_nat (16 * ?n + 8))"
    using array_sizes_correct[of 8 ?n 16 8] lt(1) by simp
  have u: "unat (word_of_nat (16 * ?n + 8) :: ULONG) = 16 * ?n + 8" "unat (word_of_nat ?n :: ULONG) = ?n"
    "unat (word_of_nat ?g :: ULONG) = ?g"
    using lt(1,5) by (auto intro!: unat_of_nat_small simp del: of_nat_add of_nat_mult)
  have "(word_of_nat ?g :: ULONG) \<noteq> 0"
    using u(3) lt(4) by (intro notI) simp
  moreover obtain ms where "read_groups m (word_of_nat (relative_size T)) ?g ?n = Some (STATUS_SUCCESS, ms)"
    "list_all2 (\<lambda>(m, a) (s, a'). sid_arg m (Some s) \<and> a = a') ms (t_groups T)"
    using read_groups_correct[OF assms(2,3) w(3)] ok lt(3) by (auto simp: privs_pos_def)
  moreover have "CheckOffset (word_of_nat ?g) (word_of_nat (8 * ?n)) (word_of_nat (relative_size T)) = STATUS_SUCCESS"
    by (rule CheckOffset_inside[OF lt(2) assms(3)])
  ultimately show ?thesis
    using reads_back_word[OF assms(2) w(1)] reads_back_word[OF assms(2) w(2)] sz u
    by (intro exI[of _ "\<lparr> tg_GroupCount = word_of_nat ?n, tg_Groups = ms \<rparr>"])
      (simp add: rel_token_groups_def RTL_ALLOCATE_cases groups_at_def del: of_nat_add of_nat_mult)
qed

lemma rel_token_privileges_correct:
  assumes "token_ok T" and "reads_back m (token_writes T)" and "relative_size T < 2 ^ 32"
  shows "rel_token_privileges avail m (word_of_nat (relative_size T)) =
      Some (if avail (12 * length (t_privs T) + 4) then (STATUS_SUCCESS, Some (tp_bytes (t_privs T)))
        else (STATUS_INSUFFICIENT_RESOURCES, None))"
proof -
  let ?n = "length (t_privs T)" let ?g = "privs_pos T" let ?b = "concat (map enc_priv (t_privs T))"
  note p = token_places[of T]
  have lt: "12 * ?n + 4 < 2 ^ 32" "?g + 12 * ?n \<le> relative_size T" "0 < ?g" "?g < 2 ^ 32"
    using p assms(3) by linarith+
  have w: "(24, enc32 (word_of_nat ?g)) \<in> set (token_writes T)" "(20, enc32 (word_of_nat ?n)) \<in> set (token_writes T)"
    "(?g, ?b) \<in> set (token_writes T)"
    by (auto simp: token_writes_def array_writes_def field_writes_def token_image_def Let_def)
  have sz: "array_sizes 12 12 4 (word_of_nat ?n) = (STATUS_SUCCESS, word_of_nat (12 * ?n), word_of_nat (12 * ?n + 4))"
    using array_sizes_correct[of 12 ?n 12 4] lt(1) by simp
  have u: "unat (word_of_nat (12 * ?n + 4) :: ULONG) = 12 * ?n + 4" "unat (word_of_nat ?n :: ULONG) = ?n"
    "unat (word_of_nat ?g :: ULONG) = ?g"
    using lt(1,4) by (auto intro!: unat_of_nat_small simp del: of_nat_add of_nat_mult)
  have "(word_of_nat ?g :: ULONG) \<noteq> 0"
    using u(3) lt(3) by (intro notI) simp
  moreover have "rdn m ?g (12 * ?n) = Some ?b"
    using assms(2) w(3) by (auto simp: reads_back_def fpriv.array_length)
  moreover have "wr32 (replicate (12 * ?n + 4) 0) 0 (word_of_nat ?n) = Some (enc32 (word_of_nat ?n) @ replicate (12 * ?n) 0)"
    by (simp add: wr32_def wrn_def)
  moreover have "wrn (enc32 (word_of_nat ?n) @ replicate (12 * ?n) 0) 4 ?b = Some (tp_bytes (t_privs T))"
    by (simp add: wrn_def tp_bytes_def fpriv.array_length)
  moreover have "CheckOffset (word_of_nat ?g) (word_of_nat (12 * ?n)) (word_of_nat (relative_size T)) = STATUS_SUCCESS"
    by (rule CheckOffset_inside[OF lt(2) assms(3)])
  ultimately show ?thesis
    using reads_back_word[OF assms(2) w(1)] reads_back_word[OF assms(2) w(2)] sz u
    by (simp add: rel_token_privileges_def RTL_ALLOCATE_cases memcpy_def del: of_nat_add of_nat_mult)
qed

definition without_dacl :: "TOKEN \<Rightarrow> TOKEN" where
  "without_dacl T = T\<lparr> t_dacl := None \<rparr>"

text \<open>The outcome of rebuilding the token: the two arrays are allocated, then the token.\<close>

definition rebuilt :: "(nat \<Rightarrow> bool) \<Rightarrow> ULONG \<Rightarrow> TOKEN \<Rightarrow> NTSTATUS \<times> ACCESS_TOKEN option" where
  "rebuilt avail tokenSize T =
    (if \<not> avail (16 * length (t_groups T) + 8) \<or> \<not> avail (12 * length (t_privs T) + 4) then (STATUS_INSUFFICIENT_RESOURCES, None)
     else if 2 ^ 32 \<le> unat tokenSize + token_data_size T then (STATUS_INTEGER_OVERFLOW, None)
     else if avail (unat tokenSize + token_data_size T) then (STATUS_SUCCESS, Some (token_image T))
     else (STATUS_INSUFFICIENT_RESOURCES, None))"

lemma unix_correct:
  assumes "reads_back m (token_writes T)"
  shows "rd32 m 0 = Some (tk_Flags (token_image T))" "rd32 m 40 = Some (tk_Uid (token_image T))"
    "rd32 m 44 = Some (tk_Gid (token_image T))" "rd32 m 48 = Some (tk_Umask (token_image T))" "rd32 m 8 = Some 0"
  by (auto intro!: reads_back_word[OF assms] simp: token_writes_def field_writes_def Let_def)

lemma RtlSelfRelativeAccessTokenToAccessToken_correct:
  assumes "token_ok T" and "reads_back m (token_writes T)" and "relative_size T < 2 ^ 32" and "0 < tokenSize"
  shows "RtlSelfRelativeAccessTokenToAccessToken avail tokenSize None m (word_of_nat (relative_size T)) =
    Some (rebuilt avail tokenSize (without_dacl T))"
proof -
  let ?z = "word_of_nat (relative_size T) :: ULONG"
  note p = token_places[of T]
  note ok = assms(1)[unfolded token_ok_def]
  have le: "52 \<le> relative_size T" "64 + length (sid_bytes (t_user T)) \<le> relative_size T" "0 < owner_pos T" "0 < primary_pos T"
    "primary_pos T \<le> relative_size T"
    using p by linarith+
  have hd: "CheckOffset 0 52 ?z = STATUS_SUCCESS"
    using CheckOffset_inside[of 0 52 "relative_size T"] le(1) assms(3) by simp
  have "(4, enc32 64) \<in> set (token_writes T)" "(64, sid_bytes (t_user T)) \<in> set (token_writes T)"
    by (simp_all add: token_writes_def part_writes_def)
  note user = reads_back_word[OF assms(2) this(1)] sid_at_offset_correct[OF assms(2) this(2) _ le(2) assms(3)]
  obtain groups where groups: "rel_token_groups avail m ?z =
      Some (if avail (16 * length (t_groups T) + 8) then (STATUS_SUCCESS, Some groups) else (STATUS_INSUFFICIENT_RESOURCES, None))"
    "groups_at groups (t_groups T)"
    using rel_token_groups_correct[OF assms(1-3)] by blast
  note privs = rel_token_privileges_correct[OF assms(1-3), of avail]
  obtain owner where owner: "rel_token_sid m 28 ?z = Some (STATUS_SUCCESS, owner)" "sid_arg owner (t_owner T)"
    using rel_token_sid_correct[OF assms(2), of 28 "owner_pos T" "t_owner T" "relative_size T"] ok le assms(3)
    by (auto simp: token_writes_def simp flip: primary_pos_def)
  obtain primary where primary: "rel_token_sid m 32 ?z = Some (STATUS_SUCCESS, primary)" "sid_arg primary (t_primary T)"
    using rel_token_sid_correct[OF assms(2), of 32 "primary_pos T" "t_primary T" "relative_size T"] ok le p(7) assms(3)
    by (auto simp: token_writes_def simp flip: dacl_pos_def)
  have args: "token_args (without_dacl T) (drop 64 m) groups (tp_bytes (t_privs T)) owner primary None (t_unix T)"
    using user(3) groups(2) owner(2) primary(2) ok by (simp add: token_args_def without_dacl_def acl_arg_def)
  have x: "\<lparr> tu_Uid = tu_Uid x, tu_Gid = tu_Gid x, tu_Umask = tu_Umask x \<rparr> = x" for x :: TOKEN_UNIX
    by (cases x) simp
  show ?thesis
    using hd user groups(1) privs owner(1) primary(1) ok unix_correct[OF assms(2)] RtlCreateAccessToken_correct[OF args assms(4), of avail]
    by (cases "t_unix T")
      (simp_all add: RtlSelfRelativeAccessTokenToAccessToken_def rebuilt_def token_image_def without_dacl_def x)
qed

section \<open>Properties\<close>

text \<open>C18. A token goes through its self-relative form: the size asked for is the size of the form, a buffer of that size
  is accepted and a smaller one refused untouched, and rebuilding the token from the written buffer gives the same
  token, but for the default list, which is lost; the rebuilding fails only when memory or 32 bits do not suffice.\<close>

theorem token_relative_roundtrip:
  assumes "token_ok T" and "relative_size T < 2 ^ 32" and "relative_size T \<le> length m" and "0 < tokenSize"
  shows "RtlAccessTokenToSelfRelativeAccessToken (token_image T) None ulSize = Some (STATUS_SUCCESS, None, word_of_nat (relative_size T))
    \<and> (\<exists>m'. RtlAccessTokenToSelfRelativeAccessToken (token_image T) (Some m) ulSize =
        Some (if relative_size T \<le> unat ulSize then STATUS_SUCCESS else STATUS_BUFFER_TOO_SMALL,
          Some (if relative_size T \<le> unat ulSize then m' else m), word_of_nat (relative_size T))
      \<and> RtlSelfRelativeAccessTokenToAccessToken avail tokenSize None m' (word_of_nat (relative_size T)) =
        Some (rebuilt avail tokenSize (without_dacl T)))"
  using RtlAccessTokenToSelfRelativeAccessToken_correct[OF assms(1-3), of ulSize] RtlAccessTokenRelativeSize_correct[OF assms(1)]
    RtlSelfRelativeAccessTokenToAccessToken_correct[OF assms(1) _ assms(2,4)]
  by (auto simp: RtlAccessTokenToSelfRelativeAccessToken_def)

theorem token_relative_roundtrip_witness:
  "RtlAccessTokenToSelfRelativeAccessToken (token_image sample_T) None 0 = Some (STATUS_SUCCESS, None, 224)
    \<and> (\<exists>m'. RtlAccessTokenToSelfRelativeAccessToken (token_image sample_T) (Some (replicate 224 0)) 224 = Some (STATUS_SUCCESS, Some m', 224)
      \<and> RtlSelfRelativeAccessTokenToAccessToken (\<lambda>n. n \<le> 4096) 152 None m' 224 = Some (STATUS_SUCCESS, Some (token_image sample_T)))"
proof -
  have s: "relative_size sample_T = 224" "without_dacl sample_T = sample_T"
    by (simp_all add: relative_size_def dacl_pos_def primary_pos_def owner_pos_def privs_pos_def group_sids_pos_def groups_pos_def
        part_next_def pad32_def sample_T_def sample_privs_def sid_eval without_dacl_def)
  have "rebuilt (\<lambda>n. n \<le> 4096) 152 sample_T = (STATUS_SUCCESS, Some (token_image sample_T))"
    by (simp add: rebuilt_def sample_T_size) (simp add: sample_T_def sample_privs_def)
  then show ?thesis
    using token_relative_roundtrip[OF token_args_ok[OF sample_T_args], of "replicate 224 0" 152 0 "\<lambda>n. n \<le> 4096"]
      token_relative_roundtrip[OF token_args_ok[OF sample_T_args], of "replicate 224 0" 152 224 "\<lambda>n. n \<le> 4096"]
    by (simp add: s)
qed

text \<open>The check of an offset subtracts before it compares, so an offset behind the end of the buffer passes: a buffer
  whose user offset is larger than its length is read outside.\<close>

lemma token_offset_unchecked:
  assumes "52 \<le> length m" and "length m < 2 ^ 32" and "rd32 m 4 = Some off" and "length m < unat off"
  shows "RtlSelfRelativeAccessTokenToAccessToken avail tokenSize lockFailure m (word_of_nat (length m)) = None"
proof -
  let ?n = "word_of_nat (length m) :: ULONG"
  have n: "unat ?n = length m"
    using assms(2) by (intro unat_of_nat_small) simp
  have "unat off < 2 ^ 32"
    using unsigned_less[of off, where 'a = nat] by simp
  then have "unat (?n - off) = 2 ^ 32 + length m - unat off"
    using assms(4) n by (simp add: unat_sub_if')
  then have "CheckOffset off 8 ?n = STATUS_SUCCESS"
    using assms(1) \<open>unat off < 2 ^ 32\<close> by (simp add: CheckOffset_def word_less_nat_alt)
  then have "sid_at_offset m off ?n = None"
    using assms(4) by (simp add: sid_at_offset_def RtlValidateSelfRelativeSid_def ptr_add_def)
  moreover have "CheckOffset 0 52 ?n = STATUS_SUCCESS"
    using CheckOffset_inside[of 0 52 "length m"] assms(1,2) by simp
  ultimately show ?thesis
    using assms(3) by (simp add: RtlSelfRelativeAccessTokenToAccessToken_def split: Option.bind_splits)
qed

end
