(* ===== verification/Lw_Hash.thy ===== *)
theory Lw_Hash
  imports Rtl_Base
begin

text \<open>
  The hash table of \<^verbatim>\<open>hash.c\<close>.  Nodes live in a store that maps addresses to nodes; a node is embedded in a structure
  of the client, here its \<^verbatim>\<open>container\<close>, from which the client's callback takes the key.  The callbacks are fields of
  the table, as in the source, already applied to the user data, which the table only passes on.  A pointer to a pointer
  to a node is a \<^verbatim>\<open>LINK\<close>: a bucket or the successor field of a node.  \<^term>\<open>None\<close> is undefined behaviour, which includes
  a chain that never ends.
\<close>

section \<open>Operations\<close>

record 'u LW_HASHTABLE_NODE =
  pNext :: "nat option"
  ulDigest :: ULONG
  container :: 'u

type_synonym 'u node_store = "nat \<Rightarrow> 'u LW_HASHTABLE_NODE option"

record ('u, 'k) LW_HASHTABLE =
  ht_ulSize :: ULONG
  ht_ulThreshold :: ULONG
  ht_ulCount :: ULONG
  ht_ppBuckets :: "nat option list"
  pfnGetKey :: "'u \<Rightarrow> 'k"
  pfnDigest :: "'k \<Rightarrow> ULONG"
  pfnEqual :: "'k \<Rightarrow> 'k \<Rightarrow> bool"

record LW_HASHTABLE_ITER =
  it_pNext :: "nat option"
  it_ulIndex :: ULONG

datatype LINK = Bucket nat | NextOf nat

fun read_link :: "('u, 'k) LW_HASHTABLE \<Rightarrow> 'u node_store \<Rightarrow> LINK \<Rightarrow> nat option option" where
  "read_link t h (Bucket i) = (if i < length (ht_ppBuckets t) then Some (ht_ppBuckets t ! i) else None)"
| "read_link t h (NextOf n) = map_option pNext (h n)"

fun write_link ::
    "('u, 'k) LW_HASHTABLE \<Rightarrow> 'u node_store \<Rightarrow> LINK \<Rightarrow> nat option \<Rightarrow> (('u, 'k) LW_HASHTABLE \<times> 'u node_store) option" where
  "write_link t h (Bucket i) p =
    (if i < length (ht_ppBuckets t) then Some (t\<lparr>ht_ppBuckets := (ht_ppBuckets t)[i := p]\<rparr>, h) else None)"
| "write_link t h (NextOf n) p = map_option (\<lambda>nd. (t, h(n \<mapsto> nd\<lparr>pNext := p\<rparr>))) (h n)"

definition RESIZE_THRESHOLD :: "ULONG \<Rightarrow> ULONG" where
  "RESIZE_THRESHOLD ulSize = ucast ((ucast ulSize :: 64 word) * 80 div 100)"

text \<open>The bucket of a digest; a table of size zero divides by zero.\<close>

definition bucket_link :: "('u, 'k) LW_HASHTABLE \<Rightarrow> ULONG \<Rightarrow> LINK option" where
  "bucket_link t d = (if ht_ulSize t = 0 then None else Some (Bucket (unat (d mod ht_ulSize t))))"

partial_function (option) lookup_loop ::
    "('u, 'k) LW_HASHTABLE \<Rightarrow> 'u node_store \<Rightarrow> 'k \<Rightarrow> ULONG \<Rightarrow> LINK \<Rightarrow> (NTSTATUS \<times> LINK) option" where
  "lookup_loop t h pKey d ppNode = do {
     p \<leftarrow> read_link t h ppNode;
     case p of
       None \<Rightarrow> Some (STATUS_NOT_FOUND, ppNode)
     | Some pNode \<Rightarrow> do {
         nd \<leftarrow> h pNode;
         if ulDigest nd = d \<and> pfnEqual t pKey (pfnGetKey t (container nd)) then Some (STATUS_SUCCESS, ppNode)
         else lookup_loop t h pKey d (NextOf pNode)
       }
   }"

definition HashLookup ::
    "('u, 'k) LW_HASHTABLE \<Rightarrow> 'u node_store \<Rightarrow> 'k \<Rightarrow> ULONG \<Rightarrow> (NTSTATUS \<times> LINK) option" where
  "HashLookup t h pKey d = do { l \<leftarrow> bucket_link t d; lookup_loop t h pKey d l }"

partial_function (option) locate_loop ::
    "('u, 'k) LW_HASHTABLE \<Rightarrow> 'u node_store \<Rightarrow> nat \<Rightarrow> LINK \<Rightarrow> (NTSTATUS \<times> LINK option) option" where
  "locate_loop t h pNode ppNode = do {
     p \<leftarrow> read_link t h ppNode;
     case p of
       None \<Rightarrow> Some (STATUS_NOT_FOUND, None)
     | Some q \<Rightarrow> if q = pNode then Some (STATUS_SUCCESS, Some ppNode) else locate_loop t h pNode (NextOf q)
   }"

definition HashLocate :: "('u, 'k) LW_HASHTABLE \<Rightarrow> 'u node_store \<Rightarrow> nat \<Rightarrow> (NTSTATUS \<times> LINK option) option" where
  "HashLocate t h pNode = do { nd \<leftarrow> h pNode; l \<leftarrow> bucket_link t (ulDigest nd); locate_loop t h pNode l }"

text \<open>The callbacks may be NULL pointers; the structure has 56 bytes and a bucket 8.\<close>

definition LwRtlCreateHashTable ::
    "(nat \<Rightarrow> bool) \<Rightarrow> ('u \<Rightarrow> 'k) option \<Rightarrow> ('k \<Rightarrow> ULONG) option \<Rightarrow> ('k \<Rightarrow> 'k \<Rightarrow> bool) option \<Rightarrow> ULONG \<Rightarrow>
     NTSTATUS \<times> ('u, 'k) LW_HASHTABLE option" where
  "LwRtlCreateHashTable avail getKey digest equal ulSize =
    (case (getKey, digest, equal) of
       (Some getKey, Some digest, Some equal) \<Rightarrow>
         if ulSize < 1 then (STATUS_INVALID_PARAMETER, None)
         else if fst (RTL_ALLOCATE avail 56) \<noteq> STATUS_SUCCESS then (fst (RTL_ALLOCATE avail 56), None)
         else if fst (RTL_ALLOCATE avail (8 * unat ulSize)) \<noteq> STATUS_SUCCESS
         then (fst (RTL_ALLOCATE avail (8 * unat ulSize)), None)
         else (STATUS_SUCCESS,
           Some \<lparr> ht_ulSize = ulSize, ht_ulThreshold = RESIZE_THRESHOLD ulSize, ht_ulCount = 0,
             ht_ppBuckets = replicate (unat ulSize) None, pfnGetKey = getKey, pfnDigest = digest, pfnEqual = equal \<rparr>)
     | _ \<Rightarrow> (STATUS_INVALID_PARAMETER, None))"

text \<open>The third result is what is stored through \<^verbatim>\<open>ppPrevNode\<close>, if anything.\<close>

definition LwRtlHashTableInsert ::
    "('u, 'k) LW_HASHTABLE \<Rightarrow> 'u node_store \<Rightarrow> nat \<Rightarrow> (('u, 'k) LW_HASHTABLE \<times> 'u node_store \<times> nat option) option" where
  "LwRtlHashTableInsert t h pNode = do {
     nd \<leftarrow> h pNode;
     let pKey = pfnGetKey t (container nd);
     let h = h(pNode \<mapsto> nd\<lparr>ulDigest := pfnDigest t pKey\<rparr>);
     (status, ppNode) \<leftarrow> HashLookup t h pKey (pfnDigest t pKey);
     if status = STATUS_SUCCESS then do {
       prev \<leftarrow> read_link t h ppNode;
       prev \<leftarrow> prev;
       old \<leftarrow> h prev;
       nd \<leftarrow> h pNode;
       let h = h(pNode \<mapsto> nd\<lparr>pNext := pNext old\<rparr>);
       (t, h) \<leftarrow> write_link t h ppNode (Some pNode);
       Some (t, h, Some prev)
     }
     else do {
       nd \<leftarrow> h pNode;
       let h = h(pNode \<mapsto> nd\<lparr>pNext := None\<rparr>);
       (t, h) \<leftarrow> write_link t h ppNode (Some pNode);
       Some (t\<lparr>ht_ulCount := ht_ulCount t + 1\<rparr>, h, None)
     }
   }"

partial_function (option) resize_chain ::
    "('u, 'k) LW_HASHTABLE \<Rightarrow> 'u node_store \<Rightarrow> nat option \<Rightarrow> (('u, 'k) LW_HASHTABLE \<times> 'u node_store) option" where
  "resize_chain t h p =
    (case p of
       None \<Rightarrow> Some (t, h)
     | Some pNode \<Rightarrow> do {
         nd \<leftarrow> h pNode;
         (t, h, _) \<leftarrow> LwRtlHashTableInsert t h pNode;
         resize_chain t h (pNext nd)
       })"

fun resize_loop ::
    "('u, 'k) LW_HASHTABLE \<Rightarrow> 'u node_store \<Rightarrow> nat option list \<Rightarrow> nat \<Rightarrow> nat \<Rightarrow> (('u, 'k) LW_HASHTABLE \<times> 'u node_store) option" where
  "resize_loop t h ppOldBuckets i 0 = Some (t, h)"
| "resize_loop t h ppOldBuckets i (Suc n) =
    (if length ppOldBuckets \<le> i then None
     else do { (t, h) \<leftarrow> resize_chain t h (ppOldBuckets ! i); resize_loop t h ppOldBuckets (i + 1) n })"

definition LwRtlHashTableResize ::
    "(nat \<Rightarrow> bool) \<Rightarrow> ('u, 'k) LW_HASHTABLE option \<Rightarrow> 'u node_store \<Rightarrow> ULONG \<Rightarrow>
     (NTSTATUS \<times> ('u, 'k) LW_HASHTABLE option \<times> 'u node_store) option" where
  "LwRtlHashTableResize avail pTable h ulSize =
    (case pTable of
       None \<Rightarrow> Some (STATUS_INVALID_PARAMETER, None, h)
     | Some t \<Rightarrow>
         if ulSize < 1 then Some (STATUS_INVALID_PARAMETER, Some t, h)
         else if fst (RTL_ALLOCATE avail (8 * unat ulSize)) \<noteq> STATUS_SUCCESS
         then Some (fst (RTL_ALLOCATE avail (8 * unat ulSize)), Some t, h)
         else do {
           let ulOldSize = ht_ulSize t;
           let ppOldBuckets = ht_ppBuckets t;
           let t = t\<lparr>ht_ulSize := ulSize, ht_ulCount := 0, ht_ppBuckets := replicate (unat ulSize) None\<rparr>;
           (t, h) \<leftarrow> resize_loop t h ppOldBuckets 0 (unat ulOldSize);
           Some (STATUS_SUCCESS, Some (t\<lparr>ht_ulThreshold := RESIZE_THRESHOLD ulSize\<rparr>), h)
         })"

definition LwRtlHashTableResizeAndInsert ::
    "(nat \<Rightarrow> bool) \<Rightarrow> ('u, 'k) LW_HASHTABLE \<Rightarrow> 'u node_store \<Rightarrow> nat \<Rightarrow>
     (('u, 'k) LW_HASHTABLE \<times> 'u node_store \<times> nat option) option" where
  "LwRtlHashTableResizeAndInsert avail t h pNode = do {
     (t, h) \<leftarrow> (if ht_ulCount t \<ge> ht_ulThreshold t then do {
         (_, t', h) \<leftarrow> LwRtlHashTableResize avail (Some t) h (ht_ulSize t * 2);
         t' \<leftarrow> t';
         Some (t', h)
       } else Some (t, h));
     LwRtlHashTableInsert t h pNode
   }"

definition LwRtlHashTableRemove ::
    "('u, 'k) LW_HASHTABLE option \<Rightarrow> 'u node_store \<Rightarrow> nat option \<Rightarrow>
     (NTSTATUS \<times> ('u, 'k) LW_HASHTABLE option \<times> 'u node_store) option" where
  "LwRtlHashTableRemove pTable h pNode =
    (case (pTable, pNode) of
       (Some t, Some n) \<Rightarrow> do {
         (status, ppNode) \<leftarrow> HashLocate t h n;
         if status \<noteq> STATUS_SUCCESS then Some (status, Some t, h)
         else do {
           l \<leftarrow> ppNode;
           nd \<leftarrow> h n;
           (t, h) \<leftarrow> write_link t h l (pNext nd);
           Some (STATUS_SUCCESS, Some (t\<lparr>ht_ulCount := ht_ulCount t - 1\<rparr>), h)
         }
       }
     | _ \<Rightarrow> Some (STATUS_INVALID_PARAMETER, pTable, h))"

definition LwRtlHashTableFindKey ::
    "('u, 'k) LW_HASHTABLE option \<Rightarrow> 'u node_store \<Rightarrow> 'k \<Rightarrow> (NTSTATUS \<times> nat option) option" where
  "LwRtlHashTableFindKey pTable h pKey =
    (case pTable of
       None \<Rightarrow> Some (STATUS_INVALID_PARAMETER, None)
     | Some t \<Rightarrow> do {
         (status, ppFound) \<leftarrow> HashLookup t h pKey (pfnDigest t pKey);
         if status \<noteq> STATUS_SUCCESS then Some (status, None)
         else do { pNode \<leftarrow> read_link t h ppFound; Some (STATUS_SUCCESS, pNode) }
       })"

definition LwRtlHashTableResetIter :: LW_HASHTABLE_ITER where
  "LwRtlHashTableResetIter = \<lparr> it_pNext = None, it_ulIndex = 0 \<rparr>"

text \<open>The search for the next bucket that is not empty.\<close>

function iter_loop :: "('u, 'k) LW_HASHTABLE \<Rightarrow> ULONG \<Rightarrow> (nat option \<times> ULONG) option" where
  "iter_loop t i =
    (if i < ht_ulSize t then
       (if length (ht_ppBuckets t) \<le> unat i then None
        else
          (case ht_ppBuckets t ! unat i of
             Some n \<Rightarrow> Some (Some n, i + 1)
           | None \<Rightarrow> iter_loop t (i + 1)))
     else Some (None, i))"
  by pat_completeness auto

lemma unat_Suc_less: "(i :: ULONG) < n \<Longrightarrow> unat (i + 1) = unat i + 1"
  using unsigned_less[of n, where 'a = nat] by (simp add: unat_plus_if' word_less_nat_alt)

termination iter_loop
  by (relation "measure (\<lambda>(t, i). unat (ht_ulSize t) - unat i)") (auto simp: unat_Suc_less word_less_nat_alt)

definition LwRtlHashTableIterate ::
    "('u, 'k) LW_HASHTABLE \<Rightarrow> 'u node_store \<Rightarrow> LW_HASHTABLE_ITER \<Rightarrow> (nat option \<times> LW_HASHTABLE_ITER) option" where
  "LwRtlHashTableIterate t h iter =
    (case it_pNext iter of
       Some n \<Rightarrow> do { nd \<leftarrow> h n; Some (Some n, iter\<lparr>it_pNext := pNext nd\<rparr>) }
     | None \<Rightarrow> do {
         (p, i) \<leftarrow> iter_loop t (it_ulIndex iter);
         case p of
           None \<Rightarrow> Some (None, iter\<lparr>it_ulIndex := i\<rparr>)
         | Some n \<Rightarrow> do { nd \<leftarrow> h n; Some (Some n, \<lparr> it_pNext = pNext nd, it_ulIndex = i \<rparr>) }
       })"

text \<open>The client's function for freeing a node acts on the store and on a state of the client.\<close>

partial_function (option) clear_loop ::
    "('u, 'k) LW_HASHTABLE \<Rightarrow> (nat \<Rightarrow> 'u node_store \<times> 's \<Rightarrow> ('u node_store \<times> 's) option) \<Rightarrow> 'u node_store \<times> 's \<Rightarrow>
     LW_HASHTABLE_ITER \<Rightarrow> ('u node_store \<times> 's) option" where
  "clear_loop t pFree hs iter = do {
     (p, iter) \<leftarrow> LwRtlHashTableIterate t (fst hs) iter;
     case p of None \<Rightarrow> Some hs | Some n \<Rightarrow> do { hs \<leftarrow> pFree n hs; clear_loop t pFree hs iter }
   }"

definition LwRtlHashTableClear ::
    "('u, 'k) LW_HASHTABLE \<Rightarrow> 'u node_store \<times> 's \<Rightarrow> (nat \<Rightarrow> 'u node_store \<times> 's \<Rightarrow> ('u node_store \<times> 's) option) option \<Rightarrow>
     (('u, 'k) LW_HASHTABLE \<times> 'u node_store \<times> 's) option" where
  "LwRtlHashTableClear t hs pFree = do {
     hs \<leftarrow> (case pFree of None \<Rightarrow> Some hs | Some f \<Rightarrow> clear_loop t f hs LwRtlHashTableResetIter);
     Some (t\<lparr>ht_ppBuckets := replicate (unat (ht_ulSize t)) None, ht_ulCount := 0\<rparr>, hs)
   }"

text \<open>Frees the bucket array and then the table.  The argument is the place that holds the pointer to the table, if it is not
  NULL; the results are that place afterwards and the blocks that were released, in order.\<close>

datatype HASH_BLOCK = BucketArray "nat option list" | TableBlock

definition LwRtlFreeHashTable ::
    "('u, 'k) LW_HASHTABLE option option \<Rightarrow> ('u, 'k) LW_HASHTABLE option option \<times> HASH_BLOCK list" where
  "LwRtlFreeHashTable ppTable =
    (case ppTable of
       None \<Rightarrow> (None, [])
     | Some pTable \<Rightarrow> (Some None, case pTable of None \<Rightarrow> [] | Some t \<Rightarrow> [BucketArray (ht_ppBuckets t), TableBlock]))"

definition LwRtlHashTableGetSize :: "('u, 'k) LW_HASHTABLE \<Rightarrow> ULONG" where
  "LwRtlHashTableGetSize t = ht_ulSize t"

definition LwRtlHashTableGetCount :: "('u, 'k) LW_HASHTABLE \<Rightarrow> ULONG" where
  "LwRtlHashTableGetCount t = ht_ulCount t"

declare iter_loop.simps [simp del]

section \<open>Chains\<close>

primrec chain :: "'u node_store \<Rightarrow> nat option \<Rightarrow> nat list \<Rightarrow> bool" where
  "chain h p [] \<longleftrightarrow> p = None"
| "chain h p (n # ns) \<longleftrightarrow> p = Some n \<and> (\<exists>nd. h n = Some nd \<and> chain h (pNext nd) ns)"

text \<open>The link behind a prefix of the chain that starts at a link.\<close>

definition link_after :: "LINK \<Rightarrow> nat list \<Rightarrow> LINK" where
  "link_after l ns = (if ns = [] then l else NextOf (last ns))"

lemma link_after_simps [simp]: "link_after l [] = l" "link_after l (n # ns) = link_after (NextOf n) ns"
  by (simp_all add: link_after_def)

lemma chain_nodes: "chain h p ns \<Longrightarrow> n \<in> set ns \<Longrightarrow> \<exists>nd. h n = Some nd"
  by (induction ns arbitrary: p) auto

text \<open>Changes elsewhere, and changes that keep the successor.\<close>

lemma chain_cong: "chain h p ns \<Longrightarrow> (\<And>n. n \<in> set ns \<Longrightarrow> map_option pNext (h' n) = map_option pNext (h n)) \<Longrightarrow> chain h' p ns"
proof (induction ns arbitrary: p)
  case (Cons n ns)
  obtain nd where "h n = Some nd" "chain h (pNext nd) ns" "p = Some n"
    using Cons.prems(1) by auto
  moreover obtain nd' where "h' n = Some nd'" "pNext nd' = pNext nd"
    using Cons.prems(2)[of n] calculation(1) by (auto simp: map_option_eq_Some)
  ultimately show ?case
    using Cons.IH[of "pNext nd"] Cons.prems(2) by auto
qed simp

lemma read_link_after:
  "read_link t h l = Some p \<Longrightarrow> chain h p (as @ bs) \<Longrightarrow> \<exists>q. read_link t h (link_after l as) = Some q \<and> chain h q bs"
proof (induction as arbitrary: l p)
  case (Cons a as)
  then obtain nd where nd: "h a = Some nd" "chain h (pNext nd) (as @ bs)"
    by auto
  then have "read_link t h (NextOf a) = Some (pNext nd)"
    by simp
  then show ?case
    using Cons.IH[of "NextOf a" "pNext nd"] nd(2) by simp
qed auto

definition matches :: "('u, 'k) LW_HASHTABLE \<Rightarrow> 'u node_store \<Rightarrow> 'k \<Rightarrow> ULONG \<Rightarrow> nat \<Rightarrow> bool" where
  "matches t h k d n \<longleftrightarrow>
    (case h n of None \<Rightarrow> False | Some nd \<Rightarrow> ulDigest nd = d \<and> pfnEqual t k (pfnGetKey t (container nd)))"

lemma lookup_loop_correct:
  assumes "read_link t h l = Some p" and "chain h p ns"
  shows "lookup_loop t h k d l =
    (case find (matches t h k d) ns of
       None \<Rightarrow> Some (STATUS_NOT_FOUND, link_after l ns)
     | Some n \<Rightarrow> Some (STATUS_SUCCESS, link_after l (takeWhile (\<lambda>m. m \<noteq> n) ns)))"
  using assms
proof (induction ns arbitrary: l p)
  case Nil
  then show ?case
    by (subst lookup_loop.simps) simp
next
  case (Cons n ns)
  obtain nd where nd: "h n = Some nd" "chain h (pNext nd) ns" "p = Some n"
    using Cons.prems(2) by auto
  have l: "lookup_loop t h k d l =
      (if matches t h k d n then Some (STATUS_SUCCESS, l) else lookup_loop t h k d (NextOf n))"
    using nd Cons.prems(1) by (subst lookup_loop.simps) (simp add: matches_def)
  have ne: "m \<noteq> n" if "\<not> matches t h k d n" "find (matches t h k d) ns = Some m" for m
    using that unfolding find_Some_iff by auto
  show ?case
    unfolding l using Cons.IH[of "NextOf n" "pNext nd"] ne nd by (cases "find (matches t h k d) ns") auto
qed

lemma locate_loop_correct:
  assumes "read_link t h l = Some p" and "chain h p ns"
  shows "locate_loop t h n l =
    (if n \<in> set ns then Some (STATUS_SUCCESS, Some (link_after l (takeWhile (\<lambda>m. m \<noteq> n) ns)))
     else Some (STATUS_NOT_FOUND, None))"
  using assms
proof (induction ns arbitrary: l p)
  case Nil
  then show ?case
    by (subst locate_loop.simps) simp
next
  case (Cons m ns)
  obtain nd where nd: "h m = Some nd" "chain h (pNext nd) ns" "p = Some m"
    using Cons.prems(2) by auto
  then show ?case
    using Cons.IH[of "NextOf m" "pNext nd"] Cons.prems(1) by (subst locate_loop.simps) auto
qed

text \<open>Writing behind a prefix replaces the rest of the chain.\<close>

lemma chain_redirect:
  assumes "chain h p (as @ bs)" and "chain h q cs" and "distinct as" and "set as \<inter> set cs = {}" and "as \<noteq> []"
    and "h (last as) = Some nd"
  shows "chain (h(last as \<mapsto> nd\<lparr>pNext := q\<rparr>)) p (as @ cs)"
  using assms
proof (induction as arbitrary: p)
  case (Cons a as)
  obtain na where na: "h a = Some na" "chain h (pNext na) (as @ bs)" "p = Some a"
    using Cons.prems(1) by auto
  show ?case
  proof (cases "as = []")
    case True
    have "chain (h(a \<mapsto> nd\<lparr>pNext := q\<rparr>)) q cs"
      by (rule chain_cong[OF Cons.prems(2)]) (use Cons.prems(4) in auto)
    then show ?thesis
      using True na by (simp add: fun_upd_def)
  next
    case False
    then have "a \<noteq> last as"
      using Cons.prems(3) last_in_set by auto
    moreover have "chain (h(last as \<mapsto> nd\<lparr>pNext := q\<rparr>)) (pNext na) (as @ cs)"
      using Cons.IH[of "pNext na"] na Cons.prems False by (simp add: fun_upd_def)
    ultimately show ?thesis
      using na False by (simp add: fun_upd_def)
  qed
qed simp

section \<open>The invariant\<close>

definition node_key :: "('u, 'k) LW_HASHTABLE \<Rightarrow> 'u node_store \<Rightarrow> nat \<Rightarrow> 'k" where
  "node_key t h n = pfnGetKey t (container (the (h n)))"

text \<open>The buckets hold the chains of nodes; no node occurs twice.\<close>

definition chains :: "nat option list \<Rightarrow> 'u node_store \<Rightarrow> nat list list \<Rightarrow> bool" where
  "chains bk h bs \<longleftrightarrow> length bk = length bs \<and> (\<forall>i<length bs. chain h (bk ! i) (bs ! i)) \<and> distinct (concat bs)"

text \<open>Every node is in the bucket of its digest, no two nodes have equal keys, and the nodes are counted.\<close>

definition table_ok ::
    "('k \<Rightarrow> ULONG) \<Rightarrow> ('k \<Rightarrow> 'k \<Rightarrow> bool) \<Rightarrow> ('u, 'k) LW_HASHTABLE \<Rightarrow> 'u node_store \<Rightarrow> nat list list \<Rightarrow> bool" where
  "table_ok digest equal t h bs \<longleftrightarrow>
     pfnDigest t = digest \<and> pfnEqual t = equal \<and> 0 < ht_ulSize t \<and> length bs = unat (ht_ulSize t)
   \<and> chains (ht_ppBuckets t) h bs
   \<and> (\<forall>i<length bs. \<forall>n\<in>set (bs ! i). ulDigest (the (h n)) = digest (node_key t h n)
        \<and> unat (digest (node_key t h n) mod ht_ulSize t) = i)
   \<and> (\<forall>m\<in>set (concat bs). \<forall>n\<in>set (concat bs). equal (node_key t h m) (node_key t h n) \<longrightarrow> m = n)
   \<and> ht_ulCount t = word_of_nat (length (concat bs))"

lemma table_okD:
  assumes "table_ok digest equal t h bs"
  shows "pfnDigest t = digest" and "pfnEqual t = equal" and "ht_ulSize t \<noteq> 0" and "length bs = unat (ht_ulSize t)"
    and "chains (ht_ppBuckets t) h bs" and "distinct (concat bs)" and "length (ht_ppBuckets t) = length bs"
    and "\<And>i. i < length bs \<Longrightarrow> chain h (ht_ppBuckets t ! i) (bs ! i)"
    and "\<And>m n. m \<in> set (concat bs) \<Longrightarrow> n \<in> set (concat bs) \<Longrightarrow> equal (node_key t h m) (node_key t h n) \<Longrightarrow> m = n"
    and "ht_ulCount t = word_of_nat (length (concat bs))"
  using assms unfolding table_ok_def chains_def word_gt_0 by (simp_all del: set_concat)

text \<open>The table as a map from keys to nodes.\<close>

definition node_at :: "('u, 'k) LW_HASHTABLE \<Rightarrow> 'u node_store \<Rightarrow> nat list list \<Rightarrow> 'k \<Rightarrow> nat option" where
  "node_at t h bs k = find (\<lambda>n. pfnEqual t k (node_key t h n)) (concat bs)"

lemma concat_split:
  assumes "i < length bs"
  shows "concat (bs[i := xs]) = concat (take i bs) @ xs @ concat (drop (Suc i) bs)"
    and "concat bs = concat (take i bs) @ bs ! i @ concat (drop (Suc i) bs)"
  using assms by (simp_all add: upd_conv_take_nth_drop concat_append) (metis concat.simps(2) concat_append id_take_nth_drop)

lemma set_concat_update:
  assumes "distinct (concat bs)" and "i < length bs"
  shows "set (concat (bs[i := xs])) = (set (concat bs) - set (bs ! i)) \<union> set xs"
  using assms(1) unfolding concat_split(1)[OF assms(2)] concat_split(2)[OF assms(2)] by auto

lemma in_bucket: "i < length bs \<Longrightarrow> n \<in> set (bs ! i) \<Longrightarrow> n \<in> set (concat bs)"
  by auto

lemma bucket_of:
  assumes "n \<in> set (concat bs)"
  shows "\<exists>i<length bs. n \<in> set (bs ! i)"
proof -
  obtain xs where "xs \<in> set bs" "n \<in> set xs"
    using assms by auto
  then show ?thesis
    by (metis in_set_conv_nth)
qed

lemma find_append: "find P (xs @ ys) = (case find P xs of None \<Rightarrow> find P ys | Some x \<Rightarrow> Some x)"
  by (induction xs) simp_all

lemma option_eqI: "(\<And>x. p = Some x \<longleftrightarrow> q = Some x) \<Longrightarrow> p = q"
  by (cases p; cases q) auto

lemma takeWhile_first: "n \<notin> set as \<Longrightarrow> takeWhile (\<lambda>m. m \<noteq> n) (as @ n # cs) = as"
  by (induction as) auto

lemma other_bucket:
  assumes "distinct (concat bs)" and "i < length bs" and "j < length bs" and "n \<in> set (bs ! i)" and "n \<in> set (bs ! j)"
  shows "i = j"
proof (rule ccontr)
  assume "i \<noteq> j"
  have *: False if "i < j" "i < length bs" "j < length bs" "n \<in> set (bs ! i)" "n \<in> set (bs ! j)" for i j
  proof -
    have "bs ! j \<in> set (drop (Suc i) bs)"
      using that by (metis Suc_leI in_set_conv_nth length_drop less_diff_iff nth_drop le_add_diff_inverse Suc_le_eq less_imp_le_nat)
    then show False
      using that assms(1) concat_split(2)[of i bs] by auto
  qed
  show False
    using *[of i j] *[of j i] assms \<open>i \<noteq> j\<close> by linarith
qed

text \<open>Writing behind a prefix of one chain.\<close>

lemma write_behind:
  assumes "chains (ht_ppBuckets t) h bs" and "i < length bs" and "bs ! i = as @ rest" and "chain h p cs" and "set as \<inter> set cs = {}"
  obtains bk h' where "write_link t h (link_after (Bucket i) as) p = Some (t\<lparr>ht_ppBuckets := bk\<rparr>, h')"
    and "length bk = length bs" and "\<And>j. j < length bs \<Longrightarrow> chain h' (bk ! j) (bs[i := as @ cs] ! j)"
    and "\<And>n. n \<notin> set as \<Longrightarrow> h' n = h n"
    and "\<And>n. map_option ulDigest (h' n) = map_option ulDigest (h n)"
    and "\<And>n. map_option container (h' n) = map_option container (h n)"
proof (cases "as = []")
  case True
  have "write_link t h (link_after (Bucket i) as) p = Some (t\<lparr>ht_ppBuckets := (ht_ppBuckets t)[i := p]\<rparr>, h)"
    using assms(1,2) True by (simp add: chains_def)
  then show thesis
    by (rule that) (use assms True in \<open>auto simp: chains_def nth_list_update\<close>)
next
  case False
  have c: "chain h (ht_ppBuckets t ! i) (as @ rest)" and d: "distinct (concat bs)"
    using assms(1-3) by (auto simp: chains_def)
  then obtain nd where nd: "h (last as) = Some nd"
    using False chain_nodes[OF c, of "last as"] by auto
  let ?h = "h(last as \<mapsto> nd\<lparr>pNext := p\<rparr>)"
  have "distinct as"
    using d concat_split(2)[OF assms(2)] assms(3) by auto
  then have 1: "chain ?h (ht_ppBuckets t ! i) (as @ cs)"
    by (rule chain_redirect[OF c assms(4) _ assms(5) False nd])
  have 2: "chain ?h (ht_ppBuckets t ! j) (bs ! j)" if "j < length bs" "j \<noteq> i" for j
  proof (rule chain_cong)
    show "chain h (ht_ppBuckets t ! j) (bs ! j)"
      using assms(1) that(1) by (simp add: chains_def)
    fix n assume "n \<in> set (bs ! j)"
    moreover have "last as \<notin> set (bs ! j)"
      using other_bucket[OF d assms(2) that(1), of "last as"] that(2) assms(3) False by auto
    ultimately show "map_option pNext (?h n) = map_option pNext (h n)"
      by auto
  qed
  have 3: "write_link t h (link_after (Bucket i) as) p = Some (t\<lparr>ht_ppBuckets := ht_ppBuckets t\<rparr>, ?h)"
    using False nd by (simp add: link_after_def)
  show thesis
  proof (rule that[OF 3])
    show "chain ?h (ht_ppBuckets t ! j) (bs[i := as @ cs] ! j)" if "j < length bs" for j
      using 1 2 that assms(2) by (cases "j = i") (simp_all add: nth_list_update)
  qed (use assms(1) False nd in \<open>auto simp: chains_def\<close>)
qed

text \<open>What the table relies on: the client's comparison is an equivalence and equal keys have the same digest.\<close>

locale hash_keys =
  fixes digest :: "'k \<Rightarrow> ULONG" and equal :: "'k \<Rightarrow> 'k \<Rightarrow> bool"
  assumes equal_refl: "equal k k"
    and equal_sym: "equal k l \<Longrightarrow> equal l k"
    and equal_trans: "equal k l \<Longrightarrow> equal l m \<Longrightarrow> equal k m"
    and equal_digest: "equal k l \<Longrightarrow> digest k = digest l"
begin

lemma table_bucket:
  assumes "table_ok digest equal t h bs" and "i < length bs" and "n \<in> set (bs ! i)"
  shows "\<exists>nd. h n = Some nd \<and> ulDigest nd = digest (node_key t h n) \<and> unat (ulDigest nd mod ht_ulSize t) = i"
proof -
  have "chain h (ht_ppBuckets t ! i) (bs ! i)"
    using assms(1,2) by (simp add: table_ok_def chains_def)
  then obtain nd where "h n = Some nd"
    using chain_nodes assms(3) by blast
  moreover have "ulDigest (the (h n)) = digest (node_key t h n)" "unat (digest (node_key t h n) mod ht_ulSize t) = i"
    using assms by (auto simp: table_ok_def)
  ultimately show ?thesis
    by auto
qed

lemma bucket_index:
  assumes "table_ok digest equal t h bs"
  shows "unat (d mod ht_ulSize t) < length bs"
  using assms by (auto simp: table_ok_def unat_mod word_less_nat_alt)

lemma matches_key:
  assumes "table_ok digest equal t h bs" and "n \<in> set (concat bs)"
  shows "matches t h k (digest k) n \<longleftrightarrow> equal k (node_key t h n)"
proof -
  obtain i where i: "i < length bs" "n \<in> set (bs ! i)"
    using bucket_of[OF assms(2)] by blast
  obtain nd where "h n = Some nd" "ulDigest nd = digest (node_key t h n)"
    using table_bucket[OF assms(1) i] by blast
  moreover have "pfnEqual t = equal"
    using assms(1) by (simp add: table_ok_def)
  ultimately show ?thesis
    using equal_digest[of k "node_key t h n"] by (auto simp: matches_def node_key_def)
qed

lemma equal_in_bucket:
  assumes "table_ok digest equal t h bs" and "n \<in> set (concat bs)" and "equal k (node_key t h n)"
  shows "n \<in> set (bs ! unat (digest k mod ht_ulSize t))"
proof -
  obtain i where i: "i < length bs" "n \<in> set (bs ! i)"
    using bucket_of[OF assms(2)] by blast
  obtain nd where "h n = Some nd" "ulDigest nd = digest (node_key t h n)" "unat (ulDigest nd mod ht_ulSize t) = i"
    using table_bucket[OF assms(1) i] by blast
  then show ?thesis
    using i(2) equal_digest[OF assms(3)] by simp
qed

lemma find_bucket:
  assumes "table_ok digest equal t h bs"
  shows "find (matches t h k (digest k)) (bs ! unat (digest k mod ht_ulSize t)) = node_at t h bs k"
proof -
  let ?i = "unat (digest k mod ht_ulSize t)"
  have i: "?i < length bs"
    by (rule bucket_index[OF assms])
  have e: "pfnEqual t = equal"
    using assms by (simp add: table_ok_def)
  have "\<not> equal k (node_key t h n)" if "n \<in> set (concat (take ?i bs) @ concat (drop (Suc ?i) bs))" for n
  proof
    assume "equal k (node_key t h n)"
    moreover have "n \<in> set (concat bs)"
      unfolding concat_split(2)[OF i] using that by auto
    ultimately have "n \<in> set (bs ! ?i)"
      by (rule equal_in_bucket[OF assms, rotated])
    moreover have "distinct (concat bs)"
      using assms by (simp add: table_ok_def chains_def)
    ultimately show False
      using that unfolding concat_split(2)[OF i] by auto
  qed
  then have "find (\<lambda>n. equal k (node_key t h n)) (concat (take ?i bs)) = None"
    "find (\<lambda>n. equal k (node_key t h n)) (concat (drop (Suc ?i) bs)) = None"
    by (auto simp: find_None_iff)
  moreover have "find (matches t h k (digest k)) (bs ! ?i) = find (\<lambda>n. equal k (node_key t h n)) (bs ! ?i)"
    using matches_key[OF assms in_bucket[OF i]] by (intro find_cong) auto
  ultimately show ?thesis
    unfolding node_at_def e concat_split(2)[OF i] find_append by (simp split: option.split)
qed

end

text \<open>One bucket changes: nodes leave it, or new nodes with their own keys enter it.\<close>

lemma distinct_update:
  fixes bs :: "nat list list"
  assumes "distinct (concat bs)" and "i < length bs" and "distinct xs" and "set xs \<inter> (set (concat bs) - set (bs ! i)) = {}"
  shows "distinct (concat (bs[i := xs]))"
proof -
  have "distinct (a @ xs @ c)" if "distinct (a @ b @ c)" "set xs \<inter> (set (a @ b @ c) - set b) = {}" for a b c :: "nat list"
    using that assms(3) by auto
  from this[of "concat (take i bs)" "bs ! i" "concat (drop (Suc i) bs)"] show ?thesis
    using assms(1,4) unfolding concat_split(1)[OF assms(2)] concat_split(2)[OF assms(2)] by blast
qed

context hash_keys begin

lemma table_ok_update:
  assumes ok: "table_ok digest equal t h bs" and i: "i < length bs"
    and bk: "length bk = length bs" "\<And>j. j < length bs \<Longrightarrow> chain h' (bk ! j) (bs[i := xs] ! j)" and d: "distinct xs"
    and old: "\<And>m. m \<in> set (concat bs) \<Longrightarrow> map_option ulDigest (h' m) = map_option ulDigest (h m)
      \<and> map_option container (h' m) = map_option container (h m)"
    and new: "\<And>m. m \<in> set xs \<Longrightarrow> m \<notin> set (bs ! i) \<Longrightarrow> m \<notin> set (concat bs)
      \<and> ulDigest (the (h' m)) = digest (node_key t h' m) \<and> unat (digest (node_key t h' m) mod ht_ulSize t) = i"
    and uniq: "\<And>m m'. m \<in> set xs \<Longrightarrow> m \<notin> set (bs ! i) \<Longrightarrow> m' \<in> set (concat (bs[i := xs])) \<Longrightarrow>
      equal (node_key t h' m) (node_key t h' m') \<Longrightarrow> m = m'"
    and c: "c = word_of_nat (length (concat (bs[i := xs])))"
  shows "table_ok digest equal (t\<lparr>ht_ppBuckets := bk, ht_ulCount := c\<rparr>) h' (bs[i := xs])"
proof -
  let ?t = "t\<lparr>ht_ppBuckets := bk, ht_ulCount := c\<rparr>" let ?bs = "bs[i := xs]"
  have dist: "distinct (concat bs)"
    using ok by (simp add: table_ok_def chains_def)
  have nk: "node_key ?t h' m = node_key t h' m" for m
    by (simp add: node_key_def)
  have key: "node_key t h' m = node_key t h m" "ulDigest (the (h' m)) = ulDigest (the (h m))" if m: "m \<in> set (concat bs)" for m
  proof -
    obtain j where j: "j < length bs" "m \<in> set (bs ! j)"
      using bucket_of[OF m] by blast
    obtain nd where "h m = Some nd"
      using table_bucket[OF ok j] by blast
    then obtain nd' where "h' m = Some nd'" "ulDigest nd' = ulDigest nd" "container nd' = container nd"
      using old[OF m] by auto
    then show "node_key t h' m = node_key t h m" "ulDigest (the (h' m)) = ulDigest (the (h m))"
      using \<open>h m = Some nd\<close> by (simp_all add: node_key_def)
  qed
  have sub: "m \<in> set (concat bs) \<or> m \<in> set xs \<and> m \<notin> set (bs ! i)" if "m \<in> set (concat ?bs)" for m
    using that in_bucket[OF i] unfolding set_concat_update[OF dist i] by blast
  have "set xs \<inter> (set (concat bs) - set (bs ! i)) = {}"
    using new by blast
  then have 1: "chains bk h' ?bs"
    using distinct_update[OF dist i d] bk by (simp add: chains_def)
  have 2: "ulDigest (the (h' m)) = digest (node_key t h' m) \<and> unat (digest (node_key t h' m) mod ht_ulSize t) = j"
    if j: "j < length ?bs" "m \<in> set (?bs ! j)" for j m
  proof (cases "j = i \<and> m \<notin> set (bs ! i)")
    case True
    then show ?thesis
      using new[of m] j by simp
  next
    case False
    then have m: "m \<in> set (bs ! j)" "j < length bs"
      using j i by (cases "j = i"; simp)+
    then show ?thesis
      using ok key[OF in_bucket[OF m(2,1)]] by (auto simp: table_ok_def)
  qed
  have 3: "m = m'" if m: "m \<in> set (concat ?bs)" "m' \<in> set (concat ?bs)" "equal (node_key t h' m) (node_key t h' m')" for m m'
  proof -
    consider "m \<in> set xs \<and> m \<notin> set (bs ! i)" | "m' \<in> set xs \<and> m' \<notin> set (bs ! i)" | "m \<in> set (concat bs)" "m' \<in> set (concat bs)"
      using sub[OF m(1)] sub[OF m(2)] by blast
    then show ?thesis
    proof cases
      case 3
      then show ?thesis
        using ok m(3) key by (auto simp: table_ok_def)
    qed (use uniq[of m m'] uniq[of m' m] equal_sym m in blast)+
  qed
  show ?thesis
    using ok 1 2 3 c unfolding table_ok_def nk by simp
qed

lemma table_ok_cong:
  assumes "table_ok digest equal t h bs" and "\<And>m. m \<in> set (concat bs) \<Longrightarrow> h' m = h m"
  shows "table_ok digest equal t h' bs"
proof -
  have eq: "h' m = h m" if "i < length bs" "m \<in> set (bs ! i)" for i m
    using assms(2) in_bucket[OF that] by blast
  have "chain h' (ht_ppBuckets t ! i) (bs ! i)" if "i < length bs" for i
  proof (rule chain_cong)
    show "chain h (ht_ppBuckets t ! i) (bs ! i)"
      using assms(1) that by (simp add: table_ok_def chains_def)
  qed (simp add: eq[OF that])
  then have 1: "chains (ht_ppBuckets t) h' bs"
    using assms(1) by (simp add: table_ok_def chains_def)
  have nk: "node_key t h' m = node_key t h m" if "m \<in> set (concat bs)" for m
    using assms(2)[OF that] by (simp add: node_key_def)
  have 2: "ulDigest (the (h' m)) = digest (node_key t h' m) \<and> unat (digest (node_key t h' m) mod ht_ulSize t) = i"
    if "i < length bs" "m \<in> set (bs ! i)" for i m
    using assms(1) that eq[OF that] nk[OF in_bucket[OF that]] by (simp add: table_ok_def)
  have 3: "m = n" if "m \<in> set (concat bs)" "n \<in> set (concat bs)" "equal (node_key t h' m) (node_key t h' n)" for m n
    using assms(1) that nk by (simp add: table_ok_def del: set_concat)
  show ?thesis
    using assms(1) 1 2 3 unfolding table_ok_def by (simp del: set_concat)
qed

lemma HashLookup_correct:
  assumes "table_ok digest equal t h bs"
  shows "HashLookup t h k (digest k) =
    (let i = unat (digest k mod ht_ulSize t) in
     case node_at t h bs k of
       None \<Rightarrow> Some (STATUS_NOT_FOUND, link_after (Bucket i) (bs ! i))
     | Some n \<Rightarrow> Some (STATUS_SUCCESS, link_after (Bucket i) (takeWhile (\<lambda>m. m \<noteq> n) (bs ! i))))"
proof -
  let ?i = "unat (digest k mod ht_ulSize t)"
  have i: "?i < length bs"
    by (rule bucket_index[OF assms])
  have "read_link t h (Bucket ?i) = Some (ht_ppBuckets t ! ?i)" "chain h (ht_ppBuckets t ! ?i) (bs ! ?i)"
    using table_okD(7,8)[OF assms] i by simp_all
  from lookup_loop_correct[OF this, of k "digest k"] show ?thesis
    using table_okD(3)[OF assms] find_bucket[OF assms, of k] by (simp add: HashLookup_def bucket_link_def Let_def)
qed

lemma node_at_split:
  assumes "table_ok digest equal t h bs" and "node_at t h bs k = Some n"
  obtains as cs where "bs ! unat (digest k mod ht_ulSize t) = as @ n # cs" and "takeWhile (\<lambda>m. m \<noteq> n) (as @ n # cs) = as"
    and "n \<in> set (concat bs)" and "equal k (node_key t h n)" and "n \<notin> set as"
proof -
  let ?i = "unat (digest k mod ht_ulSize t)"
  have "pfnEqual t = equal"
    using assms(1) by (simp add: table_ok_def)
  then have e: "equal k (node_key t h n)" and n: "n \<in> set (concat bs)"
    using assms(2) unfolding node_at_def find_Some_iff by (auto simp del: set_concat)
  then have "n \<in> set (bs ! ?i)"
    using equal_in_bucket[OF assms(1)] by blast
  then obtain as cs where s: "bs ! ?i = as @ n # cs" "n \<notin> set as"
    by (meson split_list_first)
  then show thesis
    using that takeWhile_first[OF s(2)] n e by blast
qed

end

section \<open>Insertion, removal and lookup\<close>

text \<open>What an operation leaves alone: the client's part of every node, the callbacks, and all of the other nodes.\<close>

definition table_frame ::
    "nat set \<Rightarrow> ('u, 'k) LW_HASHTABLE \<Rightarrow> 'u node_store \<Rightarrow> ('u, 'k) LW_HASHTABLE \<Rightarrow> 'u node_store \<Rightarrow> bool" where
  "table_frame N t h t' h' \<longleftrightarrow> pfnGetKey t' = pfnGetKey t
     \<and> (\<forall>m. map_option container (h' m) = map_option container (h m)) \<and> (\<forall>m. m \<notin> N \<longrightarrow> h' m = h m)"

lemma table_frame_key: "table_frame N t h t' h' \<Longrightarrow> h m = Some nd \<Longrightarrow> node_key t' h' m = node_key t h m"
proof -
  assume a: "table_frame N t h t' h'" "h m = Some nd"
  then have "map_option container (h' m) = Some (container nd)"
    unfolding table_frame_def by simp
  then show ?thesis
    using a by (auto simp: node_key_def table_frame_def)
qed

lemma table_frame_trans:
  "table_frame N t h t1 h1 \<Longrightarrow> table_frame N' t1 h1 t2 h2 \<Longrightarrow> table_frame (N \<union> N') t h t2 h2"
  by (simp add: table_frame_def)

context hash_keys begin

lemma FindKey_correct:
  assumes "table_ok digest equal t h bs"
  shows "LwRtlHashTableFindKey (Some t) h k =
    Some (if node_at t h bs k = None then STATUS_NOT_FOUND else STATUS_SUCCESS, node_at t h bs k)"
proof (cases "node_at t h bs k")
  case None
  then show ?thesis
    using HashLookup_correct[OF assms, of k] table_okD(1)[OF assms] by (simp add: LwRtlHashTableFindKey_def Let_def)
next
  case (Some n)
  let ?i = "unat (digest k mod ht_ulSize t)"
  obtain as cs where s: "bs ! ?i = as @ n # cs" "takeWhile (\<lambda>m. m \<noteq> n) (as @ n # cs) = as"
    using node_at_split[OF assms Some] by metis
  have i: "?i < length bs"
    by (rule bucket_index[OF assms])
  have "read_link t h (Bucket ?i) = Some (ht_ppBuckets t ! ?i)" "chain h (ht_ppBuckets t ! ?i) (as @ n # cs)"
    using table_okD(7,8)[OF assms] i s(1) by (simp_all flip: s(1))
  then obtain q where "read_link t h (link_after (Bucket ?i) as) = Some q" "chain h q (n # cs)"
    using read_link_after by blast
  then show ?thesis
    using HashLookup_correct[OF assms, of k] table_okD(1)[OF assms] Some s by (simp add: LwRtlHashTableFindKey_def Let_def)
qed

lemma node_at_None: "table_ok digest equal t h bs \<Longrightarrow> node_at t h bs k = None \<longleftrightarrow> (\<forall>m\<in>set (concat bs). \<not> equal k (node_key t h m))"
  using table_okD(2)[of digest equal t h bs] by (auto simp: node_at_def find_None_iff)

lemma node_at_iff:
  assumes "table_ok digest equal t h bs"
  shows "node_at t h bs k = Some m \<longleftrightarrow> m \<in> set (concat bs) \<and> equal k (node_key t h m)"
proof
  assume "node_at t h bs k = Some m"
  then show "m \<in> set (concat bs) \<and> equal k (node_key t h m)"
    using node_at_split[OF assms] by metis
next
  assume m: "m \<in> set (concat bs) \<and> equal k (node_key t h m)"
  then have "node_at t h bs k \<noteq> None"
    using node_at_None[OF assms] by blast
  then obtain n where n: "node_at t h bs k = Some n"
    by blast
  then have "n \<in> set (concat bs)" "equal k (node_key t h n)"
    using node_at_split[OF assms] by metis+
  then have "n = m"
    using table_okD(9)[OF assms] m equal_sym equal_trans by blast
  then show "node_at t h bs k = Some m"
    using n by simp
qed

end

text \<open>The effect of an insertion on the abstract table.\<close>

definition inserted ::
    "('k \<Rightarrow> ULONG) \<Rightarrow> ('k \<Rightarrow> 'k \<Rightarrow> bool) \<Rightarrow> ('u, 'k) LW_HASHTABLE \<Rightarrow> 'u node_store \<Rightarrow> nat list list \<Rightarrow> nat \<Rightarrow> nat option \<Rightarrow> ('u, 'k) LW_HASHTABLE \<Rightarrow> 'u node_store \<Rightarrow>
     nat list list \<Rightarrow> bool" where
  "inserted digest equal t h bs n prev t' h' bs' \<longleftrightarrow>
     table_ok digest equal t' h' bs' \<and> table_frame (insert n (set (concat bs))) t h t' h'
   \<and> set (concat bs') = insert n (set (concat bs) - set_option prev)
   \<and> ht_ulSize t' = ht_ulSize t \<and> ht_ulThreshold t' = ht_ulThreshold t"

declare set_concat [simp del]

context hash_keys begin

text \<open>A node enters behind a prefix of its bucket; the rest of the bucket is cut to what follows it.\<close>

lemma enter_node:
  assumes ok: "table_ok digest equal t h bs" and n: "h n = Some nd" "n \<notin> set (concat bs)"
    and k: "k = pfnGetKey t (container nd)" and i: "i = unat (digest k mod ht_ulSize t)" and s: "bs ! i = as @ ms @ cs"
    and q: "chain h q cs" and ms: "\<And>m. m \<in> set (concat bs) \<Longrightarrow> equal k (node_key t h m) \<Longrightarrow> m \<in> set ms"
  obtains bk h' where
    "write_link t (h(n \<mapsto> nd\<lparr>ulDigest := digest k, pNext := q\<rparr>)) (link_after (Bucket i) as) (Some n) = Some (t\<lparr>ht_ppBuckets := bk\<rparr>, h')"
    and "table_ok digest equal (t\<lparr>ht_ppBuckets := bk, ht_ulCount := ht_ulCount t + 1 - word_of_nat (length ms)\<rparr>) h' (bs[i := as @ n # cs])"
    and "table_frame (insert n (set (concat bs))) t h (t\<lparr>ht_ppBuckets := bk\<rparr>) h'"
    and "set (concat (bs[i := as @ n # cs])) = insert n (set (concat bs) - set ms)"
proof -
  let ?h = "h(n \<mapsto> nd\<lparr>ulDigest := digest k, pNext := q\<rparr>)" let ?xs = "as @ n # cs"
  note D = table_okD[OF ok]
  have il: "i < length bs"
    unfolding i by (rule bucket_index[OF ok])
  have in_i: "m \<in> set (concat bs)" if "m \<in> set as \<union> set ms \<union> set cs" for m
    using in_bucket[OF il] s that by auto
  have dx: "distinct (as @ ms @ cs)"
    using D(6) unfolding concat_split(2)[OF il] s by auto
  have ok': "table_ok digest equal t ?h bs"
    by (rule table_ok_cong[OF ok]) (use n(2) in auto)
  have "chain ?h q cs"
    by (rule chain_cong[OF q]) (use n(2) in_i in auto)
  then have c: "chain ?h (Some n) (n # cs)"
    by (simp add: fun_upd_def)
  have dj: "set as \<inter> set (n # cs) = {}"
    using dx n(2) in_i by auto
  obtain bk h' where w: "write_link t ?h (link_after (Bucket i) as) (Some n) = Some (t\<lparr>ht_ppBuckets := bk\<rparr>, h')"
    and lb: "length bk = length bs" and ch: "\<And>j. j < length bs \<Longrightarrow> chain h' (bk ! j) (bs[i := ?xs] ! j)"
    and same: "\<And>m. m \<notin> set as \<Longrightarrow> h' m = ?h m"
    and dg: "\<And>m. map_option ulDigest (h' m) = map_option ulDigest (?h m)"
    and ct: "\<And>m. map_option container (h' m) = map_option container (?h m)"
    using write_behind[OF table_okD(5)[OF ok'] il s c dj] by metis
  have n': "h' n = Some (nd\<lparr>ulDigest := digest k, pNext := q\<rparr>)"
    using same[of n] n(2) in_i by auto
  have nk: "node_key t h' n = k"
    using n' k by (simp add: node_key_def)
  have frame: "table_frame (insert n (set (concat bs))) t h (t\<lparr>ht_ppBuckets := bk\<rparr>) h'"
  proof -
    have "h' m = h m" if "m \<noteq> n" "m \<notin> set (concat bs)" for m
      using same[of m] in_i[of m] that by auto
    then show ?thesis
      using ct n by (auto simp: table_frame_def)
  qed
  have nn: "n \<notin> set as" "n \<notin> set ms" "n \<notin> set cs"
    using in_i[of n] n(2) by auto
  have sx: "set (concat (bs[i := ?xs])) = insert n (set (concat bs) - set ms)"
    using dx in_i n(2) unfolding set_concat_update[OF D(6) il] s by auto
  have key: "node_key t h' m = node_key t h m" if m: "m \<in> set (concat bs)" for m
  proof -
    obtain j where j: "j < length bs" "m \<in> set (bs ! j)"
      using bucket_of[OF m] by blast
    obtain md where "h m = Some md"
      using table_bucket[OF ok j] by blast
    then show ?thesis
      using table_frame_key[OF frame] by (simp add: node_key_def)
  qed
  have "table_ok digest equal (t\<lparr>ht_ppBuckets := bk, ht_ulCount := ht_ulCount t + 1 - word_of_nat (length ms)\<rparr>) h' (bs[i := ?xs])"
  proof (rule table_ok_update[OF ok il lb ch])
    fix m m' assume m: "m \<in> set ?xs" "m \<notin> set (bs ! i)" "m' \<in> set (concat (bs[i := ?xs]))"
      "equal (node_key t h' m) (node_key t h' m')"
    then have "m = n"
      using s by auto
    show "m = m'"
    proof (rule ccontr)
      assume "m \<noteq> m'"
      then have m': "m' \<in> set (concat bs)" "m' \<notin> set ms"
        using m(3) \<open>m = n\<close> unfolding sx by auto
      then have "equal k (node_key t h m')"
        using m(4) key nk \<open>m = n\<close> by simp
      then show False
        using ms m' by blast
    qed
  next
    have "length (concat (bs[i := ?xs])) + length ms = length (concat bs) + 1"
      using s unfolding concat_split(1)[OF il] concat_split(2)[OF il] by simp
    then have "(word_of_nat (length (concat (bs[i := ?xs])) + length ms) :: ULONG) = word_of_nat (length (concat bs) + 1)"
      by simp
    then show "ht_ulCount t + 1 - word_of_nat (length ms) = word_of_nat (length (concat (bs[i := ?xs])))"
      unfolding D(10) of_nat_add by (simp add: algebra_simps)
  next
    show "distinct ?xs"
      using dx nn by auto
  next
    fix m assume "m \<in> set (concat bs)"
    then have "m \<noteq> n"
      using n(2) by blast
    then show "map_option ulDigest (h' m) = map_option ulDigest (h m) \<and> map_option container (h' m) = map_option container (h m)"
      using dg[of m] ct[of m] by simp
  next
    fix m assume "m \<in> set ?xs" "m \<notin> set (bs ! i)"
    then have "m = n"
      using s by auto
    then show "m \<notin> set (concat bs) \<and> ulDigest (the (h' m)) = digest (node_key t h' m)
        \<and> unat (digest (node_key t h' m) mod ht_ulSize t) = i"
      using n(2) n' nk i by simp
  qed
  then show thesis
    by (rule that[OF w _ frame sx])
qed

end

context hash_keys begin

lemma other_node:
  assumes "table_ok digest equal t h bs" and "n \<notin> set (concat bs)"
  shows "table_ok digest equal t (h(n := x)) bs" and "node_at t (h(n := x)) bs k = node_at t h bs k"
proof -
  show "table_ok digest equal t (h(n := x)) bs"
    by (rule table_ok_cong[OF assms(1)]) (use assms(2) in auto)
  show "node_at t (h(n := x)) bs k = node_at t h bs k"
    unfolding node_at_def by (rule find_cong[OF refl]) (use assms(2) in \<open>auto simp: node_key_def\<close>)
qed

lemma Insert_new:
  assumes ok: "table_ok digest equal t h bs" and n: "h n = Some nd" "n \<notin> set (concat bs)"
    and none: "node_at t h bs (pfnGetKey t (container nd)) = None"
  shows "\<exists>t' h' bs'. LwRtlHashTableInsert t h n = Some (t', h', None) \<and> inserted digest equal t h bs n None t' h' bs'"
proof -
  let ?k = "pfnGetKey t (container nd)" let ?i = "unat (digest ?k mod ht_ulSize t)"
  have il: "?i < length bs"
    by (rule bucket_index[OF ok])
  have no: "m \<in> set []" if "m \<in> set (concat bs)" "equal ?k (node_key t h m)" for m
    using node_at_None[OF ok, of ?k] none that by blast
  obtain bk h' where e: "write_link t (h(n \<mapsto> nd\<lparr>ulDigest := digest ?k, pNext := None\<rparr>)) (link_after (Bucket ?i) (bs ! ?i)) (Some n) =
        Some (t\<lparr>ht_ppBuckets := bk\<rparr>, h')"
      "table_ok digest equal (t\<lparr>ht_ppBuckets := bk, ht_ulCount := ht_ulCount t + 1 - word_of_nat (length ([] :: nat list))\<rparr>) h'
        (bs[?i := bs ! ?i @ [n]])"
      "table_frame (insert n (set (concat bs))) t h (t\<lparr>ht_ppBuckets := bk\<rparr>) h'"
      "set (concat (bs[?i := bs ! ?i @ [n]])) = insert n (set (concat bs) - set [])"
    by (rule enter_node[OF ok n refl refl _ _ no, of "bs ! ?i" "[]" None]) simp_all
  have "LwRtlHashTableInsert t h n = Some (t\<lparr>ht_ppBuckets := bk, ht_ulCount := ht_ulCount t + 1\<rparr>, h', None)"
    using HashLookup_correct[OF other_node(1)[OF ok n(2)], of _ ?k] other_node(2)[OF ok n(2)] none n(1) e(1) table_okD(1)[OF ok]
    by (simp add: LwRtlHashTableInsert_def Let_def)
  moreover have "inserted digest equal t h bs n None (t\<lparr>ht_ppBuckets := bk, ht_ulCount := ht_ulCount t + 1\<rparr>) h' (bs[?i := bs ! ?i @ [n]])"
    using e(2-4) by (simp add: inserted_def table_frame_def)
  ultimately show ?thesis
    by blast
qed

lemma Insert_replace:
  assumes ok: "table_ok digest equal t h bs" and n: "h n = Some nd" "n \<notin> set (concat bs)"
    and some: "node_at t h bs (pfnGetKey t (container nd)) = Some m"
  shows "\<exists>t' h' bs'. LwRtlHashTableInsert t h n = Some (t', h', Some m) \<and> inserted digest equal t h bs n (Some m) t' h' bs'"
proof -
  let ?k = "pfnGetKey t (container nd)" let ?i = "unat (digest ?k mod ht_ulSize t)" let ?h = "h(n \<mapsto> nd\<lparr>ulDigest := digest ?k\<rparr>)"
  have il: "?i < length bs"
    by (rule bucket_index[OF ok])
  note ok1 = other_node(1)[OF ok n(2), of "Some (nd\<lparr>ulDigest := digest ?k\<rparr>)"]
  obtain as cs where s: "bs ! ?i = as @ m # cs" "takeWhile (\<lambda>x. x \<noteq> m) (as @ m # cs) = as" "m \<in> set (concat bs)"
      "equal ?k (node_key t h m)" "m \<notin> set as"
    by (rule node_at_split[OF ok some])
  have rc: "read_link t ?h (Bucket ?i) = Some (ht_ppBuckets t ! ?i)" "chain ?h (ht_ppBuckets t ! ?i) (as @ m # cs)"
    using table_okD(7,8)[OF ok1] il by (simp_all flip: s(1))
  obtain q where r: "read_link t ?h (link_after (Bucket ?i) as) = Some q" "chain ?h q (m # cs)"
    using read_link_after[OF rc] by blast
  have ne: "m \<noteq> n" "n \<notin> set cs"
    using s(1,3) n(2) in_bucket[OF il, of n] by auto
  then obtain md where md: "h m = Some md" "q = Some m" "chain ?h (pNext md) cs"
    using r(2) by auto
  have c: "chain h (pNext md) cs"
    by (rule chain_cong[OF md(3)]) (use ne in auto)
  have m: "x \<in> set [m]" if "x \<in> set (concat bs)" "equal ?k (node_key t h x)" for x
    using node_at_iff[OF ok, of ?k x] that some by simp
  obtain bk h' where e: "write_link t (h(n \<mapsto> nd\<lparr>ulDigest := digest ?k, pNext := pNext md\<rparr>)) (link_after (Bucket ?i) as) (Some n) =
        Some (t\<lparr>ht_ppBuckets := bk\<rparr>, h')"
      "table_ok digest equal (t\<lparr>ht_ppBuckets := bk, ht_ulCount := ht_ulCount t + 1 - word_of_nat (length [m])\<rparr>) h' (bs[?i := as @ n # cs])"
      "table_frame (insert n (set (concat bs))) t h (t\<lparr>ht_ppBuckets := bk\<rparr>) h'"
      "set (concat (bs[?i := as @ n # cs])) = insert n (set (concat bs) - set [m])"
    by (rule enter_node[OF ok n refl refl _ c m, of as]) (simp_all add: s(1))
  have "LwRtlHashTableInsert t h n = Some (t\<lparr>ht_ppBuckets := bk\<rparr>, h', Some m)"
    using HashLookup_correct[OF ok1, of ?k] other_node(2)[OF ok n(2)] some n(1) e(1) table_okD(1)[OF ok] s(1,2) r(1) md ne
    by (simp add: LwRtlHashTableInsert_def Let_def)
  moreover have "inserted digest equal t h bs n (Some m) (t\<lparr>ht_ppBuckets := bk\<rparr>) h' (bs[?i := as @ n # cs])"
    using e(2-4) by (simp add: inserted_def)
  ultimately show ?thesis
    by blast
qed

lemma Insert_correct:
  assumes "table_ok digest equal t h bs" and "h n = Some nd" and "n \<notin> set (concat bs)"
  shows "\<exists>t' h' bs'. LwRtlHashTableInsert t h n = Some (t', h', node_at t h bs (pfnGetKey t (container nd)))
    \<and> inserted digest equal t h bs n (node_at t h bs (pfnGetKey t (container nd))) t' h' bs'"
  using Insert_new[OF assms] Insert_replace[OF assms] by (cases "node_at t h bs (pfnGetKey t (container nd))") simp_all

lemma node_at_Insert:
  assumes ok: "table_ok digest equal t h bs" and n: "h n = Some nd" "n \<notin> set (concat bs)"
    and ins: "inserted digest equal t h bs n (node_at t h bs (pfnGetKey t (container nd))) t' h' bs'"
  shows "node_at t' h' bs' l = (if equal l (pfnGetKey t (container nd)) then Some n else node_at t h bs l)"
proof -
  let ?k = "pfnGetKey t (container nd)"
  have ok': "table_ok digest equal t' h' bs'" and f: "table_frame (insert n (set (concat bs))) t h t' h'"
    and s: "set (concat bs') = insert n (set (concat bs) - set_option (node_at t h bs ?k))"
    using ins by (simp_all add: inserted_def)
  have kn: "node_key t' h' n = ?k"
    using table_frame_key[OF f n(1)] n(1) by (simp add: node_key_def)
  have km: "node_key t' h' m = node_key t h m" if "m \<in> set (concat bs)" for m
  proof -
    obtain j where j: "j < length bs" "m \<in> set (bs ! j)"
      using bucket_of[OF \<open>m \<in> set (concat bs)\<close>] by blast
    obtain md where "h m = Some md"
      using table_bucket[OF ok j] by blast
    then show ?thesis
      by (rule table_frame_key[OF f])
  qed
  show ?thesis
  proof (cases "equal l ?k")
    case True
    then have "node_at t' h' bs' l = Some n"
      unfolding node_at_iff[OF ok'] s kn by simp
    then show ?thesis
      using True by simp
  next
    case False
    have "node_at t' h' bs' l = node_at t h bs l"
    proof (cases "node_at t h bs l")
      case None
      then have "\<not> equal l (node_key t' h' m)" if "m \<in> set (concat bs')" for m
        using that False kn km node_at_None[OF ok, of l] unfolding s by (cases "m = n") simp_all
      then show ?thesis
        using None node_at_None[OF ok', of l] by simp
    next
      case (Some m)
      then have m: "m \<in> set (concat bs)" "equal l (node_key t h m)"
        unfolding node_at_iff[OF ok] by simp_all
      then have "node_at t h bs ?k \<noteq> Some m"
        unfolding node_at_iff[OF ok] using False equal_sym equal_trans by blast
      then have "node_at t' h' bs' l = Some m"
        unfolding node_at_iff[OF ok'] s using m km[OF m(1)] by auto
      then show ?thesis
        using Some by simp
    qed
    then show ?thesis
      using False by simp
  qed
qed

end

context hash_keys begin

lemma Remove_correct:
  assumes ok: "table_ok digest equal t h bs" and n: "n \<in> set (concat bs)"
  shows "\<exists>t' h' bs'. LwRtlHashTableRemove (Some t) h (Some n) = Some (STATUS_SUCCESS, Some t', h')
    \<and> table_ok digest equal t' h' bs' \<and> table_frame (set (concat bs) - {n}) t h t' h' \<and> set (concat bs') = set (concat bs) - {n}"
proof -
  obtain i where i: "i < length bs" "n \<in> set (bs ! i)"
    using bucket_of[OF n] by blast
  obtain nd where nd: "h n = Some nd" "unat (ulDigest nd mod ht_ulSize t) = i"
    using table_bucket[OF ok i] by blast
  note D = table_okD[OF ok]
  obtain as cs where s: "bs ! i = as @ n # cs" "n \<notin> set as"
    using split_list_first[OF i(2)] by blast
  have dx: "distinct (as @ n # cs)"
    using D(6) unfolding concat_split(2)[OF i(1)] s(1) by auto
  have rc: "read_link t h (Bucket i) = Some (ht_ppBuckets t ! i)" "chain h (ht_ppBuckets t ! i) (as @ n # cs)"
    using D(7,8) i(1) by (simp_all flip: s(1))
  obtain q where "read_link t h (link_after (Bucket i) as) = Some q" "chain h q (n # cs)"
    using read_link_after[OF rc] by blast
  then have c: "chain h (pNext nd) cs"
    using nd(1) by simp
  have dj: "set as \<inter> set cs = {}"
    using dx by auto
  obtain bk h' where w: "write_link t h (link_after (Bucket i) as) (pNext nd) = Some (t\<lparr>ht_ppBuckets := bk\<rparr>, h')"
    and lb: "length bk = length bs" and ch: "\<And>j. j < length bs \<Longrightarrow> chain h' (bk ! j) (bs[i := as @ cs] ! j)"
    and same: "\<And>m. m \<notin> set as \<Longrightarrow> h' m = h m"
    and dg: "\<And>m. map_option ulDigest (h' m) = map_option ulDigest (h m)"
    and ct: "\<And>m. map_option container (h' m) = map_option container (h m)"
    using write_behind[OF D(5) i(1) s(1) c dj] by metis
  have loc: "locate_loop t h n (Bucket i) = Some (STATUS_SUCCESS, Some (link_after (Bucket i) as))"
    using locate_loop_correct[OF rc] takeWhile_first[OF s(2)] by simp
  have r: "LwRtlHashTableRemove (Some t) h (Some n) = Some (STATUS_SUCCESS, Some (t\<lparr>ht_ppBuckets := bk, ht_ulCount := ht_ulCount t - 1\<rparr>), h')"
    using D(3) nd loc w by (simp add: LwRtlHashTableRemove_def HashLocate_def bucket_link_def)
  have sx: "set (concat (bs[i := as @ cs])) = set (concat bs) - {n}"
    using dx in_bucket[OF i(1)] unfolding set_concat_update[OF D(6) i(1)] s(1) by auto
  have sub: "set as \<subseteq> set (concat bs) - {n}"
    using in_bucket[OF i(1)] s by auto
  have "length (concat (bs[i := as @ cs])) + 1 = length (concat bs)"
    using s unfolding concat_split(1)[OF i(1)] concat_split(2)[OF i(1)] by simp
  then have "(word_of_nat (length (concat (bs[i := as @ cs])) + 1) :: ULONG) = word_of_nat (length (concat bs))"
    by simp
  then have "ht_ulCount t - 1 = word_of_nat (length (concat (bs[i := as @ cs])))"
    unfolding D(10) of_nat_add by (simp add: algebra_simps)
  then have "table_ok digest equal (t\<lparr>ht_ppBuckets := bk, ht_ulCount := ht_ulCount t - 1\<rparr>) h' (bs[i := as @ cs])"
    by (intro table_ok_update[OF ok i(1) lb ch]) (use dx dg ct s in auto)
  moreover have "table_frame (set (concat bs) - {n}) t h (t\<lparr>ht_ppBuckets := bk, ht_ulCount := ht_ulCount t - 1\<rparr>) h'"
    using same ct sub by (auto simp: table_frame_def)
  ultimately show ?thesis
    using r sx by blast
qed

lemma Remove_absent:
  assumes ok: "table_ok digest equal t h bs" and "n \<notin> set (concat bs)" and nd: "h n = Some nd"
  shows "LwRtlHashTableRemove (Some t) h (Some n) = Some (STATUS_NOT_FOUND, Some t, h)"
proof -
  let ?i = "unat (ulDigest nd mod ht_ulSize t)"
  have i: "?i < length bs"
    by (rule bucket_index[OF ok])
  have "n \<notin> set (bs ! ?i)"
    using assms(2) in_bucket[OF i, of n] by auto
  moreover have "read_link t h (Bucket ?i) = Some (ht_ppBuckets t ! ?i)" "chain h (ht_ppBuckets t ! ?i) (bs ! ?i)"
    using table_okD(7,8)[OF ok] i by simp_all
  ultimately show ?thesis
    using locate_loop_correct[of t h "Bucket ?i"] table_okD(3)[OF ok] nd
    by (simp add: LwRtlHashTableRemove_def HashLocate_def bucket_link_def)
qed

end

section \<open>Iteration\<close>

text \<open>What an iterator has still to visit: the rest of the chain it stands in and the buckets from its index on.\<close>

definition buckets_from :: "('u, 'k) LW_HASHTABLE \<Rightarrow> 'u node_store \<Rightarrow> nat list list \<Rightarrow> nat \<Rightarrow> bool" where
  "buckets_from t h bs i \<longleftrightarrow> length bs = unat (ht_ulSize t) \<and> length (ht_ppBuckets t) = length bs \<and> i \<le> length bs
     \<and> (\<forall>j<length bs. i \<le> j \<longrightarrow> chain h (ht_ppBuckets t ! j) (bs ! j))"

definition iter_rest :: "('u, 'k) LW_HASHTABLE \<Rightarrow> 'u node_store \<Rightarrow> nat list list \<Rightarrow> LW_HASHTABLE_ITER \<Rightarrow> nat list \<Rightarrow> bool" where
  "iter_rest t h bs iter ns \<longleftrightarrow> buckets_from t h bs (unat (it_ulIndex iter))
     \<and> (\<exists>as. chain h (it_pNext iter) as \<and> ns = as @ concat (drop (unat (it_ulIndex iter)) bs))"

lemma iter_loop_correct:
  assumes "buckets_from t h bs (unat i)"
  shows "case concat (drop (unat i) bs) of
      [] \<Rightarrow> iter_loop t i = Some (None, ht_ulSize t)
    | n # ns \<Rightarrow> \<exists>j nd. iter_loop t i = Some (Some n, j) \<and> h n = Some nd \<and> iter_rest t h bs \<lparr> it_pNext = pNext nd, it_ulIndex = j \<rparr> ns"
  using assms
proof (induction t i rule: iter_loop.induct)
  case (1 t i)
  show ?case
  proof (cases "i < ht_ulSize t")
    case False
    then have "unat i = length bs" "i = ht_ulSize t"
      using 1(2) by (auto simp: buckets_from_def word_less_nat_alt not_less word_unat_eq_iff)
    then show ?thesis
      by (simp add: iter_loop.simps)
  next
    case True
    have u: "unat (i + 1) = Suc (unat i)"
      using unat_Suc_less[OF True] by simp
    then have il: "unat i < length bs" and lb: "length (ht_ppBuckets t) = length bs" and c: "chain h (ht_ppBuckets t ! unat i) (bs ! unat i)"
      and b: "buckets_from t h bs (unat (i + 1))"
      using 1(2) True by (auto simp: buckets_from_def word_less_nat_alt)
    have d: "concat (drop (unat i) bs) = bs ! unat i @ concat (drop (unat (i + 1)) bs)"
      using il u by (simp flip: Cons_nth_drop_Suc)
    show ?thesis
    proof (cases "bs ! unat i")
      case Nil
      then have eq: "iter_loop t i = iter_loop t (i + 1)"
        using c True lb il by (subst iter_loop.simps) simp
      show ?thesis
        unfolding eq using 1(1)[OF True _ _ b] c Nil lb il d by simp
    next
      case (Cons n ns)
      then obtain nd where nd: "ht_ppBuckets t ! unat i = Some n" "h n = Some nd" "chain h (pNext nd) ns"
        using c by auto
      then have "iter_loop t i = Some (Some n, i + 1)"
        using True lb il by (subst iter_loop.simps) simp
      then show ?thesis
        using nd Cons d b by (auto simp: iter_rest_def)
    qed
  qed
qed

lemma Iterate_correct:
  assumes "iter_rest t h bs iter ns"
  shows "case ns of
      [] \<Rightarrow> \<exists>iter'. LwRtlHashTableIterate t h iter = Some (None, iter')
    | n # ms \<Rightarrow> \<exists>iter'. LwRtlHashTableIterate t h iter = Some (Some n, iter') \<and> iter_rest t h bs iter' ms"
proof -
  obtain as where as: "chain h (it_pNext iter) as" "ns = as @ concat (drop (unat (it_ulIndex iter)) bs)"
    "buckets_from t h bs (unat (it_ulIndex iter))"
    using assms by (auto simp: iter_rest_def)
  show ?thesis
  proof (cases as)
    case Nil
    then have e: "concat (drop (unat (it_ulIndex iter)) bs) = ns" and p: "it_pNext iter = None"
      using as by simp_all
    show ?thesis
      using iter_loop_correct[OF as(3), unfolded e] p by (cases ns) (auto simp: LwRtlHashTableIterate_def)
  next
    case (Cons a xs)
    then show ?thesis
      using as by (auto simp: LwRtlHashTableIterate_def iter_rest_def)
  qed
qed

lemma iter_rest_start: "table_ok digest equal t h bs \<Longrightarrow> iter_rest t h bs LwRtlHashTableResetIter (concat bs)"
  using table_okD(4,7,8) by (fastforce simp: iter_rest_def buckets_from_def LwRtlHashTableResetIter_def)

text \<open>A client's loop over the whole table.\<close>

partial_function (option) visit_all ::
    "('u, 'k) LW_HASHTABLE \<Rightarrow> 'u node_store \<Rightarrow> LW_HASHTABLE_ITER \<Rightarrow> nat list option" where
  "visit_all t h iter = do {
     (p, iter) \<leftarrow> LwRtlHashTableIterate t h iter;
     case p of None \<Rightarrow> Some [] | Some n \<Rightarrow> do { ns \<leftarrow> visit_all t h iter; Some (n # ns) }
   }"

lemma visit_all_correct: "iter_rest t h bs iter ns \<Longrightarrow> visit_all t h iter = Some ns"
proof (induction ns arbitrary: iter)
  case Nil
  then show ?case
    using Iterate_correct[of t h bs iter "[]"] by (subst visit_all.simps) auto
next
  case (Cons n ns)
  then obtain iter' where "LwRtlHashTableIterate t h iter = Some (Some n, iter')" "iter_rest t h bs iter' ns"
    using Iterate_correct[of t h bs iter "n # ns"] by auto
  then show ?case
    using Cons.IH[of iter'] by (subst visit_all.simps) simp
qed

text \<open>Clearing with a function that frees the node it gets: the iterator has left a node before it is freed, and every
  node is given to the function once.\<close>

lemma iter_rest_free:
  assumes "iter_rest t h bs iter ns" and "n \<notin> set ns"
  shows "iter_rest t (h(n := None)) bs iter ns"
proof -
  let ?i = "unat (it_ulIndex iter)"
  obtain as where as: "chain h (it_pNext iter) as" "ns = as @ concat (drop ?i bs)" "buckets_from t h bs ?i"
    using assms(1) by (auto simp: iter_rest_def)
  have "chain (h(n := None)) p ms" if "chain h p ms" "n \<notin> set ms" for p ms
    by (rule chain_cong[OF that(1)]) (use that(2) in auto)
  moreover have "n \<notin> set as"
    using assms(2) as(2) by simp
  moreover have "n \<notin> set (bs ! j)" if "j < length bs" "?i \<le> j" for j
  proof -
    have "bs ! j \<in> set (drop ?i bs)"
      using that nth_mem[of "j - ?i" "drop ?i bs"] by simp
    then show ?thesis
      using assms(2) as(2) by (auto simp: set_concat)
  qed
  ultimately show ?thesis
    using as by (auto simp: iter_rest_def buckets_from_def)
qed

lemma clear_loop_correct:
  assumes "\<And>n h s nd. h n = Some nd \<Longrightarrow> f n (h, s) = Some (h(n := None), g (container nd) s)"
  shows "iter_rest t h bs iter ns \<Longrightarrow> distinct ns \<Longrightarrow>
    clear_loop t f (h, s) iter = Some (h |` (- set ns), fold (\<lambda>n. g (container (the (h n)))) ns s)"
proof (induction ns arbitrary: h s iter)
  case Nil
  then show ?case
    using Iterate_correct[of t h bs iter "[]"] by (subst clear_loop.simps) (auto simp: restrict_map_def)
next
  case (Cons n ns)
  then obtain iter' where i: "LwRtlHashTableIterate t h iter = Some (Some n, iter')" "iter_rest t h bs iter' ns"
    using Iterate_correct[of t h bs iter "n # ns"] by auto
  then obtain nd where nd: "h n = Some nd"
    by (auto simp: LwRtlHashTableIterate_def bind_eq_Some_conv split: option.splits)
  have r: "(h(n := None)) |` (- set ns) = h |` (- set (n # ns))"
    by (auto simp: restrict_map_def)
  have g: "fold (\<lambda>m. g (container (the ((h(n := None)) m)))) ns x = fold (\<lambda>m. g (container (the (h m)))) ns x" for x
    by (rule fold_cong) (use Cons.prems(2) in auto)
  have "clear_loop t f (h, s) iter = clear_loop t f (h(n := None), g (container nd) s) iter'"
    using i(1) assms[of h n nd s] nd by (subst clear_loop.simps) simp
  also have "\<dots> = Some ((h(n := None)) |` (- set ns), fold (\<lambda>m. g (container (the ((h(n := None)) m)))) ns (g (container nd) s))"
    by (rule Cons.IH[OF iter_rest_free[OF i(2)]]) (use Cons.prems(2) in auto)
  also have "\<dots> = Some (h |` (- set (n # ns)), fold (\<lambda>n. g (container (the (h n)))) (n # ns) s)"
    unfolding r g using nd by simp
  finally show ?case .
qed

section \<open>Resizing\<close>

text \<open>Nodes that can be added one after another: they are not in the table, and no two of all the nodes have equal keys.\<close>

definition addable :: "('k \<Rightarrow> 'k \<Rightarrow> bool) \<Rightarrow> ('u, 'k) LW_HASHTABLE \<Rightarrow> 'u node_store \<Rightarrow> nat list list \<Rightarrow> nat list \<Rightarrow> bool" where
  "addable equal t h bs ns \<longleftrightarrow> distinct ns \<and> set ns \<inter> set (concat bs) = {} \<and> (\<forall>m\<in>set ns \<union> set (concat bs). h m \<noteq> None)
     \<and> (\<forall>m\<in>set ns \<union> set (concat bs). \<forall>m'\<in>set ns \<union> set (concat bs). equal (node_key t h m) (node_key t h m') \<longrightarrow> m = m')"

definition moved ::
    "('k \<Rightarrow> ULONG) \<Rightarrow> ('k \<Rightarrow> 'k \<Rightarrow> bool) \<Rightarrow> ('u, 'k) LW_HASHTABLE \<Rightarrow> 'u node_store \<Rightarrow> nat list list \<Rightarrow> nat list \<Rightarrow>
     ('u, 'k) LW_HASHTABLE \<Rightarrow> 'u node_store \<Rightarrow> nat list list \<Rightarrow> bool" where
  "moved digest equal t h bs ns t' h' bs' \<longleftrightarrow> table_ok digest equal t' h' bs'
     \<and> set (concat bs') = set ns \<union> set (concat bs) \<and> table_frame (set ns \<union> set (concat bs)) t h t' h' \<and> ht_ulSize t' = ht_ulSize t"

lemma moved_trans:
  assumes "moved digest equal t h bs ms t1 h1 bs1" and "moved digest equal t1 h1 bs1 ns t2 h2 bs2"
  shows "moved digest equal t h bs (ms @ ns) t2 h2 bs2"
  using assms by (auto simp: moved_def table_frame_def)

lemma addable_moved:
  assumes "addable equal t h bs (ms @ ns)" and "moved digest equal t h bs ms t' h' bs'"
  shows "addable equal t' h' bs' ns"
proof -
  have s: "set (concat bs') = set ms \<union> set (concat bs)" and f: "table_frame (set ms \<union> set (concat bs)) t h t' h'"
    using assms(2) by (auto simp: moved_def)
  have k: "node_key t' h' m = node_key t h m" "h' m \<noteq> None" if m: "m \<in> set (ms @ ns) \<union> set (concat bs)" for m
  proof -
    obtain nd where nd: "h m = Some nd"
      using assms(1) m unfolding addable_def by blast
    show "node_key t' h' m = node_key t h m"
      by (rule table_frame_key[OF f nd])
    have "map_option container (h' m) = map_option container (h m)"
      using f unfolding table_frame_def by blast
    then show "h' m \<noteq> None"
      using nd by auto
  qed
  have u: "set ns \<union> set (concat bs') = set (ms @ ns) \<union> set (concat bs)"
    using s by auto
  have "set ns \<inter> set (concat bs') = {}"
    using assms(1) s unfolding addable_def by auto
  then show ?thesis
    using assms(1) k unfolding addable_def u by simp
qed

context hash_keys begin

lemma resize_chain_correct:
  "table_ok digest equal t h bs \<Longrightarrow> chain h p ns \<Longrightarrow> addable equal t h bs ns \<Longrightarrow>
    \<exists>t' h' bs'. resize_chain t h p = Some (t', h') \<and> moved digest equal t h bs ns t' h' bs'"
proof (induction ns arbitrary: t h p bs)
  case Nil
  then show ?case
    by (subst resize_chain.simps) (auto simp: moved_def table_frame_def)
next
  case (Cons n ns)
  obtain nd where nd: "p = Some n" "h n = Some nd" "chain h (pNext nd) ns"
    using Cons.prems(2) by auto
  have n: "n \<notin> set (concat bs)" "n \<notin> set ns" "set ns \<inter> set (concat bs) = {}"
    using Cons.prems(3) by (auto simp: addable_def)
  have "node_at t h bs (pfnGetKey t (container nd)) = None"
  proof (rule ccontr)
    assume "node_at t h bs (pfnGetKey t (container nd)) \<noteq> None"
    then obtain m where "m \<in> set (concat bs)" "equal (pfnGetKey t (container nd)) (node_key t h m)"
      using node_at_iff[OF Cons.prems(1)] by blast
    moreover have "pfnGetKey t (container nd) = node_key t h n"
      using nd(2) by (simp add: node_key_def)
    ultimately have "n = m"
      using Cons.prems(3) unfolding addable_def by simp
    then show False
      using \<open>m \<in> set (concat bs)\<close> n(1) by blast
  qed
  then obtain t1 h1 bs1 where i: "LwRtlHashTableInsert t h n = Some (t1, h1, None)" "inserted digest equal t h bs n None t1 h1 bs1"
    using Insert_new[OF Cons.prems(1) nd(2) n(1)] by blast
  then have m: "moved digest equal t h bs [n] t1 h1 bs1"
    by (simp add: inserted_def moved_def)
  have "chain h1 (pNext nd) ns"
    by (rule chain_cong[OF nd(3)]) (use i(2) n in \<open>auto simp: inserted_def table_frame_def\<close>)
  moreover have "addable equal t1 h1 bs1 ns"
    using addable_moved[of equal t h bs "[n]" ns] Cons.prems(3) m by simp
  moreover have "table_ok digest equal t1 h1 bs1"
    using i(2) by (simp add: inserted_def)
  ultimately obtain t' h' bs' where r: "resize_chain t1 h1 (pNext nd) = Some (t', h')" "moved digest equal t1 h1 bs1 ns t' h' bs'"
    using Cons.IH by blast
  have "resize_chain t h p = Some (t', h')"
    using nd i(1) r(1) by (subst resize_chain.simps) simp
  then show ?case
    using moved_trans[OF m r(2)] by auto
qed

lemma resize_loop_correct:
  "table_ok digest equal t h bs \<Longrightarrow> (\<And>j. i \<le> j \<Longrightarrow> j < i + n \<Longrightarrow> j < length old \<and> chain h (old ! j) (obs ! j)) \<Longrightarrow>
   length obs = i + n \<Longrightarrow> addable equal t h bs (concat (drop i obs)) \<Longrightarrow>
    \<exists>t' h' bs'. resize_loop t h old i n = Some (t', h') \<and> moved digest equal t h bs (concat (drop i obs)) t' h' bs'"
proof (induction n arbitrary: t h bs i)
  case 0
  then show ?case
    by (auto simp: moved_def table_frame_def)
next
  case (Suc n)
  have d: "concat (drop i obs) = obs ! i @ concat (drop (i + 1) obs)"
    using Suc.prems(3) by (simp flip: Cons_nth_drop_Suc)
  have a: "addable equal t h bs (obs ! i @ concat (drop (i + 1) obs))"
    using Suc.prems(4) d by simp
  then have "addable equal t h bs (obs ! i)"
    unfolding addable_def by auto
  moreover have "chain h (old ! i) (obs ! i)"
    using Suc.prems(2)[of i] by simp
  ultimately obtain t1 h1 bs1 where r: "resize_chain t h (old ! i) = Some (t1, h1)" "moved digest equal t h bs (obs ! i) t1 h1 bs1"
    using resize_chain_correct[OF Suc.prems(1)] by blast
  have "chain h1 (old ! j) (obs ! j)" if j: "i + 1 \<le> j" "j < i + 1 + n" for j
  proof (rule chain_cong)
    show "chain h (old ! j) (obs ! j)"
      using Suc.prems(2)[of j] j by simp
    fix m assume "m \<in> set (obs ! j)"
    moreover have "obs ! j \<in> set (drop (i + 1) obs)"
      using j Suc.prems(3) nth_mem[of "j - (i + 1)" "drop (i + 1) obs"] by simp
    ultimately have "m \<in> set (concat (drop (i + 1) obs))"
      by (auto simp: set_concat)
    then have "m \<notin> set (obs ! i) \<union> set (concat bs)"
      using a by (auto simp: addable_def)
    then have "h1 m = h m"
      using r(2) by (simp add: moved_def table_frame_def)
    then show "map_option pNext (h1 m) = map_option pNext (h m)"
      by simp
  qed
  moreover have "table_ok digest equal t1 h1 bs1"
    using r(2) by (simp add: moved_def)
  ultimately obtain t' h' bs' where l: "resize_loop t1 h1 old (i + 1) n = Some (t', h')"
    "moved digest equal t1 h1 bs1 (concat (drop (i + 1) obs)) t' h' bs'"
    using Suc.IH[of t1 h1 bs1 "i + 1"] Suc.prems(2,3) addable_moved[OF a r(2)] by fastforce
  then show ?case
    using moved_trans[OF r(2) l(2)] r(1) l(1) d Suc.prems(2)[of i] by auto
qed

end

lemma table_ok_threshold: "table_ok digest equal (t\<lparr>ht_ulThreshold := x\<rparr>) h bs = table_ok digest equal t h bs"
  by (simp add: table_ok_def node_key_def)

text \<open>The empty table.\<close>

lemma table_ok_empty:
  assumes "0 < ht_ulSize t" and "ht_ppBuckets t = replicate (unat (ht_ulSize t)) None" and "ht_ulCount t = 0"
  shows "table_ok (pfnDigest t) (pfnEqual t) t h (replicate (unat (ht_ulSize t)) [])"
  using assms by (simp add: table_ok_def chains_def)

context hash_keys begin

text \<open>Resizing keeps the nodes, their keys and the invariant, and fails without a change.\<close>

lemma Resize_correct:
  assumes ok: "table_ok digest equal t h bs"
  shows "if ulSize = 0 then LwRtlHashTableResize avail (Some t) h ulSize = Some (STATUS_INVALID_PARAMETER, Some t, h)
    else if \<not> avail (8 * unat ulSize) then LwRtlHashTableResize avail (Some t) h ulSize = Some (STATUS_INSUFFICIENT_RESOURCES, Some t, h)
    else \<exists>t' h' bs'. LwRtlHashTableResize avail (Some t) h ulSize = Some (STATUS_SUCCESS, Some t', h')
      \<and> table_ok digest equal t' h' bs' \<and> table_frame (set (concat bs)) t h t' h' \<and> set (concat bs') = set (concat bs)
      \<and> ht_ulSize t' = ulSize \<and> ht_ulThreshold t' = RESIZE_THRESHOLD ulSize"
proof (cases "ulSize = 0 \<or> \<not> avail (8 * unat ulSize)")
  case True
  then show ?thesis
    by (auto simp: LwRtlHashTableResize_def RTL_ALLOCATE_cases word_less_1 unat_eq_0)
next
  case False
  let ?t = "t\<lparr>ht_ulSize := ulSize, ht_ulCount := 0, ht_ppBuckets := replicate (unat ulSize) None\<rparr>"
  let ?e = "replicate (unat ulSize) [] :: nat list list"
  note D = table_okD[OF ok]
  have pos: "0 < ulSize" "unat ulSize \<noteq> 0"
    using False by (simp_all add: word_gt_0 unat_eq_0)
  have e: "table_ok digest equal ?t h ?e" "set (concat ?e) = {}"
    using table_ok_empty[of ?t h] pos(1) D(1,2) by (simp_all add: set_concat)
  have "h m \<noteq> None" if m: "m \<in> set (concat bs)" for m
  proof -
    obtain i where i: "i < length bs" "m \<in> set (bs ! i)"
      using bucket_of[OF m] by blast
    show ?thesis
      using table_bucket[OF ok i] by auto
  qed
  then have a: "addable equal ?t h ?e (concat (drop 0 bs))"
    using D(6,9) unfolding addable_def e(2) by (simp add: node_key_def)
  obtain t' h' bs' where l: "resize_loop ?t h (ht_ppBuckets t) 0 (unat (ht_ulSize t)) = Some (t', h')"
    "moved digest equal ?t h ?e (concat (drop 0 bs)) t' h' bs'"
    using resize_loop_correct[OF e(1) _ _ a, of "unat (ht_ulSize t)" "ht_ppBuckets t"] D(4,7,8) by auto
  let ?r = "t'\<lparr>ht_ulThreshold := RESIZE_THRESHOLD ulSize\<rparr>"
  have "LwRtlHashTableResize avail (Some t) h ulSize = Some (STATUS_SUCCESS, Some ?r, h')"
    using False pos l(1) by (simp add: LwRtlHashTableResize_def RTL_ALLOCATE_cases word_less_1 Let_def)
  moreover have "table_ok digest equal ?r h' bs'"
    unfolding table_ok_threshold using l(2) by (simp add: moved_def)
  moreover have "table_frame (set (concat bs)) t h ?r h'" "set (concat bs') = set (concat bs)" "ht_ulSize ?r = ulSize"
    using l(2) e(2) by (simp_all add: moved_def table_frame_def)
  ultimately show ?thesis
    using False by (intro if_not_P[THEN iffD2]) auto
qed

end

context hash_keys begin

lemma table_nodes: "table_ok digest equal t h bs \<Longrightarrow> m \<in> set (concat bs) \<Longrightarrow> \<exists>nd. h m = Some nd"
  using bucket_of[of m bs] table_bucket[of t h bs _ m] by blast

lemma node_at_same:
  assumes ok: "table_ok digest equal t h bs" and ok': "table_ok digest equal t' h' bs'" and f: "table_frame N t h t' h'"
    and s: "set (concat bs') = set (concat bs)"
  shows "node_at t' h' bs' k = node_at t h bs k"
proof -
  have "node_at t' h' bs' k = Some m \<longleftrightarrow> node_at t h bs k = Some m" for m
    unfolding node_at_iff[OF ok] node_at_iff[OF ok'] s using table_nodes[OF ok, of m] table_frame_key[OF f, of m] by auto
  then show ?thesis
    by (rule option_eqI)
qed

lemma node_at_Remove:
  assumes ok: "table_ok digest equal t h bs" and ok': "table_ok digest equal t' h' bs'" and f: "table_frame N t h t' h'"
    and s: "set (concat bs') = set (concat bs) - {n}" and n: "node_at t h bs k = Some n"
  shows "node_at t' h' bs' l = (if equal l k then None else node_at t h bs l)"
proof -
  have key: "node_key t' h' m = node_key t h m" if "m \<in> set (concat bs)" for m
    using table_nodes[OF ok that] table_frame_key[OF f, of m] by auto
  have kn: "n \<in> set (concat bs)" "equal k (node_key t h n)"
    using n unfolding node_at_iff[OF ok] by simp_all
  have "node_at t' h' bs' l = Some m \<longleftrightarrow> \<not> equal l k \<and> node_at t h bs l = Some m" for m
  proof (cases "m \<in> set (concat bs)")
    case True
    have "m = n" if "equal l k" "equal l (node_key t h m)"
      by (rule table_okD(9)[OF ok True kn(1) equal_trans[OF equal_sym[OF that(2)] equal_trans[OF that(1) kn(2)]]])
    moreover have "equal l k" if "equal l (node_key t h m)" "m = n"
      using equal_trans[OF _ equal_sym[OF kn(2)], of l] that by simp
    ultimately show ?thesis
      unfolding node_at_iff[OF ok] node_at_iff[OF ok'] s using True key[OF True] by auto
  next
    case False
    then show ?thesis
      unfolding node_at_iff[OF ok] node_at_iff[OF ok'] s by simp
  qed
  then show ?thesis
    by (intro option_eqI) simp
qed

lemma ResizeAndInsert_correct:
  assumes ok: "table_ok digest equal t h bs" and n: "h n = Some nd" "n \<notin> set (concat bs)"
  shows "\<exists>t' h' bs'. LwRtlHashTableResizeAndInsert avail t h n = Some (t', h', node_at t h bs (pfnGetKey t (container nd)))
    \<and> table_ok digest equal t' h' bs' \<and> table_frame (insert n (set (concat bs))) t h t' h'
    \<and> set (concat bs') = insert n (set (concat bs) - set_option (node_at t h bs (pfnGetKey t (container nd))))
    \<and> (\<forall>l. node_at t' h' bs' l = (if equal l (pfnGetKey t (container nd)) then Some n else node_at t h bs l))"
proof -
  obtain t1 h1 bs1 where r: "(if ht_ulCount t \<ge> ht_ulThreshold t then do {
         (_, t', h) \<leftarrow> LwRtlHashTableResize avail (Some t) h (ht_ulSize t * 2);
         t' \<leftarrow> t';
         Some (t', h)
       } else Some (t, h)) = Some (t1, h1)"
    and ok1: "table_ok digest equal t1 h1 bs1" and f1: "table_frame (set (concat bs)) t h t1 h1" and s1: "set (concat bs1) = set (concat bs)"
  proof (cases "ht_ulCount t \<ge> ht_ulThreshold t \<and> ht_ulSize t * 2 \<noteq> 0 \<and> avail (8 * unat (ht_ulSize t * 2))")
    case True
    then obtain t1 h1 bs1 where "LwRtlHashTableResize avail (Some t) h (ht_ulSize t * 2) = Some (STATUS_SUCCESS, Some t1, h1)"
      "table_ok digest equal t1 h1 bs1" "table_frame (set (concat bs)) t h t1 h1" "set (concat bs1) = set (concat bs)"
      using Resize_correct[OF ok, of "ht_ulSize t * 2" avail] by auto
    then show thesis
      using that True by simp
  next
    case False
    then show thesis
      using Resize_correct[OF ok, of "ht_ulSize t * 2" avail] that[OF _ ok]
      by (auto simp: table_frame_def split: if_splits)
  qed
  have n1: "h1 n = Some nd" "n \<notin> set (concat bs1)"
    using f1 n s1 by (auto simp: table_frame_def)
  have g: "pfnGetKey t1 = pfnGetKey t"
    using f1 by (simp add: table_frame_def)
  note na = node_at_same[OF ok ok1 f1 s1]
  obtain t' h' bs' where i: "LwRtlHashTableInsert t1 h1 n = Some (t', h', node_at t h bs (pfnGetKey t (container nd)))"
    "inserted digest equal t1 h1 bs1 n (node_at t h bs (pfnGetKey t (container nd))) t' h' bs'"
    using Insert_correct[OF ok1 n1] unfolding na g by blast
  have "LwRtlHashTableResizeAndInsert avail t h n = Some (t', h', node_at t h bs (pfnGetKey t (container nd)))"
    unfolding LwRtlHashTableResizeAndInsert_def r using i(1) by simp
  moreover have "table_frame (insert n (set (concat bs))) t h t' h'"
    using i(2) f1 s1 unfolding inserted_def table_frame_def by auto
  moreover have "node_at t' h' bs' l = (if equal l (pfnGetKey t (container nd)) then Some n else node_at t h bs l)" for l
    using node_at_Insert[OF ok1 n1, of t' h' bs' l] i(2) unfolding na g by simp
  ultimately show ?thesis
    using i(2) s1 unfolding inserted_def by blast
qed

end

declare set_concat [simp]

end
