(* ===== verification/Lw_Hash_Map.thy ===== *)
theory Lw_Hash_Map
  imports Lw_Hash
begin

text \<open>
  The hash map of \<^verbatim>\<open>hash.c\<close>, a hash table whose nodes hold a key and a value, and the digests and comparisons it
  offers for keys.  A string key is NULL or the list of the characters before its terminator.  Case conversion depends
  on the locale, so the conversions of bytes and of wide characters are parameters.
\<close>

section \<open>Operations\<close>

record ('k, 'v) LW_HASHMAP_PAIR =
  pKey :: 'k
  pValue :: 'v

type_synonym ('k, 'v) LW_HASHMAP = "(('k, 'v) LW_HASHMAP_PAIR, 'k) LW_HASHTABLE"

type_synonym ('k, 'v) pair_store = "('k, 'v) LW_HASHMAP_PAIR node_store"

definition HashPairNodeGetKey :: "('k, 'v) LW_HASHMAP_PAIR \<Rightarrow> 'k" where
  "HashPairNodeGetKey p = pKey p"

text \<open>The client's function for a pair, which may be NULL, acts on a state of the client; then the node is freed.\<close>

definition HashPairFreeNode ::
    "(('k, 'v) LW_HASHMAP_PAIR \<Rightarrow> 's \<Rightarrow> 's) option \<Rightarrow> nat \<Rightarrow> ('k, 'v) pair_store \<times> 's \<Rightarrow> (('k, 'v) pair_store \<times> 's) option" where
  "HashPairFreeNode pFree n hs = do {
     nd \<leftarrow> fst hs n;
     f \<leftarrow> pFree;
     Some ((fst hs)(n := None), f (container nd) (snd hs))
   }"

definition LwRtlCreateHashMap ::
    "(nat \<Rightarrow> bool) \<Rightarrow> ('k \<Rightarrow> ULONG) option \<Rightarrow> ('k \<Rightarrow> 'k \<Rightarrow> bool) option \<Rightarrow> NTSTATUS \<times> ('k, 'v) LW_HASHMAP option" where
  "LwRtlCreateHashMap avail digest equal = LwRtlCreateHashTable avail (Some HashPairNodeGetKey) digest equal 17"

text \<open>The argument \<^verbatim>\<open>newNode\<close> is the result of allocating a node; the fourth result is the previous pair.\<close>

definition LwRtlHashMapInsert ::
    "(nat \<Rightarrow> bool) \<Rightarrow> nat option \<Rightarrow> ('k, 'v) LW_HASHMAP option \<Rightarrow> ('k, 'v) pair_store \<Rightarrow> 'k \<Rightarrow> 'v \<Rightarrow>
     (NTSTATUS \<times> ('k, 'v) LW_HASHMAP option \<times> ('k, 'v) pair_store \<times> ('k, 'v) LW_HASHMAP_PAIR option) option" where
  "LwRtlHashMapInsert avail newNode pMap h k v =
    (case pMap of
       None \<Rightarrow> Some (STATUS_INVALID_PARAMETER, None, h, None)
     | Some t \<Rightarrow>
         (case newNode of
            None \<Rightarrow> Some (STATUS_INSUFFICIENT_RESOURCES, Some t, h, None)
          | Some n \<Rightarrow> do {
              let h = h(n \<mapsto> \<lparr> pNext = None, ulDigest = 0, container = \<lparr> pKey = k, pValue = v \<rparr> \<rparr>);
              (t, h, prev) \<leftarrow> LwRtlHashTableResizeAndInsert avail t h n;
              case prev of
                None \<Rightarrow> Some (STATUS_SUCCESS, Some t, h, None)
              | Some p \<Rightarrow> do { nd \<leftarrow> h p; Some (STATUS_SUCCESS, Some t, h(p := None), Some (container nd)) }
            }))"

definition LwRtlHashMapRemove ::
    "('k, 'v) LW_HASHMAP option \<Rightarrow> ('k, 'v) pair_store \<Rightarrow> 'k \<Rightarrow>
     (NTSTATUS \<times> ('k, 'v) LW_HASHMAP option \<times> ('k, 'v) pair_store \<times> ('k, 'v) LW_HASHMAP_PAIR option) option" where
  "LwRtlHashMapRemove pMap h k =
    (case pMap of
       None \<Rightarrow> Some (STATUS_INVALID_PARAMETER, None, h, None)
     | Some t \<Rightarrow> do {
         (status, pNode) \<leftarrow> LwRtlHashTableFindKey (Some t) h k;
         if status \<noteq> STATUS_SUCCESS then Some (status, Some t, h, None)
         else do {
           (status, t, h) \<leftarrow> LwRtlHashTableRemove (Some t) h pNode;
           case pNode of
             None \<Rightarrow> Some (status, t, h, None)
           | Some n \<Rightarrow> do { nd \<leftarrow> h n; Some (status, t, h(n := None), Some (container nd)) }
         }
       })"

definition LwRtlHashMapFindKey ::
    "('k, 'v) LW_HASHMAP option \<Rightarrow> ('k, 'v) pair_store \<Rightarrow> 'k \<Rightarrow> (NTSTATUS \<times> 'v option) option" where
  "LwRtlHashMapFindKey pMap h k =
    (case pMap of
       None \<Rightarrow> Some (STATUS_INVALID_PARAMETER, None)
     | Some t \<Rightarrow> do {
         (status, pNode) \<leftarrow> LwRtlHashTableFindKey (Some t) h k;
         case pNode of
           None \<Rightarrow> Some (status, None)
         | Some n \<Rightarrow> do { nd \<leftarrow> h n; Some (status, Some (pValue (container nd))) }
       })"

definition LwRtlHashMapResetIter :: LW_HASHTABLE_ITER where
  "LwRtlHashMapResetIter = LwRtlHashTableResetIter"

definition LwRtlHashMapIterate ::
    "('k, 'v) LW_HASHMAP \<Rightarrow> ('k, 'v) pair_store \<Rightarrow> LW_HASHTABLE_ITER \<Rightarrow>
     (('k, 'v) LW_HASHMAP_PAIR option \<times> LW_HASHTABLE_ITER) option" where
  "LwRtlHashMapIterate t h iter = do {
     (p, iter) \<leftarrow> LwRtlHashTableIterate t h iter;
     case p of None \<Rightarrow> Some (None, iter) | Some n \<Rightarrow> do { nd \<leftarrow> h n; Some (Some (container nd), iter) }
   }"

definition LwRtlHashMapClear ::
    "('k, 'v) LW_HASHMAP \<Rightarrow> ('k, 'v) pair_store \<times> 's \<Rightarrow> (('k, 'v) LW_HASHMAP_PAIR \<Rightarrow> 's \<Rightarrow> 's) option \<Rightarrow>
     (('k, 'v) LW_HASHMAP \<times> ('k, 'v) pair_store \<times> 's) option" where
  "LwRtlHashMapClear t hs pFree = LwRtlHashTableClear t hs (Some (HashPairFreeNode pFree))"

definition LwRtlHashMapGetCount :: "('k, 'v) LW_HASHMAP \<Rightarrow> ULONG" where
  "LwRtlHashMapGetCount t = LwRtlHashTableGetCount t"

text \<open>The first result is the map pointer afterwards.  The blocks of the table are released as by its own function.\<close>

definition LwRtlFreeHashMap ::
    "('k, 'v) LW_HASHMAP option \<Rightarrow> ('k, 'v) pair_store \<Rightarrow> (('k, 'v) LW_HASHMAP option \<times> ('k, 'v) pair_store) option" where
  "LwRtlFreeHashMap pMap h =
    (case pMap of
       None \<Rightarrow> Some (None, h)
     | Some t \<Rightarrow> do { (t, h, _) \<leftarrow> LwRtlHashMapClear t (h, ()) None; case LwRtlFreeHashTable (Some (Some t)) of (_, released) \<Rightarrow> Some (None, h) })"

section \<open>Keys\<close>

fun digest_loop :: "('c \<Rightarrow> ULONG) \<Rightarrow> ULONG \<Rightarrow> 'c list \<Rightarrow> ULONG" where
  "digest_loop f d [] = d"
| "digest_loop f d (c # cs) = digest_loop f (d * 31 + f c) cs"

text \<open>A byte is a signed character.\<close>

definition LwRtlHashDigestPstr :: "8 word list option \<Rightarrow> ULONG" where
  "LwRtlHashDigestPstr k = (case k of None \<Rightarrow> 0 | Some s \<Rightarrow> digest_loop scast 0 s)"

text \<open>The case conversions of the C library depend on the locale that the program has set, so what they do with the values of
  an unsigned character is a parameter.  The argument of \<^verbatim>\<open>toupper\<close> must be such a value or EOF, which is -1 and is
  returned; on any other argument the behaviour is undefined.  The digest passes a signed character, so this is the
  case for every byte from 0x80 to 0xFE, and the byte 0xFF is taken for EOF.\<close>

definition toupper :: "(8 word \<Rightarrow> 8 word) \<Rightarrow> 32 word \<Rightarrow> 32 word option" where
  "toupper upper c = (if c = - 1 then Some c else if c < 256 then Some (ucast (upper (ucast c))) else None)"

fun digest_upper_loop :: "(8 word \<Rightarrow> 8 word) \<Rightarrow> ULONG \<Rightarrow> 8 word list \<Rightarrow> ULONG option" where
  "digest_upper_loop upper d [] = Some d"
| "digest_upper_loop upper d (c # cs) = do { u \<leftarrow> toupper upper (scast c); digest_upper_loop upper (d * 31 + u) cs }"

definition LwRtlHashDigestPstrCaseless :: "(8 word \<Rightarrow> 8 word) \<Rightarrow> 8 word list option \<Rightarrow> ULONG option" where
  "LwRtlHashDigestPstrCaseless upper k = (case k of None \<Rightarrow> Some 0 | Some s \<Rightarrow> digest_upper_loop upper 0 s)"

text \<open>The comparison of the C library: the sign tells which string is larger.\<close>

fun strcmp :: "8 word list \<Rightarrow> 8 word list \<Rightarrow> int" where
  "strcmp [] [] = 0"
| "strcmp [] (b # bs) = -1"
| "strcmp (a # as) [] = 1"
| "strcmp (a # as) (b # bs) = (if a < b then -1 else if b < a then 1 else strcmp as bs)"

definition strcasecmp :: "(8 word \<Rightarrow> 8 word) \<Rightarrow> 8 word list \<Rightarrow> 8 word list \<Rightarrow> int" where
  "strcasecmp lower a b = strcmp (map lower a) (map lower b)"

definition LwRtlCStringCompare :: "(8 word \<Rightarrow> 8 word) \<Rightarrow> 8 word list \<Rightarrow> 8 word list \<Rightarrow> bool \<Rightarrow> int" where
  "LwRtlCStringCompare lower a b bIsCaseSensitive =
    (let innerResult = (if bIsCaseSensitive then strcmp a b else strcasecmp lower a b) in
     if innerResult > 0 then 1 else if innerResult < 0 then -1 else 0)"

definition LwRtlCStringIsEqual :: "(8 word \<Rightarrow> 8 word) \<Rightarrow> 8 word list \<Rightarrow> 8 word list \<Rightarrow> bool \<Rightarrow> bool" where
  "LwRtlCStringIsEqual lower a b bIsCaseSensitive \<longleftrightarrow> LwRtlCStringCompare lower a b bIsCaseSensitive = 0"

definition equal_or_null :: "('c list \<Rightarrow> 'c list \<Rightarrow> bool) \<Rightarrow> 'c list option \<Rightarrow> 'c list option \<Rightarrow> bool" where
  "equal_or_null eq k1 k2 =
    (case (k1, k2) of (None, None) \<Rightarrow> True | (Some a, Some b) \<Rightarrow> eq a b | _ \<Rightarrow> False)"

definition LwRtlHashEqualPstr :: "(8 word \<Rightarrow> 8 word) \<Rightarrow> 8 word list option \<Rightarrow> 8 word list option \<Rightarrow> bool" where
  "LwRtlHashEqualPstr lower = equal_or_null (\<lambda>a b. LwRtlCStringIsEqual lower a b True)"

definition LwRtlHashEqualPstrCaseless :: "(8 word \<Rightarrow> 8 word) \<Rightarrow> 8 word list option \<Rightarrow> 8 word list option \<Rightarrow> bool" where
  "LwRtlHashEqualPstrCaseless lower = equal_or_null (\<lambda>a b. LwRtlCStringIsEqual lower a b False)"

definition LwRtlHashDigestPwstr :: "16 word list option \<Rightarrow> ULONG" where
  "LwRtlHashDigestPwstr k = (case k of None \<Rightarrow> 0 | Some s \<Rightarrow> digest_loop ucast 0 s)"

definition ToUpper :: "16 word \<Rightarrow> 16 word" where
  "ToUpper c = (if 0x61 \<le> c \<and> c \<le> 0x7A then c - 0x20 else c)"

definition LwRtlHashDigestPwstrCaseless :: "16 word list option \<Rightarrow> ULONG" where
  "LwRtlHashDigestPwstrCaseless k = (case k of None \<Rightarrow> 0 | Some s \<Rightarrow> digest_loop (\<lambda>c. ucast (ToUpper c)) 0 s)"

text \<open>Case conversion of a string that is not NULL.\<close>

definition wc16scaseconv :: "(16 word \<Rightarrow> 16 word) \<Rightarrow> 16 word list \<Rightarrow> 16 word list" where
  "wc16scaseconv fconv s = map fconv s"

definition wc16supper :: "(16 word \<Rightarrow> 16 word) \<Rightarrow> 16 word list \<Rightarrow> 16 word list" where
  "wc16supper towupper s = wc16scaseconv towupper s"

fun wc16_equal_loop :: "(16 word \<Rightarrow> 16 word) \<Rightarrow> 16 word list \<Rightarrow> 16 word list \<Rightarrow> bool" where
  "wc16_equal_loop f (a # as) (b # bs) = (if f a \<noteq> f b then False else wc16_equal_loop f as bs)"
| "wc16_equal_loop f [] [] = True"
| "wc16_equal_loop f _ _ = False"

definition LwRtlWC16StringIsEqual :: "(16 word \<Rightarrow> 16 word) \<Rightarrow> 16 word list \<Rightarrow> 16 word list \<Rightarrow> bool \<Rightarrow> bool" where
  "LwRtlWC16StringIsEqual towupper a b bIsCaseSensitive = 
    wc16_equal_loop (\<lambda>c. if bIsCaseSensitive then c else hd (wc16supper towupper [c])) a b"

definition LwRtlHashEqualPwstr :: "(16 word \<Rightarrow> 16 word) \<Rightarrow> 16 word list option \<Rightarrow> 16 word list option \<Rightarrow> bool" where
  "LwRtlHashEqualPwstr towupper = equal_or_null (\<lambda>a b. LwRtlWC16StringIsEqual towupper a b True)"

definition LwRtlHashEqualPwstrCaseless :: "(16 word \<Rightarrow> 16 word) \<Rightarrow> 16 word list option \<Rightarrow> 16 word list option \<Rightarrow> bool" where
  "LwRtlHashEqualPwstrCaseless towupper = equal_or_null (\<lambda>a b. LwRtlWC16StringIsEqual towupper a b False)"

definition LwRtlHashDigestPointer :: "64 word \<Rightarrow> ULONG" where
  "LwRtlHashDigestPointer p = ucast (drop_bit 2 p)"

definition LwRtlHashEqualPointer :: "64 word \<Rightarrow> 64 word \<Rightarrow> bool" where
  "LwRtlHashEqualPointer a b \<longleftrightarrow> a = b"

section \<open>The map\<close>

text \<open>The nodes of the store are exactly those of the map.\<close>

definition map_ok ::
    "('k \<Rightarrow> ULONG) \<Rightarrow> ('k \<Rightarrow> 'k \<Rightarrow> bool) \<Rightarrow> ('k, 'v) LW_HASHMAP \<Rightarrow> ('k, 'v) pair_store \<Rightarrow> nat list list \<Rightarrow> bool" where
  "map_ok digest equal t h bs \<longleftrightarrow> table_ok digest equal t h bs \<and> pfnGetKey t = HashPairNodeGetKey \<and> dom h = set (concat bs)"

definition pair_at :: "('k, 'v) LW_HASHMAP \<Rightarrow> ('k, 'v) pair_store \<Rightarrow> nat list list \<Rightarrow> 'k \<Rightarrow> ('k, 'v) LW_HASHMAP_PAIR option" where
  "pair_at t h bs k = map_option (\<lambda>n. container (the (h n))) (node_at t h bs k)"

definition value_at :: "('k, 'v) LW_HASHMAP \<Rightarrow> ('k, 'v) pair_store \<Rightarrow> nat list list \<Rightarrow> 'k \<Rightarrow> 'v option" where
  "value_at t h bs k = map_option pValue (pair_at t h bs k)"

lemma frame_dom: "table_frame N t h t' h' \<Longrightarrow> dom h' = dom h"
proof -
  assume "table_frame N t h t' h'"
  then have "map_option container (h' m) = map_option container (h m)" for m
    unfolding table_frame_def by blast
  then have "h' m = None \<longleftrightarrow> h m = None" for m
    by (metis option.map_disc_iff)
  then show ?thesis
    by (simp add: dom_def)
qed

lemma frame_container: "table_frame N t h t' h' \<Longrightarrow> h m = Some nd \<Longrightarrow> \<exists>nd'. h' m = Some nd' \<and> container nd' = container nd"
proof -
  assume "table_frame N t h t' h'" "h m = Some nd"
  then have "map_option container (h' m) = Some (container nd)"
    unfolding table_frame_def by simp
  then show ?thesis
    by auto
qed

context hash_keys begin

lemma node_at_store:
  assumes "table_ok digest equal t h bs" and "node_at t h bs k = Some n"
  shows "\<exists>nd. h n = Some nd"
  using table_nodes[OF assms(1), of n] assms(2) unfolding node_at_iff[OF assms(1)] by blast

lemma HashMapFindKey_correct:
  assumes "map_ok digest equal t h bs"
  shows "LwRtlHashMapFindKey (Some t) h k =
    Some (if value_at t h bs k = None then STATUS_NOT_FOUND else STATUS_SUCCESS, value_at t h bs k)"
proof -
  have ok: "table_ok digest equal t h bs"
    using assms by (simp add: map_ok_def)
  show ?thesis
    using FindKey_correct[OF ok, of k] node_at_store[OF ok, of k]
    by (cases "node_at t h bs k") (auto simp: LwRtlHashMapFindKey_def value_at_def pair_at_def)
qed

lemma HashMapInsert_correct:
  assumes m: "map_ok digest equal t h bs" and n: "h n = None"
  shows "\<exists>t' h' bs'. LwRtlHashMapInsert avail (Some n) (Some t) h k v = Some (STATUS_SUCCESS, Some t', h', pair_at t h bs k)
    \<and> map_ok digest equal t' h' bs' \<and> (\<forall>l. value_at t' h' bs' l = (if equal l k then Some v else value_at t h bs l))"
proof -
  let ?nd = "\<lparr> pNext = None, ulDigest = 0, container = \<lparr> pKey = k, pValue = v \<rparr> \<rparr>" let ?h = "h(n \<mapsto> ?nd)"
  have ok: "table_ok digest equal t h bs" and g: "pfnGetKey t = HashPairNodeGetKey" and d: "dom h = set (concat bs)"
    using m by (simp_all add: map_ok_def)
  have nb: "n \<notin> set (concat bs)"
    using n d by (metis domIff)
  have k: "pfnGetKey t (container ?nd) = k"
    by (simp add: g HashPairNodeGetKey_def)
  note ok0 = other_node(1)[OF ok nb, of "Some ?nd"]
  obtain t' h1 bs' where r: "LwRtlHashTableResizeAndInsert avail t ?h n = Some (t', h1, node_at t h bs k)"
    and ok1: "table_ok digest equal t' h1 bs'" and f: "table_frame (insert n (set (concat bs))) t ?h t' h1"
    and s: "set (concat bs') = insert n (set (concat bs) - set_option (node_at t h bs k))"
    and na: "\<And>l. node_at t' h1 bs' l = (if equal l k then Some n else node_at t h bs l)"
    using ResizeAndInsert_correct[OF ok0 _ nb, of ?nd avail] k other_node(2)[OF ok nb, of "Some ?nd"] by auto
  have g1: "pfnGetKey t' = HashPairNodeGetKey"
    using f g by (simp add: table_frame_def)
  have d1: "dom h1 = insert n (set (concat bs))"
    using frame_dom[OF f] d by auto
  have v: "value_at t' h1 bs' l = (if equal l k then Some v else value_at t h bs l)" for l
  proof (cases "equal l k")
    case True
    then show ?thesis
      using frame_container[OF f, of n ?nd] na by (auto simp: value_at_def pair_at_def)
  next
    case False
    then show ?thesis
    proof (cases "node_at t h bs l")
      case (Some p)
      then have "p \<noteq> n" "\<exists>nd. h p = Some nd"
        using nb node_at_store[OF ok Some] unfolding node_at_iff[OF ok] by auto
      then show ?thesis
        using frame_container[OF f, of p] Some False na by (auto simp: value_at_def pair_at_def)
    qed (use False na in \<open>simp add: value_at_def pair_at_def\<close>)
  qed
  show ?thesis
  proof (cases "node_at t h bs k")
    case None
    then show ?thesis
      using r ok1 g1 s d1 v
      by (intro exI[of _ t'] exI[of _ h1] exI[of _ bs']) (simp add: LwRtlHashMapInsert_def map_ok_def pair_at_def Let_def)
  next
    case (Some p)
    then have p: "p \<in> set (concat bs)"
      unfolding node_at_iff[OF ok] by simp
    then have pn: "p \<noteq> n" "p \<notin> set (concat bs')"
      using nb s Some by auto
    obtain nd nd' where nd: "h p = Some nd" "h1 p = Some nd'" "container nd' = container nd"
      using node_at_store[OF ok Some] frame_container[OF f, of p] pn(1) by auto
    have "map_ok digest equal t' (h1(p := None)) bs'"
      using other_node(1)[OF ok1 pn(2)] g1 d1 s p pn(1) Some by (auto simp: map_ok_def)
    moreover have "value_at t' (h1(p := None)) bs' l = value_at t' h1 bs' l" for l
    proof -
      have "node_at t' h1 bs' l \<noteq> Some p"
        using pn(2) unfolding node_at_iff[OF ok1] by blast
      then show ?thesis
        using other_node(2)[OF ok1 pn(2), of None l] by (cases "node_at t' h1 bs' l") (auto simp: value_at_def pair_at_def)
    qed
    moreover have "LwRtlHashMapInsert avail (Some n) (Some t) h k v = Some (STATUS_SUCCESS, Some t', h1(p := None), pair_at t h bs k)"
      using r nd Some by (simp add: LwRtlHashMapInsert_def pair_at_def Let_def)
    ultimately show ?thesis
      using v by (intro exI[of _ t'] exI[of _ "h1(p := None)"] exI[of _ bs']) simp
  qed
qed

lemma HashMapRemove_correct:
  assumes m: "map_ok digest equal t h bs"
  shows "\<exists>t' h' bs'. LwRtlHashMapRemove (Some t) h k =
      Some (if value_at t h bs k = None then STATUS_NOT_FOUND else STATUS_SUCCESS, Some t', h', pair_at t h bs k)
    \<and> map_ok digest equal t' h' bs' \<and> (\<forall>l. value_at t' h' bs' l = (if equal l k then None else value_at t h bs l))"
proof -
  have ok: "table_ok digest equal t h bs" and g: "pfnGetKey t = HashPairNodeGetKey" and d: "dom h = set (concat bs)"
    using m by (simp_all add: map_ok_def)
  show ?thesis
  proof (cases "node_at t h bs k")
    case None
    have "node_at t h bs l = None" if "equal l k" for l
      using None that equal_sym equal_trans unfolding node_at_None[OF ok] by blast
    then show ?thesis
      using None FindKey_correct[OF ok, of k] m
      by (intro exI[of _ t] exI[of _ h] exI[of _ bs]) (auto simp: LwRtlHashMapRemove_def value_at_def pair_at_def)
  next
    case (Some p)
    then have p: "p \<in> set (concat bs)"
      unfolding node_at_iff[OF ok] by simp
    obtain t' h1 bs' where r: "LwRtlHashTableRemove (Some t) h (Some p) = Some (STATUS_SUCCESS, Some t', h1)"
      and ok1: "table_ok digest equal t' h1 bs'" and f: "table_frame (set (concat bs) - {p}) t h t' h1"
      and s: "set (concat bs') = set (concat bs) - {p}"
      using Remove_correct[OF ok p] by blast
    note na = node_at_Remove[OF ok ok1 f s Some]
    have pn: "p \<notin> set (concat bs')"
      unfolding s by blast
    obtain nd where nd: "h p = Some nd" "h1 p = Some nd"
      using node_at_store[OF ok Some] f by (auto simp: table_frame_def)
    have "map_ok digest equal t' (h1(p := None)) bs'"
      using other_node(1)[OF ok1 pn] f g frame_dom[OF f] d s by (auto simp: map_ok_def table_frame_def)
    moreover have "value_at t' (h1(p := None)) bs' l = (if equal l k then None else value_at t h bs l)" for l
    proof (cases "equal l k \<or> node_at t h bs l = None")
      case True
      then show ?thesis
        using other_node(2)[OF ok1 pn, of None l] na[of l] by (auto simp: value_at_def pair_at_def)
    next
      case False
      then obtain q where q: "node_at t h bs l = Some q" "node_at t' h1 bs' l = Some q"
        using na[of l] by auto
      then have "q \<noteq> p"
        using pn unfolding node_at_iff[OF ok1] by blast
      then show ?thesis
        using other_node(2)[OF ok1 pn, of None l] q False node_at_store[OF ok q(1)] frame_container[OF f, of q]
        by (auto simp: value_at_def pair_at_def)
    qed
    moreover have "LwRtlHashMapRemove (Some t) h k = Some (STATUS_SUCCESS, Some t', h1(p := None), pair_at t h bs k)"
      using FindKey_correct[OF ok, of k] r nd Some by (simp add: LwRtlHashMapRemove_def pair_at_def)
    ultimately show ?thesis
      using Some by (intro exI[of _ t'] exI[of _ "h1(p := None)"] exI[of _ bs']) (simp add: value_at_def[of t h] pair_at_def[of t h])
  qed
qed

end

section \<open>Sequences of operations\<close>

text \<open>The flag of an insertion says whether the allocation of the node succeeds; the allocator returns an address that is
  not in use.\<close>

datatype ('k, 'v) map_op = Put bool 'k 'v | Del 'k | Get 'k

fun run_map_op ::
    "(nat \<Rightarrow> bool) \<Rightarrow> (('k, 'v) pair_store \<Rightarrow> nat) \<Rightarrow> ('k, 'v) LW_HASHMAP \<Rightarrow> ('k, 'v) pair_store \<Rightarrow> ('k, 'v) map_op \<Rightarrow>
     (('k, 'v) LW_HASHMAP \<times> ('k, 'v) pair_store \<times> NTSTATUS \<times> 'v option) option" where
  "run_map_op avail malloc t h (Put ok k v) = do {
     (status, t, h, prev) \<leftarrow> LwRtlHashMapInsert avail (if ok then Some (malloc h) else None) (Some t) h k v;
     t \<leftarrow> t;
     Some (t, h, status, map_option pValue prev)
   }"
| "run_map_op avail malloc t h (Del k) = do {
     (status, t, h, prev) \<leftarrow> LwRtlHashMapRemove (Some t) h k;
     t \<leftarrow> t;
     Some (t, h, status, map_option pValue prev)
   }"
| "run_map_op avail malloc t h (Get k) = do {
     (status, v) \<leftarrow> LwRtlHashMapFindKey (Some t) h k;
     Some (t, h, status, v)
   }"

fun run_map_ops ::
    "(nat \<Rightarrow> bool) \<Rightarrow> (('k, 'v) pair_store \<Rightarrow> nat) \<Rightarrow> ('k, 'v) LW_HASHMAP \<Rightarrow> ('k, 'v) pair_store \<Rightarrow> ('k, 'v) map_op list \<Rightarrow>
     (('k, 'v) LW_HASHMAP \<times> ('k, 'v) pair_store \<times> (NTSTATUS \<times> 'v option) list) option" where
  "run_map_ops avail malloc t h [] = Some (t, h, [])"
| "run_map_ops avail malloc t h (x # xs) = do {
     (t, h, r) \<leftarrow> run_map_op avail malloc t h x;
     (t, h, rs) \<leftarrow> run_map_ops avail malloc t h xs;
     Some (t, h, r # rs)
   }"

text \<open>What is relied on of the allocator: an address it returns is not in use.\<close>

definition fresh_malloc :: "(('k, 'v) pair_store \<Rightarrow> nat) \<Rightarrow> bool" where
  "fresh_malloc malloc \<longleftrightarrow> (\<forall>h. finite (dom h) \<longrightarrow> h (malloc h) = None)"

text \<open>The specification: a function from keys to values.\<close>

fun spec_op :: "('k \<Rightarrow> 'k \<Rightarrow> bool) \<Rightarrow> ('k \<Rightarrow> 'v option) \<Rightarrow> ('k, 'v) map_op \<Rightarrow> ('k \<Rightarrow> 'v option) \<times> NTSTATUS \<times> 'v option" where
  "spec_op equal m (Put ok k v) =
    (if ok then (\<lambda>l. if equal l k then Some v else m l, STATUS_SUCCESS, m k) else (m, STATUS_INSUFFICIENT_RESOURCES, None))"
| "spec_op equal m (Del k) =
    (\<lambda>l. if equal l k then None else m l, if m k = None then STATUS_NOT_FOUND else STATUS_SUCCESS, m k)"
| "spec_op equal m (Get k) = (m, if m k = None then STATUS_NOT_FOUND else STATUS_SUCCESS, m k)"

fun spec_ops :: "('k \<Rightarrow> 'k \<Rightarrow> bool) \<Rightarrow> ('k \<Rightarrow> 'v option) \<Rightarrow> ('k, 'v) map_op list \<Rightarrow> (NTSTATUS \<times> 'v option) list" where
  "spec_ops equal m [] = []"
| "spec_ops equal m (x # xs) = snd (spec_op equal m x) # spec_ops equal (fst (spec_op equal m x)) xs"

context hash_keys begin

lemma run_map_op_correct:
  assumes "map_ok digest equal t h bs" and "fresh_malloc malloc"
  shows "\<exists>t' h' bs'. run_map_op avail malloc t h x = Some (t', h', snd (spec_op equal (value_at t h bs) x))
    \<and> map_ok digest equal t' h' bs' \<and> value_at t' h' bs' = fst (spec_op equal (value_at t h bs) x)"
proof (cases x)
  case (Put ok k v)
  show ?thesis
  proof (cases ok)
    case True
    have "h (malloc h) = None"
      using assms by (simp add: map_ok_def fresh_malloc_def)
    from HashMapInsert_correct[OF assms(1) this, of avail k v]
    obtain t' h' bs' where r: "LwRtlHashMapInsert avail (Some (malloc h)) (Some t) h k v = Some (STATUS_SUCCESS, Some t', h', pair_at t h bs k)"
      "map_ok digest equal t' h' bs'" "\<And>l. value_at t' h' bs' l = (if equal l k then Some v else value_at t h bs l)"
      by blast
    then have "value_at t' h' bs' = (\<lambda>l. if equal l k then Some v else value_at t h bs l)"
      by blast
    then show ?thesis
      using Put True r(1,2) by (intro exI[of _ t'] exI[of _ h'] exI[of _ bs']) (simp add: value_at_def[of t h bs k])
  next
    case False
    then show ?thesis
      using Put assms(1) by (intro exI[of _ t] exI[of _ h] exI[of _ bs]) (simp add: LwRtlHashMapInsert_def)
  qed
next
  case (Del k)
  from HashMapRemove_correct[OF assms(1), of k]
  obtain t' h' bs' where r: "LwRtlHashMapRemove (Some t) h k =
      Some (if value_at t h bs k = None then STATUS_NOT_FOUND else STATUS_SUCCESS, Some t', h', pair_at t h bs k)"
    "map_ok digest equal t' h' bs'" "\<And>l. value_at t' h' bs' l = (if equal l k then None else value_at t h bs l)"
    by blast
  then have "value_at t' h' bs' = (\<lambda>l. if equal l k then None else value_at t h bs l)"
    by blast
  then show ?thesis
    using Del r(1,2) by (intro exI[of _ t'] exI[of _ h'] exI[of _ bs']) (simp add: value_at_def[of t h bs k])
next
  case (Get k)
  then show ?thesis
    using HashMapFindKey_correct[OF assms(1), of k] assms(1) by (intro exI[of _ t] exI[of _ h] exI[of _ bs]) simp
qed

lemma run_map_ops_correct:
  assumes "fresh_malloc malloc"
  shows "map_ok digest equal t h bs \<Longrightarrow>
    \<exists>t' h' bs'. run_map_ops avail malloc t h xs = Some (t', h', spec_ops equal (value_at t h bs) xs) \<and> map_ok digest equal t' h' bs'"
proof (induction xs arbitrary: t h bs)
  case (Cons x xs)
  obtain t1 h1 bs1 where r: "run_map_op avail malloc t h x = Some (t1, h1, snd (spec_op equal (value_at t h bs) x))"
    "map_ok digest equal t1 h1 bs1" "value_at t1 h1 bs1 = fst (spec_op equal (value_at t h bs) x)"
    using run_map_op_correct[OF Cons.prems assms] by blast
  then show ?case
    using Cons.IH[OF r(2)] by auto
qed auto

lemma map_ok_count:
  assumes "map_ok digest equal t h bs"
  shows "LwRtlHashMapGetCount t = word_of_nat (card (dom h))"
proof -
  have ok: "table_ok digest equal t h bs" and d: "dom h = set (concat bs)"
    using assms by (simp_all add: map_ok_def)
  then have "card (dom h) = length (concat bs)"
    using distinct_card[OF table_okD(6)[OF ok]] by simp
  then show ?thesis
    using table_okD(10)[OF ok] by (simp add: LwRtlHashMapGetCount_def LwRtlHashTableGetCount_def)
qed

end

lemma create_map_ok:
  assumes "LwRtlCreateHashMap avail (Some digest) (Some equal) = (STATUS_SUCCESS, Some t)"
  shows "map_ok digest equal t Map.empty (replicate 17 [])" and "value_at t Map.empty (replicate 17 []) k = None"
proof -
  have t: "t = \<lparr> ht_ulSize = 17, ht_ulThreshold = RESIZE_THRESHOLD 17, ht_ulCount = 0,
             ht_ppBuckets = replicate 17 None, pfnGetKey = HashPairNodeGetKey, pfnDigest = digest, pfnEqual = equal \<rparr>"
    using assms by (auto simp: LwRtlCreateHashMap_def LwRtlCreateHashTable_def RTL_ALLOCATE_cases split: if_splits)
  show "map_ok digest equal t Map.empty (replicate 17 [])"
    using table_ok_empty[of t Map.empty] t by (simp add: map_ok_def)
  show "value_at t Map.empty (replicate 17 []) k = None"
    by (simp add: value_at_def pair_at_def node_at_def)
qed

section \<open>The contracts of the keys\<close>

lemma ucast_wide_inj: "(ucast (a :: 16 word) :: ULONG) = ucast b \<Longrightarrow> a = b"
proof -
  have "unat (ucast x :: ULONG) = unat x" for x :: "16 word"
    using unsigned_less[of x, where 'a = nat] by (simp add: unsigned_ucast_eq take_bit_nat_eq_self)
  then show "(ucast a :: ULONG) = ucast b \<Longrightarrow> a = b"
    by (metis word_unat_eq_iff)
qed

lemma strcmp_eq_0: "strcmp a b = 0 \<longleftrightarrow> a = b"
  by (induction a b rule: strcmp.induct) auto

lemma CStringIsEqual_iff: "LwRtlCStringIsEqual lower a b cs \<longleftrightarrow> (if cs then a = b else map lower a = map lower b)"
proof -
  have "LwRtlCStringIsEqual lower a b cs \<longleftrightarrow> (if cs then strcmp a b else strcasecmp lower a b) = 0"
    by (auto simp: LwRtlCStringIsEqual_def LwRtlCStringCompare_def Let_def)
  then show ?thesis
    by (simp add: strcasecmp_def strcmp_eq_0)
qed

lemma wc16_equal_loop_iff: "wc16_equal_loop f a b \<longleftrightarrow> map f a = map f b"
  by (induction f a b rule: wc16_equal_loop.induct) auto

lemma WC16StringIsEqual_iff: "LwRtlWC16StringIsEqual f a b cs \<longleftrightarrow> (if cs then a = b else map f a = map f b)"
  by (simp add: LwRtlWC16StringIsEqual_def wc16_equal_loop_iff wc16supper_def wc16scaseconv_def)

lemma digest_loop_map: "digest_loop f d s = digest_loop id d (map f s)"
  by (induction s arbitrary: d) auto

lemma byte_sint: "sint (c :: 8 word) = (if c < 0x80 then uint c else uint c - 256)"
proof -
  have k: "0 \<le> uint c" "uint c < 256"
    using unsigned_less[of c, where 'a = int] by simp_all
  have "uint c div 128 = (if uint c < 128 then 0 else 1)"
    using k int_div_pos_eq[of "uint c" 128 1 "uint c - 128"] by simp
  then have "odd (uint c div 128) \<longleftrightarrow> 128 \<le> uint c"
    by simp
  moreover have "take_bit 8 (uint c) = uint c"
    using k by (simp add: take_bit_eq_mod)
  ultimately show ?thesis
    by (simp add: sint_uint signed_take_bit_eq_take_bit_minus bit_iff_odd word_less_def)
qed

lemma byte_scast:
  shows "c < 0x80 \<Longrightarrow> (scast (c :: 8 word) :: ULONG) = ucast c"
    and "c < 0x80 \<Longrightarrow> (ucast c :: ULONG) < 256 \<and> (ucast c :: ULONG) \<noteq> - 1"
    and "\<not> c < 0x80 \<Longrightarrow> \<not> (scast c :: ULONG) < 256"
    and "(scast c :: ULONG) = - 1 \<longleftrightarrow> c = 0xFF"
proof -
  have k: "0 \<le> uint c" "uint c < 256"
    using unsigned_less[of c, where 'a = int] by simp_all
  have s: "uint (scast c :: ULONG) = (if c < 0x80 then uint c else uint c + 0xFFFFFF00)"
  proof -
    have "uint (scast c :: ULONG) = sint c mod 2 ^ 32"
      unfolding scast_eq uint_word_of_int by simp
    moreover have "(uint c - 256) mod 4294967296 = uint c + 4294967040" if "128 \<le> uint c"
    proof -
      have "(uint c - 256 + 4294967296) mod 4294967296 = (uint c - 256) mod 4294967296"
        by (rule mod_add_self2)
      then show ?thesis
        using k mod_pos_pos_trivial[of "uint c + 4294967040" 4294967296] by simp
    qed
    ultimately show ?thesis
      using k by (auto simp: byte_sint word_less_def)
  qed
  have m: "uint (- 1 :: ULONG) = 4294967295"
    by (simp add: unsigned_minus_1_eq_mask mask_eq_exp_minus_1)
  show "c < 0x80 \<Longrightarrow> (scast (c :: 8 word) :: ULONG) = ucast c"
    using s k by (simp add: word_uint_eq_iff unsigned_ucast_eq take_bit_eq_mod)
  show "c < 0x80 \<Longrightarrow> (ucast c :: ULONG) < 256 \<and> (ucast c :: ULONG) \<noteq> - 1"
    using k by (auto simp: word_uint_eq_iff unsigned_ucast_eq take_bit_eq_mod word_less_def m)
  show "\<not> c < 0x80 \<Longrightarrow> \<not> (scast c :: ULONG) < 256"
    using s k by (simp add: word_less_def)
  show "(scast c :: ULONG) = - 1 \<longleftrightarrow> c = 0xFF"
    using s k by (auto simp: word_uint_eq_iff word_less_def m split: if_splits)
qed

text \<open>The bytes whose signed value is an unsigned character or EOF.\<close>

definition toupper_defined :: "8 word \<Rightarrow> bool" where
  "toupper_defined c \<longleftrightarrow> c < 0x80 \<or> c = 0xFF"

lemma toupper_byte:
  "toupper upper (scast c) = (if c = 0xFF then Some (- 1) else if c < 0x80 then Some (ucast (upper c)) else None)"
proof (cases "c < 0x80")
  case True
  moreover have "(ucast (ucast c :: ULONG) :: 8 word) = c"
    by (rule bit_word_eqI) (simp add: bit_simps)
  ultimately show ?thesis
    using byte_scast(1,2)[OF True] by (auto simp: toupper_def)
next
  case False
  then show ?thesis
    using byte_scast(3)[OF False] byte_scast(4)[of c] by (simp add: toupper_def)
qed

lemma digest_upper_loop_eq:
  "digest_upper_loop upper d s =
    (if list_all toupper_defined s then Some (digest_loop (\<lambda>c. the (toupper upper (scast c))) d s) else None)"
  by (induction s arbitrary: d) (auto simp: toupper_byte toupper_defined_def)

lemma caseless_equivalence: "equivp (LwRtlHashEqualPstrCaseless lower)"
  by (intro equivpI reflpI sympI transpI)
    (auto simp: LwRtlHashEqualPstrCaseless_def equal_or_null_def CStringIsEqual_iff split: option.splits)

lemma caseless_digest_defined: "LwRtlHashDigestPstrCaseless upper (Some s) \<noteq> None \<longleftrightarrow> list_all toupper_defined s"
  by (simp add: LwRtlHashDigestPstrCaseless_def digest_upper_loop_eq)

lemma pstr_caseless_contract:
  "(\<forall>k1 k2 d1 d2. LwRtlHashEqualPstrCaseless lower k1 k2 \<and> LwRtlHashDigestPstrCaseless upper k1 = Some d1
      \<and> LwRtlHashDigestPstrCaseless upper k2 = Some d2 \<longrightarrow> d1 = d2)
   \<longleftrightarrow> (\<forall>c c'. toupper_defined c \<and> toupper_defined c' \<and> lower c = lower c' \<longrightarrow>
         toupper upper (scast c) = toupper upper (scast c'))"
  (is "?C \<longleftrightarrow> ?F")
proof
  show ?F if ?C
  proof (intro allI impI)
    fix c c' assume c: "toupper_defined c \<and> toupper_defined c' \<and> lower c = lower c'"
    have "LwRtlHashEqualPstrCaseless lower (Some [c]) (Some [c'])"
      using c by (simp add: LwRtlHashEqualPstrCaseless_def equal_or_null_def CStringIsEqual_iff)
    moreover have "LwRtlHashDigestPstrCaseless upper (Some [x]) = toupper upper (scast x)" for x
      by (cases "toupper upper (scast x)") (simp_all add: LwRtlHashDigestPstrCaseless_def)
    moreover have "toupper upper (scast x) \<noteq> None" if "toupper_defined x" for x
      using that by (auto simp: toupper_byte toupper_defined_def)
    ultimately show "toupper upper (scast c) = toupper upper (scast c')"
      using \<open>?C\<close> c by (metis option.exhaust)
  qed
  show ?C if ?F
  proof (intro allI impI)
    fix k1 k2 d1 d2
    assume k: "LwRtlHashEqualPstrCaseless lower k1 k2 \<and> LwRtlHashDigestPstrCaseless upper k1 = Some d1
      \<and> LwRtlHashDigestPstrCaseless upper k2 = Some d2"
    show "d1 = d2"
    proof (cases k1)
      case None
      then show ?thesis
        using k by (cases k2) (simp_all add: LwRtlHashEqualPstrCaseless_def equal_or_null_def LwRtlHashDigestPstrCaseless_def)
    next
      case (Some a)
      then obtain b where b: "k2 = Some b" "map lower a = map lower b"
        using k by (cases k2) (simp_all add: LwRtlHashEqualPstrCaseless_def equal_or_null_def CStringIsEqual_iff)
      then have d: "list_all toupper_defined a" "list_all toupper_defined b"
        using k Some caseless_digest_defined[of upper] by auto
      let ?f = "\<lambda>c. the (toupper upper (scast c))"
      have "map ?f a = map ?f b"
        using b(2) d \<open>?F\<close> unfolding map_equality_iff list_all_length by metis
      then have "digest_loop ?f 0 a = digest_loop ?f 0 b"
        by (metis digest_loop_map)
      then show ?thesis
        using k Some b(1) d by (auto simp: LwRtlHashDigestPstrCaseless_def digest_upper_loop_eq)
    qed
  qed
qed

text \<open>In the POSIX locale the conversions change the letters of ASCII and nothing else.\<close>

definition posix_upper :: "8 word \<Rightarrow> 8 word" where
  "posix_upper c = (if 97 \<le> c \<and> c \<le> 122 then c - 32 else c)"

definition posix_lower :: "8 word \<Rightarrow> 8 word" where
  "posix_lower c = (if 65 \<le> c \<and> c \<le> 90 then c + 32 else c)"

lemma posix_upper_lower: "posix_upper (posix_lower c) = posix_upper c"
proof (cases "65 \<le> c \<and> c \<le> 90")
  case True
  then have "uint (c + 32) = uint c + 32" "uint c \<le> 90" "65 \<le> uint c"
    by (simp_all add: word_le_def uint_plus_if_size word_size)
  then show ?thesis
    using True by (auto simp: posix_upper_def posix_lower_def word_le_def)
qed (auto simp: posix_lower_def)

lemma posix_conversions:
  assumes "toupper_defined c" and "toupper_defined c'" and "posix_lower c = posix_lower c'"
  shows "toupper posix_upper (scast c) = toupper posix_upper (scast c')"
proof -
  have "posix_lower x = 0xFF \<longleftrightarrow> x = 0xFF" for x
    by (auto simp: posix_lower_def word_le_def word_uint_eq_iff uint_plus_if_size word_size)
  then have "c = 0xFF \<longleftrightarrow> c' = 0xFF"
    using assms(3) by metis
  then show ?thesis
    using assms posix_upper_lower[of c] posix_upper_lower[of c'] by (auto simp: toupper_byte toupper_defined_def)
qed

lemma hash_keys_fold:
  assumes eq: "\<And>a b. eq a b \<longleftrightarrow> map g a = map g b" and fold: "\<And>c c'. g c = g c' \<Longrightarrow> f c = f c'"
  shows "hash_keys (\<lambda>k. case k of None \<Rightarrow> 0 | Some s \<Rightarrow> digest_loop f 0 s) (equal_or_null eq)"
proof -
  have *: "digest_loop f 0 a = digest_loop f 0 b" if "map g a = map g b" for a b
  proof -
    have "map f a = map f b"
      using that fold unfolding map_equality_iff by blast
    then show ?thesis
      by (metis digest_loop_map)
  qed
  show ?thesis
    by unfold_locales (auto simp: equal_or_null_def eq intro: * split: option.splits)
qed

interpretation pointer_keys: hash_keys LwRtlHashDigestPointer LwRtlHashEqualPointer
  by unfold_locales (auto simp: LwRtlHashEqualPointer_def)

interpretation pstr_keys: hash_keys LwRtlHashDigestPstr "LwRtlHashEqualPstr lower" for lower
  unfolding LwRtlHashDigestPstr_def LwRtlHashEqualPstr_def
  by (rule hash_keys_fold[where g = id]) (simp_all add: CStringIsEqual_iff)

interpretation pwstr_keys: hash_keys LwRtlHashDigestPwstr "LwRtlHashEqualPwstr towupper" for towupper
  unfolding LwRtlHashDigestPwstr_def LwRtlHashEqualPwstr_def
  by (rule hash_keys_fold[where g = id]) (simp_all add: WC16StringIsEqual_iff)

interpretation pwstr_ascii_keys: hash_keys LwRtlHashDigestPwstrCaseless "LwRtlHashEqualPwstrCaseless ToUpper"
  unfolding LwRtlHashDigestPwstrCaseless_def LwRtlHashEqualPwstrCaseless_def
  by (rule hash_keys_fold[where g = ToUpper]) (simp_all add: WC16StringIsEqual_iff)

lemma pwstr_caseless_contract:
  "hash_keys LwRtlHashDigestPwstrCaseless (LwRtlHashEqualPwstrCaseless towupper)
    \<longleftrightarrow> (\<forall>c c'. towupper c = towupper c' \<longrightarrow> ToUpper c = ToUpper c')"
proof -
  have "ToUpper c = ToUpper c'"
    if "hash_keys LwRtlHashDigestPwstrCaseless (LwRtlHashEqualPwstrCaseless towupper)" "towupper c = towupper c'" for c c'
  proof -
    have "LwRtlHashEqualPwstrCaseless towupper (Some [c]) (Some [c'])"
      using that(2) by (simp add: LwRtlHashEqualPwstrCaseless_def equal_or_null_def WC16StringIsEqual_iff)
    then have "(ucast (ToUpper c) :: ULONG) = ucast (ToUpper c')"
      using hash_keys.equal_digest[OF that(1), of "Some [c]" "Some [c']"] by (simp add: LwRtlHashDigestPwstrCaseless_def)
    then show ?thesis
      by (rule ucast_wide_inj)
  qed
  moreover have "hash_keys LwRtlHashDigestPwstrCaseless (LwRtlHashEqualPwstrCaseless towupper)"
    if "\<forall>c c'. towupper c = towupper c' \<longrightarrow> ToUpper c = ToUpper c'"
    unfolding LwRtlHashDigestPwstrCaseless_def LwRtlHashEqualPwstrCaseless_def
    by (rule hash_keys_fold[where g = towupper]) (simp add: WC16StringIsEqual_iff, use that in metis)
  ultimately show ?thesis
    by blast
qed

section \<open>Clearing\<close>

lemma map_clear:
  assumes m: "map_ok digest equal t h bs"
  shows "LwRtlHashMapClear t (h, s) (Some f) =
    Some (t\<lparr>ht_ppBuckets := replicate (unat (ht_ulSize t)) None, ht_ulCount := 0\<rparr>, Map.empty,
      fold (\<lambda>n. f (container (the (h n)))) (concat bs) s)"
proof -
  have ok: "table_ok digest equal t h bs" and d: "dom h = set (concat bs)"
    using m by (simp_all add: map_ok_def)
  have "h |` (- set (concat bs)) = Map.empty"
    unfolding d[symmetric] by (auto simp: restrict_map_def)
  then show ?thesis
    using clear_loop_correct[of "HashPairFreeNode (Some f)" f, OF _ iter_rest_start[OF ok] table_okD(6)[OF ok]]
    by (simp add: LwRtlHashMapClear_def LwRtlHashTableClear_def HashPairFreeNode_def)
qed

lemma map_clear_NULL:
  assumes m: "map_ok digest equal t h bs"
  shows "LwRtlHashMapClear t (h, s) None = (if h = Map.empty
    then Some (t\<lparr>ht_ppBuckets := replicate (unat (ht_ulSize t)) None, ht_ulCount := 0\<rparr>, h, s) else None)"
proof -
  have ok: "table_ok digest equal t h bs" and d: "dom h = set (concat bs)"
    using m by (simp_all add: map_ok_def)
  note I = Iterate_correct[OF iter_rest_start[OF ok]]
  have "clear_loop t (HashPairFreeNode None) (h, s) LwRtlHashTableResetIter = (if concat bs = [] then Some (h, s) else None)"
    using I by (subst clear_loop.simps) (cases "concat bs", auto simp: HashPairFreeNode_def bind_eq_None_conv)
  moreover have "h = Map.empty \<longleftrightarrow> concat bs = []"
    using d by (metis dom_eq_empty_conv set_empty)
  ultimately show ?thesis
    by (simp add: LwRtlHashMapClear_def LwRtlHashTableClear_def)
qed

section \<open>Reachable maps\<close>

text \<open>A map is created and then only changed by the operations; the client's state plays no part in what is stored.\<close>

inductive reach_map ::
    "(nat \<Rightarrow> bool) \<Rightarrow> (('k, 'v) pair_store \<Rightarrow> nat) \<Rightarrow> ('k \<Rightarrow> ULONG) \<Rightarrow> ('k \<Rightarrow> 'k \<Rightarrow> bool) \<Rightarrow> ('k, 'v) LW_HASHMAP \<Rightarrow> ('k, 'v) pair_store \<Rightarrow> bool"
  for avail malloc digest equal where
  created: "LwRtlCreateHashMap avail (Some digest) (Some equal) = (STATUS_SUCCESS, Some t) \<Longrightarrow> reach_map avail malloc digest equal t Map.empty"
| operated: "reach_map avail malloc digest equal t h \<Longrightarrow> run_map_op avail malloc t h x = Some (t', h', r) \<Longrightarrow> reach_map avail malloc digest equal t' h'"
| cleared: "reach_map avail malloc digest equal t h \<Longrightarrow> LwRtlHashMapClear t (h, ()) (Some f) = Some (t', h', s) \<Longrightarrow> reach_map avail malloc digest equal t' h'"

lemma cleared_map_ok:
  assumes "map_ok digest equal t h bs"
  shows "map_ok digest equal (t\<lparr>ht_ppBuckets := replicate (unat (ht_ulSize t)) None, ht_ulCount := 0\<rparr>) Map.empty (replicate (unat (ht_ulSize t)) [])"
  using table_ok_empty[of "t\<lparr>ht_ppBuckets := replicate (unat (ht_ulSize t)) None, ht_ulCount := 0\<rparr>" Map.empty] assms
  by (auto simp: map_ok_def table_ok_def)

lemma reach_map_ok:
  assumes "hash_keys digest equal" and "fresh_malloc malloc"
  shows "reach_map avail malloc digest equal t h \<Longrightarrow> \<exists>bs. map_ok digest equal t h bs"
proof (induction rule: reach_map.induct)
  case (created t)
  then show ?case
    using create_map_ok(1) by blast
next
  case (operated t h x t' h' r)
  then obtain bs where "map_ok digest equal t h bs"
    by blast
  from hash_keys.run_map_op_correct[OF assms(1) this assms(2), of avail x] show ?case
    using operated.hyps(2) by auto
next
  case (cleared t h f t' h' s)
  then show ?case
    using map_clear[of digest equal t h _ "()" f] cleared_map_ok by fastforce
qed

lemma map_ok_nodes:
  assumes "map_ok digest equal t h bs"
  shows "visit_all t h LwRtlHashTableResetIter = Some (concat bs)" and "distinct (concat bs)" and "set (concat bs) = dom h"
proof -
  have ok: "table_ok digest equal t h bs" and d: "dom h = set (concat bs)"
    using assms by (simp_all add: map_ok_def)
  show "visit_all t h LwRtlHashTableResetIter = Some (concat bs)"
    by (rule visit_all_correct[OF iter_rest_start[OF ok]])
  show "distinct (concat bs)"
    by (rule table_okD(6)[OF ok])
  show "set (concat bs) = dom h"
    by (simp only: d)
qed

lemma distinct_single: "distinct ns \<Longrightarrow> set ns = {n} \<Longrightarrow> ns = [n]"
  by (cases ns) (auto simp: subset_singleton_iff)

lemma fresh_least: "fresh_malloc (\<lambda>h. LEAST n. n \<notin> dom h)"
  unfolding fresh_malloc_def
proof (intro allI impI)
  fix h :: "('a, 'b) pair_store"
  assume "finite (dom h)"
  then have "\<exists>n. n \<notin> dom h"
    by (simp add: ex_new_if_finite)
  then have "(LEAST n. n \<notin> dom h) \<notin> dom h"
    by (rule LeastI_ex)
  then show "h (LEAST n. n \<notin> dom h) = None"
    by (simp only: domIff not_not)
qed

text \<open>A map with one pair.\<close>

lemma reach_single:
  "\<exists>t nd. reach_map (\<lambda>_. True) (\<lambda>h. LEAST n. n \<notin> dom h) LwRtlHashDigestPointer LwRtlHashEqualPointer t [0 \<mapsto> nd]
    \<and> container nd = \<lparr> pKey = 4, pValue = True \<rparr>"
proof -
  obtain t :: "(64 word, bool) LW_HASHMAP"
    where t: "LwRtlCreateHashMap (\<lambda>_. True) (Some LwRtlHashDigestPointer) (Some LwRtlHashEqualPointer) = (STATUS_SUCCESS, Some t)"
    by (simp add: LwRtlCreateHashMap_def LwRtlCreateHashTable_def RTL_ALLOCATE_cases)
  then have s: "ht_ulSize t = 17" "ht_ulThreshold t = 13" "ht_ulCount t = 0" "ht_ppBuckets t = replicate 17 None"
    "pfnGetKey t = HashPairNodeGetKey" "pfnDigest t = LwRtlHashDigestPointer"
    by (auto simp: LwRtlCreateHashMap_def LwRtlCreateHashTable_def RTL_ALLOCATE_cases RESIZE_THRESHOLD_def)
  have e: "lookup_loop t h k d (Bucket (Suc 0)) = Some (STATUS_NOT_FOUND, Bucket (Suc 0))" for h k d
    by (subst lookup_loop.simps) (simp add: s)
  have "\<exists>t' nd r. run_map_op (\<lambda>_. True) (\<lambda>h. LEAST n. n \<notin> dom h) t Map.empty (Put True 4 True) = Some (t', [0 \<mapsto> nd], r)
    \<and> container nd = \<lparr> pKey = 4, pValue = True \<rparr>"
    by (simp add: LwRtlHashMapInsert_def LwRtlHashTableResizeAndInsert_def LwRtlHashTableInsert_def s HashPairNodeGetKey_def
        HashLookup_def bucket_link_def LwRtlHashDigestPointer_def e Let_def)
      (intro exI conjI, rule refl, simp)
  then show ?thesis
    using reach_map.operated[OF reach_map.created[OF t]] by blast
qed

section \<open>Properties\<close>

text \<open>C26. From the moment a hash map is created, every sequence of insertions, removals and lookups returns, with exactly
  the statuses and values of a partial function from keys to values: an insertion replaces the value of an equal key and
  returns the previous one, and changes nothing when there is no memory; the node count is that of the nodes in use.
  This holds across the resizing of the bucket array, for every digest and comparison that meet the contract of keys.\<close>

theorem hash_map_refines:
  assumes "hash_keys digest equal" and "fresh_malloc malloc"
    and "LwRtlCreateHashMap avail (Some digest) (Some equal) = (STATUS_SUCCESS, Some t)"
  shows "\<exists>t' h. run_map_ops avail malloc t Map.empty xs = Some (t', h, spec_ops equal (\<lambda>_. None) xs)
    \<and> LwRtlHashMapGetCount t' = word_of_nat (card (dom h))"
proof -
  have "value_at t Map.empty (replicate 17 []) = (\<lambda>_. None)"
    using create_map_ok(2)[OF assms(3)] by blast
  then show ?thesis
    using hash_keys.run_map_ops_correct[OF assms(1,2) create_map_ok(1)[OF assms(3)], of avail xs]
      hash_keys.map_ok_count[OF assms(1)] by metis
qed

theorem hash_map_refines_witness:
  "\<exists>t t' h. LwRtlCreateHashMap (\<lambda>_. True) (Some LwRtlHashDigestPstr) (Some (LwRtlHashEqualPstr posix_lower)) = (STATUS_SUCCESS, Some t)
    \<and> run_map_ops (\<lambda>_. True) (\<lambda>h. LEAST n. n \<notin> dom h) t Map.empty [Put True (Some [0x41]) (1 :: nat), Put True (Some [0x41]) 2, Put True (Some [0x61]) 3, Get (Some [0x41]), Get None]
      = Some (t', h, [(STATUS_SUCCESS, None), (STATUS_SUCCESS, Some 1), (STATUS_SUCCESS, None), (STATUS_SUCCESS, Some 2), (STATUS_NOT_FOUND, None)])"
proof -
  have "\<exists>t :: (_, nat) LW_HASHMAP. LwRtlCreateHashMap (\<lambda>_. True) (Some LwRtlHashDigestPstr) (Some (LwRtlHashEqualPstr posix_lower)) = (STATUS_SUCCESS, Some t)"
    by (simp add: LwRtlCreateHashMap_def LwRtlCreateHashTable_def RTL_ALLOCATE_cases)
  then obtain t :: "(_, nat) LW_HASHMAP"
    where t: "LwRtlCreateHashMap (\<lambda>_. True) (Some LwRtlHashDigestPstr) (Some (LwRtlHashEqualPstr posix_lower)) = (STATUS_SUCCESS, Some t)" ..
  show ?thesis
    using hash_map_refines[where xs = "[Put True (Some [0x41]) (1 :: nat), Put True (Some [0x41]) 2, Put True (Some [0x61]) 3, Get (Some [0x41]), Get None]",
        OF pstr_keys.hash_keys_axioms fresh_least t] t
    by (fastforce simp: LwRtlHashEqualPstr_def equal_or_null_def CStringIsEqual_iff)
qed

text \<open>C28. The loop a client writes over a reachable map ends, and visits every node of the map exactly once; the count the
  map reports is the number of visits.\<close>

theorem hash_map_iteration:
  assumes "hash_keys digest equal" and "fresh_malloc malloc" and "reach_map avail malloc digest equal t h"
  shows "\<exists>ns. visit_all t h LwRtlHashTableResetIter = Some ns \<and> distinct ns \<and> set ns = dom h
    \<and> LwRtlHashMapGetCount t = word_of_nat (length ns)"
proof -
  obtain bs where bs: "map_ok digest equal t h bs"
    using reach_map_ok[OF assms] by blast
  note N = map_ok_nodes[OF bs]
  show ?thesis
    using N distinct_card[OF N(2)] hash_keys.map_ok_count[OF assms(1) bs] by auto
qed

theorem hash_map_iteration_witness:
  "\<exists>t h n. reach_map (\<lambda>_. True) (\<lambda>h. LEAST n. n \<notin> dom h) LwRtlHashDigestPointer LwRtlHashEqualPointer t h
    \<and> container (the (h n)) = \<lparr> pKey = 4, pValue = True \<rparr> \<and> visit_all t h LwRtlHashTableResetIter = Some [n]"
proof -
  obtain t nd where r: "reach_map (\<lambda>_. True) (\<lambda>h. LEAST n. n \<notin> dom h) LwRtlHashDigestPointer LwRtlHashEqualPointer t [0 \<mapsto> nd]"
    and nd: "container nd = \<lparr> pKey = 4, pValue = True \<rparr>"
    using reach_single by blast
  obtain ns where "visit_all t [0 \<mapsto> nd] LwRtlHashTableResetIter = Some ns" "distinct ns" "set ns = {0}"
    using hash_map_iteration[OF pointer_keys.hash_keys_axioms fresh_least r] by auto
  then have "visit_all t [0 \<mapsto> nd] LwRtlHashTableResetIter = Some [0]"
    using distinct_single[of ns 0] by simp
  then show ?thesis
    using r nd by (intro exI[of _ t] exI[of _ "[0 \<mapsto> nd]"] exI[of _ 0]) simp
qed

text \<open>C29. Clearing a reachable map with a function frees every node, calls the function once on every pair and leaves an empty
  map, which can then be freed.  Freeing a map that still holds a node does not return: the function that it passes for the
  pairs is NULL, and is called.\<close>

theorem hash_map_clear_free:
  assumes "hash_keys digest equal" and "fresh_malloc malloc" and "reach_map avail malloc digest equal t h"
  shows "(\<exists>ns t'. distinct ns \<and> set ns = dom h
      \<and> LwRtlHashMapClear t (h, s) (Some f) = Some (t', Map.empty, fold (\<lambda>n. f (container (the (h n)))) ns s)
      \<and> LwRtlHashMapGetCount t' = 0 \<and> LwRtlFreeHashMap (Some t') Map.empty = Some (None, Map.empty))
    \<and> LwRtlFreeHashMap (Some t) h = (if h = Map.empty then Some (None, Map.empty) else None)"
proof -
  obtain bs where bs: "map_ok digest equal t h bs"
    using reach_map_ok[OF assms] by blast
  let ?t = "t\<lparr>ht_ppBuckets := replicate (unat (ht_ulSize t)) None, ht_ulCount := 0\<rparr>"
  have "LwRtlHashMapGetCount ?t = 0"
    by (simp add: LwRtlHashMapGetCount_def LwRtlHashTableGetCount_def)
  moreover have "LwRtlFreeHashMap (Some ?t) Map.empty = Some (None, Map.empty)"
    using map_clear_NULL[OF cleared_map_ok[OF bs], of "()"] by (simp add: LwRtlFreeHashMap_def LwRtlFreeHashTable_def)
  moreover have "LwRtlFreeHashMap (Some t) h = (if h = Map.empty then Some (None, Map.empty) else None)"
    using map_clear_NULL[OF bs, of "()"] by (auto simp: LwRtlFreeHashMap_def LwRtlFreeHashTable_def)
  ultimately show ?thesis
    using map_ok_nodes[OF bs] map_clear[OF bs, of s f] by blast
qed

theorem hash_map_clear_free_witness:
  "\<exists>t h. reach_map (\<lambda>_. True) (\<lambda>h. LEAST n. n \<notin> dom h) LwRtlHashDigestPointer LwRtlHashEqualPointer t h
    \<and> (\<exists>t'. LwRtlHashMapClear t (h, []) (Some (\<lambda>p s. p # s)) = Some (t', Map.empty, [\<lparr> pKey = 4, pValue = True \<rparr>]))
    \<and> LwRtlFreeHashMap (Some t) h = None"
proof -
  obtain t nd where r: "reach_map (\<lambda>_. True) (\<lambda>h. LEAST n. n \<notin> dom h) LwRtlHashDigestPointer LwRtlHashEqualPointer t [0 \<mapsto> nd]"
    and nd: "container nd = \<lparr> pKey = 4, pValue = True \<rparr>"
    using reach_single by blast
  note P = hash_map_clear_free[OF pointer_keys.hash_keys_axioms fresh_least r, of "[]" "\<lambda>p s. p # s"]
  obtain ns :: "nat list" and t' where c: "LwRtlHashMapClear t ([0 \<mapsto> nd], []) (Some (\<lambda>p s. p # s)) =
      Some (t', Map.empty, fold (\<lambda>n s. container (the ([0 \<mapsto> nd] n)) # s) ns [])" "distinct ns" "set ns = dom [0 \<mapsto> nd]"
    using P by blast
  have "ns = [0]"
    using c(2,3) by (intro distinct_single) simp_all
  then have "LwRtlHashMapClear t ([0 \<mapsto> nd], []) (Some (\<lambda>p s. p # s)) = Some (t', Map.empty, [\<lparr> pKey = 4, pValue = True \<rparr>])"
    using c(1) nd by simp
  moreover have "LwRtlFreeHashMap (Some t) [0 \<mapsto> nd] = None"
    using P[THEN conjunct2] by simp
  ultimately show ?thesis
    using r by blast
qed

text \<open>C27. Resizing a table to any size returns; it succeeds exactly when the size is not 0 and the new array can be allocated,
  changes nothing otherwise, and in every case keeps the invariant, the nodes and the answer to every lookup.\<close>

theorem hash_table_resize:
  assumes "hash_keys digest equal" and "table_ok digest equal t h bs"
  shows "\<exists>status t' h' bs'. LwRtlHashTableResize avail (Some t) h ulSize = Some (status, Some t', h')
    \<and> table_ok digest equal t' h' bs' \<and> set (concat bs') = set (concat bs)
    \<and> (status = STATUS_SUCCESS \<longleftrightarrow> ulSize \<noteq> 0 \<and> avail (8 * unat ulSize))
    \<and> ht_ulSize t' = (if status = STATUS_SUCCESS then ulSize else ht_ulSize t)
    \<and> (\<forall>k. LwRtlHashTableFindKey (Some t') h' k = LwRtlHashTableFindKey (Some t) h k)"
proof (cases "ulSize \<noteq> 0 \<and> avail (8 * unat ulSize)")
  case True
  then obtain t' h' bs' where r: "LwRtlHashTableResize avail (Some t) h ulSize = Some (STATUS_SUCCESS, Some t', h')"
    "table_ok digest equal t' h' bs'" "table_frame (set (concat bs)) t h t' h'" "set (concat bs') = set (concat bs)" "ht_ulSize t' = ulSize"
    using hash_keys.Resize_correct[OF assms, of ulSize avail] by auto
  have "LwRtlHashTableFindKey (Some t') h' k = LwRtlHashTableFindKey (Some t) h k" for k
    using hash_keys.FindKey_correct[OF assms(1) r(2), of k] hash_keys.FindKey_correct[OF assms, of k]
      hash_keys.node_at_same[OF assms r(2,3,4), of k] by simp
  then show ?thesis
    using r True by (intro exI[of _ STATUS_SUCCESS] exI[of _ t'] exI[of _ h'] exI[of _ bs']) simp
next
  case False
  then obtain status where "LwRtlHashTableResize avail (Some t) h ulSize = Some (status, Some t, h)" "status \<noteq> STATUS_SUCCESS"
    using hash_keys.Resize_correct[OF assms, of ulSize avail] by (auto split: if_splits)
  then show ?thesis
    using assms(2) False by (intro exI[of _ status] exI[of _ t] exI[of _ h] exI[of _ bs]) auto
qed

theorem hash_table_resize_witness:
  "\<exists>t' h'. LwRtlHashTableResize (\<lambda>_. True)
      (Some \<lparr> ht_ulSize = 1, ht_ulThreshold = 0, ht_ulCount = 1, ht_ppBuckets = [Some 0], pfnGetKey = id,
         pfnDigest = LwRtlHashDigestPointer, pfnEqual = LwRtlHashEqualPointer \<rparr>)
      [0 \<mapsto> \<lparr> pNext = None, ulDigest = 5, container = 20 \<rparr>] 3 = Some (STATUS_SUCCESS, Some t', h')
    \<and> ht_ulSize t' = 3 \<and> LwRtlHashTableFindKey (Some t') h' 20 = Some (STATUS_SUCCESS, Some 0)"
proof -
  let ?t = "\<lparr> ht_ulSize = 1, ht_ulThreshold = 0, ht_ulCount = 1, ht_ppBuckets = [Some 0], pfnGetKey = id,
         pfnDigest = LwRtlHashDigestPointer, pfnEqual = LwRtlHashEqualPointer \<rparr>"
  let ?h = "[0 \<mapsto> \<lparr> pNext = None, ulDigest = 5, container = 20 \<rparr>]"
  have ok: "table_ok LwRtlHashDigestPointer LwRtlHashEqualPointer ?t ?h [[0]]"
    by (simp add: table_ok_def chains_def node_key_def LwRtlHashDigestPointer_def)
  have "node_at ?t ?h [[0]] 20 = Some 0"
    by (simp add: node_at_def node_key_def matches_def LwRtlHashEqualPointer_def)
  then have "LwRtlHashTableFindKey (Some ?t) ?h 20 = Some (STATUS_SUCCESS, Some 0)"
    using pointer_keys.FindKey_correct[OF ok, of 20] by simp
  then show ?thesis
    using hash_table_resize[OF pointer_keys.hash_keys_axioms ok, of "\<lambda>_. True" 3] by auto
qed

text \<open>C30. The digests and comparisons of keys.  For pointers, byte strings and wide strings with case they meet the contract of
  keys: the comparison is an equivalence, and equal keys have equal digests.  For wide strings without case the digest folds
  only the letters of ASCII and the comparison uses the locale's conversion, so the contract holds exactly if every two
  characters the locale identifies are identified by the digest's folding.  For byte strings without case, in a locale
  given by its two conversions, the comparison is an equivalence, the digest is defined exactly for the strings with no byte from 0x80 to 0xFE, and equal
  keys that have digests have equal ones exactly if every two bytes below 0x80 or equal to 0xFF that the conversion to lower
  case identifies are identified by the one to upper case, where 0xFF is taken for EOF.\<close>

theorem hash_key_contracts:
  "hash_keys LwRtlHashDigestPointer LwRtlHashEqualPointer \<and> hash_keys LwRtlHashDigestPstr (LwRtlHashEqualPstr lower)
   \<and> hash_keys LwRtlHashDigestPwstr (LwRtlHashEqualPwstr towupper)
   \<and> (hash_keys LwRtlHashDigestPwstrCaseless (LwRtlHashEqualPwstrCaseless towupper)
       \<longleftrightarrow> (\<forall>c c'. towupper c = towupper c' \<longrightarrow> ToUpper c = ToUpper c'))
   \<and> equivp (LwRtlHashEqualPstrCaseless lower)
   \<and> (LwRtlHashDigestPstrCaseless upper (Some s) \<noteq> None \<longleftrightarrow> list_all toupper_defined s)
   \<and> ((\<forall>k1 k2 d1 d2. LwRtlHashEqualPstrCaseless lower k1 k2 \<and> LwRtlHashDigestPstrCaseless upper k1 = Some d1
          \<and> LwRtlHashDigestPstrCaseless upper k2 = Some d2 \<longrightarrow> d1 = d2)
       \<longleftrightarrow> (\<forall>c c'. toupper_defined c \<and> toupper_defined c' \<and> lower c = lower c' \<longrightarrow>
             toupper upper (scast c) = toupper upper (scast c')))"
  by (intro conjI pointer_keys.hash_keys_axioms pstr_keys.hash_keys_axioms pwstr_keys.hash_keys_axioms
      pwstr_caseless_contract caseless_equivalence caseless_digest_defined pstr_caseless_contract)

theorem hash_key_contracts_witness:
  "\<not> hash_keys LwRtlHashDigestPwstrCaseless (LwRtlHashEqualPwstrCaseless (\<lambda>c. if c = 0xE9 then 0xC9 else ToUpper c))
   \<and> LwRtlHashDigestPstrCaseless posix_upper (Some [0x41, 0xDF]) = None
   \<and> LwRtlHashEqualPstrCaseless posix_lower (Some [0x41]) (Some [0x61])
   \<and> LwRtlHashDigestPstrCaseless posix_upper (Some [0x41]) = LwRtlHashDigestPstrCaseless posix_upper (Some [0x61])"
proof -
  let ?up = "\<lambda>c. if c = 0xE9 then 0xC9 else ToUpper c"
  note P = hash_key_contracts[of posix_lower ?up posix_upper]
  have "\<not> (\<forall>c c'. ?up c = ?up c' \<longrightarrow> ToUpper c = ToUpper c')"
    by (intro notI, drule spec[of _ "0xE9"], drule spec[of _ "0xC9"]) (simp add: ToUpper_def)
  then have wide: "\<not> hash_keys LwRtlHashDigestPwstrCaseless (LwRtlHashEqualPwstrCaseless ?up)"
    using P[of "[]"] by blast
  have d: "\<not> list_all toupper_defined [0x41, 0xDF]" "list_all toupper_defined [0x41]" "list_all toupper_defined [0x61]"
    by (simp_all add: toupper_defined_def)
  have e: "LwRtlHashEqualPstrCaseless posix_lower (Some [0x41]) (Some [0x61])"
    by (simp add: LwRtlHashEqualPstrCaseless_def equal_or_null_def CStringIsEqual_iff posix_lower_def)
  have "\<forall>c c'. toupper_defined c \<and> toupper_defined c' \<and> posix_lower c = posix_lower c' \<longrightarrow>
      toupper posix_upper (scast c) = toupper posix_upper (scast c')"
    using posix_conversions by blast
  then have same: "\<forall>k1 k2 d1 d2. LwRtlHashEqualPstrCaseless posix_lower k1 k2 \<and> LwRtlHashDigestPstrCaseless posix_upper k1 = Some d1
        \<and> LwRtlHashDigestPstrCaseless posix_upper k2 = Some d2 \<longrightarrow> d1 = d2"
    using P[of "[]"] by blast
  obtain d1 d2 where "LwRtlHashDigestPstrCaseless posix_upper (Some [0x41]) = Some d1"
      "LwRtlHashDigestPstrCaseless posix_upper (Some [0x61]) = Some d2"
    using P[of "[0x41]"] P[of "[0x61]"] d(2,3) by blast
  moreover from this have "d1 = d2"
    using same e by blast
  moreover have "LwRtlHashDigestPstrCaseless posix_upper (Some [0x41, 0xDF]) = None"
    using P[of "[0x41, 0xDF]"] d(1) by blast
  ultimately show ?thesis
    using wide e by (intro conjI) simp_all
qed

end
