(* ===== verification/Spec2Isabelle.thy ===== *)
theory Spec2Isabelle
  imports Security_Sid_String Security_Sd_Create Security_Token_Relative Lw_Hash_Map
begin

text \<open>
  \<^bold>\<open>The Windows security model of lwbase.\<close>

  PBIS Open joins Unix hosts to Active Directory.  Its services share the library \<^verbatim>\<open>lwbase\<close>, whose files
  \<^verbatim>\<open>security-*.c\<close> implement the Windows security structures: security identifiers, access control entries and
  lists, security descriptors in absolute and in self-relative form, access tokens, and the check of a token against a
  descriptor.  Clients build these structures in buffers of their own, send them over the wire, and receive them from
  peers they do not trust; the library validates, converts and edits them in place, decides access with them, and makes
  the descriptor of a new object from that of its parent.  This development models that code at the level of bytes and
  proves it correct.

  \<^bold>\<open>Memory.\<close>  A pointer is the list of bytes from its target to the end of the allocation (type
  \<^typ>\<open>mem\<close>), an interior pointer is such a suffix or an offset, and a field access is a read or write at its offset
  in the structure, little-endian as on the supported hosts and with the layout of a 64-bit C compiler.  The outermost
  \<^verbatim>\<open>option\<close> of every operation is undefined behaviour: \<^term>\<open>None\<close> is an access outside the block, a
  \<^verbatim>\<open>memcpy\<close> of overlapping operands, or a failed assertion.  A pointer that may be NULL is an optional argument.
  Operations return the status, the changed blocks and the output values.  Every \<^verbatim>\<open>GOTO_CLEANUP\<close> is a branch.  The
  allocator is the parameter \<^verbatim>\<open>avail\<close>, which says for each size whether the allocation succeeds; nothing is assumed
  of it beyond what a theorem states.

  \<^bold>\<open>Theories.\<close>
  \<^item> \<^verbatim>\<open>Prelude\<close>: integer types, flag macros of \<^verbatim>\<open>lw/types.h\<close>, reads, writes and copies of bytes, and the
    locale \<^verbatim>\<open>scalar_field\<close> with the laws of a field and of arrays of it, interpreted for 8, 16 and 32 bits
    and in \<^verbatim>\<open>Security_Privilege\<close> for a privilege with its attributes.
  \<^item> \<^verbatim>\<open>Rtl_Base\<close>: status codes, checked arithmetic (\<^verbatim>\<open>lw/safeint.h\<close>), allocation (\<^verbatim>\<open>rtlmemory.c\<close>) and the
    range test of \<^verbatim>\<open>security-includes.h\<close>.
  \<^item> \<^verbatim>\<open>Rtl_String\<close>: counted strings and number parsing (\<^verbatim>\<open>rtlstring_ansi.c\<close>, \<^verbatim>\<open>rtlstring_unicode.c\<close>) and the
    conversions of \<^verbatim>\<open>snprintf\<close> that are used.
  \<^item> \<^verbatim>\<open>Security_Sid\<close>: \<^verbatim>\<open>security-sid.c\<close> without strings.  The abstract identifier is the record
    \<^verbatim>\<open>SID\<close>; \<^verbatim>\<open>sid_of\<close> reads one from a block and \<^verbatim>\<open>sid_bytes\<close> is its image.  The well-known identifiers
    refine the table \<^verbatim>\<open>well_known_sid\<close>, which is the documented table \<^verbatim>\<open>documented_sid\<close> but for three types.
  \<^item> \<^verbatim>\<open>Security_Sid_String\<close>: printing and parsing.  One parser over words of any width stands for the two copies in
    the source; its loop terminates because every number read consumes a character.
  \<^item> \<^verbatim>\<open>Security_Ace\<close>: entries (\<^verbatim>\<open>security-acl.c\<close>, first part).
  \<^item> \<^verbatim>\<open>Security_Acl\<close>: lists by offset.  \<^verbatim>\<open>acl_at m a\<close> says that the block holds the abstract list: a header and
    well-formed entries that fit its size.  The locale \<^verbatim>\<open>ace_initializer\<close> is the contract of the three initialisers
    on which insertion relies.
  \<^item> \<^verbatim>\<open>Security_Acl_Index\<close>: lists by index and the functions that keep the canonical order, the invariant
    \<^verbatim>\<open>canonical\<close>; sequences of such calls.
  \<^item> \<^verbatim>\<open>Security_Acl_Codec\<close>: validation of untrusted lists, encoding and decoding.
  \<^item> \<^verbatim>\<open>Security_Sd\<close>: absolute descriptors (\<^verbatim>\<open>security-sd.c\<close>).  The invariant \<^verbatim>\<open>sd_header_ok\<close>, the step relation
    \<^verbatim>\<open>sd_step\<close> of the setters, the locales \<^verbatim>\<open>sd_sid_field\<close> and \<^verbatim>\<open>sd_acl_field\<close> for the shared getters and
    setters, and the abstraction \<^verbatim>\<open>sd_holds\<close>.
  \<^item> \<^verbatim>\<open>Security_Sd_Relative\<close>: self-relative descriptors: verification, lengths and both conversions.  The locale
    \<^verbatim>\<open>buffer_validator\<close> is the contract of the callbacks that validate one part.
  \<^item> \<^verbatim>\<open>Security_Token\<close>: tokens and the access check (\<^verbatim>\<open>security-token.c\<close>).  The stages of
    \<^verbatim>\<open>RtlAccessCheckEx\<close> are one definition each; they refine \<^verbatim>\<open>access_spec\<close>, a check over the set of identifiers
    of the token and the effects of the entries, which is then characterised right by right by \<^verbatim>\<open>first_match\<close>.
  \<^item> \<^verbatim>\<open>Access_Policy\<close>: lists built by the functions of \<^verbatim>\<open>Security_Acl_Index\<close> and read by the access check.
  \<^item> \<^verbatim>\<open>Security_Privilege\<close>: privilege sets (\<^verbatim>\<open>security-privileges.c\<close>), the privilege check and the adjustment of
    privileges (\<^verbatim>\<open>security-token.c\<close>), with the roll-back of a failed adjustment.
  \<^item> \<^verbatim>\<open>Security_Token_Create\<close>: creation of tokens and the query by class.  \<^verbatim>\<open>TOKEN\<close> is the abstract token,
    \<^verbatim>\<open>token_image\<close> what creation leaves in memory.
  \<^item> \<^verbatim>\<open>Security_Token_Relative\<close>: the self-relative form of tokens.  Encoding is shown to be a list of writes to
    places that do not overlap (\<^verbatim>\<open>token_writes\<close>), each of which decoding finds again.
  \<^item> \<^verbatim>\<open>Security_Sd_Info\<close>: reading and replacing chosen parts of a stored descriptor (\<^verbatim>\<open>security-sd.c\<close>, last part).
    \<^verbatim>\<open>rel_holds\<close> says what a self-relative descriptor holds; \<^verbatim>\<open>keep_sd\<close> and \<^verbatim>\<open>merge_sd\<close> are the
    specifications on the abstract descriptor.
  \<^item> \<^verbatim>\<open>Security_Sd_Inherit\<close>: \<^verbatim>\<open>security-sd-inherit.c\<close>, all of it, and the correctness of the inherited lists.
    The locale \<^verbatim>\<open>acl_builder\<close> is the contract of adding an entry to a list in its canonical place, interpreted for the
    entries of a DACL and for those of a SACL.
  \<^item> \<^verbatim>\<open>Security_Sd_Create\<close>: the correctness of the owner, the group, the two lists and the composition
    \<^verbatim>\<open>RtlCreatePrivateObjectSecurityEx\<close>.  The record \<^verbatim>\<open>creation\<close> is what a creation is given, and
    \<^verbatim>\<open>object_owner\<close>, \<^verbatim>\<open>object_group\<close>, \<^verbatim>\<open>object_dacl\<close>, \<^verbatim>\<open>object_sacl\<close> and \<^verbatim>\<open>object_control\<close> are what it makes of it.
  \<^item> \<^verbatim>\<open>Lw_Hash\<close>: hash tables (\<^verbatim>\<open>hash.c\<close>, first half).  Nodes belong to the client and live in a store from
    addresses to nodes; a place that holds a pointer to a node is a \<^verbatim>\<open>LINK\<close>.  \<^verbatim>\<open>table_ok\<close> says that the buckets
    hold disjoint chains of nodes with their digests and distinct keys; the locale \<^verbatim>\<open>hash_keys\<close> is the contract of the
    digest and the comparison.
  \<^item> \<^verbatim>\<open>Lw_Hash_Map\<close>: hash maps and the key functions (\<^verbatim>\<open>hash.c\<close>, second half), with the contract \<^verbatim>\<open>hash_keys\<close>
    interpreted for pointers, byte strings and wide strings; for the keys without case it is shown under which conditions
    it holds.  The allocator of nodes and the case conversions of the locale, for bytes and for wide characters, are
    parameters.

  \<^bold>\<open>What is shown.\<close>  For identifiers: the comparison, copying and extension functions compute what they should on
  the abstract identifier, the wire and string forms round-trip, and parsing is safe on every input.  For lists: the
  validators accept exactly the well-formed lists, the editing functions refine the operations on the abstract list of
  entries with every error branch, the iterator visits each entry once, and every sequence of additions with valid
  arguments keeps the canonical order; a refused addition with invalid ones moves entries, as a theorem states.  For descriptors: the setters keep the header invariant, and conversion to the self-relative form and
  back is the identity up to unused space; bytes that pass the validator always convert; a query returns and an update
  replaces exactly the parts that are named.  For new objects: the list made from those of the parent and the creator
  holds exactly the entries that are inherited or given, and the whole creation, from bytes to bytes, yields exactly the
  specified descriptor; the slips in the choice of the owner and in the test for a missing token are stated as
  theorems.  For tokens: the access check
  grants exactly the rights that the special rules or the first matching entry allow, which for a list built by the library
  are the rights granted and not denied; a failed check grants nothing; the privilege functions decide and change what they
  name, with the cases in which they do not; a created token answers queries with what it was given, and survives its
  self-relative form but for its default list.  For hash maps: every sequence of operations behaves like a partial
  function, iteration visits each node once, and resizing changes no answer.

  \<^bold>\<open>Loops and bounds.\<close>  Loops over \<^verbatim>\<open>AceCount\<close> or \<^verbatim>\<open>SubAuthorityCount\<close> recurse on the number of iterations
  left, so no fuel is needed; the loop of \<^verbatim>\<open>RtlpValidAceList\<close> and the parser are total functions with a termination
  proof.  The loop of the access check runs until the iterator ends; it is a partial function, and the theorems on it show
  that it returns.  Integers keep their width: sizes of lists are 16 bits, offsets 32 bits, and the sums that may wrap are sums of
  words.

  \<^bold>\<open>Not modelled.\<close>  Big-endian hosts; the \<^verbatim>\<open>Swab\<close> variants in \<^verbatim>\<open>security-sd.c\<close>; printing to 16-bit strings, which calls the conversion of another library; the lock of a
  token; the text form of descriptors; and the rest of the tree, which is services and tools over
  this library.
\<close>

end
